(* ===== verification/Prelude.thy ===== *)
theory Prelude
  imports Main "HOL-Library.AList" "HOL-Library.List_Lexorder" "HOL-Library.Char_ord"
begin

text \<open>
  Shared vocabulary of the development: Python dictionaries as insertion-ordered
  association lists, exceptions as values of a sum type, and the two contracts that the
  stateful components share (an invariant kept by every operation, and entries whose
  final status no operation leaves).
\<close>

section \<open>Collections of facts\<close>

named_theorems dict_simps \<open>how lookups see dictionary updates\<close>
named_theorems inv_intros \<open>operations keep the invariant of their component\<close>

section \<open>Exceptions as values\<close>

text \<open>The exception classes that the modelled functions raise, with their message.\<close>

datatype py_exc =
    KeyError string
  | ValueError string
  | PermissionError string
  | RuntimeError string
  | WorkerUnavailable string
  | TypeError string
  | OverflowError string
  | AttributeError string
  | HTTPException int string
  | ExtensionContractError string

type_synonym 'a result = "py_exc + 'a"

definition is_ok :: "'a result \<Rightarrow> bool" where
  "is_ok r = (case r of Inl _ \<Rightarrow> False | Inr _ \<Rightarrow> True)"

lemma is_ok_simps [simp]: "is_ok (Inr x)" "\<not> is_ok (Inl e)"
  by (simp_all add: is_ok_def)

text \<open>What follows a call that may raise: the exception passes, a result goes on.\<close>

definition rbind :: "'a result \<Rightarrow> ('a \<Rightarrow> 'b result) \<Rightarrow> 'b result" where
  "rbind r f = (case r of Inl e \<Rightarrow> Inl e | Inr x \<Rightarrow> f x)"

lemma rbind_simps [simp]: "rbind (Inl e) f = Inl e" "rbind (Inr x) f = f x"
  by (simp_all add: rbind_def)

lemma rbind_Inr_iff: "rbind r f = Inr y \<longleftrightarrow> (\<exists>x. r = Inr x \<and> f x = Inr y)"
  by (cases r) auto

lemma rbind_InrE:
  assumes "rbind r f = Inr y"
  obtains x where "r = Inr x" "f x = Inr y"
  using assms by (auto simp: rbind_Inr_iff)

text \<open>A check, and a comprehension over a fallible function: the first error ends it.\<close>

definition require :: "bool \<Rightarrow> py_exc \<Rightarrow> unit result" where
  "require b e = (if b then Inr () else Inl e)"

lemma require_simps [simp]: "require True e = Inr ()" "require False e = Inl e" "(require b e = Inr u) = b"
  by (simp_all add: require_def)

fun rmap :: "('a \<Rightarrow> 'b result) \<Rightarrow> 'a list \<Rightarrow> 'b list result" where
  "rmap f [] = Inr []"
| "rmap f (x # xs) = rbind (f x) (\<lambda>y. rbind (rmap f xs) (\<lambda>ys. Inr (y # ys)))"

lemma rmap_Inr_iff: "rmap f xs = Inr ys \<longleftrightarrow> list_all2 (\<lambda>x y. f x = Inr y) xs ys"
proof (induction xs arbitrary: ys)
  case (Cons x xs)
  then show ?case by (cases ys) (auto simp: rbind_Inr_iff)
qed auto

lemma rmap_results: "rmap f xs = Inr ys \<Longrightarrow> y \<in> set ys \<Longrightarrow> \<exists>x \<in> set xs. f x = Inr y"
  by (induction xs arbitrary: ys) (auto simp: rbind_Inr_iff)

lemma rmap_length: "rmap f xs = Inr ys \<Longrightarrow> length ys = length xs"
  by (auto simp: rmap_Inr_iff dest: list_all2_lengthD)

lemma rmap_fixed: "(\<And>y. y \<in> set ys \<Longrightarrow> f (g y) = Inr y) \<Longrightarrow> rmap f (map g ys) = Inr ys"
  by (induction ys) auto

section \<open>Python dictionaries\<close>

text \<open>
  A dictionary with string keys keeps its insertion order: assigning to a present key
  keeps its place, assigning to an absent one appends, and \<open>pop\<close> removes. The
  library's \<open>AList.update\<close> and \<open>AList.delete\<close> do exactly this.
\<close>

type_synonym 'v dict = "(string \<times> 'v) list"

abbreviation dget :: "'v dict \<Rightarrow> string \<Rightarrow> 'v option" where
  "dget d k \<equiv> map_of d k"

abbreviation dset :: "string \<Rightarrow> 'v \<Rightarrow> 'v dict \<Rightarrow> 'v dict" where
  "dset k v d \<equiv> AList.update k v d"

abbreviation dpop :: "string \<Rightarrow> 'v dict \<Rightarrow> 'v dict" where
  "dpop k d \<equiv> AList.delete k d"

abbreviation dkeys :: "'v dict \<Rightarrow> string list" where
  "dkeys d \<equiv> map fst d"

abbreviation dvals :: "'v dict \<Rightarrow> 'v list" where
  "dvals d \<equiv> map snd d"

abbreviation wf_dict :: "'v dict \<Rightarrow> bool" where
  "wf_dict d \<equiv> distinct (dkeys d)"

text \<open>A loop over \<open>d.values()\<close> that rewrites each row in place.\<close>

definition dmap :: "('v \<Rightarrow> 'w) \<Rightarrow> 'v dict \<Rightarrow> 'w dict" where
  "dmap f d = map (\<lambda>(k, v). (k, f v)) d"

text \<open>\<open>d.setdefault(k, v)\<close>.\<close>

definition dsetdefault :: "string \<Rightarrow> 'v \<Rightarrow> 'v dict \<Rightarrow> 'v dict" where
  "dsetdefault k v d = (case dget d k of None \<Rightarrow> dset k v d | Some _ \<Rightarrow> d)"

lemma dget_dset [simp, dict_simps]: "dget (dset k v d) k' = (if k' = k then Some v else dget d k')"
  by (simp add: update_conv')

lemma dget_dpop [simp, dict_simps]: "dget (dpop k d) k' = (if k' = k then None else dget d k')"
  by (simp add: delete_conv')

lemma dget_dmap [simp, dict_simps]: "dget (dmap f d) k = map_option f (dget d k)"
  by (induction d) (auto simp: dmap_def)

lemma dkeys_dmap [simp]: "dkeys (dmap f d) = dkeys d"
  by (induction d) (auto simp: dmap_def)

lemma dvals_dmap [simp]: "dvals (dmap f d) = map f (dvals d)"
  by (induction d) (auto simp: dmap_def)

lemma dmap_Nil [simp]: "dmap f [] = []"
  by (simp add: dmap_def)

lemma dmap_Cons [simp]: "dmap f ((k, v) # d) = (k, f v) # dmap f d"
  by (simp add: dmap_def)

lemma wf_dset [simp]: "wf_dict d \<Longrightarrow> wf_dict (dset k v d)"
  by (rule distinct_update)

lemma wf_dpop [simp]: "wf_dict d \<Longrightarrow> wf_dict (dpop k d)"
  by (rule distinct_delete)

lemma wf_dget_iff: "wf_dict d \<Longrightarrow> (k, v) \<in> set d \<longleftrightarrow> dget d k = Some v"
  by simp

text \<open>Lookups stay lookups: the library would turn them into membership of the list.\<close>

declare map_of_eq_Some_iff [simp del]

lemma dget_in_vals: "dget d k = Some v \<Longrightarrow> v \<in> set (dvals d)"
  by (force dest: map_of_SomeD)

lemma in_vals_dget: "wf_dict d \<Longrightarrow> v \<in> set (dvals d) \<Longrightarrow> \<exists>k. dget d k = Some v"
  by (force simp: wf_dget_iff [symmetric])

lemma dget_None_dkeys: "dget d k = None \<longleftrightarrow> k \<notin> set (dkeys d)"
  by (induction d) auto

lemma dkeys_dset [simp]: "fst ` set (dset k v d) = insert k (fst ` set d)"
  by (induction d) auto

lemma dkeys_dpop [simp]: "fst ` set (dpop k d) = fst ` set d - {k}"
  by (induction d) auto

lemma dset_absent: "k \<notin> set (dkeys d) \<Longrightarrow> dset k v d = d @ [(k, v)]"
  by (induction d) auto

lemma dvals_dset_subset: "set (dvals (dset k v d)) \<subseteq> insert v (set (dvals d))"
  by (induction d) auto

text \<open>A comprehension that keeps some of the items.\<close>

lemma dget_filter:
  "wf_dict d \<Longrightarrow> dget (filter (\<lambda>(k, v). P v) d) k =
     (case dget d k of None \<Rightarrow> None | Some v \<Rightarrow> if P v then Some v else None)"
  by (induction d) (auto split: option.splits simp: dget_None_dkeys)

lemma wf_filter: "wf_dict d \<Longrightarrow> wf_dict (filter P d)"
  by (induction d) auto

lemma filter_dmap_twice:
  "(\<And>v. f (f v) = f v) \<Longrightarrow>
     filter (\<lambda>(k, v). P v) (dmap f (filter (\<lambda>(k, v). P v) (dmap f d))) = filter (\<lambda>(k, v). P v) (dmap f d)"
  by (induction d) (simp_all add: case_prod_unfold dmap_def)

text \<open>How many values of a dictionary satisfy a predicate.\<close>

definition dcount :: "('v \<Rightarrow> bool) \<Rightarrow> 'v dict \<Rightarrow> nat" where
  "dcount P d = length (filter P (dvals d))"

lemma dcount_Nil [simp]: "dcount P [] = 0"
  by (simp add: dcount_def)

lemma dcount_dmap: "(\<And>v. P (f v) = P v) \<Longrightarrow> dcount P (dmap f d) = dcount P d"
  by (induction d) (auto simp: dcount_def)

lemma dcount_absent [simp]: "k \<notin> fst ` set d \<Longrightarrow> dcount P (dset k v d) = dcount P d + of_bool (P v)"
  by (simp add: dset_absent dcount_def)

lemma dcount_present:
  "wf_dict d \<Longrightarrow> dget d k = Some v0 \<Longrightarrow> dcount P (dset k v d) + of_bool (P v0) = dcount P d + of_bool (P v)"
  by (induction d) (auto simp: dcount_def split: if_splits)

lemma dcount_same:
  "wf_dict d \<Longrightarrow> dget d k = Some v0 \<Longrightarrow> P v = P v0 \<Longrightarrow> dcount P (dset k v d) = dcount P d"
  using dcount_present [of d k v0 P v] by simp

lemma dpop_absent: "k \<notin> fst ` set d \<Longrightarrow> dpop k d = d"
  by (induction d) auto

lemma dcount_dpop:
  "wf_dict d \<Longrightarrow> dget d k = Some v \<Longrightarrow> dcount P (dpop k d) + of_bool (P v) = dcount P d"
  by (induction d) (auto simp: dcount_def dpop_absent split: if_splits)

lemma dcount_zero: "dcount P d = 0 \<longleftrightarrow> (\<forall>v \<in> set (dvals d). \<not> P v)"
  by (auto simp: dcount_def filter_empty_conv)

text \<open>The dictionary interface, as the components use it, and its implementation.\<close>

locale py_dictionary =
  fixes get :: "'d \<Rightarrow> string \<Rightarrow> 'v option"
    and put :: "string \<Rightarrow> 'v \<Rightarrow> 'd \<Rightarrow> 'd"
    and pop :: "string \<Rightarrow> 'd \<Rightarrow> 'd"
    and wf :: "'d \<Rightarrow> bool"
  assumes get_put: "get (put k v d) k' = (if k' = k then Some v else get d k')"
    and get_pop: "get (pop k d) k' = (if k' = k then None else get d k')"
    and wf_put: "wf d \<Longrightarrow> wf (put k v d)"
    and wf_pop: "wf d \<Longrightarrow> wf (pop k d)"
begin

lemma get_put_other: "k' \<noteq> k \<Longrightarrow> get (put k v d) k' = get d k'"
  by (simp add: get_put)

lemma pop_put: "get (pop k (put k v d)) = get (pop k d)"
  by (rule ext) (simp add: get_pop get_put)

lemma all_put:
  assumes "\<And>k' v'. get d k' = Some v' \<Longrightarrow> P k' v'" "P k v" "get (put k v d) k' = Some v'"
  shows "P k' v'"
  using assms by (auto simp: get_put split: if_splits)

end

interpretation alist_dict: py_dictionary map_of AList.update AList.delete "\<lambda>d. distinct (map fst d)"
  by unfold_locales (simp_all add: update_conv' delete_conv' distinct_update distinct_delete)

section \<open>Runs of a component\<close>

text \<open>
  A component is a state and one step function over its operations; a run feeds it a list
  of operations. An invariant that each operation keeps holds after every run.
\<close>

fun run :: "('s \<Rightarrow> 'e \<Rightarrow> 's) \<Rightarrow> 's \<Rightarrow> 'e list \<Rightarrow> 's" where
  "run step s [] = s"
| "run step s (e # es) = run step (step s e) es"

lemma run_append: "run step s (xs @ ys) = run step (run step s xs) ys"
  by (induction xs arbitrary: s) auto

locale guarded_system =
  fixes step :: "'s \<Rightarrow> 'e \<Rightarrow> 's" and inv :: "'s \<Rightarrow> bool" and allowed :: "'e \<Rightarrow> bool"
  assumes guarded_step: "inv s \<Longrightarrow> allowed e \<Longrightarrow> inv (step s e)"
begin

lemma guarded_run: "inv s \<Longrightarrow> list_all allowed es \<Longrightarrow> inv (run step s es)"
  by (induction es arbitrary: s) (auto intro: guarded_step)

end

text \<open>An invariant that every operation keeps, without a guard.\<close>

locale invariant_system =
  fixes step :: "'s \<Rightarrow> 'e \<Rightarrow> 's" and inv :: "'s \<Rightarrow> bool"
  assumes step_inv: "inv s \<Longrightarrow> inv (step s e)"

sublocale invariant_system \<subseteq> guarded_system step inv "\<lambda>_. True"
  by unfold_locales (rule step_inv)

context invariant_system
begin

lemma run_inv: "inv s \<Longrightarrow> inv (run step s es)"
  by (rule guarded_run) (simp_all add: list_all_iff)

lemma run_prefix_inv: "inv s \<Longrightarrow> es = xs @ ys \<Longrightarrow> inv (run step s xs)"
  by (simp add: run_inv)

end

text \<open>
  A table of entries with a status of which some values are final: no operation takes an
  entry out of a final status.
\<close>

locale final_status_system = invariant_system step inv
  for step :: "'s \<Rightarrow> 'e \<Rightarrow> 's" and inv :: "'s \<Rightarrow> bool" +
  fixes status :: "'s \<Rightarrow> 'k \<Rightarrow> 'v option" and final :: "'v \<Rightarrow> bool"
  assumes final_step:
    "inv s \<Longrightarrow> status s k = Some v \<Longrightarrow> final v \<Longrightarrow> \<exists>v'. status (step s e) k = Some v' \<and> final v'"
begin

lemma final_run:
  "inv s \<Longrightarrow> status s k = Some v \<Longrightarrow> final v \<Longrightarrow> \<exists>v'. status (run step s es) k = Some v' \<and> final v'"
proof (induction es arbitrary: s v)
  case Nil
  then show ?case by simp
next
  case (Cons e es)
  then obtain v' where "status (step s e) k = Some v'" "final v'"
    using final_step by blast
  then show ?case using Cons.IH [of "step s e"] Cons.prems(1) step_inv by simp
qed

lemma never_nonfinal_again:
  "inv s \<Longrightarrow> status s k = Some v \<Longrightarrow> final v \<Longrightarrow> status (run step s es) k = Some w \<Longrightarrow> final w"
  by (drule (2) final_run [where es = es]) simp

end

section \<open>Lists\<close>

text \<open>Python's \<open>next((x for x in xs if p(x)), None)\<close>.\<close>

lemma find_SomeD: "find p xs = Some x \<Longrightarrow> x \<in> set xs \<and> p x"
  by (induction xs) (auto split: if_splits)

lemma find_None_iff_all: "find p xs = None \<longleftrightarrow> (\<forall>x \<in> set xs. \<not> p x)"
  by (induction xs) auto

text \<open>\<open>xs[-n:]\<close> for a non-negative \<open>n\<close> (all of the list when \<open>n\<close> is its length or more).\<close>

definition last_n :: "nat \<Rightarrow> 'a list \<Rightarrow> 'a list" where
  "last_n n xs = drop (length xs - n) xs"

lemma length_last_n [simp]: "length (last_n n xs) = min n (length xs)"
  by (simp add: last_n_def)

lemma set_last_n: "set (last_n n xs) \<subseteq> set xs"
  by (simp add: last_n_def set_drop_subset)

lemma last_n_append: "last_n n (last_n n xs @ ys) = last_n n (xs @ ys)"
  by (cases "n \<le> length xs") (simp_all add: last_n_def add.commute)

text \<open>
  \<open>max(xs, key=f)\<close> keeps the first of several maximal elements; \<open>sorted(xs, key=f,
  reverse=True)[0]\<close> is the same element, since the sort is stable in both directions.
\<close>

fun first_max :: "('a \<Rightarrow> 'b::linorder) \<Rightarrow> 'a list \<Rightarrow> 'a option" where
  "first_max f [] = None"
| "first_max f (x # xs) =
     (case first_max f xs of None \<Rightarrow> Some x | Some y \<Rightarrow> Some (if f x < f y then y else x))"

lemma first_max_None [simp]: "first_max f xs = None \<longleftrightarrow> xs = []"
  by (cases xs) (auto split: option.splits)

lemma first_max_in: "first_max f xs = Some x \<Longrightarrow> x \<in> set xs"
  by (induction xs arbitrary: x) (auto split: option.splits if_splits)

lemma first_max_ge: "first_max f xs = Some x \<Longrightarrow> y \<in> set xs \<Longrightarrow> f y \<le> f x"
proof (induction xs arbitrary: x)
  case Nil
  then show ?case by simp
next
  case (Cons a xs)
  show ?case
  proof (cases "first_max f xs")
    case None
    with Cons.prems show ?thesis by simp
  next
    case (Some z)
    from Cons.prems(1) Some have x: "x = (if f a < f z then z else a)" by simp
    show ?thesis
    proof (cases "y = a")
      case True
      with x show ?thesis by auto
    next
      case False
      with Cons.prems(2) have "f y \<le> f z" using Cons.IH [OF Some] by simp
      with x show ?thesis by (auto split: if_splits)
    qed
  qed
qed

end
