(* ===== verification/PyValue.thy ===== *)
theory PyValue
  imports Prelude
begin

text \<open>
  The values and string operations of Python that the modelled code uses: JSON-like
  values with their truth value, \<open>str\<close>, \<open>repr\<close>, equality and \<open>json.dumps\<close>,
  and the methods of \<open>str\<close>.

  A \<open>char\<close> is a code point below 256 (Latin-1), so \<open>length\<close> counts code points as
  \<open>len\<close> does; text outside that range is not represented. A float is carried by the
  text of its \<open>repr\<close>, which determines it and which \<open>str\<close> and \<open>json.dumps\<close> print.
\<close>

section \<open>Characters\<close>

definition code :: "char \<Rightarrow> nat" where
  "code c = of_char c"

definition is_space :: "char \<Rightarrow> bool" where
  "is_space c = (let n = code c in
     (9 \<le> n \<and> n \<le> 13) \<or> (28 \<le> n \<and> n \<le> 32) \<or> n = 133 \<or> n = 160)"

definition is_digit :: "char \<Rightarrow> bool" where
  "is_digit c = (let n = code c in 48 \<le> n \<and> n \<le> 57)"

text \<open>Letters, digits and numeric signs of Latin-1, and the underscore: the class \<open>\\w\<close>.\<close>

definition is_word :: "char \<Rightarrow> bool" where
  "is_word c = (let n = code c in
     (48 \<le> n \<and> n \<le> 57) \<or> (65 \<le> n \<and> n \<le> 90) \<or> (97 \<le> n \<and> n \<le> 122) \<or> n = 95 \<or>
     n = 170 \<or> n = 178 \<or> n = 179 \<or> n = 181 \<or> n = 185 \<or> n = 186 \<or> (188 \<le> n \<and> n \<le> 190) \<or>
     (192 \<le> n \<and> n \<le> 255 \<and> n \<noteq> 215 \<and> n \<noteq> 247))"

definition lower_char :: "char \<Rightarrow> char" where
  "lower_char c = (let n = code c in
     if (65 \<le> n \<and> n \<le> 90) \<or> (192 \<le> n \<and> n \<le> 222 \<and> n \<noteq> 215) then char_of (n + 32) else c)"

text \<open>Three letters of Latin-1 have no upper case within it and stay as they are.\<close>

definition upper_char :: "char \<Rightarrow> char" where
  "upper_char c = (let n = code c in
     if (97 \<le> n \<and> n \<le> 122) \<or> (224 \<le> n \<and> n \<le> 254 \<and> n \<noteq> 247) then char_of (n - 32) else c)"

section \<open>Methods of strings\<close>

definition lower :: "string \<Rightarrow> string" where "lower s = map lower_char s"
definition upper :: "string \<Rightarrow> string" where "upper s = map upper_char s"

definition lstrip :: "string \<Rightarrow> string" where "lstrip s = dropWhile is_space s"
definition rstrip :: "string \<Rightarrow> string" where "rstrip s = rev (dropWhile is_space (rev s))"
definition strip :: "string \<Rightarrow> string" where "strip s = rstrip (lstrip s)"

definition starts_with :: "string \<Rightarrow> string \<Rightarrow> bool" where
  "starts_with p s = (take (length p) s = p)"

definition ends_with :: "string \<Rightarrow> string \<Rightarrow> bool" where
  "ends_with p s = (length p \<le> length s \<and> drop (length s - length p) s = p)"

definition newline :: string where "newline = [CHR 0x0A]"

text \<open>\<open>p in s\<close>.\<close>

fun contains :: "string \<Rightarrow> string \<Rightarrow> bool" where
  "contains p [] = (p = [])"
| "contains p (c # s) = (starts_with p (c # s) \<or> contains p s)"

text \<open>\<open>sep.join(xs)\<close>.\<close>

fun join :: "string \<Rightarrow> string list \<Rightarrow> string" where
  "join sep [] = []"
| "join sep [x] = x"
| "join sep (x # y # xs) = x @ sep @ join sep (y # xs)"

text \<open>\<open>s.split()\<close>: the maximal runs of characters that are not white space.\<close>

function split_ws :: "string \<Rightarrow> string list" where
  "split_ws s =
     (case lstrip s of
        [] \<Rightarrow> []
      | c # r \<Rightarrow> (c # takeWhile (\<lambda>x. \<not> is_space x) r) # split_ws (dropWhile (\<lambda>x. \<not> is_space x) r))"
  by pat_completeness auto
termination
proof (relation "measure length", simp)
  fix s c r
  assume "lstrip s = c # r"
  then have "length (c # r) \<le> length s"
    by (metis length_dropWhile_le lstrip_def)
  then show "(dropWhile (\<lambda>x. \<not> is_space x) r, s) \<in> measure length"
    using length_dropWhile_le [of "\<lambda>x. \<not> is_space x" r] by simp
qed

declare split_ws.simps [simp del]

text \<open>\<open>s.split(c)\<close> for a separator of one character.\<close>

fun split_on :: "char \<Rightarrow> string \<Rightarrow> string list" where
  "split_on c [] = [[]]"
| "split_on c (x # s) =
     (if x = c then [] # split_on c s
      else case split_on c s of [] \<Rightarrow> [[x]] | p # ps \<Rightarrow> (x # p) # ps)"

text \<open>\<open>s.replace(a, b)\<close> for single characters.\<close>

definition replace_char :: "char \<Rightarrow> char \<Rightarrow> string \<Rightarrow> string" where
  "replace_char a b s = map (\<lambda>c. if c = a then b else c) s"

section \<open>Integers as text\<close>

fun show_nat :: "nat \<Rightarrow> string" where
  "show_nat n = (if n < 10 then [char_of (48 + n)] else show_nat (n div 10) @ [char_of (48 + n mod 10)])"

declare show_nat.simps [simp del]

definition show_int :: "int \<Rightarrow> string" where
  "show_int i = (if i < 0 then CHR ''-'' # show_nat (nat (- i)) else show_nat (nat i))"

text \<open>Digits with single underscores between them, most significant first.\<close>

fun parse_digits :: "int \<Rightarrow> string \<Rightarrow> int option" where
  "parse_digits acc [] = Some acc"
| "parse_digits acc (c # s) =
     (if is_digit c then parse_digits (10 * acc + int (code c - 48)) s
      else if c = CHR ''_'' then
        (case s of d # r \<Rightarrow> if is_digit d then parse_digits (10 * acc + int (code d - 48)) r else None
         | [] \<Rightarrow> None)
      else None)"

text \<open>\<open>int(s)\<close> of a string; \<open>None\<close> stands for the \<open>ValueError\<close>.\<close>

definition parse_int :: "string \<Rightarrow> int option" where
  "parse_int s0 =
     (let s = strip s0;
          (neg, body) = (case s of c # r \<Rightarrow> if c = CHR ''-'' then (True, r)
                           else if c = CHR ''+'' then (False, r) else (False, s) | [] \<Rightarrow> (False, s))
      in case body of [] \<Rightarrow> None
         | c # _ \<Rightarrow> if is_digit c then map_option (\<lambda>n. if neg then - n else n) (parse_digits 0 body) else None)"

section \<open>Values\<close>

datatype pyval =
    PNone
  | PBool bool
  | PInt int
  | PFloat string
  | PStr string
  | PList "pyval list"
  | PTuple "pyval list"
  | PDict "(string \<times> pyval) list"

text \<open>A file of JSON: absent, present but not readable as JSON, or a JSON value.\<close>

datatype registry_file = Absent | Unreadable | Holds pyval

definition truthy :: "pyval \<Rightarrow> bool" where
  "truthy v = (case v of
      PNone \<Rightarrow> False | PBool b \<Rightarrow> b | PInt i \<Rightarrow> i \<noteq> 0
    | PFloat s \<Rightarrow> s \<noteq> ''0.0'' \<and> s \<noteq> ''-0.0''
    | PStr s \<Rightarrow> s \<noteq> [] | PList xs \<Rightarrow> xs \<noteq> [] | PTuple xs \<Rightarrow> xs \<noteq> [] | PDict d \<Rightarrow> d \<noteq> [])"

lemma truthy_simps [simp]:
  "\<not> truthy PNone" "truthy (PBool b) = b" "truthy (PInt i) = (i \<noteq> 0)"
  "truthy (PStr s) = (s \<noteq> [])" "truthy (PList xs) = (xs \<noteq> [])" "truthy (PTuple xs) = (xs \<noteq> [])"
  "truthy (PDict d) = (d \<noteq> [])"
  by (simp_all add: truthy_def)

text \<open>\<open>a or b\<close>.\<close>

definition py_or :: "pyval \<Rightarrow> pyval \<Rightarrow> pyval" where
  "py_or a b = (if truthy a then a else b)"

text \<open>\<open>d.get(k)\<close>, with \<open>None\<close> for an absent key, and \<open>d.get(k, v)\<close>.\<close>

definition pget :: "pyval dict \<Rightarrow> string \<Rightarrow> pyval" where
  "pget d k = (case dget d k of None \<Rightarrow> PNone | Some v \<Rightarrow> v)"

definition pget_or :: "pyval dict \<Rightarrow> string \<Rightarrow> pyval \<Rightarrow> pyval" where
  "pget_or d k v = (case dget d k of None \<Rightarrow> v | Some w \<Rightarrow> w)"

lemma pget_Cons [simp]: "pget ((k, v) # d) k' = (if k' = k then v else pget d k')"
  by (simp add: pget_def)

lemma pget_Nil [simp]: "pget [] k = PNone"
  by (simp add: pget_def)

lemma pget_dset [simp, dict_simps]: "pget (dset k v d) k' = (if k' = k then v else pget d k')"
  by (simp add: pget_def)

text \<open>\<open>isinstance(v, Mapping)\<close> and the dictionary it is, or an empty one.\<close>

definition is_mapping :: "pyval \<Rightarrow> bool" where
  "is_mapping v = (case v of PDict _ \<Rightarrow> True | _ \<Rightarrow> False)"

definition as_mapping :: "pyval \<Rightarrow> pyval dict" where
  "as_mapping v = (case v of PDict d \<Rightarrow> d | _ \<Rightarrow> [])"

lemma mapping_simps [simp]:
  "is_mapping (PDict d)" "as_mapping (PDict d) = d" "as_mapping PNone = []" "\<not> is_mapping PNone"
  "\<not> is_mapping (PStr s)" "\<not> is_mapping (PList xs)" "\<not> is_mapping (PInt i)" "\<not> is_mapping (PBool b)"
  by (simp_all add: is_mapping_def as_mapping_def)

text \<open>
  \<open>dict(v or {})\<close>: a copy of a mapping, or of a sequence of pairs; anything else raises. A key that is
  not a text has no counterpart among the values of the model and is counted as an error.
\<close>

fun pair_of :: "pyval \<Rightarrow> (string \<times> pyval) option" where
  "pair_of (PList [PStr k, v]) = Some (k, v)"
| "pair_of (PTuple [PStr k, v]) = Some (k, v)"
| "pair_of (PStr [a, b]) = Some ([a], PStr [b])"
| "pair_of (PDict [(k, _), (k', _)]) = Some (k, PStr k')"
| "pair_of _ = None"

definition dict_of_pairs :: "pyval list \<Rightarrow> pyval dict result" where
  "dict_of_pairs xs =
     (if list_all (\<lambda>x. pair_of x \<noteq> None) xs
      then Inr (foldl (\<lambda>d x. case pair_of x of Some (k, v) \<Rightarrow> dset k v d | None \<Rightarrow> d) [] xs)
      else Inl (TypeError ''dict''))"

definition py_dict :: "pyval \<Rightarrow> pyval dict result" where
  "py_dict v =
     (if \<not> truthy v then Inr []
      else case v of
          PDict d \<Rightarrow> Inr d
        | PList xs \<Rightarrow> dict_of_pairs xs
        | PTuple xs \<Rightarrow> dict_of_pairs xs
        | PStr s \<Rightarrow> Inl (ValueError ''dict'')
        | _ \<Rightarrow> Inl (TypeError ''dict''))"

lemma py_dict_simps [simp]: "py_dict (PDict d) = Inr d" "py_dict PNone = Inr []"
  by (simp_all add: py_dict_def)

section \<open>\<open>str\<close> and \<open>repr\<close>\<close>

definition hex_digit :: "nat \<Rightarrow> char" where
  "hex_digit n = char_of (if n < 10 then 48 + n else 87 + n)"

definition repr_char :: "char \<Rightarrow> char \<Rightarrow> string" where
  "repr_char q c = (let n = code c in
     if c = q \<or> c = CHR 0x5C then [CHR 0x5C, c]
     else if n = 10 then [CHR 0x5C, CHR ''n''] else if n = 13 then [CHR 0x5C, CHR ''r'']
     else if n = 9 then [CHR 0x5C, CHR ''t'']
     else if n < 32 \<or> (127 \<le> n \<and> n \<le> 160) \<or> n = 173
       then [CHR 0x5C, CHR ''x'', hex_digit (n div 16), hex_digit (n mod 16)]
     else [c])"

definition repr_str :: "string \<Rightarrow> string" where
  "repr_str s =
     (let q = (if CHR 0x27 \<in> set s \<and> CHR 0x22 \<notin> set s then CHR 0x22 else CHR 0x27)
      in [q] @ concat (map (repr_char q) s) @ [q])"

primrec py_repr :: "pyval \<Rightarrow> string" where
  "py_repr PNone = ''None''"
| "py_repr (PBool b) = (if b then ''True'' else ''False'')"
| "py_repr (PInt i) = show_int i"
| "py_repr (PFloat s) = s"
| "py_repr (PStr s) = repr_str s"
| "py_repr (PList xs) = ''['' @ join '', '' (map py_repr xs) @ '']''"
| "py_repr (PTuple xs) =
     (case map py_repr xs of [x] \<Rightarrow> ''('' @ x @ '',)'' | ys \<Rightarrow> ''('' @ join '', '' ys @ '')'')"
| "py_repr (PDict d) =
     ''{'' @ join '', '' (map (\<lambda>(k, r). repr_str k @ '': '' @ r) (map (map_prod id py_repr) d)) @ ''}''"

definition py_str :: "pyval \<Rightarrow> string" where
  "py_str v = (case v of PStr s \<Rightarrow> s | _ \<Rightarrow> py_repr v)"

lemma py_str_PStr [simp]: "py_str (PStr s) = s"
  by (simp add: py_str_def)

text \<open>The idiom \<open>str(v or "")\<close>.\<close>

definition str_or :: "pyval \<Rightarrow> string" where
  "str_or v = (if truthy v then py_str v else [])"

lemma str_or_simps [simp]: "str_or PNone = []" "str_or (PStr s) = s"
  by (simp_all add: str_or_def)

section \<open>Equality\<close>

text \<open>The integer a float's text denotes, when its fraction is zero.\<close>

definition float_int :: "string \<Rightarrow> int option" where
  "float_int s = (if ends_with ''.0'' s then parse_int (take (length s - 2) s) else None)"

text \<open>
  A normal form for \<open>==\<close>: \<open>True == 1 == 1.0\<close>, and the order of a dictionary's keys does
  not count.
\<close>

primrec eq_norm :: "pyval \<Rightarrow> pyval" where
  "eq_norm PNone = PNone"
| "eq_norm (PBool b) = PInt (if b then 1 else 0)"
| "eq_norm (PInt i) = PInt i"
| "eq_norm (PFloat s) = (case float_int s of None \<Rightarrow> PFloat s | Some i \<Rightarrow> PInt i)"
| "eq_norm (PStr s) = PStr s"
| "eq_norm (PList xs) = PList (map eq_norm xs)"
| "eq_norm (PTuple xs) = PTuple (map eq_norm xs)"
| "eq_norm (PDict d) = PDict (sort_key fst (map (map_prod id eq_norm) d))"

definition py_eq :: "pyval \<Rightarrow> pyval \<Rightarrow> bool" where
  "py_eq a b = (eq_norm a = eq_norm b)"

lemma py_eq_refl [simp]: "py_eq a a"
  by (simp add: py_eq_def)

lemma py_eq_trans: "py_eq a b \<Longrightarrow> py_eq b c \<Longrightarrow> py_eq a c"
  by (simp add: py_eq_def)

section \<open>\<open>json.dumps\<close>\<close>

definition hex4 :: "nat \<Rightarrow> string" where
  "hex4 n = [hex_digit (n div 4096 mod 16), hex_digit (n div 256 mod 16),
             hex_digit (n div 16 mod 16), hex_digit (n mod 16)]"

definition json_char :: "bool \<Rightarrow> char \<Rightarrow> string" where
  "json_char ascii c = (let n = code c in
     if n = 34 \<or> n = 92 then [CHR 0x5C, c]
     else if n = 10 then [CHR 0x5C, CHR ''n''] else if n = 13 then [CHR 0x5C, CHR ''r'']
     else if n = 9 then [CHR 0x5C, CHR ''t''] else if n = 12 then [CHR 0x5C, CHR ''f'']
     else if n = 8 then [CHR 0x5C, CHR ''b'']
     else if n < 32 \<or> (ascii \<and> 126 < n) then [CHR 0x5C, CHR ''u''] @ hex4 n
     else [c])"

definition json_string :: "bool \<Rightarrow> string \<Rightarrow> string" where
  "json_string ascii s = [CHR 0x22] @ concat (map (json_char ascii) s) @ [CHR 0x22]"

text \<open>\<open>dumps\<close> with \<open>ensure_ascii\<close> and the item and key separators.\<close>

primrec dumps :: "bool \<Rightarrow> string \<Rightarrow> string \<Rightarrow> pyval \<Rightarrow> string" where
  "dumps a isep ksep PNone = ''null''"
| "dumps a isep ksep (PBool b) = (if b then ''true'' else ''false'')"
| "dumps a isep ksep (PInt i) = show_int i"
| "dumps a isep ksep (PFloat s) = s"
| "dumps a isep ksep (PStr s) = json_string a s"
| "dumps a isep ksep (PList xs) = ''['' @ join isep (map (dumps a isep ksep) xs) @ '']''"
| "dumps a isep ksep (PTuple xs) = ''['' @ join isep (map (dumps a isep ksep) xs) @ '']''"
| "dumps a isep ksep (PDict d) =
     ''{'' @ join isep (map (\<lambda>(k, r). json_string a k @ ksep @ r) (map (map_prod id (dumps a isep ksep)) d)) @ ''}''"

primrec sort_keys_deep :: "pyval \<Rightarrow> pyval" where
  "sort_keys_deep PNone = PNone"
| "sort_keys_deep (PBool b) = PBool b"
| "sort_keys_deep (PInt i) = PInt i"
| "sort_keys_deep (PFloat s) = PFloat s"
| "sort_keys_deep (PStr s) = PStr s"
| "sort_keys_deep (PList xs) = PList (map sort_keys_deep xs)"
| "sort_keys_deep (PTuple xs) = PTuple (map sort_keys_deep xs)"
| "sort_keys_deep (PDict d) = PDict (sort_key fst (map (map_prod id sort_keys_deep) d))"

text \<open>\<open>json.dumps(v, sort_keys=True, separators=(",", ":"))\<close>.\<close>

definition dumps_canonical :: "pyval \<Rightarrow> string" where
  "dumps_canonical v = dumps True '','' '':'' (sort_keys_deep v)"

text \<open>\<open>json.dumps(v, separators=(",", ":"))\<close> and the default \<open>json.dumps(v)\<close>.\<close>

definition dumps_compact :: "pyval \<Rightarrow> string" where
  "dumps_compact v = dumps True '','' '':'' v"

definition dumps_default :: "pyval \<Rightarrow> string" where
  "dumps_default v = dumps True '', '' '': '' v"

text \<open>\<open>json.dumps(v, ensure_ascii=False)\<close>.\<close>

definition dumps_unicode :: "pyval \<Rightarrow> string" where
  "dumps_unicode v = dumps False '', '' '': '' v"

section \<open>\<open>int\<close>\<close>

text \<open>\<open>int(v)\<close>; \<open>fint\<close> is \<open>int\<close> of a finite float, which a value carries as the text of its \<open>repr\<close>.\<close>

definition py_int :: "(string \<Rightarrow> int) \<Rightarrow> pyval \<Rightarrow> int result" where
  "py_int fint v =
     (case v of
        PBool b \<Rightarrow> Inr (if b then 1 else 0)
      | PInt i \<Rightarrow> Inr i
      | PFloat s \<Rightarrow> if s = ''inf'' \<or> s = ''-inf'' then Inl (OverflowError s)
                    else if s = ''nan'' then Inl (ValueError s) else Inr (fint s)
      | PStr s \<Rightarrow> (case parse_int s of None \<Rightarrow> Inl (ValueError s) | Some i \<Rightarrow> Inr i)
      | _ \<Rightarrow> Inl (TypeError ''int''))"

section \<open>Case and white space\<close>

lemma space_lower [simp]: "is_space (lower_char c) = is_space c"
proof -
  have "code c < 256" by (simp add: code_def)
  then show ?thesis
    by (auto simp: is_space_def lower_char_def code_def Let_def)
qed

lemma lower_char_twice [simp]: "lower_char (lower_char c) = lower_char c"
proof -
  have "code c < 256" by (simp add: code_def)
  then show ?thesis
    by (auto simp: lower_char_def code_def Let_def)
qed

lemma dropWhile_lower: "dropWhile is_space (lower s) = lower (dropWhile is_space s)"
  by (induction s) (simp_all add: lower_def)

lemma strip_lower: "strip (lower s) = lower (strip s)"
proof -
  have "rev (lower t) = lower (rev t)" for t by (simp add: lower_def rev_map)
  then show ?thesis by (simp add: strip_def lstrip_def rstrip_def dropWhile_lower)
qed

lemma dropWhile_rev_hd:
  "xs = [] \<or> \<not> P (hd xs) \<Longrightarrow> let ys = rev (dropWhile P (rev xs)) in ys = [] \<or> \<not> P (hd ys)"
  by (induction xs rule: rev_induct) (auto simp: Let_def hd_append split: if_splits)

lemma dropWhile_idle: "xs = [] \<or> \<not> P (hd xs) \<Longrightarrow> dropWhile P xs = xs"
  by (cases xs) auto

lemma strip_twice: "strip (strip s) = strip s"
proof -
  let ?l = "dropWhile is_space s"
  have "?l = [] \<or> \<not> is_space (hd ?l)"
    using hd_dropWhile [of is_space s] by (auto simp del: dropWhile_eq_Nil_conv)
  then have "let ys = rev (dropWhile is_space (rev ?l)) in ys = [] \<or> \<not> is_space (hd ys)"
    by (rule dropWhile_rev_hd)
  then have a: "dropWhile is_space (strip s) = strip s"
    unfolding strip_def lstrip_def rstrip_def Let_def by (rule dropWhile_idle)
  have "dropWhile is_space (rev (strip s)) = rev (strip s)"
    by (simp add: strip_def rstrip_def lstrip_def)
  with a show ?thesis by (simp add: strip_def [of "strip s"] lstrip_def rstrip_def)
qed

section \<open>Sizes\<close>

text \<open>Each entry of a dictionary is a smaller value: recursion over values stops.\<close>

lemma size_dict_entry: "(k, v) \<in> set d \<Longrightarrow> size v < size (PDict d)"
  by (induction d) auto

lemma size_list_entry: "v \<in> set xs \<Longrightarrow> size v < size (PList xs)"
  by (induction xs) auto

lemma size_tuple_entry: "v \<in> set xs \<Longrightarrow> size v < size (PTuple xs)"
  by (induction xs) auto

lemma pget_in: "pget d k \<noteq> PNone \<Longrightarrow> (k, pget d k) \<in> set d"
  by (auto simp: pget_def split: option.splits dest: map_of_SomeD)

text \<open>Induction on values with the entries of a dictionary as pairs.\<close>

lemma pyval_induct [case_names None Bool Int Float Str List Tuple Dict]:
  assumes "P PNone" "\<And>b. P (PBool b)" "\<And>i. P (PInt i)" "\<And>s. P (PFloat s)" "\<And>s. P (PStr s)"
    "\<And>xs. (\<And>x. x \<in> set xs \<Longrightarrow> P x) \<Longrightarrow> P (PList xs)"
    "\<And>xs. (\<And>x. x \<in> set xs \<Longrightarrow> P x) \<Longrightarrow> P (PTuple xs)"
    "\<And>d. (\<And>k v. (k, v) \<in> set d \<Longrightarrow> P v) \<Longrightarrow> P (PDict d)"
  shows "P v"
  by (induction v) (use assms in \<open>auto simp: snds.simps\<close>)

end
