(* ===== verification/PyRegex.thy ===== *)
theory PyRegex
  imports PyValue
begin

text \<open>
  The part of Python's \<open>re\<close> that the modelled code uses: a syntax tree, a backtracking
  matcher that lists the ways a pattern matches in the order in which \<open>re\<close> tries them
  (so the head is the match it reports), and \<open>search\<close>, \<open>match\<close>, \<open>fullmatch\<close>,
  \<open>sub\<close> and \<open>split\<close> on top of it. The patterns of the source become trees in the
  theories of the components that own them.
\<close>

section \<open>Patterns\<close>

datatype regex =
    REps
  | RSet "char \<Rightarrow> bool"
  | RSeq regex regex
  | RAlt regex regex
  | RRep nat "nat option" regex        \<comment> \<open>greedy \<open>{lo,hi}\<close>\<close>
  | RLazy regex                        \<comment> \<open>\<open>*?\<close>\<close>
  | RGroup regex                       \<comment> \<open>the first capturing group, \<open>(...)\<close>\<close>
  | RWordB                             \<comment> \<open>\<open>\\b\<close>\<close>
  | RBegin                             \<comment> \<open>\<open>^\<close>\<close>
  | RLineBegin                         \<comment> \<open>\<open>^\<close> under \<open>re.M\<close>\<close>
  | REnd                               \<comment> \<open>\<open>$\<close>\<close>
  | RAhead "char \<Rightarrow> bool" bool        \<comment> \<open>\<open>(?=[...])\<close>; the flag adds \<open>|$\<close>\<close>
  | RNotAhead "char \<Rightarrow> bool"          \<comment> \<open>\<open>(?![...])\<close>\<close>
  | RNotBehind "char \<Rightarrow> bool"         \<comment> \<open>\<open>(?<![...])\<close>\<close>
  | RLook regex                        \<comment> \<open>\<open>(?=...)\<close> of a pattern with no group\<close>

text \<open>Sequences and alternatives of several patterns, literals, and the usual repetitions.\<close>

fun rseq :: "regex list \<Rightarrow> regex" where
  "rseq [] = REps"
| "rseq [r] = r"
| "rseq (r # s # rs) = RSeq r (rseq (s # rs))"

fun ralt :: "regex list \<Rightarrow> regex" where
  "ralt [] = RSet (\<lambda>_. False)"
| "ralt [r] = r"
| "ralt (r # s # rs) = RAlt r (ralt (s # rs))"

definition rlit :: "string \<Rightarrow> regex" where
  "rlit s = rseq (map (\<lambda>c. RSet (\<lambda>x. x = c)) s)"

definition rwords :: "string list \<Rightarrow> regex" where
  "rwords ws = ralt (map rlit ws)"

definition ropt :: "regex \<Rightarrow> regex" where "ropt r = RRep 0 (Some 1) r"
definition rstar :: "regex \<Rightarrow> regex" where "rstar r = RRep 0 None r"
definition rplus :: "regex \<Rightarrow> regex" where "rplus r = RRep 1 None r"

definition one_of :: "string \<Rightarrow> char \<Rightarrow> bool" where
  "one_of s c = (c \<in> set s)"

definition none_of :: "string \<Rightarrow> char \<Rightarrow> bool" where
  "none_of s c = (c \<notin> set s)"

definition in_range :: "char \<Rightarrow> char \<Rightarrow> char \<Rightarrow> bool" where
  "in_range a b c = (code a \<le> code c \<and> code c \<le> code b)"

definition is_az :: "char \<Rightarrow> bool" where "is_az = in_range CHR ''a'' CHR ''z''"
definition is_AZ :: "char \<Rightarrow> bool" where "is_AZ = in_range CHR ''A'' CHR ''Z''"
definition is_alnum :: "char \<Rightarrow> bool" where
  "is_alnum c = (is_az c \<or> is_AZ c \<or> in_range CHR ''0'' CHR ''9'' c)"

definition not_newline :: "char \<Rightarrow> bool" where "not_newline c = (code c \<noteq> 10)"

definition rspace :: regex where "rspace = RSet is_space"
definition rdigit :: regex where "rdigit = RSet is_digit"
definition rdot :: regex where "rdot = RSet not_newline"
definition rany :: regex where "rany = RSet (\<lambda>_. True)"   \<comment> \<open>\<open>.\<close> under \<open>re.S\<close>\<close>

text \<open>\<open>re.I\<close>: every set of characters also holds the other case of its members.\<close>

primrec ignore_case :: "regex \<Rightarrow> regex" where
  "ignore_case REps = REps"
| "ignore_case (RSet P) = RSet (\<lambda>c. P c \<or> P (lower_char c) \<or> P (upper_char c))"
| "ignore_case (RSeq a b) = RSeq (ignore_case a) (ignore_case b)"
| "ignore_case (RAlt a b) = RAlt (ignore_case a) (ignore_case b)"
| "ignore_case (RRep lo hi a) = RRep lo hi (ignore_case a)"
| "ignore_case (RLazy a) = RLazy (ignore_case a)"
| "ignore_case (RGroup a) = RGroup (ignore_case a)"
| "ignore_case RWordB = RWordB"
| "ignore_case RBegin = RBegin"
| "ignore_case RLineBegin = RLineBegin"
| "ignore_case REnd = REnd"
| "ignore_case (RAhead P e) = RAhead (\<lambda>c. P c \<or> P (lower_char c) \<or> P (upper_char c)) e"
| "ignore_case (RNotAhead P) = RNotAhead (\<lambda>c. P c \<or> P (lower_char c) \<or> P (upper_char c))"
| "ignore_case (RNotBehind P) = RNotBehind (\<lambda>c. P c \<or> P (lower_char c) \<or> P (upper_char c))"
| "ignore_case (RLook a) = RLook (ignore_case a)"

section \<open>The matcher\<close>

text \<open>
  A position in the subject: the text before it, reversed; the text after it; and what
  the first group holds.
\<close>

type_synonym pos = "string \<times> string \<times> string option"

definition word_at :: "string \<Rightarrow> bool" where
  "word_at s = (case s of [] \<Rightarrow> False | c # _ \<Rightarrow> is_word c)"

text \<open>\<open>$\<close> matches at the end and before a final newline.\<close>

definition at_end :: "string \<Rightarrow> bool" where
  "at_end r = (r = [] \<or> (length r = 1 \<and> code (hd r) = 10))"

text \<open>
  The optional rounds of a repetition: another round first, then stopping here. A round
  that consumes nothing ends the repetition, as in \<open>re\<close>, so \<open>Suc (length rest)\<close>
  rounds of fuel are never used up.
\<close>

fun rounds :: "nat \<Rightarrow> nat option \<Rightarrow> (pos \<Rightarrow> pos list) \<Rightarrow> pos \<Rightarrow> pos list" where
  "rounds 0 hi f p = [p]"
| "rounds (Suc n) hi f p =
     (if hi = Some 0 then [p]
      else concat (map (\<lambda>q. if length (fst (snd q)) < length (fst (snd p))
                            then rounds n (map_option (\<lambda>h. h - 1) hi) f q else []) (f p)) @ [p])"

text \<open>A lazy repetition stops here first, and goes on with another round only then.\<close>

fun lazy_rounds :: "nat \<Rightarrow> (pos \<Rightarrow> pos list) \<Rightarrow> pos \<Rightarrow> pos list" where
  "lazy_rounds 0 f p = [p]"
| "lazy_rounds (Suc n) f p =
     p # concat (map (\<lambda>q. if length (fst (snd q)) < length (fst (snd p)) then lazy_rounds n f q else []) (f p))"

fun times :: "nat \<Rightarrow> (pos \<Rightarrow> pos list) \<Rightarrow> pos \<Rightarrow> pos list" where
  "times 0 f p = [p]"
| "times (Suc n) f p = concat (map (times n f) (f p))"

primrec matches :: "regex \<Rightarrow> pos \<Rightarrow> pos list" where
  "matches REps p = [p]"
| "matches (RSet P) p =
     (case p of (l, r, g) \<Rightarrow> case r of [] \<Rightarrow> [] | c # r' \<Rightarrow> if P c then [(c # l, r', g)] else [])"
| "matches (RSeq a b) p = concat (map (matches b) (matches a p))"
| "matches (RAlt a b) p = matches a p @ matches b p"
| "matches (RRep lo hi a) p =
     concat (map (\<lambda>q. rounds (Suc (length (fst (snd q)))) (map_option (\<lambda>h. h - lo) hi) (matches a) q)
       (times lo (matches a) p))"
| "matches (RLazy a) p = lazy_rounds (Suc (length (fst (snd p)))) (matches a) p"
| "matches (RGroup a) p =
     map (\<lambda>(l, r, g). (l, r, Some (take (length (fst (snd p)) - length r) (fst (snd p))))) (matches a p)"
| "matches RWordB p = (if word_at (fst p) \<noteq> word_at (fst (snd p)) then [p] else [])"
| "matches RBegin p = (if fst p = [] then [p] else [])"
| "matches RLineBegin p = (if fst p = [] \<or> code (hd (fst p)) = 10 then [p] else [])"
| "matches REnd p = (if at_end (fst (snd p)) then [p] else [])"
| "matches (RAhead P e) p =
     (case fst (snd p) of [] \<Rightarrow> if e then [p] else [] | c # _ \<Rightarrow> if P c \<or> (e \<and> at_end (fst (snd p))) then [p] else [])"
| "matches (RNotAhead P) p = (case fst (snd p) of [] \<Rightarrow> [p] | c # _ \<Rightarrow> if P c then [] else [p])"
| "matches (RNotBehind P) p = (case fst p of [] \<Rightarrow> [p] | c # _ \<Rightarrow> if P c then [] else [p])"
| "matches (RLook a) p = (if matches a p = [] then [] else [p])"

section \<open>The functions of \<open>re\<close>\<close>

definition re_match :: "regex \<Rightarrow> string \<Rightarrow> bool" where
  "re_match r s = (matches r ([], s, None) \<noteq> [])"

definition re_fullmatch :: "regex \<Rightarrow> string \<Rightarrow> bool" where
  "re_fullmatch r s = list_ex (\<lambda>p. fst (snd p) = []) (matches r ([], s, None))"

text \<open>The leftmost match at or after a position: where it starts and where it ends.\<close>

fun search_from :: "regex \<Rightarrow> string \<Rightarrow> string \<Rightarrow> (pos \<times> pos) option" where
  "search_from r l s =
     (case matches r (l, s, None) of
        q # _ \<Rightarrow> Some ((l, s, None), q)
      | [] \<Rightarrow> (case s of [] \<Rightarrow> None | c # s' \<Rightarrow> search_from r (c # l) s'))"

declare search_from.simps [simp del]

definition re_search :: "regex \<Rightarrow> string \<Rightarrow> bool" where
  "re_search r s = (search_from r [] s \<noteq> None)"

text \<open>
  \<open>sub\<close> with a replacement computed from the first group. Each match of the patterns it
  is used with consumes at least one character; an empty match copies a character.
\<close>

fun sub_from :: "nat \<Rightarrow> regex \<Rightarrow> (string \<Rightarrow> string) \<Rightarrow> string \<Rightarrow> string \<Rightarrow> string" where
  "sub_from 0 r f l s = s"
| "sub_from (Suc n) r f l s =
     (case matches r (l, s, None) of
        (l', s', g) # _ \<Rightarrow>
          (if length s' < length s then f (case g of None \<Rightarrow> [] | Some x \<Rightarrow> x) @ sub_from n r f l' s'
           else f [] @ (case s of [] \<Rightarrow> [] | c # t \<Rightarrow> c # sub_from n r f (c # l) t))
      | [] \<Rightarrow> (case s of [] \<Rightarrow> [] | c # t \<Rightarrow> c # sub_from n r f (c # l) t))"

definition re_sub :: "regex \<Rightarrow> (string \<Rightarrow> string) \<Rightarrow> string \<Rightarrow> string" where
  "re_sub r f s = sub_from (Suc (length s)) r f [] s"

text \<open>\<open>split\<close> by a pattern with no group whose matches are not empty.\<close>

fun split_from :: "nat \<Rightarrow> regex \<Rightarrow> string \<Rightarrow> string \<Rightarrow> string \<Rightarrow> string list" where
  "split_from 0 r acc l s = [rev acc @ s]"
| "split_from (Suc n) r acc l s =
     (case matches r (l, s, None) of
        (l', s', g) # _ \<Rightarrow>
          (if length s' < length s then rev acc # split_from n r [] l' s'
           else (case s of [] \<Rightarrow> [rev acc] | c # t \<Rightarrow> split_from n r (c # acc) (c # l) t))
      | [] \<Rightarrow> (case s of [] \<Rightarrow> [rev acc] | c # t \<Rightarrow> split_from n r (c # acc) (c # l) t))"

definition re_split :: "regex \<Rightarrow> string \<Rightarrow> string list" where
  "re_split r s = split_from (Suc (length s)) r [] [] s"

section \<open>What a match is\<close>

text \<open>A match moves a piece of the subject from after the position to before it.\<close>

definition advances :: "pos \<Rightarrow> pos \<Rightarrow> bool" where
  "advances p q = (\<exists>m. fst (snd p) = m @ fst (snd q) \<and> fst q = rev m @ fst p)"

lemma advances_refl [simp]: "advances p p"
  by (simp add: advances_def)

lemma advances_trans: "advances p q \<Longrightarrow> advances q r \<Longrightarrow> advances p r"
  unfolding advances_def by fastforce

lemma rounds_advances:
  assumes "\<And>p q. q \<in> set (f p) \<Longrightarrow> advances p q"
  shows "q \<in> set (rounds n hi f p) \<Longrightarrow> advances p q"
proof (induction n arbitrary: hi p)
  case 0
  then show ?case by simp
next
  case (Suc n)
  show ?case
  proof (cases "q = p")
    case False
    with Suc.prems obtain m where hi: "hi \<noteq> Some 0" and m: "m \<in> set (f p)"
      and len: "length (fst (snd m)) < length (fst (snd p))"
      and q: "q \<in> set (rounds n (map_option (\<lambda>h. h - 1) hi) f m)"
      by (auto simp del: split_paired_All split_paired_Ex simp: set_concat split: if_splits)
    have "advances p m" by (rule assms [OF m])
    moreover have "advances m q" by (rule Suc.IH [OF q])
    ultimately show ?thesis by (rule advances_trans)
  qed simp
qed

lemma lazy_rounds_advances:
  assumes "\<And>p q. q \<in> set (f p) \<Longrightarrow> advances p q"
  shows "q \<in> set (lazy_rounds n f p) \<Longrightarrow> advances p q"
proof (induction n arbitrary: p)
  case (Suc n)
  show ?case
  proof (cases "q = p")
    case False
    with Suc.prems obtain m where "m \<in> set (f p)" "q \<in> set (lazy_rounds n f m)"
      by (auto simp del: split_paired_All split_paired_Ex simp: set_concat split: if_splits)
    then show ?thesis using Suc.IH assms advances_trans by blast
  qed simp
qed simp

lemma times_advances:
  assumes "\<And>p q. q \<in> set (f p) \<Longrightarrow> advances p q"
  shows "q \<in> set (times n f p) \<Longrightarrow> advances p q"
proof (induction n arbitrary: p)
  case 0
  then show ?case by simp
next
  case (Suc n)
  then obtain m where "m \<in> set (f p)" "q \<in> set (times n f m)" by (auto simp del: split_paired_Ex)
  then show ?case using Suc.IH assms advances_trans by blast
qed

lemma matches_advances: "q \<in> set (matches r p) \<Longrightarrow> advances p q"
proof (induction r arbitrary: p q)
  case (RSeq a b)
  then obtain m where "m \<in> set (matches a p)" "q \<in> set (matches b m)"
    by (auto simp del: split_paired_Ex)
  then show ?case using RSeq.IH advances_trans by blast
next
  case (RRep lo hi a)
  then obtain m where m: "m \<in> set (times lo (matches a) p)"
    and q: "q \<in> set (rounds (Suc (length (fst (snd m)))) (map_option (\<lambda>h. h - lo) hi) (matches a) m)"
    by (auto simp del: split_paired_Ex rounds.simps)
  have "advances p m" by (rule times_advances [OF RRep.IH m])
  moreover have "advances m q" by (rule rounds_advances [OF RRep.IH q])
  ultimately show ?case by (rule advances_trans)
next
  case (RLazy a)
  show ?case by (rule lazy_rounds_advances [OF RLazy.IH]) (use RLazy.prems in \<open>simp_all del: lazy_rounds.simps\<close>)
next
  case (RGroup a)
  then obtain l r g where "(l, r, g) \<in> set (matches a p)" "fst q = l" "fst (snd q) = r" by auto
  then show ?case using RGroup.IH [of "(l, r, g)" p] by (simp add: advances_def)
qed (auto simp: advances_def split: list.splits if_splits)

lemma matches_rest_length: "q \<in> set (matches r p) \<Longrightarrow> length (fst (snd q)) \<le> length (fst (snd p))"
  using matches_advances [of q r p] by (auto simp: advances_def)

lemma matches_split:
  "(l', s', g') \<in> set (matches r (l, s, g)) \<Longrightarrow> \<exists>m. s = m @ s' \<and> l' = rev m @ l"
  using matches_advances [of "(l', s', g')" r "(l, s, g)"] by (simp add: advances_def)

text \<open>A search succeeds exactly when the pattern matches somewhere.\<close>

lemma search_from_iff:
  "search_from r l s \<noteq> None \<longleftrightarrow> (\<exists>a b. s = a @ b \<and> matches r (rev a @ l, b, None) \<noteq> [])"
proof (induction s arbitrary: l)
  case Nil
  then show ?case by (auto simp: search_from.simps [of r l "[]"] split: list.splits)
next
  case (Cons c s)
  show ?case
  proof (cases "matches r (l, c # s, None)")
    case (Cons q qs)
    then have "search_from r l (c # s) \<noteq> None" by (simp add: search_from.simps [of r l "c # s"])
    moreover have "c # s = [] @ (c # s) \<and> matches r (rev [] @ l, c # s, None) \<noteq> []" using Cons by simp
    ultimately show ?thesis by blast
  next
    case Nil
    then have "search_from r l (c # s) = search_from r (c # l) s"
      by (simp add: search_from.simps [of r l "c # s"])
    then have "search_from r l (c # s) \<noteq> None \<longleftrightarrow>
        (\<exists>a b. s = a @ b \<and> matches r (rev (c # a) @ l, b, None) \<noteq> [])"
      using Cons.IH [of "c # l"] by simp
    also have "\<dots> \<longleftrightarrow> (\<exists>a b. c # s = a @ b \<and> matches r (rev a @ l, b, None) \<noteq> [])"
      (is "?L \<longleftrightarrow> ?R")
    proof
      assume ?L
      then obtain a b where "c # s = (c # a) @ b" "matches r (rev (c # a) @ l, b, None) \<noteq> []" by auto
      then show ?R by blast
    next
      assume ?R
      then obtain a b where ab: "c # s = a @ b" "matches r (rev a @ l, b, None) \<noteq> []" by blast
      with Nil obtain a' where "a = c # a'" by (cases a) auto
      with ab show ?L by auto
    qed
    finally show ?thesis .
  qed
qed

lemma re_search_iff: "re_search r s \<longleftrightarrow> (\<exists>a b. s = a @ b \<and> matches r (rev a, b, None) \<noteq> [])"
  using search_from_iff [of r "[]" s] by (simp add: re_search_def)

lemma re_match_search: "re_match r s \<Longrightarrow> re_search r s"
  unfolding re_match_def re_search_iff by (rule exI [of _ "[]"]) auto

text \<open>A text in which the pattern does not occur is its own substitution.\<close>

lemma search_from_NoneD:
  "search_from r l s = None \<Longrightarrow>
     matches r (l, s, None) = [] \<and> (\<forall>c t. s = c # t \<longrightarrow> search_from r (c # l) t = None)"
  by (subst (asm) search_from.simps) (auto split: list.splits)

lemma sub_from_absent: "search_from r l s = None \<Longrightarrow> sub_from n r f l s = s"
proof (induction n arbitrary: l s)
  case (Suc n)
  from search_from_NoneD [OF Suc.prems] Suc.IH show ?case by (cases s) simp_all
qed simp

lemma re_sub_absent: "\<not> re_search r s \<Longrightarrow> re_sub r f s = s"
  unfolding re_search_def re_sub_def by (rule sub_from_absent) blast


section \<open>Texts in which a pattern cannot occur\<close>

text \<open>Every match of the pattern consumes a character that is not among the given ones.\<close>

primrec avoids :: "string \<Rightarrow> regex \<Rightarrow> bool" where
  "avoids cs REps = False"
| "avoids cs (RSet P) = list_all (\<lambda>c. \<not> P c) cs"
| "avoids cs (RSeq a b) = (avoids cs a \<or> avoids cs b)"
| "avoids cs (RAlt a b) = (avoids cs a \<and> avoids cs b)"
| "avoids cs (RRep lo hi a) = (0 < lo \<and> avoids cs a)"
| "avoids cs (RLazy a) = False"
| "avoids cs (RGroup a) = avoids cs a"
| "avoids cs RWordB = False"
| "avoids cs RBegin = False"
| "avoids cs RLineBegin = False"
| "avoids cs REnd = False"
| "avoids cs (RAhead P e) = False"
| "avoids cs (RNotAhead P) = False"
| "avoids cs (RNotBehind P) = False"
| "avoids cs (RLook a) = False"

definition consumes_other :: "string \<Rightarrow> pos \<Rightarrow> pos \<Rightarrow> bool" where
  "consumes_other cs p q \<longleftrightarrow> (\<exists>m. fst (snd p) = m @ fst (snd q) \<and> \<not> set m \<subseteq> set cs)"

lemma consumes_left: "consumes_other cs p q \<Longrightarrow> advances q r \<Longrightarrow> consumes_other cs p r"
  unfolding consumes_other_def advances_def by fastforce

lemma consumes_right: "advances p q \<Longrightarrow> consumes_other cs q r \<Longrightarrow> consumes_other cs p r"
  unfolding consumes_other_def advances_def by fastforce

lemma avoids_consumes: "avoids cs r \<Longrightarrow> q \<in> set (matches r p) \<Longrightarrow> consumes_other cs p q"
proof (induction r arbitrary: p q)
  case (RSet P)
  then obtain c rest where "fst (snd p) = c # rest" "P c" "fst (snd q) = rest"
    by (auto split: prod.splits list.splits if_splits)
  moreover have "c \<notin> set cs" using RSet.prems(1) \<open>P c\<close> by (auto simp: list_all_iff)
  ultimately show ?case by (auto simp: consumes_other_def intro!: exI [of _ "[c]"])
next
  case (RSeq a b)
  then obtain m where m: "m \<in> set (matches a p)" "q \<in> set (matches b m)"
    by (auto simp del: split_paired_Ex)
  from RSeq.prems(1) have "avoids cs a \<or> avoids cs b" by simp
  then show ?case
  proof
    assume "avoids cs a"
    from RSeq.IH(1) [OF this m(1)] matches_advances [OF m(2)] show ?case by (rule consumes_left)
  next
    assume "avoids cs b"
    from matches_advances [OF m(1)] RSeq.IH(2) [OF this m(2)] show ?case by (rule consumes_right)
  qed
next
  case (RRep lo hi a)
  then obtain m where m: "m \<in> set (times lo (matches a) p)"
    and q: "q \<in> set (rounds (Suc (length (fst (snd m)))) (map_option (\<lambda>h. h - lo) hi) (matches a) m)"
    by (auto simp del: split_paired_Ex rounds.simps)
  obtain n where "lo = Suc n" using RRep.prems(1) by (cases lo) auto
  with m obtain k where k: "k \<in> set (matches a p)" "m \<in> set (times n (matches a) k)"
    by (auto simp del: split_paired_Ex)
  have "consumes_other cs p k" using RRep k(1) by simp
  moreover have "advances k m" using times_advances [OF _ k(2)] matches_advances by blast
  moreover have "advances m q" using rounds_advances [OF _ q] matches_advances by blast
  ultimately show ?case using consumes_left by blast
next
  case (RGroup a)
  then obtain l r g where "(l, r, g) \<in> set (matches a p)" "fst q = l" "fst (snd q) = r" by auto
  then show ?case using RGroup.IH [of "(l, r, g)" p] RGroup.prems(1) by (simp add: consumes_other_def)
qed auto

lemma avoids_absent:
  assumes "avoids cs r" "set s \<subseteq> set cs"
  shows "\<not> re_search r s"
proof
  assume "re_search r s"
  then obtain a b where s: "s = a @ b" and "matches r (rev a, b, None) \<noteq> []" unfolding re_search_iff by blast
  then obtain q where "q \<in> set (matches r (rev a, b, None))" by (cases "matches r (rev a, b, None)") auto
  from avoids_consumes [OF assms(1) this] obtain m rest where "b = m @ rest" "\<not> set m \<subseteq> set cs"
    by (auto simp: consumes_other_def)
  with s assms(2) show False by auto
qed

lemma re_sub_avoids: "avoids cs r \<Longrightarrow> set s \<subseteq> set cs \<Longrightarrow> re_sub r f s = s"
  by (intro re_sub_absent avoids_absent)


section \<open>Full matches of simple shapes\<close>

text \<open>Repetitions of one set of characters: how far they may go.\<close>

lemma rounds_set_end:
  "length r < n \<Longrightarrow>
     (\<exists>q \<in> set (rounds n hi (matches (RSet P)) (l, r, g)). fst (snd q) = []) \<longleftrightarrow>
       list_all P r \<and> (case hi of None \<Rightarrow> True | Some h \<Rightarrow> length r \<le> h)"
proof (induction n arbitrary: hi l r)
  case 0
  then show ?case by simp
next
  case (Suc n)
  show ?case
  proof (cases r)
    case Nil
    then show ?thesis by (auto split: option.splits)
  next
    case (Cons c r')
    with Suc.prems have "length r' < n" by simp
    from Suc.IH [OF this, of "map_option (\<lambda>h. h - 1) hi" "c # l"] show ?thesis
      unfolding Cons by (cases hi) (auto split: option.splits)
  qed
qed

lemma fullmatch_head_rep:
  "re_fullmatch (RSeq (RSet P) (RRep 0 hi (RSet Q))) s \<longleftrightarrow>
     (case s of [] \<Rightarrow> False | c # r \<Rightarrow> P c \<and> list_all Q r \<and> (case hi of None \<Rightarrow> True | Some h \<Rightarrow> length r \<le> h))"
proof (cases s)
  case (Cons c r)
  have hi: "map_option (\<lambda>h. h) hi = hi" by (cases hi) auto
  show ?thesis
    using rounds_set_end [of r "Suc (length r)" hi Q "[c]" None]
    by (simp add: re_fullmatch_def Cons hi list_ex_iff del: rounds.simps)
qed (simp add: re_fullmatch_def)

text \<open>The anchors of a pattern are void in a full match.\<close>

lemma list_ex_seq: "list_ex f (matches (RSeq a b) p) = list_ex (\<lambda>q. list_ex f (matches b q)) (matches a p)"
  by (simp add: list_ex_iff)

lemma list_ex_end: "list_ex (\<lambda>q. fst (snd q) = []) (matches REnd p) = (fst (snd p) = [])"
  by (auto simp: at_end_def)

lemma fullmatch_anchored: "re_fullmatch (rseq [RBegin, a, b, REnd]) s = re_fullmatch (RSeq a b) s"
  by (simp add: re_fullmatch_def list_ex_seq list_ex_end del: matches.simps(3,11))

end
