(* ===== verification/ActionProtocol.thy ===== *)
theory ActionProtocol
  imports PyRegex
begin

text \<open>
  The JOS-P4 action envelope of \<open>src/action_protocol.py\<close>: the capability catalog of a
  turn, the logical call, its validation against the catalog's JSON schemas, and the
  normalized result of a runner. A call, a schema and a result are Python dictionaries.
  \<open>hashlib.sha256\<close> (as a map from text to its hex digest) and \<open>json.loads\<close> are
  parameters of the definitions that use them.
\<close>

section \<open>Constants\<close>

definition MAX_ARGUMENT_BYTES :: nat where "MAX_ARGUMENT_BYTES = 64 * 1024"
definition MAX_RESULT_BYTES :: nat where "MAX_RESULT_BYTES = 64 * 1024"
definition MAX_SUMMARY_CHARS :: nat where "MAX_SUMMARY_CHARS = 4000"

definition ACTION_STATUSES :: "string list" where
  "ACTION_STATUSES = [''succeeded'', ''failed'', ''denied'', ''cancelled'', ''timed_out'', ''unknown'']"

text \<open>\<open>^[a-z][a-z0-9_-]{0,63}$\<close>\<close>

definition EXTENSION_ID :: regex where
  "EXTENSION_ID = rseq [RBegin, RSet is_az,
     RRep 0 (Some 63) (RSet (\<lambda>c. is_az c \<or> is_digit c \<and> code c < 128 \<or> c = CHR ''_'' \<or> c = CHR ''-'')), REnd]"

definition TEXT_ARGUMENTS :: "string dict" where
  "TEXT_ARGUMENTS = [(''bash'', ''command''), (''python'', ''code''), (''web_search'', ''query''),
     (''web_fetch'', ''url''), (''read_file'', ''path''), (''grep'', ''query''),
     (''glob'', ''pattern''), (''ls'', ''path'')]"

definition READ_ONLY :: "string list" where
  "READ_ONLY = [''get_workspace'', ''inspect_network'', ''read_file'', ''grep'', ''glob'', ''ls'',
     ''web_search'', ''web_fetch'', ''get_runtime_status'', ''read_agent_task'',
     ''search_jarvis_knowledge'', ''read_calendar'', ''list_sessions'', ''search_chats'',
     ''list_email_accounts'', ''list_emails'', ''read_email'', ''manage_books'']"

definition EVIDENCE_KEYS :: "string list" where
  "EVIDENCE_KEYS = [''task_id'', ''worker'', ''workspace'', ''event_id'', ''artifact_id'',
     ''artifact_key'', ''document_id'', ''doc_id'', ''path'', ''research_session_id'',
     ''exit_code'', ''status'']"

section \<open>The capability catalog\<close>

definition schema_name :: "pyval dict \<Rightarrow> string" where
  "schema_name schema =
     (case pget schema ''function'' of
        PDict f \<Rightarrow> strip (str_or (pget f ''name''))
      | _ \<Rightarrow> strip (str_or (pget schema ''name'')))"

record catalog =
  cat_version :: string
  cat_fingerprint :: string
  cat_names :: "string list"
  cat_schemas :: "pyval dict"
  cat_conflicts :: "string list"

text \<open>One round of the loop over the schemas: the catalog so far and the conflicting names.\<close>

definition add_schema :: "pyval dict \<times> string list \<Rightarrow> pyval dict \<Rightarrow> pyval dict \<times> string list" where
  "add_schema st raw =
     (case st of (by_name, conflicts) \<Rightarrow>
        let name = schema_name raw in
        if name = [] then (by_name, conflicts)
        else case dget by_name name of
            Some old \<Rightarrow> if \<not> py_eq old (PDict raw) then (by_name, List.insert name conflicts) else (by_name, conflicts)
          | None \<Rightarrow> (dset name (PDict raw) by_name, conflicts))"

definition add_fallback :: "pyval dict \<Rightarrow> string \<Rightarrow> pyval dict" where
  "add_fallback by_name raw_name =
     (let name = strip raw_name in
      if name = [] then by_name else dsetdefault name (PDict [(''name'', PStr name)]) by_name)"

definition compose_capability_catalog ::
    "(string \<Rightarrow> string) \<Rightarrow> pyval dict list \<Rightarrow> string list \<Rightarrow> catalog" where
  "compose_capability_catalog sha256 schemas fallback_names =
     (let (by_name0, conflicts) = foldl add_schema ([], []) schemas;
          by_name1 = foldl add_fallback by_name0 fallback_names;
          by_name = foldl (\<lambda>d n. dpop n d) by_name1 conflicts;
          digest = sha256 (dumps_canonical (PDict by_name))
      in \<lparr>cat_version = ''jos-p4:'' @ take 16 digest, cat_fingerprint = digest,
          cat_names = sort (dkeys by_name), cat_schemas = by_name, cat_conflicts = sort conflicts\<rparr>)"

section \<open>The logical call\<close>

definition arguments_from_text :: "(string \<Rightarrow> pyval option) \<Rightarrow> string \<Rightarrow> pyval \<Rightarrow> pyval" where
  "arguments_from_text loads name content =
     (if is_mapping content then content
      else let text = strip (str_or content) in
        if text = [] then PDict []
        else if starts_with ''{'' text \<or> starts_with ''['' text then
          (case loads text of None \<Rightarrow> PStr text | Some parsed \<Rightarrow> parsed)
        else case dget TEXT_ARGUMENTS name of
            Some key \<Rightarrow> PDict [(key, PStr text)]
          | None \<Rightarrow> PDict [(''content'', PStr text)])"

definition opt_str :: "string option \<Rightarrow> pyval" where
  "opt_str s = (case s of None \<Rightarrow> PNone | Some t \<Rightarrow> PStr t)"

definition normalize_action_call ::
    "(string \<Rightarrow> pyval option) \<Rightarrow> string \<Rightarrow> string \<Rightarrow> string \<Rightarrow> string \<Rightarrow> string \<Rightarrow> string \<Rightarrow> pyval \<Rightarrow>
     string \<Rightarrow> string option \<Rightarrow> pyval dict \<Rightarrow> pyval dict \<Rightarrow> pyval dict" where
  "normalize_action_call loads request_id call_id agent_id actor capability_version name arguments
       target authority_ref limits capability_policy =
     [(''request_id'', PStr request_id), (''call_id'', PStr call_id), (''agent_id'', PStr agent_id),
      (''actor'', PStr actor), (''capability_version'', PStr capability_version),
      (''name'', PStr name), (''arguments'', arguments_from_text loads name arguments),
      (''target'', PStr target), (''authority_ref'', opt_str authority_ref),
      (''limits'', PDict limits), (''capability_policy'', PDict capability_policy)]"

definition classify_target :: "string \<Rightarrow> string list \<Rightarrow> pyval dict \<Rightarrow> string" where
  "classify_target name mcp_names extension_ids =
     (let extension_id = str_or (pget extension_ids name) in
      if extension_id \<noteq> [] then
        (if re_fullmatch EXTENSION_ID extension_id then ''extension:'' @ extension_id else ''extension:invalid'')
      else if name \<in> set mcp_names \<or> starts_with ''mcp__'' name then ''mcp''
      else if name \<in> set [''start_agent_task'', ''read_agent_task''] then ''worker''
      else if name = ''ui_control'' then ''ui''
      else ''tool'')"

section \<open>Schema validation\<close>

text \<open>The encoded text is ASCII, so its UTF-8 bytes are its characters.\<close>

definition json_size :: "pyval \<Rightarrow> nat" where
  "json_size v = length (dumps_compact v)"

definition is_int :: "pyval \<Rightarrow> bool" where
  "is_int v = (case v of PInt _ \<Rightarrow> True | _ \<Rightarrow> False)"

definition matches_type_name :: "pyval \<Rightarrow> string \<Rightarrow> bool" where
  "matches_type_name value expected =
     (if expected = ''object'' then is_mapping value
      else if expected = ''array'' then (case value of PList _ \<Rightarrow> True | _ \<Rightarrow> False)
      else if expected = ''string'' then (case value of PStr _ \<Rightarrow> True | _ \<Rightarrow> False)
      else if expected = ''integer'' then is_int value
      else if expected = ''number'' then (case value of PInt _ \<Rightarrow> True | PFloat _ \<Rightarrow> True | _ \<Rightarrow> False)
      else if expected = ''boolean'' then (case value of PBool _ \<Rightarrow> True | _ \<Rightarrow> False)
      else if expected = ''null'' then value = PNone
      else True)"

primrec matches_type_list :: "pyval \<Rightarrow> pyval \<Rightarrow> bool" where
  "matches_type_list v (PList xs) = list_ex id (map (matches_type_list v) xs)"
| "matches_type_list v PNone = matches_type_name v ''None''"
| "matches_type_list v (PBool b) = matches_type_name v (py_str (PBool b))"
| "matches_type_list v (PInt i) = matches_type_name v (py_str (PInt i))"
| "matches_type_list v (PFloat s) = matches_type_name v s"
| "matches_type_list v (PStr s) = matches_type_name v s"
| "matches_type_list v (PTuple xs) = matches_type_name v (py_str (PTuple xs))"
| "matches_type_list v (PDict d) = matches_type_name v (py_str (PDict d))"

abbreviation matches_type :: "pyval \<Rightarrow> pyval \<Rightarrow> bool" where
  "matches_type \<equiv> matches_type_list"

text \<open>
  The outcome of a check: passed, a message, or a Python exception (a schema with a value
  that \<open>int\<close>, \<open>in\<close> or a \<open>for\<close> loop rejects).
\<close>

datatype check = Pass | Fail string | Raise

fun and_then :: "check \<Rightarrow> check \<Rightarrow> check" where
  "and_then Pass c = c"
| "and_then (Fail m) c = Fail m"
| "and_then Raise c = Raise"

text \<open>What a \<open>for\<close> loop or \<open>set\<close> iterates over.\<close>

definition py_iter :: "pyval \<Rightarrow> pyval list option" where
  "py_iter v = (case v of PList xs \<Rightarrow> Some xs | PTuple xs \<Rightarrow> Some xs
     | PStr s \<Rightarrow> Some (map (\<lambda>c. PStr [c]) s) | PDict d \<Rightarrow> Some (map (\<lambda>(k, _). PStr k) d) | _ \<Rightarrow> None)"

text \<open>\<open>value in container\<close>; \<open>None\<close> stands for the \<open>TypeError\<close>.\<close>

definition py_in :: "pyval \<Rightarrow> pyval \<Rightarrow> bool option" where
  "py_in v c = (case c of
      PList xs \<Rightarrow> Some (list_ex (py_eq v) xs)
    | PTuple xs \<Rightarrow> Some (list_ex (py_eq v) xs)
    | PStr s \<Rightarrow> (case v of PStr p \<Rightarrow> Some (contains p s) | _ \<Rightarrow> None)
    | PDict d \<Rightarrow> (case v of PStr k \<Rightarrow> Some (dget d k \<noteq> None) | PList _ \<Rightarrow> None | PDict _ \<Rightarrow> None | _ \<Rightarrow> Some False)
    | _ \<Rightarrow> None)"

definition check_type :: "pyval \<Rightarrow> pyval dict \<Rightarrow> string \<Rightarrow> check" where
  "check_type v schema path =
     (let expected = pget schema ''type'' in
      if truthy expected \<and> \<not> matches_type v expected then Fail (path @ '' must be '' @ py_str expected) else Pass)"

definition check_enum :: "pyval \<Rightarrow> pyval dict \<Rightarrow> string \<Rightarrow> check" where
  "check_enum v schema path =
     (case dget schema ''enum'' of
        None \<Rightarrow> Pass
      | Some allowed \<Rightarrow> (case py_in v allowed of
            None \<Rightarrow> Raise
          | Some b \<Rightarrow> if b then Pass else Fail (path @ '' is not an allowed value'')))"

text \<open>
  \<open>schema.get(key) is not None\<close> and the length against \<open>int(schema[key])\<close>; \<open>fint\<close> is \<open>int\<close> of a
  finite float, which truncates.
\<close>

definition check_limit :: "(string \<Rightarrow> int) \<Rightarrow> string \<Rightarrow> nat \<Rightarrow> pyval dict \<Rightarrow> string \<Rightarrow> check" where
  "check_limit fint key len schema path =
     (if pget schema key = PNone then Pass
      else case py_int fint (pget schema key) of
          Inl _ \<Rightarrow> Raise
        | Inr n \<Rightarrow> if n < int len then Fail (path @ '' exceeds '' @ key) else Pass)"

fun check_required :: "pyval list \<Rightarrow> pyval dict \<Rightarrow> string \<Rightarrow> check" where
  "check_required [] d path = Pass"
| "check_required (r # rs) d path =
     (case py_in r (PDict d) of
        None \<Rightarrow> Raise
      | Some b \<Rightarrow> if b then check_required rs d path
                  else Fail (path @ ''.'' @ py_str r @ '' is required''))"

definition check_required_of :: "pyval dict \<Rightarrow> pyval dict \<Rightarrow> string \<Rightarrow> check" where
  "check_required_of schema d path =
     (let required = pget schema ''required'' in
      if truthy required then
        (case py_iter required of None \<Rightarrow> Raise | Some rs \<Rightarrow> check_required rs d path)
      else Pass)"

definition check_string :: "(string \<Rightarrow> int) \<Rightarrow> pyval \<Rightarrow> pyval dict \<Rightarrow> string \<Rightarrow> check" where
  "check_string fint v schema path =
     (case v of PStr s \<Rightarrow> check_limit fint ''maxLength'' (length s) schema path | _ \<Rightarrow> Pass)"

text \<open>The checks that every kind of value goes through first.\<close>

definition check_scalar :: "(string \<Rightarrow> int) \<Rightarrow> pyval \<Rightarrow> pyval dict \<Rightarrow> string \<Rightarrow> check" where
  "check_scalar fint v schema path =
     and_then (check_type v schema path) (and_then (check_enum v schema path) (check_string fint v schema path))"

definition sub_schema :: "pyval \<Rightarrow> pyval dict option" where
  "sub_schema v = (case v of PDict d \<Rightarrow> Some d | _ \<Rightarrow> None)"

text \<open>
  The two loops, over the validators of the items of a list and of the entries of an
  object; \<open>validate_value\<close> is the recursion over the value that supplies them.
\<close>

type_synonym validator = "pyval dict \<Rightarrow> string \<Rightarrow> check"

fun validate_items :: "validator list \<Rightarrow> pyval dict \<Rightarrow> string \<Rightarrow> nat \<Rightarrow> check" where
  "validate_items [] item_schema path index = Pass"
| "validate_items (f # fs) item_schema path index =
     and_then (f item_schema (path @ ''['' @ show_nat index @ '']''))
       (validate_items fs item_schema path (Suc index))"

fun validate_props :: "validator dict \<Rightarrow> pyval dict \<Rightarrow> string \<Rightarrow> check" where
  "validate_props [] properties path = Pass"
| "validate_props ((key, f) # d) properties path =
     and_then (case sub_schema (pget properties key) of
                 Some child \<Rightarrow> f child (path @ ''.'' @ key)
               | None \<Rightarrow> Pass)
       (validate_props d properties path)"

primrec validate_value :: "(string \<Rightarrow> int) \<Rightarrow> pyval \<Rightarrow> validator" where
  "validate_value fint (PList xs) = (\<lambda>schema path.
     and_then (check_scalar fint (PList xs) schema path)
       (and_then (check_limit fint ''maxItems'' (length xs) schema path)
         (case sub_schema (pget schema ''items'') of
            Some item_schema \<Rightarrow> validate_items (map (validate_value fint) xs) item_schema path 0
          | None \<Rightarrow> Pass)))"
| "validate_value fint (PDict d) = (\<lambda>schema path.
     and_then (check_scalar fint (PDict d) schema path)
       (and_then (check_required_of schema d path)
         (case sub_schema (pget schema ''properties'') of
            Some properties \<Rightarrow> validate_props (map (map_prod id (validate_value fint)) d) properties path
          | None \<Rightarrow> Pass)))"
| "validate_value fint PNone = check_scalar fint PNone"
| "validate_value fint (PBool b) = check_scalar fint (PBool b)"
| "validate_value fint (PInt i) = check_scalar fint (PInt i)"
| "validate_value fint (PFloat s) = check_scalar fint (PFloat s)"
| "validate_value fint (PStr s) = check_scalar fint (PStr s)"
| "validate_value fint (PTuple xs) = check_scalar fint (PTuple xs)"

text \<open>
  \<open>_drop_optional_nulls\<close> edits the arguments in place; the model returns them. \<open>None\<close>
  stands for the \<open>TypeError\<close> of \<open>set(...)\<close>.
\<close>

definition required_names :: "pyval dict \<Rightarrow> pyval list option" where
  "required_names schema =
     (let r = pget schema ''required'' in if truthy r then py_iter r else Some [])"

definition optional_null :: "pyval \<Rightarrow> string \<Rightarrow> pyval list \<Rightarrow> pyval dict \<Rightarrow> bool" where
  "optional_null item key required child =
     (let expected = pget child ''type'' in
      item = PNone \<and> PStr key \<notin> set required \<and> truthy expected \<and> \<not> matches_type PNone expected)"

type_synonym dropper = "pyval dict \<Rightarrow> pyval option"

fun drop_items :: "dropper list \<Rightarrow> pyval dict \<Rightarrow> pyval list option" where
  "drop_items [] item_schema = Some []"
| "drop_items (f # fs) item_schema =
     (case f item_schema of
        None \<Rightarrow> None
      | Some y \<Rightarrow> map_option ((#) y) (drop_items fs item_schema))"

fun drop_props :: "(string \<times> pyval \<times> dropper) list \<Rightarrow> pyval list \<Rightarrow> pyval dict \<Rightarrow> pyval dict option" where
  "drop_props [] required properties = Some []"
| "drop_props ((key, item, f) # d) required properties =
     (case sub_schema (pget properties key) of
        Some child \<Rightarrow>
          (if optional_null item key required child then drop_props d required properties
           else case f child of
               None \<Rightarrow> None
             | Some item' \<Rightarrow> map_option ((#) (key, item')) (drop_props d required properties))
      | None \<Rightarrow> map_option ((#) (key, item)) (drop_props d required properties))"

primrec drop_optional_nulls :: "pyval \<Rightarrow> dropper" where
  "drop_optional_nulls (PList xs) = (\<lambda>schema.
     case sub_schema (pget schema ''items'') of
       Some item_schema \<Rightarrow> map_option PList (drop_items (map drop_optional_nulls xs) item_schema)
     | None \<Rightarrow> Some (PList xs))"
| "drop_optional_nulls (PDict d) = (\<lambda>schema.
     case required_names schema of
       None \<Rightarrow> None
     | Some required \<Rightarrow> (case sub_schema (pget schema ''properties'') of
           Some properties \<Rightarrow>
             map_option PDict (drop_props (map (\<lambda>((k, v), f). (k, v, f))
               (zip d (map snd (map (map_prod id drop_optional_nulls) d)))) required properties)
         | None \<Rightarrow> Some (PDict d)))"
| "drop_optional_nulls PNone = (\<lambda>_. Some PNone)"
| "drop_optional_nulls (PBool b) = (\<lambda>_. Some (PBool b))"
| "drop_optional_nulls (PInt i) = (\<lambda>_. Some (PInt i))"
| "drop_optional_nulls (PFloat s) = (\<lambda>_. Some (PFloat s))"
| "drop_optional_nulls (PStr s) = (\<lambda>_. Some (PStr s))"
| "drop_optional_nulls (PTuple xs) = (\<lambda>_. Some (PTuple xs))"

text \<open>
  The verdict is the category and detail of the error, if any, and the call, whose
  arguments the validation may have edited.
\<close>

definition call_parameters :: "pyval dict \<Rightarrow> pyval" where
  "call_parameters schema =
     (case pget schema ''function'' of
        PDict f \<Rightarrow> pget f ''parameters''
      | _ \<Rightarrow> pget schema ''parameters'')"

definition validate_action_call ::
    "(string \<Rightarrow> int) \<Rightarrow> pyval dict \<Rightarrow> catalog \<Rightarrow> ((string \<times> string) option \<times> pyval dict) result" where
  "validate_action_call fint call cat =
     (let name = str_or (pget call ''name'') in
      if name \<in> set (cat_conflicts cat) then
        Inr (Some (''catalog_conflict'', ''Conflicting capability: '' @ name), call)
      else let schema = pget (cat_schemas cat) name in
      if \<not> truthy schema then
        Inr (Some (''unknown_capability'', ''Capability is unavailable: '' @ name), call)
      else let arguments = pget call ''arguments'' in
      if \<not> is_mapping arguments then
        Inr (Some (''malformed_arguments'', ''Action arguments must be a JSON object''), call)
      else if MAX_ARGUMENT_BYTES < json_size arguments then
        Inr (Some (''arguments_too_large'', ''Action arguments exceed the server limit''), call)
      else case sub_schema (call_parameters (as_mapping schema)) of
          Some parameters \<Rightarrow>
            (case (if pget call ''target'' = PStr ''mcp'' then drop_optional_nulls arguments parameters
                   else Some arguments) of
               None \<Rightarrow> Inl (ValueError ''TypeError'')
             | Some arguments' \<Rightarrow>
                 (let call' = dset ''arguments'' arguments' call in
                  case validate_value fint arguments' parameters ''arguments'' of
                    Pass \<Rightarrow> Inr (None, call')
                  | Fail detail \<Rightarrow> Inr (Some (''schema_validation'', detail), call')
                  | Raise \<Rightarrow> Inl (ValueError ''TypeError'')))
        | None \<Rightarrow> Inr (None, call))"

section \<open>Results\<close>

definition denied_action_result :: "pyval dict \<Rightarrow> pyval dict \<Rightarrow> string \<Rightarrow> pyval dict" where
  "denied_action_result call error moment =
     (let detail = py_str (py_or (pget error ''detail'') (PStr ''Action denied'')) in
      [(''request_id'', pget call ''request_id''), (''call_id'', pget call ''call_id''),
       (''status'', PStr ''denied''), (''summary'', PStr (take MAX_SUMMARY_CHARS detail)),
       (''structured'', PDict []),
       (''evidence'', PDict [(''kind'', PStr ''policy_decision''), (''verified'', PBool True)]),
       (''started_at'', PStr moment), (''finished_at'', PStr moment), (''retry_safe'', PBool False),
       (''error'', PDict [(''category'', PStr (py_str (py_or (pget error ''category'') (PStr ''denied'')))),
                          (''detail'', PStr detail)])])"

definition invalid_action_result :: "pyval dict \<Rightarrow> pyval dict \<Rightarrow> bool \<Rightarrow> string \<Rightarrow> pyval dict" where
  "invalid_action_result call error retry_safe moment =
     (let detail = take MAX_SUMMARY_CHARS (py_str (py_or (pget error ''detail'') (PStr ''Invalid action arguments''))) in
      [(''request_id'', pget call ''request_id''), (''call_id'', pget call ''call_id''),
       (''status'', PStr ''failed''), (''summary'', PStr detail), (''structured'', PDict []),
       (''evidence'', PDict [(''kind'', PStr ''input_validation''), (''verified'', PBool True)]),
       (''started_at'', PStr moment), (''finished_at'', PStr moment), (''retry_safe'', PBool retry_safe),
       (''error'', PDict [(''category'', PStr (py_str (py_or (pget error ''category'') (PStr ''schema_validation'')))),
                          (''detail'', PStr detail)])])"

definition status_for :: "pyval dict \<Rightarrow> string" where
  "status_for result =
     (let explicit = replace_char CHR ''-'' CHR ''_'' (lower (str_or (pget result ''status''))) in
      if explicit \<in> set ACTION_STATUSES then explicit
      else if explicit \<in> set [''timeout'', ''timedout''] \<or> truthy (pget result ''timed_out'') then ''timed_out''
      else if explicit \<in> set [''canceled'', ''cancelled''] \<or> truthy (pget result ''cancelled'')
              \<or> truthy (pget result ''canceled'') then ''cancelled''
      else if explicit \<in> set [''outcome_unknown'', ''indeterminate''] \<or> truthy (pget result ''outcome_unknown'')
        then ''unknown''
      else if truthy (pget result ''blocked'') \<or> truthy (pget result ''denied'') then ''denied''
      else if truthy (pget result ''error'') \<or> pget result ''success'' = PBool False
              \<or> pget result ''ok'' = PBool False then ''failed''
      else if \<not> (py_eq (pget result ''exit_code'') PNone \<or> py_eq (pget result ''exit_code'') (PInt 0)) then ''failed''
      else ''succeeded'')"

definition evidence_of :: "pyval dict \<Rightarrow> pyval dict" where
  "evidence_of result =
     map (\<lambda>k. (k, pget result k)) (filter (\<lambda>k. dget result k \<noteq> None) EVIDENCE_KEYS)"

definition bounded_structured :: "pyval dict \<Rightarrow> pyval dict" where
  "bounded_structured result =
     (if json_size (PDict result) \<le> MAX_RESULT_BYTES then result
      else dset ''original_bytes'' (PInt (int (json_size (PDict result))))
             (dset ''truncated'' (PBool True) (evidence_of result)))"

definition summary_value :: "pyval \<Rightarrow> bool" where
  "summary_value v = (\<not> (py_eq v PNone \<or> py_eq v (PStr []) \<or> py_eq v (PList []) \<or> py_eq v (PDict [])))"

definition summary_keys :: "string list" where
  "summary_keys = [''summary'', ''error'', ''output'', ''stdout'', ''response'', ''content'', ''results'']"

definition summary :: "pyval dict \<Rightarrow> string \<Rightarrow> string \<Rightarrow> string" where
  "summary result status description =
     (case find (\<lambda>k. summary_value (pget result k)) summary_keys of
        Some k \<Rightarrow> take MAX_SUMMARY_CHARS
          (case pget result k of PStr s \<Rightarrow> s | v \<Rightarrow> dumps_default v)
      | None \<Rightarrow> take MAX_SUMMARY_CHARS
          (if description \<noteq> [] then description else replace_char CHR ''_'' CHR '' '' status))"

definition build_action_result ::
    "pyval dict \<Rightarrow> pyval \<Rightarrow> string \<Rightarrow> string \<Rightarrow> string \<Rightarrow> pyval dict" where
  "build_action_result call raw_result started_at finished_at description =
     (let result = (case raw_result of PDict d \<Rightarrow> d
                    | _ \<Rightarrow> [(''error'', PStr ''Runner returned a non-object result'')]);
          status = status_for result;
          evidence = [(''kind'', PStr ''native_result''),
             (''verified'', PBool (status \<in> set [''succeeded'', ''failed'', ''denied'', ''cancelled'', ''timed_out'']))]
             @ evidence_of result;
          explicit_retry = pget result ''retry_safe'';
          retry0 = (if explicit_retry \<noteq> PNone then truthy explicit_retry
                    else status = ''failed'' \<and> str_or (pget call ''name'') \<in> set READ_ONLY);
          retry_safe = (if status \<in> set [''succeeded'', ''denied'', ''cancelled'', ''unknown''] then False else retry0);
          error = (if status \<noteq> ''succeeded'' then
             (let detail = py_str (py_or (py_or (pget result ''error'') (pget result ''detail''))
                                         (PStr (replace_char CHR ''_'' CHR '' '' status)))
              in PDict [(''category'', PStr status), (''detail'', PStr (take MAX_SUMMARY_CHARS detail))])
             else PNone)
      in [(''request_id'', pget call ''request_id''), (''call_id'', pget call ''call_id''),
          (''status'', PStr status), (''summary'', PStr (summary result status description)),
          (''structured'', PDict (bounded_structured result)), (''evidence'', PDict evidence),
          (''started_at'', PStr started_at), (''finished_at'', PStr finished_at),
          (''retry_safe'', PBool retry_safe), (''error'', error)])"

section \<open>Statuses and results\<close>

lemma status_for_in: "status_for result \<in> set ACTION_STATUSES"
  by (simp add: status_for_def ACTION_STATUSES_def Let_def)

text \<open>
  The normalized result of any runner output has one of the six statuses; it carries
  an error exactly when it did not succeed, its evidence is unverified exactly when the
  outcome is unknown, and it is marked safe to retry only when it failed or timed out.
\<close>

theorem build_action_result_contract:
  "\<exists>status. pget (build_action_result call raw t0 t1 desc) ''status'' = PStr status
     \<and> status \<in> set ACTION_STATUSES
     \<and> (pget (build_action_result call raw t0 t1 desc) ''error'' = PNone \<longleftrightarrow> status = ''succeeded'')
     \<and> (pget (as_mapping (pget (build_action_result call raw t0 t1 desc) ''evidence'')) ''verified'' = PBool False
          \<longleftrightarrow> status = ''unknown'')
     \<and> (pget (build_action_result call raw t0 t1 desc) ''retry_safe'' = PBool True
          \<longrightarrow> status \<in> {''failed'', ''timed_out''})"
proof -
  define result where "result = (case raw of PDict d \<Rightarrow> d | _ \<Rightarrow> [(''error'', PStr ''Runner returned a non-object result'')])"
  have st: "status_for result \<in> set ACTION_STATUSES" by (rule status_for_in)
  show ?thesis
    by (rule exI [of _ "status_for result"])
      (use st in \<open>auto simp: build_action_result_def Let_def result_def [symmetric] ACTION_STATUSES_def\<close>)
qed

theorem build_action_result_contract_witness:
  "pget (build_action_result [(''name'', PStr ''grep'')] (PDict [(''error'', PStr ''x'')]) [] [] []) ''retry_safe'' = PBool True
   \<and> (\<exists>status \<in> {''failed'', ''timed_out''}.
        pget (build_action_result [(''name'', PStr ''grep'')] (PDict [(''error'', PStr ''x'')]) [] [] []) ''status'' = PStr status)"
proof -
  have r: "pget (build_action_result [(''name'', PStr ''grep'')] (PDict [(''error'', PStr ''x'')]) [] [] []) ''retry_safe'' = PBool True"
    by (simp add: build_action_result_def Let_def status_for_def ACTION_STATUSES_def READ_ONLY_def lower_def
        replace_char_def summary_def py_eq_def)
  show ?thesis
    using r build_action_result_contract [of "[(''name'', PStr ''grep'')]" "PDict [(''error'', PStr ''x'')]" "[]" "[]" "[]"]
    by metis
qed

section \<open>Validation against a specification\<close>

text \<open>
  What a value must satisfy, with no order of checks, no messages and no paths: a reading of the
  keywords \<open>type\<close>, \<open>enum\<close>, \<open>maxLength\<close>, \<open>maxItems\<close>, \<open>items\<close>, \<open>required\<close> and \<open>properties\<close> that uses none
  of the validator's own tests. Each value has its JSON types; a type that JSON does not have holds of
  every value, and of several types one must hold.
\<close>

fun json_types :: "pyval \<Rightarrow> string set" where
  "json_types PNone = {''null''}"
| "json_types (PBool b) = {''boolean''}"
| "json_types (PInt i) = {''integer'', ''number''}"
| "json_types (PFloat s) = {''number''}"
| "json_types (PStr s) = {''string''}"
| "json_types (PList xs) = {''array''}"
| "json_types (PTuple xs) = {}"
| "json_types (PDict d) = {''object''}"

definition JSON_TYPES :: "string set" where
  "JSON_TYPES = {''null'', ''boolean'', ''integer'', ''number'', ''string'', ''array'', ''object''}"

definition of_type :: "pyval \<Rightarrow> string \<Rightarrow> bool" where
  "of_type v t \<longleftrightarrow> t \<in> json_types v \<or> t \<notin> JSON_TYPES"

inductive admissible :: "pyval \<Rightarrow> pyval \<Rightarrow> bool" where
  one: "(\<And>Ts. T \<noteq> PList Ts) \<Longrightarrow> of_type v (py_str T) \<Longrightarrow> admissible v T"
| some_of: "T \<in> set Ts \<Longrightarrow> admissible v T \<Longrightarrow> admissible v (PList Ts)"

inductive_simps admitted_list [simp]: "admissible v (PList Ts)"

text \<open>The members of a list or tuple, the parts of a text, the keys of an object.\<close>

definition listed :: "pyval \<Rightarrow> pyval \<Rightarrow> bool" where
  "listed v allowed \<longleftrightarrow>
     (\<exists>xs. (allowed = PList xs \<or> allowed = PTuple xs) \<and> (\<exists>x \<in> set xs. py_eq v x))
     \<or> (\<exists>p s a b. v = PStr p \<and> allowed = PStr s \<and> s = a @ p @ b)
     \<or> (\<exists>k d. v = PStr k \<and> allowed = PDict d \<and> k \<in> fst ` set d)"

text \<open>A limit is a number, also one written as text; a float counts as the integer it truncates to.\<close>

inductive limit_value :: "(string \<Rightarrow> int) \<Rightarrow> pyval \<Rightarrow> int \<Rightarrow> bool" for fint where
  "limit_value fint (PInt i) i"
| "limit_value fint (PBool b) (if b then 1 else 0)"
| "s \<notin> {''inf'', ''-inf'', ''nan''} \<Longrightarrow> limit_value fint (PFloat s) (fint s)"
| "parse_int s = Some i \<Longrightarrow> limit_value fint (PStr s) i"

definition within_limit :: "(string \<Rightarrow> int) \<Rightarrow> string \<Rightarrow> nat \<Rightarrow> pyval dict \<Rightarrow> bool" where
  "within_limit fint key n schema \<longleftrightarrow>
     pget schema key = PNone \<or> (\<exists>m. limit_value fint (pget schema key) m \<and> int n \<le> m)"

definition scalar_ok :: "(string \<Rightarrow> int) \<Rightarrow> pyval \<Rightarrow> pyval dict \<Rightarrow> bool" where
  "scalar_ok fint v schema \<longleftrightarrow>
     (truthy (pget schema ''type'') \<longrightarrow> admissible v (pget schema ''type''))
     \<and> (\<forall>allowed. dget schema ''enum'' = Some allowed \<longrightarrow> listed v allowed)
     \<and> (\<forall>s. v = PStr s \<longrightarrow> within_limit fint ''maxLength'' (length s) schema)"

text \<open>Every name that is required is a key: the names of a list or tuple, of an object, the letters of a text.\<close>

definition required_ok :: "pyval dict \<Rightarrow> pyval dict \<Rightarrow> bool" where
  "required_ok schema d \<longleftrightarrow>
     (truthy (pget schema ''required'') \<longrightarrow>
        (case pget schema ''required'' of
           PList rs \<Rightarrow> set rs \<subseteq> PStr ` fst ` set d
         | PTuple rs \<Rightarrow> set rs \<subseteq> PStr ` fst ` set d
         | PStr s \<Rightarrow> (\<lambda>c. [c]) ` set s \<subseteq> fst ` set d
         | PDict e \<Rightarrow> fst ` set e \<subseteq> fst ` set d
         | _ \<Rightarrow> False))"

primrec conforms :: "(string \<Rightarrow> int) \<Rightarrow> pyval \<Rightarrow> pyval dict \<Rightarrow> bool" where
  "conforms fint (PList xs) = (\<lambda>schema. scalar_ok fint (PList xs) schema
     \<and> within_limit fint ''maxItems'' (length xs) schema
     \<and> (\<forall>item_schema. pget schema ''items'' = PDict item_schema \<longrightarrow>
          (\<forall>ok \<in> set (map (conforms fint) xs). ok item_schema)))"
| "conforms fint (PDict d) = (\<lambda>schema. scalar_ok fint (PDict d) schema
     \<and> required_ok schema d
     \<and> (\<forall>properties. pget schema ''properties'' = PDict properties \<longrightarrow>
          (\<forall>(k, ok) \<in> set (map (map_prod id (conforms fint)) d). \<forall>child. pget properties k = PDict child \<longrightarrow> ok child)))"
| "conforms fint PNone = scalar_ok fint PNone"
| "conforms fint (PBool b) = scalar_ok fint (PBool b)"
| "conforms fint (PInt i) = scalar_ok fint (PInt i)"
| "conforms fint (PFloat s) = scalar_ok fint (PFloat s)"
| "conforms fint (PStr s) = scalar_ok fint (PStr s)"
| "conforms fint (PTuple xs) = scalar_ok fint (PTuple xs)"

lemma and_then_Pass [simp]: "and_then a b = Pass \<longleftrightarrow> a = Pass \<and> b = Pass"
  by (cases a) auto

lemma sub_schema_Some: "sub_schema v = Some d \<longleftrightarrow> v = PDict d"
  by (cases v) (auto simp: sub_schema_def)

lemma sub_schema_None: "sub_schema v = None \<longleftrightarrow> (\<forall>d. v \<noteq> PDict d)"
  by (cases v) (auto simp: sub_schema_def)

lemma matches_name: "matches_type_name v t \<longleftrightarrow> of_type v t"
proof (cases "t \<in> JSON_TYPES")
  case True
  then show ?thesis
    unfolding JSON_TYPES_def by (elim insertE emptyE; cases v; simp add: matches_type_name_def of_type_def JSON_TYPES_def is_int_def is_mapping_def)
next
  case False
  then show ?thesis by (simp add: matches_type_name_def of_type_def JSON_TYPES_def)
qed

lemma matches_one: "(\<And>Ts. T \<noteq> PList Ts) \<Longrightarrow> matches_type v T \<longleftrightarrow> of_type v (py_str T)"
proof -
  have "py_str PNone = ''None''" "py_str (PFloat s) = s" for s by (simp_all add: py_str_def)
  moreover assume "\<And>Ts. T \<noteq> PList Ts"
  ultimately show ?thesis by (cases T) (auto simp: matches_name)
qed

lemma admitted_one: "(\<And>Ts. T \<noteq> PList Ts) \<Longrightarrow> admissible v T \<longleftrightarrow> of_type v (py_str T)"
  by (subst admissible.simps) auto

lemma matches_admitted: "matches_type v T \<longleftrightarrow> admissible v T"
proof (induction T rule: pyval_induct)
  case (List Ts)
  then show ?case by (auto simp: list_ex_iff)
qed (simp_all only: matches_one admitted_one pyval.distinct simp_thms)

lemma contains_iff: "contains p s \<longleftrightarrow> (\<exists>a b. s = a @ p @ b)"
proof
  have front: "starts_with p t \<longleftrightarrow> (\<exists>b. t = p @ b)" for t
    by (metis append_eq_conv_conj append_take_drop_id starts_with_def)
  show "contains p s \<Longrightarrow> \<exists>a b. s = a @ p @ b"
  proof (induction s)
    case (Cons c s)
    then consider "starts_with p (c # s)" | "\<exists>a b. s = a @ p @ b" by auto
    then show ?case by cases (metis front append_Nil, metis append_Cons)
  qed simp
  have "contains p t" if "starts_with p t" for t using that by (cases t) (auto simp: starts_with_def)
  then have "contains p (p @ b)" for b using front by blast
  then have "contains p (a @ p @ b)" for a b by (induction a) auto
  then show "\<exists>a b. s = a @ p @ b \<Longrightarrow> contains p s" by blast
qed

lemma in_listed: "py_in v allowed = Some True \<longleftrightarrow> listed v allowed"
  by (cases allowed; cases v) (auto simp: py_in_def listed_def list_ex_iff contains_iff map_of_eq_None_iff image_iff)

lemma int_limit: "py_int fint v = Inr m \<longleftrightarrow> limit_value fint v m"
  by (cases v) (auto simp: PyValue.py_int_def limit_value.simps split: option.splits)

lemma check_limit_Pass: "check_limit fint key n schema path = Pass \<longleftrightarrow> within_limit fint key n schema"
  by (auto simp: check_limit_def within_limit_def int_limit [symmetric] split: sum.splits)

lemma check_scalar_Pass: "check_scalar fint v schema path = Pass \<longleftrightarrow> scalar_ok fint v schema"
  by (auto simp: check_scalar_def scalar_ok_def check_type_def check_enum_def check_string_def matches_admitted in_listed [symmetric]
      check_limit_Pass Let_def split: option.splits if_splits pyval.splits)

lemma needed_in: "py_in r (PDict d) = Some True \<longleftrightarrow> r \<in> PStr ` fst ` set d"
  by (cases r) (auto simp: py_in_def map_of_eq_None_iff image_iff)

lemma check_required_Pass: "check_required rs d path = Pass \<longleftrightarrow> set rs \<subseteq> PStr ` fst ` set d"
proof (induction rs)
  case (Cons r rs)
  then show ?case using needed_in [of r d] by (auto split: option.splits)
qed simp

lemma iter_keys:
  "(\<exists>rs. py_iter v = Some rs \<and> set rs \<subseteq> PStr ` X) \<longleftrightarrow>
     (case v of PList rs \<Rightarrow> set rs \<subseteq> PStr ` X | PTuple rs \<Rightarrow> set rs \<subseteq> PStr ` X
      | PStr s \<Rightarrow> (\<lambda>c. [c]) ` set s \<subseteq> X | PDict e \<Rightarrow> fst ` set e \<subseteq> X | _ \<Rightarrow> False)"
proof (cases v)
  case (PDict e)
  have "set (map (\<lambda>(k, _). PStr k) e) = PStr ` fst ` set e" by force
  then show ?thesis using PDict by (simp add: py_iter_def inj_image_subset_iff inj_def del: set_map)
next
  case (PStr s)
  have "set (map (\<lambda>c. PStr [c]) s) = PStr ` (\<lambda>c. [c]) ` set s" by force
  then show ?thesis using PStr by (simp add: py_iter_def inj_image_subset_iff inj_def del: set_map)
qed (simp_all add: py_iter_def)

lemma check_required_of_Pass: "check_required_of schema d path = Pass \<longleftrightarrow> required_ok schema d"
  unfolding required_ok_def iter_keys [symmetric]
  by (auto simp: check_required_of_def check_required_Pass Let_def split: option.splits)

lemmas check_Pass_simps = check_limit_Pass check_scalar_Pass check_required_of_Pass

lemma validate_items_Pass:
  assumes "\<And>x path. x \<in> set xs \<Longrightarrow> validate_value fint x sch path = Pass \<longleftrightarrow> conforms fint x sch"
  shows "validate_items (map (validate_value fint) xs) sch path i = Pass \<longleftrightarrow> (\<forall>x \<in> set xs. conforms fint x sch)"
  using assms by (induction xs arbitrary: i) auto

lemma validate_props_Pass:
  assumes "\<And>k v path child. (k, v) \<in> set d \<Longrightarrow> validate_value fint v child path = Pass \<longleftrightarrow> conforms fint v child"
  shows "validate_props (map (map_prod id (validate_value fint)) d) props path = Pass \<longleftrightarrow>
     (\<forall>(k, v) \<in> set d. \<forall>child. pget props k = PDict child \<longrightarrow> conforms fint v child)"
  using assms
  by (induction d) (fastforce split: option.splits simp: sub_schema_Some sub_schema_None)+

lemma validate_value_iff_conforms: "validate_value fint v schema path = Pass \<longleftrightarrow> conforms fint v schema"
proof (induction v arbitrary: schema path rule: pyval_induct)
  case (List xs)
  then show ?case
    by (auto simp: check_Pass_simps sub_schema_Some sub_schema_None validate_items_Pass split: option.splits)
next
  case (Dict d)
  then have "validate_props (map (map_prod id (validate_value fint)) d) props p = Pass \<longleftrightarrow>
      (\<forall>(k, v) \<in> set d. \<forall>child. pget props k = PDict child \<longrightarrow> conforms fint v child)" for props p
    by (rule validate_props_Pass)
  then show ?case
    by (auto simp: check_Pass_simps sub_schema_Some sub_schema_None split: option.splits)
qed (simp_all add: check_Pass_simps)

text \<open>
  Claim C38. Schema validation is exactly conformance: the validator passes a value, under
  any path, if and only if the value satisfies the schema's keywords as the specification reads
  them, which shares no test with the validator.
\<close>

theorem validate_value_correct: "(validate_value fint v schema path = Pass) = conforms fint v schema"
  by (rule validate_value_iff_conforms)

text \<open>
  Validation fails closed: a call passes only when its name is not in conflict,
  the catalog holds a schema for it, its arguments are an object within the size limit, and
  the arguments it leaves in the call conform to the declared parameters.
\<close>

theorem validate_action_call_fails_closed:
  assumes "validate_action_call fint call cat = Inr (None, call')"
  shows "str_or (pget call ''name'') \<notin> set (cat_conflicts cat)
     \<and> truthy (pget (cat_schemas cat) (str_or (pget call ''name'')))
     \<and> is_mapping (pget call ''arguments'')
     \<and> json_size (pget call ''arguments'') \<le> MAX_ARGUMENT_BYTES
     \<and> (\<forall>parameters. call_parameters (as_mapping (pget (cat_schemas cat) (str_or (pget call ''name'')))) = PDict parameters
          \<longrightarrow> conforms fint (pget call' ''arguments'') parameters)
     \<and> (pget call ''target'' \<noteq> PStr ''mcp'' \<longrightarrow> pget call' ''arguments'' = pget call ''arguments'')"
  using assms
  by (auto simp: validate_action_call_def Let_def validate_value_iff_conforms sub_schema_Some sub_schema_None
      split: if_splits option.splits check.splits)

text \<open>A catalog with one tool that wants a string of at most five characters.\<close>

definition example_parameters :: "pyval dict" where
  "example_parameters =
     [(''type'', PStr ''object''), (''required'', PList [PStr ''query'']),
      (''properties'', PDict [(''query'', PDict [(''type'', PStr ''string''), (''maxLength'', PInt 5)]),
                              (''page'', PDict [(''type'', PStr ''integer'')])])]"

definition example_catalog :: catalog where
  "example_catalog = \<lparr>cat_version = ''jos-p4:0'', cat_fingerprint = ''0'', cat_names = [''find''],
     cat_schemas = [(''find'', PDict [(''name'', PStr ''find''), (''parameters'', PDict example_parameters)])],
     cat_conflicts = []\<rparr>"

definition example_call :: "pyval dict" where
  "example_call = [(''name'', PStr ''find''), (''target'', PStr ''mcp''),
     (''arguments'', PDict [(''query'', PStr ''abc''), (''page'', PNone)])]"

lemmas example_defs = example_call_def example_catalog_def example_parameters_def

lemma example_dropped:
  "drop_optional_nulls (PDict [(''query'', PStr ''abc''), (''page'', PNone)]) example_parameters =
     Some (PDict [(''query'', PStr ''abc'')])"
  by (simp add: example_parameters_def required_names_def py_iter_def sub_schema_def optional_null_def
      matches_type_name_def is_int_def Let_def)

lemma example_valid: "validate_value fint (PDict [(''query'', PStr ''abc'')]) example_parameters path = Pass"
  by (simp add: example_parameters_def check_scalar_def check_type_def check_enum_def check_string_def
      check_required_of_def py_iter_def py_in_def sub_schema_def check_limit_def PyValue.py_int_def
      matches_type_name_def is_int_def Let_def)

lemma example_size: "json_size (PDict [(''query'', PStr ''abc''), (''page'', PNone)]) \<le> MAX_ARGUMENT_BYTES"
  by (simp add: json_size_def dumps_compact_def MAX_ARGUMENT_BYTES_def json_string_def json_char_def Let_def code_def)

lemma example_call_passes:
  "validate_action_call fint example_call example_catalog =
     Inr (None, dset ''arguments'' (PDict [(''query'', PStr ''abc'')]) example_call)"
  using example_size example_valid example_dropped
  by (simp add: validate_action_call_def example_call_def example_catalog_def call_parameters_def sub_schema_def
      Let_def not_le [symmetric])

theorem validate_action_call_fails_closed_witness:
  "conforms fint (PDict [(''query'', PStr ''abc'')]) example_parameters"
proof -
  have "call_parameters (as_mapping (pget (cat_schemas example_catalog) (str_or (pget example_call ''name'')))) =
      PDict example_parameters" by (simp add: example_call_def example_catalog_def call_parameters_def)
  then show ?thesis
    using validate_action_call_fails_closed [OF example_call_passes] by (simp add: pget_def)
qed

section \<open>Dropping optional nulls\<close>

lemma drop_props_keys:
  assumes "drop_props (map (\<lambda>((k, v), f). (k, v, f)) (zip d fs)) required props = Some d'" "length fs = length d"
  shows "set (dkeys d') \<subseteq> set (dkeys d)
    \<and> (\<forall>k v. (k, v) \<in> set d \<longrightarrow> v \<noteq> PNone \<or> PStr k \<in> set required \<longrightarrow> k \<in> set (dkeys d'))"
  using assms
proof (induction d arbitrary: fs d')
  case Nil
  then show ?case by simp
next
  case (Cons p d)
  obtain k v where p: "p = (k, v)" by (cases p)
  from Cons.prems(2) obtain f fs' where fs: "fs = f # fs'" "length fs' = length d" by (cases fs) auto
  let ?rest = "drop_props (map (\<lambda>((k, v), f). (k, v, f)) (zip d fs')) required props"
  from Cons.prems(1) obtain e where e: "?rest = Some e"
    and d': "(d' = e \<and> v = PNone \<and> PStr k \<notin> set required) \<or> (\<exists>w. d' = (k, w) # e)"
    unfolding p fs(1) by (auto simp: optional_null_def Let_def split: option.splits if_splits)
  show ?case using Cons.IH [OF e fs(2)] d' unfolding p by (elim disjE exE conjE; simp; blast)
qed

text \<open>
  Dropping optional nulls from an object of arguments removes only keys whose value
  is null and that the schema does not require, and adds none.
\<close>

theorem drop_optional_nulls_keeps:
  assumes "drop_optional_nulls (PDict d) schema = Some v"
  shows "\<exists>d'. v = PDict d' \<and> set (dkeys d') \<subseteq> set (dkeys d)
     \<and> (\<forall>k w. (k, w) \<in> set d \<longrightarrow>
          w \<noteq> PNone \<or> (\<exists>rs. required_names schema = Some rs \<and> PStr k \<in> set rs) \<longrightarrow> k \<in> set (dkeys d'))"
proof (cases "sub_schema (pget schema ''properties'')")
  case None
  have "(k, w) \<in> set d \<Longrightarrow> k \<in> fst ` set d" for k w by force
  with None assms show ?thesis by (auto split: option.splits)
next
  case (Some props)
  with assms obtain rs d' where rs: "required_names schema = Some rs" and v: "v = PDict d'"
    and d': "drop_props (map (\<lambda>((k, v), f). (k, v, f))
       (zip d (map snd (map (map_prod id drop_optional_nulls) d)))) rs props = Some d'"
    by (auto split: option.splits)
  from drop_props_keys [OF d'] rs v show ?thesis by simp
qed

theorem drop_optional_nulls_keeps_witness:
  "\<exists>d'. drop_optional_nulls (PDict [(''query'', PNone), (''page'', PNone)]) example_parameters = Some (PDict d')
     \<and> ''query'' \<in> set (dkeys d')"
proof -
  have e: "drop_optional_nulls (PDict [(''query'', PNone), (''page'', PNone)]) example_parameters
      = Some (PDict [(''query'', PNone)])"
    by (simp add: example_parameters_def required_names_def py_iter_def sub_schema_def optional_null_def
      matches_type_name_def is_int_def Let_def)
  have r: "required_names example_parameters = Some [PStr ''query'']"
    by (simp add: example_parameters_def required_names_def py_iter_def Let_def)
  from drop_optional_nulls_keeps [OF e] r e show ?thesis by fastforce
qed

section \<open>The catalog\<close>

text \<open>Two schemas of one turn that give the same name different meanings.\<close>

definition ambiguous :: "pyval dict list \<Rightarrow> string \<Rightarrow> bool" where
  "ambiguous schemas n \<longleftrightarrow>
     (\<exists>r \<in> set schemas. \<exists>r' \<in> set schemas. schema_name r = n \<and> schema_name r' = n \<and> \<not> py_eq (PDict r) (PDict r'))"

lemma py_eq_sym: "py_eq a b \<Longrightarrow> py_eq b a"
  by (simp add: py_eq_def)

definition catalog_inv :: "pyval dict list \<Rightarrow> pyval dict \<times> string list \<Rightarrow> bool" where
  "catalog_inv seen st \<longleftrightarrow> (case st of (by_name, conflicts) \<Rightarrow>
     wf_dict by_name \<and> distinct conflicts
     \<and> (\<forall>n. n \<in> set (dkeys by_name) \<longleftrightarrow> n \<noteq> [] \<and> n \<in> schema_name ` set seen)
     \<and> (\<forall>n v. dget by_name n = Some v \<longrightarrow> (\<exists>r \<in> set seen. schema_name r = n \<and> v = PDict r))
     \<and> (\<forall>n. n \<in> set conflicts \<longleftrightarrow> n \<noteq> [] \<and>
          (\<exists>v r. dget by_name n = Some v \<and> r \<in> set seen \<and> schema_name r = n \<and> \<not> py_eq v (PDict r))))"

lemma catalog_invD:
  assumes "catalog_inv seen (by_name, conflicts)"
  shows "wf_dict by_name" "distinct conflicts"
    "n \<in> set (dkeys by_name) \<longleftrightarrow> n \<noteq> [] \<and> n \<in> schema_name ` set seen"
    "dget by_name n = Some v \<Longrightarrow> \<exists>r \<in> set seen. schema_name r = n \<and> v = PDict r"
    "n \<in> set conflicts \<longleftrightarrow> n \<noteq> [] \<and>
       (\<exists>v r. dget by_name n = Some v \<and> r \<in> set seen \<and> schema_name r = n \<and> \<not> py_eq v (PDict r))"
  using assms unfolding catalog_inv_def prod.case by blast+

lemma catalog_invI:
  assumes "wf_dict by_name" "distinct conflicts"
    "\<And>n. n \<in> set (dkeys by_name) \<longleftrightarrow> n \<noteq> [] \<and> n \<in> schema_name ` set seen"
    "\<And>n v. dget by_name n = Some v \<Longrightarrow> \<exists>r \<in> set seen. schema_name r = n \<and> v = PDict r"
    "\<And>n. n \<in> set conflicts \<longleftrightarrow> n \<noteq> [] \<and>
       (\<exists>v r. dget by_name n = Some v \<and> r \<in> set seen \<and> schema_name r = n \<and> \<not> py_eq v (PDict r))"
  shows "catalog_inv seen (by_name, conflicts)"
  unfolding catalog_inv_def prod.case using assms by blast

lemma add_schema_inv:
  assumes inv: "catalog_inv seen st"
  shows "catalog_inv (seen @ [raw]) (add_schema st raw)"
proof -
  obtain by_name conflicts where st: "st = (by_name, conflicts)" by (cases st)
  let ?n = "schema_name raw"
  note D = catalog_invD [OF inv [unfolded st]]
  consider "?n = []" | "?n \<noteq> []" "dget by_name ?n = None" | v where "?n \<noteq> []" "dget by_name ?n = Some v"
    by blast
  then show ?thesis
  proof cases
    case 1
    then have "add_schema st raw = (by_name, conflicts)" by (simp add: st add_schema_def Let_def)
    moreover have "catalog_inv (seen @ [raw]) (by_name, conflicts)"
    proof (rule catalog_invI)
      show "n \<in> set (dkeys by_name) \<longleftrightarrow> n \<noteq> [] \<and> n \<in> schema_name ` set (seen @ [raw])" for n
        using 1 D(3) [of n] by auto
      show "dget by_name n = Some v \<Longrightarrow> \<exists>r \<in> set (seen @ [raw]). schema_name r = n \<and> v = PDict r" for n v
        using D(4) [of n v] by auto
      show "n \<in> set conflicts \<longleftrightarrow> n \<noteq> [] \<and> (\<exists>v r. dget by_name n = Some v
          \<and> r \<in> set (seen @ [raw]) \<and> schema_name r = n \<and> \<not> py_eq v (PDict r))" for n
        using D(5) [of n] 1 by auto
    qed (use D in simp_all)
    ultimately show ?thesis by simp
  next
    case 2
    then have e: "add_schema st raw = (dset ?n (PDict raw) by_name, conflicts)"
      by (simp add: st add_schema_def Let_def)
    have "?n \<notin> set (dkeys by_name)" using 2(2) dget_None_dkeys [of by_name ?n] by (rule iffD1 [rotated])
    with D(3) [of ?n] 2(1) have "?n \<notin> schema_name ` set seen" by simp
    then have new: "r \<in> set seen \<Longrightarrow> schema_name r \<noteq> ?n" for r by (metis imageI)
    show ?thesis unfolding e
    proof (rule catalog_invI)
      show "n \<in> set (dkeys (dset ?n (PDict raw) by_name)) \<longleftrightarrow> n \<noteq> [] \<and> n \<in> schema_name ` set (seen @ [raw])" for n
        using 2 D(3) [of n] by auto
      show "dget (dset ?n (PDict raw) by_name) n = Some v \<Longrightarrow> \<exists>r \<in> set (seen @ [raw]). schema_name r = n \<and> v = PDict r" for n v
        using D(4) [of n v] by (auto split: if_splits)
      show "n \<in> set conflicts \<longleftrightarrow> n \<noteq> [] \<and> (\<exists>v r. dget (dset ?n (PDict raw) by_name) n = Some v
          \<and> r \<in> set (seen @ [raw]) \<and> schema_name r = n \<and> \<not> py_eq v (PDict r))" for n
      proof (cases "n = ?n")
        case True
        then have "n \<notin> set conflicts" using D(5) [of n] 2 by simp
        then show ?thesis using True new by auto
      next
        case False
        then show ?thesis using D(5) [of n] by auto
      qed
    qed (use D in simp_all)
  next
    case (3 v)
    then have e: "add_schema st raw =
        (by_name, if py_eq v (PDict raw) then conflicts else List.insert ?n conflicts)"
      by (simp add: st add_schema_def Let_def)
    have old: "?n \<in> schema_name ` set seen"
      using D(4) [OF 3(2)] by (metis imageI)
    show ?thesis unfolding e
    proof (rule catalog_invI)
      show "n \<in> set (dkeys by_name) \<longleftrightarrow> n \<noteq> [] \<and> n \<in> schema_name ` set (seen @ [raw])" for n
        using D(3) [of n] old by auto
      show "dget by_name n = Some w \<Longrightarrow> \<exists>r \<in> set (seen @ [raw]). schema_name r = n \<and> w = PDict r" for n w
        using D(4) [of n w] by auto
      show "n \<in> set (if py_eq v (PDict raw) then conflicts else List.insert ?n conflicts) \<longleftrightarrow> n \<noteq> [] \<and>
          (\<exists>v r. dget by_name n = Some v \<and> r \<in> set (seen @ [raw]) \<and> schema_name r = n \<and> \<not> py_eq v (PDict r))" for n
        using D(5) [of n] 3 by (cases "n = ?n") (auto split: if_splits)
    qed (use D in simp_all)
  qed
qed

lemma add_schemas_inv: "catalog_inv seen st \<Longrightarrow> catalog_inv (seen @ raws) (foldl add_schema st raws)"
proof (induction raws arbitrary: seen st)
  case (Cons r raws)
  from Cons.IH [OF add_schema_inv [OF Cons.prems, of r]] show ?case by simp
qed simp

lemma conflict_iff_ambiguous:
  assumes inv: "catalog_inv seen (by_name, conflicts)"
  shows "n \<in> set conflicts \<longleftrightarrow> n \<noteq> [] \<and> ambiguous seen n"
proof
  assume "n \<in> set conflicts"
  then obtain v r where n: "n \<noteq> []" and v: "dget by_name n = Some v"
    and r: "r \<in> set seen" "schema_name r = n" "\<not> py_eq v (PDict r)"
    using catalog_invD(5) [OF inv] by blast
  from catalog_invD(4) [OF inv v] r n show "n \<noteq> [] \<and> ambiguous seen n"
    unfolding ambiguous_def by blast
next
  assume a: "n \<noteq> [] \<and> ambiguous seen n"
  then obtain r r' where r: "r \<in> set seen" "r' \<in> set seen" "schema_name r = n" "schema_name r' = n"
    "\<not> py_eq (PDict r) (PDict r')" unfolding ambiguous_def by blast
  have "n \<in> set (dkeys by_name)" using catalog_invD(3) [OF inv] a r by blast
  then have "dget by_name n \<noteq> None" using dget_None_dkeys [of by_name n] by blast
  then obtain v where v: "dget by_name n = Some v" by blast
  have "\<not> py_eq v (PDict r) \<or> \<not> py_eq v (PDict r')"
    using r(5) py_eq_sym py_eq_trans by blast
  then show "n \<in> set conflicts" using catalog_invD(5) [OF inv] a r v by blast
qed

lemma add_fallbacks:
  "wf_dict d \<Longrightarrow> wf_dict (foldl add_fallback d names)
     \<and> set (dkeys (foldl add_fallback d names)) = set (dkeys d) \<union> (strip ` set names - {[]})"
proof (induction names arbitrary: d)
  case (Cons n names)
  have wf: "wf_dict (add_fallback d n)"
    using Cons.prems by (simp add: add_fallback_def Let_def dsetdefault_def split: option.splits)
  have "set (dkeys (add_fallback d n)) = set (dkeys d) \<union> ({strip n} - {[]})"
  proof (cases "dget d (strip n)")
    case None
    then show ?thesis by (auto simp: add_fallback_def Let_def dsetdefault_def)
  next
    case (Some v)
    then have "strip n \<in> set (dkeys d)" using dget_None_dkeys [of d "strip n"] by simp
    with Some show ?thesis by (auto simp: add_fallback_def Let_def dsetdefault_def)
  qed
  with Cons.IH [OF wf] show ?case by auto
qed simp

lemma pop_all:
  "wf_dict d \<Longrightarrow> wf_dict (foldl (\<lambda>d n. dpop n d) d ns)
     \<and> set (dkeys (foldl (\<lambda>d n. dpop n d) d ns)) = set (dkeys d) - set ns"
proof (induction ns arbitrary: d)
  case (Cons n ns)
  from Cons.IH [OF wf_dpop [OF Cons.prems, of n]] show ?case by auto
qed simp

text \<open>
  The catalog of a turn offers exactly the names that some schema or fallback
  declares and that no two schemas define differently, once each and in order; the names
  defined differently are exactly its conflicts.
\<close>

theorem compose_catalog_correct:
  "(n \<in> set (cat_names (compose_capability_catalog sha256 schemas fallback)) \<longleftrightarrow>
      n \<noteq> [] \<and> (n \<in> schema_name ` set schemas \<or> n \<in> strip ` set fallback) \<and> \<not> ambiguous schemas n)
   \<and> (n \<in> set (cat_conflicts (compose_capability_catalog sha256 schemas fallback)) \<longleftrightarrow>
      n \<noteq> [] \<and> ambiguous schemas n)
   \<and> sorted (cat_names (compose_capability_catalog sha256 schemas fallback))
   \<and> distinct (cat_names (compose_capability_catalog sha256 schemas fallback))
   \<and> set (cat_names (compose_capability_catalog sha256 schemas fallback))
       = set (dkeys (cat_schemas (compose_capability_catalog sha256 schemas fallback)))"
proof -
  define c where "c = compose_capability_catalog sha256 schemas fallback"
  obtain by_name conflicts where st: "foldl add_schema ([], []) schemas = (by_name, conflicts)"
    by (cases "foldl add_schema ([], []) schemas")
  have inv: "catalog_inv schemas (by_name, conflicts)"
    using add_schemas_inv [of "[]" "([], [])" schemas] st by (simp add: catalog_inv_def)
  then have wf: "wf_dict by_name" and keys: "n \<in> set (dkeys by_name) \<longleftrightarrow> n \<noteq> [] \<and> n \<in> schema_name ` set schemas"
    by (simp_all add: catalog_inv_def)
  let ?d = "foldl (\<lambda>d n. dpop n d) (foldl add_fallback by_name fallback) conflicts"
  have c: "cat_schemas c = ?d" "cat_names c = sort (dkeys ?d)" "cat_conflicts c = sort conflicts"
    by (simp_all add: c_def compose_capability_catalog_def st Let_def)
  note fb = add_fallbacks [OF wf, of fallback]
  note po = pop_all [of "foldl add_fallback by_name fallback" conflicts]
  have "n \<in> set (cat_conflicts c) \<longleftrightarrow> n \<noteq> [] \<and> ambiguous schemas n"
    using conflict_iff_ambiguous [OF inv] by (simp add: c)
  moreover have "n \<in> set (cat_names c) \<longleftrightarrow> n \<noteq> [] \<and> (n \<in> schema_name ` set schemas \<or> n \<in> strip ` set fallback)
      \<and> \<not> ambiguous schemas n"
    using fb po keys conflict_iff_ambiguous [OF inv, of n] by (auto simp: c)
  moreover have "sorted (cat_names c) \<and> distinct (cat_names c) \<and> set (cat_names c) = set (dkeys (cat_schemas c))"
    using fb po by (simp add: c)
  ultimately show ?thesis by (simp add: c_def)
qed

section \<open>The size of the structured part\<close>

lemma length_json_string: "length s \<le> length (json_string a s)"
proof -
  have "length s \<le> length (concat (map (json_char a) s))"
  proof (induction s)
    case (Cons c s)
    have "1 \<le> length (json_char a c)" by (simp add: json_char_def Let_def)
    with Cons show ?case by simp
  qed simp
  then show ?thesis by (simp add: json_string_def)
qed

lemma json_size_singleton: "length s \<le> json_size (PDict [(k, PStr s)])"
  using length_json_string [of s True] by (simp add: json_size_def dumps_compact_def)

text \<open>
  The structured part of a result is cut to its evidence keys when it is too large, but the
  values of those keys are kept whole: a runner that returns a long \<open>path\<close> makes the
  stored result exceed the limit.
\<close>

lemma bounded_structured_can_exceed:
  "\<exists>result. MAX_RESULT_BYTES < json_size (PDict (bounded_structured result))"
proof
  let ?s = "replicate 70000 (CHR ''a'')"
  let ?r = "[(''path'', PStr ?s)]"
  have "70000 \<le> json_size (PDict ?r)" using json_size_singleton [of ?s "''path''"] by simp
  then have big: "\<not> json_size (PDict ?r) \<le> MAX_RESULT_BYTES" by (simp add: MAX_RESULT_BYTES_def)
  have ev: "evidence_of ?r = ?r" by (simp add: evidence_of_def EVIDENCE_KEYS_def pget_def)
  have "length (json_string True ?s) \<le> json_size (PDict (bounded_structured ?r))"
    using big by (simp add: bounded_structured_def ev json_size_def [of "PDict (_ # _)"] dumps_compact_def)
  then show "MAX_RESULT_BYTES < json_size (PDict (bounded_structured ?r))"
    using length_json_string [of ?s True] by (simp add: MAX_RESULT_BYTES_def)
qed

end
