(* ===== verification/AuthorityPolicy.thy ===== *)
theory AuthorityPolicy
  imports ActionProtocol
begin

text \<open>
  The classification half of \<open>src/authority_protocol.py\<close>: the effect of a concrete call,
  the workspace boundary, redaction of secrets, and the reading of a natural reply. Effects
  are a datatype ordered by the source's strictness table; \<open>None\<close> stands for
  \<open>"unclassified"\<close>. The file-system functions \<open>os.path.realpath\<close> and
  \<open>os.path.expanduser\<close> are the fields of an environment record.
\<close>

section \<open>Effects\<close>

datatype effect =
    Read
  | Reversible_write
  | Destructive_or_difficult_to_recover
  | External_publication_or_communication
  | Purchase
  | Credential_or_auth_change
  | Privilege_expansion
  | Outside_workspace_boundary

definition strictness :: "effect \<Rightarrow> nat" where
  "strictness e = (case e of
      Read \<Rightarrow> 0 | Reversible_write \<Rightarrow> 1 | Destructive_or_difficult_to_recover \<Rightarrow> 2
    | External_publication_or_communication \<Rightarrow> 3 | Purchase \<Rightarrow> 4 | Credential_or_auth_change \<Rightarrow> 5
    | Privilege_expansion \<Rightarrow> 6 | Outside_workspace_boundary \<Rightarrow> 7)"

lemma strictness_inject [simp]: "strictness a = strictness b \<longleftrightarrow> a = b"
  by (cases a; cases b) (simp_all add: strictness_def)

text \<open>The strictness table is injective, so it orders the effects linearly.\<close>

instantiation effect :: linorder
begin

definition less_eq_effect :: "effect \<Rightarrow> effect \<Rightarrow> bool" where
  "a \<le> b \<longleftrightarrow> strictness a \<le> strictness b"

definition less_effect :: "effect \<Rightarrow> effect \<Rightarrow> bool" where
  "a < b \<longleftrightarrow> strictness a < strictness b"

instance
  by standard (auto simp: less_eq_effect_def less_effect_def)

end

definition effect_name :: "effect \<Rightarrow> string" where
  "effect_name e = (case e of
      Read \<Rightarrow> ''read'' | Reversible_write \<Rightarrow> ''reversible_write''
    | Destructive_or_difficult_to_recover \<Rightarrow> ''destructive_or_difficult_to_recover''
    | External_publication_or_communication \<Rightarrow> ''external_publication_or_communication''
    | Purchase \<Rightarrow> ''purchase'' | Credential_or_auth_change \<Rightarrow> ''credential_or_auth_change''
    | Privilege_expansion \<Rightarrow> ''privilege_expansion''
    | Outside_workspace_boundary \<Rightarrow> ''outside_workspace_boundary'')"

definition ACTION_EFFECTS :: "effect list" where
  "ACTION_EFFECTS = [Read, Reversible_write, Destructive_or_difficult_to_recover,
     External_publication_or_communication, Purchase, Credential_or_auth_change,
     Privilege_expansion, Outside_workspace_boundary]"

definition SEPARATE_GATE_EFFECTS :: "effect list" where
  "SEPARATE_GATE_EFFECTS = [Destructive_or_difficult_to_recover, External_publication_or_communication,
     Purchase, Credential_or_auth_change, Privilege_expansion, Outside_workspace_boundary]"

definition APPROVE_FOR_ME_SAFE_EFFECTS :: "effect list" where
  "APPROVE_FOR_ME_SAFE_EFFECTS = [Read, Reversible_write, External_publication_or_communication,
     Outside_workspace_boundary]"

definition effect_of_name :: "string \<Rightarrow> effect option" where
  "effect_of_name s = find (\<lambda>e. effect_name e = s) ACTION_EFFECTS"

section \<open>Tables\<close>

definition LEGACY_EFFECTS :: "effect dict" where
  "LEGACY_EFFECTS = [(''read_only'', Read), (''bounded_write'', Reversible_write),
     (''controlled_administrative'', Reversible_write),
     (''external_side_effect'', External_publication_or_communication),
     (''destructive'', Destructive_or_difficult_to_recover)]"

definition DEFAULT_EFFECT_BY_CAPABILITY :: "effect dict" where
  "DEFAULT_EFFECT_BY_CAPABILITY =
     map (\<lambda>n. (n, Read))
       [''get_workspace'', ''read_file'', ''grep'', ''glob'', ''ls'', ''web_search'', ''web_fetch'',
        ''inspect_network'',
        ''get_runtime_status'', ''read_agent_task'', ''search_jarvis_knowledge'', ''read_calendar'',
        ''list_sessions'', ''search_chats'', ''list_email_accounts'', ''list_emails'', ''read_email'',
        ''list_models'', ''list_cached_models'', ''list_downloads'', ''list_serve_presets'',
        ''list_served_models'', ''list_cookbook_servers'', ''search_hf_models'', ''vault_search'',
        ''vault_get'', ''resolve_contact'', ''manage_books'', ''nextcloud_files''] @
     map (\<lambda>n. (n, Reversible_write))
       [''create_document'', ''edit_document'', ''update_document'', ''suggest_document'',
        ''write_file'', ''edit_file'', ''manage_notes'', ''manage_tasks'', ''manage_memory'',
        ''manage_skills'', ''manage_research'', ''manage_contact'', ''manage_session'',
        ''create_session'', ''send_to_session'', ''generate_image'', ''edit_image'', ''ui_control'',
        ''update_plan'', ''ask_user'', ''trigger_research'', ''start_agent_task'', ''manage_bg_jobs'',
        ''bash'', ''python'', ''download_model'', ''serve_model'', ''serve_preset'', ''adopt_served_model'',
        ''manage_settings'', ''manage_endpoints'', ''manage_mcp'', ''manage_webhooks'',
        ''manage_extensions'', ''manage_workspace''] @
     map (\<lambda>n. (n, External_publication_or_communication))
       [''send_email'', ''reply_to_email'', ''bulk_email'', ''manage_calendar'', ''api_call'', ''app_api''] @
     map (\<lambda>n. (n, Destructive_or_difficult_to_recover))
       [''delete_email'', ''archive_email'', ''mark_email_read'', ''cancel_download'', ''stop_served_model''] @
     [(''manage_tokens'', Credential_or_auth_change), (''vault_unlock'', Credential_or_auth_change)]"

definition READ_ACTIONS :: "string list" where
  "READ_ACTIONS = [''inventory'', ''list'', ''get'', ''read'', ''view'', ''search'', ''find'', ''status'', ''health'']"

definition ANDROID_READ_ACTIONS :: "string list" where
  "ANDROID_READ_ACTIONS = [''status'', ''devices'', ''avds'', ''wait'', ''logcat'', ''screenshot'']"

definition PUBLIC_READS :: "string list" where
  "PUBLIC_READS = [''web_search'', ''web_fetch'', ''get_runtime_status'']"

definition DESTRUCTIVE_ACTIONS :: "string list" where
  "DESTRUCTIVE_ACTIONS = [''delete'', ''remove'', ''purge'', ''revoke'', ''restore'', ''overwrite'',
     ''bulk_delete'', ''drop'', ''reset'']"

definition PURCHASE_ACTIONS :: "string list" where
  "PURCHASE_ACTIONS = [''buy'', ''purchase'', ''subscribe'', ''checkout'', ''order'', ''pay'']"

definition EXTERNAL_ACTIONS :: "string list" where
  "EXTERNAL_ACTIONS = [''send'', ''publish'', ''post'', ''submit'', ''invite'', ''communicate'']"

definition CREDENTIAL_ACTIONS :: "string list" where
  "CREDENTIAL_ACTIONS = [''authenticate'', ''login'', ''logout'', ''oauth'', ''rotate_token'', ''set_token'',
     ''add_credential'', ''remove_credential'', ''change_password'', ''mfa'']"

definition PRIVILEGE_ACTIONS :: "string list" where
  "PRIVILEGE_ACTIONS = [''grant'', ''elevate'', ''enable_privileged'', ''assign_role'', ''widen_permissions'',
     ''change_permissions'']"

definition PATH_ARGUMENT_KEYS :: "string list" where
  "PATH_ARGUMENT_KEYS = [''path'', ''paths'', ''cwd'', ''directory'', ''root'', ''source_path'', ''target_path'',
     ''destination_path'']"

definition NATURAL_APPROVAL_REPLIES :: "string dict" where
  "NATURAL_APPROVAL_REPLIES =
     [(''yes'', ''approve''), (''yeah'', ''approve''), (''yep'', ''approve''), (''approved'', ''approve''),
      (''approve'', ''approve''), (''go ahead'', ''approve''), (''do it'', ''approve''), (''proceed'', ''approve''),
      (''no'', ''deny''), (''nope'', ''deny''), (''deny'', ''deny''), (''denied'', ''deny''),
      (''cancel'', ''deny''), (''stop'', ''deny'')]"

definition TOKEN_BUDGET_KEYS :: "string list" where
  "TOKEN_BUDGET_KEYS = [''max_tokens'', ''max_context_tokens'', ''max_input_tokens'', ''max_output_tokens'',
     ''max_completion_tokens'', ''token_budget'', ''context_token_budget'']"

section \<open>Natural replies\<close>

text \<open>\<open>" ".join(re.sub(r"[^a-z ]", " ", text.lower()).split())\<close>.\<close>

definition plain_words :: "string \<Rightarrow> string" where
  "plain_words text = join '' '' (split_ws (map (\<lambda>c. if is_az c \<or> c = CHR '' '' then c else CHR '' '') (lower text)))"

definition natural_approval_choice :: "string \<Rightarrow> string option" where
  "natural_approval_choice text =
     (let value0 = plain_words text;
          value1 = (if starts_with ''please '' value0 then drop 7 value0 else value0);
          value = (if ends_with '' please'' value1 then take (length value1 - 7) value1 else value1)
      in dget NATURAL_APPROVAL_REPLIES value)"

section \<open>Fingerprints and redaction\<close>

definition argument_fingerprint :: "(string \<Rightarrow> string) \<Rightarrow> pyval dict \<Rightarrow> string" where
  "argument_fingerprint sha256 call =
     sha256 (dumps_canonical (PDict [(''name'', pget call ''name''), (''target'', pget call ''target''),
                                     (''arguments'', pget call ''arguments'')]))"

text \<open>\<open>token|secret|password|credential|private.?key|authorization|api.?key\<close> under \<open>re.I\<close>\<close>

definition SECRET_KEY :: regex where
  "SECRET_KEY = ignore_case (ralt
     [rlit ''token'', rlit ''secret'', rlit ''password'', rlit ''credential'',
      rseq [rlit ''private'', ropt rdot, rlit ''key''], rlit ''authorization'',
      rseq [rlit ''api'', ropt rdot, rlit ''key'']])"

text \<open>\<open>(?i)\\b(Bearer\\s+)[A-Za-z0-9._~+/=-]{8,}\<close>\<close>

definition SECRET_TEXT_0 :: regex where
  "SECRET_TEXT_0 = ignore_case (rseq [RWordB, RGroup (rseq [rlit ''Bearer'', rplus rspace]),
     RRep 8 None (RSet (\<lambda>c. is_alnum c \<or> one_of ''._~+/=-'' c))])"

text \<open>The key formats \<open>sk-...\<close>, \<open>gh?_...\<close> and \<open>xox?-...\<close>, between word boundaries.\<close>

definition SECRET_TEXT_1 :: regex where
  "SECRET_TEXT_1 = rseq [RWordB, ralt
     [rseq [rlit ''sk-'', RRep 12 None (RSet (\<lambda>c. is_alnum c \<or> one_of ''_-'' c))],
      rseq [rlit ''gh'', RSet (one_of ''pousr''), rlit ''_'', RRep 12 None (RSet (\<lambda>c. is_alnum c \<or> c = CHR ''_''))],
      rseq [rlit ''xox'', RSet (one_of ''baprs''), rlit ''-'', RRep 12 None (RSet (\<lambda>c. is_alnum c \<or> c = CHR ''-''))]],
     RWordB]"

text \<open>An assignment \<open>key = value\<close> or \<open>key: value\<close> with a secret-bearing key.\<close>

definition SECRET_TEXT_2 :: regex where
  "SECRET_TEXT_2 = ignore_case (rseq [RWordB,
     RGroup (rseq [ralt [rseq [rlit ''api'', ropt (RSet (one_of ''_-'')), rlit ''key''],
                         rlit ''token'', rlit ''secret'', rlit ''password'', rlit ''credential''],
                   rstar rspace, RSet (one_of '':=''), rstar rspace, ropt (RSet (\<lambda>c. c = CHR 0x27 \<or> c = CHR 0x22))]),
     RRep 4 None (RSet (\<lambda>c. \<not> is_space c \<and> c \<noteq> CHR 0x27 \<and> c \<noteq> CHR 0x22 \<and> none_of '',;}'' c))])"

definition redact_secret_text :: "string \<Rightarrow> string" where
  "redact_secret_text value =
     re_sub SECRET_TEXT_2 (\<lambda>g. g @ ''[redacted]'')
       (re_sub SECRET_TEXT_1 (\<lambda>_. ''[redacted]'')
         (re_sub SECRET_TEXT_0 (\<lambda>g. g @ ''[redacted]'') value))"

definition is_credential_field :: "string \<Rightarrow> pyval \<Rightarrow> bool" where
  "is_credential_field key value =
     (if lower key \<in> set TOKEN_BUDGET_KEYS \<and> (case value of PInt i \<Rightarrow> 0 \<le> i | _ \<Rightarrow> False) then False
      else re_search SECRET_KEY key)"

abbreviation redacted :: pyval where "redacted \<equiv> PStr ''[redacted]''"

function redact_secrets :: "pyval \<Rightarrow> pyval" where
  "redact_secrets (PDict d) =
     PDict (map (\<lambda>(key, item). (key, if is_credential_field key item then redacted else redact_secrets item)) d)"
| "redact_secrets (PList xs) = PList (map redact_secrets xs)"
| "redact_secrets (PTuple xs) = PList (map redact_secrets xs)"
| "redact_secrets (PStr s) = PStr (redact_secret_text s)"
| "redact_secrets PNone = PNone"
| "redact_secrets (PBool b) = PBool b"
| "redact_secrets (PInt i) = PInt i"
| "redact_secrets (PFloat s) = PFloat s"
  by pat_completeness auto
termination
  by (relation "measure size") (auto dest: size_dict_entry size_list_entry size_tuple_entry)

function safe_preview :: "nat \<Rightarrow> pyval \<Rightarrow> pyval" where
  "safe_preview depth (PDict d) =
     (if 5 < depth then PStr ''[truncated]''
      else PDict (foldl (\<lambda>acc (key, item). dset key item acc) []
        (map (\<lambda>(key, item). (take 100 key,
            if is_credential_field key item then redacted else safe_preview (Suc depth) item)) (take 50 d))))"
| "safe_preview depth (PList xs) =
     (if 5 < depth then PStr ''[truncated]'' else PList (map (safe_preview (Suc depth)) (take 50 xs)))"
| "safe_preview depth (PStr s) =
     (if 5 < depth then PStr ''[truncated]''
      else let r = redact_secret_text s in PStr (take 1000 r @ (if 1000 < length r then ''...'' else [])))"
| "safe_preview depth PNone = (if 5 < depth then PStr ''[truncated]'' else PNone)"
| "safe_preview depth (PBool b) = (if 5 < depth then PStr ''[truncated]'' else PBool b)"
| "safe_preview depth (PInt i) = (if 5 < depth then PStr ''[truncated]'' else PInt i)"
| "safe_preview depth (PFloat s) = (if 5 < depth then PStr ''[truncated]'' else PFloat s)"
| "safe_preview depth (PTuple xs) = (if 5 < depth then PStr ''[truncated]'' else PTuple xs)"
  by pat_completeness auto
termination
  by (relation "measure (\<lambda>(_, v). size v)")
     (auto dest!: in_set_takeD dest: size_dict_entry size_list_entry size_tuple_entry)

definition audit_safe_action_call :: "pyval dict \<Rightarrow> pyval dict" where
  "audit_safe_action_call call =
     dset ''arguments'' (redact_secrets (py_or (pget call ''arguments'') (PDict []))) call"

section \<open>The workspace boundary\<close>

record os_env =
  realpath :: "string \<Rightarrow> string"
  expanduser :: "string \<Rightarrow> string"

definition isabs :: "string \<Rightarrow> bool" where "isabs p = starts_with ''/'' p"

definition path_join :: "string \<Rightarrow> string \<Rightarrow> string" where
  "path_join a b =
     (if isabs b then b else if a = [] \<or> ends_with ''/'' a then a @ b else a @ ''/'' @ b)"

text \<open>\<open>os.path.commonpath\<close> of two paths; \<open>None\<close> stands for the \<open>ValueError\<close>.\<close>

definition components :: "string \<Rightarrow> string list" where
  "components p = filter (\<lambda>c. c \<noteq> [] \<and> c \<noteq> ''.'') (split_on (CHR ''/'') p)"

fun common_prefix :: "'a list \<Rightarrow> 'a list \<Rightarrow> 'a list" where
  "common_prefix (x # xs) (y # ys) = (if x = y then x # common_prefix xs ys else [])"
| "common_prefix xs ys = []"

definition commonpath :: "string \<Rightarrow> string \<Rightarrow> string option" where
  "commonpath a b =
     (if isabs a \<noteq> isabs b then None
      else Some ((if isabs a then ''/'' else []) @ join ''/'' (common_prefix (components a) (components b))))"

definition policy_of :: "pyval dict \<Rightarrow> pyval dict" where
  "policy_of call = as_mapping (pget call ''capability_policy'')"

definition arguments_of :: "pyval dict \<Rightarrow> pyval dict" where
  "arguments_of call = as_mapping (pget call ''arguments'')"

definition declared_effect :: "pyval dict \<Rightarrow> effect option" where
  "declared_effect call =
     (case effect_of_name (str_or (pget (policy_of call) ''action_effect'')) of
        Some e \<Rightarrow> Some e
      | None \<Rightarrow> dget LEGACY_EFFECTS (str_or (pget (policy_of call) ''permission_mode'')))"

function path_values :: "string \<Rightarrow> pyval \<Rightarrow> string list" where
  "path_values key (PDict d) = concat (map (\<lambda>(child_key, child). path_values (lower child_key) child) d)"
| "path_values key (PList xs) = concat (map (path_values key) xs)"
| "path_values key (PTuple xs) = concat (map (path_values key) xs)"
| "path_values key (PStr s) = (if key \<in> set PATH_ARGUMENT_KEYS then [s] else [])"
| "path_values key PNone = []"
| "path_values key (PBool b) = []"
| "path_values key (PInt i) = []"
| "path_values key (PFloat s) = []"
  by pat_completeness auto
termination
  by (relation "measure (\<lambda>(_, v). size v)") (auto dest: size_dict_entry size_list_entry size_tuple_entry)

function contains_credential_field :: "pyval \<Rightarrow> bool" where
  "contains_credential_field (PDict d) =
     list_ex (\<lambda>(key, child). is_credential_field key child \<or> contains_credential_field child) d"
| "contains_credential_field (PList xs) = list_ex contains_credential_field xs"
| "contains_credential_field (PTuple xs) = list_ex contains_credential_field xs"
| "contains_credential_field (PStr s) = False"
| "contains_credential_field PNone = False"
| "contains_credential_field (PBool b) = False"
| "contains_credential_field (PInt i) = False"
| "contains_credential_field (PFloat s) = False"
  by pat_completeness auto
termination
  by (relation "measure size") (auto dest: size_dict_entry size_list_entry size_tuple_entry)

definition resolve_path :: "os_env \<Rightarrow> string \<Rightarrow> string \<Rightarrow> string" where
  "resolve_path env base raw_path =
     (let expanded = expanduser env raw_path in
      realpath env (if isabs expanded then expanded else path_join base expanded))"

definition escapes :: "os_env \<Rightarrow> string \<Rightarrow> string \<Rightarrow> bool" where
  "escapes env base raw_path =
     (if raw_path = [] \<or> contains ''://'' raw_path then False
      else commonpath base (resolve_path env base raw_path) \<noteq> Some base)"

definition outside_configured_workspace :: "os_env \<Rightarrow> pyval dict \<Rightarrow> bool" where
  "outside_configured_workspace env call =
     (let arguments = arguments_of call; policy = policy_of call in
      if pget arguments ''outside_workspace'' = PBool True then True
      else if str_or (pget call ''name'') = ''manage_workspace'' then False
      else
        let configured_scopes = pget policy ''configured_scopes'';
            requested_scope = str_or (pget arguments ''workspace'') in
        if requested_scope \<noteq> [] \<and>
           (case configured_scopes of PList xs \<Rightarrow> requested_scope \<notin> set (map py_str xs)
            | PTuple xs \<Rightarrow> requested_scope \<notin> set (map py_str xs) | _ \<Rightarrow> False) then True
        else
          let workspace = strip (str_or (pget policy ''configured_workspace'')) in
          if workspace = [] then False
          else
            let base = realpath env (expanduser env workspace) in
            list_ex (escapes env base) (path_values [] (PDict arguments)))"

section \<open>Shell commands\<close>

text \<open>\<open>(?:^|[;&|]\\s*)(?:rm|shred|mkfs|wipefs|dd)\\b|git\\s+(?:reset\\s+--hard|clean\\s+-[a-z]*f)\<close> and the removal calls.\<close>

definition SHELL_DESTRUCTIVE :: regex where
  "SHELL_DESTRUCTIVE = ralt
     [rseq [RAlt RBegin (rseq [RSet (one_of '';&|''), rstar rspace]),
            rwords [''rm'', ''shred'', ''mkfs'', ''wipefs'', ''dd''], RWordB],
      rseq [rlit ''git'', rplus rspace,
            ralt [rseq [rlit ''reset'', rplus rspace, rlit ''--hard''],
                  rseq [rlit ''clean'', rplus rspace, rlit ''-'', rstar (RSet is_az), rlit ''f'']]],
      rseq [ropt (rlit ''os.''), rwords [''remove'', ''unlink''], rstar rspace, rlit ''(''],
      rseq [rlit ''shutil.rmtree'', rstar rspace, rlit ''('']]"

text \<open>\<open>\\b(?:sudo|su)\\b|\\bchmod\\s+(?:[0-7]*[2367]|[ugo]*\\+.*[wx])|\\bchown\\b\<close>\<close>

definition SHELL_PRIVILEGE :: regex where
  "SHELL_PRIVILEGE = ralt
     [rseq [RWordB, rwords [''sudo'', ''su''], RWordB],
      rseq [RWordB, rlit ''chmod'', rplus rspace,
            RAlt (rseq [rstar (RSet (in_range (CHR ''0'') (CHR ''7''))), RSet (one_of ''2367'')])
                 (rseq [rstar (RSet (one_of ''ugo'')), rlit ''+'', rstar rdot, RSet (one_of ''wx'')])],
      rseq [RWordB, rlit ''chown'', RWordB]]"

text \<open>\<open>\\b(?:login|oauth|passwd|chpasswd)\\b|\\b(?:token|credential|api[_-]?key)\\b\<close>\<close>

definition SHELL_CREDENTIAL :: regex where
  "SHELL_CREDENTIAL = RAlt
     (rseq [RWordB, rwords [''login'', ''oauth'', ''passwd'', ''chpasswd''], RWordB])
     (rseq [RWordB, ralt [rlit ''token'', rlit ''credential'', rseq [rlit ''api'', ropt (RSet (one_of ''_-'')), rlit ''key'']],
            RWordB])"

text \<open>\<open>\\b(?:curl|wget)\\b.*(?:-x\\s+(?:post|put|patch|delete)|--data|-d\\s)\<close>\<close>

definition SHELL_EXTERNAL :: regex where
  "SHELL_EXTERNAL = rseq [RWordB, rwords [''curl'', ''wget''], RWordB, rstar rdot,
     ralt [rseq [rlit ''-x'', rplus rspace, rwords [''post'', ''put'', ''patch'', ''delete'']],
           rlit ''--data'', rseq [rlit ''-d'', rspace]]]"

text \<open>\<open>pwd|ls(?:\\s+[^;&|]+)?|git\\s+(?:status|diff|log)(?:\\s+[^;&|]+)?|rg(?:\\s+[^;&|]+)?\<close>\<close>

definition SHELL_READ :: regex where
  "SHELL_READ =
     (let args = ropt (rseq [rplus rspace, rplus (RSet (none_of '';&|''))]) in
      ralt [rlit ''pwd'', rseq [rlit ''ls'', args],
            rseq [rlit ''git'', rplus rspace, rwords [''status'', ''diff'', ''log''], args],
            rseq [rlit ''rg'', args]])"

definition shell_effect :: "string \<Rightarrow> effect" where
  "shell_effect command =
     (let value = lower (strip command) in
      if re_search SHELL_DESTRUCTIVE value then Destructive_or_difficult_to_recover
      else if re_search SHELL_PRIVILEGE value then Privilege_expansion
      else if re_search SHELL_CREDENTIAL value then Credential_or_auth_change
      else if re_search SHELL_EXTERNAL value then External_publication_or_communication
      else if re_fullmatch SHELL_READ value then Read
      else Reversible_write)"

section \<open>The effect of a call\<close>

definition PURCHASE_NAME :: regex where
  "PURCHASE_NAME = rwords [''buy'', ''purchase'', ''subscribe'', ''checkout'', ''order'', ''payment'']"

definition CREDENTIAL_SELECTOR :: regex where
  "CREDENTIAL_SELECTOR = ralt
     [rlit ''auth'', rlit ''oauth'', rlit ''login'', rlit ''mfa'', rlit ''password'', rlit ''credential'',
      rlit ''token'', rseq [rlit ''api'', ropt (RSet (one_of ''_-'')), rlit ''key'']]"

definition PRIVILEGE_SELECTOR :: regex where
  "PRIVILEGE_SELECTOR = rwords [''privilege'', ''permission'', ''role'', ''sudo'', ''root'', ''shell'', ''bash'']"

definition selector_of :: "pyval dict \<Rightarrow> string" where
  "selector_of arguments =
     join '' '' (map (\<lambda>key. lower (str_or (pget arguments key)))
       [''key'', ''setting'', ''field'', ''kind'', ''operation''])"

text \<open>
  The \<open>elif\<close> chain. \<open>Some None\<close> is the early return of \<open>"unclassified"\<close>, \<open>Some (Some e)\<close> an
  effect appended to the candidates, and \<open>None\<close> a chain that ends without a branch.
\<close>

definition concrete_effect :: "os_env \<Rightarrow> pyval dict \<Rightarrow> effect option \<Rightarrow> effect option option" where
  "concrete_effect env call declared =
     (let name = str_or (pget call ''name'');
          arguments = arguments_of call;
          action = lower (str_or (pget arguments ''action''));
          method = upper (str_or (pget arguments ''method''));
          target = str_or (pget call ''target'');
          selector = selector_of arguments in
      if outside_configured_workspace env call then Some (Some Outside_workspace_boundary)
      else if name \<in> set [''bash'', ''python''] then
        Some (Some (shell_effect (str_or (py_or (pget arguments ''command'') (pget arguments ''code'')))))
      else if action \<in> set PURCHASE_ACTIONS \<or> re_search PURCHASE_NAME name then Some (Some Purchase)
      else if action \<in> set CREDENTIAL_ACTIONS
           \<or> name \<in> set [''manage_tokens'', ''vault_unlock'']
           \<or> (action \<notin> set READ_ACTIONS \<and> contains_credential_field (PDict arguments))
           \<or> (action \<notin> set READ_ACTIONS \<and> re_search CREDENTIAL_SELECTOR selector)
        then Some (Some Credential_or_auth_change)
      else if action \<in> set PRIVILEGE_ACTIONS
           \<or> (name = ''manage_mcp'' \<and> action \<in> set [''add'', ''connect'', ''enable'', ''install''])
           \<or> (action \<notin> set READ_ACTIONS \<and> re_search PRIVILEGE_SELECTOR selector)
        then Some (Some Privilege_expansion)
      else if action \<in> set DESTRUCTIVE_ACTIONS then Some (Some Destructive_or_difficult_to_recover)
      else if name = ''api_call'' then
        Some (Some (if method = ''GET'' then Read else External_publication_or_communication))
      else if name = ''ssh_node'' then
        Some (Some (if action = ''run'' then shell_effect (str_or (pget arguments ''command'')) else Read))
      else if name = ''android_device'' then
        Some (Some (if action \<in> set ANDROID_READ_ACTIONS then Read else Reversible_write))
      else if action \<in> set EXTERNAL_ACTIONS then Some (Some External_publication_or_communication)
      else if action \<in> set READ_ACTIONS then Some (Some Read)
      else case dget DEFAULT_EFFECT_BY_CAPABILITY name of
          Some e \<Rightarrow> Some (Some e)
        | None \<Rightarrow> if declared = None \<and> \<not> starts_with ''extension:'' target then Some None else None)"

definition action_effect_for :: "os_env \<Rightarrow> pyval dict \<Rightarrow> effect option" where
  "action_effect_for env call =
     (let declared = declared_effect call;
          candidates = (case declared of None \<Rightarrow> [] | Some e \<Rightarrow> [e]) in
      case concrete_effect env call declared of
        Some None \<Rightarrow> None
      | Some (Some e) \<Rightarrow> first_max strictness (candidates @ [e])
      | None \<Rightarrow> first_max strictness candidates)"

definition permission_mode_for :: "os_env \<Rightarrow> pyval dict \<Rightarrow> string" where
  "permission_mode_for env call =
     (case action_effect_for env call of
        None \<Rightarrow> ''unclassified''
      | Some Read \<Rightarrow> ''read_only''
      | Some Reversible_write \<Rightarrow> ''bounded_write''
      | Some Destructive_or_difficult_to_recover \<Rightarrow> ''destructive''
      | Some External_publication_or_communication \<Rightarrow> ''external_side_effect''
      | Some _ \<Rightarrow> ''separate_gate'')"

section \<open>Correctness of the classification\<close>

lemma first_max_strictness_ge:
  "first_max strictness es = Some f \<Longrightarrow> e \<in> set es \<Longrightarrow> e \<le> f"
  using first_max_ge [of strictness es f e] by (simp add: less_eq_effect_def)

lemma concrete_effect_classified: "declared \<noteq> None \<Longrightarrow> concrete_effect env call declared \<noteq> Some None"
  by (cases declared; simp add: concrete_effect_def Let_def split: option.splits)

lemma action_effect_SomeD:
  assumes "action_effect_for env call = Some f"
  shows "declared_effect call = Some e \<Longrightarrow> e \<le> f"
    and "concrete_effect env call (declared_effect call) = Some (Some e) \<Longrightarrow> e \<le> f"
    and "declared_effect call = Some f \<or> concrete_effect env call (declared_effect call) = Some (Some f)"
  using assms first_max_in first_max_strictness_ge
  by (fastforce simp: action_effect_for_def Let_def simp del: first_max.simps split: option.splits)+

lemma action_effect_some:
  "declared_effect call = Some e \<or> concrete_effect env call (declared_effect call) = Some (Some e) \<Longrightarrow>
     \<exists>f. action_effect_for env call = Some f"
  using concrete_effect_classified [of "declared_effect call" env call]
  by (auto simp: action_effect_for_def Let_def split: option.splits)

text \<open>
  Delegated metadata can only make a call stricter: whatever effect a call declares
  in its capability policy, the effect it is given is at least as strict, and so is it at
  least as strict as the effect read off the concrete arguments.
\<close>

theorem declared_effect_only_stricter:
  assumes "declared_effect call = Some d"
  shows "\<exists>e. action_effect_for env call = Some e \<and> d \<le> e
     \<and> (\<forall>c. concrete_effect env call (Some d) = Some (Some c) \<longrightarrow> c \<le> e)"
  using action_effect_some [of call d env] action_effect_SomeD assms by fastforce

text \<open>A call to delete mail whose policy claims that it only reads.\<close>

definition lenient_call :: "pyval dict" where
  "lenient_call = [(''name'', PStr ''delete_email''), (''arguments'', PDict []),
     (''capability_policy'', PDict [(''permission_mode'', PStr ''read_only'')])]"

definition plain_env :: os_env where
  "plain_env = \<lparr>realpath = (\<lambda>p. p), expanduser = (\<lambda>p. p)\<rparr>"

lemma lenient_declared: "declared_effect lenient_call = Some Read"
  by (simp add: declared_effect_def lenient_call_def policy_of_def effect_of_name_def ACTION_EFFECTS_def
      effect_name_def LEGACY_EFFECTS_def)

theorem declared_effect_only_stricter_witness:
  "\<exists>e. action_effect_for plain_env lenient_call = Some e \<and> Read \<le> e"
  using declared_effect_only_stricter [OF lenient_declared, of plain_env] by blast

text \<open>
  The workspace boundary is the strictest classification: a call that leaves the
  configured workspace is classified as leaving it, whatever its tool, action or declared
  policy say.
\<close>

theorem outside_workspace_classified:
  assumes "outside_configured_workspace env call"
  shows "action_effect_for env call = Some Outside_workspace_boundary"
proof -
  have c: "concrete_effect env call (declared_effect call) = Some (Some Outside_workspace_boundary)"
    using assms by (simp add: concrete_effect_def Let_def)
  then obtain f where f: "action_effect_for env call = Some f" using action_effect_some by blast
  then have "Outside_workspace_boundary \<le> f" using action_effect_SomeD(2) c by blast
  then have "f = Outside_workspace_boundary"
    by (cases f) (simp_all add: less_eq_effect_def strictness_def)
  with f show ?thesis by simp
qed

definition escaping_call :: "pyval dict" where
  "escaping_call = [(''name'', PStr ''read_file''), (''arguments'', PDict [(''path'', PStr ''/etc'')]),
     (''capability_policy'', PDict [(''configured_workspace'', PStr ''/w'')])]"

lemma escaping_outside: "outside_configured_workspace plain_env escaping_call"
  by code_simp

theorem outside_workspace_classified_witness:
  "action_effect_for plain_env escaping_call = Some Outside_workspace_boundary"
  using outside_workspace_classified [OF escaping_outside] .

section \<open>Correctness of the redaction\<close>

text \<open>A value in which every credential field, at any depth, holds the marker.\<close>

function no_secrets :: "pyval \<Rightarrow> bool" where
  "no_secrets (PDict d) =
     list_all (\<lambda>(key, item). (is_credential_field key item \<longrightarrow> item = redacted) \<and> no_secrets item) d"
| "no_secrets (PList xs) = list_all no_secrets xs"
| "no_secrets (PTuple xs) = list_all no_secrets xs"
| "no_secrets (PStr s) = True"
| "no_secrets PNone = True"
| "no_secrets (PBool b) = True"
| "no_secrets (PInt i) = True"
| "no_secrets (PFloat s) = True"
  by pat_completeness auto
termination
  by (relation "measure size") (auto dest: size_dict_entry size_list_entry size_tuple_entry)

lemma credential_field_redact:
  "is_credential_field key (redact_secrets v) \<longleftrightarrow> is_credential_field key v"
  by (cases v) (simp_all add: is_credential_field_def)

lemma redact_secrets_no_secrets: "no_secrets (redact_secrets v)"
  by (induction v rule: pyval_induct)
     (auto simp: list_all_iff credential_field_redact)

text \<open>The same keys at the top of a dictionary, in the same order.\<close>

lemma redact_secrets_keys: "\<exists>d'. redact_secrets (PDict d) = PDict d' \<and> dkeys d' = dkeys d"
  by (auto simp: case_prod_unfold)

text \<open>
  Claim C40. The audit copy of a call never carries a credential: at every depth of its
  arguments, a field whose name marks it as a credential holds only the redaction marker,
  and every other field of the call is unchanged.
\<close>

theorem audit_copy_has_no_secrets:
  "no_secrets (pget (audit_safe_action_call call) ''arguments'')
   \<and> pget (audit_safe_action_call call) ''name'' = pget call ''name''
   \<and> pget (audit_safe_action_call call) ''target'' = pget call ''target''"
  by (simp add: audit_safe_action_call_def redact_secrets_no_secrets)

section \<open>The workspace boundary is containment\<close>

lemma common_prefix_prefix: "take (length (common_prefix xs ys)) ys = common_prefix xs ys"
  by (induction xs ys rule: common_prefix.induct) auto

text \<open>The components of a path that \<open>join\<close> builds are the components joined.\<close>

lemma split_on_no_sep: "c \<notin> set s \<Longrightarrow> split_on c s = [s]"
  by (induction s) auto

lemma split_on_append: "c \<notin> set a \<Longrightarrow> split_on c (a @ c # b) = a # split_on c b"
  by (induction a) auto

lemma split_on_join:
  "\<forall>x \<in> set xs. CHR ''/'' \<notin> set x \<Longrightarrow> xs \<noteq> [] \<Longrightarrow> split_on (CHR ''/'') (join ''/'' xs) = xs"
  by (induction xs rule: induct_list012) (auto simp: split_on_no_sep split_on_append)

lemma split_on_parts: "p \<in> set (split_on c s) \<Longrightarrow> c \<notin> set p"
  by (induction s arbitrary: p) (auto split: if_splits list.splits)

lemma components_parts: "x \<in> set (components p) \<Longrightarrow> CHR ''/'' \<notin> set x \<and> x \<noteq> [] \<and> x \<noteq> ''.''"
  by (auto simp: components_def dest: split_on_parts)

lemma components_join:
  assumes "\<forall>x \<in> set xs. CHR ''/'' \<notin> set x \<and> x \<noteq> [] \<and> x \<noteq> ''.''"
  shows "components ((if b then ''/'' else []) @ join ''/'' xs) = xs"
proof (cases "xs = []")
  case True
  then show ?thesis by (simp add: components_def)
next
  case False
  then have "split_on (CHR ''/'') (join ''/'' xs) = xs" using assms by (simp add: split_on_join)
  moreover have "split_on (CHR ''/'') (''/'' @ join ''/'' xs) = [] # split_on (CHR ''/'') (join ''/'' xs)"
    by simp
  ultimately show ?thesis using assms by (auto simp: components_def filter_id_conv)
qed

lemma common_prefix_subset: "set (common_prefix xs ys) \<subseteq> set xs"
  by (induction xs ys rule: common_prefix.induct) auto

lemma commonpath_base:
  assumes "commonpath base p = Some base"
  shows "take (length (components base)) (components p) = components base"
proof -
  obtain c where c: "c = common_prefix (components base) (components p)" by simp
  from assms have e: "base = (if isabs base then ''/'' else []) @ join ''/'' c"
  proof -
    from assms have "commonpath base p \<noteq> None" by simp
    then have "isabs base = isabs p" by (simp add: commonpath_def split: if_splits)
    with assms show ?thesis unfolding commonpath_def c [symmetric] by simp
  qed
  have "CHR ''/'' \<notin> set x \<and> x \<noteq> [] \<and> x \<noteq> ''.''" if "x \<in> set c" for x
    by (rule components_parts [of x base]) (use that common_prefix_subset [of "components base" "components p"] in \<open>auto simp: c\<close>)
  then have "components ((if isabs base then ''/'' else []) @ join ''/'' c) = c"
    by (intro components_join ballI)
  then have "components base = c" by (rule trans [OF arg_cong [OF e, of components]])
  moreover have "take (length c) (components p) = c" unfolding c by (rule common_prefix_prefix)
  ultimately show ?thesis by simp
qed

text \<open>
  When a workspace is configured and a call is not classified as leaving it, every
  path among its arguments, resolved by the operating system, lies below the workspace:
  the workspace's components begin the components of the resolved path.
\<close>

theorem inside_workspace_paths_contained:
  assumes "\<not> outside_configured_workspace env call"
    and "str_or (pget call ''name'') \<noteq> ''manage_workspace''"
    and "strip (str_or (pget (policy_of call) ''configured_workspace'')) = workspace" and "workspace \<noteq> []"
    and "raw_path \<in> set (path_values [] (PDict (arguments_of call)))"
    and "raw_path \<noteq> []" and "\<not> contains ''://'' raw_path"
  shows "take (length (components (realpath env (expanduser env workspace))))
           (components (resolve_path env (realpath env (expanduser env workspace)) raw_path))
         = components (realpath env (expanduser env workspace))"
proof -
  let ?base = "realpath env (expanduser env workspace)"
  have "\<not> escapes env ?base raw_path"
    using assms(1-5) by (auto simp: outside_configured_workspace_def Let_def list_ex_iff split: if_splits)
  then have "commonpath ?base (resolve_path env ?base raw_path) = Some ?base"
    using assms(6,7) by (simp add: escapes_def)
  then show ?thesis by (rule commonpath_base)
qed

definition contained_call :: "pyval dict" where
  "contained_call = [(''name'', PStr ''read_file''), (''arguments'', PDict [(''path'', PStr ''a'')]),
     (''capability_policy'', PDict [(''configured_workspace'', PStr ''/w'')])]"

theorem inside_workspace_paths_contained_witness:
  "take (length (components ''/w'')) (components (resolve_path plain_env ''/w'' ''a'')) = components ''/w''"
proof -
  have 1: "\<not> outside_configured_workspace plain_env contained_call" by code_simp
  have 2: "str_or (pget contained_call ''name'') \<noteq> ''manage_workspace''" by (simp add: contained_call_def)
  have 3: "strip (str_or (pget (policy_of contained_call) ''configured_workspace'')) = ''/w''" by code_simp
  have 4: "''a'' \<in> set (path_values [] (PDict (arguments_of contained_call)))" by code_simp
  have 5: "\<not> contains ''://'' ''a''" by code_simp
  show ?thesis
    using inside_workspace_paths_contained [OF 1 2 3 _ 4 _ 5] by (simp add: plain_env_def)
qed

section \<open>A destructive command read as a listing\<close>

text \<open>
  The listing pattern lets its argument hold line ends, and the destructive pattern anchors
  \<open>rm\<close> at the start of the whole text only: a command of two lines whose second line
  removes files is classified as a read.
\<close>

lemma two_line_removal_is_read: "shell_effect (''ls'' @ [CHR 0x0A] @ ''rm x'') = Read"
  by code_simp

end
