(* ===== verification/AuthorityStore.thy ===== *)
theory AuthorityStore
  imports AuthorityPolicy
begin

text \<open>
  The stateful half of \<open>src/authority_protocol.py\<close>: the class \<open>AuthorityStore\<close>
  with its durable ledger of decisions and receipts, the pending actions that live in the
  process only, and every method that reads or changes them.

  A moment is an integer number of microseconds since the epoch: the ISO texts the code
  stores denote such moments and compare in the same order. An absent operator, session,
  reason or workspace is the empty string, which the code treats like \<open>None\<close>. The
  process's host and user, the stored access preference, the configured agent and SHA-256
  are fields of an environment record, and \<open>uuid4\<close> is a supply of names.
\<close>

section \<open>Rows\<close>

datatype verdict = Allow | Deny | Approval_required

datatype decision_status = Open | Resolved | Expired

datatype receipt_status = Active | Consumed | Revoked | Lapsed

datatype scope = Once | Session | Time_bounded | Persistent

definition APPROVAL_SCOPES :: "scope dict" where
  "APPROVAL_SCOPES = [(''once'', Once), (''session'', Session), (''time_bounded'', Time_bounded),
     (''persistent'', Persistent)]"

definition scope_name :: "scope \<Rightarrow> string" where
  "scope_name sc = (case sc of Once \<Rightarrow> ''once'' | Session \<Rightarrow> ''session'' | Time_bounded \<Rightarrow> ''time_bounded''
     | Persistent \<Rightarrow> ''persistent'')"

record binding =
  b_host :: string
  b_user :: string
  b_workspace :: "string option"

record decision_row =
  d_id :: string
  d_operator :: "string option"
  d_agent :: string
  d_session :: "string option"
  d_request :: pyval
  d_call :: pyval
  d_capability :: pyval
  d_workspace :: "string option"
  d_fingerprint :: string
  d_effect :: "effect option"
  d_gate :: "effect option"
  d_mode :: string
  d_access :: string
  d_verdict :: verdict
  d_basis :: string
  d_receipt :: "string option"
  d_approval :: "string option"
  d_preview :: pyval
  d_execution :: binding
  d_created :: int
  d_expires :: int
  d_status :: decision_status
  d_resolved_at :: "int option"

record receipt_row =
  r_id :: string
  r_decision_id :: string
  r_operator :: string
  r_agent :: string
  r_session :: "string option"
  r_request :: pyval
  r_call :: pyval
  r_capability :: pyval
  r_fingerprint :: string
  r_effect :: "effect option"
  r_workspace :: "string option"
  r_preview :: pyval
  r_execution :: binding
  r_verdict :: verdict
  r_scope :: scope
  r_status :: receipt_status
  r_issued :: int
  r_expires :: "int option"
  r_closed_at :: "int option"   \<comment> \<open>\<open>consumed_at\<close> or \<open>revoked_at\<close>\<close>

record pending_action =
  p_call :: "pyval dict"
  p_binding :: binding

record authority =
  decisions :: "decision_row dict"
  receipts :: "receipt_row dict"
  pending :: "pending_action dict"

definition empty_authority :: authority where
  "empty_authority = \<lparr>decisions = [], receipts = [], pending = []\<rparr>"

section \<open>The environment\<close>

text \<open>\<open>load_pref\<close> is the stored preferences of a user; \<open>None\<close> when loading them fails.\<close>

record authority_env =
  files :: os_env
  load_pref :: "string \<Rightarrow> pyval dict option"
  configured_agent :: string
  sha256 :: "string \<Rightarrow> string"
  host_name :: string
  login_name :: string

definition operator_identity :: "bool \<Rightarrow> string \<Rightarrow> string option" where
  "operator_identity auth_enabled owner =
     (if strip owner \<noteq> [] then Some (strip owner)
      else if \<not> auth_enabled then Some ''local-operator'' else None)"

definition ACCESS_MODES :: "string list" where
  "ACCESS_MODES = [''ask_for_approval'', ''approve_for_me'', ''full_access'']"

definition access_mode_for :: "authority_env \<Rightarrow> string \<Rightarrow> string" where
  "access_mode_for env operator =
     (let identity = strip operator in
      if identity = [] then ''ask_for_approval''
      else case load_pref env identity of
          None \<Rightarrow> ''ask_for_approval''
        | Some prefs \<Rightarrow>
            let mode = str_or (pget prefs ''access_mode'') in
            if mode \<in> set ACCESS_MODES then mode else ''ask_for_approval'')"

definition runtime_binding :: "authority_env \<Rightarrow> string \<Rightarrow> binding" where
  "runtime_binding env configured_workspace =
     \<lparr>b_host = host_name env, b_user = login_name env,
      b_workspace = (if strip configured_workspace = [] then None else Some (strip configured_workspace))\<rparr>"

definition binding_matches :: "binding \<Rightarrow> binding \<Rightarrow> bool" where
  "binding_matches l r = (b_host l = b_host r \<and> b_user l = b_user r)"

definition or_empty :: "string option \<Rightarrow> string" where
  "or_empty x = (case x of None \<Rightarrow> [] | Some s \<Rightarrow> s)"

text \<open>\<open>Path(p).name\<close>.\<close>

definition path_name :: "string \<Rightarrow> string" where
  "path_name p = (case rev (components p) of [] \<Rightarrow> [] | c # _ \<Rightarrow> c)"

section \<open>Scans of the ledger\<close>

text \<open>\<open>_matching_receipt\<close>: active receipts past their expiry are marked, then the newest match is taken.\<close>

definition lapse :: "int \<Rightarrow> receipt_row \<Rightarrow> receipt_row" where
  "lapse now r =
     (case r_expires r of
        Some e \<Rightarrow> if r_status r = Active \<and> e \<le> now then r\<lparr>r_status := Lapsed\<rparr> else r
      | None \<Rightarrow> r)"

definition receipt_fits ::
    "string \<Rightarrow> string \<Rightarrow> string \<Rightarrow> string \<Rightarrow> string \<Rightarrow> effect option \<Rightarrow> binding \<Rightarrow> receipt_row \<Rightarrow> bool" where
  "receipt_fits operator agent session request fingerprint effect binding r \<longleftrightarrow>
     r_status r = Active
     \<and> r_operator r = operator \<and> r_agent r = agent
     \<and> r_fingerprint r = fingerprint
     \<and> r_effect r = effect
     \<and> binding_matches (r_execution r) binding
     \<and> or_empty (b_workspace (r_execution r)) = or_empty (b_workspace binding)
     \<and> \<not> (r_verdict r = Deny \<and> r_request r \<noteq> PStr request)
     \<and> \<not> (r_scope r = Session \<and> r_session r \<noteq> Some session)"

definition matching_receipt ::
    "receipt_row dict \<Rightarrow> string \<Rightarrow> string \<Rightarrow> string \<Rightarrow> string \<Rightarrow> string \<Rightarrow> effect option \<Rightarrow> int \<Rightarrow> binding
     \<Rightarrow> receipt_row option \<times> receipt_row dict" where
  "matching_receipt rows operator agent session request fingerprint effect now binding =
     (let rows' = dmap (lapse now) rows in
      (first_max r_issued
         (filter (receipt_fits operator agent session request fingerprint effect binding) (dvals rows')),
       rows'))"

definition pending_row :: "string \<Rightarrow> string \<Rightarrow> decision_row \<Rightarrow> bool" where
  "pending_row operator session d \<longleftrightarrow>
     d_operator d = Some operator \<and> or_empty (d_session d) = session
     \<and> d_verdict d = Approval_required \<and> d_status d = Open"

definition expire_row :: "int \<Rightarrow> decision_row \<Rightarrow> decision_row" where
  "expire_row now d = (if d_expires d \<le> now then d\<lparr>d_status := Expired\<rparr> else d)"

definition active_pending ::
    "decision_row dict \<Rightarrow> string \<Rightarrow> string \<Rightarrow> int \<Rightarrow> decision_row list \<times> decision_row dict" where
  "active_pending rows operator session now =
     (let rows' = dmap (\<lambda>d. if pending_row operator session d then expire_row now d else d) rows in
      (sort_key d_created (filter (pending_row operator session) (dvals rows')), rows'))"

definition resumable_approval ::
    "authority \<Rightarrow> string \<Rightarrow> string \<Rightarrow> int \<Rightarrow> (decision_row \<times> receipt_row \<times> pending_action) option" where
  "resumable_approval s operator session now =
     (case concat (map (\<lambda>d.
          if d_operator d = Some operator \<and> or_empty (d_session d) = session \<and> d_status d = Resolved then
            case (dget (receipts s) (or_empty (d_receipt d)), dget (pending s) (d_id d)) of
              (Some r, Some p) \<Rightarrow>
                if r_verdict r = Allow \<and> r_status r = Active
                   \<and> (case r_expires r of None \<Rightarrow> True | Some e \<Rightarrow> now < e)
                then [(d, r, p)] else []
            | _ \<Rightarrow> []
          else []) (dvals (decisions s))) of
        [m] \<Rightarrow> Some m
      | _ \<Rightarrow> None)"

section \<open>Deciding a call\<close>

text \<open>The branches of \<open>decide\<close> that need no receipt; \<open>None\<close> is its last branch.\<close>

definition plain_verdict ::
    "string \<Rightarrow> string \<Rightarrow> string \<Rightarrow> effect option \<Rightarrow> string \<Rightarrow> bool \<Rightarrow> (verdict \<times> string) option" where
  "plain_verdict operator disabled_reason access_mode effect name native_gate =
     (if operator = [] \<and> effect = Some Read \<and> name \<in> set PUBLIC_READS then Some (Allow, ''public_non_owner_read'')
      else if operator = [] then Some (Deny, ''authenticated_operator_required'')
      else if disabled_reason \<noteq> [] then Some (Deny, disabled_reason)
      else if effect = None then Some (Deny, ''unclassified_capability'')
      else if access_mode = ''full_access'' then Some (Allow, ''access_mode:full_access'')
      else if access_mode = ''approve_for_me'' \<and> effect \<in> Some ` set APPROVE_FOR_ME_SAFE_EFFECTS
        then Some (Allow, ''access_mode:approve_for_me'')
      else if effect = Some Read then Some (Allow, ''owner_scoped_read'')
      else if native_gate then Some (Allow, ''native_staged_approval'')
      else if effect = Some Reversible_write then Some (Allow, ''authenticated_explicit_request'')
      else None)"

record decide_request =
  q_call :: "pyval dict"
  q_operator :: string
  q_session :: string
  q_disabled_reason :: string
  q_native_gate :: bool
  q_workspace :: string

text \<open>
  With a configured workspace the policy of the call is copied and completed; the copy raises when the
  policy is not a mapping, before anything is decided.
\<close>

definition policy_copy :: "decide_request \<Rightarrow> pyval dict result" where
  "policy_copy q = (if q_workspace q = [] then Inr [] else py_dict (pget (q_call q) ''capability_policy''))"

definition classified_call :: "decide_request \<Rightarrow> pyval dict" where
  "classified_call q =
     (if q_workspace q = [] then q_call q
      else dset ''capability_policy''
             (PDict (dset ''configured_workspace'' (PStr (q_workspace q)) (case policy_copy q of Inr d \<Rightarrow> d | Inl _ \<Rightarrow> []))) (q_call q))"

definition agent_of :: "authority_env \<Rightarrow> decide_request \<Rightarrow> string" where
  "agent_of env q =
     (if truthy (pget (q_call q) ''agent_id'') then py_str (pget (q_call q) ''agent_id'') else configured_agent env)"

definition effect_of :: "authority_env \<Rightarrow> decide_request \<Rightarrow> effect option" where
  "effect_of env q = action_effect_for (files env) (classified_call q)"

definition fingerprint_of :: "authority_env \<Rightarrow> decide_request \<Rightarrow> string" where
  "fingerprint_of env q = argument_fingerprint (sha256 env) (q_call q)"

text \<open>
  The record that \<open>decide\<close> writes; \<open>used\<close> is the receipt the verdict rests on.
\<close>

definition named_workspace :: "decide_request \<Rightarrow> string option" where
  "named_workspace q =
     (let given = (if is_mapping (pget (q_call q) ''arguments'')
                   then strip (str_or (pget (arguments_of (q_call q)) ''workspace'')) else []) in
      if given \<noteq> [] then Some given
      else if q_workspace q \<noteq> [] then Some (path_name (q_workspace q)) else None)"

definition decision_record ::
    "authority_env \<Rightarrow> string \<Rightarrow> int \<Rightarrow> decide_request \<Rightarrow> verdict \<Rightarrow> string \<Rightarrow> receipt_row option \<Rightarrow> decision_row" where
  "decision_record env new_id now q verdict basis used =
     \<lparr>d_id = new_id,
      d_operator = (if strip (q_operator q) = [] then None else Some (strip (q_operator q))),
      d_agent = agent_of env q,
      d_session = (if q_session q = [] then None else Some (q_session q)),
      d_request = pget (q_call q) ''request_id'',
      d_call = pget (q_call q) ''call_id'',
      d_capability = PDict [(''name'', pget (q_call q) ''name''), (''target'', pget (q_call q) ''target'')],
      d_workspace = named_workspace q,
      d_fingerprint = fingerprint_of env q,
      d_effect = effect_of env q,
      d_gate = (if effect_of env q \<in> Some ` set SEPARATE_GATE_EFFECTS then effect_of env q else None),
      d_mode = permission_mode_for (files env) (q_call q),
      d_access = access_mode_for env (strip (q_operator q)),
      d_verdict = verdict,
      d_basis = basis,
      d_receipt = map_option r_id used,
      d_approval = map_option r_decision_id used,
      d_preview = safe_preview 0 (py_or (pget (q_call q) ''arguments'') (PDict [])),
      d_execution = runtime_binding env (q_workspace q),
      d_created = now,
      d_expires = now + 600000000,
      d_status = Open,
      d_resolved_at = None\<rparr>"

text \<open>
  The first critical section of \<open>decide\<close>: it settles the verdict and spends a one-time
  receipt. \<open>Inl\<close> is the early return of an equal call that is pending already.
\<close>

definition decide_gate ::
    "authority_env \<Rightarrow> string \<Rightarrow> int \<Rightarrow> decide_request \<Rightarrow> authority \<Rightarrow> authority \<times> (decision_row + decision_row)" where
  "decide_gate env new_id now q s =
     (let operator = strip (q_operator q); session = q_session q; fingerprint = fingerprint_of env q;
          effect = effect_of env q in
      case plain_verdict operator (q_disabled_reason q) (access_mode_for env operator) effect
             (str_or (pget (q_call q) ''name'')) (q_native_gate q) of
        Some (v, basis) \<Rightarrow> (s, Inr (decision_record env new_id now q v basis None))
      | None \<Rightarrow>
          (case matching_receipt (receipts s) operator (agent_of env q) session
                  (str_or (pget (q_call q) ''request_id'')) fingerprint effect now
                  (runtime_binding env (q_workspace q)) of
             (Some r, rows) \<Rightarrow>
               if r_verdict r = Deny then
                 (s\<lparr>receipts := rows\<rparr>, Inr (decision_record env new_id now q Deny ''denial_receipt'' (Some r)))
               else
                 (s\<lparr>receipts := (if r_scope r = Once
                      then dset (r_id r) (r\<lparr>r_status := Consumed, r_closed_at := Some now\<rparr>) rows else rows),
                    pending := dpop (r_decision_id r) (pending s)\<rparr>,
                  Inr (decision_record env new_id now q Allow (''approval_receipt:'' @ scope_name (r_scope r)) (Some r)))
           | (None, rows) \<Rightarrow>
               (case active_pending (decisions s) operator session now of
                  (active, drows) \<Rightarrow>
                    let s' = s\<lparr>receipts := rows, decisions := drows\<rparr> in
                    (case find (\<lambda>d. d_fingerprint d = fingerprint) active of
                       Some d \<Rightarrow> (s', Inl d)
                     | None \<Rightarrow>
                         if active \<noteq> [] then
                           (s', Inr (decision_record env new_id now q Deny ''authority_decision_already_pending'' None))
                         else
                           (s', Inr (decision_record env new_id now q Approval_required ''exact_operator_approval'' None))))))"

text \<open>The second critical section: the record enters the ledger, and a call that waits is kept.\<close>

definition decide_record :: "decide_request \<Rightarrow> decision_row \<Rightarrow> authority \<Rightarrow> authority" where
  "decide_record q d s =
     s\<lparr>decisions := dset (d_id d) d (decisions s),
       pending := (if d_verdict d = Approval_required
         then dset (d_id d) \<lparr>p_call = q_call q, p_binding = d_execution d\<rparr> (pending s) else pending s)\<rparr>"

definition decide ::
    "authority_env \<Rightarrow> string \<Rightarrow> int \<Rightarrow> decide_request \<Rightarrow> authority \<Rightarrow> authority \<times> decision_row result" where
  "decide env new_id now q s =
     (case policy_copy q of
        Inl x \<Rightarrow> (s, Inl x)
      | Inr _ \<Rightarrow>
          (case decide_gate env new_id now q s of
             (s', Inl d) \<Rightarrow> (s', Inr d)
           | (s', Inr d) \<Rightarrow> (decide_record q d s', Inr d)))"

section \<open>Resolving, revoking, listing\<close>

definition not_found :: "py_exc" where "not_found = KeyError ''authority_decision_not_found''"
definition not_pending :: "py_exc" where "not_pending = ValueError ''authority_decision_not_pending''"
definition decision_expired :: "py_exc" where "decision_expired = ValueError ''authority_decision_expired''"
definition context_unavailable :: "py_exc" where
  "context_unavailable = ValueError ''authority_execution_context_unavailable''"
definition context_changed :: "py_exc" where
  "context_changed = ValueError ''authority_execution_context_changed''"

definition set_status :: "string \<Rightarrow> decision_row \<Rightarrow> decision_status \<Rightarrow> authority \<Rightarrow> authority" where
  "set_status did d st s = s\<lparr>decisions := dset did (d\<lparr>d_status := st\<rparr>) (decisions s)\<rparr>"

definition receipt_expiry :: "scope \<Rightarrow> int \<Rightarrow> int \<Rightarrow> int option" where
  "receipt_expiry sc ttl_seconds now =
     (if sc = Time_bounded then Some (now + min (max ttl_seconds 1) 86400 * 1000000) else None)"

definition receipt_record :: "string \<Rightarrow> string \<Rightarrow> string \<Rightarrow> decision_row \<Rightarrow> bool \<Rightarrow> scope \<Rightarrow> int \<Rightarrow> int \<Rightarrow> receipt_row" where
  "receipt_record new_id did operator d approve sc ttl_seconds now =
     \<lparr>r_id = new_id, r_decision_id = did, r_operator = operator, r_agent = d_agent d,
      r_session = d_session d, r_request = d_request d, r_call = d_call d, r_capability = d_capability d,
      r_fingerprint = d_fingerprint d, r_effect = d_effect d, r_workspace = d_workspace d,
      r_preview = d_preview d, r_execution = d_execution d,
      r_verdict = (if approve then Allow else Deny), r_scope = sc, r_status = Active, r_issued = now,
      r_expires = receipt_expiry sc ttl_seconds now, r_closed_at = None\<rparr>"

definition issue_receipt ::
    "string \<Rightarrow> int \<Rightarrow> string \<Rightarrow> string \<Rightarrow> decision_row \<Rightarrow> bool \<Rightarrow> scope \<Rightarrow> int \<Rightarrow> authority
     \<Rightarrow> authority \<times> receipt_row" where
  "issue_receipt new_id now did operator d approve sc ttl_seconds s =
     (let r = receipt_record new_id did operator d approve sc ttl_seconds now in
      (s\<lparr>decisions := dset did
             (d\<lparr>d_status := Resolved, d_resolved_at := Some now, d_receipt := Some new_id\<rparr>) (decisions s),
         receipts := dset new_id r (receipts s),
         pending := (if approve then pending s else dpop did (pending s))\<rparr>, r))"

definition resolve ::
    "authority_env \<Rightarrow> string \<Rightarrow> int \<Rightarrow> string \<Rightarrow> string \<Rightarrow> string \<Rightarrow> string \<Rightarrow> int \<Rightarrow> authority
     \<Rightarrow> authority \<times> receipt_row result" where
  "resolve env new_id now did operator choice scope_text ttl_seconds s =
     (case dget (decisions s) did of
        None \<Rightarrow> (s, Inl not_found)
      | Some d \<Rightarrow>
          if d_operator d \<noteq> Some operator then (s, Inl not_found)
          else if d_verdict d \<noteq> Approval_required \<or> d_status d \<noteq> Open then (s, Inl not_pending)
          else if d_expires d \<le> now then (set_status did d Expired s, Inl decision_expired)
          else if choice \<notin> set [''approve'', ''deny''] then (s, Inl (ValueError ''invalid_authority_choice''))
          else (case dget APPROVAL_SCOPES scope_text of
              None \<Rightarrow> (s, Inl (ValueError ''invalid_authority_scope''))
            | Some sc \<Rightarrow>
                if choice = ''approve'' then
                  (case dget (pending s) did of
                     None \<Rightarrow> (set_status did d Expired s, Inl context_unavailable)
                   | Some p \<Rightarrow>
                       if \<not> binding_matches (p_binding p) (runtime_binding env (or_empty (b_workspace (p_binding p))))
                       then (set_status did d Expired s\<lparr>pending := dpop did (pending s)\<rparr>, Inl context_changed)
                       else (case issue_receipt new_id now did operator d True sc ttl_seconds s of
                               (s', r) \<Rightarrow> (s', Inr r)))
                else (case issue_receipt new_id now did operator d False sc ttl_seconds s of
                        (s', r) \<Rightarrow> (s', Inr r))))"

definition revoke :: "int \<Rightarrow> string \<Rightarrow> string \<Rightarrow> authority \<Rightarrow> authority \<times> receipt_row result" where
  "revoke now rid operator s =
     (case dget (receipts s) rid of
        None \<Rightarrow> (s, Inl (KeyError ''authority_receipt_not_found''))
      | Some r \<Rightarrow>
          if r_operator r \<noteq> operator then (s, Inl (KeyError ''authority_receipt_not_found''))
          else let r' = r\<lparr>r_status := Revoked, r_closed_at := Some now\<rparr> in
               (s\<lparr>receipts := dset rid r' (receipts s)\<rparr>, Inr r'))"

definition expire_open :: "int \<Rightarrow> decision_row \<Rightarrow> decision_row" where
  "expire_open now d =
     (if d_verdict d = Approval_required \<and> d_status d = Open then expire_row now d else d)"

definition list_state ::
    "int \<Rightarrow> string \<Rightarrow> authority \<Rightarrow> authority \<times> decision_row list \<times> receipt_row list" where
  "list_state now operator s =
     (let rows = dmap (expire_open now) (decisions s) in
      (s\<lparr>decisions := rows\<rparr>,
       filter (\<lambda>d. d_operator d = Some operator) (dvals rows),
       filter (\<lambda>r. r_operator r = operator) (dvals (receipts s))))"

section \<open>Replies\<close>

record reply =
  reply_choice :: string
  reply_decision :: decision_row
  reply_receipt :: "receipt_row option"
  reply_pending :: "pending_action option"
  reply_error :: "string option"

definition repeat_reply :: "decision_row \<Rightarrow> reply" where
  "repeat_reply d = \<lparr>reply_choice = ''repeat'', reply_decision = d, reply_receipt = None, reply_pending = None,
     reply_error = Some ''authority_decision_already_resolved''\<rparr>"

definition stale_reply :: "decision_row \<Rightarrow> string \<Rightarrow> reply" where
  "stale_reply d e = \<lparr>reply_choice = ''stale'', reply_decision = d, reply_receipt = None, reply_pending = None,
     reply_error = Some e\<rparr>"

text \<open>The \<open>except ValueError\<close> clause of both replies: three errors become a stale reply.\<close>

definition stale_errors :: "string list" where
  "stale_errors = [''authority_execution_context_unavailable'', ''authority_execution_context_changed'',
     ''authority_decision_expired'']"

definition resolve_failed :: "decision_row \<Rightarrow> py_exc \<Rightarrow> reply option result" where
  "resolve_failed d e =
     (case e of
        ValueError msg \<Rightarrow> if msg \<in> set stale_errors then Inr (Some (stale_reply d msg)) else Inl e
      | _ \<Rightarrow> Inl e)"

definition recently_resolved :: "string \<Rightarrow> string \<Rightarrow> int \<Rightarrow> decision_row \<Rightarrow> bool" where
  "recently_resolved operator session now d \<longleftrightarrow>
     d_operator d = Some operator \<and> or_empty (d_session d) = session \<and> d_status d = Resolved
     \<and> d_verdict d = Approval_required
     \<and> (case d_resolved_at d of None \<Rightarrow> False | Some t \<Rightarrow> now - t \<le> 600000000)"

definition repeated_approval :: "string \<Rightarrow> string \<Rightarrow> string \<Rightarrow> int \<Rightarrow> decision_row dict \<Rightarrow> reply option" where
  "repeated_approval text operator session now rows =
     (if plain_words text \<in> set [''approve'', ''approved''] then
        map_option repeat_reply
          (first_max (\<lambda>d. case d_resolved_at d of None \<Rightarrow> 0 | Some t \<Rightarrow> t)
            (filter (recently_resolved operator session now) (dvals rows)))
      else None)"

text \<open>\<open>now\<close> is the clock when pending decisions are scanned, \<open>later\<close> when it is read again.\<close>

definition resolve_one ::
    "authority_env \<Rightarrow> string \<Rightarrow> int \<Rightarrow> string \<Rightarrow> string \<Rightarrow> decision_row \<Rightarrow> authority
     \<Rightarrow> authority \<times> reply option result" where
  "resolve_one env new_id later operator choice d s =
     (case resolve env new_id later (d_id d) operator choice ''once'' 900 s of
        (s', Inl e) \<Rightarrow> (s', resolve_failed d e)
      | (s', Inr r) \<Rightarrow>
          (s', Inr (Some \<lparr>reply_choice = choice, reply_decision = d, reply_receipt = Some r,
                          reply_pending = dget (pending s') (d_id d), reply_error = None\<rparr>)))"

definition resolve_natural_reply ::
    "authority_env \<Rightarrow> string \<Rightarrow> int \<Rightarrow> int \<Rightarrow> string \<Rightarrow> string \<Rightarrow> string \<Rightarrow> authority
     \<Rightarrow> authority \<times> reply option result" where
  "resolve_natural_reply env new_id now later text operator session s0 =
     (case natural_approval_choice text of
        None \<Rightarrow> (s0, Inr None)
      | Some choice \<Rightarrow>
          (case active_pending (decisions s0) operator session now of
             (active, rows) \<Rightarrow>
               let s = s0\<lparr>decisions := rows\<rparr>;
                   resumed = (if active = [] \<and> choice = ''approve''
                     then resumable_approval s operator session later else None);
                   repeated = (if active = [] \<and> choice = ''approve''
                     then repeated_approval text operator session later rows else None)
               in case resumed of
                    Some (d, r, p) \<Rightarrow>
                      (s, Inr (Some \<lparr>reply_choice = choice, reply_decision = d, reply_receipt = Some r,
                                     reply_pending = Some p, reply_error = None\<rparr>))
                  | None \<Rightarrow>
                      (case repeated of
                         Some answer \<Rightarrow> (s, Inr (Some answer))
                       | None \<Rightarrow>
                           (case active of
                              [d] \<Rightarrow> resolve_one env new_id later operator choice d s
                            | _ \<Rightarrow> (s, Inr None)))))"

definition resolve_card ::
    "authority_env \<Rightarrow> string \<Rightarrow> int \<Rightarrow> string \<Rightarrow> string \<Rightarrow> string \<Rightarrow> string \<Rightarrow> decision_row \<Rightarrow> authority
     \<Rightarrow> authority \<times> reply option result" where
  "resolve_card env new_id later did operator choice scope_text d s =
     (case resolve env new_id later did operator choice scope_text 900 s of
        (s', Inl e) \<Rightarrow> (s', resolve_failed d e)
      | (s', Inr r) \<Rightarrow>
          (s', Inr (Some \<lparr>reply_choice = choice, reply_decision = d, reply_receipt = Some r,
                          reply_pending = (if choice = ''approve'' then dget (pending s) did else None),
                          reply_error = None\<rparr>)))"

definition resolve_explicit_reply ::
    "authority_env \<Rightarrow> string \<Rightarrow> int \<Rightarrow> int \<Rightarrow> string \<Rightarrow> string \<Rightarrow> string \<Rightarrow> string \<Rightarrow> string \<Rightarrow> authority
     \<Rightarrow> authority \<times> reply option result" where
  "resolve_explicit_reply env new_id now later did operator session choice scope_text s =
     (case dget (decisions s) did of
        None \<Rightarrow> (s, Inl not_found)
      | Some d \<Rightarrow>
          if d_operator d \<noteq> Some operator then (s, Inl not_found)
          else if or_empty (d_session d) \<noteq> session then (s, Inl not_found)
          else if d_status d = Resolved then (s, Inr (Some (repeat_reply d)))
          else if d_status d = Expired \<or> d_expires d \<le> now then
            (set_status did d Expired s,
             Inr (Some (stale_reply (d\<lparr>d_status := Expired\<rparr>) ''authority_decision_expired'')))
          else if d_verdict d \<noteq> Approval_required then
            (s, Inr (Some (stale_reply d ''authority_decision_not_pending'')))
          else resolve_card env new_id later did operator choice scope_text d s)"

section \<open>Runs\<close>

text \<open>
  Requests run concurrently: \<open>decide\<close> takes the lock twice, so other operations may come
  between its verdict and its record. A run is a list of critical sections; a verdict waits
  in flight until its record is written. A restart keeps the ledger only.
\<close>

record authority_system =
  store :: authority
  inflight :: "(decide_request \<times> decision_row) list"
  id_count :: nat

datatype authority_op =
    Op_gate authority_env int decide_request
  | Op_record nat
  | Op_resolve authority_env int string string string string int
  | Op_natural authority_env int int string string string
  | Op_explicit authority_env int int string string string string string
  | Op_revoke int string string
  | Op_list int string
  | Op_restart

definition start_authority :: authority_system where
  "start_authority = \<lparr>store = empty_authority, inflight = [], id_count = 0\<rparr>"

definition drop_nth :: "nat \<Rightarrow> 'a list \<Rightarrow> 'a list" where
  "drop_nth n xs = take n xs @ drop (Suc n) xs"

definition with_store :: "authority_system \<Rightarrow> authority \<Rightarrow> authority_system" where
  "with_store w s = w\<lparr>store := s, id_count := Suc (id_count w)\<rparr>"

fun authority_step :: "(nat \<Rightarrow> string) \<Rightarrow> authority_system \<Rightarrow> authority_op \<Rightarrow> authority_system" where
  "authority_step uuid w (Op_gate env now q) =
     (case policy_copy q of
        Inl _ \<Rightarrow> w
      | Inr _ \<Rightarrow>
          (case decide_gate env (uuid (id_count w)) now q (store w) of
             (s, Inl d) \<Rightarrow> with_store w s
           | (s, Inr d) \<Rightarrow> (with_store w s)\<lparr>inflight := inflight w @ [(q, d)]\<rparr>))"
| "authority_step uuid w (Op_record n) =
     (if n < length (inflight w) then
        w\<lparr>store := decide_record (fst (inflight w ! n)) (snd (inflight w ! n)) (store w),
          inflight := drop_nth n (inflight w)\<rparr>
      else w)"
| "authority_step uuid w (Op_resolve env now did operator choice scope_text ttl) =
     with_store w (fst (resolve env (uuid (id_count w)) now did operator choice scope_text ttl (store w)))"
| "authority_step uuid w (Op_natural env now later text operator session) =
     with_store w (fst (resolve_natural_reply env (uuid (id_count w)) now later text operator session (store w)))"
| "authority_step uuid w (Op_explicit env now later did operator session choice scope_text) =
     with_store w (fst (resolve_explicit_reply env (uuid (id_count w)) now later did operator session choice
       scope_text (store w)))"
| "authority_step uuid w (Op_revoke now rid operator) = with_store w (fst (revoke now rid operator (store w)))"
| "authority_step uuid w (Op_list now operator) = with_store w (fst (list_state now operator (store w)))"
| "authority_step uuid w Op_restart = w\<lparr>store := (store w)\<lparr>pending := []\<rparr>, inflight := []\<rparr>"

section \<open>The ledger as a transition system\<close>

text \<open>
  What any critical section may do to the ledger, as steps of an abstract ledger: open
  decisions expire, active receipts lapse, one receipt is closed (consumed or revoked), one
  open approval is resolved into one new receipt, and pending actions come and go.
\<close>

inductive ledger_move :: "string \<Rightarrow> authority \<Rightarrow> authority \<Rightarrow> bool" for new_id where
  expires: "(\<And>d. f d = d \<or> d_status d \<noteq> Resolved \<and> f d = d\<lparr>d_status := Expired\<rparr>)
    \<Longrightarrow> ledger_move new_id s (s\<lparr>decisions := dmap f (decisions s)\<rparr>)"
| expires_one: "dget (decisions s) did = Some d \<Longrightarrow> d_status d \<noteq> Resolved
    \<Longrightarrow> ledger_move new_id s (set_status did d Expired s)"
| lapses: "(\<And>r. g r = r \<or> r_status r = Active \<and> g r = r\<lparr>r_status := Lapsed\<rparr>)
    \<Longrightarrow> ledger_move new_id s (s\<lparr>receipts := dmap g (receipts s)\<rparr>)"
| closes: "dget (receipts s) rid = Some r \<Longrightarrow> st \<noteq> Active
    \<Longrightarrow> ledger_move new_id s (s\<lparr>receipts := dset rid (r\<lparr>r_status := st, r_closed_at := t\<rparr>) (receipts s)\<rparr>)"
| issues: "dget (decisions s) did = Some d \<Longrightarrow> d_status d = Open \<Longrightarrow> d_verdict d = Approval_required
    \<Longrightarrow> d_operator d = Some operator \<Longrightarrow> now < d_expires d \<Longrightarrow> dget (receipts s) new_id = None
    \<Longrightarrow> approve \<longrightarrow> dget (pending s) did \<noteq> None
    \<Longrightarrow> ledger_move new_id s (fst (issue_receipt new_id now did operator d approve sc ttl s))"
| forgets: "(\<And>k p. dget ps k = Some p \<Longrightarrow> dget (pending s) k = Some p) \<Longrightarrow> ledger_move new_id s (s\<lparr>pending := ps\<rparr>)"

inductive ledger_moves :: "string \<Rightarrow> authority \<Rightarrow> authority \<Rightarrow> bool" for new_id where
  stays: "ledger_moves new_id s s"
| moves: "ledger_move new_id s s' \<Longrightarrow> ledger_moves new_id s' s'' \<Longrightarrow> ledger_moves new_id s s''"

lemma one_move: "ledger_move new_id s s' \<Longrightarrow> ledger_moves new_id s s'"
  by (rule moves [OF _ stays])

lemma moves_trans: "ledger_moves n s s' \<Longrightarrow> ledger_moves n s' s'' \<Longrightarrow> ledger_moves n s s''"
  by (induction rule: ledger_moves.induct) (auto intro: moves)

lemma resolve_moves:
  assumes "dget (receipts s) n = None"
  shows "ledger_moves n s (fst (resolve env n now did operator choice scope_text ttl s))"
proof -
  have changed: "ledger_moves n s (set_status did d Expired s\<lparr>pending := dpop did (pending s)\<rparr>)"
    if "dget (decisions s) did = Some d" "d_status d = Open" for d
  proof -
    have "ledger_move n s (s\<lparr>pending := dpop did (pending s)\<rparr>)" by (rule forgets) (simp split: if_splits)
    moreover have "ledger_move n (s\<lparr>pending := dpop did (pending s)\<rparr>)
        (set_status did d Expired (s\<lparr>pending := dpop did (pending s)\<rparr>))"
      using that by (intro expires_one) simp_all
    moreover have "set_status did d Expired (s\<lparr>pending := dpop did (pending s)\<rparr>)
        = set_status did d Expired s\<lparr>pending := dpop did (pending s)\<rparr>"
      by (simp add: set_status_def)
    ultimately show ?thesis by (metis moves one_move)
  qed
  show ?thesis
    using assms
    by (auto simp: resolve_def stays not_le case_prod_unfold
        intro!: one_move [OF expires_one] one_move [OF issues] changed split: option.splits)
qed

lemma active_pending_moves:
  "active_pending (decisions s) operator session now = (active, rows) \<Longrightarrow> ledger_moves n s (s\<lparr>decisions := rows\<rparr>)"
  by (auto simp: active_pending_def Let_def expire_row_def pending_row_def intro!: one_move expires)

lemma list_state_moves: "ledger_moves n s (fst (list_state now operator s))"
  by (auto simp: list_state_def Let_def expire_open_def expire_row_def intro!: one_move expires)

lemma revoke_moves: "ledger_moves n s (fst (revoke now rid operator s))"
  by (auto simp: revoke_def Let_def stays intro!: one_move closes split: option.splits)

lemma resolve_one_store:
  "fst (resolve_one env n later operator choice d s) = fst (resolve env n later (d_id d) operator choice ''once'' 900 s)"
  by (auto simp: resolve_one_def split: prod.splits sum.splits)

lemma resolve_card_store:
  "fst (resolve_card env n later did operator choice scope_text d s)
     = fst (resolve env n later did operator choice scope_text 900 s)"
  unfolding resolve_card_def by (cases "resolve env n later did operator choice scope_text 900 s"; cases "snd (resolve env n later did operator choice scope_text 900 s)") auto

lemma natural_moves:
  assumes "dget (receipts s) n = None"
  shows "ledger_moves n s (fst (resolve_natural_reply env n now later text operator session s))"
proof -
  obtain active rows where ap: "active_pending (decisions s) operator session now = (active, rows)"
    by (metis surj_pair)
  let ?s = "s\<lparr>decisions := rows\<rparr>"
  have m: "ledger_moves n s ?s" by (rule active_pending_moves [OF ap])
  have r: "ledger_moves n s (fst (resolve_one env n later operator choice d ?s))" for choice d
    unfolding resolve_one_store by (rule moves_trans [OF m resolve_moves]) (simp add: assms)
  show ?thesis
    by (simp add: resolve_natural_reply_def ap Let_def stays m r split: option.split list.split)
qed

lemma explicit_moves:
  assumes "dget (receipts s) n = None"
  shows "ledger_moves n s (fst (resolve_explicit_reply env n now later did operator session choice scope_text s))"
proof (cases "dget (decisions s) did")
  case None
  then show ?thesis by (simp add: resolve_explicit_reply_def stays)
next
  case (Some d)
  have e: "d_status d \<noteq> Resolved \<Longrightarrow> ledger_moves n s (set_status did d Expired s)"
    using Some by (intro one_move expires_one)
  show ?thesis
    unfolding resolve_explicit_reply_def using Some e
    by (simp add: stays resolve_card_store resolve_moves assms)
qed

lemma lapse_cases: "lapse now r = r \<or> r_status r = Active \<and> lapse now r = r\<lparr>r_status := Lapsed\<rparr>"
  by (simp add: lapse_def split: option.split)

lemma matching_receipt_moves:
  assumes "matching_receipt (receipts s) operator agent session request fp effect now b = (m, rows)"
  shows "ledger_moves n s (s\<lparr>receipts := rows\<rparr>)"
proof -
  have "rows = dmap (lapse now) (receipts s)" using assms by (simp add: matching_receipt_def Let_def)
  then show ?thesis using one_move [OF lapses [of "lapse now" n s]] lapse_cases by simp
qed

lemma matching_receipt_SomeD:
  assumes "matching_receipt rows0 operator agent session request fp effect now b = (Some r, rows)"
    and "\<forall>(k, r) \<in> set rows0. r_id r = k" "wf_dict rows0"
  shows "dget rows (r_id r) = Some r" "receipt_fits operator agent session request fp effect b r"
    "dget rows0 (r_id r) = Some r"
    "\<forall>e. r_expires r = Some e \<longrightarrow> now < e"
proof -
  have rows: "rows = dmap (lapse now) rows0"
    and m: "first_max r_issued (filter (receipt_fits operator agent session request fp effect b) (dvals rows)) = Some r"
    using assms by (auto simp: matching_receipt_def Let_def)
  from first_max_in [OF m] have r: "r \<in> set (dvals rows)"
    and f: "receipt_fits operator agent session request fp effect b r" by auto
  then show "receipt_fits operator agent session request fp effect b r" by simp
  from r obtain k r0 where k: "(k, r0) \<in> set rows0" "r = lapse now r0" by (auto simp: rows dmap_def)
  from f have act: "r_status r = Active" by (simp add: receipt_fits_def)
  with k(2) have r0: "r0 = r" using lapse_cases [of now r0] by auto
  have same: "lapse now r = r" using k(2) r0 by metis
  from k(1) r0 assms(2) have "r_id r = k" by auto
  then show d: "dget rows0 (r_id r) = Some r" using k(1) r0 assms(3) by simp
  then show "dget rows (r_id r) = Some r" using same by (simp add: rows)
  from same act show "\<forall>e. r_expires r = Some e \<longrightarrow> now < e"
    by (auto simp: lapse_def not_le [symmetric] dest: arg_cong [of _ _ r_status] split: if_splits)
qed

lemma gate_moves:
  assumes "\<forall>(k, r) \<in> set (receipts s). r_id r = k" "wf_dict (receipts s)"
  shows "ledger_moves n s (fst (decide_gate env n' now q s))"
proof -
  obtain m rows where mr: "matching_receipt (receipts s) (strip (q_operator q)) (agent_of env q) (q_session q)
      (str_or (pget (q_call q) ''request_id'')) (fingerprint_of env q) (effect_of env q) now
      (runtime_binding env (q_workspace q)) = (m, rows)" by (metis surj_pair)
  obtain active drows where ap:
    "active_pending (decisions s) (strip (q_operator q)) (q_session q) now = (active, drows)" by (metis surj_pair)
  note m1 = matching_receipt_moves [OF mr, of n]
  have "active_pending (decisions (s\<lparr>receipts := rows\<rparr>)) (strip (q_operator q)) (q_session q) now = (active, drows)"
    using ap by simp
  from moves_trans [OF m1 active_pending_moves [OF this]]
  have m2: "ledger_moves n s (s\<lparr>receipts := rows, decisions := drows\<rparr>)" by simp
  have m3: "ledger_moves n s (s\<lparr>receipts := rows, pending := dpop k (pending s)\<rparr>)" for k
  proof -
    have "ledger_move n (s\<lparr>receipts := rows\<rparr>) ((s\<lparr>receipts := rows\<rparr>)\<lparr>pending := dpop k (pending s)\<rparr>)"
      by (rule forgets) (simp split: if_splits)
    from moves_trans [OF m1 one_move [OF this]] show ?thesis by simp
  qed
  have m4: "ledger_moves n s (s\<lparr>receipts := dset (r_id r) (r\<lparr>r_status := Consumed, r_closed_at := Some now\<rparr>) rows,
      pending := dpop (r_decision_id r) (pending s)\<rparr>)" if "m = Some r" for r
  proof -
    let ?s = "s\<lparr>receipts := rows, pending := dpop (r_decision_id r) (pending s)\<rparr>"
    have "dget (receipts ?s) (r_id r) = Some r"
      using matching_receipt_SomeD(1) [OF mr [unfolded that] assms] by simp
    from moves_trans [OF m3 one_move [OF closes [OF this, where st = Consumed and t = "Some now"]]]
    have "ledger_moves n s (?s\<lparr>receipts := dset (r_id r) (r\<lparr>r_status := Consumed, r_closed_at := Some now\<rparr>) rows\<rparr>)"
      by simp
    also have "?s\<lparr>receipts := dset (r_id r) (r\<lparr>r_status := Consumed, r_closed_at := Some now\<rparr>) rows\<rparr>
      = s\<lparr>receipts := dset (r_id r) (r\<lparr>r_status := Consumed, r_closed_at := Some now\<rparr>) rows,
          pending := dpop (r_decision_id r) (pending s)\<rparr>" by simp
    finally show ?thesis .
  qed
  show ?thesis
    by (simp add: decide_gate_def mr ap Let_def stays m1 m2 m3 m4 split: option.split)
qed

section \<open>What every move keeps\<close>

definition issued_for :: "string \<Rightarrow> authority \<Rightarrow> nat" where
  "issued_for did s = dcount (\<lambda>r. r_decision_id r = did) (receipts s)"

text \<open>A resolved decision may have one receipt, any other none.\<close>

definition quota :: "decision_row dict \<Rightarrow> string \<Rightarrow> nat" where
  "quota rows did = (case dget rows did of None \<Rightarrow> 0 | Some d \<Rightarrow> of_bool (d_status d = Resolved))"

lemma quota_dset [simp]:
  "quota (dset k d rows) did = (if did = k then of_bool (d_status d = Resolved) else quota rows did)"
  by (simp add: quota_def)

lemma quota_dmap: "(\<And>d. (d_status (f d) = Resolved) = (d_status d = Resolved)) \<Longrightarrow> quota (dmap f rows) did = quota rows did"
  by (simp add: quota_def split: option.split)

definition ledger_ok :: "(string \<Rightarrow> bool) \<Rightarrow> authority \<Rightarrow> bool" where
  "ledger_ok known s \<longleftrightarrow>
     wf_dict (decisions s) \<and> wf_dict (receipts s)
     \<and> (\<forall>k d. dget (decisions s) k = Some d \<longrightarrow> d_id d = k \<and> known k)
     \<and> (\<forall>k r. dget (receipts s) k = Some r \<longrightarrow> r_id r = k \<and> known k)
     \<and> (\<forall>did. issued_for did s \<le> quota (decisions s) did)"

definition spends :: "string \<Rightarrow> decision_row \<Rightarrow> bool" where
  "spends rid d \<longleftrightarrow> d_verdict d = Allow \<and> d_receipt d = Some rid"

definition within_budget :: "receipt_row dict \<Rightarrow> string \<Rightarrow> nat \<Rightarrow> bool" where
  "within_budget rows rid n \<longleftrightarrow>
     (case dget rows rid of
        None \<Rightarrow> n = 0
      | Some r \<Rightarrow> r_scope r = Once \<longrightarrow> n \<le> (if r_status r = Active then 0 else 1))"

lemma wf_dmap [simp]: "wf_dict (dmap f d) = wf_dict d"
  by simp

lemma move_keys: "ledger_move n s s' \<Longrightarrow> fst ` set (decisions s') = fst ` set (decisions s)"
proof (induction rule: ledger_move.induct)
  case (expires f s)
  then show ?case using dkeys_dmap [of f "decisions s"] by (metis authority.select_convs(1) authority.surjective authority.update_convs(1) list.set_map)
qed (auto simp: set_status_def issue_receipt_def Let_def dest: map_of_SomeD intro: rev_image_eqI)

lemma expire_cases:
  assumes "f d = d \<or> d_status d \<noteq> Resolved \<and> f d = d\<lparr>d_status := Expired\<rparr>"
  shows "d_id (f d) = d_id d" "d_verdict (f d) = d_verdict d" "d_receipt (f d) = d_receipt d"
    "(d_status (f d) = Resolved) = (d_status d = Resolved)" "d_status d = Expired \<Longrightarrow> d_status (f d) = Expired"
  using assms by auto

lemma lapse_like_cases:
  assumes "g r = r \<or> r_status r = Active \<and> g r = r\<lparr>r_status := Lapsed\<rparr>"
  shows "r_id (g r) = r_id r" "r_decision_id (g r) = r_decision_id r" "r_scope (g r) = r_scope r"
    "r_verdict (g r) = r_verdict r" "r_status (g r) = Active \<Longrightarrow> r_status r = Active"
  using assms by auto

lemma move_ok:
  assumes "ledger_move n s s'" "ledger_ok known s" "known n"
  shows "ledger_ok known s'"
  using assms(1)
proof cases
  case (expires f)
  note f = expire_cases [of f, OF expires(2)]
  show ?thesis
    using assms(2) unfolding expires(1)
    by (auto simp: ledger_ok_def issued_for_def f quota_dmap)
next
  case (expires_one did d)
  then show ?thesis
    using assms(2) by (auto simp: ledger_ok_def issued_for_def set_status_def quota_def dest: spec [of _ did] split: if_splits)
next
  case (lapses g)
  note g = lapse_like_cases [of g, OF lapses(2)]
  have "dcount (\<lambda>r. r_decision_id r = did) (dmap g (receipts s)) = dcount (\<lambda>r. r_decision_id r = did) (receipts s)" for did
    by (rule dcount_dmap) (simp add: g)
  then show ?thesis
    using assms(2) unfolding lapses(1) by (auto simp: ledger_ok_def issued_for_def g)
next
  case (closes rid r st t)
  have "dcount (\<lambda>r. r_decision_id r = did) (dset rid (r\<lparr>r_status := st, r_closed_at := t\<rparr>) (receipts s))
      = dcount (\<lambda>r. r_decision_id r = did) (receipts s)" for did
    using closes(2) assms(2) by (intro dcount_same) (auto simp: ledger_ok_def)
  then show ?thesis
    using assms(2) closes(2) unfolding closes(1) by (auto simp: ledger_ok_def issued_for_def)
next
  case (issues did d operator now approve sc ttl)
  have "issued_for did s = 0"
    using assms(2) issues(2,3) by (auto simp: ledger_ok_def quota_def dest: spec [of _ did])
  then show ?thesis
    using assms(2,3) issues(2,3,7)
    unfolding issues(1) by (auto simp: ledger_ok_def issue_receipt_def Let_def issued_for_def receipt_record_def dget_None_dkeys
        split: if_splits)
next
  case (forgets ps)
  then show ?thesis using assms(2) by (simp add: ledger_ok_def issued_for_def)
qed

lemma move_spends:
  assumes "ledger_move n s s'" "ledger_ok known s"
  shows "dcount (spends rid) (decisions s') = dcount (spends rid) (decisions s)"
  using assms(1)
proof cases
  case (expires f)
  note f = expire_cases [of f, OF expires(2)]
  show ?thesis unfolding expires(1) by (simp add: dcount_dmap spends_def f)
next
  case (expires_one did d)
  then show ?thesis
    using assms(2) by (simp add: set_status_def) (rule dcount_same, auto simp: ledger_ok_def spends_def)
next
  case (issues did d operator now approve sc ttl)
  then show ?thesis
    using assms(2) by (simp add: issue_receipt_def Let_def) (rule dcount_same, auto simp: ledger_ok_def spends_def)
qed simp_all

lemma move_budget:
  assumes "ledger_move n s s'" "within_budget (receipts s) rid c"
  shows "within_budget (receipts s') rid c"
  using assms(1)
proof cases
  case (lapses g)
  note g = lapse_like_cases [of g, OF lapses(2)]
  show ?thesis using assms(2) unfolding lapses(1) by (auto simp: within_budget_def g split: option.splits if_splits)
next
  case (closes rid r st t)
  then show ?thesis using assms(2) by (auto simp: within_budget_def split: option.splits if_splits)
next
  case (issues did d operator now approve sc ttl)
  then show ?thesis using assms(2)
    by (auto simp: within_budget_def issue_receipt_def Let_def receipt_record_def split: option.splits if_splits)
qed (use assms(2) in \<open>simp_all add: set_status_def\<close>)


lemma move_closed_receipt:
  assumes "ledger_move n s s'" "dget (receipts s) rid = Some r" "r_status r \<noteq> Active"
  shows "\<exists>r'. dget (receipts s') rid = Some r' \<and> r_status r' \<noteq> Active"
  using assms(1)
proof cases
  case (lapses g)
  note g = lapse_like_cases [of g, OF lapses(2)]
  show ?thesis unfolding lapses(1) using assms(2,3) g(5) by auto
qed (use assms(2,3) in \<open>auto simp: set_status_def issue_receipt_def Let_def\<close>)

lemma move_final_decision:
  assumes "ledger_move n s s'" "dget (decisions s) did = Some d" "d_status d = st" "st \<noteq> Open"
  shows "\<exists>d'. dget (decisions s') did = Some d' \<and> d_status d' = st"
  using assms(1)
proof cases
  case (expires f)
  note f = expire_cases [of f, OF expires(2)]
  show ?thesis
    unfolding expires(1) using assms(2-4) f(4,5) by (cases st) auto
qed (use assms(2-4) in \<open>cases st; auto simp: set_status_def issue_receipt_def Let_def\<close>)+

text \<open>The identifiers of the receipts that allow one of the decisions \<open>K\<close>.\<close>

definition allowing :: "string set \<Rightarrow> authority \<Rightarrow> string set" where
  "allowing K s = {rid. \<exists>r. dget (receipts s) rid = Some r \<and> r_verdict r = Allow \<and> r_decision_id r \<in> K}"

definition none_pending :: "string set \<Rightarrow> authority \<Rightarrow> bool" where
  "none_pending K s \<longleftrightarrow> (\<forall>k \<in> K. dget (pending s) k = None)"

lemma move_none_pending:
  assumes "ledger_move n s s'" "none_pending K s"
  shows "none_pending K s'"
  using assms(1)
proof cases
  case (forgets ps)
  show ?thesis
    unfolding forgets(1) none_pending_def
  proof
    fix k assume "k \<in> K"
    then show "dget (pending (s\<lparr>pending := ps\<rparr>)) k = None"
      using forgets(2) [of k] assms(2) by (cases "dget ps k") (auto simp: none_pending_def)
  qed
qed (use assms(2) in \<open>auto simp: none_pending_def set_status_def issue_receipt_def Let_def\<close>)

lemma move_allowing:
  assumes "ledger_move n s s'" "none_pending K s"
  shows "allowing K s' \<subseteq> allowing K s"
  using assms(1)
proof cases
  case (lapses g)
  note g = lapse_like_cases [of g, OF lapses(2)]
  show ?thesis unfolding lapses(1) by (auto simp: allowing_def g)
qed (use assms(2) in \<open>auto simp: allowing_def none_pending_def set_status_def issue_receipt_def Let_def
       receipt_record_def split: if_splits\<close>)

lemma moves_keep:
  assumes "ledger_moves n s s'" "ledger_ok known s" "known n"
  shows "ledger_ok known s' \<and> fst ` set (decisions s') = fst ` set (decisions s)
    \<and> dcount (spends rid) (decisions s') = dcount (spends rid) (decisions s)
    \<and> (within_budget (receipts s) rid c \<longrightarrow> within_budget (receipts s') rid c)"
  using assms
proof (induction rule: ledger_moves.induct)
  case (moves s s' s'')
  then show ?case
    using move_ok [OF moves.hyps(1)] move_keys [OF moves.hyps(1)] move_spends [OF moves.hyps(1)]
      move_budget [OF moves.hyps(1)] by auto
qed simp

lemma moves_restart:
  "ledger_moves n s s' \<Longrightarrow> none_pending K s \<Longrightarrow> none_pending K s' \<and> allowing K s' \<subseteq> allowing K s"
  by (induction rule: ledger_moves.induct) (use move_none_pending move_allowing in blast)+

lemma moves_closed_receipt:
  "ledger_moves n s s' \<Longrightarrow> dget (receipts s) rid = Some r \<Longrightarrow> r_status r \<noteq> Active
     \<Longrightarrow> \<exists>r'. dget (receipts s') rid = Some r' \<and> r_status r' \<noteq> Active"
  by (induction arbitrary: r rule: ledger_moves.induct) (use move_closed_receipt in blast)+

lemma moves_final_decision:
  "ledger_moves n s s' \<Longrightarrow> dget (decisions s) did = Some d \<Longrightarrow> d_status d = st \<Longrightarrow> st \<noteq> Open
     \<Longrightarrow> \<exists>d'. dget (decisions s') did = Some d' \<and> d_status d' = st"
  by (induction arbitrary: d rule: ledger_moves.induct) (use move_final_decision in blast)+

section \<open>The invariant of the running system\<close>

definition known_id :: "(nat \<Rightarrow> string) \<Rightarrow> nat \<Rightarrow> string \<Rightarrow> bool" where
  "known_id uuid n x \<longleftrightarrow> x \<in> uuid ` {..<n}"

text \<open>How many verdicts, recorded or in flight, rest on a receipt.\<close>

definition spent :: "authority_system \<Rightarrow> string \<Rightarrow> nat" where
  "spent w rid = dcount (spends rid) (decisions (store w)) + length (filter (\<lambda>(q, d). spends rid d) (inflight w))"

definition flight_ok :: "(string \<Rightarrow> bool) \<Rightarrow> decision_row dict \<Rightarrow> (decide_request \<times> decision_row) list \<Rightarrow> bool" where
  "flight_ok known rows fl \<longleftrightarrow>
     distinct (map (d_id \<circ> snd) fl) \<and> (\<forall>k \<in> d_id ` snd ` set fl. known k \<and> k \<notin> fst ` set rows)"

definition authority_inv :: "(nat \<Rightarrow> string) \<Rightarrow> authority_system \<Rightarrow> bool" where
  "authority_inv uuid w \<longleftrightarrow> inj uuid
     \<and> ledger_ok (known_id uuid (id_count w)) (store w)
     \<and> flight_ok (known_id uuid (id_count w)) (decisions (store w)) (inflight w)
     \<and> (\<forall>rid. within_budget (receipts (store w)) rid (spent w rid))"

lemma start_inv: "inj uuid \<Longrightarrow> authority_inv uuid start_authority"
  by (simp add: authority_inv_def start_authority_def empty_authority_def ledger_ok_def flight_ok_def
      issued_for_def spent_def within_budget_def)

lemma known_Suc: "known_id uuid (Suc n) (uuid n)" "known_id uuid n x \<Longrightarrow> known_id uuid (Suc n) x"
  by (auto simp: known_id_def)

lemma known_fresh: "inj uuid \<Longrightarrow> \<not> known_id uuid n (uuid n)"
  by (auto simp: known_id_def inj_eq)

lemma ledger_ok_mono: "ledger_ok known s \<Longrightarrow> (\<And>x. known x \<Longrightarrow> known' x) \<Longrightarrow> ledger_ok known' s"
  by (auto simp: ledger_ok_def)

lemma fresh_rows:
  assumes "authority_inv uuid w"
  shows "dget (receipts (store w)) (uuid (id_count w)) = None"
    and "uuid (id_count w) \<notin> fst ` set (decisions (store w))"
    and "uuid (id_count w) \<notin> d_id ` snd ` set (inflight w)"
proof -
  have f: "\<not> known_id uuid (id_count w) (uuid (id_count w))" using assms by (simp add: authority_inv_def known_fresh)
  show "dget (receipts (store w)) (uuid (id_count w)) = None"
    using f assms by (cases "dget (receipts (store w)) (uuid (id_count w))") (auto simp: authority_inv_def ledger_ok_def)
  show "uuid (id_count w) \<notin> fst ` set (decisions (store w))"
    using f assms by (cases "dget (decisions (store w)) (uuid (id_count w))")
      (auto simp: authority_inv_def ledger_ok_def dget_None_dkeys)
  show "uuid (id_count w) \<notin> d_id ` snd ` set (inflight w)"
    using f assms by (auto simp: authority_inv_def flight_ok_def)
qed

lemma with_store_inv:
  assumes "authority_inv uuid w" "ledger_moves (uuid (id_count w)) (store w) s"
  shows "authority_inv uuid (with_store w s)"
proof -
  let ?n = "Suc (id_count w)"
  have ok: "ledger_ok (known_id uuid ?n) (store w)"
    using assms(1) by (auto simp: authority_inv_def intro: ledger_ok_mono known_Suc)
  note k = moves_keep [OF assms(2) ok known_Suc(1) [of uuid "id_count w"]]
  have "within_budget (receipts s) rid (spent (with_store w s) rid)" for rid
    using k [of rid "spent w rid"] assms(1) by (simp add: authority_inv_def spent_def with_store_def)
  moreover have "flight_ok (known_id uuid ?n) (decisions s) (inflight w)"
    using k assms(1) by (auto simp: authority_inv_def flight_ok_def known_Suc)
  ultimately show ?thesis
    using k assms(1) by (simp add: authority_inv_def with_store_def)
qed


lemma decision_record_fields [simp]:
  "d_id (decision_record env n now q v basis used) = n"
  "d_verdict (decision_record env n now q v basis used) = v"
  "d_receipt (decision_record env n now q v basis used) = map_option r_id used"
  "d_operator (decision_record env n now q v basis used) = (if strip (q_operator q) = [] then None else Some (strip (q_operator q)))"
  "d_basis (decision_record env n now q v basis used) = basis"
  "d_status (decision_record env n now q v basis used) = Open"
  "d_effect (decision_record env n now q v basis used) = effect_of env q"
  "d_created (decision_record env n now q v basis used) = now"
  "d_expires (decision_record env n now q v basis used) = now + 600000000"
  "d_session (decision_record env n now q v basis used) = (if q_session q = [] then None else Some (q_session q))"
  "d_fingerprint (decision_record env n now q v basis used) = fingerprint_of env q"
  "d_execution (decision_record env n now q v basis used) = runtime_binding env (q_workspace q)"
  by (simp_all add: decision_record_def)

text \<open>What the first critical section returns, case by case.\<close>

lemma gate_allows:
  assumes "decide_gate env n now q s = (s', Inr d)" "d_verdict d = Allow"
    and "\<forall>(k, r) \<in> set (receipts s). r_id r = k" "wf_dict (receipts s)"
  shows "(\<exists>basis. plain_verdict (strip (q_operator q)) (q_disabled_reason q)
            (access_mode_for env (strip (q_operator q))) (effect_of env q)
            (str_or (pget (q_call q) ''name'')) (q_native_gate q) = Some (Allow, basis) \<and> d_receipt d = None \<and> s' = s)
       \<or> (\<exists>r. dget (receipts s) (r_id r) = Some r \<and> d_receipt d = Some (r_id r)
            \<and> receipt_fits (strip (q_operator q)) (agent_of env q) (q_session q)
                (str_or (pget (q_call q) ''request_id'')) (fingerprint_of env q) (effect_of env q)
                (runtime_binding env (q_workspace q)) r
            \<and> r_verdict r \<noteq> Deny \<and> (\<forall>e. r_expires r = Some e \<longrightarrow> now < e)
            \<and> (r_scope r = Once \<longrightarrow> dget (receipts s') (r_id r) =
                 Some (r\<lparr>r_status := Consumed, r_closed_at := Some now\<rparr>)))"
proof (cases "plain_verdict (strip (q_operator q)) (q_disabled_reason q)
    (access_mode_for env (strip (q_operator q))) (effect_of env q) (str_or (pget (q_call q) ''name'')) (q_native_gate q)")
  case (Some vb)
  with assms(1,2) show ?thesis by (cases vb) (auto simp: decide_gate_def Let_def)
next
  case None
  obtain m rows where mr: "matching_receipt (receipts s) (strip (q_operator q)) (agent_of env q) (q_session q)
      (str_or (pget (q_call q) ''request_id'')) (fingerprint_of env q) (effect_of env q) now
      (runtime_binding env (q_workspace q)) = (m, rows)" by (metis surj_pair)
  show ?thesis
  proof (cases m)
    case None
    with assms(1,2) \<open>plain_verdict _ _ _ _ _ _ = None\<close> mr show ?thesis
      by (auto simp: decide_gate_def Let_def split: prod.splits option.splits if_splits)
  next
    case (Some r)
    note D = matching_receipt_SomeD [OF mr [unfolded Some] assms(3,4)]
    have "r_verdict r \<noteq> Deny \<and> d_receipt d = Some (r_id r)
        \<and> (r_scope r = Once \<longrightarrow> dget (receipts s') (r_id r) = Some (r\<lparr>r_status := Consumed, r_closed_at := Some now\<rparr>))"
      using assms(1,2) \<open>plain_verdict _ _ _ _ _ _ = None\<close> mr Some
      by (auto simp: decide_gate_def Let_def split: if_splits)
    with D show ?thesis by blast
  qed
qed

lemma gate_id: "decide_gate env n now q s = (s', Inr d) \<Longrightarrow> d_id d = n"
  by (auto simp: decide_gate_def Let_def split: option.splits prod.splits if_splits)

lemma ledger_ids:
  assumes "ledger_ok known s"
  shows "\<forall>(k, r) \<in> set (receipts s). r_id r = k" "wf_dict (receipts s)"
  using assms by (auto simp: ledger_ok_def dest: Some_eq_map_of_iff [THEN iffD2])

lemma move_scope:
  assumes "ledger_move n s s'" "dget (receipts s) rid = Some r"
  shows "\<exists>r'. dget (receipts s') rid = Some r' \<and> r_scope r' = r_scope r"
  using assms(1)
proof cases
  case (lapses g)
  note g = lapse_like_cases [of g, OF lapses(2)]
  show ?thesis unfolding lapses(1) using assms(2) g(3) by auto
qed (use assms(2) in \<open>auto simp: set_status_def issue_receipt_def Let_def\<close>)

lemma moves_scope:
  "ledger_moves n s s' \<Longrightarrow> dget (receipts s) rid = Some r \<Longrightarrow> \<exists>r'. dget (receipts s') rid = Some r' \<and> r_scope r' = r_scope r"
proof (induction arbitrary: r rule: ledger_moves.induct)
  case (moves s s' s'')
  obtain r1 where "dget (receipts s') rid = Some r1" "r_scope r1 = r_scope r"
    using move_scope [OF moves.hyps(1) moves.prems] by blast
  then show ?case using moves.IH [of r1] by simp
qed simp

lemma gate_inv:
  assumes inv: "authority_inv uuid w"
    and g: "decide_gate env (uuid (id_count w)) now q (store w) = (s, Inr d)"
  shows "authority_inv uuid ((with_store w s)\<lparr>inflight := inflight w @ [(q, d)]\<rparr>)"
proof -
  let ?i = "uuid (id_count w)"
  have ok: "ledger_ok (known_id uuid (id_count w)) (store w)" using inv by (simp add: authority_inv_def)
  have ok': "ledger_ok (known_id uuid (Suc (id_count w))) (store w)"
    using ok by (rule ledger_ok_mono) (rule known_Suc)
  note kn = known_Suc(1) [of uuid "id_count w"]
  note ids = ledger_ids [OF ok]
  have m: "ledger_moves ?i (store w) s" using gate_moves [OF ids, of ?i env ?i now q] g by simp
  note base = with_store_inv [OF inv m]
  have dk: "fst ` set (decisions s) = fst ` set (decisions (store w))"
    using moves_keep [OF m ok' kn] by blast
  have id: "d_id d = ?i" by (rule gate_id [OF g])
  have fl: "flight_ok (known_id uuid (Suc (id_count w))) (decisions s) (inflight w @ [(q, d)])"
    using base fresh_rows(2,3) [OF inv] dk
    by (auto simp: authority_inv_def with_store_def flight_ok_def id known_Suc image_iff)
  have budget: "within_budget (receipts s) rid (spent (with_store w s) rid + of_bool (spends rid d))" for rid
  proof (cases "spends rid d")
    case False
    then show ?thesis using base by (simp add: authority_inv_def with_store_def)
  next
    case True
    then have a: "d_verdict d = Allow" "d_receipt d = Some rid" by (simp_all add: spends_def)
    obtain r where r: "r_id r = rid" "dget (receipts (store w)) rid = Some r" "r_status r = Active"
      "r_scope r = Once \<longrightarrow> dget (receipts s) rid = Some (r\<lparr>r_status := Consumed, r_closed_at := Some now\<rparr>)"
      using gate_allows [OF g a(1) ids] a(2) by (auto simp: receipt_fits_def)
    have sp: "spent (with_store w s) rid = spent w rid"
      using moves_keep [OF m ok' kn, where rid = rid]
      by (simp add: spent_def with_store_def)
    have w: "within_budget (receipts (store w)) rid (spent w rid)" using inv by (simp add: authority_inv_def)
    show ?thesis
    proof (cases "r_scope r = Once")
      case True
      then have "spent w rid = 0" using w r by (simp add: within_budget_def)
      then show ?thesis using r(4) True by (simp add: within_budget_def sp)
    next
      case False
      then show ?thesis using moves_scope [OF m r(2)] by (auto simp: within_budget_def)
    qed
  qed
  have "spent ((with_store w s)\<lparr>inflight := inflight w @ [(q, d)]\<rparr>) rid
      = spent (with_store w s) rid + of_bool (spends rid d)" for rid
    by (simp add: spent_def with_store_def)
  then have "\<forall>rid. within_budget (receipts s) rid (spent ((with_store w s)\<lparr>inflight := inflight w @ [(q, d)]\<rparr>) rid)"
    using budget by simp
  then show ?thesis using base fl
    unfolding authority_inv_def by (simp add: with_store_def)
qed

lemma record_inv:
  assumes inv: "authority_inv uuid w" and n: "n < length (inflight w)"
  shows "authority_inv uuid (authority_step uuid w (Op_record n))"
proof -
  obtain q d where qd: "inflight w ! n = (q, d)" by (cases "inflight w ! n")
  let ?s = "decide_record q d (store w)"
  let ?k = "known_id uuid (id_count w)"
  have parts: "inflight w = take n (inflight w) @ (q, d) # drop (Suc n) (inflight w)"
    using id_take_nth_drop [OF n] unfolding qd .
  have fl: "flight_ok ?k (decisions (store w)) (take n (inflight w) @ (q, d) # drop (Suc n) (inflight w))"
    using inv unfolding authority_inv_def parts [symmetric] by blast
  have "(q, d) \<in> set (inflight w)" using n qd nth_mem by metis
  then have "d_id d \<in> d_id ` snd ` set (inflight w)" by force
  then have fresh: "?k (d_id d)" "d_id d \<notin> fst ` set (decisions (store w))"
    using inv unfolding authority_inv_def flight_ok_def by blast+
  then have none: "dget (decisions (store w)) (d_id d) = None" by (simp add: dget_None_dkeys)
  have ok0: "ledger_ok ?k (store w)" using inv by (simp add: authority_inv_def)
  then have iss: "issued_for did (store w) \<le> quota (decisions (store w)) did" for did
    by (simp add: ledger_ok_def)
  from this [of "d_id d"] have "issued_for (d_id d) (store w) = 0"
    using none by (simp add: quota_def)
  with iss have "issued_for did ?s \<le> quota (decisions ?s) did" for did
    by (simp add: decide_record_def issued_for_def)
  then have "ledger_ok ?k ?s"
    using ok0 fresh(1) unfolding ledger_ok_def by (simp add: decide_record_def split: if_splits)
  moreover have "flight_ok ?k (decisions ?s) (drop_nth n (inflight w))"
    using fl by (auto simp: flight_ok_def decide_record_def drop_nth_def image_iff)
  moreover have "within_budget (receipts ?s) rid (dcount (spends rid) (decisions ?s)
      + length (filter (\<lambda>(q, d). spends rid d) (drop_nth n (inflight w))))" for rid
  proof -
    have "spent w rid = dcount (spends rid) (decisions ?s)
      + length (filter (\<lambda>(q, d). spends rid d) (drop_nth n (inflight w)))"
      unfolding spent_def by (subst parts) (simp add: decide_record_def fresh drop_nth_def)
    moreover have "within_budget (receipts (store w)) rid (spent w rid)" using inv by (simp add: authority_inv_def)
    ultimately show ?thesis by (simp add: decide_record_def)
  qed
  ultimately show ?thesis using inv n qd by (simp add: authority_inv_def spent_def)
qed

lemma restart_inv: "authority_inv uuid w \<Longrightarrow> authority_inv uuid (authority_step uuid w Op_restart)"
proof -
  assume inv: "authority_inv uuid w"
  let ?w = "authority_step uuid w Op_restart"
  have le: "within_budget rows rid n \<Longrightarrow> m \<le> n \<Longrightarrow> within_budget rows rid m" for rows rid n m
    by (auto simp: within_budget_def split: option.splits if_splits)
  have "within_budget (receipts (store w)) rid (spent w rid)" for rid using inv by (simp add: authority_inv_def)
  moreover have "spent ?w rid \<le> spent w rid" for rid by (simp add: spent_def)
  ultimately have "within_budget (receipts (store ?w)) rid (spent ?w rid)" for rid using le by (simp, blast)
  with inv show ?thesis
    by (simp add: authority_inv_def ledger_ok_def issued_for_def flight_ok_def)
qed

text \<open>Every critical section that is not a record or a restart is a sequence of moves.\<close>

lemma gate_store:
  assumes "authority_inv uuid w"
  shows "ledger_moves (uuid (id_count w)) (store w) (fst (decide_gate env n now q (store w)))"
proof -
  have "ledger_ok (known_id uuid (id_count w)) (store w)" using assms by (simp add: authority_inv_def)
  from gate_moves [OF ledger_ids [OF this]] show ?thesis .
qed

lemma step_moves:
  assumes "authority_inv uuid w" "\<forall>n. e \<noteq> Op_record n" "e \<noteq> Op_restart"
  shows "ledger_moves (uuid (id_count w)) (store w) (store (authority_step uuid w e))"
proof (cases e)
  case (Op_gate env now q)
  then show ?thesis
    using gate_store [OF assms(1), of env "uuid (id_count w)" now q]
    by (auto simp: with_store_def stays split: prod.splits sum.splits)
qed (use assms fresh_rows(1) [OF assms(1)] in \<open>simp_all add: with_store_def resolve_moves natural_moves
      explicit_moves revoke_moves list_state_moves\<close>)

lemma authority_step_inv: "authority_inv uuid w \<Longrightarrow> authority_inv uuid (authority_step uuid w e)"
proof (cases e)
  case (Op_gate env now q)
  assume inv: "authority_inv uuid w"
  obtain s r where g: "decide_gate env (uuid (id_count w)) now q (store w) = (s, r)" by force
  have m: "ledger_moves (uuid (id_count w)) (store w) s"
    using gate_store [OF inv, of env "uuid (id_count w)" now q] g by simp
  show ?thesis
  proof (cases r)
    case (Inl d)
    with Op_gate g show ?thesis using with_store_inv [OF inv m] inv by (simp split: sum.split)
  next
    case (Inr d)
    with Op_gate g show ?thesis using gate_inv [OF inv g [unfolded Inr]] inv by (simp split: sum.split)
  qed
next
  case (Op_record n)
  assume "authority_inv uuid w"
  with Op_record show ?thesis using record_inv [of uuid w n] by (cases "n < length (inflight w)") auto
qed (use with_store_inv fresh_rows(1) restart_inv in \<open>simp_all add: resolve_moves natural_moves
      explicit_moves revoke_moves list_state_moves\<close>)

interpretation authority_runs: invariant_system "authority_step uuid" "authority_inv uuid" for uuid
  by unfold_locales (rule authority_step_inv)

lemma receipt_step_final:
  assumes "authority_inv uuid w" "dget (receipts (store w)) rid = Some r" "r_status r \<noteq> Active"
  shows "\<exists>r'. dget (receipts (store (authority_step uuid w e))) rid = Some r' \<and> r_status r' \<noteq> Active"
proof (cases "(\<forall>n. e \<noteq> Op_record n) \<and> e \<noteq> Op_restart")
  case True
  then show ?thesis using moves_closed_receipt [OF step_moves [OF assms(1)] assms(2,3)] by blast
next
  case False
  then show ?thesis using assms(2,3) by (auto simp: decide_record_def)
qed

lemma decision_step_final:
  assumes "authority_inv uuid w" "dget (decisions (store w)) did = Some d" "d_status d = st" "st \<noteq> Open"
  shows "\<exists>d'. dget (decisions (store (authority_step uuid w e))) did = Some d' \<and> d_status d' = st"
proof (cases "(\<forall>n. e \<noteq> Op_record n) \<and> e \<noteq> Op_restart")
  case True
  then show ?thesis using moves_final_decision [OF step_moves [OF assms(1)] assms(2-4)] by blast
next
  case False
  have "did \<in> fst ` set (decisions (store w))" using assms(2) by (force dest: map_of_SomeD)
  moreover have "d_id (snd x) \<notin> fst ` set (decisions (store w))" if "x \<in> set (inflight w)" for x
    using assms(1) that by (auto simp: authority_inv_def flight_ok_def)
  ultimately have "n < length (inflight w) \<Longrightarrow> d_id (snd (inflight w ! n)) \<noteq> did" for n
    using nth_mem by blast
  then show ?thesis using False assms(2,3) by (fastforce simp: decide_record_def)
qed

definition receipt_status_of :: "authority_system \<Rightarrow> string \<Rightarrow> receipt_status option" where
  "receipt_status_of w rid = map_option r_status (dget (receipts (store w)) rid)"

definition decision_status_of :: "authority_system \<Rightarrow> string \<Rightarrow> decision_status option" where
  "decision_status_of w did = map_option d_status (dget (decisions (store w)) did)"

interpretation receipt_closing: final_status_system "authority_step uuid" "authority_inv uuid"
  receipt_status_of "\<lambda>st. st \<noteq> Active" for uuid
  by unfold_locales (use receipt_step_final in \<open>fastforce simp: receipt_status_of_def\<close>)

interpretation decision_closing: final_status_system "authority_step uuid" "authority_inv uuid"
  decision_status_of "\<lambda>v. v \<noteq> Open \<and> v = st" for uuid st
  by unfold_locales (use decision_step_final in \<open>fastforce simp: decision_status_of_def\<close>)


section \<open>Correctness of the gate\<close>

lemma reachable_inv: "inj uuid \<Longrightarrow> authority_inv uuid (run (authority_step uuid) start_authority ops)"
  by (rule authority_runs.run_inv) (rule start_inv)

lemma gate_existing_pending:
  assumes "decide_gate env n now q s = (s', Inl d)"
  shows "d_verdict d = Approval_required"
proof -
  obtain m rows where mr: "matching_receipt (receipts s) (strip (q_operator q)) (agent_of env q) (q_session q)
      (str_or (pget (q_call q) ''request_id'')) (fingerprint_of env q) (effect_of env q) now
      (runtime_binding env (q_workspace q)) = (m, rows)" by (metis surj_pair)
  obtain active drows where ap:
    "active_pending (decisions s) (strip (q_operator q)) (q_session q) now = (active, drows)" by (metis surj_pair)
  have "find (\<lambda>d. d_fingerprint d = fingerprint_of env q) active = Some d"
    using assms mr ap by (auto simp: decide_gate_def Let_def split: option.splits if_splits prod.splits)
  then have "d \<in> set active" by (simp add: find_SomeD)
  then show ?thesis using ap by (auto simp: active_pending_def Let_def pending_row_def)
qed

text \<open>
  Claim C1. The approval gate is sound: when an operator is in the default access mode and no
  native gate stands behind the tool, a call whose effect is neither a read nor a reversible
  write is allowed only on an active, unexpired receipt that is not a denial, issued to the same operator and
  agent for the same name, target and arguments (the fingerprint) and the same effect, on the
  same host, user and workspace, and in the same session when the receipt is for a session.
\<close>

theorem gated_call_needs_receipt:
  assumes "ledger_ok known s"
    and "decide env new_id now q s = (s', Inr d)" and "d_verdict d = Allow"
    and "effect_of env q = Some e" and "e \<notin> {Read, Reversible_write}"
    and "access_mode_for env (strip (q_operator q)) = ''ask_for_approval''" and "\<not> q_native_gate q"
  shows "\<exists>r. dget (receipts s) (r_id r) = Some r \<and> d_receipt d = Some (r_id r)
    \<and> r_status r = Active \<and> r_verdict r \<noteq> Deny \<and> (\<forall>x. r_expires r = Some x \<longrightarrow> now < x)
    \<and> r_operator r = strip (q_operator q) \<and> r_agent r = agent_of env q
    \<and> r_fingerprint r = fingerprint_of env q \<and> r_effect r = Some e
    \<and> b_host (r_execution r) = host_name env \<and> b_user (r_execution r) = login_name env
    \<and> or_empty (b_workspace (r_execution r)) = strip (q_workspace q)
    \<and> (r_scope r = Session \<longrightarrow> r_session r = Some (q_session q))"
proof -
  obtain s1 x where g: "decide_gate env new_id now q s = (s1, x)" by force
  with assms(2,3) gate_existing_pending [of env new_id now q s s1] have x: "x = Inr d"
    by (cases x) (auto simp: decide_def split: sum.splits)
  have "plain_verdict (strip (q_operator q)) (q_disabled_reason q) ''ask_for_approval'' (Some e) name (q_native_gate q)
      \<noteq> Some (Allow, basis)" for name basis
    using assms(5,7) by (auto simp: plain_verdict_def)
  with gate_allows [OF g [unfolded x] assms(3) ledger_ids [OF assms(1)]] assms(4,6)
  show ?thesis by (auto simp: receipt_fits_def binding_matches_def runtime_binding_def or_empty_def)
qed

text \<open>
  The gate fails closed: a call without an authenticated operator is denied unless
  it is one of the public reads, and a call whose effect cannot be classified is denied in
  every access mode, whatever the ledger holds.
\<close>

theorem decide_fails_closed:
  assumes "strip (q_operator q) = [] \<and>
      (effect_of env q \<noteq> Some Read \<or> str_or (pget (q_call q) ''name'') \<notin> set PUBLIC_READS)
    \<or> strip (q_operator q) \<noteq> [] \<and> effect_of env q = None"
    and "decide env new_id now q s = (s', Inr d)"
  shows "d_verdict d = Deny"
  using assms by (auto simp: decide_def decide_gate_def plain_verdict_def Let_def split: sum.splits if_splits)

section \<open>Correctness of approvals\<close>

text \<open>
  A receipt is issued only by the operator of a decision that waits for approval and
  has not expired; it is for that decision's exact call, and an allowing receipt needs the
  approval of the operator and the pending call of this process on the same host and user.
\<close>

theorem resolve_issues_receipt:
  assumes "resolve env new_id now did operator choice scope_text ttl s = (s', Inr r)"
  shows "\<exists>d. dget (decisions s) did = Some d \<and> d_operator d = Some operator
    \<and> d_verdict d = Approval_required \<and> d_status d = Open \<and> now < d_expires d
    \<and> r_decision_id r = did \<and> r_operator r = operator \<and> r_agent r = d_agent d
    \<and> r_fingerprint r = d_fingerprint d \<and> r_effect r = d_effect d \<and> r_execution r = d_execution d
    \<and> dget APPROVAL_SCOPES scope_text = Some (r_scope r)
    \<and> dget (receipts s') new_id = Some r \<and> map_option d_status (dget (decisions s') did) = Some Resolved
    \<and> (r_verdict r = Allow \<longrightarrow> choice = ''approve''
         \<and> (\<exists>p. dget (pending s) did = Some p \<and> b_host (p_binding p) = host_name env
               \<and> b_user (p_binding p) = login_name env))"
  using assms
  by (auto simp: resolve_def issue_receipt_def receipt_record_def Let_def not_le binding_matches_def
      runtime_binding_def split: option.splits if_splits)

text \<open>
  Claim C2. A one-time receipt is spent at most once. Over every run of concurrent requests
  from an empty ledger, with restarts and revocations anywhere between their critical
  sections, at most one allowing verdict, recorded or still in flight, rests on it, and none
  while it is active.
\<close>

theorem once_receipt_spent_once:
  assumes "inj uuid" and "w = run (authority_step uuid) start_authority ops"
    and "dget (receipts (store w)) rid = Some r" and "r_scope r = Once"
  shows "spent w rid \<le> 1 \<and> (r_status r = Active \<longrightarrow> spent w rid = 0)"
proof -
  have "within_budget (receipts (store w)) rid (spent w rid)"
    using reachable_inv [OF assms(1), of ops] assms(2) by (simp add: authority_inv_def)
  then show ?thesis using assms(3,4) by (auto simp: within_budget_def split: if_splits)
qed

text \<open>
  A decision is resolved at most once: over every run, at most one receipt is ever
  issued for it, and none before it counts as resolved.
\<close>

theorem decision_resolved_once:
  assumes "inj uuid" and "w = run (authority_step uuid) start_authority ops"
  shows "issued_for did (store w) \<le> 1
    \<and> (decision_status_of w did \<noteq> Some Resolved \<longrightarrow> issued_for did (store w) = 0)"
proof -
  have *: "issued_for did (store w) \<le> quota (decisions (store w)) did"
    using reachable_inv [OF assms(1), of ops] assms(2) by (simp add: authority_inv_def ledger_ok_def)
  have "quota rows did \<le> 1" for rows by (simp add: quota_def split: option.split)
  with * have "issued_for did (store w) \<le> 1" by (rule le_trans)
  with * show ?thesis by (auto simp: quota_def decision_status_of_def split: option.splits if_splits)
qed

text \<open>
  A receipt that was consumed, revoked or has lapsed never becomes active again, and
  a decision that was resolved or has expired keeps that status, whatever requests, replies,
  revocations and restarts follow.
\<close>

theorem closed_rows_stay_closed:
  assumes "inj uuid" and "w = run (authority_step uuid) start_authority ops"
    and "w' = run (authority_step uuid) w later_ops"
  shows "(receipt_status_of w rid \<notin> {None, Some Active} \<longrightarrow> receipt_status_of w' rid \<notin> {None, Some Active})
    \<and> (decision_status_of w did \<in> {Some Resolved, Some Expired} \<longrightarrow> decision_status_of w' did = decision_status_of w did)"
proof -
  have inv: "authority_inv uuid w" using reachable_inv [OF assms(1)] assms(2) by simp
  have 1: "receipt_status_of w rid \<notin> {None, Some Active} \<longrightarrow> receipt_status_of w' rid \<notin> {None, Some Active}"
    using receipt_closing.final_run [OF inv, of rid _ later_ops] assms(3)
    by (cases "receipt_status_of w rid") auto
  have "decision_status_of w' did = Some st" if "decision_status_of w did = Some st" "st \<noteq> Open" for st
    using decision_closing.final_run [OF inv that(1), of st] that(2) assms(3) by auto
  with 1 show ?thesis by auto
qed

section \<open>A restart\<close>

definition restarted_inv :: "(nat \<Rightarrow> string) \<Rightarrow> string set \<Rightarrow> string set \<Rightarrow> authority_system \<Rightarrow> bool" where
  "restarted_inv uuid K A w \<longleftrightarrow> authority_inv uuid w \<and> K \<subseteq> fst ` set (decisions (store w))
     \<and> none_pending K (store w) \<and> allowing K (store w) \<subseteq> A"

lemma restarted_step: "restarted_inv uuid K A w \<Longrightarrow> restarted_inv uuid K A (authority_step uuid w e)"
proof -
  assume r: "restarted_inv uuid K A w"
  then have inv: "authority_inv uuid w" by (simp add: restarted_inv_def)
  note inv' = authority_step_inv [OF inv, of e]
  have ok: "ledger_ok (known_id uuid (Suc (id_count w))) (store w)"
    using inv by (auto simp: authority_inv_def intro: ledger_ok_mono known_Suc)
  show ?thesis
  proof (cases "(\<forall>n. e \<noteq> Op_record n) \<and> e \<noteq> Op_restart")
    case True
    then have m: "ledger_moves (uuid (id_count w)) (store w) (store (authority_step uuid w e))"
      by (intro step_moves [OF inv]) auto
    show ?thesis
      using r inv' moves_restart [OF m, of K] moves_keep [OF m ok known_Suc(1) [of uuid "id_count w"]]
      by (auto simp: restarted_inv_def)
  next
    case False
    then consider n where "e = Op_record n" "n < length (inflight w)" | n where "e = Op_record n" "\<not> n < length (inflight w)"
      | "e = Op_restart" by auto
    then show ?thesis
    proof cases
      case 1
      have "d_id (snd (inflight w ! n)) \<in> d_id ` snd ` set (inflight w)" using 1(2) by force
      then have "d_id (snd (inflight w ! n)) \<notin> fst ` set (decisions (store w))"
        using inv unfolding authority_inv_def flight_ok_def by blast
      then have "d_id (snd (inflight w ! n)) \<notin> K" using r by (auto simp: restarted_inv_def)
      then show ?thesis using r inv' 1
        by (auto simp: restarted_inv_def decide_record_def none_pending_def allowing_def)
    qed (use r inv' in \<open>auto simp: restarted_inv_def none_pending_def allowing_def\<close>)
  qed
qed

interpretation restarted: invariant_system "authority_step uuid" "restarted_inv uuid K A" for uuid K A
  by unfold_locales (rule restarted_step)

text \<open>
  An approval does not outlive the process that asked for it: after a restart, no
  operator action ever issues an allowing receipt for a decision made before it, so a call
  whose exact arguments were lost with the process is not replayed from the ledger.
\<close>

theorem restart_invalidates_pending:
  assumes "inj uuid" and "w = run (authority_step uuid) start_authority ops"
    and "w' = run (authority_step uuid) (authority_step uuid w Op_restart) later_ops"
    and "dget (decisions (store w)) did = Some d"
    and "dget (receipts (store w')) rid = Some r" and "r_decision_id r = did" and "r_verdict r = Allow"
  shows "\<exists>r0. dget (receipts (store w)) rid = Some r0 \<and> r_decision_id r0 = did \<and> r_verdict r0 = Allow"
proof -
  have inv: "authority_inv uuid w" using reachable_inv [OF assms(1)] assms(2) by simp
  have "did \<in> fst ` set (decisions (store w))" using assms(4) by (force dest: map_of_SomeD)
  then have "restarted_inv uuid {did} (allowing {did} (store w)) (authority_step uuid w Op_restart)"
    using authority_step_inv [OF inv, of Op_restart]
    by (simp add: restarted_inv_def none_pending_def allowing_def)
  from restarted.run_inv [OF this, of later_ops]
  have "allowing {did} (store w') \<subseteq> allowing {did} (store w)" using assms(3) by (simp add: restarted_inv_def)
  then show ?thesis using assms(5-7) by (auto simp: allowing_def)
qed


section \<open>A concrete run\<close>

definition desk_env :: authority_env where
  "desk_env = \<lparr>files = plain_env, load_pref = (\<lambda>_. None), configured_agent = ''agent'', sha256 = (\<lambda>s. s),
     host_name = ''host'', login_name = ''me''\<rparr>"

definition delete_request :: "string \<Rightarrow> decide_request" where
  "delete_request what = \<lparr>q_call = [(''name'', PStr ''manage_tasks''),
       (''arguments'', PDict [(''action'', PStr ''delete''), (''id'', PStr what)])],
     q_operator = ''op'', q_session = ''s'', q_disabled_reason = [], q_native_gate = False, q_workspace = []\<rparr>"

lemma delete_request_policy [simp]: "policy_copy (delete_request x) = Inr []" "policy_copy (delete_request x\<lparr>q_operator := o'\<rparr>) = Inr []"
  by (simp_all add: policy_copy_def delete_request_def)

definition plain_uuid :: "nat \<Rightarrow> string" where
  "plain_uuid n = replicate n CHR ''u''"

lemma plain_uuid_inj: "inj plain_uuid"
  by (rule injI) (metis length_replicate plain_uuid_def)

lemma plain_uuid_eq [simp]: "plain_uuid m = plain_uuid n \<longleftrightarrow> m = n"
  by (metis length_replicate plain_uuid_def)

lemma delete_request_fields [simp]:
  "strip (q_operator (delete_request what)) = ''op''" "q_session (delete_request what) = ''s''"
  "q_disabled_reason (delete_request what) = []" "\<not> q_native_gate (delete_request what)"
  "q_workspace (delete_request what) = []" "agent_of desk_env (delete_request what) = ''agent''"
  "access_mode_for desk_env ''op'' = ''ask_for_approval''"
  "str_or (pget (q_call (delete_request what)) ''name'') = ''manage_tasks''"
  by (simp_all add: delete_request_def strip_def lstrip_def rstrip_def is_space_def code_def agent_of_def desk_env_def
      access_mode_for_def Let_def truthy_def pget_def)

lemma delete_request_effect [simp]:
  "effect_of desk_env (delete_request ''x'') = Some Destructive_or_difficult_to_recover"
  "effect_of desk_env (delete_request ''y'') = Some Destructive_or_difficult_to_recover"
  by code_simp+

lemma delete_fingerprint [simp]:
  "fingerprint_of desk_env (delete_request ''x'') = fingerprint_of desk_env (delete_request ''y'') \<longleftrightarrow> False"
  "fingerprint_of desk_env (delete_request ''y'') = fingerprint_of desk_env (delete_request ''x'') \<longleftrightarrow> False"
  by code_simp+


abbreviation asked :: decision_row where
  "asked \<equiv> decision_record desk_env (plain_uuid 0) 0 (delete_request ''x'') Approval_required ''exact_operator_approval'' None"

abbreviation granted :: receipt_row where
  "granted \<equiv> receipt_record (plain_uuid (Suc 0)) (plain_uuid 0) ''op'' asked True Once 900 1"

lemma asked_state:
  "run (authority_step plain_uuid) start_authority [Op_gate desk_env 0 (delete_request ''x''), Op_record 0]
   = \<lparr>store = \<lparr>decisions = [(plain_uuid 0, asked)], receipts = [],
        pending = [(plain_uuid 0, \<lparr>p_call = q_call (delete_request ''x''), p_binding = runtime_binding desk_env []\<rparr>)]\<rparr>,
      inflight = [], id_count = Suc 0\<rparr>"
  by (simp add: start_authority_def empty_authority_def decide_gate_def policy_copy_def plain_verdict_def Let_def
      matching_receipt_def active_pending_def with_store_def decide_record_def drop_nth_def)

lemma granted_state:
  "authority_step plain_uuid
     \<lparr>store = \<lparr>decisions = [(plain_uuid 0, asked)], receipts = [],
        pending = [(plain_uuid 0, \<lparr>p_call = q_call (delete_request ''x''), p_binding = runtime_binding desk_env []\<rparr>)]\<rparr>,
      inflight = [], id_count = Suc 0\<rparr> (Op_resolve desk_env 1 (plain_uuid 0) ''op'' ''approve'' ''once'' 900)
   = \<lparr>store = \<lparr>decisions = [(plain_uuid 0, asked\<lparr>d_status := Resolved, d_resolved_at := Some 1, d_receipt := Some (plain_uuid (Suc 0))\<rparr>)],
        receipts = [(plain_uuid (Suc 0), granted)],
        pending = [(plain_uuid 0, \<lparr>p_call = q_call (delete_request ''x''), p_binding = runtime_binding desk_env []\<rparr>)]\<rparr>,
      inflight = [], id_count = 2\<rparr>"
  by (simp add: resolve_def with_store_def issue_receipt_def Let_def binding_matches_def runtime_binding_def
      APPROVAL_SCOPES_def)


abbreviation granted_store :: authority where
  "granted_store \<equiv> \<lparr>decisions = [(plain_uuid 0, asked\<lparr>d_status := Resolved, d_resolved_at := Some 1, d_receipt := Some (plain_uuid (Suc 0))\<rparr>)],
        receipts = [(plain_uuid (Suc 0), granted)],
        pending = [(plain_uuid 0, \<lparr>p_call = q_call (delete_request ''x''), p_binding = runtime_binding desk_env []\<rparr>)]\<rparr>"

definition approval_ops :: "authority_op list" where
  "approval_ops = [Op_gate desk_env 0 (delete_request ''x''), Op_record 0,
     Op_resolve desk_env 1 (plain_uuid 0) ''op'' ''approve'' ''once'' 900]"

lemma approval_run:
  "run (authority_step plain_uuid) start_authority approval_ops
     = \<lparr>store = granted_store, inflight = [], id_count = 2\<rparr>"
proof -
  have "run (authority_step plain_uuid) start_authority approval_ops
      = run (authority_step plain_uuid) (run (authority_step plain_uuid) start_authority
          [Op_gate desk_env 0 (delete_request ''x''), Op_record 0])
          [Op_resolve desk_env 1 (plain_uuid 0) ''op'' ''approve'' ''once'' 900]"
    by (simp only: approval_ops_def run_append [symmetric] append.simps)
  also have "\<dots> = \<lparr>store = granted_store, inflight = [], id_count = 2\<rparr>"
    unfolding asked_state by (simp only: run.simps granted_state)
  finally show ?thesis .
qed

text \<open>The approved call runs and spends its receipt.\<close>

abbreviation spent_row :: decision_row where
  "spent_row \<equiv> decision_record desk_env (plain_uuid 2) 2 (delete_request ''x'') Allow ''approval_receipt:once'' (Some granted)"

lemma granted_fields:
  "r_verdict granted = Allow" "r_scope granted = Once" "r_id granted = plain_uuid (Suc 0)"
  "r_decision_id granted = plain_uuid 0" "r_status granted = Active"
  by (simp_all add: receipt_record_def)

lemma granted_fits:
  "matching_receipt [(plain_uuid (Suc 0), granted)] ''op'' ''agent'' ''s'' request
     (fingerprint_of desk_env (delete_request ''x'')) (Some Destructive_or_difficult_to_recover) 2
     (runtime_binding desk_env []) = (Some granted, [(plain_uuid (Suc 0), granted)])"
  by (simp add: matching_receipt_def receipt_fits_def receipt_record_def Let_def lapse_def receipt_expiry_def
      binding_matches_def runtime_binding_def decision_record_def)

lemma granted_gate:
  "decide_gate desk_env (plain_uuid 2) 2 (delete_request ''x'') granted_store
     = (granted_store\<lparr>receipts := [(plain_uuid (Suc 0), granted\<lparr>r_status := Consumed, r_closed_at := Some 2\<rparr>)],
          pending := []\<rparr>, Inr spent_row)"
  by (simp add: decide_gate_def plain_verdict_def Let_def granted_fits granted_fields scope_name_def)

theorem gated_call_needs_receipt_witness:
  "\<exists>r. dget (receipts granted_store) (r_id r) = Some r \<and> r_status r = Active
     \<and> r_fingerprint r = fingerprint_of desk_env (delete_request ''x'')"
proof -
  have "authority_inv plain_uuid (run (authority_step plain_uuid) start_authority approval_ops)"
    by (rule reachable_inv [OF plain_uuid_inj])
  then have ok: "ledger_ok (known_id plain_uuid 2) granted_store"
    by (simp only: approval_run authority_inv_def authority_system.select_convs)
  have d: "decide desk_env (plain_uuid 2) 2 (delete_request ''x'') granted_store
      = (decide_record (delete_request ''x'') spent_row (granted_store\<lparr>receipts :=
           [(plain_uuid (Suc 0), granted\<lparr>r_status := Consumed, r_closed_at := Some 2\<rparr>)], pending := []\<rparr>), Inr spent_row)"
    by (simp only: decide_def delete_request_policy granted_gate prod.case sum.case)
  from gated_call_needs_receipt [OF ok d, of Destructive_or_difficult_to_recover] show ?thesis
    by (auto split: if_splits)
qed

theorem decide_fails_closed_witness:
  "\<exists>s' d. decide desk_env (plain_uuid 0) 0 ((delete_request ''x'')\<lparr>q_operator := []\<rparr>) empty_authority = (s', Inr d) \<and> d_verdict d = Deny"
proof -
  let ?q = "(delete_request ''x'')\<lparr>q_operator := []\<rparr>"
  obtain s1 x where g: "decide_gate desk_env (plain_uuid 0) 0 ?q empty_authority = (s1, x)" by force
  obtain s' d where d: "decide desk_env (plain_uuid 0) 0 ?q empty_authority = (s', Inr d)"
  proof (cases x)
    case (Inl a)
    with g that [of s1 a] show thesis by (simp add: decide_def)
  next
    case (Inr a)
    with g that [of _ a] show thesis by (simp add: decide_def)
  qed
  have "d_verdict d = Deny"
    by (rule decide_fails_closed [OF _ d])
      (simp add: strip_def lstrip_def rstrip_def delete_request_def pget_def str_or_def truthy_def py_str_def PUBLIC_READS_def)
  with d show ?thesis by blast
qed

theorem resolve_issues_receipt_witness:
  "dget (receipts granted_store) (plain_uuid (Suc 0)) = Some granted \<and> r_operator granted = ''op''"
proof -
  have "resolve desk_env (plain_uuid (Suc 0)) 1 (plain_uuid 0) ''op'' ''approve'' ''once'' 900
      \<lparr>decisions = [(plain_uuid 0, asked)], receipts = [],
        pending = [(plain_uuid 0, \<lparr>p_call = q_call (delete_request ''x''), p_binding = runtime_binding desk_env []\<rparr>)]\<rparr>
      = (granted_store, Inr granted)"
    by (simp add: resolve_def issue_receipt_def Let_def binding_matches_def runtime_binding_def APPROVAL_SCOPES_def)
  from resolve_issues_receipt [OF this] show ?thesis by auto
qed

abbreviation spent_ops :: "authority_op list" where
  "spent_ops \<equiv> approval_ops @ [Op_gate desk_env 2 (delete_request ''x''), Op_record 0]"

lemma spent_run:
  "run (authority_step plain_uuid) start_authority spent_ops
     = \<lparr>store = decide_record (delete_request ''x'') spent_row (granted_store\<lparr>receipts :=
           [(plain_uuid (Suc 0), granted\<lparr>r_status := Consumed, r_closed_at := Some 2\<rparr>)], pending := []\<rparr>),
        inflight = [], id_count = 3\<rparr>"
  by (simp add: run_append approval_run granted_gate with_store_def drop_nth_def)

lemma spent_receipt:
  "dget (receipts (store (run (authority_step plain_uuid) start_authority spent_ops))) (plain_uuid (Suc 0))
     = Some (granted\<lparr>r_status := Consumed, r_closed_at := Some 2\<rparr>)"
  by (simp add: spent_run decide_record_def)

theorem once_receipt_spent_once_witness:
  "spent (run (authority_step plain_uuid) start_authority spent_ops) (plain_uuid (Suc 0)) \<le> 1"
  using once_receipt_spent_once [OF plain_uuid_inj refl spent_receipt] by (simp add: receipt_record_def)

theorem decision_resolved_once_witness:
  "issued_for (plain_uuid 0) (store (run (authority_step plain_uuid) start_authority approval_ops)) \<le> 1"
  using decision_resolved_once [OF plain_uuid_inj refl] by blast

theorem closed_rows_stay_closed_witness:
  "receipt_status_of (run (authority_step plain_uuid) (run (authority_step plain_uuid) start_authority spent_ops)
      [Op_restart, Op_revoke 3 (plain_uuid (Suc 0)) ''op'']) (plain_uuid (Suc 0)) \<noteq> Some Active"
proof -
  have "receipt_status_of (run (authority_step plain_uuid) start_authority spent_ops) (plain_uuid (Suc 0)) = Some Consumed"
    using spent_receipt by (simp only: receipt_status_of_def) simp
  then show ?thesis
    using closed_rows_stay_closed [OF plain_uuid_inj refl refl, where ops = spent_ops and rid = "plain_uuid (Suc 0)"
        and later_ops = "[Op_restart, Op_revoke 3 (plain_uuid (Suc 0)) ''op'']"]
    by (simp only: insert_iff empty_iff) auto
qed

theorem restart_invalidates_pending_witness:
  "\<exists>r0. dget (receipts (store (run (authority_step plain_uuid) start_authority approval_ops))) (plain_uuid (Suc 0)) = Some r0
      \<and> r_decision_id r0 = plain_uuid 0 \<and> r_verdict r0 = Allow"
proof -
  let ?w = "run (authority_step plain_uuid) start_authority approval_ops"
  have d: "dget (decisions (store ?w)) (plain_uuid 0)
      = Some (asked\<lparr>d_status := Resolved, d_resolved_at := Some 1, d_receipt := Some (plain_uuid (Suc 0))\<rparr>)"
    by (simp add: approval_run)
  have r: "dget (receipts (store (run (authority_step plain_uuid) (authority_step plain_uuid ?w Op_restart) [])))
      (plain_uuid (Suc 0)) = Some granted"
    by (simp add: approval_run)
  show ?thesis
    by (rule restart_invalidates_pending [OF plain_uuid_inj refl refl d r granted_fields(4,1)])
qed

section \<open>Two requests at once\<close>

definition race_ops :: "authority_op list" where
  "race_ops = [Op_gate desk_env 0 (delete_request ''x''), Op_gate desk_env 1 (delete_request ''y''),
     Op_record 0, Op_record 0]"

text \<open>
  \<open>decide\<close> checks for a pending approval and records its own in two critical
  sections. When two calls of one session pass the check before either is recorded, both wait
  for approval, although the code denies a second pending decision, and then an ordinary
  \<open>yes\<close> resolves neither.
\<close>

theorem concurrent_calls_both_pend:
  "map d_id (fst (active_pending (decisions (store (run (authority_step plain_uuid) start_authority race_ops)))
      ''op'' ''s'' 2)) = [plain_uuid 0, plain_uuid (Suc 0)]
   \<and> snd (resolve_natural_reply desk_env (plain_uuid 2) 2 2 ''yes'' ''op'' ''s''
        (store (run (authority_step plain_uuid) start_authority race_ops))) = Inr None"
proof -
  let ?s = "store (run (authority_step plain_uuid) start_authority race_ops)"
  have dec: "decisions ?s = [(plain_uuid 0, asked),
      (plain_uuid (Suc 0), decision_record desk_env (plain_uuid (Suc 0)) 1 (delete_request ''y'') Approval_required
         ''exact_operator_approval'' None)]"
    by (simp add: race_ops_def start_authority_def empty_authority_def decide_gate_def policy_copy_def plain_verdict_def Let_def
      matching_receipt_def active_pending_def with_store_def decide_record_def drop_nth_def)
  have ap: "fst (active_pending (decisions ?s) ''op'' ''s'' 2) = [asked,
      decision_record desk_env (plain_uuid (Suc 0)) 1 (delete_request ''y'') Approval_required ''exact_operator_approval'' None]"
    by (simp add: dec active_pending_def Let_def pending_row_def or_empty_def expire_row_def)
  have yes: "natural_approval_choice ''yes'' = Some ''approve''" by code_simp
  have "snd (resolve_natural_reply desk_env (plain_uuid 2) 2 2 ''yes'' ''op'' ''s'' ?s) = Inr None"
    using ap by (cases "active_pending (decisions ?s) ''op'' ''s'' 2") (simp add: resolve_natural_reply_def yes Let_def)
  with ap show ?thesis by simp
qed

end
