(* ===== verification/AgentRuns.thy ===== *)
theory AgentRuns
  imports Prelude
begin

text \<open>
  \<open>src/agent_runs.py\<close>: the manager of detached agent runs. Every run has a replay buffer, a
  set of subscribers, each with its queue, and a draining task; the event loop interleaves
  the tasks, the subscribers' generators and the requests at their suspension points, so the
  manager is a step function over such atomic pieces. Runs keep their place in a list, and the
  table maps a session to its current run.
\<close>

section \<open>State\<close>

datatype run_status = Run_running | Run_done | Run_error | Run_stopped

text \<open>
  A draining task has not begun (and perhaps waits for the task of the run it replaced), pulls
  events, closes its generator after a cancellation, or is done.
\<close>

datatype task_phase = Waiting "nat option" | Draining | Closing | Ended

text \<open>
  The generator of a subscriber replays the buffer, streams its queue, flushes the tail after
  the sentinel, has returned, or was dropped by its client.
\<close>

datatype sub_phase = Replaying | Streaming | Flushing | Returned | Dropped

record subscriber =
  s_queue :: "(nat \<times> string) option list"
  s_next :: nat
  s_phase :: sub_phase
  s_out :: "string list"
  s_beats :: nat

record agent_run =
  ar_session :: string
  ar_buffer :: "string list"
  ar_subs :: "subscriber list"
  ar_status :: run_status
  ar_task :: task_phase
  ar_cancel :: bool
  ar_evict :: bool

record run_manager =
  all_runs :: "agent_run list"
  run_table :: "nat dict"

definition no_runs :: run_manager where
  "no_runs = \<lparr>all_runs = [], run_table = []\<rparr>"

section \<open>Operations\<close>

definition connected :: "subscriber \<Rightarrow> bool" where
  "connected sub \<longleftrightarrow> s_phase sub \<noteq> Returned \<and> s_phase sub \<noteq> Dropped"

definition push :: "(nat \<times> string) option \<Rightarrow> subscriber \<Rightarrow> subscriber" where
  "push item sub = (if connected sub then sub\<lparr>s_queue := s_queue sub @ [item]\<rparr> else sub)"

definition publish :: "string \<Rightarrow> agent_run \<Rightarrow> agent_run" where
  "publish ev r = r\<lparr>ar_buffer := ar_buffer r @ [ev],
     ar_subs := map (push (Some (length (ar_buffer r), ev))) (ar_subs r)\<rparr>"

definition update_run :: "nat \<Rightarrow> (agent_run \<Rightarrow> agent_run) \<Rightarrow> run_manager \<Rightarrow> run_manager" where
  "update_run i f m = (if i < length (all_runs m) then m\<lparr>all_runs := (all_runs m)[i := f (all_runs m ! i)]\<rparr> else m)"

definition schedule_evict :: "string \<Rightarrow> run_manager \<Rightarrow> run_manager" where
  "schedule_evict sid m =
     (case dget (run_table m) sid of None \<Rightarrow> m | Some i \<Rightarrow> update_run i (\<lambda>r. r\<lparr>ar_evict := True\<rparr>) m)"

definition evict_timer :: "nat \<Rightarrow> run_manager \<Rightarrow> run_manager" where
  "evict_timer i m =
     (if i < length (all_runs m) \<and> ar_evict (all_runs m ! i) then
        let r = all_runs m ! i; m' = update_run i (\<lambda>r. r\<lparr>ar_evict := False\<rparr>) m in
        if dget (run_table m) (ar_session r) = Some i \<and> ar_status r \<noteq> Run_running \<and> \<not> list_ex connected (ar_subs r)
        then m'\<lparr>run_table := dpop (ar_session r) (run_table m)\<rparr> else m'
      else m)"

definition is_active :: "string \<Rightarrow> run_manager \<Rightarrow> bool" where
  "is_active sid m =
     (case dget (run_table m) sid of None \<Rightarrow> False | Some i \<Rightarrow> ar_status (all_runs m ! i) = Run_running)"

definition get_status :: "string \<Rightarrow> run_manager \<Rightarrow> run_status option" where
  "get_status sid m = map_option (\<lambda>i. ar_status (all_runs m ! i)) (dget (run_table m) sid)"

text \<open>The \<open>finally\<close> clause of \<open>_drain\<close>.\<close>

definition wake :: "agent_run \<Rightarrow> agent_run" where
  "wake r = r\<lparr>ar_subs := map (push None) (ar_subs r), ar_task := Ended\<rparr>"

definition drain_ends :: "nat \<Rightarrow> (agent_run \<Rightarrow> agent_run) \<Rightarrow> run_manager \<Rightarrow> run_manager" where
  "drain_ends i f m = schedule_evict (ar_session (all_runs m ! i)) (update_run i (wake \<circ> f) m)"

definition error_event :: string where
  "error_event = ''event: error'' @ [CHR 0x0A] @ ''data: {'' @ [CHR 0x22] @ ''error'' @ [CHR 0x22] @ '': '' @ [CHR 0x22]
     @ ''Agent run failed before completion.'' @ [CHR 0x22] @ '', '' @ [CHR 0x22] @ ''status'' @ [CHR 0x22]
     @ '': 500}'' @ [CHR 0x0A, CHR 0x0A]"

definition done_event :: string where
  "done_event = ''data: [DONE]'' @ [CHR 0x0A, CHR 0x0A]"

text \<open>The task starts to pull once the task it waits for is done; a cancelled one never does.\<close>

definition drain_begins :: "nat \<Rightarrow> run_manager \<Rightarrow> run_manager" where
  "drain_begins i m =
     (if i < length (all_runs m) \<and> \<not> ar_cancel (all_runs m ! i) then
        case ar_task (all_runs m ! i) of
          Waiting None \<Rightarrow> update_run i (\<lambda>r. r\<lparr>ar_task := Draining\<rparr>) m
        | Waiting (Some p) \<Rightarrow>
            if p < length (all_runs m) \<and> ar_task (all_runs m ! p) = Ended
            then update_run i (\<lambda>r. r\<lparr>ar_task := Draining\<rparr>) m else m
        | _ \<Rightarrow> m
      else m)"

definition drains :: "nat \<Rightarrow> run_manager \<Rightarrow> bool" where
  "drains i m \<longleftrightarrow> i < length (all_runs m) \<and> ar_task (all_runs m ! i) = Draining"

definition drain_event :: "nat \<Rightarrow> string \<Rightarrow> run_manager \<Rightarrow> run_manager" where
  "drain_event i ev m = (if drains i m then update_run i (publish ev) m else m)"

definition drain_finishes :: "nat \<Rightarrow> run_manager \<Rightarrow> run_manager" where
  "drain_finishes i m =
     (if drains i m then
        drain_ends i (\<lambda>r. if ar_status r = Run_running then r\<lparr>ar_status := Run_done\<rparr> else r) m
      else m)"

definition drain_fails :: "nat \<Rightarrow> run_manager \<Rightarrow> run_manager" where
  "drain_fails i m =
     (if drains i m then
        drain_ends i (\<lambda>r. publish done_event (publish error_event (r\<lparr>ar_status := Run_error\<rparr>))) m
      else m)"

text \<open>
  The event loop throws the requested cancellation into the task: while it waits or before its
  first step, it just ends; while it drains, the run is stopped and its generator closed; while
  it closes, the \<open>finally\<close> clause runs at once.
\<close>

definition drain_cancelled :: "nat \<Rightarrow> run_manager \<Rightarrow> run_manager" where
  "drain_cancelled i m =
     (if i < length (all_runs m) \<and> ar_cancel (all_runs m ! i) then
        case ar_task (all_runs m ! i) of
          Waiting _ \<Rightarrow> update_run i (\<lambda>r. r\<lparr>ar_cancel := False, ar_task := Ended\<rparr>) m
        | Draining \<Rightarrow> update_run i (\<lambda>r. r\<lparr>ar_cancel := False, ar_status := Run_stopped, ar_task := Closing\<rparr>) m
        | Closing \<Rightarrow> drain_ends i (\<lambda>r. r\<lparr>ar_cancel := False\<rparr>) m
        | Ended \<Rightarrow> m
      else m)"

definition drain_closed :: "nat \<Rightarrow> run_manager \<Rightarrow> run_manager" where
  "drain_closed i m =
     (if i < length (all_runs m) \<and> ar_task (all_runs m ! i) = Closing then drain_ends i (\<lambda>r. r) m else m)"

definition new_run :: "string \<Rightarrow> nat option \<Rightarrow> agent_run" where
  "new_run sid prev = \<lparr>ar_session = sid, ar_buffer = [], ar_subs = [], ar_status = Run_running,
     ar_task = Waiting prev, ar_cancel = False, ar_evict = False\<rparr>"

definition start :: "string \<Rightarrow> run_manager \<Rightarrow> run_manager" where
  "start sid m =
     (case dget (run_table m) sid of
        None \<Rightarrow> m\<lparr>all_runs := all_runs m @ [new_run sid None], run_table := dset sid (length (all_runs m)) (run_table m)\<rparr>
      | Some p \<Rightarrow>
          let live = (ar_task (all_runs m ! p) \<noteq> Ended);
              m' = update_run p (\<lambda>r. r\<lparr>ar_cancel := (ar_cancel r \<or> live), ar_evict := False\<rparr>) m in
          m'\<lparr>all_runs := all_runs m' @ [new_run sid (if live then Some p else None)],
             run_table := dset sid (length (all_runs m)) (run_table m)\<rparr>)"

definition stop :: "string \<Rightarrow> run_manager \<Rightarrow> run_manager \<times> bool" where
  "stop sid m =
     (case dget (run_table m) sid of
        None \<Rightarrow> (m, False)
      | Some i \<Rightarrow>
          if ar_task (all_runs m ! i) \<noteq> Ended then (update_run i (\<lambda>r. r\<lparr>ar_cancel := True\<rparr>) m, True) else (m, False))"

definition new_sub :: subscriber where
  "new_sub = \<lparr>s_queue = [], s_next = 0, s_phase = Replaying, s_out = [], s_beats = 0\<rparr>"

definition subscribe :: "string \<Rightarrow> run_manager \<Rightarrow> run_manager" where
  "subscribe sid m =
     (case dget (run_table m) sid of
        None \<Rightarrow> m
      | Some i \<Rightarrow> update_run i (\<lambda>r. r\<lparr>ar_subs := ar_subs r @ [new_sub], ar_evict := False\<rparr>) m)"

text \<open>One step of the generator: yield the next replayed event, or move on.\<close>

definition yield_buffered :: "string list \<Rightarrow> subscriber \<Rightarrow> subscriber" where
  "yield_buffered buf sub = sub\<lparr>s_out := s_out sub @ [buf ! s_next sub], s_next := Suc (s_next sub)\<rparr>"

definition pull_sub :: "agent_run \<Rightarrow> subscriber \<Rightarrow> subscriber" where
  "pull_sub r sub =
     (case s_phase sub of
        Replaying \<Rightarrow>
          if s_next sub < length (ar_buffer r) then yield_buffered (ar_buffer r) sub
          else if ar_status r \<noteq> Run_running then sub\<lparr>s_phase := Returned\<rparr>
          else sub\<lparr>s_phase := Streaming\<rparr>
      | Streaming \<Rightarrow>
          (case s_queue sub of
             [] \<Rightarrow> sub
           | None # rest \<Rightarrow> sub\<lparr>s_queue := rest, s_phase := Flushing\<rparr>
           | Some (i, ev) # rest \<Rightarrow>
               if s_next sub \<le> i then sub\<lparr>s_queue := rest, s_out := s_out sub @ [ev], s_next := Suc i\<rparr>
               else sub\<lparr>s_queue := rest\<rparr>)
      | Flushing \<Rightarrow>
          if s_next sub < length (ar_buffer r) then yield_buffered (ar_buffer r) sub
          else sub\<lparr>s_phase := Returned\<rparr>
      | _ \<Rightarrow> sub)"

text \<open>Ten seconds without an event: a heartbeat while the run lives, the end otherwise.\<close>

definition timeout_sub :: "agent_run \<Rightarrow> subscriber \<Rightarrow> subscriber" where
  "timeout_sub r sub =
     (if s_phase sub = Streaming \<and> s_queue sub = [] then
        (if ar_status r = Run_running then sub\<lparr>s_beats := Suc (s_beats sub)\<rparr> else sub\<lparr>s_phase := Flushing\<rparr>)
      else sub)"

definition drop_sub :: "agent_run \<Rightarrow> subscriber \<Rightarrow> subscriber" where
  "drop_sub r sub = (if connected sub then sub\<lparr>s_phase := Dropped\<rparr> else sub)"

text \<open>A subscriber's step, with its \<open>finally\<close> clause when the step disconnects it.\<close>

definition sub_step :: "(agent_run \<Rightarrow> subscriber \<Rightarrow> subscriber) \<Rightarrow> nat \<Rightarrow> nat \<Rightarrow> run_manager \<Rightarrow> run_manager" where
  "sub_step f i k m =
     (if i < length (all_runs m) \<and> k < length (ar_subs (all_runs m ! i)) then
        let r = all_runs m ! i; sub = ar_subs r ! k; r' = r\<lparr>ar_subs := (ar_subs r)[k := f r sub]\<rparr>;
            m' = update_run i (\<lambda>_. r') m in
        if connected sub \<and> \<not> connected (f r sub) \<and> \<not> list_ex connected (ar_subs r') \<and> ar_status r \<noteq> Run_running
        then schedule_evict (ar_session r) m' else m'
      else m)"

section \<open>Runs of the manager\<close>

datatype run_op =
    Start string | Stop string | Subscribe string
  | Begins nat | Event nat string | Finishes nat | Fails nat | Cancelled nat | Closed nat
  | Pull nat nat | Timeout nat nat | Drop nat nat | Evict nat

fun run_step :: "run_manager \<Rightarrow> run_op \<Rightarrow> run_manager" where
  "run_step m (Start sid) = start sid m"
| "run_step m (Stop sid) = fst (stop sid m)"
| "run_step m (Subscribe sid) = subscribe sid m"
| "run_step m (Begins i) = drain_begins i m"
| "run_step m (Event i ev) = drain_event i ev m"
| "run_step m (Finishes i) = drain_finishes i m"
| "run_step m (Fails i) = drain_fails i m"
| "run_step m (Cancelled i) = drain_cancelled i m"
| "run_step m (Closed i) = drain_closed i m"
| "run_step m (Pull i k) = sub_step pull_sub i k m"
| "run_step m (Timeout i k) = sub_step timeout_sub i k m"
| "run_step m (Drop i k) = sub_step drop_sub i k m"
| "run_step m (Evict i) = evict_timer i m"

section \<open>The subscriber invariant\<close>

text \<open>
  What a subscriber has received is the beginning of the buffer; its queue holds the events
  from some number on, each with its place in the buffer, and perhaps the sentinel; while it
  streams, the queue does not begin after the next event it expects.
\<close>

definition queued :: "string list \<Rightarrow> nat \<Rightarrow> bool \<Rightarrow> (nat \<times> string) option list" where
  "queued buf a ended = map (\<lambda>i. Some (i, buf ! i)) [a..<length buf] @ (if ended then [None] else [])"

definition queue_ok :: "agent_run \<Rightarrow> (nat \<times> string) option list \<Rightarrow> nat \<Rightarrow> bool" where
  "queue_ok r q b \<longleftrightarrow> (\<exists>a ended. q = queued (ar_buffer r) a ended \<and> a \<le> length (ar_buffer r) \<and> a \<le> b
     \<and> (ended \<longrightarrow> ar_task r = Ended \<and> ar_status r \<noteq> Run_running))"

definition sub_ok :: "agent_run \<Rightarrow> subscriber \<Rightarrow> bool" where
  "sub_ok r sub \<longleftrightarrow>
     s_next sub \<le> length (ar_buffer r) \<and> s_out sub = take (s_next sub) (ar_buffer r)
     \<and> (s_phase sub = Returned \<longrightarrow> s_next sub = length (ar_buffer r) \<and> ar_status r \<noteq> Run_running)
     \<and> (s_phase sub = Flushing \<longrightarrow> ar_status r \<noteq> Run_running)
     \<and> (s_phase sub = Replaying \<longrightarrow> queue_ok r (s_queue sub) (length (ar_buffer r)))
     \<and> (s_phase sub = Streaming \<longrightarrow> queue_ok r (s_queue sub) (s_next sub))"

definition run_ok :: "agent_run \<Rightarrow> bool" where
  "run_ok r \<longleftrightarrow> (\<forall>sub \<in> set (ar_subs r). sub_ok r sub)
     \<and> ((\<exists>p. ar_task r = Waiting p) \<or> ar_task r = Draining \<longrightarrow> ar_status r = Run_running)
     \<and> (ar_task r = Closing \<longrightarrow> ar_status r \<noteq> Run_running)"


definition mgr_ok :: "run_manager \<Rightarrow> bool" where
  "mgr_ok m \<longleftrightarrow> (\<forall>r \<in> set (all_runs m). run_ok r)"

lemma mgr_update:
  assumes "mgr_ok m" "i < length (all_runs m) \<Longrightarrow> run_ok (all_runs m ! i) \<Longrightarrow> run_ok (f (all_runs m ! i))"
  shows "mgr_ok (update_run i f m)"
  using assms set_update_subset_insert [of "all_runs m" i "f (all_runs m ! i)"]
  by (auto simp: mgr_ok_def update_run_def)

lemma sub_ok_mono:
  assumes "sub_ok r sub" "ar_buffer r' = ar_buffer r"
    "ar_status r \<noteq> Run_running \<Longrightarrow> ar_status r' \<noteq> Run_running" "ar_task r = Ended \<Longrightarrow> ar_task r' = Ended"
  shows "sub_ok r' sub"
  using assms(1,3,4) unfolding sub_ok_def queue_ok_def assms(2) by blast

lemma sub_ok_subs [simp]: "sub_ok (r\<lparr>ar_subs := xs\<rparr>) sub = sub_ok r sub"
  by (simp add: sub_ok_def queue_ok_def)

lemma run_ok_mono:
  assumes "run_ok r" "ar_subs r' = ar_subs r" "ar_buffer r' = ar_buffer r" "ar_status r' = ar_status r" "ar_task r' = ar_task r"
  shows "run_ok r'"
  using assms(1) sub_ok_mono [of r _ r'] assms(2-5) by (simp add: run_ok_def)

lemma queued_snoc: "a \<le> length buf \<Longrightarrow> queued (buf @ [ev]) a False = queued buf a False @ [Some (length buf, ev)]"
  by (auto simp: queued_def nth_append)

lemma queued_ends: "queued buf a True = queued buf a False @ [None]"
  by (simp add: queued_def)

lemma queued_pop:
  "queued buf a e = Some (i, ev) # rest \<Longrightarrow> a \<le> length buf \<Longrightarrow>
     i = a \<and> a < length buf \<and> ev = buf ! a \<and> rest = queued buf (Suc a) e"
  by (cases "a < length buf") (auto simp: queued_def upt_conv_Cons split: if_splits)

lemma push_fields [simp]:
  "s_next (push x sub) = s_next sub" "s_phase (push x sub) = s_phase sub" "s_out (push x sub) = s_out sub"
  by (simp_all add: push_def)

lemma publish_queue:
  assumes "queue_ok r q b" "ar_task r \<noteq> Ended"
  shows "queue_ok (publish ev r) (q @ [Some (length (ar_buffer r), ev)]) b"
proof -
  obtain a where "q = queued (ar_buffer r) a False" "a \<le> length (ar_buffer r)" "a \<le> b"
    using assms by (auto simp: queue_ok_def)
  then show ?thesis by (auto simp: queue_ok_def publish_def queued_snoc intro!: exI [of _ a] exI [of _ False])
qed

lemma queue_ok_weaken: "queue_ok r q b \<Longrightarrow> b \<le> b' \<Longrightarrow> queue_ok r q b'"
proof -
  assume "queue_ok r q b" "b \<le> b'"
  then obtain a ended where "q = queued (ar_buffer r) a ended" "a \<le> length (ar_buffer r)" "a \<le> b'"
    "ended \<longrightarrow> ar_task r = Ended \<and> ar_status r \<noteq> Run_running"
    unfolding queue_ok_def using le_trans by blast
  then show ?thesis unfolding queue_ok_def by blast
qed

lemma publish_sub:
  assumes "sub_ok r sub" "s_phase sub \<noteq> Returned" "s_phase sub \<noteq> Flushing" "ar_task r \<noteq> Ended"
  shows "sub_ok (publish ev r) (push (Some (length (ar_buffer r), ev)) sub)"
proof (cases "s_phase sub")
  case Replaying
  then have "queue_ok (publish ev r) (s_queue (push (Some (length (ar_buffer r), ev)) sub)) (length (ar_buffer r))"
    using assms publish_queue by (simp add: sub_ok_def push_def connected_def)
  then have "queue_ok (publish ev r) (s_queue (push (Some (length (ar_buffer r), ev)) sub)) (length (ar_buffer (publish ev r)))"
    by (rule queue_ok_weaken) (simp add: publish_def)
  then show ?thesis using assms Replaying by (simp add: sub_ok_def) (simp add: publish_def)
next
  case Streaming
  then have "queue_ok (publish ev r) (s_queue (push (Some (length (ar_buffer r), ev)) sub)) (s_next sub)"
    using assms publish_queue by (simp add: sub_ok_def push_def connected_def)
  then show ?thesis using assms Streaming by (simp add: sub_ok_def) (simp add: publish_def)
qed (use assms in \<open>auto simp: sub_ok_def publish_def\<close>)

text \<open>While a run drains, no generator has returned or flushes.\<close>

definition streams_only :: "agent_run \<Rightarrow> bool" where
  "streams_only r \<longleftrightarrow> ar_task r \<noteq> Ended
     \<and> (\<forall>sub \<in> set (ar_subs r). sub_ok r sub \<and> s_phase sub \<noteq> Returned \<and> s_phase sub \<noteq> Flushing)"

lemma streams_publish: "streams_only r \<Longrightarrow> streams_only (publish ev r)"
  using publish_sub [of r _ ev] by (auto simp: streams_only_def publish_def)

lemma running_streams: "run_ok r \<Longrightarrow> ar_status r = Run_running \<Longrightarrow> ar_task r \<noteq> Ended \<Longrightarrow> streams_only r"
  by (auto simp: run_ok_def streams_only_def sub_ok_def)

lemma wake_queue:
  assumes "queue_ok r q b" "ar_task r \<noteq> Ended" "ar_status r \<noteq> Run_running"
  shows "queue_ok (wake r) (q @ [None]) b"
proof -
  obtain a where "q = queued (ar_buffer r) a False" "a \<le> length (ar_buffer r)" "a \<le> b"
    using assms by (auto simp: queue_ok_def)
  then show ?thesis using assms(3)
    by (auto simp: queue_ok_def wake_def queued_ends intro!: exI [of _ a] exI [of _ True])
qed

lemma wake_sub:
  assumes "sub_ok r sub" "ar_status r \<noteq> Run_running" "ar_task r \<noteq> Ended"
  shows "sub_ok (wake r) (push None sub)"
proof -
  have "ar_buffer (wake r) = ar_buffer r" "ar_status (wake r) = ar_status r" by (simp_all add: wake_def)
  then show ?thesis
    using assms wake_queue [of r "s_queue sub" _]
    by (cases "s_phase sub") (simp_all add: sub_ok_def push_def connected_def)
qed

lemma wake_ok: "(\<forall>sub \<in> set (ar_subs r). sub_ok r sub) \<Longrightarrow> ar_status r \<noteq> Run_running \<Longrightarrow> ar_task r \<noteq> Ended \<Longrightarrow> run_ok (wake r)"
  using wake_sub [of r] by (auto simp: run_ok_def) (simp_all add: wake_def image_iff, metis)

lemma schedule_ok: "mgr_ok m \<Longrightarrow> mgr_ok (schedule_evict sid m)"
  unfolding schedule_evict_def
  by (cases "dget (run_table m) sid") (auto intro!: mgr_update elim: run_ok_mono)

lemma drain_ends_ok:
  assumes "mgr_ok m" "i < length (all_runs m) \<Longrightarrow> run_ok (all_runs m ! i) \<Longrightarrow> run_ok (wake (f (all_runs m ! i)))"
  shows "mgr_ok (drain_ends i f m)"
  unfolding drain_ends_def using assms by (intro schedule_ok mgr_update) auto

lemma pull_ok:
  assumes "run_ok r" "sub_ok r sub"
  shows "sub_ok r (pull_sub r sub)"
proof (cases "s_phase sub")
  case Replaying
  then show ?thesis
    using assms(2) by (auto simp: pull_sub_def sub_ok_def yield_buffered_def take_Suc_conv_app_nth)
next
  case Streaming
  then obtain a ended where a: "s_queue sub = queued (ar_buffer r) a ended" "a \<le> length (ar_buffer r)"
    "ended \<longrightarrow> ar_task r = Ended \<and> ar_status r \<noteq> Run_running" "a \<le> s_next sub"
    using assms(2) unfolding sub_ok_def queue_ok_def by blast
  show ?thesis
  proof (cases "s_queue sub")
    case Nil
    then show ?thesis using Streaming assms(2) by (simp add: pull_sub_def)
  next
    case (Cons item rest)
    show ?thesis
    proof (cases item)
      case None
      then have ended using a(1) Cons by (cases "a < length (ar_buffer r)") (auto simp: queued_def upt_conv_Cons split: if_splits)
      then show ?thesis using Streaming Cons None a assms(2) by (auto simp: pull_sub_def sub_ok_def)
    next
      case (Some e)
      obtain i ev where e: "e = (i, ev)" by force
      have q: "i = a \<and> a < length (ar_buffer r) \<and> ev = ar_buffer r ! a \<and> rest = queued (ar_buffer r) (Suc a) ended"
        using queued_pop [of "ar_buffer r" a ended i ev rest] a(1,2) Cons Some e by simp
      let ?s = "pull_sub r sub"
      have nxt: "s_next ?s = max (s_next sub) (Suc a)" "s_out ?s = take (s_next ?s) (ar_buffer r)"
        "s_phase ?s = Streaming" "s_queue ?s = queued (ar_buffer r) (Suc a) ended"
        using Streaming Cons Some e q a(4) assms(2)
        by (auto simp: pull_sub_def sub_ok_def take_Suc_conv_app_nth max_def)
      have "s_next ?s \<le> length (ar_buffer r)" using nxt(1) q assms(2) by (simp add: sub_ok_def)
      moreover have "Suc a \<le> s_next ?s" using nxt(1) by simp
      ultimately have "queue_ok r (s_queue ?s) (s_next ?s)" 
        unfolding queue_ok_def nxt(4) using q a(3) by (intro exI [of _ "Suc a"] exI [of _ ended]) auto
      with \<open>s_next ?s \<le> length (ar_buffer r)\<close> nxt(2,3) show ?thesis by (simp add: sub_ok_def)
    qed
  qed
next
  case Flushing
  then show ?thesis
    using assms(2) by (auto simp: pull_sub_def sub_ok_def yield_buffered_def take_Suc_conv_app_nth)
qed (use assms in \<open>simp_all add: pull_sub_def\<close>)

lemma timeout_ok: "sub_ok r sub \<Longrightarrow> sub_ok r (timeout_sub r sub)"
  by (auto simp: timeout_sub_def sub_ok_def)

lemma drop_ok: "sub_ok r sub \<Longrightarrow> sub_ok r (drop_sub r sub)"
  by (auto simp: drop_sub_def sub_ok_def)

lemma sub_step_ok:
  assumes "mgr_ok m" "\<And>r sub. run_ok r \<Longrightarrow> sub_ok r sub \<Longrightarrow> sub_ok r (f r sub)"
  shows "mgr_ok (sub_step f i k m)"
proof -
  let ?r = "all_runs m ! i"
  have "run_ok (?r\<lparr>ar_subs := (ar_subs ?r)[k := f ?r (ar_subs ?r ! k)]\<rparr>)"
    if "i < length (all_runs m)" "k < length (ar_subs ?r)"
  proof -
    have r: "run_ok ?r" using assms(1) that by (simp add: mgr_ok_def)
    then have "sub_ok ?r (f ?r (ar_subs ?r ! k))" using assms(2) that by (simp add: run_ok_def)
    then have "\<forall>sub \<in> set ((ar_subs ?r)[k := f ?r (ar_subs ?r ! k)]). sub_ok ?r sub"
      using r set_update_subset_insert [of "ar_subs ?r" k "f ?r (ar_subs ?r ! k)"] by (auto simp: run_ok_def)
    then show ?thesis using r by (simp add: run_ok_def)
  qed
  then show ?thesis
    using assms(1) by (auto simp: sub_step_def Let_def intro!: schedule_ok mgr_update)
qed


lemma new_run_ok: "run_ok (new_run sid prev)"
  by (simp add: run_ok_def new_run_def)

lemma mgr_table [simp]: "mgr_ok (m\<lparr>run_table := t\<rparr>) = mgr_ok m"
  by (simp add: mgr_ok_def)

lemma mgr_append: "mgr_ok m \<Longrightarrow> run_ok r \<Longrightarrow> mgr_ok (m\<lparr>all_runs := all_runs m @ [r]\<rparr>)"
  by (auto simp: mgr_ok_def)

lemma start_ok: "mgr_ok m \<Longrightarrow> mgr_ok (start sid m)"
  unfolding start_def Let_def
  by (cases "dget (run_table m) sid") (auto intro!: mgr_append mgr_update new_run_ok elim: run_ok_mono)

lemma stop_ok: "mgr_ok m \<Longrightarrow> mgr_ok (fst (stop sid m))"
  by (auto simp: stop_def intro!: mgr_update elim: run_ok_mono split: option.split)

lemma new_sub_ok: "sub_ok r new_sub \<longleftrightarrow> ar_task r \<noteq> Ended \<or> ar_task r = Ended"
proof -
  have "queue_ok r [] (length (ar_buffer r))"
    by (auto simp: queue_ok_def queued_def intro!: exI [of _ "length (ar_buffer r)"] exI [of _ False])
  then show ?thesis by (simp add: sub_ok_def new_sub_def)
qed

lemma subscribe_ok: "mgr_ok m \<Longrightarrow> mgr_ok (subscribe sid m)"
proof -
  assume m: "mgr_ok m"
  have "run_ok (r\<lparr>ar_subs := ar_subs r @ [new_sub], ar_evict := False\<rparr>)" if "run_ok r" for r
  proof -
    have "run_ok (r\<lparr>ar_subs := ar_subs r @ [new_sub]\<rparr>)"
      using that new_sub_ok [of r] by (auto simp: run_ok_def)
    then show ?thesis by (rule run_ok_mono) simp_all
  qed
  with m show ?thesis by (auto simp: subscribe_def intro!: mgr_update split: option.split)
qed

lemma begins_ok: "mgr_ok m \<Longrightarrow> mgr_ok (drain_begins i m)"
proof -
  assume m: "mgr_ok m"
  have "run_ok (r\<lparr>ar_task := Draining\<rparr>)" if "run_ok r" "ar_task r = Waiting p" for r p
    using that sub_ok_mono [of r _ "r\<lparr>ar_task := Draining\<rparr>"] by (simp add: run_ok_def)
  with m show ?thesis
    by (auto simp: drain_begins_def intro!: mgr_update split: task_phase.split option.split)
qed

lemma event_ok: "mgr_ok m \<Longrightarrow> mgr_ok (drain_event i ev m)"
proof -
  assume m: "mgr_ok m"
  have "run_ok (publish ev r)" if "run_ok r" "ar_task r = Draining" for r
    using streams_publish [OF running_streams [OF that(1)], of ev] that
    by (simp add: run_ok_def streams_only_def) (simp add: publish_def)
  with m show ?thesis by (auto simp: drain_event_def drains_def intro!: mgr_update)
qed

lemma finishes_ok: "mgr_ok m \<Longrightarrow> mgr_ok (drain_finishes i m)"
proof -
  assume m: "mgr_ok m"
  have "run_ok (wake (if ar_status r = Run_running then r\<lparr>ar_status := Run_done\<rparr> else r))"
    if "run_ok r" "ar_task r = Draining" for r
  proof -
    have "ar_status r = Run_running" "\<forall>sub \<in> set (ar_subs r). sub_ok (r\<lparr>ar_status := Run_done\<rparr>) sub"
      using that sub_ok_mono [of r _ "r\<lparr>ar_status := Run_done\<rparr>"] by (simp_all add: run_ok_def)
    then show ?thesis using wake_ok [of "r\<lparr>ar_status := Run_done\<rparr>"] that(2) by simp
  qed
  with m show ?thesis by (auto simp: drain_finishes_def drains_def intro!: drain_ends_ok)
qed

lemma fails_ok: "mgr_ok m \<Longrightarrow> mgr_ok (drain_fails i m)"
proof -
  assume m: "mgr_ok m"
  have "run_ok (wake (publish done_event (publish error_event (r\<lparr>ar_status := Run_error\<rparr>))))"
    if "run_ok r" "ar_task r = Draining" for r
  proof -
    have "streams_only (r\<lparr>ar_status := Run_error\<rparr>)"
      using running_streams [OF that(1)] that sub_ok_mono [of r _ "r\<lparr>ar_status := Run_error\<rparr>"]
      by (simp add: streams_only_def run_ok_def)
    from streams_publish [OF streams_publish [OF this]] show ?thesis
      by (intro wake_ok) (simp_all add: streams_only_def, simp_all add: publish_def)
  qed
  with m show ?thesis by (auto simp: drain_fails_def drains_def intro!: drain_ends_ok)
qed

lemma closing_ok:
  assumes "run_ok r" "ar_task r = Closing" "ar_subs r' = ar_subs r" "ar_buffer r' = ar_buffer r"
    "ar_status r' = ar_status r" "ar_task r' = ar_task r"
  shows "run_ok (wake r')"
  using run_ok_mono [OF assms(1,3-6)] assms by (intro wake_ok) (simp_all add: run_ok_def)

lemma cancelled_ok: "mgr_ok m \<Longrightarrow> mgr_ok (drain_cancelled i m)"
proof -
  assume m: "mgr_ok m"
  have 1: "run_ok (r\<lparr>ar_cancel := False, ar_task := Ended\<rparr>)" if "run_ok r" "ar_task r = Waiting p" for r p
    using that sub_ok_mono [of r _ "r\<lparr>ar_cancel := False, ar_task := Ended\<rparr>"] by (simp add: run_ok_def)
  have 2: "run_ok (r\<lparr>ar_cancel := False, ar_status := Run_stopped, ar_task := Closing\<rparr>)"
    if "run_ok r" "ar_task r = Draining" for r
    using that sub_ok_mono [of r _ "r\<lparr>ar_cancel := False, ar_status := Run_stopped, ar_task := Closing\<rparr>"]
    by (simp add: run_ok_def)
  from m 1 2 show ?thesis
    by (auto simp: drain_cancelled_def intro!: mgr_update drain_ends_ok elim: closing_ok split: task_phase.split)
qed

lemma closed_ok: "mgr_ok m \<Longrightarrow> mgr_ok (drain_closed i m)"
  by (auto simp: drain_closed_def intro!: drain_ends_ok elim: closing_ok)

lemma evict_ok: "mgr_ok m \<Longrightarrow> mgr_ok (evict_timer i m)"
  by (auto simp: evict_timer_def Let_def intro!: mgr_update elim: run_ok_mono)

lemma run_step_ok: "mgr_ok m \<Longrightarrow> mgr_ok (run_step m e)"
  by (cases e) (simp_all add: start_ok stop_ok subscribe_ok begins_ok event_ok finishes_ok fails_ok
      cancelled_ok closed_ok evict_ok sub_step_ok pull_ok timeout_ok drop_ok)

interpretation agent_manager: invariant_system run_step mgr_ok
  by unfold_locales (rule run_step_ok)

text \<open>
  Claim C14. Every subscriber replays exactly: whenever it connects, however it is interleaved
  with the run, other subscribers, cancellations and replacements, what it has received is a
  beginning of the run's event log, without loss, repetition or reordering; a generator that
  returned by itself has delivered the whole log of a run that is over.
\<close>

theorem subscribers_replay_exactly:
  assumes "r \<in> set (all_runs (run run_step no_runs ops))" and "sub \<in> set (ar_subs r)"
  shows "s_out sub = take (length (s_out sub)) (ar_buffer r)
    \<and> (s_phase sub = Returned \<longrightarrow> s_out sub = ar_buffer r \<and> ar_status r \<noteq> Run_running)"
proof -
  have "mgr_ok (run run_step no_runs ops)"
    by (rule agent_manager.run_inv) (simp add: mgr_ok_def no_runs_def)
  then have "sub_ok r sub" using assms by (simp add: mgr_ok_def run_ok_def)
  then show ?thesis by (auto simp: sub_ok_def min_def)
qed

definition replay_ops :: "run_op list" where
  "replay_ops = [Start ''s'', Begins 0, Event 0 ''a'', Subscribe ''s'', Event 0 ''b'', Pull 0 0, Pull 0 0, Pull 0 0,
     Pull 0 0, Event 0 ''c'', Finishes 0, Pull 0 0, Pull 0 0, Pull 0 0]"

definition replay_run :: agent_run where
  "replay_run = \<lparr>ar_session = ''s'', ar_buffer = [''a'', ''b'', ''c''],
     ar_subs = [\<lparr>s_queue = [], s_next = 3, s_phase = Returned, s_out = [''a'', ''b'', ''c''], s_beats = 0\<rparr>],
     ar_status = Run_done, ar_task = Ended, ar_cancel = False, ar_evict = True\<rparr>"

lemma replay_final: "all_runs (run run_step no_runs replay_ops) = [replay_run]"
  by code_simp

theorem subscribers_replay_exactly_witness: "ar_status replay_run \<noteq> Run_running"
  using subscribers_replay_exactly [of replay_run replay_ops "hd (ar_subs replay_run)"]
  by (simp add: replay_final) (simp add: replay_run_def)


section \<open>Finished runs are freed\<close>

definition lingers :: "agent_run \<Rightarrow> bool" where
  "lingers r \<longleftrightarrow> ar_task r = Ended \<and> ar_status r \<noteq> Run_running \<and> \<not> list_ex connected (ar_subs r)"

text \<open>Every session outside \<open>S\<close> whose run lingers has its timer armed.\<close>

definition timers_ok :: "string set \<Rightarrow> run_manager \<Rightarrow> bool" where
  "timers_ok S m \<longleftrightarrow> (\<forall>sid i. dget (run_table m) sid = Some i \<longrightarrow>
     i < length (all_runs m) \<and> ar_session (all_runs m ! i) = sid
     \<and> (sid \<notin> S \<longrightarrow> lingers (all_runs m ! i) \<longrightarrow> ar_evict (all_runs m ! i)))"

lemma timers_update:
  assumes "timers_ok S m" "\<And>r. ar_session (f r) = ar_session r"
    and "\<And>r. r = all_runs m ! i \<Longrightarrow> i < length (all_runs m) \<Longrightarrow> lingers (f r) \<Longrightarrow> ar_evict (f r) \<or> lingers r \<and> (ar_evict r \<longrightarrow> ar_evict (f r))
      \<or> ar_session r \<in> S"
  shows "timers_ok S (update_run i f m)"
  using assms by (fastforce simp: timers_ok_def update_run_def nth_list_update)

lemma timers_update_but:
  assumes "timers_ok {} m" "\<And>r. ar_session (f r) = ar_session r"
  shows "timers_ok {ar_session (all_runs m ! i)} (update_run i f m)"
  using assms by (auto simp: timers_ok_def update_run_def nth_list_update)

lemma timers_schedule: "timers_ok {sid} m \<Longrightarrow> timers_ok {} (schedule_evict sid m)"
proof -
  assume t: "timers_ok {sid} m"
  show ?thesis
  proof (cases "dget (run_table m) sid")
    case None
    with t have "dget (run_table m) s = Some i \<Longrightarrow> s \<noteq> sid" for s i by auto
    with t None show ?thesis by (auto simp: timers_ok_def schedule_evict_def)
  next
    case (Some j)
    then have "j < length (all_runs m)" "ar_session (all_runs m ! j) = sid" using t by (auto simp: timers_ok_def)
    moreover from this have "dget (run_table m) s = Some i \<Longrightarrow> i \<noteq> j \<Longrightarrow> s \<noteq> sid" for s i using Some by auto
    ultimately show ?thesis using t Some
      by (auto simp: timers_ok_def schedule_evict_def update_run_def nth_list_update)
  qed
qed

lemma timers_weaken: "timers_ok {} m \<Longrightarrow> timers_ok S m"
  by (auto simp: timers_ok_def)

lemma timers_ends:
  assumes "timers_ok {} m" "\<And>r. ar_session (f r) = ar_session r"
  shows "timers_ok {} (drain_ends i f m)"
  unfolding drain_ends_def
  by (rule timers_schedule) (use assms in \<open>auto intro!: timers_update_but simp: wake_def\<close>)

lemma update_run_table [simp]: "run_table (update_run i f m) = run_table m"
  "length (all_runs (update_run i f m)) = length (all_runs m)"
  by (simp_all add: update_run_def)

lemma timers_start: "timers_ok {} m \<Longrightarrow> timers_ok {} (start sid m)"
proof -
  assume t: "timers_ok {} m"
  have new: "timers_ok {} (m'\<lparr>all_runs := all_runs m' @ [new_run sid prev], run_table := dset sid (length (all_runs m')) (run_table m')\<rparr>)"
    if "timers_ok {sid} m'" for m' prev
    using that by (auto simp: timers_ok_def nth_append lingers_def new_run_def less_Suc_eq)
  show ?thesis
  proof (cases "dget (run_table m) sid")
    case None
    then show ?thesis using new [OF timers_weaken [OF t], of None] by (simp add: start_def)
  next
    case (Some p)
    then have "ar_session (all_runs m ! p) = sid" using t by (auto simp: timers_ok_def)
    then have "timers_ok {sid} (update_run p (\<lambda>r. r\<lparr>ar_cancel := (ar_cancel r \<or> ar_task (all_runs m ! p) \<noteq> Ended), ar_evict := False\<rparr>) m)"
      using timers_update_but [OF t, of _ p] by fastforce
    from new [OF this, of "if ar_task (all_runs m ! p) \<noteq> Ended then Some p else None"] show ?thesis
      unfolding start_def Some Let_def by (simp only: update_run_table option.case)
  qed
qed

lemma list_ex_update:
  "k < length xs \<Longrightarrow> \<not> list_ex P (xs[k := y]) \<Longrightarrow> \<not> P (xs ! k) \<Longrightarrow> \<not> list_ex P xs"
  by (auto simp: list_ex_length nth_list_update split: if_splits)

lemma timers_sub:
  assumes t: "timers_ok {} m"
  shows "timers_ok {} (sub_step f i k m)"
proof (cases "i < length (all_runs m) \<and> k < length (ar_subs (all_runs m ! i))")
  case False
  then show ?thesis using t by (auto simp: sub_step_def)
next
  case True
  let ?r = "all_runs m ! i"
  let ?r' = "?r\<lparr>ar_subs := (ar_subs ?r)[k := f ?r (ar_subs ?r ! k)]\<rparr>"
  let ?m = "m\<lparr>all_runs := (all_runs m)[i := ?r']\<rparr>"
  have but: "timers_ok {ar_session ?r} ?m"
    using t True by (auto simp: timers_ok_def nth_list_update)
  show ?thesis
  proof (cases "connected (ar_subs ?r ! k) \<and> \<not> connected (f ?r (ar_subs ?r ! k)) \<and> \<not> list_ex connected (ar_subs ?r')
      \<and> ar_status ?r \<noteq> Run_running")
    case c: True
    then show ?thesis using timers_schedule [OF but] True by (simp add: sub_step_def Let_def update_run_def)
  next
    case c: False
    have "lingers ?r" if "lingers ?r'"
    proof -
      have none: "\<not> list_ex connected ((ar_subs ?r)[k := f ?r (ar_subs ?r ! k)])" using that by (simp add: lingers_def)
      then have "\<not> connected (f ?r (ar_subs ?r ! k))" using True by (auto simp: list_ex_iff intro!: set_update_memI)
      then have "\<not> connected (ar_subs ?r ! k)" using c none that by (auto simp: lingers_def)
      with none True list_ex_update [of k "ar_subs ?r" connected] show ?thesis using that by (auto simp: lingers_def)
    qed
    then have "timers_ok {} ?m" using t True by (auto simp: timers_ok_def nth_list_update)
    then show ?thesis using c True by (auto simp: sub_step_def Let_def update_run_def)
  qed
qed

lemma timers_step:
  assumes "timers_ok {} m" "mgr_ok m"
  shows "timers_ok {} (run_step m e)"
proof (cases e)
  case (Evict i)
  then show ?thesis
    using assms(1) by (fastforce simp: timers_ok_def evict_timer_def Let_def update_run_def nth_list_update lingers_def)
next
  case (Cancelled i)
  show ?thesis
  proof (cases "i < length (all_runs m)")
    case True
    then have "ar_task (all_runs m ! i) = Waiting p \<Longrightarrow> ar_status (all_runs m ! i) = Run_running" for p
      using assms(2) by (auto simp: mgr_ok_def run_ok_def)
    with Cancelled assms(1) show ?thesis
      by (auto simp: drain_cancelled_def lingers_def intro!: timers_update timers_ends split: task_phase.split)
  qed (use Cancelled assms(1) in \<open>simp add: drain_cancelled_def\<close>)
next
  case (Subscribe sid)
  have "connected new_sub" by (simp add: connected_def new_sub_def)
  with Subscribe assms(1) show ?thesis
    by (auto simp: subscribe_def lingers_def intro!: timers_update split: option.split)
qed (use assms(1) in \<open>auto simp: timers_start timers_sub stop_def drain_begins_def drain_event_def drains_def
      drain_finishes_def drain_fails_def drain_closed_def lingers_def publish_def
      intro!: timers_update timers_ends split: option.split task_phase.split\<close>)

interpretation run_timers: invariant_system run_step "\<lambda>m. timers_ok {} m \<and> mgr_ok m"
  by unfold_locales (simp add: timers_step run_step_ok)

text \<open>
  A finished run does not stay for ever: whenever the run a session refers to is
  over, its task has ended and no client is connected, a timer is armed that removes it.
\<close>

theorem finished_run_is_freed:
  assumes "m = run run_step no_runs ops" and "dget (run_table m) sid = Some i"
    and "ar_task (all_runs m ! i) = Ended" and "ar_status (all_runs m ! i) \<noteq> Run_running"
    and "\<not> list_ex connected (ar_subs (all_runs m ! i))"
  shows "ar_evict (all_runs m ! i) \<and> dget (run_table (run_step m (Evict i))) sid = None"
proof -
  have t: "timers_ok {} m"
    using run_timers.run_inv [of no_runs ops] assms(1) by (simp add: timers_ok_def mgr_ok_def no_runs_def)
  then have "ar_evict (all_runs m ! i)" "ar_session (all_runs m ! i) = sid" "i < length (all_runs m)"
    using assms(2-5) by (auto simp: timers_ok_def lingers_def)
  then show ?thesis using assms(2-5) by (auto simp: evict_timer_def Let_def update_run_def)
qed

theorem finished_run_is_freed_witness:
  "ar_evict (all_runs (run run_step no_runs replay_ops) ! 0)"
  by (rule conjunct1 [OF finished_run_is_freed [OF refl, of replay_ops "''s''" 0]]) code_simp+

section \<open>Cancelling a run that waits\<close>

text \<open>
  A task cancelled while it still waits for the run it replaced, or before its first step,
  ends outside the \<open>try\<close> of \<open>_drain\<close>.
\<close>

definition stop_waiting_ops :: "run_op list" where
  "stop_waiting_ops = [Start ''s'', Begins 0, Start ''s'', Subscribe ''s'', Stop ''s'', Cancelled 1,
     Cancelled 0, Closed 0, Evict 1]"

text \<open>
  Stopping a run before it has begun to pull leaves it active for ever: its task has
  ended, it is still recorded as running, the timer has fired without removing it, and its subscriber gets heartbeats
  but never the end.
\<close>

theorem stopped_waiting_run_stays_active:
  "is_active ''s'' (run run_step no_runs stop_waiting_ops)
   \<and> ar_task (all_runs (run run_step no_runs stop_waiting_ops) ! 1) = Ended
   \<and> \<not> ar_evict (all_runs (run run_step no_runs stop_waiting_ops) ! 1)
   \<and> map s_phase (ar_subs (all_runs (run run_step no_runs (stop_waiting_ops @ [Pull 1 0, Pull 1 0, Timeout 1 0])) ! 1))
       = [Streaming]"
  by code_simp

text \<open>
  Three quick starts: the second run is cancelled while it waits for the first, so its task
  ends at once and the third begins while the first is still saving its partial answer.
\<close>

definition triple_start_ops :: "run_op list" where
  "triple_start_ops = [Start ''s'', Begins 0, Start ''s'', Cancelled 0, Start ''s'', Cancelled 1, Begins 2]"

text \<open>
  The runs of a session are not kept sequential by waiting for the replaced one: after
  three quick starts the third run drains while the first is still closing.
\<close>

theorem third_run_overlaps_first:
  "map (\<lambda>r. (ar_session r, ar_task r)) (all_runs (run run_step no_runs triple_start_ops))
     = [(''s'', Closing), (''s'', Ended), (''s'', Draining)]"
  by code_simp

end
