(* ===== verification/BgJobs.thy ===== *)
theory BgJobs
  imports PyValue
begin

text \<open>
  \<open>src/bg_jobs.py\<close>: detached background jobs whose state is reconciled against exit-code
  files. The store is the dictionary of job records; what the module reads from the
  operating system (exit files, live processes, logs) is a record of functions, and what it
  starts, writes and kills is returned beside the new store. Moments are microseconds.
\<close>

section \<open>Records\<close>

datatype job_status = Running | Done | Failed

record job =
  j_id :: string
  j_session :: string
  j_command :: string
  j_status :: job_status
  j_pid :: int
  j_started :: int
  j_ended :: "int option"
  j_exit :: "int option"
  j_max_runtime :: int
  j_followed_up :: bool
  j_log_path :: string
  j_exit_path :: string
  j_timed_out :: bool
  j_died :: bool
  j_killed :: bool

definition second :: int where "second = 1000000"
definition RETENTION :: int where "RETENTION = 3600 * second"
definition MAX_OUTPUT_CHARS :: nat where "MAX_OUTPUT_CHARS = 16000"

text \<open>
  \<open>exit_file\<close>: no file, an unreadable file, or its text; \<open>exit_later\<close> is the second look
  at the file that the last branch of \<open>refresh\<close> takes after the probe of the process.
\<close>

record job_world =
  exit_file :: "string \<Rightarrow> string option option"
  exit_later :: "string \<Rightarrow> bool"
  alive :: "int \<Rightarrow> bool"
  log_text :: "string \<Rightarrow> string option"

section \<open>Launching\<close>

text \<open>\<open>shlex.quote\<close>.\<close>

definition shell_safe :: "char \<Rightarrow> bool" where
  "shell_safe c \<longleftrightarrow> (is_word c \<and> code c < 128) \<or> c \<in> set ''@%+=:,./-''"

definition shlex_quote :: "string \<Rightarrow> string" where
  "shlex_quote s =
     (if s = [] then [CHR 0x27, CHR 0x27]
      else if list_all shell_safe s then s
      else [CHR 0x27] @ concat (map (\<lambda>c. if c = CHR 0x27 then [CHR 0x27, CHR 0x22, CHR 0x27, CHR 0x22, CHR 0x27] else [c]) s)
           @ [CHR 0x27])"

text \<open>
  The scripts of a launch, as (path, text) pairs, and the command line that is started.
  \<open>bash\<close> is what \<open>find_bash\<close> returns, \<open>posix\<close> is \<open>git_bash_path\<close>, \<open>comspec\<close> the
  configured command interpreter; \<open>dir\<close> is the jobs directory with its final separator.
\<close>

definition crlf :: string where "crlf = [CHR 0x0D, CHR 0x0A]"
definition dquote :: "string \<Rightarrow> string" where "dquote s = [CHR 0x22] @ s @ [CHR 0x22]"

definition launch_scripts ::
    "string option \<Rightarrow> (string \<Rightarrow> string) \<Rightarrow> string \<Rightarrow> string \<Rightarrow> string \<Rightarrow> string \<Rightarrow> (string \<times> string) list \<times> string list" where
  "launch_scripts bash posix comspec dir jid command =
     (let log_path = dir @ jid @ ''.log''; exit_path = dir @ jid @ ''.exit'' in
      case bash of
        Some sh \<Rightarrow>
          let cmd_path = dir @ jid @ ''.cmd.sh''; script_path = dir @ jid @ ''.sh'' in
          ([(cmd_path, command @ newline),
            (script_path, ''bash '' @ shlex_quote (posix cmd_path) @ '' > '' @ shlex_quote (posix log_path) @ '' 2>&1''
               @ newline @ ''echo $? > '' @ shlex_quote (posix exit_path) @ newline)],
           [sh, script_path])
      | None \<Rightarrow>
          let child_path = dir @ jid @ ''.child.cmd''; script_path = dir @ jid @ ''.cmd'' in
          ([(child_path, ''@echo off'' @ crlf @ command @ crlf),
            (script_path, ''@echo off'' @ crlf @ ''call '' @ dquote child_path @ '' > '' @ dquote log_path @ '' 2>&1''
               @ crlf @ ''echo %ERRORLEVEL%> '' @ dquote exit_path @ crlf)],
           [comspec, ''/c'', script_path]))"

definition launch_record :: "string \<Rightarrow> string \<Rightarrow> string \<Rightarrow> string \<Rightarrow> int \<Rightarrow> int \<Rightarrow> int \<Rightarrow> job" where
  "launch_record dir jid command session_id pid now max_runtime =
     \<lparr>j_id = jid, j_session = session_id, j_command = command, j_status = Running, j_pid = pid,
      j_started = now, j_ended = None, j_exit = None, j_max_runtime = max_runtime, j_followed_up = False,
      j_log_path = dir @ jid @ ''.log'', j_exit_path = dir @ jid @ ''.exit'',
      j_timed_out = False, j_died = False, j_killed = False\<rparr>"

definition launch ::
    "string \<Rightarrow> string \<Rightarrow> string \<Rightarrow> string \<Rightarrow> int \<Rightarrow> int \<Rightarrow> int \<Rightarrow> job dict \<Rightarrow> job dict \<times> job" where
  "launch dir jid command session_id pid now max_runtime jobs =
     (let rec = launch_record dir jid command session_id pid now max_runtime in (dset jid rec jobs, rec))"

section \<open>Reconciling\<close>

definition exit_code_of :: "string option \<Rightarrow> int" where
  "exit_code_of content =
     (case content of
        None \<Rightarrow> 1
      | Some txt \<Rightarrow> (case parse_int (if strip txt = [] then ''1'' else strip txt) of None \<Rightarrow> 1 | Some c \<Rightarrow> c))"

definition overdue :: "int \<Rightarrow> job \<Rightarrow> bool" where
  "overdue now r \<longleftrightarrow> now - j_started r > j_max_runtime r * second"

definition refresh_job :: "job_world \<Rightarrow> int \<Rightarrow> job \<Rightarrow> job" where
  "refresh_job w now r =
     (if j_status r \<noteq> Running then r
      else case exit_file w (j_exit_path r) of
        Some content \<Rightarrow>
          let c = exit_code_of content in
          r\<lparr>j_exit := Some c, j_status := (if c = 0 then Done else Failed), j_ended := Some now\<rparr>
      | None \<Rightarrow>
          if overdue now r then
            r\<lparr>j_status := Failed, j_exit := Some (- 1), j_ended := Some now, j_timed_out := True\<rparr>
          else if \<not> alive w (j_pid r) \<and> \<not> exit_later w (j_exit_path r) then
            r\<lparr>j_status := Failed, j_exit := Some (- 1), j_ended := Some now, j_died := True\<rparr>
          else r)"

text \<open>The processes that \<open>refresh\<close> tears down.\<close>

definition reaped :: "job_world \<Rightarrow> int \<Rightarrow> job dict \<Rightarrow> int list" where
  "reaped w now jobs = map j_pid (filter (\<lambda>r. j_status r = Running \<and> exit_file w (j_exit_path r) = None \<and> overdue now r)
     (dvals jobs))"

definition prunable :: "int \<Rightarrow> job \<Rightarrow> bool" where
  "prunable now r \<longleftrightarrow> j_followed_up r
     \<and> (case j_ended r of None \<Rightarrow> False | Some t \<Rightarrow> t \<noteq> 0 \<and> now - t > RETENTION)"

definition prune :: "int \<Rightarrow> job dict \<Rightarrow> job dict" where
  "prune now jobs = filter (\<lambda>(jid, r). \<not> prunable now r) jobs"

definition refresh :: "job_world \<Rightarrow> int \<Rightarrow> job dict \<Rightarrow> job dict" where
  "refresh w now jobs = prune now (dmap (refresh_job w now) jobs)"

section \<open>The monitor and the tools\<close>

definition pending_followups :: "job_world \<Rightarrow> int \<Rightarrow> job dict \<Rightarrow> job list" where
  "pending_followups w now jobs =
     filter (\<lambda>r. j_status r \<in> {Done, Failed} \<and> \<not> j_followed_up r) (dvals (refresh w now jobs))"

definition mark_followed_up :: "string \<Rightarrow> job dict \<Rightarrow> job dict" where
  "mark_followed_up jid jobs =
     (case dget jobs jid of None \<Rightarrow> jobs | Some r \<Rightarrow> dset jid (r\<lparr>j_followed_up := True\<rparr>) jobs)"

text \<open>\<open>mark\<close> is the text the code puts between the kept ends of a long output.\<close>

definition read_output :: "string \<Rightarrow> job_world \<Rightarrow> job \<Rightarrow> string" where
  "read_output mark w r =
     (case log_text w (j_log_path r) of
        None \<Rightarrow> []
      | Some txt \<Rightarrow>
          if MAX_OUTPUT_CHARS < length txt
          then take (MAX_OUTPUT_CHARS div 2) txt @ mark @ last_n (MAX_OUTPUT_CHARS div 2) txt
          else txt)"

definition get_job :: "string \<Rightarrow> job_world \<Rightarrow> int \<Rightarrow> string \<Rightarrow> job dict \<Rightarrow> job dict \<times> (job \<times> string) option" where
  "get_job mark w now jid jobs =
     (let jobs' = refresh w now jobs in
      (jobs', map_option (\<lambda>r. (r, read_output mark w r)) (dget jobs' jid)))"

definition list_for_session :: "job_world \<Rightarrow> int \<Rightarrow> string \<Rightarrow> job dict \<Rightarrow> job dict \<times> job list" where
  "list_for_session w now session_id jobs =
     (let jobs' = refresh w now jobs in (jobs', filter (\<lambda>r. j_session r = session_id) (dvals jobs')))"

definition kill :: "int \<Rightarrow> string \<Rightarrow> job dict \<Rightarrow> job dict \<times> job option" where
  "kill now jid jobs =
     (case dget jobs jid of
        None \<Rightarrow> (jobs, None)
      | Some r \<Rightarrow>
          if j_status r = Running then
            let r' = r\<lparr>j_status := Failed, j_exit := Some (- 1), j_ended := Some now, j_killed := True, j_followed_up := True\<rparr>
            in (dset jid r' jobs, Some r')
          else (jobs, Some r))"

definition result_text :: "string \<Rightarrow> job_world \<Rightarrow> job \<Rightarrow> string" where
  "result_text mark w r =
     (let out = read_output mark w r;
          head = (if j_killed r then ''Background job was killed.''
            else if j_timed_out r then ''Background job timed out after '' @ show_int (j_max_runtime r) @ ''s.''
            else if j_died r then ''Background job process died unexpectedly (no exit code).''
            else ''Background job finished with exit code '' @ (case j_exit r of None \<Rightarrow> ''None'' | Some c \<Rightarrow> show_int c) @ ''.'')
      in head @ newline @ ''Command: '' @ j_command r @ newline @ newline @ ''Output:'' @ newline
         @ (if out = [] then ''(no output)'' else out))"

section \<open>Runs\<close>

datatype job_op =
    Launch string string string string int int int
  | Tick job_world int
  | Mark string
  | Kill string int

fun job_step :: "job dict \<Rightarrow> job_op \<Rightarrow> job dict" where
  "job_step jobs (Launch dir jid command session_id pid now max_runtime) =
     fst (launch dir jid command session_id pid now max_runtime jobs)"
| "job_step jobs (Tick w now) = refresh w now jobs"
| "job_step jobs (Mark jid) = mark_followed_up jid jobs"
| "job_step jobs (Kill jid now) = fst (kill now jid jobs)"

section \<open>Correctness\<close>

lemma refresh_job_finished: "j_status r \<noteq> Running \<Longrightarrow> refresh_job w now r = r"
  by (simp add: refresh_job_def)

lemma refresh_job_twice: "refresh_job w now (refresh_job w now r) = refresh_job w now r"
proof (cases "j_status (refresh_job w now r) = Running")
  case True
  then have "refresh_job w now r = r" by (auto simp: refresh_job_def Let_def split: option.splits if_splits)
  then show ?thesis by metis
next
  case False
  then show ?thesis by (rule refresh_job_finished)
qed

text \<open>
  Reconciling is idempotent: with the same files, processes and clock, a second
  call changes nothing, so a poll loop may repeat it.
\<close>

theorem refresh_idempotent: "refresh w now (refresh w now jobs) = refresh w now jobs"
  unfolding refresh_def prune_def by (rule filter_dmap_twice) (rule refresh_job_twice)

lemma refresh_get:
  "wf_dict jobs \<Longrightarrow> dget (refresh w now jobs) k =
     (case dget jobs k of
        None \<Rightarrow> None
      | Some r \<Rightarrow> if prunable now (refresh_job w now r) then None else Some (refresh_job w now r))"
  by (simp add: refresh_def prune_def dget_filter split: option.split)

text \<open>
  What a reconciliation records is what the disk says: a job counts as done exactly
  when its exit file holds the code zero, and no job that has run longer than its limit is
  still running afterwards.
\<close>

theorem refresh_outcome:
  assumes "wf_dict jobs" and "dget jobs k = Some r" and "j_status r = Running"
    and "dget (refresh w now jobs) k = Some r'"
  shows "(j_status r' = Done \<longleftrightarrow> (\<exists>content. exit_file w (j_exit_path r) = Some content \<and> exit_code_of content = 0))
    \<and> (overdue now r \<longrightarrow> j_status r' \<noteq> Running)
    \<and> (j_status r' = Running \<longrightarrow> r' = r \<and> (alive w (j_pid r) \<or> exit_later w (j_exit_path r)))"
  using assms by (auto simp: refresh_get refresh_job_def Let_def split: option.splits if_splits)

definition quiet_world :: job_world where
  "quiet_world = \<lparr>exit_file = (\<lambda>p. if p = ''a.exit'' then Some (Some ''0'') else None),
     exit_later = (\<lambda>_. False), alive = (\<lambda>_. True), log_text = (\<lambda>_. None)\<rparr>"

definition sample_job :: job where
  "sample_job = launch_record [] ''a'' ''true'' ''s'' 1 1 3600"

theorem refresh_outcome_witness:
  "j_status (refresh_job quiet_world 2 sample_job) = Done"
proof -
  have j: "j_status sample_job = Running" "j_exit_path sample_job = ''a.exit''"
    by (simp_all add: sample_job_def launch_record_def)
  have z: "exit_code_of (Some ''0'') = 0" by code_simp
  have "refresh_job quiet_world 2 sample_job = sample_job\<lparr>j_exit := Some 0, j_status := Done, j_ended := Some 2\<rparr>"
    by (simp add: refresh_job_def j quiet_world_def z)
  then have "\<not> prunable 2 (refresh_job quiet_world 2 sample_job)"
    by (simp add: prunable_def sample_job_def launch_record_def)
  then have g: "dget (refresh quiet_world 2 [(''a'', sample_job)]) ''a'' = Some (refresh_job quiet_world 2 sample_job)"
    by (simp add: refresh_get)
  show ?thesis
    using refresh_outcome [OF _ _ j(1) g] by (simp add: j quiet_world_def z)
qed

section \<open>No completion is lost\<close>

definition waiting :: "string \<Rightarrow> job \<Rightarrow> job dict \<Rightarrow> bool" where
  "waiting k r jobs \<longleftrightarrow> wf_dict jobs \<and> dget jobs k = Some r \<and> j_status r \<noteq> Running \<and> \<not> j_followed_up r"

definition leaves :: "string \<Rightarrow> job_op \<Rightarrow> bool" where
  "leaves k e \<longleftrightarrow> (case e of Launch _ jid _ _ _ _ _ \<Rightarrow> jid \<noteq> k | Mark jid \<Rightarrow> jid \<noteq> k | _ \<Rightarrow> True)"

lemma wf_refresh: "wf_dict jobs \<Longrightarrow> wf_dict (refresh w now jobs)"
  unfolding refresh_def prune_def by (metis dkeys_dmap distinct_map_filter)

lemma waiting_step: "waiting k r jobs \<Longrightarrow> leaves k e \<Longrightarrow> waiting k r (job_step jobs e)"
  by (cases e) (auto simp: waiting_def leaves_def launch_def Let_def mark_followed_up_def kill_def
      wf_refresh refresh_get refresh_job_finished prunable_def split: option.splits)

interpretation job_waits: guarded_system job_step "waiting k r" "leaves k" for k r
  by unfold_locales (rule waiting_step)

text \<open>
  Claim C25. A completion is never lost: once a job has finished and the agent has not been
  re-invoked for it, its record stays as it is through every number of reconciliations,
  launches, kills and follow-ups of other jobs, however much time passes, and the monitor's
  next poll offers it again.
\<close>

theorem completion_never_lost:
  assumes "wf_dict jobs" and "dget jobs k = Some r" and "j_status r \<noteq> Running" and "\<not> j_followed_up r"
    and "list_all (leaves k) ops"
  shows "dget (run job_step jobs ops) k = Some r \<and> r \<in> set (pending_followups w now (run job_step jobs ops))"
proof -
  have "waiting k r (run job_step jobs (ops @ [Tick w now]))"
    by (rule job_waits.guarded_run) (use assms in \<open>auto simp: waiting_def leaves_def\<close>)
  then have "dget (refresh w now (run job_step jobs ops)) k = Some r" by (simp add: waiting_def run_append)
  then have "r \<in> set (dvals (refresh w now (run job_step jobs ops)))" by (rule dget_in_vals)
  moreover have "waiting k r (run job_step jobs ops)"
    by (rule job_waits.guarded_run) (use assms in \<open>auto simp: waiting_def\<close>)
  ultimately show ?thesis using assms(3,4) by (cases "j_status r") (auto simp: waiting_def pending_followups_def)
qed

theorem completion_never_lost_witness:
  "sample_job\<lparr>j_status := Failed\<rparr> \<in> set (pending_followups quiet_world 9000000000
     (run job_step [(''a'', sample_job\<lparr>j_status := Failed\<rparr>)] [Mark ''b'', Kill ''a'' 5, Tick quiet_world 8000000000]))"
  using completion_never_lost [of "[(''a'', sample_job\<lparr>j_status := Failed\<rparr>)]" "''a''" "sample_job\<lparr>j_status := Failed\<rparr>"
      "[Mark ''b'', Kill ''a'' 5, Tick quiet_world 8000000000]"]
  by (simp add: leaves_def sample_job_def launch_record_def)

section \<open>A finished job can be reported as killed\<close>

text \<open>
  \<open>kill\<close> reads the store without reconciling it: a job whose exit file already
  holds the code zero, but which no poll has seen yet, is recorded as killed with code -1 and
  followed up, and no later reconciliation puts that right.
\<close>

theorem kill_overwrites_finished:
  "\<exists>jobs w r. exit_file w (j_exit_path r) = Some (Some ''0'') \<and> dget (refresh w 2 jobs) ''a'' = Some r
     \<and> j_status r = Done
     \<and> (\<exists>r'. dget (refresh w 4 (fst (kill 3 ''a'' jobs))) ''a'' = Some r'
           \<and> j_status r' = Failed \<and> j_exit r' = Some (- 1) \<and> j_followed_up r')"
proof -
  have j: "j_status sample_job = Running" "j_exit_path sample_job = ''a.exit''"
    by (simp_all add: sample_job_def launch_record_def)
  have z: "exit_code_of (Some ''0'') = 0" by code_simp
  have e: "refresh_job quiet_world 2 sample_job = sample_job\<lparr>j_exit := Some 0, j_status := Done, j_ended := Some 2\<rparr>"
    by (simp add: refresh_job_def j quiet_world_def z)
  have 1: "dget (refresh quiet_world 2 [(''a'', sample_job)]) ''a'' = Some (refresh_job quiet_world 2 sample_job)"
    by (simp add: refresh_get e prunable_def) (simp add: sample_job_def launch_record_def)
  have 2: "dget (refresh quiet_world 4 (fst (kill 3 ''a'' [(''a'', sample_job)]))) ''a''
      = Some (sample_job\<lparr>j_status := Failed, j_exit := Some (- 1), j_ended := Some 3, j_killed := True, j_followed_up := True\<rparr>)"
    by (simp add: kill_def Let_def j refresh_get refresh_job_finished prunable_def RETENTION_def second_def)
  have f: "exit_file quiet_world ''a.exit'' = Some (Some ''0'')" by (simp add: quiet_world_def)
  show ?thesis
    by (intro exI [of _ "[(''a'', sample_job)]"] exI [of _ quiet_world] exI [of _ "refresh_job quiet_world 2 sample_job"])
       (use 1 2 f in \<open>simp add: e j\<close>)
qed

end
