(* ===== verification/RateLimiter.thy ===== *)
theory RateLimiter
  imports Prelude
begin

text \<open>
  \<open>src/rate_limiter.py\<close>: a sliding-window limiter per key with a periodic purge of stale
  keys. The monotonic clock counts microseconds. The component is compared with a reference
  limiter that remembers every admitted request and counts those in the window.
\<close>

section \<open>The limiter\<close>

record limiter =
  max_requests :: int
  window :: int
  log_of :: "int list dict"
  last_cleanup :: int
  cleanup_interval :: int

definition new_limiter :: "int \<Rightarrow> int \<Rightarrow> int \<Rightarrow> limiter" where
  "new_limiter requests window_seconds now =
     \<lparr>max_requests = requests, window = window_seconds * 1000000, log_of = [], last_cleanup = now,
      cleanup_interval = max (window_seconds * 2) 120 * 1000000\<rparr>"

definition stale_entry :: "int \<Rightarrow> int list \<Rightarrow> bool" where
  "stale_entry cutoff v \<longleftrightarrow> v = [] \<or> last v \<le> cutoff"

definition maybe_cleanup :: "int \<Rightarrow> limiter \<Rightarrow> limiter" where
  "maybe_cleanup now l =
     (if now - last_cleanup l < cleanup_interval l then l
      else l\<lparr>last_cleanup := now,
             log_of := filter (\<lambda>(k, v). \<not> stale_entry (now - window l) v) (log_of l)\<rparr>)"

definition entries :: "limiter \<Rightarrow> string \<Rightarrow> int list" where
  "entries l key = (case dget (log_of l) key of None \<Rightarrow> [] | Some v \<Rightarrow> v)"

definition check :: "int \<Rightarrow> string \<Rightarrow> limiter \<Rightarrow> limiter \<times> bool" where
  "check now key l0 =
     (let l = maybe_cleanup now l0;
          timestamps = filter (\<lambda>t. t > now - window l) (entries l key) in
      if int (length timestamps) \<ge> max_requests l then
        (l\<lparr>log_of := dset key timestamps (log_of l)\<rparr>, False)
      else
        (l\<lparr>log_of := dset key (timestamps @ [now]) (log_of l)\<rparr>, True))"

text \<open>The answers to a sequence of requests, each a moment and a key.\<close>

fun answers :: "limiter \<Rightarrow> (int \<times> string) list \<Rightarrow> bool list" where
  "answers l [] = []"
| "answers l ((now, key) # rs) = snd (check now key l) # answers (fst (check now key l)) rs"

section \<open>The reference\<close>

definition recent :: "int \<Rightarrow> int \<Rightarrow> string \<Rightarrow> (int \<times> string) list \<Rightarrow> int list" where
  "recent w now key h = filter (\<lambda>t. t > now - w) (map fst (filter (\<lambda>(t, k). k = key) h))"

text \<open>Admit a request when the admitted ones of its key in the window are fewer than the limit.\<close>

fun reference :: "int \<Rightarrow> int \<Rightarrow> (int \<times> string) list \<Rightarrow> (int \<times> string) list \<Rightarrow> bool list" where
  "reference n w h [] = []"
| "reference n w h ((now, key) # rs) =
     (if int (length (recent w now key h)) < n then True # reference n w (h @ [(now, key)]) rs
      else False # reference n w h rs)"

definition admitted :: "bool list \<Rightarrow> (int \<times> string) list \<Rightarrow> (int \<times> string) list" where
  "admitted bs rs = map snd (filter fst (zip bs rs))"

section \<open>The limiter is the reference\<close>

definition agrees :: "limiter \<Rightarrow> (int \<times> string) list \<Rightarrow> int \<Rightarrow> bool" where
  "agrees l h now \<longleftrightarrow> wf_dict (log_of l) \<and> (\<forall>key. sorted (entries l key) \<and> (\<forall>t \<in> set (entries l key). t \<le> now))
     \<and> (\<forall>key u. now \<le> u \<longrightarrow> filter (\<lambda>t. t > u - window l) (entries l key) = recent (window l) u key h)"

lemma stale_empty:
  assumes "sorted v" "stale_entry cutoff v" "cutoff \<le> c"
  shows "filter (\<lambda>t. t > c) v = []"
proof -
  have "t \<le> c" if "t \<in> set v" for t
  proof -
    have "t \<le> last v" using assms(1) that
      by (metis append_butlast_last_id empty_iff empty_set order_refl sorted_append Un_iff list.set_intros(1) set_append set_ConsD)
    moreover have "last v \<le> cutoff" using assms(2) that by (auto simp: stale_entry_def)
    ultimately show ?thesis using assms(3) by simp
  qed
  then show ?thesis by (auto simp: filter_empty_conv not_less)
qed

lemma cleanup_agrees:
  assumes "agrees l h now" "now \<le> now'"
  shows "agrees (maybe_cleanup now' l) h now'"
proof -
  have wf: "wf_dict (log_of l)" using assms(1) by (simp add: agrees_def)
  have e: "entries (maybe_cleanup now' l) key = (if now' - last_cleanup l < cleanup_interval l then entries l key
      else if stale_entry (now' - window l) (entries l key) then [] else entries l key)" for key
    using wf by (simp add: maybe_cleanup_def entries_def dget_filter stale_entry_def split: option.split)
  have "filter (\<lambda>t. t > u - window l) (entries l key) = []"
    if "stale_entry (now' - window l) (entries l key)" "now' \<le> u" for u key
    using assms(1) that by (intro stale_empty [OF _ that(1)]) (auto simp: agrees_def)
  then have "filter (\<lambda>t. t > u - window l) (entries (maybe_cleanup now' l) key)
      = filter (\<lambda>t. t > u - window l) (entries l key)" if "now' \<le> u" for u key
    using that by (simp add: e)
  moreover have "window (maybe_cleanup now' l) = window l" by (simp add: maybe_cleanup_def)
  moreover have "wf_dict (log_of (maybe_cleanup now' l))" using wf by (simp add: maybe_cleanup_def wf_filter)
  ultimately show ?thesis using assms by (force simp: agrees_def e)
qed

lemma cleanup_fields [simp]:
  "max_requests (maybe_cleanup now l) = max_requests l" "window (maybe_cleanup now l) = window l"
  by (simp_all add: maybe_cleanup_def)

lemma entries_dset [simp]:
  "entries (l\<lparr>log_of := dset key v (log_of l)\<rparr>) k = (if k = key then v else entries l k)"
  by (simp add: entries_def)

lemma check_agrees:
  assumes "agrees l h now" "now \<le> now'" "0 \<le> window l"
  shows "snd (check now' key l) = (int (length (recent (window l) now' key h)) < max_requests l)"
    and "agrees (fst (check now' key l)) (if snd (check now' key l) then h @ [(now', key)] else h) now'"
    and "window (fst (check now' key l)) = window l" "max_requests (fst (check now' key l)) = max_requests l"
proof -
  let ?l = "maybe_cleanup now' l"
  let ?ts = "filter (\<lambda>t. t > now' - window l) (entries ?l key)"
  have a: "agrees ?l h now'" by (rule cleanup_agrees [OF assms(1,2)])
  then have ts: "?ts = recent (window l) now' key h" by (simp add: agrees_def)
  show s: "snd (check now' key l) = (int (length (recent (window l) now' key h)) < max_requests l)"
    using ts by (simp add: check_def Let_def)
  show "window (fst (check now' key l)) = window l" "max_requests (fst (check now' key l)) = max_requests l"
    by (simp_all add: check_def Let_def)
  have sorted: "sorted ?ts" "\<forall>t \<in> set ?ts. t \<le> now'"
  proof -
    have "sorted (entries ?l key)" "\<forall>t \<in> set (entries ?l key). t \<le> now'" using a by (simp_all add: agrees_def)
    then show "sorted ?ts" "\<forall>t \<in> set ?ts. t \<le> now'" by (simp_all add: sorted_wrt_filter)
  qed
  have keep: "filter (\<lambda>t. t > u - window l) ?ts = recent (window l) u key h" if "now' \<le> u" for u
  proof -
    have "filter (\<lambda>t. t > u - window l) ?ts = filter (\<lambda>t. t > u - window l) (entries ?l key)"
      using that by (auto intro: filter_cong)
    also have "\<dots> = recent (window l) u key h" using a that by (simp add: agrees_def)
    finally show ?thesis .
  qed
  show "agrees (fst (check now' key l)) (if snd (check now' key l) then h @ [(now', key)] else h) now'"
  proof (cases "int (length ?ts) \<ge> max_requests l")
    case True
    then have "check now' key l = (?l\<lparr>log_of := dset key ?ts (log_of ?l)\<rparr>, False)"
      by (simp add: check_def Let_def)
    with a sorted keep show ?thesis by (auto simp: agrees_def)
  next
    case False
    then have c: "check now' key l = (?l\<lparr>log_of := dset key (?ts @ [now']) (log_of ?l)\<rparr>, True)"
      by (simp add: check_def Let_def)
    have "recent w u k (h @ [(now', key)]) = recent w u k h @ (if k = key \<and> now' > u - w then [now'] else [])" for w u k
      by (simp add: recent_def)
    then show ?thesis using a sorted keep by (auto simp: agrees_def c sorted_append)
  qed
qed

lemma answers_reference:
  "agrees l h now \<Longrightarrow> 0 \<le> window l \<Longrightarrow> sorted (now # map fst rs)
     \<Longrightarrow> answers l rs = reference (max_requests l) (window l) h rs"
proof (induction rs arbitrary: l h now)
  case (Cons r rs)
  obtain t key where r: "r = (t, key)" by force
  have t: "now \<le> t" using Cons.prems(3) r by simp
  note c = check_agrees [OF Cons.prems(1) t Cons.prems(2), of key]
  show ?case
    using Cons.IH [OF c(2)] Cons.prems(2,3) c(1) by (simp add: r c(3,4))
qed simp

text \<open>
  Claim C23. With a monotonic clock the limiter answers exactly as the reference that never
  forgets an admitted request: a request is refused if and only if the limit of its own key is
  used up in the current window, whatever was purged or pruned in between.
\<close>

theorem limiter_is_reference:
  assumes "0 \<le> window_seconds" and "sorted (start # map fst rs)"
  shows "answers (new_limiter n window_seconds start) rs = reference n (window_seconds * 1000000) [] rs"
proof -
  have "agrees (new_limiter n window_seconds start) [] start"
    by (simp add: agrees_def new_limiter_def entries_def recent_def)
  from answers_reference [OF this _ assms(2)] show ?thesis using assms(1) by (simp add: new_limiter_def)
qed

theorem limiter_is_reference_witness:
  "answers (new_limiter 1 60 0) [(5, ''a''), (6, ''a''), (200000000, ''a'')]
     = reference 1 60000000 [] [(5, ''a''), (6, ''a''), (200000000, ''a'')]"
  using limiter_is_reference [of 60 0 "[(5, ''a''), (6, ''a''), (200000000, ''a'')]" 1] by simp

section \<open>The bound\<close>

lemma reference_bound:
  assumes "sorted (now # map fst rs)" "\<forall>t \<in> fst ` set h. t \<le> now" "0 \<le> n" "0 \<le> w"
    and "\<And>u. int (length (filter (\<lambda>t. t \<le> u) (recent w u key h))) \<le> n"
  shows "int (length (filter (\<lambda>t. t \<le> u) (recent w u key (h @ admitted (reference n w h rs) rs)))) \<le> n"
  using assms
proof (induction rs arbitrary: h now)
  case Nil
  then show ?case by (simp add: admitted_def)
next
  case (Cons r rs)
  obtain t k where r: "r = (t, k)" by force
  have t: "now \<le> t" and s: "sorted (t # map fst rs)" using Cons.prems(1) r by auto
  show ?case
  proof (cases "int (length (recent w t k h)) < n")
    case False
    have "\<forall>x \<in> fst ` set h. x \<le> t" using Cons.prems(2) t by auto
    from Cons.IH [OF s this Cons.prems(3-5)] False show ?thesis by (simp add: r admitted_def)
  next
    case True
    let ?h = "h @ [(t, k)]"
    have rec: "recent w v key ?h = recent w v key h @ (if k = key \<and> t > v - w then [t] else [])" for v
      by (simp add: recent_def)
    have le: "\<forall>x \<in> fst ` set h. x \<le> t" using Cons.prems(2) t by auto
    have "int (length (filter (\<lambda>x. x \<le> v) (recent w v key ?h))) \<le> n" for v
    proof (cases "k = key \<and> v - w < t \<and> t \<le> v")
      case False
      then show ?thesis using Cons.prems(5) [of v] by (auto simp: rec)
    next
      case c: True
      have "recent w v key h = filter (\<lambda>x. x > v - w) (recent w t k h)"
        using c by (auto simp: recent_def intro: filter_cong)
      then have "length (filter (\<lambda>x. x \<le> v) (recent w v key h)) \<le> length (recent w t k h)"
        by (metis length_filter_le le_trans)
      then have "int (length (filter (\<lambda>x. x \<le> v) (recent w v key h))) + 1 \<le> n"
        using c True by simp
      then show ?thesis using c by (simp add: recent_def)
    qed
    from Cons.IH [OF s _ Cons.prems(3,4) this] le True show ?thesis
      by (simp add: r admitted_def)
  qed
qed

text \<open>
  The limiter's promise: with a monotonic clock and a limit of \<open>n\<close>, no window of
  the given length, ending at any moment, ever contains more than \<open>n\<close> admitted requests of
  one key.
\<close>

theorem limiter_window_bound:
  assumes "0 \<le> n" and "0 \<le> window_seconds" and "sorted (start # map fst rs)"
  shows "int (length (filter (\<lambda>(t, k). k = key \<and> u - window_seconds * 1000000 < t \<and> t \<le> u)
    (admitted (answers (new_limiter n window_seconds start) rs) rs))) \<le> n"
proof -
  let ?w = "window_seconds * 1000000"
  have e: "length (filter (\<lambda>(t, k). k = key \<and> u - ?w < t \<and> t \<le> u) h)
      = length (filter (\<lambda>t. t \<le> u) (recent ?w u key h))" for h
    by (induction h) (auto simp: recent_def)
  have base: "\<And>u. int (length (filter (\<lambda>t. t \<le> u) (recent ?w u key []))) \<le> n"
    using assms(1) by (simp add: recent_def)
  show ?thesis
    using reference_bound [OF assms(3) _ assms(1) _ base, of u] assms(2)
    unfolding limiter_is_reference [OF assms(2,3)] e by simp
qed

theorem limiter_window_bound_witness:
  "int (length (filter (\<lambda>(t, k). k = ''a'' \<and> 10 - 60 * 1000000 < t \<and> t \<le> 10)
    (admitted (answers (new_limiter 1 60 0) [(5, ''a''), (6, ''a'')]) [(5, ''a''), (6, ''a'')]))) \<le> 1"
  by (rule limiter_window_bound) simp_all

end
