(* ===== verification/WorkerBroker.thy ===== *)
theory WorkerBroker
  imports PyValue
begin

text \<open>
  \<open>src/agent_worker_broker.py\<close> and the part of \<open>src/agent_worker_adapters.py\<close> it rests on:
  the durable broker of read-only worker tasks. A remote worker is what it answers: the reply
  to a start, a status, the events of its stream, each of which may fail; the answers are
  arguments of the operations. A coroutine is split where it awaits a worker, so a run is a
  list of pieces of concurrent requests. Moments are seconds.
\<close>

section \<open>Rows\<close>

record worker_event =
  e_seq :: int
  e_id :: string
  e_task :: string
  e_worker :: string
  e_type :: string
  e_text :: string
  e_meta :: "pyval dict"
  e_created :: int

record worker_task =
  t_id :: string
  t_remote :: "string option"
  t_worker :: string
  t_session :: string
  t_workspace :: string
  t_permission :: string
  t_approved :: bool
  t_thread :: "string option"
  t_session_key :: "string option"
  t_status :: string
  t_result :: "string option"
  t_error :: "string option"
  t_owner :: string
  t_events :: "worker_event list"
  t_created :: int
  t_updated :: int

record worker_binding =
  wb_thread :: string
  wb_key :: string
  wb_updated :: int

text \<open>A mirror streams (its attempt is counted) or polls the worker until a deadline.\<close>

datatype mirror = Mirror_stream nat | Mirror_poll int

record broker =
  tasks :: "worker_task dict"
  bindings :: "worker_binding dict"
  mirrors :: "mirror dict"
  starting :: "worker_task dict"   \<comment> \<open>the local copies of \<open>start_task\<close> calls that await a worker\<close>

definition empty_broker :: broker where
  "empty_broker = \<lparr>tasks = [], bindings = [], mirrors = [], starting = []\<rparr>"

definition WORKER_IDS :: "string list" where
  "WORKER_IDS = [''pc-codex'', ''hermes'', ''vps-codex'']"

definition TERMINAL :: "string list" where
  "TERMINAL = [''completed'', ''failed'', ''cancelled'', ''blocked'']"

definition EVENT_TYPES :: "string list" where
  "EVENT_TYPES = [''accepted'', ''progress'', ''tool_activity'', ''question'', ''approval_required'', ''result'',
     ''error'', ''cancelled'']"

definition STREAM_RETRY_LIMIT :: nat where "STREAM_RETRY_LIMIT = 2"

abbreviation terminal :: "worker_task \<Rightarrow> bool" where
  "terminal t \<equiv> t_status t \<in> set TERMINAL"

section \<open>The adapters' contract\<close>

definition require_read_only :: "string \<Rightarrow> bool \<Rightarrow> bool" where
  "require_read_only permission_mode approved \<longleftrightarrow> permission_mode = ''read_only'' \<and> \<not> approved"

text \<open>The error of \<open>require_worker_task_permission\<close>, if any; \<open>mutations\<close> is the private setting.\<close>

definition worker_task_permission :: "bool \<Rightarrow> string \<Rightarrow> bool \<Rightarrow> py_exc option" where
  "worker_task_permission mutations permission_mode approved =
     (if permission_mode = ''read_only'' \<and> \<not> approved then None
      else if permission_mode = ''workspace_write'' \<and> mutations then
        (if \<not> approved then Some (PermissionError ''approval_required'') else None)
      else Some (PermissionError ''public_tasks_read_only''))"

definition validated_approval_choice :: "bool \<Rightarrow> worker_task \<Rightarrow> string \<Rightarrow> string result" where
  "validated_approval_choice mutations t given =
     (let permission_mode = (if t_permission t = [] then ''read_only'' else t_permission t);
          choice = (if given = [] then ''deny'' else given) in
      case worker_task_permission mutations permission_mode (t_approved t) of
        Some e \<Rightarrow> Inl e
      | None \<Rightarrow>
          if choice \<notin> set [''once'', ''session'', ''always'', ''deny''] then Inl (ValueError ''invalid_approval_choice'')
          else if permission_mode = ''read_only'' \<and> choice \<noteq> ''deny''
            then Inl (PermissionError ''read_only_task_approval_must_deny'')
          else Inr choice)"

definition last_remote_event_id :: "worker_task \<Rightarrow> string" where
  "last_remote_event_id t =
     (case find (\<lambda>i. i \<noteq> []) (map (\<lambda>e. str_or (pget (e_meta e) ''remote_event_id'')) (rev (t_events t))) of
        None \<Rightarrow> [] | Some i \<Rightarrow> i)"

text \<open>What a start returns: it is merged into the local task.\<close>

record worker_reply =
  w_remote :: string
  w_status :: string
  w_thread :: "string option option"
  w_key :: "string option"

definition codex_reply :: "pyval dict \<Rightarrow> worker_reply" where
  "codex_reply remote =
     \<lparr>w_remote = py_str (pget remote ''task_id''), w_status = py_str (pget_or remote ''status'' (PStr ''queued'')),
      w_thread = Some (case pget remote ''codex_thread_id'' of PNone \<Rightarrow> None | v \<Rightarrow> Some (py_str v)), w_key = None\<rparr>"

definition hermes_session_key :: "worker_task \<Rightarrow> string" where
  "hermes_session_key t =
     (case t_session_key t of
        Some k \<Rightarrow> if k \<noteq> [] then k else ''odysseus:'' @ t_session t @ '':'' @ t_workspace t
      | None \<Rightarrow> ''odysseus:'' @ t_session t @ '':'' @ t_workspace t)"

definition hermes_reply :: "worker_task \<Rightarrow> pyval dict \<Rightarrow> worker_reply" where
  "hermes_reply t remote =
     \<lparr>w_remote = py_str (pget remote ''run_id''), w_status = ''queued'', w_thread = None,
      w_key = Some (hermes_session_key t)\<rparr>"

section \<open>Owners\<close>

text \<open>
  \<open>sessions\<close> is the attached session manager, if any: the owner of a session, \<open>None\<close> when
  the lookup fails.
\<close>

record broker_env =
  sessions :: "(string \<Rightarrow> string option) option"
  enabled :: "string \<Rightarrow> bool"
  worker_label :: "string \<Rightarrow> string"
  reconcile_timeout :: int

definition session_for_owner :: "broker_env \<Rightarrow> string \<Rightarrow> string \<Rightarrow> unit result" where
  "session_for_owner env session_id owner =
     (if strip owner = [] then Inl (PermissionError ''owner_required'')
      else case sessions env of
        None \<Rightarrow> Inl (RuntimeError ''session_manager_unavailable'')
      | Some get \<Rightarrow>
          (case get session_id of
             None \<Rightarrow> Inl (KeyError session_id)
           | Some o' \<Rightarrow> if o' \<noteq> strip owner then Inl (PermissionError ''session_owner_mismatch'') else Inr ()))"

definition require_task_owner :: "broker_env \<Rightarrow> string \<Rightarrow> string \<Rightarrow> broker \<Rightarrow> worker_task result" where
  "require_task_owner env task_id owner s =
     (if strip owner = [] then Inl (PermissionError ''owner_required'')
      else case dget (tasks s) task_id of
        None \<Rightarrow> Inl (KeyError task_id)
      | Some t \<Rightarrow>
          if t_owner t \<noteq> strip owner then Inl (PermissionError ''task_owner_mismatch'')
          else (case session_for_owner env (t_session t) (strip owner) of
                  Inl e \<Rightarrow> Inl e
                | Inr _ \<Rightarrow> Inr t))"

text \<open>\<open>configure\<close>: tasks without an owner get the owner of their chat.\<close>

definition backfill_owner :: "(string \<Rightarrow> string option) \<Rightarrow> worker_task \<Rightarrow> worker_task" where
  "backfill_owner get t =
     (if t_owner t \<noteq> [] \<or> t_session t = [] then t
      else case get (t_session t) of
        None \<Rightarrow> t
      | Some o' \<Rightarrow> if strip o' = [] then t else t\<lparr>t_owner := strip o'\<rparr>)"

definition configure :: "(string \<Rightarrow> string option) \<Rightarrow> broker \<Rightarrow> broker" where
  "configure get s = s\<lparr>tasks := dmap (backfill_owner get) (tasks s)\<rparr>"

section \<open>Bindings\<close>

definition binding_key :: "worker_task \<Rightarrow> string" where
  "binding_key t = t_owner t @ '':'' @ t_session t @ '':'' @ t_worker t @ '':'' @ t_workspace t"

definition or_empty_text :: "string option \<Rightarrow> string" where
  "or_empty_text x = (case x of None \<Rightarrow> [] | Some s \<Rightarrow> s)"

definition save_binding :: "int \<Rightarrow> worker_task \<Rightarrow> string \<Rightarrow> string \<Rightarrow> broker \<Rightarrow> broker" where
  "save_binding now t thread key s =
     (if thread = [] \<and> key = [] then s
      else let old = (case dget (bindings s) (binding_key t) of
                        None \<Rightarrow> \<lparr>wb_thread = [], wb_key = [], wb_updated = now\<rparr> | Some b \<Rightarrow> b) in
           s\<lparr>bindings := dset (binding_key t)
               \<lparr>wb_thread = (if thread = [] then wb_thread old else thread),
                wb_key = (if key = [] then wb_key old else key), wb_updated = now\<rparr> (bindings s)\<rparr>)"

section \<open>Events\<close>

definition next_seq :: "worker_event list \<Rightarrow> int" where
  "next_seq evs = (if evs = [] then 0 else e_seq (last evs) + 1)"

definition event_id_of :: "string \<Rightarrow> pyval dict \<Rightarrow> string" where
  "event_id_of fresh incoming =
     take 200 (if truthy (pget incoming ''event_id'') then py_str (pget incoming ''event_id'') else fresh)"

definition make_event :: "string \<Rightarrow> int \<Rightarrow> worker_task \<Rightarrow> pyval dict \<Rightarrow> worker_event" where
  "make_event fresh now t incoming =
     \<lparr>e_seq = next_seq (t_events t), e_id = event_id_of fresh incoming, e_task = t_id t, e_worker = t_worker t,
      e_type = str_or (pget incoming ''type''), e_text = take 12000 (str_or (pget incoming ''text'')),
      e_meta = (case py_dict (pget incoming ''metadata'') of Inr d \<Rightarrow> d | Inl _ \<Rightarrow> []), e_created = now\<rparr>"

definition apply_event :: "worker_event \<Rightarrow> worker_task \<Rightarrow> worker_task" where
  "apply_event e t0 =
     (let t = t0\<lparr>t_events := t_events t0 @ [e], t_updated := e_created e\<rparr>;
          t' = (if e_type e = ''result'' then t\<lparr>t_status := ''completed'', t_result := Some (e_text e), t_error := None\<rparr>
            else if e_type e = ''error'' then t\<lparr>t_status := ''failed'', t_error := Some (e_text e)\<rparr>
            else if e_type e = ''cancelled'' then t\<lparr>t_status := ''cancelled''\<rparr>
            else if e_type e = ''question'' then t\<lparr>t_status := ''waiting''\<rparr>
            else if e_type e = ''approval_required'' then t\<lparr>t_status := ''waiting_approval''\<rparr>
            else t\<lparr>t_status := ''running''\<rparr>);
          thread = str_or (pget (e_meta e) ''codex_thread_id'') in
      if thread = [] then t' else t'\<lparr>t_thread := Some thread\<rparr>)"

text \<open>Whether the event was appended; the copy of its metadata raises when they are not a mapping.\<close>

definition append_event :: "string \<Rightarrow> int \<Rightarrow> string \<Rightarrow> pyval dict \<Rightarrow> broker \<Rightarrow> broker \<times> bool result" where
  "append_event fresh now task_id incoming s =
     (case dget (tasks s) task_id of
        None \<Rightarrow> (s, Inr False)
      | Some t \<Rightarrow>
          if terminal t then (s, Inr False)
          else if event_id_of fresh incoming \<in> e_id ` set (t_events t) then (s, Inr False)
          else if str_or (pget incoming ''type'') \<notin> set EVENT_TYPES then (s, Inr False)
          else case py_dict (pget incoming ''metadata'') of
              Inl x \<Rightarrow> (s, Inl x)
            | Inr _ \<Rightarrow>
                let e = make_event fresh now t incoming; t' = apply_event e t in
                (save_binding now t' (str_or (pget (e_meta e) ''codex_thread_id'')) []
                   (s\<lparr>tasks := dset task_id t' (tasks s)\<rparr>), Inr True))"

section \<open>Queries\<close>

definition opt_str :: "string option \<Rightarrow> pyval" where
  "opt_str x = (case x of None \<Rightarrow> PNone | Some s \<Rightarrow> PStr s)"

definition event_value :: "worker_event \<Rightarrow> pyval" where
  "event_value e = PDict [(''seq'', PInt (e_seq e)), (''event_id'', PStr (e_id e)), (''task_id'', PStr (e_task e)),
     (''worker'', PStr (e_worker e)), (''type'', PStr (e_type e)), (''text'', PStr (e_text e)),
     (''metadata'', PDict (e_meta e)), (''created_at'', PInt (e_created e))]"

definition public_task :: "worker_task \<Rightarrow> pyval dict" where
  "public_task t = [(''task_id'', PStr (t_id t)), (''worker'', PStr (t_worker t)), (''session_id'', PStr (t_session t)),
     (''workspace'', PStr (t_workspace t)), (''permission_mode'', PStr (t_permission t)),
     (''status'', PStr (t_status t)), (''result'', opt_str (t_result t)), (''error'', opt_str (t_error t)),
     (''codex_thread_id'', opt_str (t_thread t)), (''events'', PList (map event_value (t_events t))),
     (''created_at'', PInt (t_created t)), (''updated_at'', PInt (t_updated t))]"

definition task_events :: "string \<Rightarrow> int \<Rightarrow> broker \<Rightarrow> worker_event list" where
  "task_events task_id after s =
     (case dget (tasks s) task_id of None \<Rightarrow> [] | Some t \<Rightarrow> filter (\<lambda>e. e_seq e > after) (t_events t))"

text \<open>Newest first; equal moments keep the order of the store.\<close>

definition list_tasks :: "broker_env \<Rightarrow> string \<Rightarrow> string \<Rightarrow> bool \<Rightarrow> broker \<Rightarrow> worker_task list result" where
  "list_tasks env session_id owner active_only s =
     (case session_for_owner env session_id owner of
        Inl e \<Rightarrow> Inl e
      | Inr _ \<Rightarrow> Inr (take 100 (sort_key (\<lambda>t. - t_updated t) (sort_key (\<lambda>t. - t_created t)
          (filter (\<lambda>t. t_session t = session_id \<and> t_owner t = owner \<and> (active_only \<longrightarrow> \<not> terminal t))
             (dvals (tasks s)))))))"

definition find_active_task :: "broker_env \<Rightarrow> string \<Rightarrow> string \<Rightarrow> string \<Rightarrow> broker \<Rightarrow> worker_task option result" where
  "find_active_task env session_id worker owner s =
     (if worker \<notin> set WORKER_IDS then Inl (ValueError ''unknown_worker'')
      else case list_tasks env session_id owner True s of
        Inl e \<Rightarrow> Inl e
      | Inr ts \<Rightarrow> Inr (find (\<lambda>t. t_worker t = worker) ts))"

section \<open>Starting\<close>

definition ensure_mirror :: "string \<Rightarrow> broker \<Rightarrow> broker" where
  "ensure_mirror task_id s =
     (case dget (tasks s) task_id of
        None \<Rightarrow> s
      | Some t \<Rightarrow> if terminal t \<or> dget (mirrors s) task_id \<noteq> None then s
                  else s\<lparr>mirrors := dset task_id (Mirror_stream 0) (mirrors s)\<rparr>)"

definition new_task :: "string \<Rightarrow> int \<Rightarrow> string \<Rightarrow> string \<Rightarrow> string \<Rightarrow> string \<Rightarrow> broker \<Rightarrow> worker_task" where
  "new_task new_id now worker session_id workspace identity s =
     (let b = dget (bindings s) (identity @ '':'' @ session_id @ '':'' @ worker @ '':'' @ workspace);
          opt = (\<lambda>x. if x = [] then None else Some x) in
      \<lparr>t_id = new_id, t_remote = None, t_worker = worker, t_session = session_id, t_workspace = workspace,
       t_permission = ''read_only'', t_approved = False,
       t_thread = Option.bind b (\<lambda>x. opt (wb_thread x)), t_session_key = Option.bind b (\<lambda>x. opt (wb_key x)),
       t_status = ''queued'', t_result = None, t_error = None, t_owner = identity, t_events = [],
       t_created = now, t_updated = now\<rparr>)"

text \<open>\<open>start_task\<close> up to its await: the task is saved and the local copy kept.\<close>

definition start_begin ::
    "broker_env \<Rightarrow> string \<Rightarrow> int \<Rightarrow> string \<Rightarrow> string \<Rightarrow> string \<Rightarrow> string \<Rightarrow> bool \<Rightarrow> string \<Rightarrow> broker
     \<Rightarrow> broker \<times> worker_task result" where
  "start_begin env new_id now worker session_id workspace permission_mode approved owner s =
     (case session_for_owner env session_id (strip owner) of
        Inl e \<Rightarrow> (s, Inl e)
      | Inr _ \<Rightarrow>
          if worker \<notin> set WORKER_IDS then (s, Inl (ValueError ''unknown_worker''))
          else if \<not> require_read_only permission_mode approved
            then (s, Inl (PermissionError ''public_tasks_read_only''))
          else if \<not> enabled env worker then (s, Inl (WorkerUnavailable ''worker_not_configured''))
          else let t = new_task new_id now worker session_id workspace (strip owner) s in
               (s\<lparr>tasks := dset new_id t (tasks s), starting := dset new_id t (starting s)\<rparr>, Inr t))"

definition start_failed_event :: "string \<Rightarrow> pyval dict" where
  "start_failed_event task_id =
     [(''event_id'', PStr (''start-failed:'' @ task_id)), (''type'', PStr ''error''),
      (''text'', PStr ''The configured worker could not accept the task.''),
      (''metadata'', PDict [(''source'', PStr ''worker_start'')])]"

definition start_failed :: "string \<Rightarrow> int \<Rightarrow> string \<Rightarrow> broker \<Rightarrow> broker" where
  "start_failed fresh now task_id s =
     (case dget (starting s) task_id of
        None \<Rightarrow> s
      | Some _ \<Rightarrow> fst (append_event fresh now task_id (start_failed_event task_id)
                   (s\<lparr>starting := dpop task_id (starting s)\<rparr>)))"

definition merge_reply :: "worker_reply \<Rightarrow> worker_task \<Rightarrow> worker_task" where
  "merge_reply w t =
     t\<lparr>t_remote := Some (w_remote w), t_status := w_status w,
       t_thread := (case w_thread w of None \<Rightarrow> t_thread t | Some x \<Rightarrow> x),
       t_session_key := (case w_key w of None \<Rightarrow> t_session_key t | Some k \<Rightarrow> Some k)\<rparr>"

definition accepted_event :: "broker_env \<Rightarrow> worker_task \<Rightarrow> pyval dict" where
  "accepted_event env t =
     [(''event_id'', PStr (''accepted:'' @ t_id t)), (''type'', PStr ''accepted''),
      (''text'', PStr (worker_label env (t_worker t) @ '' accepted the task.'')), (''metadata'', PDict [])]"

text \<open>\<open>start_task\<close> after its await: the local copy, merged with the reply, is saved.\<close>

definition start_accepted :: "broker_env \<Rightarrow> string \<Rightarrow> int \<Rightarrow> string \<Rightarrow> worker_reply \<Rightarrow> broker \<Rightarrow> broker" where
  "start_accepted env fresh now task_id w s =
     (case dget (starting s) task_id of
        None \<Rightarrow> s
      | Some local \<Rightarrow>
          let t = merge_reply w local;
              s1 = s\<lparr>tasks := dset task_id t (tasks s), starting := dpop task_id (starting s)\<rparr>;
              s2 = fst (append_event fresh now task_id (accepted_event env t) s1);
              s3 = save_binding now t (or_empty_text (t_thread t)) (or_empty_text (t_session_key t)) s2
          in ensure_mirror task_id s3)"

section \<open>Refreshing and mirroring\<close>

definition terminal_event :: "string \<Rightarrow> pyval dict \<Rightarrow> pyval dict option" where
  "terminal_event task_id remote =
     (let status = str_or (pget remote ''status'');
          event = (\<lambda>ty text. [(''event_id'', PStr (''reconciled:'' @ task_id @ '':'' @ status)), (''type'', PStr ty),
             (''text'', PStr text), (''metadata'', PDict [(''reconciled'', PBool True)])]) in
      if status = ''completed'' then
        Some (event ''result'' (let out = py_or (pget remote ''output'') (pget remote ''result'') in
          if truthy out then py_str out else ''Worker completed the task.''))
      else if status = ''failed'' then Some (event ''error'' ''Worker could not complete the task.'')
      else if status = ''cancelled'' then Some (event ''cancelled'' ''Worker cancelled the task.'')
      else None)"

text \<open>The worker's status, \<open>None\<close> when asking for it fails, is turned into a terminal event.\<close>

definition reconcile :: "string \<Rightarrow> int \<Rightarrow> string \<Rightarrow> pyval dict option \<Rightarrow> broker \<Rightarrow> broker" where
  "reconcile fresh now task_id remote s =
     (case Option.bind remote (terminal_event task_id) of
        None \<Rightarrow> s
      | Some event \<Rightarrow> fst (append_event fresh now task_id event s))"

definition refresh_task ::
    "broker_env \<Rightarrow> string \<Rightarrow> int \<Rightarrow> string \<Rightarrow> string \<Rightarrow> bool \<Rightarrow> pyval dict option \<Rightarrow> broker
     \<Rightarrow> broker \<times> worker_task result" where
  "refresh_task env fresh now task_id owner ensure_stream remote s =
     (case require_task_owner env task_id owner s of
        Inl e \<Rightarrow> (s, Inl e)
      | Inr t \<Rightarrow>
          let s1 = (if terminal t then s else reconcile fresh now task_id remote s);
              s2 = (if ensure_stream then ensure_mirror task_id s1 else s1) in
          (s2, Inr (case dget (tasks s2) task_id of None \<Rightarrow> t | Some t' \<Rightarrow> t')))"

definition task_over :: "string \<Rightarrow> broker \<Rightarrow> bool" where
  "task_over task_id s = (case dget (tasks s) task_id of None \<Rightarrow> True | Some t \<Rightarrow> terminal t)"

definition task_terminal :: "string \<Rightarrow> broker \<Rightarrow> bool" where
  "task_terminal task_id s = (case dget (tasks s) task_id of None \<Rightarrow> False | Some t \<Rightarrow> terminal t)"

definition end_mirror :: "string \<Rightarrow> broker \<Rightarrow> broker" where
  "end_mirror task_id s = s\<lparr>mirrors := dpop task_id (mirrors s)\<rparr>"

text \<open>
  What a mirror experiences: an event of the stream, the stream's end or failure, an answer
  to a poll with the clock before its deadline check, or its cancellation.
\<close>

datatype mirror_input =
    Stream_event "pyval dict"
  | Stream_end
  | Stream_failed
  | Poll "pyval dict option"
  | Mirror_cancelled

definition timeout_event :: "string \<Rightarrow> pyval dict" where
  "timeout_event task_id =
     [(''event_id'', PStr (''stream-timeout:'' @ task_id)), (''type'', PStr ''error''),
      (''text'', PStr ''Worker status could not be confirmed after the event stream ended.''),
      (''metadata'', PDict [(''source'', PStr ''worker_stream''), (''reconciliation_timeout'', PBool True)])]"

definition next_attempt :: "broker_env \<Rightarrow> int \<Rightarrow> string \<Rightarrow> nat \<Rightarrow> broker \<Rightarrow> broker" where
  "next_attempt env now task_id k s =
     (if k < STREAM_RETRY_LIMIT then
        (if task_over task_id s then end_mirror task_id s
         else s\<lparr>mirrors := dset task_id (Mirror_stream (Suc k)) (mirrors s)\<rparr>)
      else if task_over task_id s then end_mirror task_id s
      else s\<lparr>mirrors := dset task_id (Mirror_poll (now + reconcile_timeout env)) (mirrors s)\<rparr>)"

definition poll_worker :: "broker_env \<Rightarrow> string \<Rightarrow> int \<Rightarrow> string \<Rightarrow> int \<Rightarrow> pyval dict option \<Rightarrow> broker \<Rightarrow> broker" where
  "poll_worker env fresh now task_id deadline remote s =
     (case dget (tasks s) task_id of
        None \<Rightarrow> end_mirror task_id s
      | Some t \<Rightarrow>
          if terminal t then end_mirror task_id s
          else (case refresh_task env fresh now task_id (t_owner t) False remote s of
                  (s', Inl e) \<Rightarrow> end_mirror task_id s'
                | (s', Inr _) \<Rightarrow>
                    if task_over task_id s' then end_mirror task_id s'
                    else if deadline - now \<le> 0 then
                      end_mirror task_id (fst (append_event fresh now task_id (timeout_event task_id) s'))
                    else s'))"

text \<open>An event of the stream; when it cannot be appended the stream counts as failed.\<close>

definition mirror_event :: "broker_env \<Rightarrow> string \<Rightarrow> int \<Rightarrow> string \<Rightarrow> nat \<Rightarrow> pyval dict \<Rightarrow> broker \<Rightarrow> broker" where
  "mirror_event env fresh now task_id k event s =
     (case append_event fresh now task_id event s of
        (s', Inl _) \<Rightarrow> next_attempt env now task_id k s'
      | (s', Inr _) \<Rightarrow> s')"

definition mirror_step :: "broker_env \<Rightarrow> string \<Rightarrow> int \<Rightarrow> string \<Rightarrow> mirror_input \<Rightarrow> broker \<Rightarrow> broker" where
  "mirror_step env fresh now task_id input s =
     (case (dget (mirrors s) task_id, input) of
        (None, _) \<Rightarrow> s
      | (Some _, Mirror_cancelled) \<Rightarrow> end_mirror task_id s
      | (Some (Mirror_stream k), Stream_event event) \<Rightarrow>
          if task_terminal task_id s then end_mirror task_id s
          else mirror_event env fresh now task_id k event s
      | (Some (Mirror_stream k), Stream_end) \<Rightarrow>
          if task_terminal task_id s then end_mirror task_id s else next_attempt env now task_id k s
      | (Some (Mirror_stream k), Stream_failed) \<Rightarrow> next_attempt env now task_id k s
      | (Some (Mirror_poll deadline), Poll remote) \<Rightarrow> poll_worker env fresh now task_id deadline remote s
      | (Some _, _) \<Rightarrow> s)"

section \<open>Actions\<close>

text \<open>What an action sends to the worker.\<close>

datatype worker_call =
    Call_steer string "pyval dict"
  | Call_reply string "pyval dict"
  | Call_approve string string
  | Call_cancel string

definition action_call :: "string \<Rightarrow> string \<Rightarrow> pyval dict \<Rightarrow> worker_call result" where
  "action_call task_id action payload =
     (if action = ''steer'' then Inr (Call_steer task_id payload)
      else if action = ''reply'' then Inr (Call_reply task_id payload)
      else if action = ''approval'' then
        (if pget payload ''choice'' \<noteq> PStr ''deny'' then Inl (PermissionError ''read_only_task_approval_must_deny'')
         else Inr (Call_approve task_id ''deny''))
      else if action = ''cancel'' then Inr (Call_cancel task_id)
      else Inl (ValueError ''unknown_task_action''))"

text \<open>\<open>task_action\<close> up to the call of the worker: an early answer, an error, or a call.\<close>

definition action_begin ::
    "broker_env \<Rightarrow> string \<Rightarrow> string \<Rightarrow> pyval dict \<Rightarrow> string \<Rightarrow> broker \<Rightarrow> (worker_task + worker_call) result" where
  "action_begin env task_id action payload owner s =
     (case require_task_owner env task_id owner s of
        Inl e \<Rightarrow> Inl e
      | Inr t \<Rightarrow>
          if terminal t then Inr (Inl t)
          else (case action_call task_id action payload of Inl e \<Rightarrow> Inl e | Inr c \<Rightarrow> Inr (Inr c)))"

definition cancel_event :: "string \<Rightarrow> pyval dict" where
  "cancel_event task_id =
     [(''event_id'', PStr (''cancel:'' @ task_id)), (''type'', PStr ''cancelled''),
      (''text'', PStr ''Worker task cancelled.''), (''metadata'', PDict [(''source'', PStr ''user'')])]"

text \<open>After the worker accepted the call.\<close>

definition action_done ::
    "broker_env \<Rightarrow> string \<Rightarrow> int \<Rightarrow> string \<Rightarrow> worker_call \<Rightarrow> string \<Rightarrow> pyval dict option \<Rightarrow> broker \<Rightarrow> broker" where
  "action_done env fresh now task_id c owner remote s =
     (case c of
        Call_cancel _ \<Rightarrow> fst (append_event fresh now task_id (cancel_event task_id) s)
      | _ \<Rightarrow> fst (refresh_task env fresh now task_id owner True remote (ensure_mirror task_id s)))"

section \<open>Streaming to a client\<close>

definition event_line :: "worker_event \<Rightarrow> string" where
  "event_line e = ''id: '' @ show_int (e_seq e) @ [CHR 0x0A] @ ''data: '' @ dumps_unicode (event_value e)
     @ [CHR 0x0A, CHR 0x0A]"

text \<open>One round of the loop: the events after the cursor, the new cursor, whether the loop ends.\<close>

definition stream_round :: "string \<Rightarrow> int \<Rightarrow> broker \<Rightarrow> worker_event list \<times> int" where
  "stream_round task_id cursor s =
     (let evs = task_events task_id cursor s in (evs, if evs = [] then cursor else e_seq (last evs)))"

definition stream_over :: "string \<Rightarrow> int \<Rightarrow> broker \<Rightarrow> bool" where
  "stream_over task_id cursor s =
     (case dget (tasks s) task_id of
        None \<Rightarrow> True
      | Some t \<Rightarrow> terminal t \<and> task_events task_id cursor s = [])"

section \<open>Runs\<close>

datatype broker_op =
    B_configure "string \<Rightarrow> string option"
  | B_start broker_env string int string string string string bool string
  | B_failed string int string
  | B_accepted broker_env string int string worker_reply
  | B_refresh broker_env string int string string bool "pyval dict option"
  | B_mirror broker_env string int string mirror_input
  | B_action broker_env string int string worker_call string "pyval dict option"
  | B_watch string

fun broker_step :: "broker \<Rightarrow> broker_op \<Rightarrow> broker" where
  "broker_step s (B_configure get) = configure get s"
| "broker_step s (B_start env new_id now worker session_id workspace mode approved owner) =
     fst (start_begin env new_id now worker session_id workspace mode approved owner s)"
| "broker_step s (B_failed fresh now task_id) = start_failed fresh now task_id s"
| "broker_step s (B_accepted env fresh now task_id w) = start_accepted env fresh now task_id w s"
| "broker_step s (B_refresh env fresh now task_id owner ensure remote) =
     fst (refresh_task env fresh now task_id owner ensure remote s)"
| "broker_step s (B_mirror env fresh now task_id input) = mirror_step env fresh now task_id input s"
| "broker_step s (B_action env fresh now task_id c owner remote) = action_done env fresh now task_id c owner remote s"
| "broker_step s (B_watch task_id) = ensure_mirror task_id s"

text \<open>
  A client's loop among the operations of others: in each round \<open>xs\<close> happen after it took the list of
  events and before it looks whether the task is over, and \<open>ys\<close> while it sleeps. It is watched for as many
  rounds as there are pairs, and for the list of events it takes after them.
\<close>

fun stream_client :: "string \<Rightarrow> int \<Rightarrow> broker \<Rightarrow> (broker_op list \<times> broker_op list) list \<Rightarrow> worker_event list" where
  "stream_client task_id cursor s [] = fst (stream_round task_id cursor s)"
| "stream_client task_id cursor s ((xs, ys) # later) =
     (case stream_round task_id cursor s of (evs, cursor') \<Rightarrow>
        let s' = run broker_step s xs
        in evs @ (if stream_over task_id cursor' s' then [] else stream_client task_id cursor' (run broker_step s' ys) later))"

definition rounds_ops :: "(broker_op list \<times> broker_op list) list \<Rightarrow> broker_op list" where
  "rounds_ops segments = concat (map (\<lambda>(xs, ys). xs @ ys) segments)"

section \<open>What every operation keeps\<close>

text \<open>Events are numbered from zero without gaps, with distinct identifiers.\<close>

definition numbered :: "worker_event list \<Rightarrow> bool" where
  "numbered evs \<longleftrightarrow> map e_seq evs = map int [0..<length evs] \<and> distinct (map e_id evs)"

lemma numbered_Nil [simp]: "numbered []"
  by (simp add: numbered_def)

lemma numbered_next: "numbered evs \<Longrightarrow> next_seq evs = int (length evs)"
proof -
  assume n: "numbered evs"
  show ?thesis
  proof (cases "evs = []")
    case False
    then have "e_seq (last evs) = last (map e_seq evs)" by (simp add: last_map)
    also have "\<dots> = int (length evs - 1)" using n False by (simp add: numbered_def last_map del: upt_Suc)
    finally show ?thesis using False by (simp add: next_seq_def of_nat_diff Suc_le_eq)
  qed (simp add: next_seq_def)
qed

lemma numbered_snoc:
  "numbered evs \<Longrightarrow> e_seq e = next_seq evs \<Longrightarrow> e_id e \<notin> e_id ` set evs \<Longrightarrow> numbered (evs @ [e])"
  using numbered_next [of evs] by (auto simp: numbered_def)

definition task_ok :: "string \<Rightarrow> worker_task \<Rightarrow> bool" where
  "task_ok k t \<longleftrightarrow> t_id t = k \<and> numbered (t_events t) \<and> t_permission t = ''read_only'' \<and> \<not> t_approved t"

definition mirror_ok :: "mirror \<Rightarrow> bool" where
  "mirror_ok m \<longleftrightarrow> (case m of Mirror_stream k \<Rightarrow> k \<le> STREAM_RETRY_LIMIT | Mirror_poll _ \<Rightarrow> True)"

definition broker_ok :: "broker \<Rightarrow> bool" where
  "broker_ok s \<longleftrightarrow> (\<forall>k t. dget (tasks s) k = Some t \<longrightarrow> task_ok k t)
     \<and> (\<forall>k t. dget (starting s) k = Some t \<longrightarrow> task_ok k t \<and> t_events t = [])
     \<and> (\<forall>k m. dget (mirrors s) k = Some m \<longrightarrow> mirror_ok m)"

lemma broker_ok_put_task: "broker_ok s \<Longrightarrow> task_ok k t \<Longrightarrow> broker_ok (s\<lparr>tasks := dset k t (tasks s)\<rparr>)"
  by (simp add: broker_ok_def)

lemma broker_ok_mirrors: "broker_ok s \<Longrightarrow> mirror_ok m \<Longrightarrow> broker_ok (s\<lparr>mirrors := dset k m (mirrors s)\<rparr>)"
  by (simp add: broker_ok_def)

lemma broker_ok_end [inv_intros]: "broker_ok s \<Longrightarrow> broker_ok (end_mirror k s)"
  by (simp add: broker_ok_def end_mirror_def)

lemma broker_ok_starting: "broker_ok s \<Longrightarrow> broker_ok (s\<lparr>starting := dpop k (starting s)\<rparr>)"
  by (simp add: broker_ok_def)

lemma save_binding_fields [simp]:
  "tasks (save_binding now t a b s) = tasks s" "starting (save_binding now t a b s) = starting s"
  "mirrors (save_binding now t a b s) = mirrors s"
  by (simp_all add: save_binding_def Let_def)

lemma broker_ok_binding [inv_intros]: "broker_ok s \<Longrightarrow> broker_ok (save_binding now t a b s)"
  by (simp add: broker_ok_def)

lemma apply_event_fields [simp]:
  "t_events (apply_event e t) = t_events t @ [e]" "t_id (apply_event e t) = t_id t"
  "t_permission (apply_event e t) = t_permission t" "t_approved (apply_event e t) = t_approved t"
  by (simp_all add: apply_event_def Let_def)

text \<open>What \<open>append_event\<close> does to the tasks.\<close>

lemma append_event_cases:
  obtains (kept) "fst (append_event fresh now k incoming s) = s"
  | (added) t e where "dget (tasks s) k = Some t" "\<not> terminal t" "e_id e \<notin> e_id ` set (t_events t)"
      "e = make_event fresh now t incoming" "e_type e \<in> set EVENT_TYPES"
      "fst (append_event fresh now k incoming s)
         = save_binding now (apply_event e t) (str_or (pget (e_meta e) ''codex_thread_id'')) []
              (s\<lparr>tasks := dset k (apply_event e t) (tasks s)\<rparr>)"
proof (cases "dget (tasks s) k")
  case None
  then show ?thesis by (intro kept) (simp add: append_event_def)
next
  case (Some t)
  show ?thesis
  proof (cases "terminal t \<or> event_id_of fresh incoming \<in> e_id ` set (t_events t)
      \<or> str_or (pget incoming ''type'') \<notin> set EVENT_TYPES \<or> (\<exists>x. py_dict (pget incoming ''metadata'') = Inl x)")
    case True
    then show ?thesis using Some by (intro kept) (auto simp: append_event_def split: sum.split)
  next
    case False
    then obtain m where "py_dict (pget incoming ''metadata'') = Inr m" by (cases "py_dict (pget incoming ''metadata'')") auto
    then show ?thesis
      using False Some by (intro added [OF Some _ _ refl]) (simp_all add: make_event_def append_event_def Let_def)
  qed
qed

lemma mirror_event_cases:
  "mirror_event env fresh now k n event s = fst (append_event fresh now k event s) \<or>
   mirror_event env fresh now k n event s = next_attempt env now k n (fst (append_event fresh now k event s))"
  by (cases "append_event fresh now k event s") (auto simp: mirror_event_def split: sum.split)

lemma append_ok [inv_intros]: "broker_ok s \<Longrightarrow> broker_ok (fst (append_event fresh now k incoming s))"
proof -
  assume s: "broker_ok s"
  show ?thesis
  proof (cases rule: append_event_cases [of fresh now k incoming s])
    case kept
    then show ?thesis using s by simp
  next
    case (added t e)
    have t: "task_ok k t" using s added(1) by (simp add: broker_ok_def)
    have "e_seq e = next_seq (t_events t)" using added(4) by (simp add: make_event_def)
    then have "task_ok k (apply_event e t)" using t added(3) by (simp add: task_ok_def numbered_snoc)
    then show ?thesis using s added(6) by (simp add: broker_ok_binding broker_ok_put_task)
  qed
qed

lemma ensure_ok [inv_intros]: "broker_ok s \<Longrightarrow> broker_ok (ensure_mirror k s)"
  by (auto simp: ensure_mirror_def mirror_ok_def intro!: broker_ok_mirrors split: option.split)

lemma configure_ok: "broker_ok s \<Longrightarrow> broker_ok (configure get s)"
proof -
  have "task_ok k (backfill_owner get t) = task_ok k t" for k t
    by (simp add: backfill_owner_def task_ok_def split: option.split)
  then show "broker_ok s \<Longrightarrow> ?thesis" by (auto simp: broker_ok_def configure_def)
qed

lemma start_begin_ok: "broker_ok s \<Longrightarrow> broker_ok (fst (start_begin env n now w sid ws mode a owner s))"
  by (auto simp: start_begin_def Let_def broker_ok_def task_ok_def new_task_def split: sum.split)

lemma start_failed_ok: "broker_ok s \<Longrightarrow> broker_ok (start_failed fresh now k s)"
  by (auto simp: start_failed_def intro!: append_ok broker_ok_starting split: option.split)

lemma merge_reply_fields [simp]:
  "t_events (merge_reply w t) = t_events t" "t_id (merge_reply w t) = t_id t"
  "t_permission (merge_reply w t) = t_permission t" "t_approved (merge_reply w t) = t_approved t"
  by (simp_all add: merge_reply_def)

lemma start_accepted_ok: "broker_ok s \<Longrightarrow> broker_ok (start_accepted env fresh now k w s)"
proof -
  assume s: "broker_ok s"
  show ?thesis
  proof (cases "dget (starting s) k")
    case None
    then show ?thesis using s by (simp add: start_accepted_def)
  next
    case (Some l)
    then have "task_ok k (merge_reply w l)" using s by (simp add: broker_ok_def task_ok_def)
    then have "broker_ok (s\<lparr>tasks := dset k (merge_reply w l) (tasks s), starting := dpop k (starting s)\<rparr>)"
      using s by (simp add: broker_ok_def)
    then show ?thesis by (simp add: start_accepted_def Some Let_def inv_intros)
  qed
qed

lemma reconcile_ok [inv_intros]: "broker_ok s \<Longrightarrow> broker_ok (reconcile fresh now k remote s)"
  by (auto simp: reconcile_def intro!: append_ok split: option.split)

lemma refresh_task_ok [inv_intros]: "broker_ok s \<Longrightarrow> broker_ok (fst (refresh_task env fresh now k owner en remote s))"
  by (auto simp: refresh_task_def Let_def intro!: inv_intros split: sum.split)

lemma next_attempt_ok: "broker_ok s \<Longrightarrow> broker_ok (next_attempt env now k n s)"
  by (auto simp: next_attempt_def mirror_ok_def intro!: inv_intros broker_ok_mirrors)

lemma poll_ok: "broker_ok s \<Longrightarrow> broker_ok (poll_worker env fresh now k d remote s)"
proof -
  assume s: "broker_ok s"
  show ?thesis
  proof (cases "dget (tasks s) k")
    case (Some t)
    obtain s' r where r: "refresh_task env fresh now k (t_owner t) False remote s = (s', r)" by force
    have "broker_ok s'" using refresh_task_ok [OF s, of env fresh now k "t_owner t" False remote] r by simp
    then show ?thesis using s by (simp add: poll_worker_def Some r inv_intros split: sum.split)
  qed (use s in \<open>simp add: poll_worker_def inv_intros\<close>)
qed

lemma mirror_event_ok: "broker_ok s \<Longrightarrow> broker_ok (mirror_event env fresh now k n event s)"
  using mirror_event_cases [of env fresh now k n event s] append_ok [of s fresh now k event] by (auto simp: next_attempt_ok)

lemma mirror_step_ok: "broker_ok s \<Longrightarrow> broker_ok (mirror_step env fresh now k input s)"
  unfolding mirror_step_def
  by (auto simp: inv_intros next_attempt_ok mirror_event_ok poll_ok split: option.split mirror.split mirror_input.split)

lemma action_done_ok: "broker_ok s \<Longrightarrow> broker_ok (action_done env fresh now k c owner remote s)"
  by (auto simp: action_done_def inv_intros split: worker_call.split)

lemma broker_step_ok: "broker_ok s \<Longrightarrow> broker_ok (broker_step s e)"
  by (cases e) (simp_all add: configure_ok start_begin_ok start_failed_ok start_accepted_ok refresh_task_ok
      mirror_step_ok action_done_ok ensure_ok)

interpretation broker_runs: invariant_system broker_step broker_ok
  by unfold_locales (rule broker_step_ok)

lemma broker_run_ok: "broker_ok (run broker_step empty_broker ops)"
  by (rule broker_runs.run_inv) (simp add: broker_ok_def empty_broker_def)

text \<open>
  Claim C36. Over every run of concurrent requests, worker answers and mirrors, the events of a
  task are numbered from zero without gaps and carry distinct identifiers, every task is a
  read-only one without a caller's approval, and a mirror opens at most three streams.
\<close>

theorem broker_invariant:
  assumes "s = run broker_step empty_broker ops"
  shows "(\<forall>k t. dget (tasks s) k = Some t \<longrightarrow>
       map e_seq (t_events t) = map int [0..<length (t_events t)] \<and> distinct (map e_id (t_events t))
       \<and> t_permission t = ''read_only'' \<and> \<not> t_approved t)
    \<and> (\<forall>k n. dget (mirrors s) k = Some (Mirror_stream n) \<longrightarrow> n < 3)"
  using broker_run_ok [of ops] assms
  by (fastforce simp: broker_ok_def task_ok_def numbered_def mirror_ok_def STREAM_RETRY_LIMIT_def)


section \<open>Terminal tasks\<close>

text \<open>
  What a finished task keeps; \<open>configure\<close> may still give it an owner. The start of the task must have
  been answered, since it saves the copy of the task that it made before.
\<close>

definition finished_as :: "string \<Rightarrow> worker_task \<Rightarrow> broker \<Rightarrow> bool" where
  "finished_as k t s \<longleftrightarrow> terminal t \<and> dget (starting s) k = None \<and> (\<exists>t'. dget (tasks s) k = Some t' \<and> t_status t' = t_status t
     \<and> t_events t' = t_events t \<and> t_result t' = t_result t \<and> t_error t' = t_error t)"

text \<open>A start mints the identifier of another task, as \<open>uuid4\<close> does.\<close>

definition mints_other :: "string \<Rightarrow> broker_op \<Rightarrow> bool" where
  "mints_other k e \<longleftrightarrow> (case e of B_start _ new_id _ _ _ _ _ _ _ \<Rightarrow> new_id \<noteq> k | _ \<Rightarrow> True)"

text \<open>
  Every such operation treats a task \<open>k\<close> whose start was answered in one of three ways: it leaves it alone,
  gives it an owner, or appends an event while it is not terminal.
\<close>

inductive task_change :: "worker_task \<Rightarrow> worker_task \<Rightarrow> bool" where
  same: "task_change t t"
| owned: "task_change t (t\<lparr>t_owner := o'\<rparr>)"
| event: "\<not> terminal t \<Longrightarrow> task_change t (apply_event e t)"

inductive_cases task_changeE: "task_change t t'"

definition changes :: "string \<Rightarrow> broker \<Rightarrow> broker \<Rightarrow> bool" where
  "changes k s s' \<longleftrightarrow> (\<forall>t. dget (tasks s) k = Some t \<longrightarrow> (\<exists>t'. dget (tasks s') k = Some t' \<and> task_change t t'))"

lemma changes_tasks: "tasks s' = tasks s \<Longrightarrow> changes k s s'"
  by (auto simp: changes_def intro: same)

lemma changes_tasks_then: "tasks s1 = tasks s \<Longrightarrow> changes k s s' \<Longrightarrow> changes k s1 s'"
  by (simp add: changes_def)

lemma changes_then_tasks: "changes k s s1 \<Longrightarrow> tasks s' = tasks s1 \<Longrightarrow> changes k s s'"
  by (simp add: changes_def)

lemma append_changes: "changes k s (fst (append_event fresh now k' incoming s))"
proof (cases rule: append_event_cases [of fresh now k' incoming s])
  case kept
  then show ?thesis by (simp add: changes_tasks)
next
  case (added t e)
  then show ?thesis by (auto simp: changes_def intro: same event)
qed

lemma mirror_tasks [simp]: "tasks (ensure_mirror k s) = tasks s" "tasks (end_mirror k s) = tasks s"
  "tasks (next_attempt env now k n s) = tasks s"
  by (auto simp: ensure_mirror_def end_mirror_def next_attempt_def split: option.split)

lemma reconcile_changes: "changes k s (reconcile fresh now k' remote s)"
  by (auto simp: reconcile_def append_changes changes_tasks split: option.split)

lemma refresh_changes: "changes k s (fst (refresh_task env fresh now k' owner en remote s))"
  by (auto simp: refresh_task_def Let_def intro: changes_tasks changes_then_tasks [OF reconcile_changes] split: sum.split)

lemma refresh_terminal:
  "(case refresh_task env fresh now k owner False remote s of (s', r) \<Rightarrow> changes k2 s s')"
  using refresh_changes [of k2 s env fresh now k owner False remote] by (simp add: case_prod_unfold)

text \<open>A poll appends at most one of two events: the second only when the first did not finish the task.\<close>

lemma task_change_trans_over:
  assumes "changes k s s1" "\<not> task_over k s1" "changes k s1 s2" "s1 = s \<or> task_over k s1"
  shows "changes k s s2"
  using assms by auto

lemma reconcile_kept_or_over:
  "reconcile fresh now k remote s = s \<or> task_over k (reconcile fresh now k remote s)"
proof (cases "Option.bind remote (terminal_event k)")
  case None
  then show ?thesis by (simp add: reconcile_def)
next
  case (Some event)
  then obtain r where "terminal_event k r = Some event" by (cases remote) auto
  then have ty: "str_or (pget event ''type'') \<in> {''result'', ''error'', ''cancelled''}"
    by (auto simp: terminal_event_def Let_def truthy_def str_or_def py_str_def split: if_splits)
  show ?thesis
  proof (cases rule: append_event_cases [of fresh now k event s])
    case kept
    then show ?thesis using Some by (simp add: reconcile_def)
  next
    case (added t e)
    have "e_type e = str_or (pget event ''type'')" using added(4) by (simp add: make_event_def)
    then have "terminal (apply_event e t)" using ty by (auto simp: apply_event_def Let_def TERMINAL_def)
    then show ?thesis using added(6) Some by (simp add: reconcile_def task_over_def)
  qed
qed

lemma refresh_kept_or_over:
  assumes "refresh_task env fresh now k owner False remote s = (s', r)"
  shows "s' = s \<or> task_over k s'"
  using assms reconcile_kept_or_over [of fresh now k remote s]
  by (auto simp: refresh_task_def Let_def split: sum.splits if_splits)

lemma poll_changes: "changes k s (poll_worker env fresh now k' d remote s)"
proof (cases "dget (tasks s) k'")
  case None
  then show ?thesis by (simp add: poll_worker_def changes_tasks)
next
  case (Some t)
  show ?thesis
  proof (cases "terminal t")
    case False
    obtain s' r where r: "refresh_task env fresh now k' (t_owner t) False remote s = (s', r)" by force
    have c: "changes k s s'" using refresh_changes [of k s env fresh now k' "t_owner t" False remote] r by simp
    show ?thesis
    proof (cases "task_over k' s' \<or> (\<exists>e. r = Inl e) \<or> \<not> d - now \<le> 0")
      case True
      then show ?thesis using changes_then_tasks [OF c] c Some False r
        by (auto simp: poll_worker_def split: sum.split)
    next
      case no: False
      then have "s' = s" using refresh_kept_or_over [OF r] by simp
      then show ?thesis
        using no Some False r changes_then_tasks [OF append_changes [of k s fresh now k' "timeout_event k'"]]
        by (auto simp: poll_worker_def split: sum.split)
    qed
  qed (use Some in \<open>simp add: poll_worker_def changes_tasks\<close>)
qed

lemma mirror_event_changes: "changes k s (mirror_event env fresh now k' n event s)"
  using mirror_event_cases [of env fresh now k' n event s] append_changes [of k s fresh now k' event]
  by (auto intro: changes_then_tasks)

lemma mirror_changes: "changes k s (mirror_step env fresh now k' input s)"
  unfolding mirror_step_def
  by (auto simp: append_changes mirror_event_changes poll_changes changes_tasks split: option.split mirror.split mirror_input.split)

lemma configure_changes: "changes k s (configure get s)"
  by (auto simp: changes_def configure_def backfill_owner_def intro: same owned split: option.split)

lemma step_changes: "dget (starting s) k = None \<Longrightarrow> mints_other k e \<Longrightarrow> changes k s (broker_step s e)"
proof (cases e)
  case (B_failed fresh now k')
  then show ?thesis
    using changes_tasks_then [OF _ append_changes [of k "s\<lparr>starting := dpop k' (starting s)\<rparr>"], of s]
    by (auto simp: start_failed_def changes_tasks split: option.split)
next
  case (B_accepted env fresh now k' w)
  assume w: "dget (starting s) k = None"
  show ?thesis
  proof (cases "k' = k")
    case True
    then show ?thesis using B_accepted w by (auto simp: start_accepted_def changes_def intro: same)
  next
    case False
    then show ?thesis
      using B_accepted append_changes [of k "s\<lparr>tasks := dset k' t (tasks s), starting := st\<rparr>" for t st]
    by (auto simp: start_accepted_def Let_def changes_tasks changes_def intro: same split: option.split)
  qed
next
  case (B_start env n now worker sid ws mode a owner)
  assume "mints_other k e"
  then show ?thesis using B_start
    by (auto simp: start_begin_def Let_def mints_other_def changes_def intro: same split: sum.split)
next
  case (B_action env fresh now k' c owner remote)
  have "changes k s (fst (refresh_task env fresh now k' owner True remote (ensure_mirror k' s)))"
    by (rule changes_tasks_then [OF _ refresh_changes]) simp
  then show ?thesis using B_action by (auto simp: action_done_def append_changes split: worker_call.split)
qed (simp_all add: configure_changes refresh_changes mirror_changes changes_tasks)


text \<open>No operation but a start of the task itself makes it one that awaits its worker.\<close>

lemma append_starting [simp]: "starting (fst (append_event fresh now k' incoming s)) = starting s"
  by (cases rule: append_event_cases [of fresh now k' incoming s]) simp_all

lemma mirror_starting [simp]: "starting (ensure_mirror k' s) = starting s" "starting (end_mirror k' s) = starting s"
  "starting (next_attempt env now k' n s) = starting s" "starting (configure get s) = starting s"
  by (auto simp: ensure_mirror_def end_mirror_def next_attempt_def configure_def split: option.split)

lemma refresh_starting [simp]: "starting (fst (refresh_task env fresh now k' owner en remote s)) = starting s"
  by (auto simp: refresh_task_def reconcile_def Let_def split: sum.split option.split)

lemma poll_starting [simp]: "starting (poll_worker env fresh now k' d remote s) = starting s"
proof (cases "dget (tasks s) k'")
  case (Some t)
  obtain s' r where r: "refresh_task env fresh now k' (t_owner t) False remote s = (s', r)" by force
  then have "starting s' = starting s" using refresh_starting [of env fresh now k' "t_owner t" False remote s] by simp
  then show ?thesis by (simp add: poll_worker_def Some r split: sum.split)
qed (simp add: poll_worker_def)

lemma mirror_event_starting [simp]: "starting (mirror_event env fresh now k' n event s) = starting s"
  using mirror_event_cases [of env fresh now k' n event s] by auto

lemma step_starting: "dget (starting s) k = None \<Longrightarrow> mints_other k e \<Longrightarrow> dget (starting (broker_step s e)) k = None"
  by (cases e) (auto simp: mints_other_def start_begin_def start_failed_def start_accepted_def mirror_step_def action_done_def Let_def
      split: sum.split option.split mirror.split mirror_input.split worker_call.split)

interpretation finished_tasks: guarded_system broker_step "finished_as k t" "mints_other k" for k t
proof unfold_locales
  fix s e assume f: "finished_as k t s" "mints_other k e"
  then obtain t1 where t1: "dget (tasks s) k = Some t1" "t_status t1 = t_status t" "t_events t1 = t_events t"
    "t_result t1 = t_result t" "t_error t1 = t_error t" "terminal t" and w: "dget (starting s) k = None" by (auto simp: finished_as_def)
  then obtain t2 where t2: "dget (tasks (broker_step s e)) k = Some t2" "task_change t1 t2"
    using step_changes [OF w f(2)] by (auto simp: changes_def)
  from t2(2) show "finished_as k t (broker_step s e)"
    by (rule task_changeE) (use t1 t2(1) step_starting [OF w f(2)] in \<open>auto simp: finished_as_def\<close>)
qed

text \<open>
  Claim C4. A finished task stays finished. Once a task has completed, failed or been cancelled and the
  call that started it has been answered, no event of a stream, no poll, action or other request
  changes its status, its events, its result or its error, as long as no later start draws the same
  identifier.
\<close>

theorem terminal_task_is_final:
  assumes "dget (tasks s) k = Some t" and "terminal t" and "dget (starting s) k = None" and "list_all (mints_other k) ops"
  shows "\<exists>t'. dget (tasks (run broker_step s ops)) k = Some t' \<and> t_status t' = t_status t
    \<and> t_events t' = t_events t \<and> t_result t' = t_result t \<and> t_error t' = t_error t"
  using finished_tasks.guarded_run [of k t s ops] assms by (simp add: finished_as_def)

section \<open>Following a task\<close>

definition extends :: "string \<Rightarrow> worker_event list \<Rightarrow> broker \<Rightarrow> bool" where
  "extends k evs s \<longleftrightarrow> dget (starting s) k = None \<and> (\<exists>t ys. dget (tasks s) k = Some t \<and> t_events t = evs @ ys)"

interpretation growing_events: guarded_system broker_step "extends k evs" "mints_other k" for k evs
proof unfold_locales
  fix s e assume f: "extends k evs s" "mints_other k e"
  then obtain t1 ys where t1: "dget (tasks s) k = Some t1" "t_events t1 = evs @ ys" and w: "dget (starting s) k = None"
    by (auto simp: extends_def)
  then obtain t2 where t2: "dget (tasks (broker_step s e)) k = Some t2" "task_change t1 t2"
    using step_changes [OF w f(2)] by (auto simp: changes_def)
  from t2(2) show "extends k evs (broker_step s e)"
    by (rule task_changeE) (use t1 t2(1) step_starting [OF w f(2)] in \<open>auto simp: extends_def\<close>)
qed

lemma numbered_after:
  assumes "numbered (evs @ ys)" "filter (\<lambda>e. e_seq e > c) evs \<noteq> []"
  shows "filter (\<lambda>e. e_seq e > e_seq (last (filter (\<lambda>e. e_seq e > c) evs))) (evs @ ys) = ys"
    and "filter (\<lambda>e. e_seq e > c) ys = ys"
proof -
  have seqs: "e_seq (evs ! i) = int i" if "i < length evs" for i
  proof -
    have "map e_seq (evs @ ys) ! i = int i" using assms(1) that by (simp add: numbered_def del: map_append)
    then show ?thesis using that by (simp add: nth_append)
  qed
  have seqs2: "e_seq (ys ! i) = int (length evs + i)" if "i < length ys" for i
  proof -
    have "map e_seq (evs @ ys) ! (length evs + i) = int (length evs + i)"
      using assms(1) that by (simp add: numbered_def del: map_append)
    then show ?thesis using that by (simp add: nth_append)
  qed
  from assms(2) have ne: "evs \<noteq> []" by auto
  obtain e where e: "e \<in> set evs" "e_seq e > c" using assms(2) by (auto simp: filter_empty_conv)
  then obtain i where i: "i < length evs" "evs ! i = e" by (auto simp: in_set_conv_nth)
  have lst: "e_seq (last evs) = int (length evs - 1)" using seqs [of "length evs - 1"] ne by (simp add: last_conv_nth)
  have c: "c < int (length evs - 1) + 1" using e(2) seqs [OF i(1)] i by simp
  have "e_seq (last evs) > c"
  proof -
    have "e_seq e \<le> e_seq (last evs)" using seqs [OF i(1)] i lst by simp
    then show ?thesis using e(2) by simp
  qed
  then have "last (filter (\<lambda>e. e_seq e > c) evs) = last evs"
    using ne by (metis append_butlast_last_id filter.simps(1,2) filter_append last_snoc)
  then have l: "e_seq (last (filter (\<lambda>e. e_seq e > c) evs)) = int (length evs - 1)" by (simp add: lst)
  have "filter (\<lambda>e. e_seq e > int (length evs - 1)) evs = []"
    using seqs by (auto simp: filter_empty_conv in_set_conv_nth)
  moreover have "filter (\<lambda>e. e_seq e > d) ys = ys" if "d \<le> int (length evs - 1)" for d
    using seqs2 that ne by (intro filter_True) (auto simp: in_set_conv_nth of_nat_diff Suc_le_eq)
  ultimately show "filter (\<lambda>e. e_seq e > e_seq (last (filter (\<lambda>e. e_seq e > c) evs))) (evs @ ys) = ys"
    and "filter (\<lambda>e. e_seq e > c) ys = ys" using c by (simp_all add: l)
qed

lemma broker_ok_events: "broker_ok s \<Longrightarrow> dget (tasks s) k = Some t \<Longrightarrow> numbered (t_events t)"
  by (auto simp: broker_ok_def task_ok_def)

text \<open>What a round yields and what is after its cursor is what was after the cursor before.\<close>

lemma read_on:
  assumes "numbered (evs @ ys)"
  shows "filter (\<lambda>e. e_seq e > c) evs @ filter (\<lambda>e. e_seq e > (if filter (\<lambda>e. e_seq e > c) evs = [] then c
      else e_seq (last (filter (\<lambda>e. e_seq e > c) evs)))) (evs @ ys) = filter (\<lambda>e. e_seq e > c) (evs @ ys)"
proof (cases "filter (\<lambda>e. e_seq e > c) evs = []")
  case False
  then show ?thesis using numbered_after [OF assms False] by (simp del: filter_append) simp
qed simp

lemma stream_follows:
  assumes "broker_ok s" "extends k (t_events t) s" "dget (tasks s) k = Some t" "list_all (mints_other k) (rounds_ops segments)"
  shows "\<exists>t'. dget (tasks (run broker_step s (rounds_ops segments))) k = Some t'
    \<and> stream_client k c s segments = filter (\<lambda>e. e_seq e > c) (t_events t')"
  using assms
proof (induction segments arbitrary: s t c)
  case Nil
  then show ?case by (simp add: rounds_ops_def stream_round_def task_events_def Let_def)
next
  case (Cons seg later)
  obtain xs zs where seg: "seg = (xs, zs)" by (cases seg)
  let ?s = "run broker_step s xs" and ?r = "run broker_step (run broker_step s xs) zs"
  let ?evs = "filter (\<lambda>e. e_seq e > c) (t_events t)"
  let ?c = "if ?evs = [] then c else e_seq (last ?evs)"
  have all: "rounds_ops (seg # later) = xs @ zs @ rounds_ops later" by (simp add: rounds_ops_def seg)
  then have m: "list_all (mints_other k) xs" "list_all (mints_other k) zs" "list_all (mints_other k) (rounds_ops later)"
    using Cons.prems(4) by simp_all
  note ok = broker_runs.run_inv [OF broker_runs.run_inv [OF Cons.prems(1), of xs], of zs]
  have e1: "extends k (t_events t) ?s" by (rule growing_events.guarded_run [OF Cons.prems(2) m(1)])
  then obtain t1 where t1: "dget (tasks ?s) k = Some t1" "dget (starting ?s) k = None" by (auto simp: extends_def)
  have e2: "extends k (t_events t1) ?r"
    by (rule growing_events.guarded_run [OF _ m(2)]) (use t1 in \<open>simp add: extends_def\<close>)
  then obtain t2 where t2: "dget (tasks ?r) k = Some t2" "dget (starting ?r) k = None" by (auto simp: extends_def)
  have round: "stream_round k c s = (?evs, ?c)" using Cons.prems(3) by (simp add: stream_round_def task_events_def Let_def)
  show ?case
  proof (cases "stream_over k ?c ?s")
    case True
    then have over: "terminal t1" "filter (\<lambda>e. e_seq e > ?c) (t_events t1) = []"
      using t1 by (simp_all add: stream_over_def task_events_def)
    have "finished_as k t1 (run broker_step ?s (zs @ rounds_ops later))"
      by (rule finished_tasks.guarded_run) (use t1 over m in \<open>auto simp: finished_as_def\<close>)
    then obtain t' where t': "dget (tasks (run broker_step s (rounds_ops (seg # later)))) k = Some t'" "t_events t' = t_events t1"
      unfolding all by (auto simp: finished_as_def run_append)
    obtain ys where ys: "t_events t1 = t_events t @ ys" using e1 t1(1) by (auto simp: extends_def)
    have "numbered (t_events t @ ys)" using broker_ok_events [OF broker_runs.run_inv [OF Cons.prems(1), of xs] t1(1)] ys by simp
    from read_on [OF this, of c] over(2) have "?evs = filter (\<lambda>e. e_seq e > c) (t_events t1)" unfolding ys by simp
    then show ?thesis using t' True round by (simp add: seg Let_def)
  next
    case False
    obtain t' where t': "dget (tasks (run broker_step ?r (rounds_ops later))) k = Some t'"
      "stream_client k ?c ?r later = filter (\<lambda>e. e_seq e > ?c) (t_events t')"
      using Cons.IH [OF ok _ t2(1) m(3), of ?c] t2 by (auto simp: extends_def)
    have "extends k (t_events t) (run broker_step s (xs @ zs @ rounds_ops later))"
      by (rule growing_events.guarded_run [OF Cons.prems(2)]) (use m in simp)
    then obtain ys where ys: "t_events t' = t_events t @ ys" using t'(1) by (auto simp: extends_def run_append)
    have "numbered (t_events t @ ys)" using broker_ok_events [OF broker_runs.run_inv [OF ok, of "rounds_ops later"] t'(1)] ys by simp
    from read_on [OF this, of c] show ?thesis using t' round False unfolding all by (auto simp: seg Let_def run_append ys)
  qed
qed

text \<open>
  Claim C3. A client that follows a task receives every event exactly once and in order. From the moment
  that the call that started the task has been answered, and as long as no later start draws the same
  identifier: however many operations of requests, workers and mirrors fall between the steps of the
  client's loop, and whether the loop has ended or not, what it has received is exactly the part after
  its starting point of the events that the task then has. In particular the loop ends only when
  nothing is missing, and nothing is added later.
\<close>

theorem stream_exactly_once:
  assumes "s = run broker_step empty_broker ops" and "dget (tasks s) k = Some t" and "dget (starting s) k = None"
    and "list_all (mints_other k) (rounds_ops segments)"
  shows "\<exists>t'. dget (tasks (run broker_step s (rounds_ops segments))) k = Some t'
    \<and> stream_client k after s segments = filter (\<lambda>e. e_seq e > after) (t_events t')"
  using stream_follows [OF _ _ assms(2,4)] broker_run_ok [of ops] assms(1-3) by (simp add: extends_def)

section \<open>Owners and approvals\<close>

text \<open>
  A worker is called only for the owner of a live task whose chat belongs to the same
  owner, and an approval request is only ever answered with a denial.
\<close>

theorem worker_calls_are_owned:
  assumes "action_begin env k action payload owner s = Inr (Inr c)"
  shows "\<exists>t. dget (tasks s) k = Some t \<and> \<not> terminal t \<and> strip owner \<noteq> [] \<and> t_owner t = strip owner
    \<and> session_for_owner env (t_session t) (strip owner) = Inr ()
    \<and> (\<forall>i choice. c = Call_approve i choice \<longrightarrow> choice = ''deny'')"
  using assms
  by (auto simp: action_begin_def require_task_owner_def action_call_def split: if_splits option.splits sum.splits)

text \<open>
  A mirror does not end in doubt: when the owner's chat is still there, a poll at or
  after the deadline ends the mirror with its task in a terminal status.
\<close>

theorem mirror_settles:
  assumes "dget (mirrors s) k = Some (Mirror_poll deadline)" and "deadline \<le> now"
    and "dget (tasks s) k = Some t" and "require_task_owner env k (t_owner t) s = Inr t"
    and "event_id_of fresh (timeout_event k) \<notin> e_id ` set (t_events t)"
  shows "dget (mirrors (mirror_step env fresh now k (Poll remote) s)) k = None
    \<and> task_terminal k (mirror_step env fresh now k (Poll remote) s)"
proof (cases "terminal t")
  case True
  then show ?thesis
    using assms(1,3) by (simp add: mirror_step_def poll_worker_def end_mirror_def task_terminal_def)
next
  case False
  obtain s' r where r: "refresh_task env fresh now k (t_owner t) False remote s = (s', r)" by force
  then have r': "\<exists>t'. r = Inr t'" using assms(4) by (auto simp: refresh_task_def Let_def)
  obtain t1 where t1: "dget (tasks s') k = Some t1"
    using refresh_changes [of k s env fresh now k "t_owner t" False remote] assms(3) r by (auto simp: changes_def)
  show ?thesis
  proof (cases "terminal t1")
    case True
    then show ?thesis using assms(1,3) False r r' t1
      by (auto simp: mirror_step_def poll_worker_def task_over_def end_mirror_def task_terminal_def)
  next
    case nt: False
    then have "s' = s" using refresh_kept_or_over [OF r] t1 by (auto simp: task_over_def)
    moreover have ty: "str_or (pget (timeout_event k) ''type'') = ''error''"
      by (simp add: timeout_event_def str_or_def truthy_def py_str_def)
    moreover have "\<exists>m. py_dict (pget (timeout_event k) ''metadata'') = Inr m" by (simp add: timeout_event_def)
    ultimately show ?thesis
      using assms(1-3,5) False r r'
      by (auto simp: mirror_step_def poll_worker_def task_over_def end_mirror_def task_terminal_def append_event_def
          ty EVENT_TYPES_def Let_def make_event_def apply_event_def TERMINAL_def)
  qed
qed

section \<open>A concrete run\<close>

lemma own_metadata [simp]: "\<exists>m. py_dict (pget (accepted_event env t) ''metadata'') = Inr m"
  "\<exists>m. py_dict (pget (timeout_event k) ''metadata'') = Inr m"
  by (simp_all add: accepted_event_def timeout_event_def)

lemma append_event_adds:
  assumes "dget (tasks s) k = Some t" "\<not> terminal t" "event_id_of fresh incoming \<notin> e_id ` set (t_events t)"
    "str_or (pget incoming ''type'') \<in> set EVENT_TYPES" "\<exists>m. py_dict (pget incoming ''metadata'') = Inr m"
  shows "tasks (fst (append_event fresh now k incoming s)) = dset k (apply_event (make_event fresh now t incoming) t) (tasks s)"
    "mirrors (fst (append_event fresh now k incoming s)) = mirrors s"
    "starting (fst (append_event fresh now k incoming s)) = starting s"
  using assms by (auto simp: append_event_def Let_def)

definition watch_env :: broker_env where
  "watch_env = \<lparr>sessions = Some (\<lambda>_. Some ''op''), enabled = (\<lambda>_. True), worker_label = (\<lambda>w. w), reconcile_timeout = 0\<rparr>"
lemma op_stripped [simp]: "strip ''op'' = ''op''"
  by code_simp
definition started_task :: worker_task where
  "started_task = new_task ''t'' 1 ''hermes'' ''s'' ''w'' ''op'' empty_broker"

definition plain_reply :: worker_reply where
  "plain_reply = \<lparr>w_remote = ''r'', w_status = ''queued'', w_thread = None, w_key = None\<rparr>"

definition watch_ops :: "broker_op list" where
  "watch_ops = [B_start watch_env ''t'' 1 ''hermes'' ''s'' ''w'' ''read_only'' False ''op'',
     B_accepted watch_env ''f1'' 2 ''t'' plain_reply]"

lemma started: "start_begin watch_env ''t'' 1 ''hermes'' ''s'' ''w'' ''read_only'' False ''op'' empty_broker
   = (\<lparr>tasks = [(''t'', started_task)], bindings = [], mirrors = [], starting = [(''t'', started_task)]\<rparr>, Inr started_task)"
  by (simp add: start_begin_def session_for_owner_def watch_env_def started_task_def empty_broker_def WORKER_IDS_def require_read_only_def Let_def)

definition accepted_task :: worker_task where
  "accepted_task = apply_event (make_event ''f1'' 2 (merge_reply plain_reply started_task)
     (accepted_event watch_env (merge_reply plain_reply started_task))) (merge_reply plain_reply started_task)"

lemma accepted_facts:
  "t_status accepted_task = ''running''" "t_id started_task = ''t''" "length (t_events accepted_task) = 1"
  "t_status (merge_reply plain_reply started_task) = ''queued''" "t_events started_task = []"
  by (simp_all add: accepted_task_def make_event_def merge_reply_def plain_reply_def accepted_event_def apply_event_def
      started_task_def new_task_def Let_def str_or_def truthy_def py_str_def)

lemma watch_state:
  "tasks (run broker_step empty_broker watch_ops) = [(''t'', accepted_task)]"
  "mirrors (run broker_step empty_broker watch_ops) = [(''t'', Mirror_stream 0)]"
  "starting (run broker_step empty_broker watch_ops) = []"
proof -
  let ?s = "\<lparr>tasks = [(''t'', merge_reply plain_reply started_task)], bindings = [], mirrors = [], starting = []\<rparr>"
  have t: "str_or (pget (accepted_event watch_env (merge_reply plain_reply started_task)) ''type'') \<in> set EVENT_TYPES"
    by (simp add: accepted_event_def EVENT_TYPES_def str_or_def truthy_def py_str_def)
  note a = append_event_adds [of ?s "''t''" "merge_reply plain_reply started_task" "''f1''"
      "accepted_event watch_env (merge_reply plain_reply started_task)" 2, OF _ _ _ t]
  have as: "tasks (fst (append_event ''f1'' 2 ''t'' (accepted_event watch_env (merge_reply plain_reply started_task)) ?s))
      = [(''t'', accepted_task)]"
    "mirrors (fst (append_event ''f1'' 2 ''t'' (accepted_event watch_env (merge_reply plain_reply started_task)) ?s)) = []"
    using a by (simp_all add: accepted_facts TERMINAL_def accepted_task_def)
  show "tasks (run broker_step empty_broker watch_ops) = [(''t'', accepted_task)]"
    using as by (simp add: watch_ops_def started start_accepted_def Let_def)
  show "mirrors (run broker_step empty_broker watch_ops) = [(''t'', Mirror_stream 0)]"
    using as accepted_facts(1) by (simp add: watch_ops_def started start_accepted_def Let_def TERMINAL_def ensure_mirror_def)
  show "starting (run broker_step empty_broker watch_ops) = []"
    by (simp add: watch_ops_def started start_accepted_def Let_def)
qed

theorem broker_invariant_witness:
  "map e_seq (t_events accepted_task) = map int [0..<length (t_events accepted_task)]"
proof -
  have "dget (tasks (run broker_step empty_broker watch_ops)) ''t'' = Some accepted_task" by (simp add: watch_state)
  with broker_invariant [of "run broker_step empty_broker watch_ops" watch_ops, OF refl] show ?thesis by blast
qed


lemma accepted_events: "e_id ` set (t_events accepted_task) = {''accepted:t''}"
  by (simp add: accepted_task_def make_event_def merge_reply_def plain_reply_def accepted_event_def apply_event_def
      started_task_def new_task_def Let_def event_id_of_def truthy_def py_str_def)

theorem stream_exactly_once_witness:
  "\<exists>t'. dget (tasks (run broker_step (run broker_step empty_broker watch_ops) (rounds_ops [([], [B_watch ''t''])]))) ''t'' = Some t'
     \<and> stream_client ''t'' (- 1) (run broker_step empty_broker watch_ops) [([], [B_watch ''t''])]
       = filter (\<lambda>e. e_seq e > - 1) (t_events t')"
  by (rule stream_exactly_once [OF refl]) (simp_all add: watch_state mints_other_def rounds_ops_def)

definition failed_task :: worker_task where
  "failed_task = accepted_task\<lparr>t_status := ''failed''\<rparr>"

theorem terminal_task_is_final_witness:
  "\<exists>t'. dget (tasks (run broker_step (empty_broker\<lparr>tasks := [(''t'', failed_task)]\<rparr>)
      [B_refresh watch_env ''f'' 9 ''t'' ''op'' True (Some [(''status'', PStr ''completed'')]), B_watch ''t''])) ''t'' = Some t'
      \<and> t_status t' = ''failed''"
  using terminal_task_is_final [of "empty_broker\<lparr>tasks := [(''t'', failed_task)]\<rparr>" "''t''" failed_task
      "[B_refresh watch_env ''f'' 9 ''t'' ''op'' True (Some [(''status'', PStr ''completed'')]), B_watch ''t'']"]
  by (auto simp: failed_task_def TERMINAL_def mints_other_def empty_broker_def)

theorem worker_calls_are_owned_witness:
  "t_owner started_task = ''op''"
proof -
  let ?s = "empty_broker\<lparr>tasks := [(''t'', started_task)]\<rparr>"
  have "action_begin watch_env ''t'' ''approval'' [(''choice'', PStr ''deny'')] ''op'' ?s = Inr (Inr (Call_approve ''t'' ''deny''))"
    by (simp add: action_begin_def require_task_owner_def started_task_def new_task_def Let_def session_for_owner_def
        watch_env_def TERMINAL_def action_call_def empty_broker_def)
  from worker_calls_are_owned [OF this] show ?thesis by simp
qed

theorem mirror_settles_witness:
  "task_terminal ''t'' (mirror_step watch_env ''f'' 5 ''t'' (Poll None)
     (empty_broker\<lparr>tasks := [(''t'', started_task)], mirrors := [(''t'', Mirror_poll 4)]\<rparr>))"
proof -
  let ?s = "empty_broker\<lparr>tasks := [(''t'', started_task)], mirrors := [(''t'', Mirror_poll 4)]\<rparr>"
  have "require_task_owner watch_env ''t'' (t_owner started_task) ?s = Inr started_task"
    by (simp add: require_task_owner_def started_task_def new_task_def Let_def session_for_owner_def watch_env_def)
  from mirror_settles [of ?s "''t''" 4 5 started_task watch_env "''f''" None, OF _ _ _ this] show ?thesis
    by (simp add: accepted_facts)
qed

section \<open>A start that answers late\<close>

text \<open>
  While \<open>start_task\<close> awaits its worker, a client may follow the task; its mirror finds no
  stream, and with a reconciliation timeout that has passed it marks the task failed.
\<close>

definition late_ops :: "broker_op list" where
  "late_ops = [B_start watch_env ''t'' 1 ''hermes'' ''s'' ''w'' ''read_only'' False ''op'', B_watch ''t'',
     B_mirror watch_env ''f'' 2 ''t'' Stream_failed, B_mirror watch_env ''f'' 2 ''t'' Stream_failed,
     B_mirror watch_env ''f'' 2 ''t'' Stream_failed, B_mirror watch_env ''f'' 2 ''t'' (Poll None)]"

lemma late_state:
  "\<exists>t b. run broker_step empty_broker late_ops = \<lparr>tasks = [(''t'', t)], bindings = b, mirrors = [],
     starting = [(''t'', started_task)]\<rparr> \<and> t_status t = ''failed''"
proof -
  let ?s = "\<lparr>tasks = [(''t'', started_task)], bindings = [], mirrors = [(''t'', Mirror_poll 2)], starting = [(''t'', started_task)]\<rparr>"
  have st: "t_status started_task = ''queued''" by (simp add: started_task_def new_task_def Let_def)
  let ?m = "\<lambda>m. \<lparr>tasks = [(''t'', started_task)], bindings = [], mirrors = [(''t'', m)], starting = [(''t'', started_task)]\<rparr>"
  have attempt: "mirror_step watch_env ''f'' 2 ''t'' Stream_failed (?m (Mirror_stream n))
      = ?m (if n < 2 then Mirror_stream (Suc n) else Mirror_poll 2)" for n
    by (simp add: mirror_step_def next_attempt_def STREAM_RETRY_LIMIT_def task_over_def st TERMINAL_def watch_env_def)
  have first: "broker_step (fst (start_begin watch_env ''t'' 1 ''hermes'' ''s'' ''w'' ''read_only'' False ''op'' empty_broker)) (B_watch ''t'')
      = ?m (Mirror_stream 0)"
    by (simp add: started ensure_mirror_def TERMINAL_def st)
  have "run broker_step empty_broker late_ops = mirror_step watch_env ''f'' 2 ''t'' (Poll None) ?s"
    using first by (simp add: late_ops_def attempt del: broker_step.simps(8))
  also have "\<dots> = end_mirror ''t'' (fst (append_event ''f'' 2 ''t'' (timeout_event ''t'') ?s))"
    by (simp add: mirror_step_def poll_worker_def TERMINAL_def st refresh_task_def require_task_owner_def Let_def
        session_for_owner_def watch_env_def reconcile_def task_over_def started_task_def new_task_def)
  finally have r: "run broker_step empty_broker late_ops = end_mirror ''t'' (fst (append_event ''f'' 2 ''t'' (timeout_event ''t'') ?s))" .
  have ty: "str_or (pget (timeout_event ''t'') ''type'') = ''error''"
    by (simp add: timeout_event_def str_or_def truthy_def py_str_def)
  note a = append_event_adds [of ?s "''t''" started_task "''f''" "timeout_event ''t''" 2]
  let ?t = "apply_event (make_event ''f'' 2 started_task (timeout_event ''t'')) started_task"
  have "tasks (run broker_step empty_broker late_ops) = [(''t'', ?t)]"
    "mirrors (run broker_step empty_broker late_ops) = []" "starting (run broker_step empty_broker late_ops) = [(''t'', started_task)]"
    unfolding r using a by (simp_all add: st TERMINAL_def accepted_facts ty EVENT_TYPES_def end_mirror_def)
  moreover have "t_status ?t = ''failed''" by (simp add: apply_event_def make_event_def ty Let_def)
  ultimately show ?thesis
    by (intro exI [of _ ?t] exI [of _ "bindings (run broker_step empty_broker late_ops)"]) simp
qed

text \<open>
  A late answer of the worker revives a finished task: the start saves the copy it
  made before it awaited the worker, so the task that had failed runs again and the event that
  recorded the failure is gone.
\<close>

theorem late_start_revives_task:
  "\<exists>t t'. dget (tasks (run broker_step empty_broker late_ops)) ''t'' = Some t \<and> t_status t = ''failed''
     \<and> dget (tasks (run broker_step empty_broker (late_ops @ [B_accepted watch_env ''f1'' 2 ''t'' plain_reply]))) ''t'' = Some t'
     \<and> t_status t' = ''running'' \<and> map e_id (t_events t') = [''accepted:t'']"
proof -
  obtain t b where s: "run broker_step empty_broker late_ops
      = \<lparr>tasks = [(''t'', t)], bindings = b, mirrors = [], starting = [(''t'', started_task)]\<rparr>" "t_status t = ''failed''"
    using late_state by blast
  let ?s = "\<lparr>tasks = [(''t'', merge_reply plain_reply started_task)], bindings = b, mirrors = [], starting = []\<rparr>"
  have ty: "str_or (pget (accepted_event watch_env (merge_reply plain_reply started_task)) ''type'') \<in> set EVENT_TYPES"
    by (simp add: accepted_event_def EVENT_TYPES_def str_or_def truthy_def py_str_def)
  have a: "tasks (fst (append_event ''f1'' 2 ''t'' (accepted_event watch_env (merge_reply plain_reply started_task)) ?s))
      = [(''t'', accepted_task)]"
    using append_event_adds(1) [of ?s "''t''" "merge_reply plain_reply started_task" "''f1''"
        "accepted_event watch_env (merge_reply plain_reply started_task)" 2, OF _ _ _ ty]
    by (simp add: accepted_facts TERMINAL_def accepted_task_def)
  have "tasks (run broker_step empty_broker (late_ops @ [B_accepted watch_env ''f1'' 2 ''t'' plain_reply])) = [(''t'', accepted_task)]"
    using a by (simp add: run_append s(1) start_accepted_def Let_def)
  moreover have "map e_id (t_events accepted_task) = [''accepted:t'']"
    using accepted_events accepted_facts(3) by (cases "t_events accepted_task") auto
  ultimately show ?thesis using s accepted_facts(1) by auto
qed

end
