(* ===== verification/Auth.thy ===== *)
theory Auth
  imports PyValue
begin

text \<open>
  \<open>core/auth.py\<close>: accounts, privileges, two-factor codes and session tokens of
  \<open>AuthManager\<close>, with the migrations that run when it loads its files. Hashing, TOTP and
  the random texts are fields of an environment record or arguments; moments are
  microseconds. The API tokens are the pairs (identifier, owner) of the token table that
  \<open>delete_user\<close> clears. Deleting and renaming take the configuration lock and then the
  session lock, so they are two steps each.
\<close>

section \<open>Accounts and sessions\<close>

record account =
  a_hash :: string
  a_created :: int
  a_is_admin :: "bool option"
  a_role :: "string option"
  a_privileges :: "pyval dict option"
  a_stash :: "pyval dict option"
  a_totp_secret :: "string option"
  a_totp_pending :: "string option"
  a_totp_enabled :: bool
  a_backup :: "string list option"

record login_session =
  ss_user :: string
  ss_expiry :: int

record auth_config =
  c_users :: "account dict option"
  c_legacy :: "(string \<times> string) option"   \<comment> \<open>\<open>username\<close> and \<open>password_hash\<close> of the single-user format\<close>
  c_signup :: bool

record auth_state =
  config :: auth_config
  auth_sessions :: "login_session dict"
  api_tokens :: "(string \<times> string) list"

record auth_env =
  hashpw :: "string \<Rightarrow> string \<Rightarrow> string"   \<comment> \<open>salt, password\<close>
  checkpw :: "string \<Rightarrow> string \<Rightarrow> bool"
  totp_valid :: "string \<Rightarrow> string \<Rightarrow> bool"   \<comment> \<open>secret and code, at the moment of the call\<close>

section \<open>Privileges\<close>

definition DEFAULT_PRIVILEGES :: "pyval dict" where
  "DEFAULT_PRIVILEGES = [(''can_use_agent'', PBool True), (''can_use_browser'', PBool True),
     (''can_use_bash'', PBool False), (''can_use_documents'', PBool True), (''can_use_research'', PBool True),
     (''can_generate_images'', PBool True), (''can_manage_memory'', PBool True),
     (''max_messages_per_day'', PInt 0), (''allowed_models'', PList []), (''allowed_models_restricted'', PBool False),
     (''block_all_models'', PBool False)]"

definition admin_value :: "pyval \<Rightarrow> pyval" where
  "admin_value v = (case v of PBool _ \<Rightarrow> PBool True | PInt _ \<Rightarrow> PInt 0 | _ \<Rightarrow> PList [])"

definition ADMIN_PRIVILEGES :: "pyval dict" where
  "ADMIN_PRIVILEGES = dset ''block_all_models'' (PBool False)
     (dset ''allowed_models_restricted'' (PBool False) (dmap admin_value DEFAULT_PRIVILEGES))"

text \<open>\<open>{**a, **b}\<close>.\<close>

definition dmerge :: "'v dict \<Rightarrow> 'v dict \<Rightarrow> 'v dict" where
  "dmerge a b = foldl (\<lambda>d (k, v). dset k v d) a b"

definition TOKEN_TTL :: int where "TOKEN_TTL = 604800 * 1000000"
definition PASSWORD_MIN_LENGTH :: nat where "PASSWORD_MIN_LENGTH = 8"

definition RESERVED_USERNAMES :: "string list" where
  "RESERVED_USERNAMES = [''internal-tool'', ''api'', ''demo'', ''system'']"

definition norm :: "string \<Rightarrow> string" where
  "norm username = lower (strip username)"

definition normalize_known_username :: "account dict \<Rightarrow> string \<Rightarrow> string option" where
  "normalize_known_username users username =
     (if norm username = [] \<or> dget users (norm username) = None then None else Some (norm username))"

section \<open>Loading\<close>

definition users :: "auth_state \<Rightarrow> account dict" where
  "users s = (case c_users (config s) of None \<Rightarrow> [] | Some us \<Rightarrow> us)"

definition with_users :: "account dict \<Rightarrow> auth_state \<Rightarrow> auth_state" where
  "with_users us s = s\<lparr>config := (config s)\<lparr>c_users := Some us\<rparr>\<rparr>"

definition plain_account :: "string \<Rightarrow> int \<Rightarrow> account" where
  "plain_account h now = \<lparr>a_hash = h, a_created = now, a_is_admin = None, a_role = None, a_privileges = None,
     a_stash = None, a_totp_secret = None, a_totp_pending = None, a_totp_enabled = False, a_backup = None\<rparr>"

text \<open>\<open>_load\<close> with the keys of the file normalized; later keys win.\<close>

definition load_config :: "auth_config option \<Rightarrow> auth_config" where
  "load_config file =
     (case file of
        None \<Rightarrow> \<lparr>c_users = None, c_legacy = None, c_signup = False\<rparr>
      | Some c \<Rightarrow> c\<lparr>c_users := map_option (\<lambda>us. dmerge [] (map (\<lambda>(k, a). (norm k, a)) us)) (c_users c)\<rparr>)"

definition load_sessions :: "int \<Rightarrow> login_session dict \<Rightarrow> login_session dict" where
  "load_sessions now stored = filter (\<lambda>(k, v). ss_expiry v > now) stored"

definition migrate_single_user :: "int \<Rightarrow> auth_config \<Rightarrow> auth_config" where
  "migrate_single_user now c =
     (case (c_legacy c, c_users c) of
        (Some (username, h), None) \<Rightarrow>
          let given = norm (if username = [] then ''admin'' else username);
              old_user = (if given \<in> set RESERVED_USERNAMES then ''admin'' else given)
          in \<lparr>c_users = Some [(old_user, (plain_account h now)\<lparr>a_is_admin := Some True\<rparr>)], c_legacy = None, c_signup = False\<rparr>
      | _ \<Rightarrow> c)"

definition drop_reserved :: "auth_config \<Rightarrow> auth_config" where
  "drop_reserved c =
     (case c_users c of
        None \<Rightarrow> c
      | Some us \<Rightarrow>
          c\<lparr>c_users := Some (dmerge [] (filter (\<lambda>(k, a). k \<noteq> [] \<and> k \<notin> set RESERVED_USERNAMES)
             (map (\<lambda>(k, a). (norm k, a)) us)))\<rparr>)"

definition migrate_role :: "account \<Rightarrow> account" where
  "migrate_role a = (if a_role a = Some ''admin'' \<and> a_is_admin a = None then a\<lparr>a_is_admin := Some True\<rparr> else a)"

definition migrate_legacy_admin_role :: "auth_config \<Rightarrow> auth_config" where
  "migrate_legacy_admin_role c = c\<lparr>c_users := map_option (dmap migrate_role) (c_users c)\<rparr>"

definition boot :: "int \<Rightarrow> auth_config option \<Rightarrow> login_session dict \<Rightarrow> (string \<times> string) list \<Rightarrow> auth_state" where
  "boot now file stored tokens =
     \<lparr>config = migrate_legacy_admin_role (drop_reserved (migrate_single_user now (load_config file))),
      auth_sessions = load_sessions now stored, api_tokens = tokens\<rparr>"

text \<open>What \<open>policy\<close> tells the front end.\<close>

record auth_policy =
  po_min_length :: nat
  po_reserved :: "string list"
  po_signup :: bool
  po_session_days :: int

definition public_policy :: "auth_state \<Rightarrow> auth_policy" where
  "public_policy s = \<lparr>po_min_length = PASSWORD_MIN_LENGTH, po_reserved = sort RESERVED_USERNAMES,
     po_signup = c_signup (config s), po_session_days = TOKEN_TTL div (86400 * 1000000)\<rparr>"

section \<open>Account management\<close>

definition adm :: "account \<Rightarrow> bool" where
  "adm a \<longleftrightarrow> a_is_admin a = Some True"

definition is_admin :: "string \<Rightarrow> auth_state \<Rightarrow> bool" where
  "is_admin username s = (case dget (users s) username of None \<Rightarrow> False | Some a \<Rightarrow> adm a)"

definition is_configured :: "auth_state \<Rightarrow> bool" where
  "is_configured s \<longleftrightarrow> users s \<noteq> []"

definition set_signup :: "bool \<Rightarrow> auth_state \<Rightarrow> auth_state" where
  "set_signup v s = s\<lparr>config := (config s)\<lparr>c_signup := v\<rparr>\<rparr>"

definition create_user ::
    "auth_env \<Rightarrow> string \<Rightarrow> int \<Rightarrow> string \<Rightarrow> string \<Rightarrow> bool \<Rightarrow> auth_state \<Rightarrow> auth_state \<times> bool" where
  "create_user env salt now username password admin s =
     (let u = norm username in
      if u = [] then (s, False)
      else if u \<in> set RESERVED_USERNAMES then (s, False)
      else if dget (users s) u \<noteq> None then (s, False)
      else (with_users (dset u ((plain_account (hashpw env salt password) now)
              \<lparr>a_is_admin := Some admin, a_privileges := Some (if admin then ADMIN_PRIVILEGES else DEFAULT_PRIVILEGES)\<rparr>)
              (users s)) s, True))"

definition first_setup :: "auth_env \<Rightarrow> string \<Rightarrow> int \<Rightarrow> string \<Rightarrow> string \<Rightarrow> auth_state \<Rightarrow> auth_state \<times> bool" where
  "first_setup env salt now username password s =
     (if is_configured s then (s, False) else create_user env salt now username password True s)"

text \<open>The two halves of \<open>delete_user\<close>; \<open>db\<close> says whether the token table can be reached.\<close>

definition delete_config :: "bool \<Rightarrow> string \<Rightarrow> string \<Rightarrow> auth_state \<Rightarrow> auth_state \<times> bool" where
  "delete_config db username requesting s =
     (let u = norm username in
      if dget (users s) u = None then (s, False)
      else if u = requesting then (s, False)
      else if \<not> is_admin requesting s then (s, False)
      else if \<not> db then (s, False)
      else ((with_users (dpop u (users s)) s)\<lparr>api_tokens := filter (\<lambda>(i, owner). owner \<noteq> u) (api_tokens s)\<rparr>, True))"

definition purge_sessions :: "string \<Rightarrow> auth_state \<Rightarrow> auth_state" where
  "purge_sessions username s =
     s\<lparr>auth_sessions := filter (\<lambda>(tok, ss). ss_user ss \<noteq> norm username) (auth_sessions s)\<rparr>"

definition delete_user :: "bool \<Rightarrow> string \<Rightarrow> string \<Rightarrow> auth_state \<Rightarrow> auth_state \<times> bool" where
  "delete_user db username requesting s =
     (case delete_config db username requesting s of
        (s', False) \<Rightarrow> (s', False)
      | (s', True) \<Rightarrow> (purge_sessions username s', True))"

definition rename_config :: "string \<Rightarrow> string \<Rightarrow> string \<Rightarrow> auth_state \<Rightarrow> auth_state \<times> bool" where
  "rename_config old_username new_username requesting s =
     (let old = norm old_username; new = norm new_username in
      if old = [] \<or> new = [] then (s, False)
      else if new \<in> set RESERVED_USERNAMES then (s, False)
      else case dget (users s) old of
        None \<Rightarrow> (s, False)
      | Some a \<Rightarrow>
          if dget (users s) new \<noteq> None then (s, False)
          else if \<not> is_admin (norm requesting) s then (s, False)
          else (with_users (dset new a (dpop old (users s))) s, True))"

definition rename_sessions :: "string \<Rightarrow> string \<Rightarrow> auth_state \<Rightarrow> auth_state" where
  "rename_sessions old_username new_username s =
     s\<lparr>auth_sessions := dmap (\<lambda>ss. if norm (ss_user ss) = norm old_username
         then ss\<lparr>ss_user := norm new_username\<rparr> else ss) (auth_sessions s)\<rparr>"

definition rename_user :: "string \<Rightarrow> string \<Rightarrow> string \<Rightarrow> auth_state \<Rightarrow> auth_state \<times> bool" where
  "rename_user old_username new_username requesting s =
     (case rename_config old_username new_username requesting s of
        (s', False) \<Rightarrow> (s', False)
      | (s', True) \<Rightarrow> (rename_sessions old_username new_username s', True))"

definition get_privileges :: "string \<Rightarrow> auth_state \<Rightarrow> pyval dict" where
  "get_privileges username s =
     (case dget (users s) username of
        None \<Rightarrow> DEFAULT_PRIVILEGES
      | Some a \<Rightarrow> if adm a then ADMIN_PRIVILEGES
                  else dmerge DEFAULT_PRIVILEGES (case a_privileges a of None \<Rightarrow> [] | Some p \<Rightarrow> p))"

definition list_users :: "auth_state \<Rightarrow> (string \<times> bool \<times> pyval dict) list" where
  "list_users s = map (\<lambda>(u, a). (u, adm a, get_privileges u s)) (users s)"

definition known_updates :: "pyval dict \<Rightarrow> pyval dict" where
  "known_updates privileges = filter (\<lambda>(k, v). dget DEFAULT_PRIVILEGES k \<noteq> None) privileges"

definition set_privileges :: "string \<Rightarrow> pyval dict \<Rightarrow> auth_state \<Rightarrow> auth_state \<times> bool" where
  "set_privileges username privileges s =
     (let u = norm username in
      case dget (users s) u of
        None \<Rightarrow> (s, False)
      | Some a \<Rightarrow>
          if adm a then (s, False)
          else (with_users (dset u (a\<lparr>a_privileges := Some (dmerge (get_privileges u s) (known_updates privileges))\<rparr>)
                  (users s)) s, True))"

datatype set_admin_result = Admin_ok | User_not_found | Not_authorized | Last_admin

definition or_defaults :: "pyval dict option \<Rightarrow> pyval dict" where
  "or_defaults p = (case p of None \<Rightarrow> DEFAULT_PRIVILEGES | Some d \<Rightarrow> if d = [] then DEFAULT_PRIVILEGES else d)"

definition promote :: "account \<Rightarrow> account" where
  "promote a = a\<lparr>a_is_admin := Some True, a_stash := Some (or_defaults (a_privileges a)),
     a_privileges := Some ADMIN_PRIVILEGES\<rparr>"

definition demote :: "account \<Rightarrow> account" where
  "demote a = a\<lparr>a_privileges := Some (or_defaults (a_stash a)), a_stash := None, a_is_admin := Some False\<rparr>"

definition admin_count :: "auth_state \<Rightarrow> nat" where
  "admin_count s = dcount adm (users s)"

definition set_admin :: "string \<Rightarrow> bool \<Rightarrow> string \<Rightarrow> auth_state \<Rightarrow> auth_state \<times> set_admin_result" where
  "set_admin username admin requesting s =
     (let u = norm username in
      case dget (users s) u of
        None \<Rightarrow> (s, User_not_found)
      | Some a \<Rightarrow>
          if \<not> is_admin (norm requesting) s then (s, Not_authorized)
          else if adm a = admin then (s, Admin_ok)
          else if adm a \<and> \<not> admin \<and> admin_count s \<le> 1 then (s, Last_admin)
          else (with_users (dset u (if admin then promote a else demote a) (users s)) s, Admin_ok))"

section \<open>Passwords and two-factor codes\<close>

definition verify_password :: "auth_env \<Rightarrow> string \<Rightarrow> string \<Rightarrow> auth_state \<Rightarrow> bool" where
  "verify_password env username password s =
     (case dget (users s) (norm username) of None \<Rightarrow> False | Some a \<Rightarrow> checkpw env password (a_hash a))"

definition change_password ::
    "auth_env \<Rightarrow> string \<Rightarrow> string \<Rightarrow> string \<Rightarrow> string \<Rightarrow> auth_state \<Rightarrow> auth_state \<times> bool" where
  "change_password env salt username current new s =
     (let u = norm username in
      case dget (users s) u of
        None \<Rightarrow> (s, False)
      | Some a \<Rightarrow>
          if \<not> checkpw env current (a_hash a) then (s, False)
          else (with_users (dset u (a\<lparr>a_hash := hashpw env salt new\<rparr>) (users s)) s, True))"

definition totp_enabled :: "string \<Rightarrow> auth_state \<Rightarrow> bool" where
  "totp_enabled username s =
     (case dget (users s) (norm username) of None \<Rightarrow> False | Some a \<Rightarrow> a_totp_enabled a)"

definition totp_generate_secret :: "string \<Rightarrow> string \<Rightarrow> auth_state \<Rightarrow> auth_state \<times> string option" where
  "totp_generate_secret secret username s =
     (let u = norm username in
      case dget (users s) u of
        None \<Rightarrow> (s, None)
      | Some a \<Rightarrow> (with_users (dset u (a\<lparr>a_totp_pending := Some secret\<rparr>) (users s)) s, Some secret))"

text \<open>\<open>codes\<close> are the eight backup codes drawn for the user.\<close>

definition totp_confirm_enable ::
    "auth_env \<Rightarrow> string list \<Rightarrow> string \<Rightarrow> string \<Rightarrow> auth_state \<Rightarrow> auth_state \<times> bool" where
  "totp_confirm_enable env codes username typed s =
     (let u = norm username in
      case dget (users s) u of
        None \<Rightarrow> (s, False)
      | Some a \<Rightarrow>
          (case a_totp_pending a of
             None \<Rightarrow> (s, False)
           | Some secret \<Rightarrow>
               if secret = [] \<or> \<not> totp_valid env secret typed then (s, False)
               else (with_users (dset u (a\<lparr>a_totp_secret := Some secret, a_totp_enabled := True, a_totp_pending := None,
                       a_backup := Some codes\<rparr>) (users s)) s, True)))"

definition backup_codes :: "account \<Rightarrow> string list" where
  "backup_codes a = (case a_backup a of None \<Rightarrow> [] | Some cs \<Rightarrow> cs)"

definition totp_verify :: "auth_env \<Rightarrow> string \<Rightarrow> string \<Rightarrow> auth_state \<Rightarrow> auth_state \<times> bool" where
  "totp_verify env username typed s =
     (let u = norm username in
      case dget (users s) u of
        None \<Rightarrow> (s, True)
      | Some a \<Rightarrow>
          if \<not> a_totp_enabled a then (s, True)
          else (case a_totp_secret a of
              None \<Rightarrow> (s, False)
            | Some secret \<Rightarrow>
                if secret = [] then (s, False)
                else if typed \<in> set (backup_codes a) then
                  (with_users (dset u (a\<lparr>a_backup := Some (remove1 typed (backup_codes a))\<rparr>) (users s)) s, True)
                else (s, totp_valid env secret typed)))"

definition totp_disable :: "auth_env \<Rightarrow> string \<Rightarrow> string \<Rightarrow> auth_state \<Rightarrow> auth_state \<times> bool" where
  "totp_disable env username password s =
     (let u = norm username in
      case dget (users s) u of
        None \<Rightarrow> (s, False)
      | Some a \<Rightarrow>
          if \<not> checkpw env password (a_hash a) then (s, False)
          else (with_users (dset u (a\<lparr>a_totp_secret := None, a_totp_pending := None, a_backup := None,
                  a_totp_enabled := False\<rparr>) (users s)) s, True))"

section \<open>Sessions\<close>

definition create_session_trusted :: "string \<Rightarrow> int \<Rightarrow> string \<Rightarrow> auth_state \<Rightarrow> auth_state \<times> string option" where
  "create_session_trusted token now username s =
     (let u = norm username in
      if dget (users s) u = None then (s, None)
      else (s\<lparr>auth_sessions := dset token \<lparr>ss_user = u, ss_expiry = now + TOKEN_TTL\<rparr> (auth_sessions s)\<rparr>, Some token))"

definition create_session ::
    "auth_env \<Rightarrow> string \<Rightarrow> int \<Rightarrow> string \<Rightarrow> string \<Rightarrow> auth_state \<Rightarrow> auth_state \<times> string option" where
  "create_session env token now username password s =
     (if verify_password env username password s then create_session_trusted token now (norm username) s else (s, None))"

definition get_username_for_token :: "int \<Rightarrow> string \<Rightarrow> auth_state \<Rightarrow> auth_state \<times> string option" where
  "get_username_for_token now token s =
     (if token = [] then (s, None)
      else case dget (auth_sessions s) token of
        None \<Rightarrow> (s, None)
      | Some ss \<Rightarrow>
          if now > ss_expiry ss \<or> dget (users s) (ss_user ss) = None
          then (s\<lparr>auth_sessions := dpop token (auth_sessions s)\<rparr>, None)
          else (s, Some (ss_user ss)))"

definition validate_token :: "int \<Rightarrow> string \<Rightarrow> auth_state \<Rightarrow> auth_state \<times> bool" where
  "validate_token now token s =
     (if token = [] then (s, False)
      else case dget (auth_sessions s) token of
        None \<Rightarrow> (s, False)
      | Some ss \<Rightarrow>
          if now > ss_expiry ss then (s\<lparr>auth_sessions := dpop token (auth_sessions s)\<rparr>, False)
          else if dget (users s) (ss_user ss) = None
            then (s\<lparr>auth_sessions := dpop token (auth_sessions s)\<rparr>, False)
          else (s, True))"

definition revoke_token :: "string \<Rightarrow> auth_state \<Rightarrow> auth_state" where
  "revoke_token token s = s\<lparr>auth_sessions := dpop token (auth_sessions s)\<rparr>"

definition revoke_user_sessions :: "string \<Rightarrow> string option \<Rightarrow> auth_state \<Rightarrow> auth_state \<times> nat" where
  "revoke_user_sessions username except_token s =
     (let drop = (\<lambda>(tok, ss). Some tok \<noteq> except_token \<and> ss_user ss = norm username) in
      (s\<lparr>auth_sessions := filter (\<lambda>e. \<not> drop e) (auth_sessions s)\<rparr>, length (filter drop (auth_sessions s))))"

record auth_status =
  st_configured :: bool
  st_authenticated :: bool
  st_username :: "string option"
  st_is_admin :: bool
  st_privileges :: "pyval dict option"

definition status :: "int \<Rightarrow> string \<Rightarrow> auth_state \<Rightarrow> auth_state \<times> auth_status" where
  "status now token s =
     (case get_username_for_token now token s of
        (s', username) \<Rightarrow>
          (s', \<lparr>st_configured = is_configured s', st_authenticated = (username \<noteq> None), st_username = username,
            st_is_admin = (case username of None \<Rightarrow> False | Some u \<Rightarrow> u \<noteq> [] \<and> is_admin u s'),
            st_privileges = map_option (\<lambda>u. get_privileges u s') username\<rparr>))"

section \<open>Runs\<close>

datatype auth_op =
    A_signup bool
  | A_setup auth_env string int string string
  | A_create auth_env string int string string bool
  | A_delete bool string string
  | A_purge string
  | A_rename string string string
  | A_rename_sessions string string
  | A_privileges string "pyval dict"
  | A_set_admin string bool string
  | A_password auth_env string string string string
  | A_secret string string
  | A_confirm auth_env "string list" string string
  | A_totp auth_env string string
  | A_totp_off auth_env string string
  | A_login string int string
  | A_check int string
  | A_logout string
  | A_revoke string "string option"

fun auth_step :: "auth_state \<Rightarrow> auth_op \<Rightarrow> auth_state" where
  "auth_step s (A_signup v) = set_signup v s"
| "auth_step s (A_setup env salt now u p) = fst (first_setup env salt now u p s)"
| "auth_step s (A_create env salt now u p admin) = fst (create_user env salt now u p admin s)"
| "auth_step s (A_delete db u r) = fst (delete_config db u r s)"
| "auth_step s (A_purge u) = purge_sessions u s"
| "auth_step s (A_rename old new r) = fst (rename_config old new r s)"
| "auth_step s (A_rename_sessions old new) = rename_sessions old new s"
| "auth_step s (A_privileges u p) = fst (set_privileges u p s)"
| "auth_step s (A_set_admin u b r) = fst (set_admin u b r s)"
| "auth_step s (A_password env salt u c n) = fst (change_password env salt u c n s)"
| "auth_step s (A_secret secret u) = fst (totp_generate_secret secret u s)"
| "auth_step s (A_confirm env codes u c) = fst (totp_confirm_enable env codes u c s)"
| "auth_step s (A_totp env u c) = fst (totp_verify env u c s)"
| "auth_step s (A_totp_off env u p) = fst (totp_disable env u p s)"
| "auth_step s (A_login token now u) = fst (create_session_trusted token now u s)"
| "auth_step s (A_check now token) = fst (validate_token now token s)"
| "auth_step s (A_logout token) = revoke_token token s"
| "auth_step s (A_revoke u t) = fst (revoke_user_sessions u t s)"


section \<open>Names\<close>

lemma norm_twice [simp]: "norm (norm u) = norm u"
proof -
  have "lower (lower x) = lower x" for x by (simp add: lower_def)
  then show ?thesis by (simp add: norm_def strip_lower strip_twice)
qed

section \<open>Frames\<close>

lemma users_with [simp]: "users (with_users us s) = us"
  by (simp add: users_def with_users_def)

lemma with_users_frame [simp]:
  "auth_sessions (with_users us s) = auth_sessions s" "api_tokens (with_users us s) = api_tokens s"
  by (simp_all add: with_users_def)

lemma users_sessions [simp]:
  "users (s\<lparr>auth_sessions := x\<rparr>) = users s" "users (s\<lparr>api_tokens := y\<rparr>) = users s"
  by (simp_all add: users_def)

lemma sessions_only [simp]:
  "users (purge_sessions u s) = users s" "users (rename_sessions u v s) = users s"
  "users (revoke_token t s) = users s" "users (fst (revoke_user_sessions u e s)) = users s"
  "users (fst (create_session_trusted t now u s)) = users s" "users (fst (validate_token now t s)) = users s"
  "users (set_signup b s) = users s"
  by (simp_all add: purge_sessions_def rename_sessions_def revoke_token_def revoke_user_sessions_def
      create_session_trusted_def validate_token_def set_signup_def users_def Let_def split: option.split)

lemma wf_users_step: "wf_dict (users s) \<Longrightarrow> wf_dict (users (auth_step s op))"
  by (cases op) (auto simp: first_setup_def create_user_def delete_config_def rename_config_def set_privileges_def
      set_admin_def change_password_def totp_generate_secret_def totp_confirm_enable_def totp_verify_def
      totp_disable_def Let_def split: option.split)


section \<open>An administrator remains\<close>

definition admin_inv :: "auth_state \<Rightarrow> bool" where
  "admin_inv s \<longleftrightarrow> wf_dict (users s) \<and> (\<exists>u. is_admin u s)"

lemma is_admin_with: "is_admin u (with_users us s) = (case dget us u of None \<Rightarrow> False | Some a \<Rightarrow> adm a)"
  by (simp add: is_admin_def)

lemma admin_updated:
  "is_admin r s \<Longrightarrow> dget (users s) u = Some a \<Longrightarrow> adm b = adm a \<Longrightarrow> is_admin r (with_users (dset u b (users s)) s)"
  by (auto simp: is_admin_with is_admin_def split: option.splits)

lemma admin_kept:
  "is_admin r s \<Longrightarrow> users s' = users s \<Longrightarrow> is_admin r s'"
  by (simp add: is_admin_def)

lemma adm_updates [simp]:
  "adm (a\<lparr>a_hash := x1\<rparr>) = adm a" "adm (a\<lparr>a_privileges := x2\<rparr>) = adm a" "adm (a\<lparr>a_totp_pending := x3\<rparr>) = adm a"
  "adm (a\<lparr>a_backup := x4\<rparr>) = adm a" "adm (a\<lparr>a_totp_secret := x5\<rparr>) = adm a" "adm (a\<lparr>a_totp_enabled := x6\<rparr>) = adm a"
  "adm (promote a)" "\<not> adm (demote a)"
  by (simp_all add: adm_def promote_def demote_def)

lemma two_admins:
  assumes "wf_dict d" "dget d u = Some a" "adm a" "1 < dcount adm d"
  shows "\<exists>r b. r \<noteq> u \<and> dget d r = Some b \<and> adm b"
proof -
  have "dcount adm (dpop u d) + of_bool (adm a) = dcount adm d"
    using assms(1,2) by (rule dcount_dpop)
  then have "dcount adm (dpop u d) \<noteq> 0" using assms(3,4) by simp
  then obtain v where v: "v \<in> set (dvals (dpop u d))" "adm v" unfolding dcount_zero by blast
  have "wf_dict (dpop u d)" using assms(1) by simp
  from in_vals_dget [OF this v(1)] obtain k where "dget (dpop u d) k = Some v" ..
  then have "k \<noteq> u \<and> dget d k = Some v" by (simp split: if_splits)
  with v(2) show ?thesis by (intro exI [of _ k] exI [of _ v]) simp
qed

lemma set_admin_keeps_one:
  assumes "admin_inv s" shows "\<exists>r. is_admin r (fst (set_admin u b q s))"
proof (cases "dget (users s) (norm u)")
  case None
  with assms show ?thesis by (auto simp: set_admin_def Let_def admin_inv_def)
next
  case (Some a)
  show ?thesis
  proof (cases "is_admin (norm q) s \<and> adm a \<noteq> b \<and> \<not> (adm a \<and> \<not> b \<and> admin_count s \<le> 1)")
    case False
    with Some have "fst (set_admin u b q s) = s" by (auto simp: set_admin_def Let_def)
    with assms show ?thesis by (simp add: admin_inv_def)
  next
    case True
    then have eq: "fst (set_admin u b q s) = with_users (dset (norm u) (if b then promote a else demote a) (users s)) s"
      using Some by (auto simp: set_admin_def Let_def)
    show ?thesis
    proof (cases b)
      case True
      with eq show ?thesis by (auto simp: is_admin_with intro!: exI [of _ "norm u"])
    next
      case False
      with True have "adm a" "1 < dcount adm (users s)" by (auto simp: admin_count_def)
      then obtain r c where "r \<noteq> norm u" "dget (users s) r = Some c" "adm c"
        using two_admins [OF _ Some] assms by (auto simp: admin_inv_def)
      with eq show ?thesis by (auto simp: is_admin_with intro!: exI [of _ r])
    qed
  qed
qed

lemma rename_keeps_admin:
  assumes "is_admin r s" shows "\<exists>r. is_admin r (fst (rename_config x y q s))"
proof (cases "snd (rename_config x y q s)")
  case False
  then have "fst (rename_config x y q s) = s"
    by (auto simp: rename_config_def Let_def split: option.splits if_splits)
  with assms show ?thesis by auto
next
  case True
  then obtain a where a: "dget (users s) (norm x) = Some a" "dget (users s) (norm y) = None"
    "fst (rename_config x y q s) = with_users (dset (norm y) a (dpop (norm x) (users s))) s"
    by (auto simp: rename_config_def Let_def split: option.splits if_splits)
  show ?thesis
  proof (cases "r = norm x")
    case True
    with a assms show ?thesis by (auto simp: is_admin_with is_admin_def intro!: exI [of _ "norm y"])
  next
    case False
    with a assms show ?thesis
      by (auto simp: is_admin_with is_admin_def intro!: exI [of _ r] split: option.splits)
  qed
qed

lemma delete_keeps_admin:
  assumes "is_admin r s" shows "\<exists>r. is_admin r (fst (delete_config db u q s))"
proof (cases "snd (delete_config db u q s)")
  case False
  then have "fst (delete_config db u q s) = s" by (auto simp: delete_config_def Let_def split: if_splits)
  with assms show ?thesis by auto
next
  case True
  then have "q \<noteq> norm u" "is_admin q s" "users (fst (delete_config db u q s)) = dpop (norm u) (users s)"
    by (auto simp: delete_config_def Let_def split: if_splits)
  then show ?thesis by (auto simp: is_admin_def intro!: exI [of _ q])
qed

lemma create_keeps_admin:
  "is_admin r s \<Longrightarrow> is_admin r (fst (create_user env salt now u p b s))"
  by (auto simp: create_user_def Let_def is_admin_with is_admin_def split: option.splits)

lemma admin_step: "admin_inv s \<Longrightarrow> admin_inv (auth_step s op)"
proof -
  assume inv: "admin_inv s"
  then obtain r where r: "is_admin r s" and wf: "wf_dict (users s)" by (auto simp: admin_inv_def)
  have "\<exists>r. is_admin r (auth_step s op)"
  proof (cases op)
    case (A_set_admin u b q)
    with set_admin_keeps_one [OF inv] show ?thesis by simp
  next
    case (A_rename x y q)
    with rename_keeps_admin [OF r] show ?thesis by simp
  next
    case (A_delete db u q)
    with delete_keeps_admin [OF r] show ?thesis by simp
  qed (use r in \<open>auto intro!: exI [of _ r] create_keeps_admin admin_updated intro: admin_kept
        simp: first_setup_def set_privileges_def change_password_def totp_generate_secret_def
          totp_confirm_enable_def totp_verify_def totp_disable_def Let_def split: option.split\<close>)
  with wf_users_step [OF wf] show ?thesis by (simp add: admin_inv_def)
qed

interpretation admins: invariant_system auth_step admin_inv
  by unfold_locales (rule admin_step)

text \<open>
  Claim C7. The instance can never be locked out of administration: once an account is an
  administrator, every sequence of operations (creations, deletions, renamings, promotions and
  demotions by anyone, with the two halves of deletions and renamings in any interleaving)
  leaves some account an administrator.
\<close>

theorem admin_always_remains:
  assumes "wf_dict (users s)" and "is_admin u s"
  shows "\<exists>r. is_admin r (run auth_step s ops)"
proof -
  have "admin_inv s" using assms by (auto simp: admin_inv_def)
  then have "admin_inv (run auth_step s ops)" by (rule admins.run_inv)
  then show ?thesis by (simp add: admin_inv_def)
qed

definition demo_env :: auth_env where
  "demo_env = \<lparr>hashpw = (\<lambda>salt p. salt @ p), checkpw = (\<lambda>p h. ends_with p h), totp_valid = (\<lambda>secret c. c = secret)\<rparr>"

definition demo_auth :: auth_state where
  "demo_auth = \<lparr>config = \<lparr>c_users = Some [(''root'', (plain_account ''pw'' 0)\<lparr>a_is_admin := Some True\<rparr>),
     (''ann'', plain_account ''pw'' 0)], c_legacy = None, c_signup = True\<rparr>, auth_sessions = [], api_tokens = []\<rparr>"

theorem admin_always_remains_witness:
  "\<exists>r. is_admin r (run auth_step demo_auth [A_set_admin ''ann'' True ''root'', A_set_admin ''root'' False ''root'',
     A_delete True ''root'' ''ann'', A_set_admin ''ann'' False ''ann''])"
proof (rule admin_always_remains)
  show "wf_dict (users demo_auth)" by (simp add: demo_auth_def users_def)
  show "is_admin ''root'' demo_auth" by (simp add: demo_auth_def users_def is_admin_def adm_def)
qed


section \<open>Names of accounts\<close>

definition good_name :: "string \<Rightarrow> bool" where
  "good_name u \<longleftrightarrow> u \<noteq> [] \<and> norm u = u \<and> u \<notin> set RESERVED_USERNAMES"

definition names_inv :: "auth_state \<Rightarrow> bool" where
  "names_inv s \<longleftrightarrow> wf_dict (users s) \<and> (\<forall>u. dget (users s) u \<noteq> None \<longrightarrow> good_name u)"

lemma names_step: "names_inv s \<Longrightarrow> names_inv (auth_step s op)"
proof -
  assume inv: "names_inv s"
  then have wf: "wf_dict (users s)" and ok: "\<And>u. dget (users s) u \<noteq> None \<Longrightarrow> good_name u"
    by (auto simp: names_inv_def)
  have "dget (users (auth_step s op)) u \<noteq> None \<Longrightarrow> good_name u" for u
    by (cases op) (use ok [of u] in \<open>auto simp: first_setup_def create_user_def delete_config_def rename_config_def
      set_privileges_def set_admin_def change_password_def totp_generate_secret_def totp_confirm_enable_def
      totp_verify_def totp_disable_def good_name_def Let_def split: option.splits if_splits\<close>)
  with wf_users_step [OF wf] show ?thesis by (simp add: names_inv_def)
qed

interpretation account_names: invariant_system auth_step names_inv
  by unfold_locales (rule names_step)

lemma dset_fold_wf: "wf_dict a \<Longrightarrow> wf_dict (foldl (\<lambda>d (k, v). dset k v d) a b)"
  by (induction b arbitrary: a) auto

lemma dset_fold_keys:
  "fst ` set (foldl (\<lambda>d (k, v). dset k v d) a b) = fst ` set a \<union> fst ` set b"
  by (induction b arbitrary: a) (simp_all add: case_prod_unfold)

lemma wf_dmerge: "wf_dict a \<Longrightarrow> wf_dict (dmerge a b)"
  by (simp add: dmerge_def dset_fold_wf)

lemma keys_dmerge: "fst ` set (dmerge a b) = fst ` set a \<union> fst ` set b"
  by (simp add: dmerge_def dset_fold_keys)

lemma names_boot: "names_inv (boot now file stored tokens)"
proof -
  let ?c = "migrate_single_user now (load_config file)"
  have us: "users (boot now file stored tokens) =
      (case c_users ?c of None \<Rightarrow> [] | Some us \<Rightarrow> dmap migrate_role (dmerge []
         (filter (\<lambda>(k, a). k \<noteq> [] \<and> k \<notin> set RESERVED_USERNAMES) (map (\<lambda>(k, a). (norm k, a)) us))))"
    by (simp add: users_def boot_def drop_reserved_def migrate_legacy_admin_role_def split: option.split)
  have keys: "fst ` set (dmap f d) = fst ` set d" for f :: "account \<Rightarrow> account" and d
    by (auto simp: dmap_def image_image case_prod_unfold)
  have "wf_dict (users (boot now file stored tokens))"
    by (simp add: us wf_dmerge split: option.split)
  moreover have "\<forall>u \<in> fst ` set (users (boot now file stored tokens)). good_name u"
    unfolding us option.case_distrib [of "\<lambda>d. fst ` set d"] keys keys_dmerge
    by (auto simp: good_name_def split: option.split)
  ultimately show ?thesis unfolding names_inv_def dget_None_dkeys by auto
qed

text \<open>
  Claim C31. Whatever the configuration file held, after the migrations of a start and any
  sequence of operations every account has a normalized, non-empty name, which is none of the
  synthetic owners that the middleware trusts (\<open>internal-tool\<close> is treated as an administrator
  by every gated route).
\<close>

theorem reserved_names_never_accounts:
  "dget (users (run auth_step (boot now file stored tokens) ops)) u = Some a
     \<Longrightarrow> u \<noteq> [] \<and> norm u = u \<and> u \<notin> set RESERVED_USERNAMES"
proof -
  assume "dget (users (run auth_step (boot now file stored tokens) ops)) u = Some a"
  moreover have "names_inv (run auth_step (boot now file stored tokens) ops)"
    by (rule account_names.run_inv) (rule names_boot)
  ultimately have "good_name u" by (simp add: names_inv_def)
  then show ?thesis by (simp add: good_name_def)
qed

definition reserved_file :: auth_config where
  "reserved_file = \<lparr>c_users = Some [('' Internal-Tool '', plain_account ''x'' 0), (''Bob '', plain_account ''y'' 0)],
     c_legacy = None, c_signup = True\<rparr>"

theorem reserved_names_never_accounts_witness:
  "(''bob'' :: string) \<noteq> [] \<and> norm ''bob'' = ''bob'' \<and> (''bob'' :: string) \<notin> set RESERVED_USERNAMES"
proof (rule reserved_names_never_accounts)
  show "dget (users (run auth_step (boot 0 (Some reserved_file) [] []) [A_create demo_env [] 1 ''SYSTEM'' ''pw'' False])) ''bob''
    = Some (plain_account ''y'' 0)" by code_simp
qed

section \<open>Sessions\<close>

text \<open>A login draws a token; no other operation makes a token appear.\<close>

definition draws :: "string \<Rightarrow> auth_op \<Rightarrow> bool" where
  "draws token op \<longleftrightarrow> (case op of A_login t _ _ \<Rightarrow> t = token | _ \<Rightarrow> False)"

lemma dget_filter_absent: "dget d k = None \<Longrightarrow> dget (filter P d) k = None"
  by (induction d) (auto split: if_splits)

lemma no_session_step:
  "dget (auth_sessions s) token = None \<Longrightarrow> \<not> draws token op \<Longrightarrow> dget (auth_sessions (auth_step s op)) token = None"
  by (cases op) (auto simp: first_setup_def create_user_def delete_config_def rename_config_def set_privileges_def
      set_admin_def change_password_def totp_generate_secret_def totp_confirm_enable_def totp_verify_def
      totp_disable_def draws_def purge_sessions_def rename_sessions_def revoke_token_def revoke_user_sessions_def
      create_session_trusted_def validate_token_def set_signup_def dget_filter_absent Let_def split: option.split)

interpretation dead_token: guarded_system auth_step "\<lambda>s. dget (auth_sessions s) token = None" "\<lambda>op. \<not> draws token op"
  for token
  by unfold_locales (rule no_session_step)

lemma delete_user_effect:
  assumes "delete_user db u q s = (s', True)"
  shows "dget (users s') (norm u) = None"
    and "auth_sessions s' = filter (\<lambda>(tok, ss). ss_user ss \<noteq> norm u) (auth_sessions s)"
    and "api_tokens s' = filter (\<lambda>(i, owner). owner \<noteq> norm u) (api_tokens s)"
  using assms by (auto simp: delete_user_def delete_config_def purge_sessions_def Let_def users_def with_users_def
      split: if_splits)

text \<open>
  Claim C11. A deleted user is locked out for good: after a successful deletion the account and
  its API tokens are gone, and no session token that was theirs authenticates in any later
  state of any run, even when an account of the same name is created again, unless a login
  draws that very token anew.
\<close>

theorem deleted_user_stays_out:
  assumes "delete_user db u q s = (s', True)" and "wf_dict (auth_sessions s)"
    and "dget (auth_sessions s) token = Some ss" and "ss_user ss = norm u"
    and "list_all (\<lambda>op. \<not> draws token op) ops"
  shows "dget (users s') (norm u) = None \<and> norm u \<notin> snd ` set (api_tokens s')
     \<and> \<not> snd (validate_token now token (run auth_step s' ops))
     \<and> snd (get_username_for_token now token (run auth_step s' ops)) = None"
proof -
  have "dget (auth_sessions s') token = None"
    using assms(2-4) by (simp add: delete_user_effect(2) [OF assms(1)] dget_filter)
  then have "dget (auth_sessions (run auth_step s' ops)) token = None"
    using assms(5) by (rule dead_token.guarded_run)
  moreover have "norm u \<notin> snd ` set (api_tokens s')"
    by (auto simp: delete_user_effect(3) [OF assms(1)])
  ultimately show ?thesis
    using delete_user_effect(1) [OF assms(1)] by (auto simp: validate_token_def get_username_for_token_def)
qed

definition logged_in :: auth_state where
  "logged_in = demo_auth\<lparr>auth_sessions := [(''t1'', \<lparr>ss_user = ''ann'', ss_expiry = 100\<rparr>),
     (''t2'', \<lparr>ss_user = ''root'', ss_expiry = 100\<rparr>)], api_tokens := [(''k1'', ''ann'')]\<rparr>"

theorem deleted_user_stays_out_witness:
  "\<not> snd (validate_token 5 ''t1'' (run auth_step (fst (delete_user True ''Ann'' ''root'' logged_in))
      [A_create demo_env [] 1 ''ann'' ''pw'' False, A_login ''t3'' 2 ''ann'']))"
proof -
  have "delete_user True ''Ann'' ''root'' logged_in = (fst (delete_user True ''Ann'' ''root'' logged_in), True)"
    by code_simp
  moreover have "wf_dict (auth_sessions logged_in)"
      "dget (auth_sessions logged_in) ''t1'' = Some \<lparr>ss_user = ''ann'', ss_expiry = 100\<rparr>" "norm ''Ann'' = ''ann''"
    by code_simp+
  ultimately show ?thesis
    using deleted_user_stays_out [of True "''Ann''" "''root''" logged_in "fst (delete_user True ''Ann'' ''root'' logged_in)"
        "''t1''" "\<lparr>ss_user = ''ann'', ss_expiry = 100\<rparr>"
        "[A_create demo_env [] 1 ''ann'' ''pw'' False, A_login ''t3'' 2 ''ann'']" 5]
    by (simp add: draws_def)
qed


text \<open>
  The two routines that check a session token are the same check: they leave the
  same state, and one answers yes exactly when the other names a user, who then is an account
  that holds an unexpired session of this token.
\<close>

theorem token_checks_agree:
  "fst (validate_token now token s) = fst (get_username_for_token now token s)
   \<and> (snd (validate_token now token s) \<longleftrightarrow> snd (get_username_for_token now token s) \<noteq> None)
   \<and> (snd (get_username_for_token now token s) = Some u \<longleftrightarrow>
        token \<noteq> [] \<and> dget (users s) u \<noteq> None
        \<and> (\<exists>ss. dget (auth_sessions s) token = Some ss \<and> ss_user ss = u \<and> now \<le> ss_expiry ss))"
  by (auto simp: validate_token_def get_username_for_token_def split: option.split)

section \<open>Promotion and demotion\<close>

lemma DEFAULT_twice: "dmerge DEFAULT_PRIVILEGES DEFAULT_PRIVILEGES = DEFAULT_PRIVILEGES"
  by (simp add: dmerge_def DEFAULT_PRIVILEGES_def)

lemma merge_or_defaults:
  "dmerge DEFAULT_PRIVILEGES (or_defaults p) = dmerge DEFAULT_PRIVILEGES (case p of None \<Rightarrow> [] | Some d \<Rightarrow> d)"
  by (auto simp: or_defaults_def DEFAULT_twice dmerge_def [of _ "[]"] split: option.split)

lemma or_defaults_twice: "or_defaults (Some (or_defaults p)) = or_defaults p"
  by (auto simp: or_defaults_def DEFAULT_PRIVILEGES_def split: option.split)

text \<open>
  A stint as an administrator does not change what a user may do afterwards:
  promoting an ordinary account and later demoting it restores exactly the privileges it had,
  and all that changes while it lasts is the account itself.
\<close>

theorem promote_demote_roundtrip:
  assumes "set_admin u True q s = (s1, Admin_ok)" and "\<not> is_admin (norm u) s"
    and "set_admin u False q' s1 = (s2, Admin_ok)"
  shows "get_privileges (norm u) s1 = ADMIN_PRIVILEGES
    \<and> get_privileges (norm u) s2 = get_privileges (norm u) s \<and> \<not> is_admin (norm u) s2
    \<and> (\<forall>v. v \<noteq> norm u \<longrightarrow> dget (users s2) v = dget (users s) v) \<and> auth_sessions s2 = auth_sessions s"
proof -
  from assms(1) obtain a where a: "dget (users s) (norm u) = Some a"
    by (auto simp: set_admin_def Let_def split: option.splits)
  with assms(2) have no: "\<not> adm a" by (simp add: is_admin_def)
  with assms(1) a have s1: "s1 = with_users (dset (norm u) (promote a) (users s)) s"
    by (auto simp: set_admin_def Let_def split: if_splits)
  then have u1: "dget (users s1) (norm u) = Some (promote a)" by simp
  with assms(3) have s2: "s2 = with_users (dset (norm u) (demote (promote a)) (users s1)) s1"
    by (auto simp: set_admin_def Let_def split: if_splits)
  have "a_privileges (demote (promote a)) = Some (or_defaults (a_privileges a))"
    by (simp add: demote_def promote_def or_defaults_twice)
  with no a have "get_privileges (norm u) s2 = get_privileges (norm u) s"
    by (simp add: s2 get_privileges_def merge_or_defaults)
  with s1 show ?thesis by (simp add: s2 get_privileges_def is_admin_def)
qed

definition picky :: auth_state where
  "picky = demo_auth\<lparr>config := \<lparr>c_users = Some [(''root'', (plain_account ''pw'' 0)\<lparr>a_is_admin := Some True\<rparr>),
     (''ann'', (plain_account ''pw'' 0)\<lparr>a_privileges := Some [(''can_use_agent'', PBool False)]\<rparr>)], c_legacy = None, c_signup = True\<rparr>\<rparr>"

theorem promote_demote_roundtrip_witness:
  "dget (get_privileges ''ann'' (fst (set_admin ''ann'' False ''root'' (fst (set_admin ''ann'' True ''root'' picky)))))
     ''can_use_agent'' = Some (PBool False)"
proof -
  have "set_admin ''ann'' True ''root'' picky = (fst (set_admin ''ann'' True ''root'' picky), Admin_ok)"
    and "set_admin ''ann'' False ''root'' (fst (set_admin ''ann'' True ''root'' picky))
      = (fst (set_admin ''ann'' False ''root'' (fst (set_admin ''ann'' True ''root'' picky))), Admin_ok)"
    and no: "\<not> is_admin (norm ''ann'') picky" and n: "norm ''ann'' = ''ann''"
    and p: "dget (get_privileges ''ann'' picky) ''can_use_agent'' = Some (PBool False)"
    by code_simp+
  then show ?thesis
    using promote_demote_roundtrip [of "''ann''" "''root''" picky] by simp
qed

section \<open>Second factor\<close>

text \<open>
  With two-factor login enabled a code is accepted only as a current code of the
  stored secret or as an unused backup code, which is spent by it: the copies of that code
  left are one fewer, and nothing else of any account changes. A missing secret refuses every
  code.
\<close>

theorem second_factor_sound:
  assumes "totp_enabled u s" and "totp_verify env u typed s = (s', True)"
  shows "\<exists>a secret. dget (users s) (norm u) = Some a \<and> a_totp_secret a = Some secret \<and> secret \<noteq> []
    \<and> (typed \<notin> set (backup_codes a) \<and> totp_valid env secret typed \<and> s' = s
       \<or> (\<exists>a'. dget (users s') (norm u) = Some a' \<and> a' = a\<lparr>a_backup := a_backup a'\<rparr>
            \<and> Suc (count_list (backup_codes a') typed) = count_list (backup_codes a) typed
            \<and> (\<forall>c. c \<noteq> typed \<longrightarrow> count_list (backup_codes a') c = count_list (backup_codes a) c)
            \<and> (\<forall>v. v \<noteq> norm u \<longrightarrow> dget (users s') v = dget (users s) v)))"
proof -
  from assms(1) obtain a where a: "dget (users s) (norm u) = Some a" "a_totp_enabled a"
    by (auto simp: totp_enabled_def split: option.splits)
  with assms(2) obtain secret where secret: "a_totp_secret a = Some secret" "secret \<noteq> []"
    by (auto simp: totp_verify_def Let_def split: option.splits if_splits)
  have removed: "c \<in> set cs \<Longrightarrow> Suc (count_list (remove1 c cs) c) = count_list cs c"
    and others: "d \<noteq> c \<Longrightarrow> count_list (remove1 c cs) d = count_list cs d" for c d :: string and cs
    by (induction cs) auto
  show ?thesis
  proof (cases "typed \<in> set (backup_codes a)")
    case True
    with assms(2) a secret
    have s': "s' = with_users (dset (norm u) (a\<lparr>a_backup := Some (remove1 typed (backup_codes a))\<rparr>) (users s)) s"
      by (auto simp: totp_verify_def Let_def)
    have codes: "backup_codes (a\<lparr>a_backup := Some cs\<rparr>) = cs" for cs by (simp add: backup_codes_def)
    show ?thesis
      unfolding s' using a(1) secret removed [OF True] others codes by (intro exI [of _ a] exI [of _ secret]) simp
  next
    case False
    with assms(2) a secret have "totp_valid env secret typed" "s' = s" by (auto simp: totp_verify_def Let_def)
    with False a(1) secret show ?thesis by blast
  qed
qed

definition two_factor :: auth_state where
  "two_factor = fst (totp_confirm_enable demo_env [''b1'', ''b2''] ''ann'' ''sec'' (fst (totp_generate_secret ''sec'' ''ann'' demo_auth)))"

theorem second_factor_sound_witness:
  "\<exists>a secret. dget (users two_factor) (norm ''ann'') = Some a \<and> a_totp_secret a = Some secret \<and> secret \<noteq> []
    \<and> (''b1'' \<notin> set (backup_codes a) \<and> totp_valid demo_env secret ''b1'' \<and> fst (totp_verify demo_env ''ann'' ''b1'' two_factor) = two_factor
       \<or> (\<exists>a'. dget (users (fst (totp_verify demo_env ''ann'' ''b1'' two_factor))) (norm ''ann'') = Some a' \<and> a' = a\<lparr>a_backup := a_backup a'\<rparr>
            \<and> Suc (count_list (backup_codes a') ''b1'') = count_list (backup_codes a) ''b1''
            \<and> (\<forall>c. c \<noteq> ''b1'' \<longrightarrow> count_list (backup_codes a') c = count_list (backup_codes a) c)
            \<and> (\<forall>v. v \<noteq> norm ''ann'' \<longrightarrow> dget (users (fst (totp_verify demo_env ''ann'' ''b1'' two_factor))) v = dget (users two_factor) v)))"
proof (rule second_factor_sound)
  show "totp_enabled ''ann'' two_factor" by code_simp
  have "snd (totp_verify demo_env ''ann'' ''b1'' two_factor)" by code_simp
  then show "totp_verify demo_env ''ann'' ''b1'' two_factor = (fst (totp_verify demo_env ''ann'' ''b1'' two_factor), True)"
    by (simp add: prod_eq_iff)
qed

section \<open>The window inside a renaming\<close>

text \<open>
  The account is renamed under the configuration lock and its sessions only afterwards:
  whoever signs up under the freed name and logs in before the second step is handed, by it, a
  session of the renamed account.
\<close>

theorem rename_hands_over_session:
  "snd (get_username_for_token 3 ''tok''
     (run auth_step demo_auth
        [A_rename ''ann'' ''anna'' ''root'', A_create demo_env [] 1 ''ann'' ''other'' False, A_login ''tok'' 2 ''ann'',
         A_rename_sessions ''ann'' ''anna''])) = Some ''anna''"
  by code_simp

end
