(* ===== verification/Operational.thy ===== *)
theory Operational
  imports AuthorityPolicy
begin

text \<open>
  \<open>src/operational_protocol.py\<close>: the event store (JOS-P7) with its queries and the
  reconciliation of unknown outcomes, the registry of component versions with promotion and
  rollback, the backup status and the mount records. Moments are microseconds, a duration is
  the whole microseconds that \<open>round(..., 6)\<close> keeps, and identifiers and digests are arguments.
\<close>

section \<open>Events\<close>

definition OUTCOME_STATES :: "string list" where
  "OUTCOME_STATES = [''succeeded'', ''failed'', ''denied'', ''cancelled'', ''timed_out'', ''unknown'', ''degraded'', ''unavailable'']"

definition AUDIT_STATES :: "string list" where
  "AUDIT_STATES = [''requested'', ''authorized'', ''executed'']"

definition OP_EVENT_TYPES :: "string list" where
  "OP_EVENT_TYPES = [''started'', ''progress'', ''result'', ''approval'', ''health'', ''recovery'', ''promotion'',
     ''rollback'', ''response'']"

definition PROTOCOL_VERSIONS :: "string dict" where
  "PROTOCOL_VERSIONS = [(''JOS-P0'', ''0.1''), (''JOS-P1'', ''0.1''), (''JOS-P2'', ''0.2''), (''JOS-P3'', ''0.2''),
     (''JOS-P4'', ''0.2''), (''JOS-P5'', ''0.2''), (''JOS-P6'', ''0.2''), (''JOS-P7'', ''0.2''), (''JOS-EXT-1'', ''0.1'')]"

text \<open>What a caller may pass as \<open>error\<close>: a JSON value or an exception of some class.\<close>

datatype op_error = Err_value pyval | Err_exception string

definition controlled_error :: "op_error \<Rightarrow> (string \<times> string) option" where
  "controlled_error e =
     (case e of
        Err_exception name \<Rightarrow> Some (take 80 name, ''operation failed'')
      | Err_value v \<Rightarrow>
          if \<not> truthy v then None
          else case v of
              PDict d \<Rightarrow>
                let category = take 80 (py_str (py_or (pget d ''category'') (PStr ''error'')))
                in Some (category, take 1000 (py_str (redact_secrets (py_or (pget d ''detail'') (PStr category)))))
            | _ \<Rightarrow> Some (''error'', take 1000 (py_str (redact_secrets v))))"

record op_call =
  oc_request :: "string option"
  oc_session :: "string option"
  oc_task :: "string option"
  oc_call :: "string option"
  oc_operator :: "string option"
  oc_agent :: "string option"
  oc_actor :: string
  oc_component :: string
  oc_type :: string
  oc_status :: string
  oc_duration :: "int option"
  oc_usage :: "pyval dict"
  oc_refs :: "pyval list"
  oc_error :: op_error
  oc_metadata :: "pyval dict"

record op_event =
  oe_id :: string
  oe_timestamp :: int
  oe_request :: "string option"
  oe_session :: "string option"
  oe_task :: "string option"
  oe_call :: "string option"
  oe_operator :: "string option"
  oe_agent :: string
  oe_actor :: string
  oe_component :: string
  oe_type :: string
  oe_status :: string
  oe_duration :: "int option"
  oe_usage :: pyval
  oe_refs :: pyval
  oe_error :: "(string \<times> string) option"
  oe_metadata :: "pyval option"

record event_store =
  ephemeral :: bool
  max_events :: nat
  op_events :: "op_event list"

definition new_event_store :: "bool \<Rightarrow> int \<Rightarrow> event_store" where
  "new_event_store eph given = \<lparr>ephemeral = eph, max_events = nat (max given 100), op_events = []\<rparr>"

definition valid_status :: "string \<Rightarrow> bool" where
  "valid_status st \<longleftrightarrow> st \<in> set OUTCOME_STATES \<or> st \<in> set AUDIT_STATES
     \<or> st \<in> {''running'', ''approval_required'', ''healthy''}"

text \<open>\<open>agent\<close> is \<open>configured_agent_id()\<close>; an empty identifier is replaced by it too.\<close>

definition make_op_event :: "string \<Rightarrow> int \<Rightarrow> string \<Rightarrow> op_call \<Rightarrow> op_event" where
  "make_op_event eid now agent c =
     \<lparr>oe_id = eid, oe_timestamp = now, oe_request = oc_request c, oe_session = oc_session c, oe_task = oc_task c,
      oe_call = oc_call c, oe_operator = oc_operator c,
      oe_agent = (case oc_agent c of None \<Rightarrow> agent | Some a \<Rightarrow> if a = [] then agent else a),
      oe_actor = take 200 (oc_actor c), oe_component = take 100 (oc_component c), oe_type = oc_type c,
      oe_status = oc_status c, oe_duration = map_option (max 0) (oc_duration c),
      oe_usage = redact_secrets (PDict (oc_usage c)), oe_refs = redact_secrets (PList (take 50 (oc_refs c))),
      oe_error = controlled_error (oc_error c),
      oe_metadata = (if oc_metadata c = [] then None else Some (redact_secrets (PDict (oc_metadata c))))\<rparr>"

definition append_op_event :: "op_event \<Rightarrow> event_store \<Rightarrow> event_store" where
  "append_op_event e s =
     s\<lparr>op_events := (if ephemeral s then last_n (max_events s) (op_events s @ [e]) else op_events s @ [e])\<rparr>"

definition record_event ::
    "string \<Rightarrow> int \<Rightarrow> string \<Rightarrow> op_call \<Rightarrow> event_store \<Rightarrow> event_store \<times> op_event result" where
  "record_event eid now agent c s =
     (if oc_type c \<notin> set OP_EVENT_TYPES then (s, Inl (ValueError ''invalid_operational_event_type''))
      else if \<not> valid_status (oc_status c) then (s, Inl (ValueError ''invalid_operational_status''))
      else let e = make_op_event eid now agent c in (append_op_event e s, Inr e))"

definition stored_rows :: "event_store \<Rightarrow> op_event list" where
  "stored_rows s = (if ephemeral s then op_events s else last_n (max_events s) (op_events s))"

definition row_selected :: "string option \<Rightarrow> string option \<Rightarrow> string option \<Rightarrow> op_event \<Rightarrow> bool" where
  "row_selected operator request session row \<longleftrightarrow>
     (operator = None \<or> oe_operator row = operator) \<and> (request = None \<or> oe_request row = request)
     \<and> (session = None \<or> oe_session row = session)"

definition query ::
    "string option \<Rightarrow> string option \<Rightarrow> string option \<Rightarrow> int \<Rightarrow> event_store \<Rightarrow> op_event list" where
  "query operator request session limit s =
     last_n (nat (min (max limit 1) 1000)) (filter (row_selected operator request session) (stored_rows s))"

definition resolves :: "op_event \<Rightarrow> bool" where
  "resolves row \<longleftrightarrow> oe_type row = ''recovery'' \<and> oe_status row \<in> set OUTCOME_STATES - {''unknown''}"

definition unresolved_unknowns :: "string option \<Rightarrow> event_store \<Rightarrow> op_event list" where
  "unresolved_unknowns operator s =
     (let rows = query operator None None 1000 s;
          resolved = oe_call ` set (filter resolves rows)
      in filter (\<lambda>row. oe_type row = ''result'' \<and> oe_status row = ''unknown'' \<and> oe_call row \<notin> resolved) rows)"

definition reconcile_unknown ::
    "string \<Rightarrow> int \<Rightarrow> string \<Rightarrow> string \<Rightarrow> string \<Rightarrow> string \<Rightarrow> pyval list \<Rightarrow> string option \<Rightarrow> string option
      \<Rightarrow> string option \<Rightarrow> event_store \<Rightarrow> event_store \<times> op_event result" where
  "reconcile_unknown eid now agent call_id st actor refs request session operator s =
     (if st \<notin> set OUTCOME_STATES - {''unknown''} then (s, Inl (ValueError ''reconciliation_requires_terminal_outcome''))
      else record_event eid now agent
        \<lparr>oc_request = request, oc_session = session, oc_task = None, oc_call = Some call_id, oc_operator = operator,
         oc_agent = None, oc_actor = actor, oc_component = ''control_plane'', oc_type = ''recovery'', oc_status = st,
         oc_duration = None, oc_usage = [], oc_refs = refs, oc_error = Err_value PNone, oc_metadata = []\<rparr> s)"

text \<open>\<open>record_operational_event\<close> swallows every exception.\<close>

definition record_operational_event ::
    "string \<Rightarrow> int \<Rightarrow> string \<Rightarrow> op_call \<Rightarrow> event_store \<Rightarrow> event_store \<times> op_event option" where
  "record_operational_event eid now agent c s =
     (case record_event eid now agent c s of (s', Inl _) \<Rightarrow> (s', None) | (s', Inr e) \<Rightarrow> (s', Some e))"

definition pack_name :: "pyval \<Rightarrow> string" where
  "pack_name pack =
     (case pack of
        PDict d \<Rightarrow>
          let pack_id = strip (str_or (pget d ''id'')); version = strip (str_or (pget d ''version''))
          in if pack_id = [] then [] else if version = [] then pack_id else pack_id @ ''@'' @ version
      | _ \<Rightarrow> strip (py_str pack))"

definition record_protocol_mount ::
    "string \<Rightarrow> int \<Rightarrow> string \<Rightarrow> string \<Rightarrow> pyval list \<Rightarrow> string option \<Rightarrow> string option \<Rightarrow> string option
      \<Rightarrow> string option \<Rightarrow> event_store \<Rightarrow> event_store \<times> op_event option" where
  "record_protocol_mount eid now configured surface packs request session operator agent s =
     (let mounted = filter (\<lambda>p. p \<noteq> []) (map pack_name packs) in
      if mounted = [] then (s, None)
      else record_operational_event eid now configured
        \<lparr>oc_request = request, oc_session = session, oc_task = None, oc_call = None, oc_operator = operator,
         oc_agent = agent, oc_actor = ''pandamonium'', oc_component = ''protocol-registry'', oc_type = ''started'',
         oc_status = ''running'', oc_duration = None, oc_usage = [], oc_refs = [], oc_error = Err_value PNone,
         oc_metadata = [(''mounted_protocols'', PList (map PStr mounted)), (''surface'', PStr (take 40 surface))]\<rparr> s)"

section \<open>Component versions\<close>

datatype version_status = V_active | V_superseded | V_rolled_back

record version_record =
  vr_id :: string
  vr_component :: string
  vr_version :: string
  vr_configuration :: pyval
  vr_fingerprint :: string
  vr_compatibility :: string
  vr_rollback_ref :: "string option"
  vr_previous :: "string option"
  vr_promoted_at :: int
  vr_status :: version_status
  vr_rollback_of :: "string option"
  vr_restored_from :: "string option"

record version_slot =
  vs_active :: "version_record option"
  vs_history :: "version_record list"

type_synonym registry = "version_slot dict"

definition empty_slot :: version_slot where
  "empty_slot = \<lparr>vs_active = None, vs_history = []\<rparr>"

text \<open>\<open>sha\<close> is the digest of a text; \<open>rid\<close> the fresh identifier of the new record.\<close>

definition promote_version ::
    "(string \<Rightarrow> string) \<Rightarrow> string \<Rightarrow> int \<Rightarrow> string \<Rightarrow> string \<Rightarrow> pyval dict \<Rightarrow> string \<Rightarrow> string option
      \<Rightarrow> registry \<Rightarrow> registry \<times> version_record" where
  "promote_version sha rid now component version configuration compatibility rollback_ref s =
     (let slot = (case dget s component of None \<Rightarrow> empty_slot | Some x \<Rightarrow> x);
          rec = \<lparr>vr_id = rid, vr_component = component, vr_version = version,
            vr_configuration = redact_secrets (PDict configuration),
            vr_fingerprint = sha (dumps_canonical (PDict configuration)), vr_compatibility = compatibility,
            vr_rollback_ref = rollback_ref, vr_previous = map_option vr_id (vs_active slot), vr_promoted_at = now,
            vr_status = V_active, vr_rollback_of = None, vr_restored_from = None\<rparr>;
          history = (case vs_active slot of
              None \<Rightarrow> vs_history slot
            | Some previous \<Rightarrow> vs_history slot @ [previous\<lparr>vr_status := V_superseded\<rparr>])
      in (dset component \<lparr>vs_active = Some rec, vs_history = history\<rparr> s, rec))"

definition slot_rows :: "version_slot \<Rightarrow> version_record list" where
  "slot_rows slot = (case vs_active slot of None \<Rightarrow> [] | Some r \<Rightarrow> [r]) @ vs_history slot"

definition rollback_version ::
    "string \<Rightarrow> int \<Rightarrow> string \<Rightarrow> string \<Rightarrow> registry \<Rightarrow> registry \<times> version_record result" where
  "rollback_version rid now component target_id s =
     (case dget s component of
        None \<Rightarrow> (s, Inl (KeyError ''rollback_component_not_found''))
      | Some slot \<Rightarrow>
          (case find (\<lambda>r. vr_id r = target_id) (slot_rows slot) of
             None \<Rightarrow> (s, Inl (KeyError ''rollback_record_not_found''))
           | Some target \<Rightarrow>
               (case vs_active slot of
                  None \<Rightarrow> (s, Inl (TypeError ''NoneType''))
                | Some cur \<Rightarrow>
                    let restored = target\<lparr>vr_id := rid, vr_previous := Some (vr_id cur), vr_promoted_at := now,
                          vr_status := V_active, vr_rollback_of := Some (vr_id cur), vr_restored_from := Some target_id\<rparr>
                    in (dset component \<lparr>vs_active = Some restored,
                           vs_history = vs_history slot @ [cur\<lparr>vr_status := V_rolled_back\<rparr>]\<rparr> s,
                        Inr restored))))"

section \<open>Backups\<close>

text \<open>
  The archives of the backup directory with their moments of modification, in the order the
  directory lists them, and the sidecar of an archive: absent, unreadable, or a JSON object.
\<close>

datatype sidecar = No_sidecar | Unreadable | Sidecar "pyval dict"

record backup_report =
  br_status :: string
  br_latest :: "string option"
  br_created :: "int option"
  br_verified :: bool
  br_verified_at :: pyval
  br_rollback :: bool

definition backup_status :: "(string \<times> int) list \<Rightarrow> (string \<Rightarrow> sidecar) \<Rightarrow> backup_report" where
  "backup_status archives sidecar_of =
     (case first_max snd archives of
        None \<Rightarrow> \<lparr>br_status = ''unavailable'', br_latest = None, br_created = None, br_verified = False,
                  br_verified_at = PNone, br_rollback = False\<rparr>
      | Some (name, moment) \<Rightarrow>
          let (verified, at) = (case sidecar_of name of
                  Sidecar proof \<Rightarrow> (truthy (pget proof ''ok'') \<and> truthy (pget proof ''sha256''), pget proof ''verified_at'')
                | _ \<Rightarrow> (False, PNone))
          in \<lparr>br_status = (if verified then ''succeeded'' else ''degraded''), br_latest = Some name,
              br_created = Some moment, br_verified = verified, br_verified_at = at, br_rollback = verified\<rparr>)"


section \<open>The log of events\<close>

text \<open>A request to record: identifier, moment, configured agent and the caller's arguments.\<close>

type_synonym op_request = "string \<times> int \<times> string \<times> op_call"

definition accepted :: "op_call \<Rightarrow> bool" where
  "accepted c \<longleftrightarrow> oc_type c \<in> set OP_EVENT_TYPES \<and> valid_status (oc_status c)"

fun store_step :: "event_store \<Rightarrow> op_request \<Rightarrow> event_store" where
  "store_step s (eid, now, agent, c) = fst (record_event eid now agent c s)"

definition events_of :: "op_request list \<Rightarrow> op_event list" where
  "events_of rs = map (\<lambda>(eid, now, agent, c). make_op_event eid now agent c) (filter (\<lambda>(_, _, _, c). accepted c) rs)"

lemma events_of_simps [simp]:
  "events_of [] = []"
  "events_of ((eid, now, agent, c) # rs) = (if accepted c then [make_op_event eid now agent c] else []) @ events_of rs"
  "events_of (xs @ ys) = events_of xs @ events_of ys"
  by (simp_all add: events_of_def)

lemma length_events_of: "length (events_of rs) \<le> length rs"
  by (simp add: events_of_def)

lemma store_step_events:
  "store_step s (eid, now, agent, c) =
     (if accepted c then append_op_event (make_op_event eid now agent c) s else s)"
  by (auto simp: store_step.simps record_event_def accepted_def Let_def)

declare store_step.simps [simp del]

lemma last_n_last_n: "last_n n (last_n n xs) = last_n n xs"
  using last_n_append [of n xs "[]"] by simp

lemma store_run:
  "stored_rows (run store_step s rs) = last_n (max_events s) (op_events s @ events_of rs)"
  if "ephemeral s \<longrightarrow> op_events s = last_n (max_events s) (op_events s)" for s
  using that
proof (induction rs arbitrary: s)
  case Nil
  then show ?case by (auto simp: stored_rows_def)
next
  case (Cons r rs)
  obtain eid now agent c where r: "r = (eid, now, agent, c)" by (cases r)
  show ?case
  proof (cases "accepted c")
    case False
    with r Cons show ?thesis by (simp add: store_step_events)
  next
    case True
    let ?s = "append_op_event (make_op_event eid now agent c) s"
    have "ephemeral ?s \<longrightarrow> op_events ?s = last_n (max_events ?s) (op_events ?s)"
      by (simp add: append_op_event_def last_n_last_n)
    then have "stored_rows (run store_step ?s rs) = last_n (max_events ?s) (op_events ?s @ events_of rs)" by (rule Cons.IH)
    with True r show ?thesis
      by (auto simp: store_step_events append_op_event_def last_n_append split: if_splits)
  qed
qed


lemma last_n_min: "last_n a (last_n b xs) = last_n (min a b) xs"
  by (cases "b \<le> length xs") (auto simp: last_n_def min_def)

lemma last_n_recent: "length ys < n \<Longrightarrow> x \<in> set (last_n n (xs @ x # ys))"
  by (simp add: last_n_def)

lemma log_rows:
  "stored_rows (run store_step (new_event_store eph m) rs) = last_n (nat (max m 100)) (events_of rs)"
  by (subst store_run) (simp_all add: new_event_store_def last_n_def)

text \<open>
  Claim C35. The bounded queue and the append-only file are the same store: after any sequence
  of records both answer every query with the most recent selected rows among the last
  \<open>max_events\<close> accepted events.
\<close>

theorem event_stores_agree:
  "query op req sess limit (run store_step (new_event_store True m) rs)
     = query op req sess limit (run store_step (new_event_store False m) rs)
   \<and> query op req sess limit (run store_step (new_event_store True m) rs)
     = last_n (nat (min (max limit 1) 1000))
         (filter (row_selected op req sess) (last_n (nat (max m 100)) (events_of rs)))"
  by (simp add: query_def log_rows)

lemma unresolved_rows:
  "unresolved_unknowns None (run store_step (new_event_store eph m) rs) =
     (let rows = last_n (min 1000 (nat (max m 100))) (events_of rs)
      in filter (\<lambda>row. oe_type row = ''result'' \<and> oe_status row = ''unknown''
           \<and> oe_call row \<notin> oe_call ` set (filter resolves rows)) rows)"
proof -
  have all: "filter (row_selected None None None) xs = xs" for xs
    by (simp add: row_selected_def)
  show ?thesis by (simp add: unresolved_unknowns_def query_def log_rows all last_n_min Let_def)
qed

definition reconciles :: "string \<Rightarrow> op_request \<Rightarrow> bool" where
  "reconciles k r \<longleftrightarrow> (case r of (_, _, _, d) \<Rightarrow> oc_type d = ''recovery'' \<and> oc_call d = Some k)"

lemma no_reconciliation:
  "list_all (\<lambda>r. \<not> reconciles k r) rs \<Longrightarrow> row \<in> set (events_of rs) \<Longrightarrow> resolves row \<Longrightarrow> oe_call row \<noteq> Some k"
  by (auto simp: events_of_def list_all_iff reconciles_def resolves_def make_op_event_def)

lemma reconcile_is_step:
  assumes "st \<in> set OUTCOME_STATES - {''unknown''}"
  shows "\<exists>c. fst (reconcile_unknown eid now agent k st actor refs req sess op s) = store_step s (eid, now, agent, c)
    \<and> accepted c \<and> resolves (make_op_event eid now agent c) \<and> oe_call (make_op_event eid now agent c) = Some k"
proof (intro exI conjI)
  let ?c = "\<lparr>oc_request = req, oc_session = sess, oc_task = None, oc_call = Some k, oc_operator = op,
         oc_agent = None, oc_actor = actor, oc_component = ''control_plane'', oc_type = ''recovery'', oc_status = st,
         oc_duration = None, oc_usage = [], oc_refs = refs, oc_error = Err_value PNone, oc_metadata = []\<rparr>"
  show "fst (reconcile_unknown eid now agent k st actor refs req sess op s) = store_step s (eid, now, agent, ?c)"
    using assms by (simp add: reconcile_unknown_def store_step.simps)
  show "accepted ?c" using assms by (simp add: accepted_def OP_EVENT_TYPES_def valid_status_def)
  show "resolves (make_op_event eid now agent ?c)" "oe_call (make_op_event eid now agent ?c) = Some k"
    using assms by (simp_all add: resolves_def make_op_event_def)
qed

text \<open>
  An action whose outcome is unknown is never forgotten: it stays among the
  unresolved ones through every following record (fewer than a hundred) until its call is
  reconciled, and the reconciliation with a definite outcome takes it out.
\<close>

theorem unknown_listed_until_reconciled:
  assumes "oc_type c = ''result''" "oc_status c = ''unknown''" "oc_call c = Some k"
    and "list_all (\<lambda>r. \<not> reconciles k r) (before @ after)" and "length after < 100"
    and "st \<in> set OUTCOME_STATES - {''unknown''}"
    and "s = run store_step (new_event_store eph m) (before @ (eid, now, agent, c) # after)"
  shows "make_op_event eid now agent c \<in> set (unresolved_unknowns None s)
    \<and> make_op_event eid now agent c
        \<notin> set (unresolved_unknowns None (fst (reconcile_unknown eid' now' agent' k st actor refs req sess op s)))"
proof
  let ?e = "make_op_event eid now agent c"
  let ?rs = "before @ (eid, now, agent, c) # after"
  let ?n = "min 1000 (nat (max m 100))"
  have call: "oe_call ?e = Some k" "oe_type ?e = ''result''" "oe_status ?e = ''unknown''"
    using assms(1-3) by (simp_all add: make_op_event_def)
  have acc: "accepted c"
    using assms(1,2) by (simp add: accepted_def OP_EVENT_TYPES_def valid_status_def OUTCOME_STATES_def)
  then have ev: "events_of ?rs = events_of before @ ?e # events_of after" by simp
  have none: "oe_call row \<noteq> Some k" if "row \<in> set (last_n ?n (events_of ?rs))" "resolves row" for row
  proof -
    have "row \<in> set (events_of ?rs)" by (rule subsetD [OF set_last_n that(1)])
    then have "row = ?e \<or> row \<in> set (events_of (before @ after))" by (auto simp: ev)
    moreover have "row \<noteq> ?e" using that(2) call(2) by (auto simp: resolves_def)
    ultimately show ?thesis using no_reconciliation [OF assms(4)] that(2) by blast
  qed
  have "length (events_of after) < ?n" using length_events_of [of after] assms(5) by simp
  then have "?e \<in> set (last_n ?n (events_of ?rs))" unfolding ev by (rule last_n_recent)
  moreover have "oe_call ?e \<notin> oe_call ` set (filter resolves (last_n ?n (events_of ?rs)))"
  proof
    assume "oe_call ?e \<in> oe_call ` set (filter resolves (last_n ?n (events_of ?rs)))"
    then obtain row where "row \<in> set (last_n ?n (events_of ?rs))" "resolves row" "oe_call row = Some k"
      using call(1) by force
    with none show False by blast
  qed
  ultimately show "?e \<in> set (unresolved_unknowns None s)"
    unfolding assms(7) unresolved_rows Let_def using call(2,3) by (simp del: events_of_simps)
  obtain c' where step: "fst (reconcile_unknown eid' now' agent' k st actor refs req sess op s) = store_step s (eid', now', agent', c')"
    and c': "accepted c'" "resolves (make_op_event eid' now' agent' c')" "oe_call (make_op_event eid' now' agent' c') = Some k"
    using reconcile_is_step [OF assms(6)] by blast
  let ?rs' = "?rs @ [(eid', now', agent', c')]"
  have run: "store_step s (eid', now', agent', c') = run store_step (new_event_store eph m) ?rs'"
    by (simp only: assms(7) run_append run.simps)
  have "make_op_event eid' now' agent' c' \<in> set (last_n ?n (events_of ?rs'))"
    using c'(1) last_n_recent [of "[]" ?n _ "events_of ?rs"] by (simp del: append_assoc add: append_assoc [symmetric])
  with c' have "Some k \<in> oe_call ` set (filter resolves (last_n ?n (events_of ?rs')))" by force
  then have "oe_call ?e \<in> oe_call ` set (filter resolves (last_n ?n (events_of ?rs')))"
    unfolding call(1) .
  then show "?e \<notin> set (unresolved_unknowns None (fst (reconcile_unknown eid' now' agent' k st actor refs req sess op s)))"
    unfolding step run unresolved_rows Let_def by (simp del: events_of_simps)
qed

definition sent_call :: op_call where
  "sent_call = \<lparr>oc_request = None, oc_session = None, oc_task = None, oc_call = Some ''c1'', oc_operator = None,
     oc_agent = None, oc_actor = ''a'', oc_component = ''email'', oc_type = ''result'', oc_status = ''unknown'',
     oc_duration = None, oc_usage = [], oc_refs = [], oc_error = Err_value PNone, oc_metadata = []\<rparr>"

theorem unknown_listed_until_reconciled_witness:
  "make_op_event ''e1'' 1 ''friday'' sent_call
     \<in> set (unresolved_unknowns None (run store_step (new_event_store False 10) ([] @ (''e1'', 1, ''friday'', sent_call) # [(''e2'', 2, ''friday'', sent_call\<lparr>oc_call := Some ''c2''\<rparr>)])))"
  using unknown_listed_until_reconciled [of sent_call "''c1''" "[]" "[(''e2'', 2, ''friday'', sent_call\<lparr>oc_call := Some ''c2''\<rparr>)]"
      "''succeeded''" _ False 10 "''e1''" 1 "''friday''", OF _ _ _ _ _ _ refl]
  by (simp add: sent_call_def reconciles_def OUTCOME_STATES_def)


text \<open>After a thousand newer events, only those are looked at: an older unknown outcome drops out unreconciled.\<close>

lemma old_unknowns_drop_out:
  assumes "1000 \<le> length (events_of after)"
  shows "set (unresolved_unknowns None (run store_step (new_event_store eph m) (before @ after))) \<subseteq> set (events_of after)"
proof -
  let ?n = "min 1000 (nat (max m 100))"
  have "last_n ?n (events_of before @ events_of after) = last_n ?n (events_of after)"
    using assms by (simp add: last_n_def)
  then have "set (last_n ?n (events_of (before @ after))) \<subseteq> set (events_of after)"
    using set_last_n [of ?n "events_of after"] by simp
  then show ?thesis unfolding unresolved_rows Let_def by auto
qed

section \<open>Versions stay restorable\<close>

datatype registry_op =
    R_promote "string \<Rightarrow> string" string int string string "pyval dict" string "string option"
  | R_rollback string int string string

fun registry_rid :: "registry_op \<Rightarrow> string" where
  "registry_rid (R_promote sha rid now cmp ver conf ct ref) = rid"
| "registry_rid (R_rollback rid now cmp target) = rid"

fun registry_step :: "registry \<Rightarrow> registry_op \<Rightarrow> registry" where
  "registry_step s (R_promote sha rid now cmp ver conf ct ref) = fst (promote_version sha rid now cmp ver conf ct ref s)"
| "registry_step s (R_rollback rid now cmp target) = fst (rollback_version rid now cmp target s)"

text \<open>What a version is, apart from the bookkeeping of its activation.\<close>

definition content :: "version_record \<Rightarrow> string \<times> pyval \<times> string \<times> string" where
  "content r = (vr_version r, vr_configuration r, vr_fingerprint r, vr_compatibility r)"

text \<open>
  A slot in use: an active record with status active, a history of records that are not, and
  identifiers that are distinct and already drawn.
\<close>

definition slot_ok :: "string set \<Rightarrow> version_slot \<Rightarrow> bool" where
  "slot_ok drawn slot \<longleftrightarrow> (\<exists>r. vs_active slot = Some r \<and> vr_status r = V_active)
     \<and> (\<forall>r \<in> set (vs_history slot). vr_status r \<noteq> V_active)
     \<and> distinct (map vr_id (slot_rows slot)) \<and> vr_id ` set (slot_rows slot) \<subseteq> drawn"

definition registry_ok :: "string set \<Rightarrow> registry \<Rightarrow> bool" where
  "registry_ok drawn s \<longleftrightarrow> (\<forall>cmp slot. dget s cmp = Some slot \<longrightarrow> slot_ok drawn slot)"

definition holds_version :: "string \<Rightarrow> string \<Rightarrow> string \<times> pyval \<times> string \<times> string \<Rightarrow> registry \<Rightarrow> bool" where
  "holds_version cmp rid x s \<longleftrightarrow>
     (\<exists>slot r. dget s cmp = Some slot \<and> r \<in> set (slot_rows slot) \<and> vr_id r = rid \<and> content r = x)"

lemma slot_ok_mono: "slot_ok a slot \<Longrightarrow> a \<subseteq> b \<Longrightarrow> slot_ok b slot"
  by (auto simp: slot_ok_def)

text \<open>Both operations put a fresh active record in front and retire the old one.\<close>

lemma registry_step_cases:
  obtains (same) "registry_step s e = s"
  | (fresh) cmp rec history where "registry_step s e = dset cmp \<lparr>vs_active = Some rec, vs_history = history\<rparr> s"
      "vr_id rec = registry_rid e" "vr_status rec = V_active"
      "dget s cmp = None \<and> history = []
       \<or> (\<exists>slot. dget s cmp = Some slot \<and> (vs_active slot = None \<and> history = vs_history slot
           \<or> (\<exists>old st. vs_active slot = Some old \<and> st \<noteq> V_active \<and> history = vs_history slot @ [old\<lparr>vr_status := st\<rparr>])))"
proof (cases e)
  case (R_promote sha rid now cmp ver conf ct ref)
  show ?thesis
  proof (cases "dget s cmp")
    case None
    with R_promote show ?thesis
      by (intro fresh [of cmp]) (auto simp: promote_version_def empty_slot_def Let_def)
  next
    case (Some slot)
    show ?thesis
    proof (cases "vs_active slot")
      case None
      with Some R_promote show ?thesis by (intro fresh [of cmp]) (auto simp: promote_version_def Let_def)
    next
      case act: (Some old)
      have "\<exists>st. st \<noteq> V_active \<and> vs_history slot @ [old\<lparr>vr_status := V_superseded\<rparr>] = vs_history slot @ [old\<lparr>vr_status := st\<rparr>]"
        by (intro exI [of _ V_superseded]) simp
      with Some act R_promote show ?thesis by (intro fresh [of cmp]) (auto simp: promote_version_def Let_def)
    qed
  qed
next
  case (R_rollback rid now cmp target)
  show ?thesis
  proof (cases "snd (rollback_version rid now cmp target s)")
    case (Inl x)
    with R_rollback have "registry_step s e = s"
      by (auto simp: rollback_version_def Let_def split: option.splits)
    then show ?thesis by (rule same)
  next
    case (Inr x)
    with R_rollback obtain slot target' old where x: "dget s cmp = Some slot" "vs_active slot = Some old"
      "x = target'\<lparr>vr_id := rid, vr_previous := Some (vr_id old), vr_promoted_at := now, vr_status := V_active,
          vr_rollback_of := Some (vr_id old), vr_restored_from := Some target\<rparr>"
      "registry_step s e = dset cmp \<lparr>vs_active = Some x, vs_history = vs_history slot @ [old\<lparr>vr_status := V_rolled_back\<rparr>]\<rparr> s"
      by (auto simp: rollback_version_def Let_def split: option.splits)
    have "\<exists>st. st \<noteq> V_active \<and> vs_history slot @ [old\<lparr>vr_status := V_rolled_back\<rparr>] = vs_history slot @ [old\<lparr>vr_status := st\<rparr>]"
      by (intro exI [of _ V_rolled_back]) simp
    with x R_rollback show ?thesis by (intro fresh [of cmp x]) auto
  qed
qed

lemma registry_step_ok:
  assumes "registry_ok drawn s" "registry_rid e \<notin> drawn"
  shows "registry_ok (insert (registry_rid e) drawn) (registry_step s e)"
proof (cases rule: registry_step_cases [of s e])
  case same
  with assms(1) show ?thesis by (auto simp: registry_ok_def intro: slot_ok_mono)
next
  case (fresh cmp rec history)
  have "slot_ok (insert (registry_rid e) drawn) \<lparr>vs_active = Some rec, vs_history = history\<rparr>"
  proof (cases "dget s cmp")
    case None
    with fresh show ?thesis by (simp add: slot_ok_def slot_rows_def)
  next
    case (Some slot)
    with assms(1) have ok: "slot_ok drawn slot" by (simp add: registry_ok_def)
    with fresh(4) Some obtain old st where "vs_active slot = Some old" "st \<noteq> V_active"
      "history = vs_history slot @ [old\<lparr>vr_status := st\<rparr>]" by (auto simp: slot_ok_def)
    with ok fresh(2,3) assms(2) show ?thesis by (auto simp: slot_ok_def slot_rows_def)
  qed
  with assms(1) fresh(1) show ?thesis by (auto simp: registry_ok_def intro: slot_ok_mono)
qed

lemma holds_version_step: "holds_version cmp rid x s \<Longrightarrow> holds_version cmp rid x (registry_step s e)"
proof (cases rule: registry_step_cases [of s e])
  case (fresh cmp2 rec history)
  assume "holds_version cmp rid x s"
  then obtain slot r where r: "dget s cmp = Some slot" "r \<in> set (slot_rows slot)" "vr_id r = rid" "content r = x"
    by (auto simp: holds_version_def)
  have retired: "vr_id (old\<lparr>vr_status := st\<rparr>) = vr_id old" "content (old\<lparr>vr_status := st\<rparr>) = content old" for old st
    by (simp_all add: content_def)
  show ?thesis
  proof (cases "cmp2 = cmp")
    case False
    with fresh(1) r show ?thesis by (auto simp: holds_version_def)
  next
    case True
    with r fresh(4) have "\<exists>r' \<in> set history. vr_id r' = rid \<and> content r' = x"
      by (auto simp: slot_rows_def content_def)
    with fresh(1) True show ?thesis by (auto simp: holds_version_def slot_rows_def)
  qed
qed simp


lemma registry_run_ok:
  assumes "registry_ok drawn s" "distinct (map registry_rid es)" "drawn \<inter> set (map registry_rid es) = {}"
  shows "registry_ok (drawn \<union> set (map registry_rid es)) (run registry_step s es)"
  using assms
proof (induction es arbitrary: s drawn)
  case (Cons e es)
  have "registry_ok (insert (registry_rid e) drawn) (registry_step s e)"
    using Cons.prems by (intro registry_step_ok) auto
  then have "registry_ok (insert (registry_rid e) drawn \<union> set (map registry_rid es)) (run registry_step (registry_step s e) es)"
    by (rule Cons.IH) (use Cons.prems in auto)
  then show ?case by (simp add: Un_commute insert_commute)
qed simp

interpretation versions_kept: invariant_system registry_step "holds_version cmp rid x" for cmp rid x
  by unfold_locales (rule holds_version_step)

lemma find_distinct: "distinct (map f xs) \<Longrightarrow> r \<in> set xs \<Longrightarrow> find (\<lambda>x. f x = f r) xs = Some r"
  by (induction xs) (auto simp: image_iff)

text \<open>
  Claim C13. Every version that was ever promoted can be brought back: whatever promotions and
  rollbacks of whatever components follow, rolling back to its record succeeds and makes its
  version, redacted configuration, fingerprint and compatibility the active ones again. Record
  identifiers are drawn distinct, as \<open>uuid4\<close> draws them.
\<close>

theorem every_version_restorable:
  assumes "distinct (map registry_rid (before @ R_promote sha rid now cmp ver conf ct ref # after))"
    and "s = run registry_step [] (before @ R_promote sha rid now cmp ver conf ct ref # after)"
  shows "\<exists>r. snd (rollback_version rid' now' cmp rid s) = Inr r
    \<and> content r = (ver, redact_secrets (PDict conf), sha (dumps_canonical (PDict conf)), ct)
    \<and> vr_status r = V_active \<and> vr_restored_from r = Some rid
    \<and> map_option vs_active (dget (fst (rollback_version rid' now' cmp rid s)) cmp) = Some (Some r)"
proof -
  let ?x = "(ver, redact_secrets (PDict conf), sha (dumps_canonical (PDict conf)), ct)"
  let ?s = "run registry_step [] before"
  have "holds_version cmp rid ?x (registry_step ?s (R_promote sha rid now cmp ver conf ct ref))"
    by (simp add: holds_version_def promote_version_def slot_rows_def content_def Let_def del: redact_secrets.simps) (rule exI, rule conjI, rule disjI1, rule refl, simp del: redact_secrets.simps)
  then have "holds_version cmp rid ?x s"
    unfolding assms(2) run_append run.simps by (rule versions_kept.run_inv)
  then obtain slot r where r: "dget s cmp = Some slot" "r \<in> set (slot_rows slot)" "vr_id r = rid" "content r = ?x"
    by (auto simp: holds_version_def)
  have "registry_ok ({} \<union> set (map registry_rid (before @ R_promote sha rid now cmp ver conf ct ref # after))) s"
    unfolding assms(2) by (rule registry_run_ok) (use assms(1) in \<open>simp_all add: registry_ok_def\<close>)
  then have "slot_ok ({} \<union> set (map registry_rid (before @ R_promote sha rid now cmp ver conf ct ref # after))) slot"
    using r(1) by (simp only: registry_ok_def)
  then have ok: "distinct (map vr_id (slot_rows slot))" "\<exists>old. vs_active slot = Some old"
    unfolding slot_ok_def by blast+
  from ok(2) obtain old where old: "vs_active slot = Some old" ..
  have "find (\<lambda>x. vr_id x = rid) (slot_rows slot) = Some r"
    using find_distinct [OF ok(1) r(2)] by (simp add: r(3))
  with r old show ?thesis by (simp add: rollback_version_def content_def Let_def del: redact_secrets.simps)
qed

theorem every_version_restorable_witness:
  "\<exists>r. snd (rollback_version ''r9'' 9 ''ui'' ''r1''
        (run registry_step [] ([] @ R_promote id ''r1'' 1 ''ui'' ''1.0'' [] ''passed'' None
          # [R_promote id ''r2'' 2 ''ui'' ''2.0'' [] ''passed'' None, R_rollback ''r3'' 3 ''ui'' ''r1'']))) = Inr r
    \<and> content r = (''1.0'', redact_secrets (PDict []), id (dumps_canonical (PDict [])), ''passed'')"
  using every_version_restorable [of "[]" id "''r1''" 1 "''ui''" "''1.0''" "[]" "''passed''" None
      "[R_promote id ''r2'' 2 ''ui'' ''2.0'' [] ''passed'' None, R_rollback ''r3'' 3 ''ui'' ''r1'']", OF _ refl,
      of "''r9''" 9] by auto

text \<open>
  Telemetry is safe to keep: whatever a caller passes, an event that is recorded holds
  no credential in its usage, evidence or metadata, has a known type and status, bounded texts
  and a duration that is not negative; and observability never blocks, since a refused event
  leaves the store as it was and yields no result.
\<close>

theorem recorded_event_is_safe:
  "case record_operational_event eid now agent c s of
     (s', None) \<Rightarrow> s' = s
   | (s', Some e) \<Rightarrow> s' = append_op_event e s \<and> no_secrets (oe_usage e) \<and> no_secrets (oe_refs e) \<and> pred_option no_secrets (oe_metadata e)
       \<and> oe_type e \<in> set OP_EVENT_TYPES \<and> valid_status (oe_status e)
       \<and> length (oe_actor e) \<le> 200 \<and> length (oe_component e) \<le> 100 \<and> pred_option (\<lambda>d. 0 \<le> d) (oe_duration e)
       \<and> pred_option (\<lambda>(category, detail). length category \<le> 80 \<and> length detail \<le> 1000) (oe_error e)"
proof -
  have err: "pred_option (\<lambda>(category, detail). length category \<le> 80 \<and> length detail \<le> 1000) (controlled_error e)" for e
    by (cases e) (auto simp: controlled_error_def Let_def split: pyval.split)
  have dur: "pred_option (\<lambda>d. 0 \<le> d) (map_option (max 0) d)" for d :: "int option"
    by (cases d) auto
  show ?thesis
    unfolding record_operational_event_def record_event_def Let_def
    by (simp add: make_op_event_def err dur redact_secrets_no_secrets del: redact_secrets.simps)
qed

end
