(* ===== verification/ToolPolicy.thy ===== *)
theory ToolPolicy
  imports PyRegex Auth
begin

text \<open>
  Which tools a turn may use: \<open>src/tool_security.py\<close> (plan mode, aliases of the email tools,
  the tools closed to ordinary users), \<open>src/tool_policy.py\<close> (the guide-only policy of a turn),
  the gates at the start of \<open>_execute_tool_block_impl\<close> in \<open>src/tool_execution.py\<close>,
  \<open>src/task_action_policy.py\<close> and \<open>src/worker_routing.py\<close>. The accounts are those of
  the theory \<open>Auth\<close>; whether authentication is disabled and the names in the tool schemas and
  prompt sections are arguments (\<open>None\<close> where their import fails).
\<close>

section \<open>Names of tools\<close>

definition BUILTIN_EMAIL_TOOLS :: "string list" where
  "BUILTIN_EMAIL_TOOLS = [''list_email_accounts'', ''list_emails'', ''read_email'', ''search_emails'', ''send_email'',
     ''reply_to_email'', ''draft_email'', ''draft_email_reply'', ''ai_draft_email_reply'',
     ''archive_email'', ''delete_email'', ''mark_email_read'', ''bulk_email'', ''download_attachment'']"

definition NON_ADMIN_BLOCKED_TOOLS :: "string list" where
  "NON_ADMIN_BLOCKED_TOOLS = BUILTIN_EMAIL_TOOLS @
     [''bash'', ''python'', ''manage_bg_jobs'', ''read_file'', ''write_file'', ''edit_file'', ''grep'',
     ''glob'', ''ls'', ''get_workspace'', ''manage_workspace'', ''inspect_network'', ''search_chats'',
     ''manage_memory'', ''manage_skills'', ''manage_tasks'', ''manage_endpoints'', ''manage_mcp'',
     ''manage_webhooks'', ''manage_tokens'', ''manage_documents'', ''manage_books'',
     ''manage_settings'', ''api_call'', ''app_api'', ''resolve_contact'', ''manage_contact'',
     ''manage_calendar'', ''read_calendar'', ''vault_search'', ''vault_get'', ''vault_unlock'',
     ''ssh_node'', ''nextcloud_files'', ''android_device'', ''download_model'', ''serve_model'',
     ''serve_preset'', ''stop_served_model'', ''cancel_download'', ''adopt_served_model'']"

definition PLAN_MODE_READONLY_TOOLS :: "string list" where
  "PLAN_MODE_READONLY_TOOLS = [''read_file'', ''grep'', ''glob'', ''ls'', ''get_workspace'', ''inspect_network'', ''web_search'',
     ''web_fetch'', ''search_chats'', ''read_calendar'', ''list_models'', ''list_sessions'',
     ''list_email_accounts'', ''list_emails'', ''read_email'', ''search_emails'',
     ''list_served_models'', ''list_downloads'', ''list_cached_models'', ''search_hf_models'',
     ''list_serve_presets'', ''list_cookbook_servers'', ''resolve_contact'', ''chat_with_model'',
     ''ask_teacher'']"

definition PLAN_MODE_KNOWN_MUTATORS :: "string list" where
  "PLAN_MODE_KNOWN_MUTATORS = [''write_file'', ''create_document'', ''edit_document'', ''update_document'', ''suggest_document'',
     ''manage_documents'', ''create_session'', ''manage_session'', ''send_to_session'', ''pipeline'',
     ''manage_memory'', ''manage_skills'', ''manage_tasks'', ''manage_notes'', ''manage_endpoints'',
     ''manage_mcp'', ''manage_webhooks'', ''manage_tokens'', ''manage_settings'', ''manage_contact'',
     ''manage_calendar'', ''api_call'', ''app_api'', ''ui_control'', ''send_email'', ''reply_to_email'',
     ''bulk_email'', ''delete_email'', ''archive_email'', ''mark_email_read'', ''draft_email'',
     ''draft_email_reply'', ''ai_draft_email_reply'', ''download_attachment'', ''download_model'',
     ''serve_model'', ''stop_served_model'', ''cancel_download'', ''adopt_served_model'',
     ''serve_preset'', ''generate_image'', ''edit_image'', ''trigger_research'', ''manage_research'',
     ''bash'', ''python'', ''manage_bg_jobs'']"

definition plan_mode_disabled_tools :: "string option list option \<Rightarrow> string set" where
  "plan_mode_disabled_tools schemas =
     (let all_names = (case schemas of None \<Rightarrow> {} | Some names \<Rightarrow> set (List.map_filter id names))
      in (all_names \<union> set PLAN_MODE_KNOWN_MUTATORS) - set PLAN_MODE_READONLY_TOOLS)"

definition email_prefix :: string where "email_prefix = ''mcp__email__''"

text \<open>A name that is not a string aliases only to itself.\<close>

definition email_tool_policy_names :: "pyval \<Rightarrow> pyval list" where
  "email_tool_policy_names tool =
     (case tool of
        PStr name \<Rightarrow>
          if name \<in> set BUILTIN_EMAIL_TOOLS then [tool, PStr (email_prefix @ name)]
          else if starts_with email_prefix name then
            let bare = drop (length email_prefix) name
            in if bare \<in> set BUILTIN_EMAIL_TOOLS then [tool, PStr bare] else [tool]
          else [tool]
      | _ \<Rightarrow> [tool])"

definition is_public_blocked_tool :: "pyval \<Rightarrow> bool" where
  "is_public_blocked_tool tool =
     (case tool of
        PNone \<Rightarrow> False
      | PStr name \<Rightarrow> name \<noteq> [] \<and> (name \<in> set NON_ADMIN_BLOCKED_TOOLS \<or> starts_with ''mcp__'' name)
      | _ \<Rightarrow> True)"

text \<open>\<open>auth\<close> is the state a fresh \<open>AuthManager\<close> loads, \<open>None\<close> when that raises.\<close>

definition owner_is_admin_or_single_user :: "bool \<Rightarrow> auth_state option \<Rightarrow> string option \<Rightarrow> bool" where
  "owner_is_admin_or_single_user disabled auth owner =
     (if disabled then True
      else case auth of
        None \<Rightarrow> False
      | Some s \<Rightarrow> if \<not> is_configured s then False
          else (case owner of None \<Rightarrow> False | Some u \<Rightarrow> u \<noteq> [] \<and> is_admin u s))"

definition blocked_tools_for_owner :: "bool \<Rightarrow> auth_state option \<Rightarrow> string option \<Rightarrow> string set" where
  "blocked_tools_for_owner disabled auth owner =
     (if owner_is_admin_or_single_user disabled auth owner then {} else set NON_ADMIN_BLOCKED_TOOLS)"

section \<open>Scheduled task actions\<close>

definition ADMIN_ONLY_TASK_ACTIONS :: "string list" where
  "ADMIN_ONLY_TASK_ACTIONS = [''run_local'', ''run_script'', ''ssh_command'', ''cookbook_serve'']"

definition is_admin_only_task_action :: "string option \<Rightarrow> string option \<Rightarrow> bool" where
  "is_admin_only_task_action task_type action \<longleftrightarrow>
     (case task_type of None \<Rightarrow> ''llm'' | Some t \<Rightarrow> if t = [] then ''llm'' else t) = ''action''
     \<and> (case action of None \<Rightarrow> [] | Some a \<Rightarrow> a) \<in> set ADMIN_ONLY_TASK_ACTIONS"

definition INTERNAL_TOOL_USER :: string where "INTERNAL_TOOL_USER = ''internal-tool''"

definition owner_has_admin_task_privileges :: "bool \<Rightarrow> auth_state option \<Rightarrow> string option \<Rightarrow> bool" where
  "owner_has_admin_task_privileges disabled auth owner =
     (if disabled then True
      else if owner = Some INTERNAL_TOOL_USER then True
      else case auth of
        None \<Rightarrow> False
      | Some s \<Rightarrow> if \<not> is_configured s then True
          else (case owner of None \<Rightarrow> False | Some u \<Rightarrow> u \<noteq> [] \<and> is_admin u s))"

section \<open>The policy of a turn\<close>

definition GUIDE_ONLY_DIRECTIVE :: string where
  "GUIDE_ONLY_DIRECTIVE = ''## GUIDE-ONLY MODE - TOOL POLICY'' @ [CHR 0x0A]
     @ ''The latest user turn explicitly forbids tool use. Do not call tools, do not ''
     @ ''run shell commands, and do not inspect local files or the environment. ''
     @ ''Respond in normal text by guiding the user or asking them to paste the ''
     @ ''output they will produce locally.''"

definition WEB_TOOL_NAMES :: "string list" where
  "WEB_TOOL_NAMES = [''web_search'', ''web_fetch'']"

definition tool_toggle_enabled :: "pyval \<Rightarrow> bool" where
  "tool_toggle_enabled value = (lower (py_str value) = ''true'')"

definition tool_toggle_explicitly_denied :: "pyval \<Rightarrow> bool" where
  "tool_toggle_explicitly_denied value \<longleftrightarrow> value \<noteq> PNone \<and> \<not> tool_toggle_enabled value"

definition is_web_search_explicitly_denied :: "pyval \<Rightarrow> bool" where
  "is_web_search_explicitly_denied allow = tool_toggle_explicitly_denied allow"

definition web_search_enabled_for_turn :: "pyval \<Rightarrow> pyval \<Rightarrow> bool" where
  "web_search_enabled_for_turn allow use_web =
     (if is_web_search_explicitly_denied allow then False
      else tool_toggle_enabled allow \<or> tool_toggle_enabled use_web)"

definition COMMON_TOOL_NAMES :: "string list" where
  "COMMON_TOOL_NAMES = [''api_call'', ''app_api'', ''archive_email'', ''ask_teacher'', ''ask_user'', ''bash'',
     ''bulk_email'', ''builtin_browser'', ''cancel_download'', ''chat_with_model'', ''create_document'',
     ''create_session'', ''delete_email'', ''download_model'', ''edit_document'', ''edit_file'',
     ''edit_image'', ''generate_image'', ''glob'', ''grep'', ''list_cached_models'',
     ''list_cookbook_servers'', ''list_downloads'', ''list_emails'', ''list_models'',
     ''list_serve_presets'', ''list_served_models'', ''list_sessions'', ''ls'', ''manage_calendar'',
     ''manage_books'', ''manage_contact'', ''manage_documents'', ''manage_endpoints'', ''manage_mcp'',
     ''manage_memory'', ''manage_notes'', ''manage_research'', ''manage_session'', ''manage_settings'',
     ''manage_skills'', ''manage_tasks'', ''manage_tokens'', ''manage_webhooks'', ''mark_email_read'',
     ''nextcloud_files'', ''pipeline'', ''python'', ''read_calendar'', ''read_email'', ''read_file'',
     ''reply_to_email'', ''resolve_contact'', ''search_chats'', ''search_hf_models'', ''send_email'',
     ''send_to_session'', ''serve_model'', ''serve_preset'', ''ssh_node'', ''stop_served_model'',
     ''suggest_document'', ''trigger_research'', ''ui_control'', ''update_document'', ''update_plan'',
     ''vault_get'', ''vault_search'', ''vault_unlock'', ''web_fetch'', ''web_search'', ''write_file'']"

definition dash_or_space :: regex where
  "dash_or_space = ropt (RSet (\<lambda>c. c = CHR ''-'' \<or> is_space c))"

definition use_tools :: regex where
  "use_tools = rseq [rlit ''use '', ropt (rlit ''any ''), rlit ''tool'', ropt (rlit ''s''), RWordB]"

definition GUIDE_ONLY_PATTERNS :: "(regex \<times> string) list" where
  "GUIDE_ONLY_PATTERNS = map (\<lambda>(r, why). (ignore_case r, why))
     [(rseq [RWordB, rlit ''guide'', dash_or_space, rlit ''only mode'', RWordB], ''guide-only mode requested''),
      (rseq [RWordB, rlit ''no'', dash_or_space, rlit ''tool'', ropt (rlit ''s''), rlit '' mode'', RWordB],
         ''no-tools mode requested''),
      (rseq [RWordB, rlit ''do not '', use_tools], ''user forbade tool use''),
      (rseq [RWordB, rlit ''don'', ropt (RSet (\<lambda>c. c = CHR 0x27)), rlit ''t '', use_tools], ''user forbade tool use''),
      (rseq [RWordB, rlit ''not allowed to '', use_tools], ''user forbade tool use''),
      (rseq [RWordB, rlit ''not allowed to'', ropt (rlit '':''), RRep 0 (Some 120) rdot, RWordB, use_tools],
         ''user forbade tool use''),
      (rseq [RWordB, rlit ''ask '', ropt (rlit ''me ''), ropt (rlit ''for confirmation ''), rlit ''before using tool'',
         ropt (rlit ''s''), RWordB], ''user requested confirmation before tools'')]"

record tool_policy =
  tp_disabled :: "string set"
  tp_hidden :: "string set"
  tp_reasons :: "string \<rightharpoonup> string"
  tp_mode :: string
  tp_block_all :: bool
  tp_disable_mcp :: bool

definition all_disabled_names :: "tool_policy \<Rightarrow> string set" where
  "all_disabled_names p = tp_disabled p \<union> tp_hidden p"

definition names_in :: "pyval \<Rightarrow> string set \<Rightarrow> bool" where
  "names_in tool names = (case tool of PStr name \<Rightarrow> name \<in> names | _ \<Rightarrow> False)"

definition blocks :: "tool_policy \<Rightarrow> pyval \<Rightarrow> bool" where
  "blocks p tool =
     (if \<not> truthy tool then False
      else tp_block_all p \<or> names_in tool (tp_disabled p) \<or> names_in tool (tp_hidden p))"

definition reason_for :: "tool_policy \<Rightarrow> string option \<Rightarrow> string" where
  "reason_for p tool =
     (case (case tool of None \<Rightarrow> None | Some t \<Rightarrow> if t = [] then None else tp_reasons p t) of
        Some why \<Rightarrow> why
      | None \<Rightarrow> if tp_block_all p \<and> tp_mode p = ''guide_only'' then ''Tool use is disabled for this guide-only turn.''
                else ''Tool use is disabled for this turn.'')"

definition detect_guide_only_turn :: "pyval \<Rightarrow> string option" where
  "detect_guide_only_turn message =
     (case message of
        PStr m \<Rightarrow>
          if strip m = [] then None
          else let t = re_sub (rplus rspace) (\<lambda>_. '' '') (strip m)
               in map_option snd (find (\<lambda>(r, why). re_search r t) GUIDE_ONLY_PATTERNS)
      | _ \<Rightarrow> None)"

definition known_tool_names :: "string option list option \<Rightarrow> string list option \<Rightarrow> string set" where
  "known_tool_names schemas sections =
     set COMMON_TOOL_NAMES
     \<union> (case schemas of None \<Rightarrow> {} | Some names \<Rightarrow> {n \<in> set (List.map_filter id names). n \<noteq> []})
     \<union> (case sections of None \<Rightarrow> {} | Some ns \<Rightarrow> set ns)
     \<union> set PLAN_MODE_READONLY_TOOLS \<union> set PLAN_MODE_KNOWN_MUTATORS"

definition build_effective_tool_policy ::
    "string option list option \<Rightarrow> string list option \<Rightarrow> pyval list \<Rightarrow> pyval \<Rightarrow> tool_policy" where
  "build_effective_tool_policy schemas sections disabled_tools message =
     (let disabled = py_str ` set (filter truthy disabled_tools);
          reasons = (\<lambda>t. if t \<in> disabled then Some ''Tool is disabled for this request.'' else None)
      in case detect_guide_only_turn message of
           Some guide_reason \<Rightarrow>
             let all_tools = known_tool_names schemas sections
             in \<lparr>tp_disabled = disabled \<union> all_tools, tp_hidden = all_tools,
                 tp_reasons = (\<lambda>t. if t \<in> all_tools then Some (guide_reason @ ''.'') else reasons t),
                 tp_mode = ''guide_only'', tp_block_all = True, tp_disable_mcp = True\<rparr>
         | None \<Rightarrow> \<lparr>tp_disabled = disabled, tp_hidden = {}, tp_reasons = reasons, tp_mode = ''normal'',
                    tp_block_all = False, tp_disable_mcp = False\<rparr>)"

section \<open>The gates of the executor\<close>

definition ADMIN_TOOLS :: "string list" where
  "ADMIN_TOOLS = [''app_api'', ''manage_endpoints'', ''manage_mcp'', ''manage_webhooks'', ''manage_tokens'',
     ''manage_settings'', ''manage_workspace'', ''manage_extensions'', ''download_model'',
     ''serve_model'', ''serve_preset'', ''stop_served_model'', ''cancel_download'']"

datatype gate =
    Misformatted              \<comment> \<open>JSON in a code fence: the model is told how to call a tool\<close>
  | Blocked_by_user
  | Blocked_by_policy
  | Blocked_admin_tool
  | Blocked_public_tool
  | Passed                    \<comment> \<open>the tool is executed\<close>

text \<open>\<open>loads\<close> is \<open>json.loads\<close>, \<open>None\<close> when it raises.\<close>

definition misformatted :: "(string \<Rightarrow> pyval option) \<Rightarrow> string \<Rightarrow> string \<Rightarrow> bool" where
  "misformatted loads tool content \<longleftrightarrow>
     tool \<in> {''python'', ''json'', ''xml''} \<and> starts_with ''{'' (strip content) \<and> ends_with ''}'' (strip content)
     \<and> (case loads (strip content) of Some v \<Rightarrow> is_mapping v | None \<Rightarrow> False)"

definition tool_gate ::
    "(string \<Rightarrow> pyval option) \<Rightarrow> bool \<Rightarrow> string set \<Rightarrow> tool_policy option \<Rightarrow> string \<Rightarrow> string \<Rightarrow> gate" where
  "tool_gate loads admin disabled_tools policy tool content =
     (let policy_names = email_tool_policy_names (PStr tool) in
      if misformatted loads tool content then Misformatted
      else if list_ex (\<lambda>n. names_in n disabled_tools) policy_names then Blocked_by_user
      else if (case policy of None \<Rightarrow> False | Some p \<Rightarrow> list_ex (blocks p) policy_names) then Blocked_by_policy
      else if tool \<in> set ADMIN_TOOLS \<and> \<not> admin then Blocked_admin_tool
      else if is_public_blocked_tool (PStr tool) \<and> \<not> admin then Blocked_public_tool
      else Passed)"

section \<open>Routing to workers\<close>

definition rwordset :: "regex list \<Rightarrow> regex" where
  "rwordset rs = ignore_case (rseq [RWordB, ralt rs, RWordB])"

definition plural :: "string \<Rightarrow> regex" where
  "plural w = rseq [rlit w, ropt (rlit ''s'')]"

definition sz :: "string \<Rightarrow> regex" where
  "sz w = rseq [rlit w, RSet (one_of ''sz''), rlit ''e'']"

definition PROJECT_WORK_ACTION :: regex where
  "PROJECT_WORK_ACTION = rwordset (sz ''analy'' # map rlit
     [''audit'', ''build'', ''change'', ''check'', ''compare'', ''create'', ''debug'', ''deploy'', ''diagnose'',
      ''edit'', ''fix'', ''find'', ''implement'', ''inspect'', ''investigate'', ''patch'', ''pull'', ''push'', ''read'',
      ''restart'', ''review'', ''run'', ''search'', ''start'', ''stop'', ''test'', ''update'', ''verify'', ''write''])"

text \<open>The typographic apostrophe of the source's third alternative lies outside Latin-1.\<close>

definition PROJECT_WORK_NEGATOR :: regex where
  "PROJECT_WORK_NEGATOR = rwordset
     [rseq [rlit ''do'', rplus rspace, rlit ''not''], rseq [rlit ''don'', RSet (\<lambda>c. c = CHR 0x27), rlit ''t''],
      rlit ''dont'', rlit ''never'', rseq [rlit ''not'', rplus rspace, rlit ''to'']]"

definition CLAUSE_BOUNDARY :: regex where
  "CLAUSE_BOUNDARY = ignore_case (ralt
     [RSet (\<lambda>c. one_of ''!?;,'' c \<or> c = CHR 0x0A), rseq [rlit ''.'', RAhead is_space True],
      rseq [RWordB, ralt [rlit ''but'', rlit ''however''], RWordB]])"

definition PROJECT_WORK_SCOPE :: regex where
  "PROJECT_WORK_SCOPE = rwordset
     [plural ''api'', rseq [rlit ''branch'', ropt (rlit ''es'')], plural ''bug'', rlit ''code'', plural ''commit'',
      plural ''configuration'', plural ''container'', plural ''deployment'', plural ''file'', rlit ''git'', plural ''host'',
      plural ''issue'', plural ''project'', plural ''pull request'', plural ''repo'',
      rseq [rlit ''repositor'', ralt [rlit ''y'', rlit ''ies'']], plural ''script'', plural ''service'', plural ''server'',
      plural ''source'', rlit ''systemd'', plural ''test'']"

definition CONTEXTUAL_WORK_TARGET :: regex where
  "CONTEXTUAL_WORK_TARGET = rwordset (map rlit [''it'', ''that'', ''this'', ''them'', ''those'', ''again''])"

definition app_data_nouns :: "regex list" where
  "app_data_nouns = [plural ''book'', rlit ''library'', rlit ''calendar'', plural ''email'', rlit ''mailbox'', plural ''message'',
     plural ''note'', plural ''task'', rseq [rlit ''to'', ropt (RSet (one_of ''- '')), rlit ''do'', ropt (rlit ''s'')],
     plural ''reminder'']"

definition APP_DATA_SCOPE :: regex where
  "APP_DATA_SCOPE = rwordset app_data_nouns"

definition APP_DATA_LOOKUP :: regex where
  "APP_DATA_LOOKUP = ignore_case (rseq [RWordB,
     ralt (map rlit [''check'', ''find'', ''inspect'', ''list'', ''open'', ''read'', ''search'', ''show''] @ [sz ''summari'']),
     rplus rspace, ropt (rseq [ralt [rlit ''all'', rlit ''every''], rplus rspace]),
     ropt (rseq [ralt [rlit ''my'', rlit ''the'', rlit ''this'', rlit ''that'', rseq [rlit ''a'', ropt (rlit ''n'')]],
       rplus rspace]),
     ralt app_data_nouns, RWordB])"

text \<open>A negator after which the action occurs in the same clause.\<close>

definition negated_action :: "string \<Rightarrow> bool" where
  "negated_action clause =
     (case search_from PROJECT_WORK_NEGATOR [] clause of
        None \<Rightarrow> False
      | Some (_, (l, r, g)) \<Rightarrow> search_from PROJECT_WORK_ACTION l r \<noteq> None)"

definition project_work_clauses :: "string \<Rightarrow> string list" where
  "project_work_clauses message =
     filter (\<lambda>clause. re_search PROJECT_WORK_ACTION clause \<and> \<not> negated_action clause
         \<and> \<not> re_search APP_DATA_LOOKUP clause)
       (re_split CLAUSE_BOUNDARY message)"

definition is_explicit_project_work_request :: "string \<Rightarrow> bool" where
  "is_explicit_project_work_request message = list_ex (re_search PROJECT_WORK_SCOPE) (project_work_clauses message)"

definition is_contextual_project_work_followup :: "string \<Rightarrow> bool" where
  "is_contextual_project_work_followup message =
     list_ex (\<lambda>clause. re_search CONTEXTUAL_WORK_TARGET clause \<and> \<not> re_search APP_DATA_SCOPE clause)
       (project_work_clauses message)"

definition alias_char :: "char \<Rightarrow> bool" where
  "alias_char c \<longleftrightarrow> is_az c \<or> is_digit c \<or> c = CHR ''_'' \<or> c = CHR ''-''"

text \<open>\<open>workspaces\<close> is the value that the worker catalog holds for the worker.\<close>

definition selected_worker_workspace :: "pyval list \<Rightarrow> string \<Rightarrow> string \<Rightarrow> string option" where
  "selected_worker_workspace workspaces worker message =
     (let allowed = filter (\<lambda>w. w \<noteq> []) (map py_str workspaces);
          value = lower message
      in case find (\<lambda>alias. re_search (rseq [RNotBehind alias_char, rlit (lower alias), RNotAhead alias_char]) value) allowed of
           Some alias \<Rightarrow> Some alias
         | None \<Rightarrow>
             if worker = ''pc-codex'' \<and> ''home-lab'' \<in> set allowed then Some ''home-lab''
             else (case allowed of [] \<Rightarrow> None | w # _ \<Rightarrow> Some w))"


section \<open>Aliases\<close>

lemma prefix_split: "starts_with email_prefix name \<Longrightarrow> email_prefix @ drop (length email_prefix) name = name"
  by (metis append_take_drop_id starts_with_def)

lemma starts_prefix [simp]: "starts_with email_prefix (email_prefix @ name)"
  by (simp add: starts_with_def)

lemma prefixed_mcp: "starts_with ''mcp__'' (email_prefix @ name)"
  by (simp add: starts_with_def email_prefix_def)

lemma prefixed_not_builtin: "email_prefix @ name \<notin> set BUILTIN_EMAIL_TOOLS"
  by (simp add: email_prefix_def BUILTIN_EMAIL_TOOLS_def)

text \<open>The two spellings of an email tool, and a name that has only one.\<close>

lemma aliases_builtin:
  assumes "n \<in> set BUILTIN_EMAIL_TOOLS"
  shows "email_tool_policy_names (PStr n) = [PStr n, PStr (email_prefix @ n)]"
    and "email_tool_policy_names (PStr (email_prefix @ n)) = [PStr (email_prefix @ n), PStr n]"
  using assms by (simp_all add: email_tool_policy_names_def prefixed_not_builtin Let_def)

lemma aliases_other:
  "n \<notin> set BUILTIN_EMAIL_TOOLS \<Longrightarrow> \<forall>m \<in> set BUILTIN_EMAIL_TOOLS. n \<noteq> email_prefix @ m
     \<Longrightarrow> email_tool_policy_names (PStr n) = [PStr n]"
  using prefix_split [of n] by (auto simp: email_tool_policy_names_def Let_def)

lemma alias_cases:
  obtains (builtin) "n \<in> set BUILTIN_EMAIL_TOOLS" | (prefixed) m where "n = email_prefix @ m" "m \<in> set BUILTIN_EMAIL_TOOLS"
    | (other) "email_tool_policy_names (PStr n) = [PStr n]"
  using aliases_other [of n] by blast

text \<open>Having the same aliases is an equivalence whose classes are the sets of aliases.\<close>

lemma aliases_same:
  assumes "b \<in> set (email_tool_policy_names (PStr a))"
  shows "\<exists>n. b = PStr n \<and> set (email_tool_policy_names (PStr n)) = set (email_tool_policy_names (PStr a))"
proof (cases a rule: alias_cases)
  case builtin
  with assms have "b = PStr a \<or> b = PStr (email_prefix @ a)" by (simp add: aliases_builtin)
  with builtin show ?thesis by (metis aliases_builtin insert_commute list.simps(15) empty_set)
next
  case (prefixed m)
  with assms have "b = PStr m \<or> b = PStr (email_prefix @ m)" by (auto simp: aliases_builtin)
  with prefixed show ?thesis by (metis aliases_builtin insert_commute list.simps(15) empty_set)
next
  case other
  with assms have "b = PStr a" by simp
  then show ?thesis by blast
qed

lemma alias_refl: "PStr a \<in> set (email_tool_policy_names (PStr a))"
  by (cases a rule: alias_cases) (simp_all add: aliases_builtin)

lemma email_blocked: "name \<in> set BUILTIN_EMAIL_TOOLS \<Longrightarrow> is_public_blocked_tool (PStr name)"
  by (auto simp: is_public_blocked_tool_def NON_ADMIN_BLOCKED_TOOLS_def) (simp add: BUILTIN_EMAIL_TOOLS_def)

lemma qualified_blocked: "is_public_blocked_tool (PStr (email_prefix @ name))"
  by (simp add: is_public_blocked_tool_def prefixed_mcp) (simp add: email_prefix_def)

lemma public_blocked_alias:
  assumes "PStr b \<in> set (email_tool_policy_names (PStr a))"
  shows "is_public_blocked_tool (PStr b) = is_public_blocked_tool (PStr a)"
proof (cases a rule: alias_cases)
  case builtin
  with assms have "b = a \<or> b = email_prefix @ a" by (simp add: aliases_builtin)
  with builtin show ?thesis by (auto simp: email_blocked qualified_blocked)
next
  case (prefixed m)
  with assms have "b = m \<or> b = email_prefix @ m" by (auto simp: aliases_builtin)
  with prefixed show ?thesis by (auto simp: email_blocked qualified_blocked)
next
  case other
  with assms show ?thesis by simp
qed

text \<open>
  No spelling slips past a gate: of two spellings of the same tool either both or
  neither are stopped by the user's deny list and by the policy of the turn, and the block for
  ordinary users holds for both or for neither.
\<close>

theorem gates_ignore_spelling:
  assumes "PStr b \<in> set (email_tool_policy_names (PStr a))"
  shows "list_ex (\<lambda>n. names_in n disabled) (email_tool_policy_names (PStr b))
      = list_ex (\<lambda>n. names_in n disabled) (email_tool_policy_names (PStr a))
    \<and> list_ex (blocks p) (email_tool_policy_names (PStr b)) = list_ex (blocks p) (email_tool_policy_names (PStr a))
    \<and> is_public_blocked_tool (PStr b) = is_public_blocked_tool (PStr a)"
  using aliases_same [OF assms] public_blocked_alias [OF assms] by (auto simp: list_ex_iff)

theorem gates_ignore_spelling_witness:
  "is_public_blocked_tool (PStr ''mcp__email__send_email'') = is_public_blocked_tool (PStr ''send_email'')"
proof -
  have "PStr ''mcp__email__send_email'' \<in> set (email_tool_policy_names (PStr ''send_email''))"
    by (simp add: email_tool_policy_names_def BUILTIN_EMAIL_TOOLS_def email_prefix_def)
  from gates_ignore_spelling [OF this] show ?thesis by simp
qed

section \<open>Plan mode and guide-only turns\<close>

text \<open>
  Claim C29. In plan mode no known mutator runs, under either spelling, whoever asks and whatever
  the tool schemas hold, even when they cannot be imported; and nothing on the read-only list is
  put on the deny list.
\<close>

theorem plan_mode_blocks_mutators:
  assumes "m \<in> set PLAN_MODE_KNOWN_MUTATORS" and "PStr m \<in> set (email_tool_policy_names (PStr tool))"
    and "plan_mode_disabled_tools schemas \<subseteq> disabled"
  shows "tool_gate loads admin disabled policy tool content \<noteq> Passed
    \<and> plan_mode_disabled_tools schemas \<inter> set PLAN_MODE_READONLY_TOOLS = {}"
proof -
  have "set PLAN_MODE_KNOWN_MUTATORS \<inter> set PLAN_MODE_READONLY_TOOLS = {}"
    by (simp add: PLAN_MODE_KNOWN_MUTATORS_def PLAN_MODE_READONLY_TOOLS_def)
  with assms(1) have "m \<in> plan_mode_disabled_tools schemas" by (auto simp: plan_mode_disabled_tools_def Let_def)
  with assms(2,3) have "list_ex (\<lambda>n. names_in n disabled) (email_tool_policy_names (PStr tool))"
    by (auto simp: list_ex_iff names_in_def intro!: bexI [of _ "PStr m"])
  then show ?thesis by (auto simp: tool_gate_def plan_mode_disabled_tools_def Let_def)
qed

theorem plan_mode_blocks_mutators_witness:
  "tool_gate (\<lambda>_. None) True (plan_mode_disabled_tools None) None ''mcp__email__send_email'' [] \<noteq> Passed"
proof -
  have "''send_email'' \<in> set PLAN_MODE_KNOWN_MUTATORS"
    by (simp add: PLAN_MODE_KNOWN_MUTATORS_def)
  moreover have "PStr ''send_email'' \<in> set (email_tool_policy_names (PStr ''mcp__email__send_email''))"
    by code_simp
  ultimately show ?thesis
    using plan_mode_blocks_mutators [of "''send_email''" "''mcp__email__send_email''" None "plan_mode_disabled_tools None"] by simp
qed

text \<open>
  The static backstop of plan mode is not complete: when the schemas cannot be imported,
  an administrator's plan-mode turn still edits files.
\<close>

theorem backstop_misses_edit_file:
  "tool_gate loads True (plan_mode_disabled_tools None) None ''edit_file'' content = Passed"
  by (simp add: tool_gate_def misformatted_def email_tool_policy_names_def BUILTIN_EMAIL_TOOLS_def email_prefix_def
      starts_with_def plan_mode_disabled_tools_def PLAN_MODE_KNOWN_MUTATORS_def PLAN_MODE_READONLY_TOOLS_def
      names_in_def Let_def)

text \<open>
  A turn whose message forbids tools runs none: with the policy built for it every tool
  name stops at a gate, whatever the deny list, the schemas and the caller, and the reason that is
  reported for a known tool is the one that was detected.
\<close>

theorem guide_only_runs_nothing:
  assumes "detect_guide_only_turn message = Some why" and "tool \<noteq> []"
  shows "tool_gate loads admin disabled (Some (build_effective_tool_policy schemas sections denied message)) tool content
      \<noteq> Passed
    \<and> (t \<in> known_tool_names schemas sections \<longrightarrow> t \<noteq> [] \<longrightarrow>
        reason_for (build_effective_tool_policy schemas sections denied message) (Some t) = why @ ''.'')"
proof -
  let ?p = "build_effective_tool_policy schemas sections denied message"
  have "tp_block_all ?p" "t \<in> known_tool_names schemas sections \<longrightarrow> tp_reasons ?p t = Some (why @ ''.'')"
    using assms(1) by (simp_all add: build_effective_tool_policy_def Let_def)
  moreover have "list_ex (blocks ?p) (email_tool_policy_names (PStr tool))"
    using alias_refl [of tool] assms(2) \<open>tp_block_all ?p\<close>
    by (auto simp: list_ex_iff blocks_def intro!: bexI [of _ "PStr tool"])
  ultimately show ?thesis by (auto simp: tool_gate_def reason_for_def Let_def)
qed


theorem guide_only_runs_nothing_witness:
  "tool_gate (\<lambda>_. None) True {} (Some (build_effective_tool_policy None None [] (PStr ''guide only mode''))) ''bash'' ''ls'' \<noteq> Passed"
proof -
  have "detect_guide_only_turn (PStr ''guide only mode'') = Some ''guide-only mode requested''" by code_simp
  from guide_only_runs_nothing [OF this, of "''bash''"] show ?thesis by simp
qed

section \<open>Who is an administrator\<close>

lemma account_not_internal:
  "dget (users (run auth_step (boot now file stored tokens) ops)) u = Some a \<Longrightarrow> u \<noteq> [] \<and> u \<noteq> INTERNAL_TOOL_USER"
proof -
  assume "dget (users (run auth_step (boot now file stored tokens) ops)) u = Some a"
  moreover have "names_inv (run auth_step (boot now file stored tokens) ops)"
    by (rule account_names.run_inv) (rule names_boot)
  ultimately have "good_name u" by (simp add: names_inv_def)
  then show ?thesis by (auto simp: good_name_def RESERVED_USERNAMES_def INTERNAL_TOOL_USER_def)
qed

text \<open>
  With authentication on, the two notions of an administrator agree on every account of
  every reachable state: an account may run administrative task actions exactly when it is an
  administrator, which no account reaches by taking the name of the internal caller; and an account
  that is not never gets a tool that is closed to ordinary users past the gates, nor an MCP tool,
  under any spelling.
\<close>

theorem admin_notions_agree:
  assumes "s = run auth_step (boot now file stored tokens) ops" and "dget (users s) u = Some a"
  shows "owner_has_admin_task_privileges False (Some s) (Some u) = adm a
    \<and> owner_is_admin_or_single_user False (Some s) (Some u) = adm a
    \<and> (\<not> adm a \<longrightarrow> is_public_blocked_tool (PStr n) \<longrightarrow> PStr n \<in> set (email_tool_policy_names (PStr tool)) \<longrightarrow>
        tool_gate loads (owner_is_admin_or_single_user False (Some s) (Some u)) disabled policy tool content \<noteq> Passed)"
proof -
  have "u \<noteq> []" "u \<noteq> INTERNAL_TOOL_USER" using account_not_internal assms by blast+
  moreover have "is_configured s" using assms(2) by (auto simp: is_configured_def)
  ultimately have agree: "owner_has_admin_task_privileges False (Some s) (Some u) = adm a"
      "owner_is_admin_or_single_user False (Some s) (Some u) = adm a"
    using assms(2)
    by (simp_all add: owner_has_admin_task_privileges_def owner_is_admin_or_single_user_def is_admin_def)
  moreover have "tool_gate loads False disabled policy tool content \<noteq> Passed"
    if "is_public_blocked_tool (PStr n)" "PStr n \<in> set (email_tool_policy_names (PStr tool))"
    using that(1) public_blocked_alias [OF that(2)] by (auto simp: tool_gate_def Let_def)
  ultimately show ?thesis by simp
qed

theorem admin_notions_agree_witness:
  "owner_has_admin_task_privileges False
     (Some (run auth_step (boot 0 (Some reserved_file) [] []) [A_create demo_env [] 1 ''ann'' ''pw'' False])) (Some ''ann'') = False"
proof -
  have "dget (users (run auth_step (boot 0 (Some reserved_file) [] []) [A_create demo_env [] 1 ''ann'' ''pw'' False])) ''ann''
      = Some ((plain_account ''pw'' 1)\<lparr>a_is_admin := Some False, a_privileges := Some DEFAULT_PRIVILEGES\<rparr>)"
    by code_simp
  from admin_notions_agree [OF refl this] show ?thesis by (simp add: adm_def)
qed

text \<open>
  Before the first account exists the two notions disagree: nobody may use a tool closed
  to ordinary users, but every caller, named or not, may run administrative task actions.
\<close>

theorem setup_window_differs:
  "owner_has_admin_task_privileges False (Some (boot now None stored tokens)) owner
   \<and> \<not> owner_is_admin_or_single_user False (Some (boot now None stored tokens)) owner"
  by (simp add: owner_has_admin_task_privileges_def owner_is_admin_or_single_user_def is_configured_def users_def
      boot_def load_config_def migrate_single_user_def drop_reserved_def migrate_legacy_admin_role_def)

end
