(* ===== verification/ContextBudget.thy ===== *)
theory ContextBudget
  imports PyValue
begin

text \<open>
  \<open>src/context_budget.py\<close>: the input-token budget of the agent loop, the shares of the context
  classes, and the lookup of a model in an operator's table. The head room \<open>0.85\<close> is 17/20: a
  product with an integer below \<open>2 ^ 49\<close> is rounded to a float on the same side of every integer,
  and from 235,295 on the ceiling decides anyway.
\<close>

section \<open>Integers of settings\<close>

definition caught :: "int result \<Rightarrow> bool" where
  "caught r = (case r of Inl (TypeError _) \<Rightarrow> True | Inl (ValueError _) \<Rightarrow> True | _ \<Rightarrow> False)"

definition int_or_zero :: "(string \<Rightarrow> int) \<Rightarrow> pyval \<Rightarrow> int result" where
  "int_or_zero fint v =
     (let r = py_int fint (if truthy v then v else PInt 0) in if caught r then Inr 0 else r)"

section \<open>The budget\<close>

definition DEFAULT_HARD_MAX :: int where "DEFAULT_HARD_MAX = 200000"
definition DEFAULT_BUDGET :: int where "DEFAULT_BUDGET = 6000"

definition DEFAULT_CLASS_BUDGET_PERCENT :: "int dict" where
  "DEFAULT_CLASS_BUDGET_PERCENT = [(''conversation'', 45), (''working_state'', 35), (''recalled_memory'', 15),
     (''retrieved_knowledge'', 25), (''derived_knowledge'', 10), (''tool_catalog'', 20), (''tool_result'', 30),
     (''extension_state'', 20), (''time'', 5)]"

definition compute_input_token_budget ::
    "(string \<Rightarrow> int) \<Rightarrow> pyval \<Rightarrow> pyval \<Rightarrow> bool \<Rightarrow> int \<Rightarrow> int \<Rightarrow> int result" where
  "compute_input_token_budget fint configured0 context0 explicit def_budget hard_max =
     (case int_or_zero fint configured0 of
        Inl e \<Rightarrow> Inl e
      | Inr configured \<Rightarrow>
          (case int_or_zero fint context0 of
             Inl e \<Rightarrow> Inl e
           | Inr context_length \<Rightarrow>
               if explicit \<and> configured > 0 then
                 Inr (if context_length > 0 then min configured context_length else configured)
               else if context_length > 0 then Inr (max 1 (min (context_length * 17 div 20) hard_max))
               else Inr (if configured > 0 then configured else def_budget)))"

definition budget_is_explicit :: "(string \<Rightarrow> int) \<Rightarrow> pyval \<Rightarrow> int \<Rightarrow> bool result" where
  "budget_is_explicit fint configured def_budget =
     map_sum id (\<lambda>c. c > 0 \<and> c \<noteq> def_budget) (py_int fint (if truthy configured then configured else PInt 0))"

section \<open>Shares of the context classes\<close>

definition raw_percent :: "pyval dict \<Rightarrow> string \<Rightarrow> int \<Rightarrow> pyval" where
  "raw_percent given name current =
     (if name = ''extension_state'' then pget_or given name (pget_or given ''oracle_state'' (PInt current))
      else pget_or given name (PInt current))"

fun class_percents :: "(string \<Rightarrow> int) \<Rightarrow> pyval dict \<Rightarrow> int dict \<Rightarrow> int dict result" where
  "class_percents fint given [] = Inr []"
| "class_percents fint given ((name, current) # rest) =
     (let r = py_int fint (raw_percent given name current) in
      case (if caught r then Inr current else map_sum id (\<lambda>p. max 1 (min p 100)) r) of
        Inl e \<Rightarrow> Inl e
      | Inr percent \<Rightarrow> map_sum id (\<lambda>ps. (name, percent) # ps) (class_percents fint given rest))"

text \<open>\<open>setting\<close> is the stored setting, used when no value is passed; anything but a dictionary counts as empty.\<close>

definition context_class_budget_percent :: "(string \<Rightarrow> int) \<Rightarrow> pyval \<Rightarrow> pyval \<Rightarrow> int dict result" where
  "context_class_budget_percent fint setting given =
     class_percents fint (as_mapping (if given = PNone then setting else given)) DEFAULT_CLASS_BUDGET_PERCENT"

section \<open>Looking up a model\<close>

definition clean :: "string \<Rightarrow> string" where
  "clean s = lower (strip s)"

definition model_basename :: "string \<Rightarrow> string" where
  "model_basename name = hd (split_on CHR '':'' (last (split_on CHR ''/'' name)))"

definition in_model :: "string \<Rightarrow> string \<Rightarrow> bool" where
  "in_model name lowered \<longleftrightarrow> lowered \<noteq> [] \<and> (contains lowered (model_basename name) \<or> contains lowered name)"

fun longest_key :: "(string \<Rightarrow> int) \<Rightarrow> string \<Rightarrow> pyval dict \<Rightarrow> string \<Rightarrow> int \<Rightarrow> int result" where
  "longest_key fint name [] best_key best_value = Inr best_value"
| "longest_key fint name ((key, raw) # rest) best_key best_value =
     (if in_model name (clean key) \<and> length (clean key) > length best_key then
        (case int_or_zero fint raw of
           Inl e \<Rightarrow> Inl e
         | Inr v \<Rightarrow> longest_key fint name rest (clean key) v)
      else longest_key fint name rest best_key best_value)"

definition match_model_config :: "(string \<Rightarrow> int) \<Rightarrow> string \<Rightarrow> pyval \<Rightarrow> int result" where
  "match_model_config fint model table =
     (case table of
        PDict items \<Rightarrow>
          let name = clean model in
          if name = [] then Inr 0
          else (case find (\<lambda>(key, raw). clean key = name) items of
                  Some (key, raw) \<Rightarrow> int_or_zero fint raw
                | None \<Rightarrow> longest_key fint name items [] 0)
      | _ \<Rightarrow> Inr 0)"

definition configured_model_window :: "(string \<Rightarrow> int) \<Rightarrow> pyval dict \<Rightarrow> string \<Rightarrow> int result" where
  "configured_model_window fint settings model =
     match_model_config fint model (pget_or settings ''model_context_windows'' (PDict []))"

definition model_input_token_budget :: "(string \<Rightarrow> int) \<Rightarrow> pyval dict \<Rightarrow> string \<Rightarrow> int result" where
  "model_input_token_budget fint settings model =
     match_model_config fint model (pget_or settings ''model_input_token_budgets'' (PDict []))"

section \<open>Properties\<close>

text \<open>
  Every budget is a usable one: when the two settings convert, the budget is at least one
  token, an explicit budget is never exceeded, and with a known window neither it nor the window is;
  without an explicit one the ceiling holds as well.
\<close>

theorem budget_fits_window:
  assumes "int_or_zero fint configured0 = Inr configured" and "int_or_zero fint context0 = Inr window"
    and "0 < def_budget"
  shows "\<exists>b. compute_input_token_budget fint configured0 context0 explicit def_budget hard_max = Inr b \<and> 1 \<le> b
    \<and> (0 < window \<longrightarrow> b \<le> window) \<and> (explicit \<longrightarrow> 0 < configured \<longrightarrow> b \<le> configured)
    \<and> (0 < window \<longrightarrow> \<not> (explicit \<and> 0 < configured) \<longrightarrow> b \<le> max 1 hard_max)"
proof -
  have "window * 17 div 20 \<le> window" if "0 < window" using that by simp
  with assms show ?thesis by (auto simp: compute_input_token_budget_def)
qed

theorem budget_fits_window_witness:
  "\<exists>b. compute_input_token_budget (\<lambda>_. 0) (PStr ''8000'') (PInt 4096) True 6000 200000 = Inr b \<and> 1 \<le> b \<and> b \<le> 4096"
proof -
  have "int_or_zero (\<lambda>_. 0) (PStr ''8000'') = Inr 8000" "int_or_zero (\<lambda>_. 0) (PInt 4096) = Inr 4096"
    by code_simp+
  from budget_fits_window [OF this, of 6000 True 200000] show ?thesis by auto
qed

lemma class_percents_ok:
  "class_percents fint given ds = Inr ps \<Longrightarrow> \<forall>p \<in> set (dvals ds). 1 \<le> p \<and> p \<le> 100 \<Longrightarrow>
     dkeys ps = dkeys ds \<and> (\<forall>p \<in> set (dvals ps). 1 \<le> p \<and> p \<le> 100)"
proof (induction ds arbitrary: ps)
  case (Cons d ds)
  obtain name current where d: "d = (name, current)" by (cases d)
  let ?r = "py_int fint (raw_percent given name current)"
  let ?X = "if caught ?r then Inr current else map_sum id (\<lambda>p. max 1 (min p 100)) ?r"
  have unfold: "class_percents fint given (d # ds) = (case ?X of Inl e \<Rightarrow> Inl e
      | Inr percent \<Rightarrow> map_sum id (\<lambda>ps. (name, percent) # ps) (class_percents fint given ds))"
    by (simp only: d class_percents.simps Let_def)
  obtain percent where p: "?X = Inr percent"
    using Cons.prems(1) unfolding unfold by (cases ?X) simp_all
  obtain qs where qs: "class_percents fint given ds = Inr qs" and ps: "ps = (name, percent) # qs"
    using Cons.prems(1) unfolding unfold p by (cases "class_percents fint given ds") simp_all
  have "1 \<le> percent \<and> percent \<le> 100"
    using p Cons.prems(2) by (cases ?r) (auto simp: d split: if_splits)
  moreover have "dkeys qs = dkeys ds \<and> (\<forall>p \<in> set (dvals qs). 1 \<le> p \<and> p \<le> 100)"
    by (rule Cons.IH [OF qs]) (use Cons.prems(2) in simp)
  ultimately show ?case by (simp add: d ps)
qed simp

text \<open>
  A reference for the lookup: of the keys that occur in the model's name the first longest one,
  once an exact key is ruled out.
\<close>

definition candidate_keys :: "string \<Rightarrow> pyval dict \<Rightarrow> pyval dict" where
  "candidate_keys name items = filter (\<lambda>(k, raw). in_model name k) (map (\<lambda>(k, raw). (clean k, raw)) items)"

lemma candidate_simps [simp]:
  "candidate_keys name [] = []"
  "candidate_keys name ((k, raw) # items) =
     (if in_model name (clean k) then [(clean k, raw)] else []) @ candidate_keys name items"
  by (simp_all add: candidate_keys_def)

lemma longest_key_spec:
  assumes "\<forall>(k, raw) \<in> set items. int_or_zero fint raw = Inr (val raw)"
  shows "longest_key fint name items bk bv = Inr
     (case first_max (\<lambda>(k, raw). length k) (candidate_keys name items) of
        None \<Rightarrow> bv | Some (k, raw) \<Rightarrow> if length bk < length k then val raw else bv)"
  using assms
proof (induction items arbitrary: bk bv)
  case (Cons item items)
  obtain k raw where item: "item = (k, raw)" by (cases item)
  with Cons.prems have raw: "int_or_zero fint raw = Inr (val raw)"
    and rest: "\<forall>(k, raw) \<in> set items. int_or_zero fint raw = Inr (val raw)" by auto
  note IH = Cons.IH [OF rest]
  show ?case
    by (cases "first_max (\<lambda>(k, raw). length k) (candidate_keys name items)")
       (auto simp: item raw IH)
qed simp

text \<open>
  The lookup of a model in an operator's table is the documented one, when every value of
  the table converts: an exact key decides; otherwise the first of the longest keys that occur in the
  model's name or base name; otherwise zero.
\<close>

theorem match_is_longest_key:
  assumes "\<forall>(k, raw) \<in> set items. int_or_zero fint raw = Inr (val raw)" and "clean model \<noteq> []"
  shows "match_model_config fint model (PDict items) = Inr
     (case find (\<lambda>(k, raw). clean k = clean model) items of
        Some (k, raw) \<Rightarrow> val raw
      | None \<Rightarrow> (case first_max (\<lambda>(k, raw). length k) (candidate_keys (clean model) items) of
                  Some (k, raw) \<Rightarrow> val raw | None \<Rightarrow> 0))"
proof (cases "find (\<lambda>(k, raw). clean k = clean model) items")
  case None
  have "length k \<noteq> 0" if "first_max (\<lambda>(k, raw). length k) (candidate_keys (clean model) items) = Some (k, raw)" for k raw
    using first_max_in [OF that] by (auto simp: candidate_keys_def in_model_def)
  with None longest_key_spec [OF assms(1), of "clean model" "[]" 0] assms(2) show ?thesis
    by (auto simp: match_model_config_def Let_def split: option.split)
next
  case (Some kr)
  obtain k raw where kr: "kr = (k, raw)" by (cases kr)
  from find_SomeD [OF Some] have "kr \<in> set items" ..
  from bspec [OF assms(1) this] have "int_or_zero fint raw = Inr (val raw)" by (simp add: kr)
  with Some assms(2) show ?thesis by (simp add: match_model_config_def Let_def kr)
qed

theorem match_is_longest_key_witness:
  "match_model_config (\<lambda>_. 0) ''hub/Qwen3-32B:q4'' (PDict [(''qwen'', PInt 8), (''qwen3'', PStr ''16''), (''hub/'', PInt 4)]) = Inr 16"
proof -
  have all: "\<forall>(k, raw) \<in> set [(''qwen'', PInt 8), (''qwen3'', PStr ''16''), (''hub/'', PInt 4)].
      int_or_zero (\<lambda>_. 0) raw = Inr (if raw = PStr ''16'' then 16 else if raw = PInt 8 then 8 else 4)"
    by code_simp
  have "clean ''hub/Qwen3-32B:q4'' = ''hub/qwen3-32b:q4''" by code_simp
  then have ne: "clean ''hub/Qwen3-32B:q4'' \<noteq> []" by simp
  have "(case find (\<lambda>(k, raw). clean k = clean ''hub/Qwen3-32B:q4'') [(''qwen'', PInt 8), (''qwen3'', PStr ''16''), (''hub/'', PInt 4)] of
        Some (k, raw) \<Rightarrow> (if raw = PStr ''16'' then 16 else if raw = PInt 8 then 8 else 4)
      | None \<Rightarrow> (case first_max (\<lambda>(k, raw). length k) (candidate_keys (clean ''hub/Qwen3-32B:q4'') [(''qwen'', PInt 8), (''qwen3'', PStr ''16''), (''hub/'', PInt 4)]) of
                  Some (k, raw) \<Rightarrow> (if raw = PStr ''16'' then 16 else if raw = PInt 8 then 8 else 4) | None \<Rightarrow> 0)) = (16 :: int)"
    by code_simp
  with match_is_longest_key [OF all ne] show ?thesis by simp
qed

text \<open>
  The shares of the context classes are safe whatever was stored: unless an infinite
  number makes the conversion raise, every class of the defaults has a share, from 1 to 100 percent.
\<close>

theorem class_budgets_are_percentages:
  assumes "context_class_budget_percent fint setting given = Inr ps"
  shows "dkeys ps = dkeys DEFAULT_CLASS_BUDGET_PERCENT \<and> (\<forall>p \<in> set (dvals ps). 1 \<le> p \<and> p \<le> 100)"
  using assms unfolding context_class_budget_percent_def
  by (rule class_percents_ok) (simp add: DEFAULT_CLASS_BUDGET_PERCENT_def)

theorem class_budgets_are_percentages_witness:
  "dkeys (projr (context_class_budget_percent (\<lambda>_. 0) PNone (PDict [(''time'', PInt 700), (''oracle_state'', PStr ''x'')])))
     = dkeys DEFAULT_CLASS_BUDGET_PERCENT"
proof -
  have "isl (context_class_budget_percent (\<lambda>_. 0) PNone (PDict [(''time'', PInt 700), (''oracle_state'', PStr ''x'')])) = False"
    by code_simp
  then obtain ps where ps: "context_class_budget_percent (\<lambda>_. 0) PNone (PDict [(''time'', PInt 700), (''oracle_state'', PStr ''x'')]) = Inr ps"
    by (metis isl_def sum.exhaust_sel)
  from class_budgets_are_percentages [OF this] show ?thesis by (simp add: ps)
qed

text \<open>
  The conversions are meant to be fail-soft, but an infinite number, which the settings
  file may hold as \<open>Infinity\<close>, raises an error that no handler catches.
\<close>

theorem infinite_setting_raises:
  "match_model_config fint ''qwen3'' (PDict [(''qwen'', PFloat ''inf'')]) = Inl (OverflowError ''inf'')"
  by code_simp

end
