(* ===== verification/InteractiveGate.thy ===== *)
theory InteractiveGate
  imports AgentRuns PyValue
begin

text \<open>
  \<open>src/interactive_gate.py\<close>: background work waits until the foreground is quiet. Moments and
  durations are microseconds of the monotonic clock, which is positive once anything was tracked. The waiting coroutine is a function of what its
  rounds observe; the agent runs it looks at are those of the theory \<open>AgentRuns\<close>.
\<close>

section \<open>Configuration\<close>

text \<open>An environment variable that should hold a number: absent, not a number, or its value in microseconds.\<close>

datatype env_number = Unset | Malformed | Number int

record gate_env =
  ge_gate :: "string option"
  ge_quiet :: env_number
  ge_max_wait :: env_number
  ge_browser :: env_number

definition gate_enabled :: "gate_env \<Rightarrow> bool" where
  "gate_enabled env \<longleftrightarrow>
     lower (case ge_gate env of None \<Rightarrow> ''true'' | Some v \<Rightarrow> v) \<notin> {''0'', ''false'', ''no'', ''off''}"

definition number_or :: "int \<Rightarrow> env_number \<Rightarrow> int" where
  "number_or d n = (case n of Number v \<Rightarrow> max 0 v | _ \<Rightarrow> d)"

definition quiet_seconds :: "gate_env \<Rightarrow> int" where
  "quiet_seconds env = number_or 1500000 (ge_quiet env)"

definition max_wait_seconds :: "gate_env \<Rightarrow> int" where
  "max_wait_seconds env = number_or 0 (ge_max_wait env)"

definition browser_active_seconds :: "gate_env \<Rightarrow> int" where
  "browser_active_seconds env = number_or 45000000 (ge_browser env)"

definition PASSIVE_EXACT_PATHS :: "string list" where
  "PASSIVE_EXACT_PATHS = [''/api/activity/heartbeat'', ''/api/client-perf'', ''/api/tasks/notifications'',
     ''/api/research/active'', ''/api/email/urgency-state'']"

definition PASSIVE_PREFIXES :: "string list" where
  "PASSIVE_PREFIXES = [''/api/chat/stream_status'', ''/api/health'', ''/api/prefs'']"

definition should_track_interactive_request :: "gate_env \<Rightarrow> string \<Rightarrow> string \<Rightarrow> bool" where
  "should_track_interactive_request env path meth =
     (if \<not> gate_enabled env then False
      else if upper meth = ''OPTIONS'' then False
      else if path \<in> set PASSIVE_EXACT_PATHS then False
      else \<not> list_ex (\<lambda>p. starts_with p path) PASSIVE_PREFIXES)"

section \<open>Foreground activity\<close>

record foreground =
  active_requests :: int
  last_activity :: int
  last_browser :: int

definition idle_foreground :: foreground where
  "idle_foreground = \<lparr>active_requests = 0, last_activity = 0, last_browser = 0\<rparr>"

definition mark_browser_activity :: "gate_env \<Rightarrow> int \<Rightarrow> foreground \<Rightarrow> foreground" where
  "mark_browser_activity env now s = (if gate_enabled env then s\<lparr>last_browser := now\<rparr> else s)"

definition enter_request :: "gate_env \<Rightarrow> int \<Rightarrow> foreground \<Rightarrow> foreground" where
  "enter_request env now s =
     (if gate_enabled env then s\<lparr>active_requests := active_requests s + 1, last_activity := now\<rparr> else s)"

definition exit_request :: "gate_env \<Rightarrow> int \<Rightarrow> foreground \<Rightarrow> foreground" where
  "exit_request env now s =
     (if gate_enabled env then s\<lparr>active_requests := max 0 (active_requests s - 1), last_activity := now\<rparr> else s)"

definition has_recent_browser_activity :: "gate_env \<Rightarrow> int \<Rightarrow> foreground \<Rightarrow> bool" where
  "has_recent_browser_activity env now s =
     (let ttl = browser_active_seconds env in
      if ttl \<le> 0 \<or> last_browser s \<le> 0 then False else now - last_browser s < ttl)"

text \<open>\<open>chat_streams\<close> says whether the chat routes have an active stream.\<close>

definition has_active_chat_stream :: "bool \<Rightarrow> run_manager \<Rightarrow> bool" where
  "has_active_chat_stream chat_streams m \<longleftrightarrow>
     chat_streams \<or> list_ex (\<lambda>i. ar_status (all_runs m ! i) = Run_running) (dvals (run_table m))"

definition has_foreground_activity :: "gate_env \<Rightarrow> int \<Rightarrow> bool \<Rightarrow> run_manager \<Rightarrow> foreground \<Rightarrow> bool" where
  "has_foreground_activity env now chat_streams m s =
     (if \<not> gate_enabled env then False
      else if active_requests s > 0 then True
      else if last_activity s > 0 \<and> now - last_activity s < quiet_seconds env then True
      else has_recent_browser_activity env now s \<or> has_active_chat_stream chat_streams m)"

section \<open>Waiting\<close>

text \<open>What one round of the loop sees: the clock, the foreground, and whether a chat stream is active.\<close>

record observation =
  ob_now :: int
  ob_fore :: foreground
  ob_stream :: bool

datatype wait_result = Returns bool | Waits int   \<comment> \<open>the return value, or the timeout of the wait\<close>

definition wait_round :: "gate_env \<Rightarrow> int option \<Rightarrow> bool \<Rightarrow> observation \<Rightarrow> wait_result" where
  "wait_round env deadline waited ob =
     (let s = ob_fore ob; now = ob_now ob;
          quiet_remaining = quiet_seconds env - (now - last_activity s);
          browser_active = has_recent_browser_activity env now s
      in if active_requests s \<le> 0 \<and> quiet_remaining \<le> 0 \<and> \<not> ob_stream ob \<and> \<not> browser_active then Returns waited
         else let timeout = (if active_requests s > 0 \<or> ob_stream ob \<or> browser_active then 250000
                             else min (max quiet_remaining 50000) 500000)
              in case deadline of
                   None \<Rightarrow> Waits timeout
                 | Some d \<Rightarrow> if d - now \<le> 0 then Returns True else Waits (min timeout (d - now)))"

fun wait_loop :: "gate_env \<Rightarrow> int option \<Rightarrow> bool \<Rightarrow> observation list \<Rightarrow> bool option" where
  "wait_loop env deadline waited [] = None"
| "wait_loop env deadline waited (ob # obs) =
     (case wait_round env deadline waited ob of Returns r \<Rightarrow> Some r | Waits _ \<Rightarrow> wait_loop env deadline True obs)"

definition wait_for_interactive_quiet :: "gate_env \<Rightarrow> int \<Rightarrow> observation list \<Rightarrow> bool option" where
  "wait_for_interactive_quiet env begun obs =
     (if \<not> gate_enabled env then Some False
      else wait_loop env (if max_wait_seconds env > 0 then Some (begun + max_wait_seconds env) else None) False obs)"

section \<open>Properties\<close>

text \<open>A round at which nothing happens in the foreground.\<close>

definition quiet_round :: "gate_env \<Rightarrow> observation \<Rightarrow> bool" where
  "quiet_round env ob \<longleftrightarrow> active_requests (ob_fore ob) \<le> 0
     \<and> quiet_seconds env \<le> ob_now ob - last_activity (ob_fore ob) \<and> \<not> ob_stream ob
     \<and> \<not> has_recent_browser_activity env (ob_now ob) (ob_fore ob)"

lemma round_quiet: "quiet_round env ob \<Longrightarrow> wait_round env deadline waited ob = Returns waited"
  by (simp add: wait_round_def quiet_round_def Let_def)

lemma round_late:
  "\<not> quiet_round env ob \<Longrightarrow> deadline = Some d \<Longrightarrow> d \<le> ob_now ob \<Longrightarrow> wait_round env deadline waited ob = Returns True"
  by (auto simp: wait_round_def quiet_round_def Let_def)

lemma round_waits:
  "\<not> quiet_round env ob \<Longrightarrow> (\<And>d. deadline = Some d \<Longrightarrow> ob_now ob < d) \<Longrightarrow>
     \<exists>t. wait_round env deadline waited ob = Waits t \<and> 0 < t \<and> t \<le> 500000"
  by (auto simp: wait_round_def quiet_round_def Let_def split: option.split)

text \<open>The round at which the loop stops: the first quiet one, or the first at or after the deadline.\<close>

definition stops :: "gate_env \<Rightarrow> int option \<Rightarrow> observation \<Rightarrow> bool" where
  "stops env deadline ob \<longleftrightarrow> quiet_round env ob \<or> (\<exists>d. deadline = Some d \<and> d \<le> ob_now ob)"

lemma loop_stops:
  "wait_loop env deadline waited obs =
     (case dropWhile (\<lambda>ob. \<not> stops env deadline ob) obs of
        [] \<Rightarrow> None
      | ob # _ \<Rightarrow> Some (waited \<or> takeWhile (\<lambda>ob. \<not> stops env deadline ob) obs \<noteq> [] \<or> \<not> quiet_round env ob))"
proof (induction obs arbitrary: waited)
  case (Cons ob obs)
  show ?case
  proof (cases "stops env deadline ob")
    case True
    then show ?thesis
      by (cases "quiet_round env ob") (auto simp: stops_def round_quiet round_late)
  next
    case False
    then obtain t where "wait_round env deadline waited ob = Waits t"
      using round_waits [of env ob deadline waited] by (force simp: stops_def)
    with False Cons.IH [of True] show ?thesis by (simp del: dropWhile_eq_Nil_conv split: list.split)
  qed
qed simp

text \<open>
  Waiting is exact. It ends at the first round at which the foreground is quiet or the
  configured limit has passed, and at no other; it reports that it had to wait unless the very first
  round was quiet; and every wait in between is positive, at most half a second, and never past the
  limit, so the loop comes back in time to see it.
\<close>

theorem waiting_is_exact:
  "wait_loop env deadline False obs =
     (case dropWhile (\<lambda>ob. \<not> stops env deadline ob) obs of
        [] \<Rightarrow> None
      | ob # _ \<Rightarrow> Some (if takeWhile (\<lambda>ob. \<not> stops env deadline ob) obs = [] then \<not> quiet_round env ob else True))
   \<and> (case wait_round env deadline waited ob of
        Returns r \<Rightarrow> stops env deadline ob
      | Waits t \<Rightarrow> 0 < t \<and> t \<le> 500000 \<and> pred_option (\<lambda>d. ob_now ob + t \<le> d) deadline)"
proof
  show "case wait_round env deadline waited ob of
        Returns r \<Rightarrow> stops env deadline ob
      | Waits t \<Rightarrow> 0 < t \<and> t \<le> 500000 \<and> pred_option (\<lambda>d. ob_now ob + t \<le> d) deadline"
    by (auto simp: wait_round_def stops_def quiet_round_def Let_def split: option.split)
qed (simp add: loop_stops del: dropWhile_eq_Nil_conv takeWhile_eq_Nil_iff split: list.split)

section \<open>Requests in flight\<close>

datatype gate_op = G_enter int | G_exit int | G_browser int

fun gate_step :: "gate_env \<Rightarrow> foreground \<Rightarrow> gate_op \<Rightarrow> foreground" where
  "gate_step env s (G_enter now) = enter_request env now s"
| "gate_step env s (G_exit now) = exit_request env now s"
| "gate_step env s (G_browser now) = mark_browser_activity env now s"

definition entered :: "gate_op list \<Rightarrow> nat" where
  "entered ops = length (filter (\<lambda>e. case e of G_enter _ \<Rightarrow> True | _ \<Rightarrow> False) ops)"

definition left :: "gate_op list \<Rightarrow> nat" where
  "left ops = length (filter (\<lambda>e. case e of G_exit _ \<Rightarrow> True | _ \<Rightarrow> False) ops)"

text \<open>Requests are context managers: at every moment at most as many were left as entered.\<close>

definition bracketed :: "gate_op list \<Rightarrow> bool" where
  "bracketed ops \<longleftrightarrow> (\<forall>n. left (take n ops) \<le> entered (take n ops))"

lemma counts_snoc [simp]:
  "entered (ops @ [e]) = entered ops + (case e of G_enter _ \<Rightarrow> 1 | _ \<Rightarrow> 0)"
  "left (ops @ [e]) = left ops + (case e of G_exit _ \<Rightarrow> 1 | _ \<Rightarrow> 0)"
  "entered [] = 0" "left [] = 0"
  by (auto simp: entered_def left_def split: gate_op.split)

lemma bracketed_prefix: "bracketed (ops @ [e]) \<Longrightarrow> bracketed ops"
  unfolding bracketed_def
proof
  fix n assume "\<forall>n. left (take n (ops @ [e])) \<le> entered (take n (ops @ [e]))"
  then have "left (take (min n (length ops)) (ops @ [e])) \<le> entered (take (min n (length ops)) (ops @ [e]))" ..
  then show "left (take n ops) \<le> entered (take n ops)" by (simp add: min_def split: if_splits)
qed

lemma bracketed_all: "bracketed ops \<Longrightarrow> left ops \<le> entered ops"
  unfolding bracketed_def by (drule spec [of _ "length ops"]) simp

lemma in_flight:
  assumes "gate_enabled env"
  shows "bracketed ops \<Longrightarrow>
    active_requests (run (gate_step env) idle_foreground ops) = int (entered ops) - int (left ops)"
proof (induction ops rule: rev_induct)
  case Nil
  then show ?case by (simp add: idle_foreground_def)
next
  case (snoc e ops)
  have "left (ops @ [e]) \<le> entered (ops @ [e])" using snoc.prems by (rule bracketed_all)
  moreover have "active_requests (run (gate_step env) idle_foreground ops) = int (entered ops) - int (left ops)"
    by (rule snoc.IH) (rule bracketed_prefix [OF snoc.prems])
  ultimately show ?case
    using assms by (cases e) (auto simp: run_append enter_request_def exit_request_def mark_browser_activity_def)
qed

text \<open>
  The gate counts the requests in flight exactly, and while one is in flight background
  work neither starts nor, without a limit, stops waiting.
\<close>

theorem requests_hold_background:
  assumes "gate_enabled env" and "bracketed ops" and "s = run (gate_step env) idle_foreground ops"
  shows "active_requests s = int (entered ops) - int (left ops)
    \<and> (left ops < entered ops \<longrightarrow> has_foreground_activity env now streams m s
         \<and> wait_round env None waited \<lparr>ob_now = now, ob_fore = s, ob_stream = has_active_chat_stream streams m\<rparr> = Waits 250000)"
  using in_flight [OF assms(1,2)] assms(1)
  by (simp add: assms(3) has_foreground_activity_def wait_round_def Let_def)

definition plain_env :: gate_env where
  "plain_env = \<lparr>ge_gate = None, ge_quiet = Unset, ge_max_wait = Unset, ge_browser = Unset\<rparr>"

theorem requests_hold_background_witness:
  "has_foreground_activity plain_env 99000000 False no_runs
     (run (gate_step plain_env) idle_foreground [G_enter 1, G_enter 2, G_exit 3])"
proof -
  have "gate_enabled plain_env" by code_simp
  moreover have "bracketed [G_enter 1, G_enter 2, G_exit 3]"
    by (auto simp: bracketed_def entered_def left_def take_Cons' split: if_splits)
  ultimately show ?thesis
    using requests_hold_background [of plain_env "[G_enter 1, G_enter 2, G_exit 3]" _ 99000000 False no_runs, OF _ _ refl]
    by (simp add: entered_def left_def)
qed

section \<open>A run that never ends\<close>

text \<open>
  The two components together: after a run was stopped while it waited for the one it
  replaced, its entry says running for good, so without a limit background work waits for ever, however
  long the foreground has been quiet.
\<close>

theorem stuck_run_blocks_background:
  "list_all (\<lambda>ob. ob_stream ob = has_active_chat_stream False (run run_step no_runs stop_waiting_ops)) obs
     \<Longrightarrow> wait_loop env None waited obs = None"
proof -
  assume same: "list_all (\<lambda>ob. ob_stream ob = has_active_chat_stream False (run run_step no_runs stop_waiting_ops)) obs"
  have "has_active_chat_stream False (run run_step no_runs stop_waiting_ops)" by code_simp
  with same have "list_all (\<lambda>ob. \<not> stops env None ob) obs"
    by (auto simp: list_all_iff stops_def quiet_round_def)
  then have "dropWhile (\<lambda>ob. \<not> stops env None ob) obs = []" by (simp add: list_all_iff)
  then show ?thesis by (simp add: loop_stops del: dropWhile_eq_Nil_conv)
qed

theorem stuck_run_blocks_background_witness:
  "wait_loop plain_env None False
     (replicate 5 \<lparr>ob_now = 9000000000, ob_fore = idle_foreground, ob_stream = True\<rparr>) = None"
proof (rule stuck_run_blocks_background)
  have "has_active_chat_stream False (run run_step no_runs stop_waiting_ops)" by code_simp
  then show "list_all (\<lambda>ob. ob_stream ob = has_active_chat_stream False (run run_step no_runs stop_waiting_ops))
      (replicate 5 \<lparr>ob_now = 9000000000, ob_fore = idle_foreground, ob_stream = True\<rparr>)"
    by (simp add: list_all_iff)
qed

end
