(* ===== verification/Learning.thy ===== *)
theory Learning
  imports Operational
begin

text \<open>
  \<open>src/learning_protocol.py\<close> (JOS-P6): learning candidates with their evaluation evidence,
  promotion, demotion, rollback and monitoring, and \<open>protocol_status\<close> of
  \<open>src/operational_protocol.py\<close>, which counts them. Identifiers, moments and digests are
  arguments. Rates are integers: a pass rate in ten-thousandths, as \<open>round(..., 4)\<close> keeps it, a
  policy's rate in millionths, latencies in microseconds.
\<close>

section \<open>Normalized artifacts\<close>

definition pathchar :: "char \<Rightarrow> bool" where
  "pathchar c \<longleftrightarrow> \<not> is_space c \<and> c \<noteq> CHR 0x27 \<and> c \<noteq> CHR 0x22 \<and> c \<noteq> CHR 0x60"

definition ABSOLUTE_USER_PATH :: regex where
  "ABSOLUTE_USER_PATH = ralt
     [rseq [ralt [rlit ''/home'', rlit ''/Users''], rlit ''/'', rplus (RSet (\<lambda>c. pathchar c \<and> c \<noteq> CHR ''/'')),
        ropt (rseq [rlit ''/'', rstar (RSet pathchar)])],
      rseq [RSet (\<lambda>c. is_az c \<or> is_AZ c), rlit ([CHR '':'', CHR 0x5C] @ ''Users'' @ [CHR 0x5C]),
        rplus (RSet (\<lambda>c. pathchar c \<and> c \<noteq> CHR 0x5C)), ropt (rseq [rlit [CHR 0x5C], rstar (RSet pathchar)])]]"

definition hexes :: "nat \<Rightarrow> regex" where
  "hexes n = RRep n (Some n) (RSet (\<lambda>c. is_digit c \<or> in_range CHR ''a'' CHR ''f'' c))"

definition UUID_TEXT :: regex where
  "UUID_TEXT = ignore_case (rseq [RWordB, hexes 8, rlit ''-'', hexes 4, rlit ''-'', RSet (in_range CHR ''1'' CHR ''5''),
     hexes 3, rlit ''-'', RSet (one_of ''89ab''), hexes 3, rlit ''-'', hexes 12, RWordB])"

definition octet :: regex where "octet = RRep 1 (Some 3) rdigit"

definition PRIVATE_ENDPOINT :: regex where
  "PRIVATE_ENDPOINT = ignore_case (rseq [RWordB, ralt
     [rlit ''localhost'', rlit ''127.0.0.1'', rseq [rlit ''10.'', octet, rlit ''.'', octet, rlit ''.'', octet],
      rseq [rlit ''192.168.'', octet, rlit ''.'', octet],
      rseq [rlit ''172.'', ralt [rseq [rlit ''1'', RSet (in_range CHR ''6'' CHR ''9'')], rseq [rlit ''2'', rdigit],
         rseq [rlit ''3'', RSet (one_of ''01'')]], rlit ''.'', octet, rlit ''.'', octet]],
     ropt (rseq [rlit '':'', RRep 2 (Some 5) rdigit]), RWordB])"

definition normalise_text :: "string \<Rightarrow> string" where
  "normalise_text v =
     re_sub UUID_TEXT (\<lambda>_. ''<DISCOVER_ID>'')
       (re_sub PRIVATE_ENDPOINT (\<lambda>_. ''<DISCOVER_ENDPOINT>'')
         (re_sub ABSOLUTE_USER_PATH (\<lambda>_. ''<DISCOVER_PATH>'') (redact_secret_text v)))"

text \<open>How deep a value is nested; redacting does not nest deeper.\<close>

primrec depth :: "pyval \<Rightarrow> nat" where
  "depth PNone = 0" | "depth (PBool b) = 0" | "depth (PInt i) = 0" | "depth (PFloat s) = 0" | "depth (PStr s) = 0"
| "depth (PList xs) = Suc (foldr max (map depth xs) 0)"
| "depth (PTuple xs) = Suc (foldr max (map depth xs) 0)"
| "depth (PDict d) = Suc (foldr max (map snd (map (map_prod id depth) d)) 0)"

lemma foldr_max_member: "x \<in> set xs \<Longrightarrow> (x :: nat) \<le> foldr max xs 0"
  by (induction xs) auto

lemma foldr_max_mono:
  "(\<And>x. x \<in> set xs \<Longrightarrow> (f x :: nat) \<le> g x) \<Longrightarrow> foldr max (map f xs) 0 \<le> foldr max (map g xs) 0"
proof (induction xs)
  case (Cons a xs)
  then have "f a \<le> g a" "foldr max (map f xs) 0 \<le> foldr max (map g xs) 0" by simp_all
  then show ?case by (simp only: list.map foldr.simps comp_apply max.mono)
qed simp

lemma depth_item: "x \<in> set xs \<Longrightarrow> depth x < depth (PList xs)" "x \<in> set xs \<Longrightarrow> depth x < depth (PTuple xs)"
  "(k, v) \<in> set d \<Longrightarrow> depth v < depth (PDict d)"
  by (force intro!: le_imp_less_Suc foldr_max_member)+

lemma depth_redact: "depth (redact_secrets v) \<le> depth v"
proof (induction v rule: pyval_induct)
  case (Dict d)
  have "foldr max (map (\<lambda>p. depth (if is_credential_field (fst p) (snd p) then redacted else redact_secrets (snd p))) d) 0
      \<le> foldr max (map (\<lambda>p. depth (snd p)) d) 0"
    by (rule foldr_max_mono) (use Dict in auto)
  then show ?case by (simp add: comp_def case_prod_unfold)
qed (auto simp: comp_def intro!: foldr_max_mono)

lemma redact_dict: "redact_secrets (PDict d) =
    PDict (map (\<lambda>(key, item). (key, if is_credential_field key item then redacted else redact_secrets item)) d)"
  by (rule redact_secrets.simps)

text \<open>
  A dictionary is redacted before its items are normalized. A string is normalized as text, a tuple
  becomes a list, and anything else is copied.
\<close>

function normalize_artifact :: "pyval \<Rightarrow> pyval" where
  "normalize_artifact (PDict d) =
     PDict (map (\<lambda>(key, item). (key, normalize_artifact item)) (as_mapping (redact_secrets (PDict d))))"
| "normalize_artifact (PList xs) = PList (map normalize_artifact xs)"
| "normalize_artifact (PTuple xs) = PList (map normalize_artifact xs)"
| "normalize_artifact (PStr s) = PStr (normalise_text s)"
| "normalize_artifact PNone = PNone"
| "normalize_artifact (PBool b) = PBool b"
| "normalize_artifact (PInt i) = PInt i"
| "normalize_artifact (PFloat s) = PFloat s"
  by pat_completeness auto
termination
proof (relation "measure depth")
  fix d and x :: "string \<times> pyval" and key item
  assume "x \<in> set (as_mapping (redact_secrets (PDict d)))" "(key, item) = x"
  moreover obtain d' where d': "redact_secrets (PDict d) = PDict d'" using redact_secrets_keys by blast
  ultimately have "depth item < depth (PDict d')" by (auto simp del: redact_secrets.simps depth.simps intro: depth_item(3))
  also have "\<dots> \<le> depth (PDict d)" using depth_redact [of "PDict d"] by (simp only: d')
  finally show "(item, PDict d) \<in> measure depth" by simp
qed (auto dest: depth_item)

declare normalize_artifact.simps(1) [simp del]

definition normalize_dict :: "pyval dict \<Rightarrow> pyval dict" where
  "normalize_dict d = as_mapping (normalize_artifact (PDict d))"

section \<open>Conflicts and risk\<close>

definition PROHIBITION :: regex where
  "PROHIBITION = ignore_case (rseq [RWordB, ralt [rlit ''do not'', rlit (''don'' @ [CHR 0x27] @ ''t''), rlit ''never''],
     rplus rspace, rwords [''bypass'', ''skip'', ''disable'', ''forge'', ''fake''], RWordB])"

definition near :: "string list \<Rightarrow> string list \<Rightarrow> regex" where
  "near ws vs = ignore_case (rseq [RWordB, rwords ws, RWordB, RRep 0 (Some 80) rany, RWordB, rwords vs, RWordB])"

definition UNSAFE_PATTERNS :: "(string \<times> regex) list" where
  "UNSAFE_PATTERNS =
     [(''prompt_injection'', near [''ignore'', ''disregard'', ''override'']
         [''previous'', ''prior'', ''system'', ''developer'', ''instruction'', ''prompt'']),
      (''authority_bypass'', near [''bypass'', ''skip'', ''disable'', ''forge'', ''fake'', ''never ask'']
         [''approval'', ''authority'', ''permission'', ''receipt'', ''policy''])]"

text \<open>\<open>identity\<close> is the configured agent's identifier and display name, \<open>None\<close> when resolving it raises.\<close>

definition artifact_conflicts :: "(string \<times> string) option \<Rightarrow> pyval \<Rightarrow> string option \<Rightarrow> string list" where
  "artifact_conflicts identity artifact operator =
     (let t = re_sub PROHIBITION (\<lambda>_. ''prohibit'') (dumps_unicode artifact);
          protected = [''identity'', ''operator'', ''owner''] @ (case identity of None \<Rightarrow> [] | Some (a, n) \<Rightarrow> [a, n])
            @ [case operator of None \<Rightarrow> [] | Some x \<Rightarrow> x];
          terms = filter (\<lambda>v. 1 < length v \<and> length v \<le> 80) protected
      in map fst (filter (\<lambda>(name, r). re_search r t) UNSAFE_PATTERNS)
         @ (if re_search (near [''change'', ''replace'', ''pretend'', ''impersonate'', ''become''] terms) t
            then [''identity_override''] else []))"

definition LEARNING_READ_ONLY :: "string list" where
  "LEARNING_READ_ONLY = [''read_file'', ''grep'', ''glob'', ''ls'', ''search_chats'', ''search_documents'', ''web_search'',
     ''list_emails'', ''manage_research'', ''get_workspace'']"

definition AUTHORITY_CAPABILITIES :: "string list" where
  "AUTHORITY_CAPABILITIES = [''manage_settings'', ''manage_users'', ''manage_tokens'', ''manage_endpoints'', ''manage_mcp'',
     ''manage_webhooks'', ''manage_skills'', ''sudo'', ''admin'']"

definition INFRASTRUCTURE_CAPABILITIES :: "string list" where
  "INFRASTRUCTURE_CAPABILITIES = [''bash'', ''shell'', ''ssh'', ''docker'', ''proxmox'', ''deploy'', ''systemctl'', ''kubectl'']"

text \<open>Iterating over \<open>v or []\<close>; a number raises.\<close>

definition iterate :: "pyval \<Rightarrow> pyval list result" where
  "iterate v =
     (if \<not> truthy v then Inr []
      else case v of
          PList xs \<Rightarrow> Inr xs
        | PTuple xs \<Rightarrow> Inr xs
        | PStr s \<Rightarrow> Inr (map (\<lambda>c. PStr [c]) s)
        | PDict d \<Rightarrow> Inr (map PStr (dkeys d))
        | _ \<Rightarrow> Inl (TypeError ''not iterable''))"

definition INFRASTRUCTURE_TEXT :: regex where
  "INFRASTRUCTURE_TEXT = rseq [RWordB, rwords [''deploy'', ''firewall'', ''database schema'', ''root'', ''sudo''], RWordB]"

definition AUTHORITY_TEXT :: regex where
  "AUTHORITY_TEXT = rseq [RWordB, rwords [''authentication'', ''authorization'', ''credential'', ''approval policy''], RWordB]"

definition WRITE_STEP :: regex where
  "WRITE_STEP = rseq [RLineBegin, rstar rspace, ropt (rseq [rplus rdigit, RSet (one_of ''.)''), rstar rspace]),
     rwords [''send'', ''create'', ''update'', ''delete'', ''write'', ''publish'', ''execute'', ''run''], RWordB]"

definition named :: "pyval list \<Rightarrow> string list" where
  "named xs = map (\<lambda>x. lower (strip (py_str x))) (filter (\<lambda>x. strip (py_str x) \<noteq> []) xs)"

definition risk_of :: "string list \<Rightarrow> string \<Rightarrow> string \<Rightarrow> string" where
  "risk_of caps all_text procedure_text =
     (if set caps \<inter> set INFRASTRUCTURE_CAPABILITIES \<noteq> {} \<or> re_search INFRASTRUCTURE_TEXT all_text then ''infrastructure''
      else if set caps \<inter> set AUTHORITY_CAPABILITIES \<noteq> {} \<or> re_search AUTHORITY_TEXT all_text then ''authority_security''
      else if \<not> set caps \<subseteq> set LEARNING_READ_ONLY \<or> re_search WRITE_STEP procedure_text then ''bounded_write''
      else ''read_only_guidance'')"

definition classify_risk :: "pyval dict \<Rightarrow> pyval list \<Rightarrow> string result" where
  "classify_risk artifact capabilities =
     (case iterate (pget artifact ''requires_toolsets'') of
        Inl e \<Rightarrow> Inl e
      | Inr toolsets \<Rightarrow>
          (case iterate (py_or (pget artifact ''procedure'') (pget artifact ''steps'')) of
             Inl e \<Rightarrow> Inl e
           | Inr steps \<Rightarrow>
               (case iterate (pget artifact ''verification'') of
                  Inl e \<Rightarrow> Inl e
                | Inr checks \<Rightarrow>
                    Inr (risk_of (named capabilities @ named toolsets) (lower (dumps_unicode (PDict artifact)))
                      (lower (join [CHR 0x0A] (map py_str (steps @ checks))))))))"

text \<open>\<open>confidence\<close> is the given confidence as a float between 0 and 1, which is only kept.\<close>

definition producer_record :: "pyval \<Rightarrow> string option \<Rightarrow> pyval dict" where
  "producer_record producer confidence =
     (let rec = (case producer of
            PDict d \<Rightarrow> normalize_dict d
          | _ \<Rightarrow> [(''id'', PStr (normalise_text (py_str (py_or producer (PStr ''unknown''))))), (''kind'', PStr ''model'')]);
          rec = (case confidence of None \<Rightarrow> rec | Some c \<Rightarrow> dset ''confidence'' (PFloat c) rec)
      in dsetdefault ''kind'' (PStr ''model'') rec)"

definition evidence_case :: "string \<Rightarrow> string \<Rightarrow> string \<Rightarrow> string \<Rightarrow> string \<Rightarrow> pyval dict" where
  "evidence_case role outcome evidence evaluator about =
     [(''role'', PStr role), (''verdict'', PStr outcome), (''evidence_kind'', PStr evidence),
      (''evaluator_id'', PStr evaluator), (''summary'', PStr about)]"

definition structural_evaluation_cases ::
    "(string \<times> string) option \<Rightarrow> pyval dict \<Rightarrow> string \<Rightarrow> string \<Rightarrow> string \<Rightarrow> pyval dict list" where
  "structural_evaluation_cases identity artifact original_verdict original_evidence evaluator =
     (let procedure = py_or (pget artifact ''procedure'') (py_or (pget artifact ''steps'') (pget artifact ''body_extra''));
          trigger = py_or (pget artifact ''when_to_use'') (py_or (pget artifact ''problem'') (pget artifact ''description''));
          boundary_ok = truthy procedure \<and> truthy trigger;
          negative_ok = (artifact_conflicts identity (PDict artifact) None = [])
      in [evidence_case ''original'' original_verdict original_evidence evaluator ''Representative procedure run'',
          evidence_case ''boundary'' (if boundary_ok then ''pass'' else ''fail'') ''deterministic'' ''jos-p6-schema''
            ''Procedure and trigger boundary are explicit'',
          evidence_case ''negative'' (if negative_ok then ''pass'' else ''fail'') ''deterministic'' ''jos-p6-policy''
            ''No identity, prompt, or authority override was admitted''])"

section \<open>The ledger\<close>

datatype cand_status = C_draft | C_evaluating | C_approved | C_rejected | C_demoted | C_superseded

record evaluation =
  el_verdict :: string
  el_cases :: "pyval dict list"
  el_evaluator :: "pyval dict"
  el_runtime :: string
  el_sample :: nat
  el_passed :: nat
  el_pass_rate :: int
  el_corroborated :: bool
  el_independent :: bool
  el_at :: int

record candidate =
  cd_id :: string
  cd_type :: string
  cd_owner :: string
  cd_refs :: pyval
  cd_producer :: "pyval dict"
  cd_caps :: "string list"
  cd_risk :: string
  cd_status :: cand_status
  cd_version :: string
  cd_parent :: "string option"
  cd_artifact :: "pyval dict"
  cd_fingerprint :: string
  cd_conflicts :: "string list"
  cd_evaluation :: "evaluation option"
  cd_created :: int
  cd_updated :: int
  cd_demotion :: "(string \<times> string \<times> int) option"

datatype promotion_status = P_active | P_superseded | P_demoted | P_rolled_back

record promotion =
  pm_id :: string
  pm_candidate :: string
  pm_owner :: string
  pm_type :: string
  pm_name :: string
  pm_artifact :: "pyval dict"
  pm_fingerprint :: string
  pm_version :: string
  pm_refs :: pyval
  pm_evaluation :: evaluation
  pm_operator :: string
  pm_automatic :: bool
  pm_risk :: string
  pm_at :: int
  pm_status :: promotion_status
  pm_previous :: "string option"
  pm_rollback_of :: "string option"
  pm_restored_from :: "string option"

record monitoring =
  mn_uses :: nat
  mn_successes :: nat
  mn_failures :: nat
  mn_latency :: int
  mn_regressions :: nat
  mn_success_rate :: int
  mn_average :: int
  mn_updated :: int

record ledger =
  cands :: "candidate dict"
  promos :: "promotion list"
  monitor :: "monitoring dict"

definition empty_ledger :: ledger where
  "empty_ledger = \<lparr>cands = [], promos = [], monitor = []\<rparr>"

text \<open>
  \<open>round(a * unit / b)\<close> to the even neighbour on a tie. The source rounds the quotient of two
  floats, which can differ from this only on an exact tie.
\<close>

definition round_ratio :: "int \<Rightarrow> int \<Rightarrow> int \<Rightarrow> int" where
  "round_ratio unit a b =
     (let q = unit * a div b; r = 2 * (unit * a mod b)
      in if r < b then q else if r > b then q + 1 else if even q then q else q + 1)"

definition owner_matches :: "candidate \<Rightarrow> string option \<Rightarrow> bool" where
  "owner_matches c owner_scope \<longleftrightarrow> owner_scope = None \<or> owner_scope = Some (cd_owner c)"

text \<open>\<open>sha\<close> is the digest of a text, \<open>cid\<close> the given or drawn identifier.\<close>

definition new_candidate ::
    "(string \<Rightarrow> string) \<Rightarrow> string \<Rightarrow> int \<Rightarrow> string \<Rightarrow> string \<Rightarrow> pyval dict \<Rightarrow> string list \<Rightarrow> pyval list
      \<Rightarrow> pyval dict \<Rightarrow> string list \<Rightarrow> string \<Rightarrow> string \<Rightarrow> string option \<Rightarrow> candidate" where
  "new_candidate sha cid now ctype owner normalized conflicts refs producer caps risk version parent =
     \<lparr>cd_id = cid, cd_type = take 80 (if ctype = [] then ''procedure'' else ctype), cd_owner = owner,
      cd_refs = normalize_artifact (PList (take 50 refs)), cd_producer = producer,
      cd_caps = caps, cd_risk = risk, cd_status = (if conflicts = [] then C_draft else C_rejected),
      cd_version = (if version = [] then ''1.0.0'' else version), cd_parent = parent,
      cd_artifact = normalized, cd_fingerprint = sha (dumps_canonical (PDict normalized)),
      cd_conflicts = conflicts, cd_evaluation = None, cd_created = now, cd_updated = now, cd_demotion = None\<rparr>"

definition create_candidate ::
    "(string \<Rightarrow> string) \<Rightarrow> (string \<times> string) option \<Rightarrow> string \<Rightarrow> int \<Rightarrow> string \<Rightarrow> string \<Rightarrow> pyval dict \<Rightarrow> pyval list
      \<Rightarrow> pyval \<Rightarrow> pyval list \<Rightarrow> string option \<Rightarrow> string \<Rightarrow> string option \<Rightarrow> ledger \<Rightarrow> ledger \<times> candidate result" where
  "create_candidate sha identity cid now ctype owner artifact refs producer capabilities confidence version parent s =
     (if strip owner = [] then (s, Inl (ValueError ''candidate_owner_scope_required''))
      else
        let normalized = normalize_dict artifact;
            conflicts = artifact_conflicts identity (PDict normalized) (Some owner)
        in case (if capabilities = [] then iterate (pget normalized ''requires_toolsets'') else Inr capabilities) of
             Inl e \<Rightarrow> (s, Inl e)
           | Inr given \<Rightarrow>
               let caps = sort (remdups (filter (\<lambda>x. x \<noteq> []) (map py_str given)))
               in case classify_risk normalized (map PStr caps) of
                    Inl e \<Rightarrow> (s, Inl e)
                  | Inr risk \<Rightarrow>
                      let c = new_candidate sha cid now ctype owner normalized conflicts refs
                            (producer_record producer confidence) caps risk version parent
                      in if dget (cands s) cid \<noteq> None then (s, Inl (ValueError ''candidate_id_exists''))
                         else (s\<lparr>cands := dset cid c (cands s)\<rparr>, Inr c))"

definition get_candidate :: "string \<Rightarrow> string option \<Rightarrow> ledger \<Rightarrow> candidate option" where
  "get_candidate cid owner_scope s =
     (case dget (cands s) cid of None \<Rightarrow> None | Some c \<Rightarrow> if owner_matches c owner_scope then Some c else None)"

definition list_candidates :: "string option \<Rightarrow> cand_status option \<Rightarrow> ledger \<Rightarrow> candidate list" where
  "list_candidates owner_scope st s =
     sort_key cd_created (filter (\<lambda>c. owner_matches c owner_scope \<and> (st = None \<or> st = Some (cd_status c))) (dvals (cands s)))"

definition latest_for_artifact :: "string \<Rightarrow> string \<Rightarrow> string \<Rightarrow> ledger \<Rightarrow> candidate option" where
  "latest_for_artifact owner ctype name s =
     (let found = filter (\<lambda>c. cd_type c = ctype \<and> str_or (pget (cd_artifact c) ''name'') = name)
                    (list_candidates (Some owner) None s)
      in if found = [] then None else Some (last found))"

section \<open>Evaluation\<close>

definition EVALUATION_VERDICTS :: "string list" where
  "EVALUATION_VERDICTS = [''pass'', ''fail'', ''evaluator_failure'', ''unavailable'', ''inconclusive'', ''unknown'']"

definition normal_verdict :: "string \<Rightarrow> string" where
  "normal_verdict v0 =
     (let v = lower v0;
          w = (if v = ''needs_work'' then ''fail'' else if v = ''error'' then ''evaluator_failure'' else v)
      in if w \<in> set EVALUATION_VERDICTS then w else ''unknown'')"

definition normal_case :: "pyval dict \<Rightarrow> pyval dict" where
  "normal_case raw =
     (let row = normalize_dict raw;
          row = dset ''verdict'' (PStr (normal_verdict (py_str (py_or (pget row ''verdict'') (PStr ''unknown''))))) row
      in dset ''role'' (PStr (lower (py_str (py_or (pget row ''role'') (PStr ''original''))))) row)"

definition case_verdict :: "pyval dict \<Rightarrow> string \<Rightarrow> bool" where
  "case_verdict row v \<longleftrightarrow> pget row ''verdict'' = PStr v"

definition passes :: "pyval dict \<Rightarrow> bool" where
  "passes row \<longleftrightarrow> case_verdict row ''pass''"

definition evidence_in :: "string list \<Rightarrow> pyval dict \<Rightarrow> bool" where
  "evidence_in kinds row = (case pget row ''evidence_kind'' of PStr k \<Rightarrow> k \<in> set kinds | _ \<Rightarrow> False)"

definition evaluation_verdict :: "pyval dict list \<Rightarrow> candidate \<Rightarrow> bool \<Rightarrow> bool \<Rightarrow> string" where
  "evaluation_verdict rows c corroborated independent =
     (let all_passed = rows \<noteq> [] \<and> list_all passes rows;
          covered = list_all (\<lambda>role. list_ex (\<lambda>row. passes row \<and> pget row ''role'' = PStr role) rows)
            [''original'', ''boundary'', ''negative''];
          action_original = list_ex (\<lambda>row. pget row ''role'' = PStr ''original'' \<and> passes row
            \<and> evidence_in [''native_test'', ''integration_test''] row) rows
      in if list_ex (\<lambda>row. case_verdict row ''evaluator_failure'') rows then ''evaluator_failure''
         else if list_ex (\<lambda>row. case_verdict row ''unavailable'') rows then ''unavailable''
         else if list_ex (\<lambda>row. case_verdict row ''unknown'') rows then ''unknown''
         else if list_ex (\<lambda>row. case_verdict row ''inconclusive'') rows then ''inconclusive''
         else if all_passed \<and> covered \<and> corroborated \<and> independent
              \<and> (cd_risk c = ''read_only_guidance'' \<or> action_original) \<and> cd_conflicts c = []
           then ''pass'' else ''fail'')"

definition make_evaluation :: "int \<Rightarrow> pyval dict list \<Rightarrow> pyval \<Rightarrow> string \<Rightarrow> candidate \<Rightarrow> evaluation" where
  "make_evaluation now cases evaluator runtime c =
     (let rows = map normal_case cases;
          corroborated = list_ex (\<lambda>row. evidence_in [''deterministic'', ''native_test'', ''integration_test''] row \<and> passes row) rows;
          producer_id = str_or (pget (cd_producer c) ''id'');
          independent = list_ex (\<lambda>row. str_or (pget row ''evaluator_id'') \<noteq> producer_id \<and> passes row) rows;
          passed = length (filter passes rows)
      in \<lparr>el_verdict = evaluation_verdict rows c corroborated independent, el_cases = rows,
          el_evaluator = (case evaluator of PDict d \<Rightarrow> normalize_dict d | _ \<Rightarrow> [(''id'', PStr (py_str evaluator))]),
          el_runtime = runtime, el_sample = length rows, el_passed = passed,
          el_pass_rate = (if rows = [] then 0 else round_ratio 10000 (int passed) (int (length rows))),
          el_corroborated = corroborated, el_independent = independent, el_at = now\<rparr>)"

definition evaluate ::
    "int \<Rightarrow> string \<Rightarrow> pyval dict list \<Rightarrow> pyval \<Rightarrow> string \<Rightarrow> string option \<Rightarrow> ledger \<Rightarrow> ledger \<times> evaluation result" where
  "evaluate now cid cases evaluator runtime owner_scope s =
     (case get_candidate cid owner_scope s of
        None \<Rightarrow> (s, Inl (KeyError ''candidate_not_found''))
      | Some c \<Rightarrow>
          let e = make_evaluation now cases evaluator runtime c
          in (s\<lparr>cands := dset cid (c\<lparr>cd_evaluation := Some e, cd_updated := now,
                cd_status := (if el_verdict e = ''pass'' then C_evaluating else C_rejected)\<rparr>) (cands s)\<rparr>, Inr e))"

section \<open>Promotion, demotion and rollback\<close>

record learning_policy =
  pl_minimum_cases :: int
  pl_minimum_rate :: int   \<comment> \<open>millionths\<close>

definition default_policy :: learning_policy where
  "default_policy = \<lparr>pl_minimum_cases = 3, pl_minimum_rate = 1000000\<rparr>"

definition artifact_name :: "candidate \<Rightarrow> string" where
  "artifact_name c = py_str (py_or (pget (cd_artifact c) ''name'') (PStr (cd_id c)))"

definition promotion_refusal :: "string \<Rightarrow> bool \<Rightarrow> learning_policy \<Rightarrow> candidate \<Rightarrow> string option" where
  "promotion_refusal operator automatic policy c =
     (case cd_evaluation c of
        None \<Rightarrow> Some ''evaluation_pass_required''
      | Some e \<Rightarrow>
          if el_verdict e \<noteq> ''pass'' then Some ''evaluation_pass_required''
          else if cd_conflicts c \<noteq> [] then Some ''candidate_policy_conflict''
          else if pget (cd_producer c) ''kind'' \<noteq> PStr ''operator'' \<and> str_or (pget (cd_producer c) ''id'') = operator
            then Some ''producer_cannot_self_approve''
          else if int (el_sample e) < max 3 (pl_minimum_cases policy)
              \<or> 100 * el_pass_rate e < max 0 (min 1000000 (pl_minimum_rate policy))
            then Some ''promotion_evidence_below_policy''
          else if \<not> el_corroborated e \<or> \<not> el_independent e then Some ''independent_corroboration_required''
          else if automatic \<and> cd_risk c \<noteq> ''read_only_guidance'' then Some ''risk_requires_operator_review''
          else None)"

text \<open>An approved candidate of the same artifact is superseded.\<close>

definition supersede_candidate :: "int \<Rightarrow> candidate \<Rightarrow> candidate \<Rightarrow> candidate" where
  "supersede_candidate now c d =
     (if cd_id d \<noteq> cd_id c \<and> cd_owner d = cd_owner c \<and> cd_type d = cd_type c \<and> artifact_name d = artifact_name c
         \<and> cd_status d = C_approved
      then d\<lparr>cd_status := C_superseded, cd_updated := now\<rparr> else d)"

definition same_artifact :: "string \<Rightarrow> string \<Rightarrow> string \<Rightarrow> promotion \<Rightarrow> bool" where
  "same_artifact owner ctype name p \<longleftrightarrow> pm_owner p = owner \<and> pm_type p = ctype \<and> pm_name p = name"

definition promotion_record :: "string \<Rightarrow> int \<Rightarrow> string \<Rightarrow> bool \<Rightarrow> evaluation \<Rightarrow> candidate \<Rightarrow> promotion list \<Rightarrow> promotion" where
  "promotion_record pid now operator automatic e c prior =
     \<lparr>pm_id = pid, pm_candidate = cd_id c, pm_owner = cd_owner c, pm_type = cd_type c, pm_name = artifact_name c,
      pm_artifact = cd_artifact c, pm_fingerprint = cd_fingerprint c, pm_version = cd_version c, pm_refs = cd_refs c,
      pm_evaluation = e, pm_operator = operator, pm_automatic = automatic, pm_risk = cd_risk c, pm_at = now,
      pm_status = P_active,
      pm_previous = (case filter (\<lambda>p. same_artifact (cd_owner c) (cd_type c) (artifact_name c) p \<and> pm_status p = P_active) prior of
          [] \<Rightarrow> None | ps \<Rightarrow> Some (pm_id (last ps))),
      pm_rollback_of = None, pm_restored_from = None\<rparr>"

definition retire_promotion :: "candidate \<Rightarrow> promotion \<Rightarrow> promotion" where
  "retire_promotion c p =
     (if same_artifact (cd_owner c) (cd_type c) (artifact_name c) p \<and> pm_status p = P_active
      then p\<lparr>pm_status := P_superseded\<rparr> else p)"

definition promote_candidate ::
    "bool \<Rightarrow> string \<Rightarrow> int \<Rightarrow> string \<Rightarrow> string \<Rightarrow> string option \<Rightarrow> bool \<Rightarrow> learning_policy \<Rightarrow> ledger
      \<Rightarrow> ledger \<times> promotion result" where
  "promote_candidate learning_on pid now cid operator owner_scope automatic policy s =
     (if \<not> learning_on then (s, Inl (ValueError ''learning_disabled''))
      else case get_candidate cid owner_scope s of
        None \<Rightarrow> (s, Inl (KeyError ''candidate_not_found''))
      | Some c \<Rightarrow>
          (case (promotion_refusal operator automatic policy c, cd_evaluation c) of
             (None, Some e) \<Rightarrow>
               let rec = promotion_record pid now operator automatic e c (promos s)
               in (s\<lparr>cands := dset cid (c\<lparr>cd_status := C_approved, cd_updated := now\<rparr>)
                        (dmap (supersede_candidate now c) (cands s)),
                     promos := map (retire_promotion c) (promos s) @ [rec]\<rparr>, Inr rec)
           | (Some why, _) \<Rightarrow> (s, Inl (ValueError why))
           | (None, None) \<Rightarrow> (s, Inl (ValueError ''evaluation_pass_required''))))"

definition demote_candidate ::
    "int \<Rightarrow> string \<Rightarrow> string \<Rightarrow> string \<Rightarrow> string option \<Rightarrow> ledger \<Rightarrow> ledger \<times> candidate result" where
  "demote_candidate now cid operator reason owner_scope s =
     (case get_candidate cid owner_scope s of
        None \<Rightarrow> (s, Inl (KeyError ''candidate_not_found''))
      | Some c \<Rightarrow>
          let c' = c\<lparr>cd_status := C_demoted, cd_demotion := Some (operator, take 500 (normalise_text reason), now), cd_updated := now\<rparr>
          in (s\<lparr>cands := dset cid c' (cands s),
                promos := map (\<lambda>p. if pm_candidate p = cid \<and> pm_status p = P_active then p\<lparr>pm_status := P_demoted\<rparr> else p) (promos s)\<rparr>,
              Inr c'))"

text \<open>The first element that satisfies a predicate, changed.\<close>

fun change_first :: "('a \<Rightarrow> bool) \<Rightarrow> ('a \<Rightarrow> 'a) \<Rightarrow> 'a list \<Rightarrow> 'a list" where
  "change_first P f [] = []"
| "change_first P f (x # xs) = (if P x then f x # xs else x # change_first P f xs)"

definition rollback_promotion ::
    "string \<Rightarrow> int \<Rightarrow> string \<Rightarrow> string \<Rightarrow> string \<Rightarrow> string \<Rightarrow> string \<Rightarrow> ledger \<Rightarrow> ledger \<times> promotion result" where
  "rollback_promotion pid now owner ctype name target_id operator s =
     (let mine = filter (same_artifact owner ctype name) (promos s);
          is_current = (\<lambda>p. same_artifact owner ctype name p \<and> pm_status p = P_active)
      in case find (\<lambda>p. pm_id p = target_id) mine of
           None \<Rightarrow> (s, Inl (KeyError ''rollback_target_not_found''))
         | Some target0 \<Rightarrow>
             let active = find (\<lambda>p. pm_status p = P_active) mine;
                 rows = change_first is_current (\<lambda>p. p\<lparr>pm_status := P_rolled_back\<rparr>) (promos s);
                 restored = target0\<lparr>pm_id := pid, pm_operator := operator, pm_automatic := False, pm_at := now,
                   pm_status := P_active, pm_rollback_of := map_option pm_id active, pm_restored_from := Some target_id\<rparr>
             in (s\<lparr>promos := rows @ [restored],
                   cands := (case dget (cands s) (pm_candidate restored) of
                       None \<Rightarrow> cands s
                     | Some c \<Rightarrow> dset (pm_candidate restored) (c\<lparr>cd_status := C_approved, cd_updated := now\<rparr>) (cands s))\<rparr>,
                 Inr restored))"

section \<open>Monitoring\<close>

definition no_monitoring :: monitoring where
  "no_monitoring = \<lparr>mn_uses = 0, mn_successes = 0, mn_failures = 0, mn_latency = 0, mn_regressions = 0,
     mn_success_rate = 0, mn_average = 0, mn_updated = 0\<rparr>"

definition record_outcome ::
    "int \<Rightarrow> string \<Rightarrow> bool \<Rightarrow> int \<Rightarrow> bool \<Rightarrow> string option \<Rightarrow> ledger \<Rightarrow> ledger \<times> monitoring result" where
  "record_outcome now cid succeeded latency regression owner_scope s =
     (case get_candidate cid owner_scope s of
        None \<Rightarrow> (s, Inl (KeyError ''candidate_not_found''))
      | Some c \<Rightarrow>
          let m = (case dget (monitor s) cid of None \<Rightarrow> no_monitoring | Some m \<Rightarrow> m);
              uses = mn_uses m + 1; successes = mn_successes m + of_bool succeeded;
              total = mn_latency m + max latency 0;
              m' = \<lparr>mn_uses = uses, mn_successes = successes, mn_failures = mn_failures m + of_bool (\<not> succeeded),
                mn_latency = total, mn_regressions = mn_regressions m + of_bool regression,
                mn_success_rate = round_ratio 10000 (int successes) (int uses),
                mn_average = round_ratio 1 total (int uses), mn_updated = now\<rparr>
          in (s\<lparr>monitor := dset cid m' (monitor s)\<rparr>, Inr m'))"

definition learning_snapshot :: "string option \<Rightarrow> ledger \<Rightarrow> ledger" where
  "learning_snapshot owner_scope s =
     (case owner_scope of
        None \<Rightarrow> s
      | Some owner \<Rightarrow>
          let ids = map fst (filter (\<lambda>(k, c). cd_owner c = owner) (cands s))
          in \<lparr>cands = filter (\<lambda>(k, c). k \<in> set ids) (cands s), promos = filter (\<lambda>p. pm_owner p = owner) (promos s),
              monitor = filter (\<lambda>(k, m). k \<in> set ids) (monitor s)\<rparr>)"

section \<open>Telemetry\<close>

text \<open>
  The event that \<open>_operational_event\<close> records: the operator and the promotion of the record, if
  it names them, and what is known of the candidate.
\<close>

definition learning_event :: "string \<Rightarrow> pyval \<Rightarrow> candidate option \<Rightarrow> string \<Rightarrow> op_call" where
  "learning_event operator promotion_id c event_type =
     \<lparr>oc_request = None, oc_session = None, oc_task = None, oc_call = None,
      oc_operator = (if operator = [] then None else Some operator), oc_agent = None, oc_actor = ''learning_protocol'',
      oc_component = ''learning_promotion'', oc_type = event_type, oc_status = ''succeeded'', oc_duration = None, oc_usage = [],
      oc_refs = [promotion_id, case c of None \<Rightarrow> PNone | Some x \<Rightarrow> PStr (cd_id x)], oc_error = Err_value PNone,
      oc_metadata = [(''risk'', case c of None \<Rightarrow> PNone | Some x \<Rightarrow> PStr (cd_risk x)),
        (''version'', case c of None \<Rightarrow> PNone | Some x \<Rightarrow> PStr (cd_version x))]\<rparr>"

record protocol_report =
  pr_versions :: "string dict"
  pr_outcomes :: "string list"
  pr_rollback_units :: registry
  pr_backup :: backup_report
  pr_unresolved :: nat
  pr_candidates :: nat
  pr_active_promotions :: nat
  pr_monitored :: nat

definition protocol_status ::
    "registry \<Rightarrow> (string \<times> int) list \<Rightarrow> (string \<Rightarrow> sidecar) \<Rightarrow> event_store \<Rightarrow> ledger \<Rightarrow> protocol_report" where
  "protocol_status reg archives sidecar_of events s =
     \<lparr>pr_versions = PROTOCOL_VERSIONS, pr_outcomes = sort OUTCOME_STATES, pr_rollback_units = reg,
      pr_backup = backup_status archives sidecar_of, pr_unresolved = length (unresolved_unknowns None events),
      pr_candidates = length (cands s), pr_active_promotions = length (filter (\<lambda>p. pm_status p = P_active) (promos s)),
      pr_monitored = length (monitor s)\<rparr>"


section \<open>Runs of the ledger\<close>

datatype learn_op =
    L_create "string \<Rightarrow> string" "(string \<times> string) option" string int string string "pyval dict" "pyval list" pyval
      "pyval list" "string option" string "string option"
  | L_evaluate int string "pyval dict list" pyval string "string option"
  | L_promote bool string int string string "string option" bool learning_policy
  | L_demote int string string string "string option"
  | L_rollback string int string string string string string
  | L_outcome int string bool int bool "string option"

fun learn_step :: "ledger \<Rightarrow> learn_op \<Rightarrow> ledger" where
  "learn_step s (L_create sha idt cid now ct ow art refs prd caps conf ver par) =
     fst (create_candidate sha idt cid now ct ow art refs prd caps conf ver par s)"
| "learn_step s (L_evaluate now cid cases ev rt ow) = fst (evaluate now cid cases ev rt ow s)"
| "learn_step s (L_promote on pid now cid opr ow auto pol) = fst (promote_candidate on pid now cid opr ow auto pol s)"
| "learn_step s (L_demote now cid opr why ow) = fst (demote_candidate now cid opr why ow s)"
| "learn_step s (L_rollback pid now ow ct name target opr) = fst (rollback_promotion pid now ow ct name target opr s)"
| "learn_step s (L_outcome now cid ok lat reg ow) = fst (record_outcome now cid ok lat reg ow s)"

lemma get_candidate_Some:
  "get_candidate cid ow s = Some c \<Longrightarrow> dget (cands s) cid = Some c"
  by (auto simp: get_candidate_def split: option.splits if_splits)

text \<open>The three operations that touch promotions, as equations for a success.\<close>

lemma promos_create: "promos (fst (create_candidate sha idt cid now ct ow art refs prd caps conf ver par s)) = promos s"
  by (simp add: create_candidate_def Let_def split: sum.split)

lemma promos_evaluate: "promos (fst (evaluate now cid cases ev rt ow s)) = promos s"
  by (simp add: evaluate_def Let_def split: option.split)

lemma promos_outcome: "promos (fst (record_outcome now cid ok lat reg ow s)) = promos s"
    "cands (fst (record_outcome now cid ok lat reg ow s)) = cands s"
  by (simp_all add: record_outcome_def Let_def split: option.split)

lemma promote_cases:
  obtains (refused) "fst (promote_candidate on pid now cid opr ow auto pol s) = s"
      "\<And>p. snd (promote_candidate on pid now cid opr ow auto pol s) \<noteq> Inr p"
  | (granted) c e where "get_candidate cid ow s = Some c" "promotion_refusal opr auto pol c = None" "cd_evaluation c = Some e"
      "promote_candidate on pid now cid opr ow auto pol s =
        (s\<lparr>cands := dset cid (c\<lparr>cd_status := C_approved, cd_updated := now\<rparr>) (dmap (supersede_candidate now c) (cands s)),
           promos := map (retire_promotion c) (promos s) @ [promotion_record pid now opr auto e c (promos s)]\<rparr>,
         Inr (promotion_record pid now opr auto e c (promos s)))"
proof (cases "on \<and> (\<exists>c e. get_candidate cid ow s = Some c \<and> promotion_refusal opr auto pol c = None \<and> cd_evaluation c = Some e)")
  case True
  then show ?thesis using granted by (auto simp: promote_candidate_def Let_def)
next
  case False
  then show ?thesis
    by (intro refused) (auto simp: promote_candidate_def Let_def split: option.splits)
qed

section \<open>One active promotion per artifact\<close>

definition current :: "string \<Rightarrow> string \<Rightarrow> string \<Rightarrow> promotion \<Rightarrow> bool" where
  "current ow ct name p \<longleftrightarrow> same_artifact ow ct name p \<and> pm_status p = P_active"

definition single_active :: "ledger \<Rightarrow> bool" where
  "single_active s \<longleftrightarrow> (\<forall>ow ct name. length (filter (current ow ct name) (promos s)) \<le> 1)"

lemma same_artifact_eq: "same_artifact a b c p \<Longrightarrow> same_artifact a' b' c' p \<Longrightarrow> a = a' \<and> b = b' \<and> c = c'"
  by (simp add: same_artifact_def)

lemma current_retire:
  "current ow ct name (retire_promotion c p) \<longleftrightarrow>
     current ow ct name p \<and> \<not> (ow = cd_owner c \<and> ct = cd_type c \<and> name = artifact_name c)"
  by (auto simp: current_def retire_promotion_def same_artifact_def)

lemma length_filter_map: "length (filter P (map f xs)) = length (filter (P \<circ> f) xs)"
  by (simp add: filter_map)

lemma change_first_current:
  assumes "length (filter P xs) \<le> 1" "\<And>x. P x \<Longrightarrow> \<not> P (f x)"
  shows "filter P (change_first P f xs) = []"
  using assms by (induction xs) (auto split: if_splits)

lemma change_first_other:
  assumes "\<And>x. P x \<Longrightarrow> \<not> Q x \<and> \<not> Q (f x)"
  shows "filter Q (change_first P f xs) = filter Q xs"
  using assms by (induction xs) auto

lemma filter_downgraded:
  assumes "\<And>p. \<not> P (f p)"
  shows "length (filter P (map (\<lambda>p. if Q p then f p else p) ps)) \<le> length (filter P ps)"
  using assms by (induction ps) auto

lemma rollback_cases:
  obtains (refused) "fst (rollback_promotion pid now ow ct name target opr s) = s"
      "\<And>p. snd (rollback_promotion pid now ow ct name target opr s) \<noteq> Inr p"
  | (granted) t where "t \<in> set (promos s)" "same_artifact ow ct name t" "pm_id t = target"
      "snd (rollback_promotion pid now ow ct name target opr s) = Inr (t\<lparr>pm_id := pid, pm_operator := opr, pm_automatic := False, pm_at := now,
         pm_status := P_active, pm_rollback_of := map_option pm_id (find (\<lambda>p. pm_status p = P_active) (filter (same_artifact ow ct name) (promos s))),
         pm_restored_from := Some target\<rparr>)"
      "promos (fst (rollback_promotion pid now ow ct name target opr s)) =
         change_first (current ow ct name) (\<lambda>p. p\<lparr>pm_status := P_rolled_back\<rparr>) (promos s) @
         [t\<lparr>pm_id := pid, pm_operator := opr, pm_automatic := False, pm_at := now,
         pm_status := P_active, pm_rollback_of := map_option pm_id (find (\<lambda>p. pm_status p = P_active) (filter (same_artifact ow ct name) (promos s))),
         pm_restored_from := Some target\<rparr>]"
      "cands (fst (rollback_promotion pid now ow ct name target opr s)) =
         (case dget (cands s) (pm_candidate t) of
            None \<Rightarrow> cands s
          | Some c \<Rightarrow> dset (pm_candidate t) (c\<lparr>cd_status := C_approved, cd_updated := now\<rparr>) (cands s))"
proof (cases "find (\<lambda>p. pm_id p = target) (filter (same_artifact ow ct name) (promos s))")
  case None
  then show ?thesis by (intro refused) (simp_all add: rollback_promotion_def Let_def)
next
  case (Some t)
  from find_SomeD [OF Some] have t: "t \<in> set (promos s)" "same_artifact ow ct name t" "pm_id t = target" by auto
  have cur: "(\<lambda>p. same_artifact ow ct name p \<and> pm_status p = P_active) = current ow ct name"
    by (simp add: current_def fun_eq_iff)
  from t show ?thesis
    by (rule granted) (simp_all add: rollback_promotion_def Let_def Some cur split: option.split)
qed

lemma single_active_step: "single_active s \<Longrightarrow> single_active (learn_step s op)"
proof (cases op)
  case (L_promote on pid now cid opr ow auto pol)
  assume inv: "single_active s"
  show ?thesis
  proof (cases rule: promote_cases [of on pid now cid opr ow auto pol s])
    case refused
    with inv L_promote show ?thesis by simp
  next
    case (granted c e)
    have "length (filter (current a b n) (map (retire_promotion c) (promos s) @ [promotion_record pid now opr auto e c (promos s)])) \<le> 1" for a b n
    proof (cases "a = cd_owner c \<and> b = cd_type c \<and> n = artifact_name c")
      case True
      then have "filter (current a b n \<circ> retire_promotion c) (promos s) = []" by (simp add: filter_empty_conv current_retire)
      then show ?thesis by (simp add: length_filter_map)
    next
      case False
      then have "filter (current a b n \<circ> retire_promotion c) (promos s) = filter (current a b n) (promos s)"
        by (intro filter_cong) (auto simp: current_retire)
      moreover have "\<not> current a b n (promotion_record pid now opr auto e c (promos s))"
        using False by (auto simp: current_def same_artifact_def promotion_record_def)
      ultimately show ?thesis using inv by (simp add: length_filter_map single_active_def)
    qed
    with granted(4) L_promote show ?thesis by (simp add: single_active_def)
  qed
next
  case (L_demote now cid opr why ow)
  assume inv: "single_active s"
  have "length (filter (current a b n) (map (\<lambda>p. if pm_candidate p = cid \<and> pm_status p = P_active then p\<lparr>pm_status := P_demoted\<rparr> else p) (promos s))) \<le> 1" for a b n
  proof (rule order_trans)
    show "length (filter (current a b n) (map (\<lambda>p. if pm_candidate p = cid \<and> pm_status p = P_active then p\<lparr>pm_status := P_demoted\<rparr> else p) (promos s)))
        \<le> length (filter (current a b n) (promos s))"
      by (rule filter_downgraded) (simp add: current_def)
    show "length (filter (current a b n) (promos s)) \<le> 1" using inv by (simp add: single_active_def)
  qed
  with inv L_demote show ?thesis
    by (simp add: single_active_def demote_candidate_def Let_def split: option.split)
next
  case (L_rollback pid now ow ct name target opr)
  assume inv: "single_active s"
  show ?thesis
  proof (cases rule: rollback_cases [of pid now ow ct name target opr s])
    case refused
    with inv L_rollback show ?thesis by simp
  next
    case (granted t)
    let ?f = "\<lambda>p. p\<lparr>pm_status := P_rolled_back\<rparr> :: promotion"
    have "length (filter (current a b n) (promos (fst (rollback_promotion pid now ow ct name target opr s)))) \<le> 1" for a b n
    proof (cases "a = ow \<and> b = ct \<and> n = name")
      case True
      have "filter (current ow ct name) (change_first (current ow ct name) ?f (promos s)) = []"
        using inv by (intro change_first_current) (auto simp: single_active_def current_def)
      with True show ?thesis by (simp add: granted(5))
    next
      case False
      then have "filter (current a b n) (change_first (current ow ct name) ?f (promos s)) = filter (current a b n) (promos s)"
        by (intro change_first_other) (auto simp: current_def dest: same_artifact_eq)
      moreover have "\<not> same_artifact a b n t" using False granted(2) same_artifact_eq by blast
      ultimately show ?thesis using inv by (auto simp: granted(5) single_active_def current_def same_artifact_def)
    qed
    with L_rollback show ?thesis by (simp add: single_active_def)
  qed
qed (simp_all add: single_active_def promos_create promos_evaluate promos_outcome)


lemma create_cases:
  obtains (refused) "fst (create_candidate sha idt cid now ct ow art refs prd caps conf ver par s) = s"
  | (added) c where "fst (create_candidate sha idt cid now ct ow art refs prd caps conf ver par s) = s\<lparr>cands := dset cid c (cands s)\<rparr>"
      "cd_id c = cid" "cd_evaluation c = None"
proof -
  let ?r = "create_candidate sha idt cid now ct ow art refs prd caps conf ver par s"
  have new: "\<exists>c. s\<lparr>cands := dset cid (new_candidate sha cid now ct ow n cf refs p cs rk ver par) (cands s)\<rparr> = s\<lparr>cands := dset cid c (cands s)\<rparr>
      \<and> cd_id c = cid \<and> cd_evaluation c = None" for n cf p cs rk
    by (rule exI, rule conjI, rule refl) (simp add: new_candidate_def)
  have "fst ?r = s \<or> (\<exists>c. fst ?r = s\<lparr>cands := dset cid c (cands s)\<rparr> \<and> cd_id c = cid \<and> cd_evaluation c = None)"
    unfolding create_candidate_def Let_def using new
    by (simp split: sum.split del: ledger.simps)
  with refused added show ?thesis by blast
qed

lemma evaluate_cases:
  obtains (refused) "fst (evaluate now cid cases ev rt ow s) = s"
  | (done') c e where "dget (cands s) cid = Some c" "e = make_evaluation now cases ev rt c"
     "fst (evaluate now cid cases ev rt ow s) = s\<lparr>cands := dset cid (c\<lparr>cd_evaluation := Some e, cd_updated := now,
                cd_status := (if el_verdict e = ''pass'' then C_evaluating else C_rejected)\<rparr>) (cands s)\<rparr>"
proof (cases "get_candidate cid ow s")
  case None
  then show ?thesis by (intro refused) (simp add: evaluate_def)
next
  case (Some c)
  from get_candidate_Some [OF this] refl show ?thesis
    by (rule done') (simp add: evaluate_def Some Let_def)
qed

lemma demote_cases:
  obtains (refused) "fst (demote_candidate now cid opr why ow s) = s" "\<And>c. snd (demote_candidate now cid opr why ow s) \<noteq> Inr c"
  | (done') c d where "dget (cands s) cid = Some c"
     "fst (demote_candidate now cid opr why ow s) = s\<lparr>cands := dset cid (c\<lparr>cd_status := C_demoted, cd_demotion := d, cd_updated := now\<rparr>) (cands s),
        promos := map (\<lambda>p. if pm_candidate p = cid \<and> pm_status p = P_active then p\<lparr>pm_status := P_demoted\<rparr> else p) (promos s)\<rparr>"
proof (cases "get_candidate cid ow s")
  case None
  then show ?thesis by (intro refused) (simp_all add: demote_candidate_def)
next
  case (Some c)
  from get_candidate_Some [OF this] show ?thesis
    by (rule done' [where d = "Some (opr, take 500 (normalise_text why), now)"]) (simp add: demote_candidate_def Some Let_def)
qed


section \<open>Evidence behind every promotion\<close>

text \<open>
  What an evaluation must hold: at least three cases, all of them passing, one of each role, one with
  independent review, one corroborated, and, unless the risk is read-only guidance, an original case
  run as a native or integration test.
\<close>

definition evidence_ok :: "string \<Rightarrow> evaluation \<Rightarrow> bool" where
  "evidence_ok risk e \<longleftrightarrow> el_verdict e = ''pass'' \<and> el_cases e \<noteq> [] \<and> list_all passes (el_cases e)
     \<and> list_all (\<lambda>role. list_ex (\<lambda>row. passes row \<and> pget row ''role'' = PStr role) (el_cases e))
         [''original'', ''boundary'', ''negative'']
     \<and> list_ex (\<lambda>row. evidence_in [''deterministic'', ''native_test'', ''integration_test''] row \<and> passes row) (el_cases e)
     \<and> (risk = ''read_only_guidance''
        \<or> list_ex (\<lambda>row. pget row ''role'' = PStr ''original'' \<and> passes row
            \<and> evidence_in [''native_test'', ''integration_test''] row) (el_cases e))"

lemma make_evaluation_ok:
  "el_verdict (make_evaluation now cases ev rt c) = ''pass'' \<Longrightarrow>
     evidence_ok (cd_risk c) (make_evaluation now cases ev rt c) \<and> cd_conflicts c = []"
  by (simp add: make_evaluation_def evaluation_verdict_def evidence_ok_def Let_def split: if_splits)

definition cand_ok :: "candidate \<Rightarrow> bool" where
  "cand_ok c \<longleftrightarrow> (\<forall>e. cd_evaluation c = Some e \<longrightarrow> el_verdict e = ''pass'' \<longrightarrow> evidence_ok (cd_risk c) e)"

definition promo_ok :: "promotion \<Rightarrow> bool" where
  "promo_ok p \<longleftrightarrow> evidence_ok (pm_risk p) (pm_evaluation p) \<and> 3 \<le> el_sample (pm_evaluation p)
     \<and> (pm_automatic p \<longrightarrow> pm_risk p = ''read_only_guidance'')"

definition evidence_inv :: "ledger \<Rightarrow> bool" where
  "evidence_inv s \<longleftrightarrow> (\<forall>k c. dget (cands s) k = Some c \<longrightarrow> cand_ok c) \<and> (\<forall>p \<in> set (promos s). promo_ok p)"

lemma cand_ok_updates [simp]:
  "cand_ok (c\<lparr>cd_status := st\<rparr>) = cand_ok c" "cand_ok (c\<lparr>cd_updated := t\<rparr>) = cand_ok c"
  "cand_ok (c\<lparr>cd_demotion := d\<rparr>) = cand_ok c" "cand_ok (supersede_candidate now x c) = cand_ok c"
  by (simp_all add: cand_ok_def supersede_candidate_def)

lemma promo_ok_updates [simp]:
  "promo_ok (p\<lparr>pm_status := st\<rparr>) = promo_ok p" "promo_ok (retire_promotion c p) = promo_ok p"
  by (simp_all add: promo_ok_def retire_promotion_def)

lemma change_first_all: "(\<And>x. P (f x) = P x) \<Longrightarrow> \<forall>x \<in> set xs. P x \<Longrightarrow> \<forall>x \<in> set (change_first Q f xs). P x"
  by (induction xs) auto

lemma evidence_step: "evidence_inv s \<Longrightarrow> evidence_inv (learn_step s op)"
proof (cases op)
  case (L_create sha idt cid now ct ow art refs prd caps conf ver par)
  assume inv: "evidence_inv s"
  show ?thesis
  proof (cases rule: create_cases [of sha idt cid now ct ow art refs prd caps conf ver par s])
    case refused
    with inv L_create show ?thesis by simp
  next
    case (added c)
    then have "cand_ok c" by (simp add: cand_ok_def)
    with inv L_create added(1) show ?thesis by (simp add: evidence_inv_def)
  qed
next
  case (L_evaluate now cid cases ev rt ow)
  assume inv: "evidence_inv s"
  show ?thesis
  proof (cases rule: evaluate_cases [of now cid cases ev rt ow s])
    case refused
    with inv L_evaluate show ?thesis by simp
  next
    case (done' c e)
    have "cand_ok (c\<lparr>cd_evaluation := Some e\<rparr>)"
      using make_evaluation_ok [of now cases ev rt c] done'(2) by (simp add: cand_ok_def)
    with inv L_evaluate done'(3) show ?thesis by (simp add: evidence_inv_def)
  qed
next
  case (L_promote on pid now cid opr ow auto pol)
  assume inv: "evidence_inv s"
  show ?thesis
  proof (cases rule: promote_cases [of on pid now cid opr ow auto pol s])
    case refused
    with inv L_promote show ?thesis by simp
  next
    case (granted c e)
    have c: "cand_ok c" using inv get_candidate_Some [OF granted(1)] by (auto simp: evidence_inv_def)
    with granted(2,3) have "promo_ok (promotion_record pid now opr auto e c (promos s))"
      by (auto simp: promo_ok_def promotion_record_def cand_ok_def promotion_refusal_def split: if_splits)
    with c inv granted(4) L_promote show ?thesis by (auto simp: evidence_inv_def)
  qed
next
  case (L_demote now cid opr why ow)
  assume inv: "evidence_inv s"
  show ?thesis
  proof (cases rule: demote_cases [of now cid opr why ow s])
    case refused
    with inv L_demote show ?thesis by simp
  next
    case (done' c d)
    have "cand_ok c" using inv done'(1) by (simp add: evidence_inv_def)
    with inv L_demote done'(2) show ?thesis by (auto simp: evidence_inv_def)
  qed
next
  case (L_rollback pid now ow ct name target opr)
  assume inv: "evidence_inv s"
  show ?thesis
  proof (cases rule: rollback_cases [of pid now ow ct name target opr s])
    case refused
    with inv L_rollback show ?thesis by simp
  next
    case (granted t)
    have all: "\<forall>p \<in> set (promos s). promo_ok p" using inv by (simp add: evidence_inv_def)
    then have "\<forall>p \<in> set (change_first (current ow ct name) (\<lambda>p. p\<lparr>pm_status := P_rolled_back\<rparr>) (promos s)). promo_ok p"
      by (intro change_first_all) simp_all
    moreover have "promo_ok t" using all granted(1) by blast
    then have "promo_ok (t\<lparr>pm_id := pid, pm_operator := opr, pm_automatic := False, pm_at := now, pm_status := P_active,
        pm_rollback_of := x, pm_restored_from := y\<rparr>)" for x y by (simp add: promo_ok_def)
    ultimately have "\<forall>p \<in> set (promos (learn_step s op)). promo_ok p"
      using L_rollback granted(5) by simp
    moreover have "\<forall>k c. dget (cands (learn_step s op)) k = Some c \<longrightarrow> cand_ok c"
      using L_rollback granted(6) inv by (auto simp: evidence_inv_def split: option.split)
    ultimately show ?thesis by (simp add: evidence_inv_def)
  qed
next
  case (L_outcome now cid ok lat reg ow)
  assume "evidence_inv s"
  with L_outcome show ?thesis by (simp add: evidence_inv_def promos_outcome)
qed

interpretation learning: invariant_system learn_step "\<lambda>s. evidence_inv s \<and> single_active s"
  by unfold_locales (simp add: evidence_step single_active_step)

text \<open>
  Claim C6. Nothing is promoted on trust. After any sequence of operations at most one promotion of
  an artifact is active, and every promotion, active, superseded or restored, rests on an evaluation
  of three cases or more which all passed, with the original, the boundary and the negative role,
  corroborated, and run as a real test unless it is mere guidance; what was promoted automatically is
  guidance.
\<close>

theorem promotions_rest_on_evidence:
  "length (filter (\<lambda>p. same_artifact ow ct name p \<and> pm_status p = P_active) (promos (run learn_step empty_ledger ops))) \<le> 1
    \<and> list_all (\<lambda>p. evidence_ok (pm_risk p) (pm_evaluation p) \<and> el_sample (pm_evaluation p) \<ge> 3
        \<and> (if pm_automatic p then pm_risk p = ''read_only_guidance'' else True)) (promos (run learn_step empty_ledger ops))"
proof -
  have "evidence_inv empty_ledger \<and> single_active empty_ledger"
    by (simp add: evidence_inv_def single_active_def empty_ledger_def)
  then have "evidence_inv (run learn_step empty_ledger ops) \<and> single_active (run learn_step empty_ledger ops)"
    by (rule learning.run_inv)
  then show ?thesis
    by (auto simp: evidence_inv_def single_active_def current_def [abs_def] list_all_iff promo_ok_def)
qed

text \<open>Every candidate is filed under its own identifier.\<close>

definition ids_match :: "ledger \<Rightarrow> bool" where
  "ids_match s \<longleftrightarrow> (\<forall>k c. dget (cands s) k = Some c \<longrightarrow> cd_id c = k)"

lemma supersede_id [simp]: "cd_id (supersede_candidate now x c) = cd_id c"
  by (simp add: supersede_candidate_def)

lemma ids_step: "ids_match s \<Longrightarrow> ids_match (learn_step s op)"
proof (cases op)
  case (L_create sha idt cid now ct ow art refs prd caps conf ver par)
  assume "ids_match s"
  then show ?thesis
    by (cases rule: create_cases [of sha idt cid now ct ow art refs prd caps conf ver par s])
      (simp_all add: L_create ids_match_def)
next
  case (L_evaluate now cid cases ev rt ow)
  assume "ids_match s"
  then show ?thesis
    by (cases rule: evaluate_cases [of now cid cases ev rt ow s]) (simp_all add: L_evaluate ids_match_def)
next
  case (L_promote on pid now cid opr ow auto pol)
  assume inv: "ids_match s"
  show ?thesis
  proof (cases rule: promote_cases [of on pid now cid opr ow auto pol s])
    case refused
    with inv L_promote show ?thesis by simp
  next
    case (granted c e)
    then show ?thesis using inv get_candidate_Some [OF granted(1)] by (auto simp: L_promote ids_match_def)
  qed
next
  case (L_demote now cid opr why ow)
  assume "ids_match s"
  then show ?thesis
    by (cases rule: demote_cases [of now cid opr why ow s]) (simp_all add: L_demote ids_match_def)
next
  case (L_rollback pid now ow ct name target opr)
  assume inv: "ids_match s"
  show ?thesis
  proof (cases rule: rollback_cases [of pid now ow ct name target opr s])
    case refused
    with inv L_rollback show ?thesis by simp
  next
    case (granted t)
    with inv show ?thesis by (auto simp: L_rollback ids_match_def split: option.split)
  qed
next
  case (L_outcome now cid ok lat reg ow)
  assume "ids_match s"
  with L_outcome show ?thesis by (simp add: ids_match_def promos_outcome)
qed

interpretation filed: invariant_system learn_step ids_match
  by unfold_locales (rule ids_step)

section \<open>Demotion\<close>

definition restores :: "string \<Rightarrow> learn_op \<Rightarrow> bool" where
  "restores cid op \<longleftrightarrow> (case op of L_promote _ _ _ c _ _ _ _ \<Rightarrow> c = cid | L_rollback _ _ _ _ _ _ _ \<Rightarrow> True | _ \<Rightarrow> False)"

definition inactive :: "string \<Rightarrow> ledger \<Rightarrow> bool" where
  "inactive cid s \<longleftrightarrow> (\<forall>p \<in> set (promos s). pm_candidate p = cid \<longrightarrow> pm_status p \<noteq> P_active)
     \<and> (\<forall>k c. dget (cands s) k = Some c \<longrightarrow> cd_id c = k)"

lemma inactive_step: "inactive cid s \<Longrightarrow> \<not> restores cid op \<Longrightarrow> inactive cid (learn_step s op)"
proof (cases op)
  case (L_promote on pid now cid' opr ow auto pol)
  assume inv: "inactive cid s" and no: "\<not> restores cid op"
  show ?thesis
  proof (cases rule: promote_cases [of on pid now cid' opr ow auto pol s])
    case refused
    with inv L_promote show ?thesis by simp
  next
    case (granted c e)
    have "cd_id c = cid'" using inv get_candidate_Some [OF granted(1)] by (simp add: inactive_def)
    moreover have "cid' \<noteq> cid" using no L_promote by (simp add: restores_def)
    ultimately show ?thesis using inv L_promote granted(4)
      by (auto simp: inactive_def retire_promotion_def promotion_record_def supersede_candidate_def)
  qed
next
  case (L_create sha idt cid' now ct ow art refs prd caps conf ver par)
  assume inv: "inactive cid s"
  show ?thesis
    by (cases rule: create_cases [of sha idt cid' now ct ow art refs prd caps conf ver par s])
      (use inv L_create in \<open>simp_all add: inactive_def\<close>)
next
  case (L_evaluate now cid' cases ev rt ow)
  assume inv: "inactive cid s"
  show ?thesis
    by (cases rule: evaluate_cases [of now cid' cases ev rt ow s])
      (use inv L_evaluate in \<open>simp_all add: inactive_def\<close>)
next
  case (L_demote now cid' opr why ow)
  assume inv: "inactive cid s"
  show ?thesis
    by (cases rule: demote_cases [of now cid' opr why ow s])
      (use inv L_demote in \<open>auto simp: inactive_def\<close>)
next
  case (L_outcome now cid' ok lat reg ow)
  assume "inactive cid s"
  with L_outcome show ?thesis by (simp add: inactive_def promos_outcome)
qed (simp add: restores_def)

interpretation demoted: guarded_system learn_step "inactive cid" "\<lambda>op. \<not> restores cid op" for cid
  by unfold_locales (rule inactive_step)

lemma deactivated:
  "list_all (\<lambda>p. pm_candidate p = cid \<longrightarrow> pm_status p \<noteq> P_active)
     (map (\<lambda>p. if pm_candidate p = cid \<and> pm_status p = P_active then p\<lparr>pm_status := P_demoted\<rparr> else p) ps)"
proof (induction ps)
  case (Cons p ps)
  then show ?case by (cases "pm_candidate p = cid \<and> pm_status p = P_active") (simp_all only: list.map list.pred_inject if_True if_False, auto)
qed simp

text \<open>
  A demotion takes effect at once and stays: no promotion of the demoted candidate is active
  in any later state, until the candidate is promoted again or a rollback restores something.
\<close>

theorem demotion_stays:
  assumes "demote_candidate now cid opr why ow (run learn_step empty_ledger before) = (s', Inr c)"
    and "list_all (\<lambda>op. \<not> restores cid op) ops"
  shows "list_all (\<lambda>p. pm_candidate p = cid \<longrightarrow> pm_status p \<noteq> P_active) (promos (run learn_step s' ops))"
proof -
  let ?s = "run learn_step empty_ledger before"
  have ids: "ids_match ?s" by (rule filed.run_inv) (simp add: ids_match_def empty_ledger_def)
  have "inactive cid s'"
  proof (cases rule: demote_cases [of now cid opr why ow ?s])
    case refused
    show ?thesis using refused(2) [of c] assms(1) by simp
  next
    case (done' c0 d)
    have s': "fst (demote_candidate now cid opr why ow ?s) = s'" by (simp add: assms(1))
    note eq = done'(2) [unfolded s']
    have "promos s' = map (\<lambda>p. if pm_candidate p = cid \<and> pm_status p = P_active then p\<lparr>pm_status := P_demoted\<rparr> else p) (promos ?s)"
      unfolding eq by simp
    then have "list_all (\<lambda>p. pm_candidate p = cid \<longrightarrow> pm_status p \<noteq> P_active) (promos s')"
      using deactivated by (simp only:)
    then have "\<forall>p \<in> set (promos s'). pm_candidate p = cid \<longrightarrow> pm_status p \<noteq> P_active"
      by (simp only: list_all_iff)
    moreover have "cd_id c0 = cid" using ids done'(1) by (simp add: ids_match_def)
    then have "\<forall>k c. dget (cands s') k = Some c \<longrightarrow> cd_id c = k"
      unfolding eq using ids by (simp add: ids_match_def)
    then have "ids_match s'" by (simp only: ids_match_def)
    ultimately show ?thesis by (simp add: inactive_def ids_match_def)
  qed
  then have "inactive cid (run learn_step s' ops)" using assms(2) by (rule demoted.guarded_run)
  then show ?thesis by (simp add: inactive_def list_all_iff)
qed

definition sample_create :: learn_op where
  "sample_create = L_create id None ''c1'' 1 ''skill'' ''ann'' [] [] (PStr ''m'') [] None ''1.0.0'' None"

lemma sample_created: "\<exists>c. get_candidate ''c1'' None (run learn_step empty_ledger [sample_create]) = Some c"
  by (simp add: sample_create_def create_candidate_def empty_ledger_def normalize_dict_def normalize_artifact.simps(1)
      iterate_def classify_risk_def get_candidate_def owner_matches_def py_or_def strip_def lstrip_def rstrip_def is_space_def code_def Let_def)

theorem demotion_stays_witness:
  "list_all (\<lambda>p. pm_candidate p = ''c1'' \<longrightarrow> pm_status p \<noteq> P_active)
     (promos (run learn_step (fst (demote_candidate 2 ''c1'' ''op'' [] None (run learn_step empty_ledger [sample_create])))
       [L_outcome 3 ''c1'' True 5 False None]))"
proof -
  let ?r = "demote_candidate 2 ''c1'' ''op'' [] None (run learn_step empty_ledger [sample_create])"
  obtain c where "snd ?r = Inr c"
    using sample_created by (auto simp: demote_candidate_def Let_def simp del: run.simps)
  then have "?r = (fst ?r, Inr c)" by (simp add: prod_eq_iff)
  then show ?thesis by (rule demotion_stays) (simp add: restores_def)
qed


section \<open>Owners\<close>

text \<open>
  A candidate of another owner is out of reach: every operation that is given an owner
  scope treats it as absent, raises the same error as for an unknown identifier, and changes nothing.
\<close>

theorem foreign_candidate_untouched:
  assumes "dget (cands s) cid = Some c" and "cd_owner c \<noteq> ow"
  shows "get_candidate cid (Some ow) s = None
    \<and> evaluate now cid cases ev rt (Some ow) s = (s, Inl (KeyError ''candidate_not_found''))
    \<and> promote_candidate True pid now cid opr (Some ow) auto pol s = (s, Inl (KeyError ''candidate_not_found''))
    \<and> demote_candidate now cid opr why (Some ow) s = (s, Inl (KeyError ''candidate_not_found''))
    \<and> record_outcome now cid ok lat reg (Some ow) s = (s, Inl (KeyError ''candidate_not_found''))
    \<and> c \<notin> set (list_candidates (Some ow) st s)"
  using assms
  by (auto simp: get_candidate_def owner_matches_def evaluate_def promote_candidate_def demote_candidate_def
      record_outcome_def list_candidates_def)

definition proven :: evaluation where
  "proven = \<lparr>el_verdict = ''pass'', el_cases = [], el_evaluator = [], el_runtime = ''1'', el_sample = 3, el_passed = 3,
     el_pass_rate = 10000, el_corroborated = True, el_independent = True, el_at = 0\<rparr>"

definition sample_candidate :: "string \<Rightarrow> candidate" where
  "sample_candidate cid = \<lparr>cd_id = cid, cd_type = ''skill'', cd_owner = ''ann'', cd_refs = PList [],
     cd_producer = [(''id'', PStr ''m''), (''kind'', PStr ''model'')], cd_caps = [], cd_risk = ''read_only_guidance'',
     cd_status = C_evaluating, cd_version = ''1.0.0'', cd_parent = None, cd_artifact = [(''name'', PStr ''tidy'')],
     cd_fingerprint = ''f'', cd_conflicts = [], cd_evaluation = Some proven, cd_created = 0, cd_updated = 0,
     cd_demotion = None\<rparr>"

definition two_candidates :: ledger where
  "two_candidates = \<lparr>cands = [(''c1'', sample_candidate ''c1''), (''c2'', sample_candidate ''c2'')], promos = [], monitor = []\<rparr>"

theorem foreign_candidate_untouched_witness:
  "promote_candidate True ''p1'' 5 ''c1'' ''bob'' (Some ''bob'') False default_policy two_candidates
     = (two_candidates, Inl (KeyError ''candidate_not_found''))"
proof -
  have "dget (cands two_candidates) ''c1'' = Some (sample_candidate ''c1'')" by (simp add: two_candidates_def)
  moreover have "cd_owner (sample_candidate ''c1'') \<noteq> ''bob''" by (simp add: sample_candidate_def)
  ultimately show ?thesis
    using foreign_candidate_untouched [of two_candidates "''c1''" "sample_candidate ''c1''" "''bob''"] by blast
qed

section \<open>What a rollback leaves behind\<close>

text \<open>
  A rollback marks the restored candidate as approved without superseding the candidate that
  was approved until then: every other approved candidate, in particular the one of the promotion that
  is rolled back, stays approved, so the artifact has two approved candidates and one active promotion.
\<close>

theorem rollback_leaves_two_approved:
  assumes "rollback_promotion pid now ow ct name target opr s = (s', Inr r)"
    and "dget (cands s) b = Some cb" and "cd_status cb = C_approved" and "b \<noteq> pm_candidate r"
    and "dget (cands s) (pm_candidate r) = Some ca"
  shows "map_option cd_status (dget (cands s') b) = Some C_approved
    \<and> map_option cd_status (dget (cands s') (pm_candidate r)) = Some C_approved"
proof (cases rule: rollback_cases [of pid now ow ct name target opr s])
  case refused
  show ?thesis using refused(2) [of r] assms(1) by simp
next
  case (granted t)
  have r: "pm_candidate r = pm_candidate t" using granted(4) by (simp add: assms(1))
  have "cands s' = (case dget (cands s) (pm_candidate t) of
            None \<Rightarrow> cands s
          | Some c \<Rightarrow> dset (pm_candidate t) (c\<lparr>cd_status := C_approved, cd_updated := now\<rparr>) (cands s))"
    using granted(6) by (simp add: assms(1))
  then show ?thesis using assms(2-5) by (simp add: r)
qed

theorem rollback_leaves_two_approved_witness:
  "let s2 = fst (promote_candidate True ''p2'' 2 ''c2'' ''op'' None False default_policy
        (fst (promote_candidate True ''p1'' 1 ''c1'' ''op'' None False default_policy two_candidates)));
       s3 = fst (rollback_promotion ''p3'' 3 ''ann'' ''skill'' ''tidy'' ''p1'' ''op'' s2)
   in map_option cd_status (dget (cands s3) ''c2'') = Some C_approved
      \<and> map_option cd_status (dget (cands s3) ''c1'') = Some C_approved"
proof -
  define s2 where "s2 = fst (promote_candidate True ''p2'' 2 ''c2'' ''op'' None False default_policy
        (fst (promote_candidate True ''p1'' 1 ''c1'' ''op'' None False default_policy two_candidates)))"
  have s2: "\<exists>cb. dget (cands s2) ''c2'' = Some cb \<and> cd_status cb = C_approved" "\<exists>ca. dget (cands s2) ''c1'' = Some ca"
    "\<exists>r. snd (rollback_promotion ''p3'' 3 ''ann'' ''skill'' ''tidy'' ''p1'' ''op'' s2) = Inr r \<and> pm_candidate r = ''c1''"
    unfolding s2_def
    by (simp_all add: two_candidates_def sample_candidate_def proven_def default_policy_def promote_candidate_def
        get_candidate_def owner_matches_def promotion_refusal_def supersede_candidate_def artifact_name_def py_or_def
        promotion_record_def retire_promotion_def same_artifact_def rollback_promotion_def Let_def)
  then obtain cb ca r where "dget (cands s2) ''c2'' = Some cb" "cd_status cb = C_approved" "dget (cands s2) ''c1'' = Some ca"
    "rollback_promotion ''p3'' 3 ''ann'' ''skill'' ''tidy'' ''p1'' ''op'' s2
      = (fst (rollback_promotion ''p3'' 3 ''ann'' ''skill'' ''tidy'' ''p1'' ''op'' s2), Inr r)" "pm_candidate r = ''c1''"
    by (auto simp: prod_eq_iff)
  with rollback_leaves_two_approved [of "''p3''" 3 "''ann''" "''skill''" "''tidy''" "''p1''" "''op''" s2 _ r "''c2''" cb ca]
  show ?thesis unfolding Let_def s2_def [symmetric] by simp
qed

section \<open>No credential reaches an artifact\<close>

lemma normalise_redacted: "normalise_text ''[redacted]'' = ''[redacted]''"
proof -
  let ?s = "''[redacted]''"
  have "avoids ?s (ignore_case (rlit ''-''))" by code_simp
  then have "avoids ?s UUID_TEXT" by (simp add: UUID_TEXT_def)
  moreover have "avoids ?s SECRET_TEXT_0" "avoids ?s SECRET_TEXT_1" "avoids ?s SECRET_TEXT_2"
    "avoids ?s ABSOLUTE_USER_PATH" "avoids ?s PRIVATE_ENDPOINT" by code_simp+
  ultimately show ?thesis
    by (simp only: normalise_text_def redact_secret_text_def re_sub_avoids [OF _ subset_refl])
qed

lemma credential_field_normalize:
  "is_credential_field key (normalize_artifact v) \<longleftrightarrow> is_credential_field key v"
  by (cases v) (simp_all add: is_credential_field_def normalize_artifact.simps(1))

text \<open>
  Whatever a producer submits, the normalized artifact that is evaluated, stored and promoted
  holds only the redaction marker in every credential field, at every depth.
\<close>

theorem artifact_has_no_secrets: "no_secrets (normalize_artifact v)"
proof (induction v rule: normalize_artifact.induct)
  case (1 d)
  have "(is_credential_field key (normalize_artifact item) \<longrightarrow> normalize_artifact item = redacted) \<and> no_secrets (normalize_artifact item)"
    if "(key, item) \<in> set (as_mapping (redact_secrets (PDict d)))" for key item
  proof
    show "no_secrets (normalize_artifact item)" using 1 that by blast
    from that obtain i0 where "item = (if is_credential_field key i0 then redacted else redact_secrets i0)"
      by auto
    then show "is_credential_field key (normalize_artifact item) \<longrightarrow> normalize_artifact item = redacted"
      by (auto simp: credential_field_normalize credential_field_redact normalise_redacted)
  qed
  then show ?case
    by (auto simp: normalize_artifact.simps(1) list_all_iff simp del: redact_secrets.simps)
qed (auto simp: list_all_iff)

end
