(* ===== verification/PyText.thy ===== *)
theory PyText
  imports PyRegex
begin

text \<open>
  Searching in strings: prefixes, occurrences, and \<open>str.replace\<close>, with the lemmas that tell when
  a replacement leaves no occurrence of a marker behind.
\<close>

section \<open>Prefixes\<close>

lemma starts_with_Nil [simp]: "starts_with [] s"
  by (simp add: starts_with_def)

lemma starts_with_Cons [simp]: "starts_with (c # w) s = (case s of [] \<Rightarrow> False | d # t \<Rightarrow> d = c \<and> starts_with w t)"
  by (auto simp: starts_with_def split: list.split)

lemma starts_with_iff: "starts_with w s \<longleftrightarrow> (\<exists>r. s = w @ r)"
  unfolding starts_with_def by (metis append_eq_conv_conj append_take_drop_id)

lemma starts_with_append [simp]: "starts_with w (w @ t)"
  by (simp add: starts_with_def)

lemma starts_with_trans: "starts_with a b \<Longrightarrow> starts_with b c \<Longrightarrow> starts_with a c"
  by (auto simp: starts_with_iff)

lemma starts_with_more: "starts_with w t \<Longrightarrow> starts_with w (t @ u)"
  by (auto simp: starts_with_iff)

lemma starts_with_drop: "starts_with (u @ w) s \<longleftrightarrow> starts_with u s \<and> starts_with w (drop (length u) s)"
  by (induction u arbitrary: s) (auto split: list.splits)

lemma starts_with_split:
  "starts_with b (x @ y) \<Longrightarrow> \<not> starts_with b x \<Longrightarrow> starts_with x b \<and> length x < length b"
proof (induction b arbitrary: x)
  case (Cons c b)
  then show ?case by (cases x) auto
qed simp

section \<open>\<open>str.find\<close>\<close>

text \<open>\<open>s.find(p)\<close>.\<close>

definition find_at :: "string \<Rightarrow> string \<Rightarrow> nat option" where
  "find_at p s = find (\<lambda>i. starts_with p (drop i s)) [0..<Suc (length s)]"

lemma find_mapped: "find P (map f xs) = map_option f (find (P \<circ> f) xs)"
  by (induction xs) auto

lemma find_at_simps [simp]:
  "find_at p [] = (if p = [] then Some 0 else None)"
  "find_at p (c # s) = (if starts_with p (c # s) then Some 0 else map_option Suc (find_at p s))"
proof -
  have "[0..<Suc (length (c # s))] = 0 # map Suc [0..<Suc (length s)]"
    by (metis length_Cons map_Suc_upt upt_conv_Cons zero_less_Suc)
  then show "find_at p (c # s) = (if starts_with p (c # s) then Some 0 else map_option Suc (find_at p s))"
    unfolding find_at_def by (simp only: find_mapped find.simps drop0) (simp add: comp_def)
qed (simp add: find_at_def starts_with_def)

lemma find_at_SomeD: "find_at p s = Some i \<Longrightarrow> i \<le> length s \<and> starts_with p (drop i s)"
  by (auto simp: find_at_def dest!: find_SomeD)

lemma find_at_suffix: "find_at p s = None \<Longrightarrow> find_at p (drop k s) = None"
proof (induction s arbitrary: k)
  case (Cons c s)
  then show ?case by (cases k) (auto split: if_splits)
qed simp

section \<open>Occurrences\<close>

text \<open>How many positions of a text a pattern starts at.\<close>

fun occurrences :: "string \<Rightarrow> string \<Rightarrow> nat" where
  "occurrences p [] = 0"
| "occurrences p (c # s) = of_bool (starts_with p (c # s)) + occurrences p s"

lemma occurrences_0_iff: "p \<noteq> [] \<Longrightarrow> occurrences p s = 0 \<longleftrightarrow> \<not> contains p s"
  by (induction s) auto

text \<open>A pattern cannot reach across a character that it does not have.\<close>

lemma starts_with_across: "c \<notin> set p \<Longrightarrow> starts_with p (x @ c # y) = starts_with p x"
proof (induction p arbitrary: x)
  case (Cons d p)
  then show ?case by (cases x) auto
qed simp

lemma occurrences_across: "c \<notin> set p \<Longrightarrow> p \<noteq> [] \<Longrightarrow> occurrences p (x @ c # y) = occurrences p x + occurrences p y"
proof (induction x)
  case Nil
  then show ?case by (cases p) auto
next
  case (Cons d x)
  then show ?case using starts_with_across [OF Cons.prems(1), of "d # x" y] by simp
qed

lemma occurrences_absent: "hd p \<notin> set x \<Longrightarrow> p \<noteq> [] \<Longrightarrow> occurrences p (x @ y) = occurrences p y"
proof (induction x)
  case (Cons d x)
  then show ?case by (cases p) auto
qed simp

section \<open>\<open>str.replace\<close>\<close>

text \<open>\<open>s.replace(a, b)\<close> for a non-empty \<open>a\<close>: the leftmost occurrences that do not overlap.\<close>

function replace_all :: "string \<Rightarrow> string \<Rightarrow> string \<Rightarrow> string" where
  "replace_all a b [] = []"
| "replace_all a b (c # s) =
     (if a \<noteq> [] \<and> starts_with a (c # s) then b @ replace_all a b (drop (length a) (c # s))
      else c # replace_all a b s)"
  by pat_completeness auto
termination
proof (relation "measure (\<lambda>(a, b, s). length s)")
  fix a b :: string and c and s :: string assume "a \<noteq> [] \<and> starts_with a (c # s)"
  then show "((a, b, drop (length a) (c # s)), a, b, c # s) \<in> measure (\<lambda>(a, b, s). length s)" by (cases a) auto
qed auto

text \<open>Two texts that differ at a position both have.\<close>

fun clash :: "string \<Rightarrow> string \<Rightarrow> bool" where
  "clash (c # u) (d # v) = (c \<noteq> d \<or> clash u v)"
| "clash u v = False"

lemma clash_starts: "clash u v \<Longrightarrow> \<not> starts_with u (v @ z)"
  by (induction u v rule: clash.induct) auto

fun tails :: "string \<Rightarrow> string list" where
  "tails [] = []"
| "tails (c # s) = (c # s) # tails s"

lemma tails_self: "s \<noteq> [] \<Longrightarrow> s \<in> set (tails s)"
  by (cases s) auto

text \<open>
  What starts where a replacement starts did so before, if it clashes with the replacement.
\<close>

lemma starts_with_replaced:
  "list_all (\<lambda>w. clash w b) (tails w) \<Longrightarrow> starts_with w (replace_all a b s) \<Longrightarrow> starts_with w s"
proof (induction w arbitrary: s)
  case (Cons c w)
  show ?case
  proof (cases s)
    case Nil
    with Cons.prems(2) show ?thesis by simp
  next
    case (Cons d t)
    show ?thesis
    proof (cases "a \<noteq> [] \<and> starts_with a s")
      case True
      then have "starts_with (c # w) (b @ replace_all a b (drop (length a) s))"
        using Cons.prems(2) Cons by simp
      with Cons.prems(1) clash_starts show ?thesis by (metis list.pred_inject(2) tails.simps(2))
    next
      case False
      with Cons.prems(2) Cons have "d = c" "starts_with w (replace_all a b t)" by auto
      with Cons.IH Cons.prems(1) Cons show ?thesis by simp
    qed
  qed
qed simp

lemma contains_append:
  "list_all (\<lambda>v. clash p v) (tails b) \<Longrightarrow> contains p (b @ t) \<Longrightarrow> p \<noteq> [] \<Longrightarrow> contains p t"
proof (induction b)
  case (Cons c b)
  then have "\<not> starts_with p (c # b @ t)" using clash_starts [of p "c # b" t] by simp
  with Cons show ?case by simp
qed simp

lemma contains_drop: "contains p (drop n s) \<Longrightarrow> contains p s"
proof (induction s arbitrary: n)
  case (Cons c s)
  then show ?case by (cases n) auto
qed simp

text \<open>
  A marker does not occur after a replacement it clashes with: neither one the text does not have,
  nor the one replaced.
\<close>

lemma replaced_absent:
  assumes p: "p \<noteq> []" and w: "list_all (\<lambda>w. clash w b) (tails p)" and v: "list_all (\<lambda>v. clash p v) (tails b)"
  shows "a = p \<or> \<not> contains p s \<Longrightarrow> \<not> contains p (replace_all a b s)"
proof (induction "length s" arbitrary: s rule: less_induct)
  case less
  show ?case
  proof (cases s)
    case Nil
    with p show ?thesis by simp
  next
    case (Cons c t)
    show ?thesis
    proof (cases "a \<noteq> [] \<and> starts_with a s")
      case True
      let ?r = "replace_all a b (drop (length a) s)"
      have "a = p \<or> \<not> contains p (drop (length a) s)" using less.prems contains_drop by blast
      moreover have "length (drop (length a) s) < length s" using True Cons by (cases a) auto
      ultimately have "\<not> contains p ?r" by (rule less.hyps [rotated])
      then have "\<not> contains p (b @ ?r)" using contains_append [OF v _ p] by blast
      with True Cons show ?thesis by simp
    next
      case False
      have "\<not> contains p (replace_all a b t)" using less.hyps [of t] less.prems Cons by auto
      moreover have "\<not> starts_with p s" using less.prems False p Cons by auto
      then have "\<not> starts_with p (replace_all a b s)" using starts_with_replaced [OF w] by blast
      ultimately show ?thesis using False Cons by auto
    qed
  qed
qed

end
