(* ===== verification/PyScan.thy ===== *)
theory PyScan
  imports PyText
begin

text \<open>
  What the patterns of scanners match: literals, with and without regard to case, and the lazy
  repetition of any character; \<open>finditer\<close>; and the forward scan for a pair of delimiters that
  replaces a lazy pattern.
\<close>

section \<open>Literals and lazy repetitions\<close>

text \<open>Characters whose only other case is an upper one: \<open>re.I\<close> compares them by lower case.\<close>

definition caseless :: "char \<Rightarrow> bool" where
  "caseless c = (\<forall>x. (x = c \<or> lower_char x = c \<or> upper_char x = c) = (lower_char x = c))"

lemma matches_caseless:
  "list_all caseless w \<Longrightarrow>
     matches (ignore_case (rlit w)) (l, s, g) =
       (if starts_with w (lower s) then [(rev (take (length w) s) @ l, drop (length w) s, g)] else [])"
proof (induction w arbitrary: l s)
  case Nil
  then show ?case by (simp add: rlit_def)
next
  case (Cons c w)
  have eps: "matches REps = (\<lambda>p. [p])" by (rule ext) simp
  have "matches (ignore_case (rlit (c # w))) p = concat (map (matches (ignore_case (rlit w))) (matches (RSet (\<lambda>x. x = c \<or> lower_char x = c \<or> upper_char x = c)) p))" for p
    by (cases w) (simp_all add: rlit_def eps)
  moreover have "(x = c \<or> lower_char x = c \<or> upper_char x = c) = (lower_char x = c)" for x
    using Cons.prems by (simp add: caseless_def)
  ultimately show ?case using Cons by (cases s) (auto simp: lower_def)
qed

lemma lazy_any:
  assumes "\<And>l g. f (l, [], g) = []" "\<And>l c t g. f (l, c # t, g) = [(c # l, t, g)]"
  shows "length s \<le> n \<Longrightarrow> lazy_rounds n f (l, s, g) = map (\<lambda>k. (rev (take k s) @ l, drop k s, g)) [0..<Suc (length s)]"
proof (induction n arbitrary: l s)
  case (Suc n)
  show ?case
  proof (cases s)
    case Nil
    then show ?thesis by (simp add: assms)
  next
    case (Cons c t)
    then have "lazy_rounds (Suc n) f (l, s, g) = (l, s, g) # map (\<lambda>k. (rev (take k t) @ c # l, drop k t, g)) [0..<Suc (length t)]"
      using Suc.IH [of t "c # l"] Suc.prems by (simp add: assms)
    also have "[0..<Suc (length s)] = 0 # map Suc [0..<Suc (length t)]"
      using Cons by (metis length_Cons map_Suc_upt upt_conv_Cons zero_less_Suc)
    then have "(l, s, g) # map (\<lambda>k. (rev (take k t) @ c # l, drop k t, g)) [0..<Suc (length t)] =
        map (\<lambda>k. (rev (take k s) @ l, drop k s, g)) [0..<Suc (length s)]"
      using Cons by (simp add: comp_def del: upt_Suc)
    finally show ?thesis .
  qed
qed simp

lemma concat_find: "\<exists>rest. concat (map (\<lambda>k. if P k then [f k] else []) xs) = (case find P xs of None \<Rightarrow> [] | Some k \<Rightarrow> f k # rest)"
  by (induction xs) auto

lemma lower_drop: "lower (drop k s) = drop k (lower s)"
  by (simp add: lower_def drop_map)

lemma rlit_Cons: "matches (rlit (c # w)) p = matches (RSeq (RSet (\<lambda>x. x = c)) (rlit w)) p"
  by (cases w) (simp_all add: rlit_def split: prod.split list.split)

lemma matches_rlit:
  "matches (rlit w) (l, s, g) = (if starts_with w s then [(rev w @ l, drop (length w) s, g)] else [])"
proof (induction w arbitrary: l s)
  case Nil
  then show ?case by (simp add: rlit_def)
next
  case (Cons c w)
  show ?case unfolding rlit_Cons by (cases s) (simp_all add: Cons)
qed

lemma matches_lazy_any:
  "matches (RLazy rany) (l, s, g) = map (\<lambda>k. (rev (take k s) @ l, drop k s, g)) [0..<Suc (length s)]"
  unfolding matches.simps fst_conv snd_conv by (rule lazy_any) (simp_all add: rany_def)

text \<open>The lazy text grows until what follows it matches.\<close>

lemma matches_lazy_then:
  "matches (RSeq (RLazy rany) r) (l, s, g) = concat (map (\<lambda>k. matches r (rev (take k s) @ l, drop k s, g)) [0..<Suc (length s)])"
  by (simp only: matches.simps(3) matches_lazy_any map_map comp_def)

lemma concat_first:
  "k < n \<Longrightarrow> (\<And>i. i < k \<Longrightarrow> f i = []) \<Longrightarrow> f k = x # xs \<Longrightarrow> \<exists>ys. concat (map f [0..<n]) = x # ys"
proof -
  assume k: "k < n" and e: "\<And>i. i < k \<Longrightarrow> f i = []" and x: "f k = x # xs"
  have "[0..<n] = [0..<k] @ k # [Suc k..<n]" using k by (metis upt_add_eq_append upt_conv_Cons le0 less_imp_le le_add_diff_inverse2 le_add_diff_inverse)
  moreover have "concat (map f [0..<k]) = []" using e by simp
  ultimately have "concat (map f [0..<n]) = x # (xs @ concat (map f [Suc k..<n]))"
    using x by (simp only: map_append concat_append list.map concat.simps append_Nil append_Cons)
  then show ?thesis by blast
qed

section \<open>What a pattern passes over\<close>

text \<open>A relation between positions that every step of a matcher keeps is kept by its repetitions.\<close>

lemma rounds_rel:
  assumes "\<And>p. R p p" "\<And>p q r. R p q \<Longrightarrow> R q r \<Longrightarrow> R p r" "\<And>p q. q \<in> set (f p) \<Longrightarrow> R p q"
  shows "q \<in> set (rounds n hi f p) \<Longrightarrow> R p q"
proof (induction n arbitrary: hi p)
  case (Suc n)
  show ?case
  proof (cases "q = p")
    case False
    with Suc.prems obtain m where "m \<in> set (f p)" "q \<in> set (rounds n (map_option (\<lambda>h. h - 1) hi) f m)"
      by (auto simp del: split_paired_All split_paired_Ex simp: set_concat split: if_splits)
    with assms(2,3) Suc.IH show ?thesis by blast
  qed (simp add: assms(1))
qed (simp add: assms(1))

lemma times_rel:
  assumes "\<And>p. R p p" "\<And>p q r. R p q \<Longrightarrow> R q r \<Longrightarrow> R p r" "\<And>p q. q \<in> set (f p) \<Longrightarrow> R p q"
  shows "q \<in> set (times n f p) \<Longrightarrow> R p q"
proof (induction n arbitrary: p)
  case (Suc n)
  then obtain m where "m \<in> set (f p)" "q \<in> set (times n f m)" by (auto simp del: split_paired_Ex)
  with assms(2,3) Suc.IH show ?case by blast
qed (simp add: assms(1))

lemma lazy_rel:
  assumes "\<And>p. R p p" "\<And>p q r. R p q \<Longrightarrow> R q r \<Longrightarrow> R p r" "\<And>p q. q \<in> set (f p) \<Longrightarrow> R p q"
  shows "q \<in> set (lazy_rounds n f p) \<Longrightarrow> R p q"
proof (induction n arbitrary: p)
  case (Suc n)
  show ?case
  proof (cases "q = p")
    case False
    with Suc.prems obtain m where "m \<in> set (f p)" "q \<in> set (lazy_rounds n f m)"
      by (auto simp del: split_paired_All split_paired_Ex simp: set_concat split: if_splits)
    with assms(2,3) Suc.IH show ?thesis by blast
  qed (simp add: assms(1))
qed (simp add: assms(1))

text \<open>No set of the pattern has the character, so that no match consumes it.\<close>

primrec never :: "char \<Rightarrow> regex \<Rightarrow> bool" where
  "never c REps = True"
| "never c (RSet P) = (\<not> P c)"
| "never c (RSeq a b) = (never c a \<and> never c b)"
| "never c (RAlt a b) = (never c a \<and> never c b)"
| "never c (RRep lo hi a) = never c a"
| "never c (RLazy a) = never c a"
| "never c (RGroup a) = never c a"
| "never c RWordB = True"
| "never c RBegin = True"
| "never c RLineBegin = True"
| "never c REnd = True"
| "never c (RAhead P e) = True"
| "never c (RNotAhead P) = True"
| "never c (RNotBehind P) = True"
| "never c (RLook a) = True"

definition passes :: "char \<Rightarrow> pos \<Rightarrow> pos \<Rightarrow> bool" where
  "passes c p q \<longleftrightarrow> (\<exists>m. fst (snd p) = m @ fst (snd q) \<and> c \<notin> set m)"

lemma passes_refl: "passes c p p"
  by (simp add: passes_def)

lemma passes_trans: "passes c p q \<Longrightarrow> passes c q r \<Longrightarrow> passes c p r"
  unfolding passes_def by fastforce

lemma never_passes: "never c r \<Longrightarrow> q \<in> set (matches r p) \<Longrightarrow> passes c p q"
proof (induction r arbitrary: p q)
  case (RSeq a b)
  then obtain m where "m \<in> set (matches a p)" "q \<in> set (matches b m)" by (auto simp del: split_paired_Ex)
  with RSeq show ?case using passes_trans [of c p m q] by simp
next
  case (RRep lo hi a)
  then have a: "\<And>p q. q \<in> set (matches a p) \<Longrightarrow> passes c p q" by simp
  from RRep obtain m where m: "m \<in> set (times lo (matches a) p)"
    and q: "q \<in> set (rounds (Suc (length (fst (snd m)))) (map_option (\<lambda>h. h - lo) hi) (matches a) m)"
    by (auto simp del: split_paired_Ex rounds.simps)
  note R = passes_refl passes_trans a
  from times_rel [of "passes c", OF R m] rounds_rel [of "passes c", OF R q] show ?case by (rule passes_trans)
next
  case (RLazy a)
  then have a: "\<And>p q. q \<in> set (matches a p) \<Longrightarrow> passes c p q" by simp
  from RLazy.prems(2) have q: "q \<in> set (lazy_rounds (Suc (length (fst (snd p)))) (matches a) p)" by (simp del: lazy_rounds.simps)
  note R = passes_refl passes_trans a
  show ?case by (rule lazy_rel [of "passes c", OF R q])
next
  case (RGroup a)
  then obtain l r g where "(l, r, g) \<in> set (matches a p)" "fst (snd q) = r" by auto
  then show ?case using RGroup.IH [of "(l, r, g)" p] RGroup.prems(1) by (simp add: passes_def)
next
  case (RSet P)
  then obtain d rest where "fst (snd p) = d # rest" "P d" "fst (snd q) = rest"
    by (cases p; cases "fst (snd p)") (auto split: if_splits)
  then have "fst (snd p) = [d] @ fst (snd q)" "c \<notin> set [d]" using RSet.prems(1) by auto
  then show ?case unfolding passes_def by blast
next
  case (RAlt a b)
  then show ?case by (simp, blast)
qed (simp_all add: passes_refl split: list.splits if_splits)

text \<open>The group passes through a pattern that does not capture: the positions do not depend on it.\<close>

definition level :: "pos list \<Rightarrow> pos list \<Rightarrow> bool" where
  "level ps qs \<longleftrightarrow> list_all2 (\<lambda>p q. fst p = fst q \<and> fst (snd p) = fst (snd q)) ps qs"

lemma level_simps [simp]:
  "level [] []" "level [p] [q] = (fst p = fst q \<and> fst (snd p) = fst (snd q))" "\<not> level [] (q # qs)" "\<not> level (p # ps) []"
  "level (p # ps) (q # qs) = (fst p = fst q \<and> fst (snd p) = fst (snd q) \<and> level ps qs)"
  by (simp_all add: level_def)

lemma level_append: "level ps qs \<Longrightarrow> level ps' qs' \<Longrightarrow> level (ps @ ps') (qs @ qs')"
  unfolding level_def by (rule list_all2_appendI)

lemma level_concat:
  assumes "\<And>p q. level [p] [q] \<Longrightarrow> level (f p) (h q)"
  shows "level ps qs \<Longrightarrow> level (concat (map f ps)) (concat (map h qs))"
  unfolding level_def
proof (induction rule: list_all2_induct)
  case (Cons p ps q qs)
  then have "level (f p) (h q)" by (intro assms) simp
  with Cons.IH show ?case by (auto simp: level_def intro: list_all2_appendI)
qed simp

lemma level_rounds:
  assumes "\<And>p q. level [p] [q] \<Longrightarrow> level (f p) (f q)"
  shows "level [p] [q] \<Longrightarrow> level (rounds n hi f p) (rounds n hi f q)"
proof (induction n arbitrary: hi p q)
  case (Suc n)
  let ?h = "\<lambda>p m. if length (fst (snd m)) < length (fst (snd p)) then rounds n (map_option (\<lambda>h. h - 1) hi) f m else []"
  have h: "\<And>x y. level [x] [y] \<Longrightarrow> level (?h p x) (?h q y)" using Suc by simp
  have "level (concat (map (?h p) (f p))) (concat (map (?h q) (f q)))"
    by (rule level_concat [OF h assms [OF Suc.prems]])
  with Suc.prems show ?case by (cases "hi = Some 0") (simp_all add: level_append)
qed simp

lemma level_lazy:
  assumes "\<And>p q. level [p] [q] \<Longrightarrow> level (f p) (f q)"
  shows "level [p] [q] \<Longrightarrow> level (lazy_rounds n f p) (lazy_rounds n f q)"
proof (induction n arbitrary: p q)
  case (Suc n)
  let ?h = "\<lambda>p m. if length (fst (snd m)) < length (fst (snd p)) then lazy_rounds n f m else []"
  have h: "\<And>x y. level [x] [y] \<Longrightarrow> level (?h p x) (?h q y)" using Suc by simp
  have "level (concat (map (?h p) (f p))) (concat (map (?h q) (f q)))"
    by (rule level_concat [OF h assms [OF Suc.prems]])
  with Suc.prems show ?case by simp
qed simp

lemma level_times:
  assumes "\<And>p q. level [p] [q] \<Longrightarrow> level (f p) (f q)"
  shows "level [p] [q] \<Longrightarrow> level (times n f p) (times n f q)"
proof (induction n arbitrary: p q)
  case (Suc n)
  then show ?case using level_concat [OF Suc.IH assms [OF Suc.prems]] by simp
qed simp

lemma matches_level: "level [p] [q] \<Longrightarrow> level (matches r p) (matches r q)"
proof (induction r arbitrary: p q)
  case (RSeq a b)
  have "level (concat (map (matches b) (matches a p))) (concat (map (matches b) (matches a q)))"
    by (rule level_concat [OF RSeq.IH(2) RSeq.IH(1) [OF RSeq.prems]])
  then show ?case by simp
next
  case (RAlt a b)
  then show ?case by (simp add: level_append)
next
  case (RRep lo hi a)
  let ?h = "\<lambda>q. rounds (Suc (length (fst (snd q)))) (map_option (\<lambda>h. h - lo) hi) (matches a) q"
  have "level (?h x) (?h y)" if "level [x] [y]" for x y
    using that level_rounds [of "matches a", OF RRep.IH that] by (simp del: rounds.simps)
  from level_concat [OF this level_times [of "matches a", OF RRep.IH RRep.prems]]
  have "level (concat (map ?h (times lo (matches a) p))) (concat (map ?h (times lo (matches a) q)))" .
  then show ?case by simp
next
  case (RLazy a)
  then show ?case using level_lazy [of "matches a", OF RLazy.IH RLazy.prems] by (simp del: lazy_rounds.simps)
next
  case (RGroup a)
  have "level (map (\<lambda>(l, r, g). (l, r, G r)) ps) (map (\<lambda>(l, r, g). (l, r, H r)) qs)" if "level ps qs" for G H ps qs
    using that unfolding level_def by (induction rule: list_all2_induct) auto
  with RGroup show ?case by simp
next
  case (RLook a)
  have "level ps qs \<Longrightarrow> (ps = []) = (qs = [])" for ps qs by (auto simp: level_def)
  with RLook.IH [OF RLook.prems] have "(matches a p = []) = (matches a q = [])" by blast
  with RLook.prems show ?case by simp
qed (auto simp: level_def split: list.splits prod.splits)

lemma matches_group_free: "map (\<lambda>q. (fst q, fst (snd q))) (matches r (l, s, g)) = map (\<lambda>q. (fst q, fst (snd q))) (matches r (l, s, h))"
proof -
  have "level ps qs \<Longrightarrow> map (\<lambda>q. (fst q, fst (snd q))) ps = map (\<lambda>q. (fst q, fst (snd q))) qs" for ps qs
    unfolding level_def by (induction rule: list_all2_induct) auto
  moreover have "level (matches r (l, s, g)) (matches r (l, s, h))" by (rule matches_level) simp
  ultimately show ?thesis by blast
qed

section \<open>\<open>finditer\<close>\<close>

abbreviation unread :: "pos \<Rightarrow> string" where
  "unread p \<equiv> fst (snd p)"

text \<open>The text between two positions, and what the group of a match holds.\<close>

definition between :: "pos \<Rightarrow> pos \<Rightarrow> string" where
  "between p q = take (length (unread p) - length (unread q)) (unread p)"

definition captured :: "pos \<Rightarrow> string" where
  "captured q = (case snd (snd q) of None \<Rightarrow> [] | Some g \<Rightarrow> g)"

text \<open>The matches that do not overlap, of a pattern that matches no empty text.\<close>

function finditer_from :: "regex \<Rightarrow> string \<Rightarrow> string \<Rightarrow> (pos \<times> pos) list" where
  "finditer_from r l s =
     (case search_from r l s of
        None \<Rightarrow> []
      | Some (p, q) \<Rightarrow> if length (unread q) < length s then (p, q) # finditer_from r (fst q) (unread q) else [])"
  by pat_completeness auto
termination by (relation "measure (\<lambda>(r, l, s). length s)") auto

declare finditer_from.simps [simp del]

definition re_finditer :: "regex \<Rightarrow> string \<Rightarrow> (pos \<times> pos) list" where
  "re_finditer r s = finditer_from r [] s"

section \<open>The forward scan for delimiters\<close>

text \<open>Where the opener starts and ends, and where the closer starts and ends.\<close>

type_synonym span = "pos \<times> pos \<times> pos \<times> pos"

function iter_delimited :: "regex \<Rightarrow> regex \<Rightarrow> string \<Rightarrow> string \<Rightarrow> span list" where
  "iter_delimited op cl l s =
     (case search_from op l s of
        None \<Rightarrow> []
      | Some (a, b) \<Rightarrow>
          (case search_from cl (fst b) (unread b) of
             None \<Rightarrow> []
           | Some (c, d) \<Rightarrow> if length (unread d) < length s then (a, b, c, d) # iter_delimited op cl (fst d) (unread d) else []))"
  by pat_completeness auto
termination by (relation "measure (\<lambda>(op, cl, l, s). length s)") auto

declare iter_delimited.simps [simp del]

fun cut_spans :: "pos \<Rightarrow> span list \<Rightarrow> string" where
  "cut_spans p [] = unread p"
| "cut_spans p ((a, b, c, d) # spans) = between p a @ cut_spans d spans"

definition strip_delimited :: "regex \<Rightarrow> regex \<Rightarrow> string \<Rightarrow> string" where
  "strip_delimited op cl s = cut_spans ([], s, None) (iter_delimited op cl [] s)"

section \<open>The forward scan is the lazy pattern\<close>

lemma search_from_SomeD:
  "search_from r l s = Some (p, q) \<Longrightarrow>
     \<exists>u v ms. s = u @ v \<and> p = (rev u @ l, v, None) \<and> matches r p = q # ms"
proof (induction s arbitrary: l)
  case Nil
  then show ?case by (subst (asm) search_from.simps) (auto split: list.splits)
next
  case (Cons c s)
  show ?case
  proof (cases "matches r (l, c # s, None)")
    case (Cons m ms)
    with Cons.prems have "Some ((l, c # s, None), m) = Some (p, q)" by (simp add: search_from.simps [of r l "c # s"])
    with Cons show ?thesis by (intro exI [of _ "[]"] exI [of _ "c # s"] exI [of _ ms]) auto
  next
    case Nil
    with Cons.prems have "search_from r (c # l) s = Some (p, q)" by (simp add: search_from.simps [of r l "c # s"])
    from Cons.IH [OF this] obtain u v ms where "s = u @ v" "p = (rev u @ c # l, v, None)" "matches r p = q # ms" by blast
    then show ?thesis by (intro exI [of _ "c # u"] exI [of _ v] exI [of _ ms]) simp
  qed
qed

lemma search_from_None_iff: "search_from r l s = None \<longleftrightarrow> (\<forall>a b. s = a @ b \<longrightarrow> matches r (rev a @ l, b, None) = [])"
  using search_from_iff [of r l s] by blast

lemma matches_group_empty: "(matches r (l, s, g) = []) = (matches r (l, s, h) = [])"
  using arg_cong [OF matches_group_free [of r l s g h], of length] by (simp flip: length_0_conv)

text \<open>The lazy text before a closer ends where a search for the closer finds it.\<close>

definition after_lazy :: "regex \<Rightarrow> pos \<Rightarrow> pos list" where
  "after_lazy r p = matches (RSeq (RLazy rany) r) p"

lemma after_lazy_Nil: "after_lazy r (l, [], g) = matches r (l, [], g)"
  unfolding after_lazy_def matches_lazy_then by simp

lemma after_lazy_Cons: "after_lazy r (l, x # s, g) = matches r (l, x # s, g) @ after_lazy r (x # l, s, g)"
proof -
  have "[0..<Suc (length (x # s))] = 0 # map Suc [0..<Suc (length s)]"
    by (metis length_Cons map_Suc_upt upt_conv_Cons zero_less_Suc)
  then show ?thesis unfolding after_lazy_def matches_lazy_then by (simp add: comp_def del: upt_Suc)
qed

lemma lazy_head:
  "case search_from cl l s of
     None \<Rightarrow> after_lazy cl (l, s, g) = []
   | Some (c, d) \<Rightarrow> \<exists>d' ms. after_lazy cl (l, s, g) = d' # ms \<and> fst d' = fst d \<and> unread d' = unread d"
proof (induction s arbitrary: l)
  case Nil
  show ?case
  proof (cases "matches cl (l, [], None)")
    case Nil
    then have "matches cl (l, [], g) = []" using matches_group_empty by blast
    with Nil show ?thesis by (simp add: search_from.simps [of cl l "[]"] after_lazy_Nil)
  next
    case (Cons d ds)
    moreover obtain d' ds' where "matches cl (l, [], g) = d' # ds'" "fst d' = fst d" "unread d' = unread d"
      using matches_group_free [of cl l "[]" None g] Cons by (auto simp: map_eq_Cons_conv Cons_eq_map_conv)
    ultimately show ?thesis by (simp add: search_from.simps [of cl l "[]"] after_lazy_Nil)
  qed
next
  case (Cons x s)
  show ?case
  proof (cases "matches cl (l, x # s, None)")
    case Nil
    then have "matches cl (l, x # s, g) = []" using matches_group_empty by blast
    with Nil Cons.IH [of "x # l"] show ?thesis
      by (cases "search_from cl (x # l) s") (auto simp: search_from.simps [of cl l "x # s"] after_lazy_Cons)
  next
    case (Cons d ds)
    moreover obtain d' ds' where "matches cl (l, x # s, g) = d' # ds'" "fst d' = fst d" "unread d' = unread d"
      using matches_group_free [of cl l "x # s" None g] Cons by (auto simp: map_eq_Cons_conv Cons_eq_map_conv)
    ultimately show ?thesis by (simp add: search_from.simps [of cl l "x # s"] after_lazy_Cons)
  qed
qed

text \<open>No closer starts inside an opener, and an opener is not empty.\<close>

definition delimits :: "regex \<Rightarrow> regex \<Rightarrow> bool" where
  "delimits op cl \<longleftrightarrow>
     (\<forall>l s q. q \<in> set (matches op (l, s, None)) \<longrightarrow> length (unread q) < length s \<and>
        (\<forall>u v. s = u @ v @ unread q \<and> u \<noteq> [] \<and> v \<noteq> [] \<longrightarrow> matches cl (rev u @ l, v @ unread q, None) = []))"

lemma no_closer_ahead:
  assumes "delimits op cl" "q \<in> set (matches op (l, s, None))" "search_from cl (fst q) (unread q) = None" "s = u @ v" "u \<noteq> []"
  shows "matches cl (rev u @ l, v, None) = []"
proof -
  obtain m where m: "s = m @ unread q" "fst q = rev m @ l" using matches_advances [OF assms(2)] by (auto simp: advances_def)
  with assms(4) obtain w where "m = u @ w \<and> w @ unread q = v \<or> u = m @ w \<and> unread q = w @ v"
    by (auto simp: append_eq_append_conv2)
  then consider (inside) "m = u @ w" "w @ unread q = v" "w \<noteq> []" | (behind) w where "u = m @ w" "unread q = w @ v"
    by (cases "w = []") auto
  then show ?thesis
  proof cases
    case inside
    then have "s = u @ w @ unread q" "w \<noteq> []" using m by simp_all
    with assms(1,2,5) inside(2) show ?thesis unfolding delimits_def by blast
  next
    case behind
    then have "matches cl (rev w @ fst q, v, None) = []" using assms(3) unfolding search_from_None_iff by blast
    with behind m show ?thesis by simp
  qed
qed

abbreviation lazily :: "regex \<Rightarrow> regex \<Rightarrow> regex" where
  "lazily op cl \<equiv> RSeq op (RSeq (RLazy rany) cl)"

lemma matches_lazily: "matches (lazily op cl) p = concat (map (after_lazy cl) (matches op p))"
  by (simp only: matches.simps(3) [of op] after_lazy_def [abs_def])

lemma lazily_closes:
  "matches (lazily op cl) (l, s, None) \<noteq> [] \<Longrightarrow> delimits op cl \<Longrightarrow> \<exists>u v. s = u @ v \<and> u \<noteq> [] \<and> matches cl (rev u @ l, v, None) \<noteq> []"
proof -
  assume "matches (lazily op cl) (l, s, None) \<noteq> []" and d: "delimits op cl"
  then obtain q where q: "q \<in> set (matches op (l, s, None))" "after_lazy cl q \<noteq> []"
    by (auto simp: matches_lazily simp del: matches.simps)
  obtain l' s' g' where q': "q = (l', s', g')" by (cases q)
  with q(2) lazy_head [of cl l' s' g'] have "search_from cl l' s' \<noteq> None" by (cases "search_from cl l' s'") auto
  then obtain a b where "s' = a @ b" "matches cl (rev a @ l', b, None) \<noteq> []" unfolding search_from_None_iff by blast
  moreover obtain m where "s = m @ s'" "l' = rev m @ l" "m \<noteq> []"
  proof -
    obtain m where m: "s = m @ s'" "l' = rev m @ l" using matches_advances [OF q(1)] q' by (auto simp: advances_def)
    moreover have "length s' < length s" using d q(1) q' unfolding delimits_def by fastforce
    ultimately show thesis using that by (cases "m = []") auto
  qed
  ultimately show ?thesis by (intro exI [of _ "m @ a"] exI [of _ b]) simp
qed

lemma search_lazily:
  assumes "delimits op cl"
  shows "(case search_from (lazily op cl) l s of None \<Rightarrow> None | Some (p, q) \<Rightarrow> Some (p, fst q, unread q)) =
     (case search_from op l s of
        None \<Rightarrow> None
      | Some (a, b) \<Rightarrow> (case search_from cl (fst b) (unread b) of None \<Rightarrow> None | Some (c, d) \<Rightarrow> Some (a, fst d, unread d)))"
proof (induction s arbitrary: l)
  case Nil
  have "matches op (l, [], None) = []" using assms unfolding delimits_def by (metis length_greater_0_conv list.set_intros(1) not_less_zero neq_Nil_conv list.size(3))
  then show ?case by (simp add: search_from.simps [of _ _ "[]"])
next
  case (Cons x s)
  show ?case
  proof (cases "matches op (l, x # s, None)")
    case Nil
    then have "matches (lazily op cl) (l, x # s, None) = []" by (simp add: matches_lazily del: matches.simps)
    with Nil Cons.IH show ?thesis by (simp add: search_from.simps [of _ _ "x # s"] del: matches.simps)
  next
    case (Cons q qs)
    then have op: "search_from op l (x # s) = Some ((l, x # s, None), q)" by (simp add: search_from.simps [of _ _ "x # s"])
    have m: "matches (lazily op cl) (l, x # s, None) =
        after_lazy cl q @ concat (map (after_lazy cl) qs)"
      by (simp add: matches_lazily Cons del: matches.simps)
    obtain l' s' g' where q: "q = (l', s', g')" by (cases q)
    show ?thesis
    proof (cases "search_from cl l' s'")
      case None
      have "q \<in> set (matches op (l, x # s, None))" using Cons by simp
      with None q have ahead: "matches cl (rev u @ l, v, None) = []" if "x # s = u @ v" "u \<noteq> []" for u v
        using no_closer_ahead [OF assms, of q l "x # s" u v] that by simp
      have "search_from (lazily op cl) l (x # s) = None" unfolding search_from_None_iff
      proof (intro allI impI)
        fix a b assume ab: "x # s = a @ b"
        show "matches (lazily op cl) (rev a @ l, b, None) = []"
        proof (rule ccontr)
          assume "matches (lazily op cl) (rev a @ l, b, None) \<noteq> []"
          from lazily_closes [OF this assms] obtain u v where "b = u @ v" "u \<noteq> []" "matches cl (rev u @ rev a @ l, v, None) \<noteq> []" by blast
          with ahead [of "a @ u" v] ab show False by simp
        qed
      qed
      with op None q show ?thesis by simp
    next
      case (Some cd)
      then obtain c d where cd: "search_from cl l' s' = Some (c, d)" by (cases cd) simp
      with lazy_head [of cl l' s' g'] q obtain d' ms where "after_lazy cl q = d' # ms" "fst d' = fst d" "unread d' = unread d" by auto
      with m have "search_from (lazily op cl) l (x # s) = Some ((l, x # s, None), d')"
        by (simp add: search_from.simps [of _ _ "x # s"] del: matches.simps)
      with op cd q \<open>fst d' = fst d\<close> \<open>unread d' = unread d\<close> show ?thesis by simp
    qed
  qed
qed

lemma search_rest_le: "search_from r l s = Some (p, q) \<Longrightarrow> length (unread q) \<le> length (unread p) \<and> length (unread p) \<le> length s"
proof -
  assume "search_from r l s = Some (p, q)"
  from search_from_SomeD [OF this] obtain u v ms where "s = u @ v" "p = (rev u @ l, v, None)" "matches r p = q # ms" by blast
  moreover have "q \<in> set (matches r p)" using \<open>matches r p = q # ms\<close> by simp
  ultimately show ?thesis using matches_rest_length [of q r p] by simp
qed

lemma opener_progress:
  assumes "delimits op cl" "search_from op l s = Some (a, b)"
  shows "length (unread b) < length s"
proof -
  from search_from_SomeD [OF assms(2)] obtain u v ms where "s = u @ v" "a = (rev u @ l, v, None)" "matches op a = b # ms" by blast
  with assms(1) have "length (unread b) < length v" unfolding delimits_def by (metis list.set_intros(1))
  with \<open>s = u @ v\<close> show ?thesis by simp
qed

lemma iter_delimited_unfold:
  assumes "delimits op cl"
  shows "iter_delimited op cl l s =
    (case search_from op l s of
       None \<Rightarrow> []
     | Some (a, b) \<Rightarrow>
         (case search_from cl (fst b) (unread b) of None \<Rightarrow> [] | Some (c, d) \<Rightarrow> (a, b, c, d) # iter_delimited op cl (fst d) (unread d)))"
proof -
  have "length (unread d) < length s" if "search_from op l s = Some (a, b)" "search_from cl (fst b) (unread b) = Some (c, d)" for a b c d
    using opener_progress [OF assms that(1)] search_rest_le [OF that(2)] by linarith
  then show ?thesis by (subst iter_delimited.simps) (auto split: option.splits)
qed

text \<open>The spans are those of the lazy pattern.\<close>

lemma iter_delimited_spans:
  assumes "delimits op cl"
  shows "map (\<lambda>(p, q). (p, fst q, unread q)) (finditer_from (lazily op cl) l s) = map (\<lambda>(a, b, c, d). (a, fst d, unread d)) (iter_delimited op cl l s)"
proof (induction "length s" arbitrary: l s rule: less_induct)
  case less
  show ?case
  proof (cases "search_from (lazily op cl) l s")
    case None
    with search_lazily [OF assms, of l s] have "iter_delimited op cl l s = []"
      by (subst iter_delimited_unfold [OF assms]) (auto split: option.splits)
    with None show ?thesis by (simp add: finditer_from.simps [of _ l s])
  next
    case (Some pq)
    obtain p q where pq: "pq = (p, q)" by (cases pq)
    with Some search_lazily [OF assms, of l s] obtain b c d where op: "search_from op l s = Some (p, b)"
      and cl: "search_from cl (fst b) (unread b) = Some (c, d)" and d: "fst q = fst d" "unread q = unread d"
      by (auto split: option.splits)
    have lt: "length (unread d) < length s" using opener_progress [OF assms op] search_rest_le [OF cl] by linarith
    show ?thesis
      using less.hyps [OF lt, of "fst d"] Some pq op cl d lt
      by (simp add: finditer_from.simps [of _ l s] iter_delimited_unfold [OF assms, of l s])
  qed
qed

lemma between_Cons: "length (unread p) \<le> length t \<Longrightarrow> between (l, c # t, g) p = c # between (l', t, g') p"
  by (simp add: between_def Suc_diff_le)

lemma between_self: "between p p = []" "between (l, s, g) (l', s, g') = []"
  by (simp_all add: between_def)

lemma between_rest: "unread p = unread p' \<Longrightarrow> between p q = between p' q"
  by (simp add: between_def)

lemma cut_spans_rest: "unread p = unread p' \<Longrightarrow> cut_spans p spans = cut_spans p' spans"
  by (cases spans) (auto simp: between_def)

lemma strip_step:
  assumes "delimits op cl" "matches (lazily op cl) (l, s, None) = []"
  shows "cut_spans (l, s, None) (iter_delimited op cl l s) =
    (case s of [] \<Rightarrow> [] | c # t \<Rightarrow> c # cut_spans (c # l, t, None) (iter_delimited op cl (c # l) t))"
proof (cases s)
  case Nil
  with assms(2) have "search_from (lazily op cl) l s = None" by (simp add: search_from.simps [of _ l "[]"] del: matches.simps)
  with search_lazily [OF assms(1), of l s] Nil have "iter_delimited op cl l s = []"
    by (subst iter_delimited_unfold [OF assms(1)]) (auto split: option.splits)
  with Nil show ?thesis by simp
next
  case (Cons c t)
  with assms(2) have s: "search_from (lazily op cl) l s = search_from (lazily op cl) (c # l) t"
    by (simp add: search_from.simps [of _ l "c # t"] del: matches.simps)
  let ?S = "\<lambda>l s. case search_from op l s of None \<Rightarrow> None
    | Some (a, b) \<Rightarrow> (case search_from cl (fst b) (unread b) of None \<Rightarrow> None | Some (c, d) \<Rightarrow> Some (a, fst d, unread d))"
  have S: "?S l s = ?S (c # l) t" using s search_lazily [OF assms(1)] by metis
  have cut: "cut_spans (l, s, None) (iter_delimited op cl l s) =
      (case ?S l s of None \<Rightarrow> s | Some (a, l', s') \<Rightarrow> between (l, s, None) a @ cut_spans (l', s', None) (iter_delimited op cl l' s'))" for l s
  proof -
    have d: "cut_spans (l, s, g) spans = cut_spans (l, s, None) spans" for l s g spans by (rule cut_spans_rest) simp
    show ?thesis by (subst iter_delimited_unfold [OF assms(1)], auto split: option.split, rule d)
  qed
  show ?thesis
  proof (cases "?S (c # l) t")
    case None
    with S cut Cons show ?thesis by simp
  next
    case (Some x)
    obtain a l' s' where x: "x = (a, l', s')" by (cases x)
    from Some x obtain b where "search_from op (c # l) t = Some (a, b)" by (auto split: option.splits)
    then have "length (unread a) \<le> length t" using search_rest_le by blast
    then have "between (l, c # t, None) a = c # between (c # l, t, None) a" by (rule between_Cons)
    from S Some have "?S l s = Some x" by (rule trans)
    then have "cut_spans (l, s, None) (iter_delimited op cl l s) = between (l, s, None) a @ cut_spans (l', s', None) (iter_delimited op cl l' s')"
      unfolding cut [of l s] by (simp only: x option.case prod.case)
    moreover have "cut_spans (c # l, t, None) (iter_delimited op cl (c # l) t) = between (c # l, t, None) a @ cut_spans (l', s', None) (iter_delimited op cl l' s')"
      unfolding cut [of "c # l" t] Some by (simp only: x option.case prod.case)
    ultimately show ?thesis using Cons \<open>between (l, c # t, None) a = c # between (c # l, t, None) a\<close> by simp
  qed
qed

lemma strip_match:
  assumes "delimits op cl" "matches (lazily op cl) (l, s, None) = q # qs"
  shows "cut_spans (l, s, None) (iter_delimited op cl l s) = cut_spans (fst q, unread q, None) (iter_delimited op cl (fst q) (unread q))"
    "length (unread q) < length s"
proof -
  have "search_from (lazily op cl) l s = Some ((l, s, None), q)" using assms(2) by (simp add: search_from.simps [of _ l s] del: matches.simps)
  with search_lazily [OF assms(1), of l s] obtain b c d where op: "search_from op l s = Some ((l, s, None), b)"
    and cl: "search_from cl (fst b) (unread b) = Some (c, d)" and d: "fst q = fst d" "unread q = unread d"
    by (auto split: option.splits)
  then show "cut_spans (l, s, None) (iter_delimited op cl l s) = cut_spans (fst q, unread q, None) (iter_delimited op cl (fst q) (unread q))"
    by (simp add: iter_delimited_unfold [OF assms(1), of l s] between_self cut_spans_rest [of d "(fst d, unread d, None)"])
  show "length (unread q) < length s" using opener_progress [OF assms(1) op] search_rest_le [OF cl] d by simp
qed

lemma sub_lazily:
  assumes "delimits op cl"
  shows "length s < n \<Longrightarrow> sub_from n (lazily op cl) (\<lambda>_. []) l s = cut_spans (l, s, None) (iter_delimited op cl l s)"
proof (induction n arbitrary: l s)
  case (Suc n)
  show ?case
  proof (cases "matches (lazily op cl) (l, s, None)")
    case Nil
    with strip_step [OF assms Nil] Suc show ?thesis by (cases s) (simp_all del: matches.simps)
  next
    case (Cons q qs)
    obtain l' s' g' where q: "q = (l', s', g')" by (cases q)
    from strip_match [OF assms Cons] q Suc.IH [of s' l'] Suc.prems Cons show ?thesis by (simp del: matches.simps)
  qed
qed simp

lemma strip_delimited_is_sub:
  "delimits op cl \<Longrightarrow> strip_delimited op cl s = re_sub (lazily op cl) (\<lambda>_. []) s"
  unfolding strip_delimited_def re_sub_def by (rule sub_lazily [symmetric]) simp_all

section \<open>Delimiters\<close>

text \<open>A pair whose closer starts with a character that its opener has at most as its first one.\<close>

lemma delimitsI:
  assumes "never x r" "\<And>l d t. d \<noteq> x \<Longrightarrow> matches cl (l, d # t, None) = []"
  shows "delimits (RSeq (RSet P) r) cl"
  unfolding delimits_def
proof (intro allI impI conjI)
  fix l s q assume "q \<in> set (matches (RSeq (RSet P) r) (l, s, None))"
  then obtain c t where s: "s = c # t" and q: "q \<in> set (matches r (c # l, t, None))"
    by (auto split: list.splits if_splits)
  from never_passes [OF assms(1) q] obtain m where m: "t = m @ unread q" "x \<notin> set m" by (auto simp: passes_def)
  then show "length (unread q) < length s" using s by simp
  fix u v assume "s = u @ v @ unread q \<and> u \<noteq> [] \<and> v \<noteq> []"
  with s m obtain d v' where v: "v = d # v'" "d \<in> set m" by (cases u; cases v) auto
  with m assms(2) [of d "rev u @ l" "v' @ unread q"] show "matches cl (rev u @ l, v @ unread q, None) = []" by auto
qed

lemma starts_with_set:
  "\<not> P d \<Longrightarrow> matches (RSeq (RSet P) r) (l, d # t, g) = []"
  by simp

end
