(* ===== verification/LlmStream.thy ===== *)
theory LlmStream
  imports PyScan
begin

text \<open>
  The stream side of \<open>src/llm_core.py\<close>: the router of harmony channels, the guard against a stream
  that collapses into repetition, and the fallback chains. A stream of a model is the list of its
  chunks; \<open>json.loads\<close> and the calls of the candidates are parameters, and a chunk that
  \<open>json.loads\<close> accepts is an object, as \<open>stream_llm\<close> writes it.
\<close>

section \<open>Harmony markers\<close>

definition HARMONY_MARKER :: regex where
  "HARMONY_MARKER = ralt
     [RSeq (rlit ''<|channel|>'') (RGroup (rwords [''analysis'', ''commentary'', ''final''])),
      RSeq (rlit ''<|start|>'') (ropt (rwords [''assistant'', ''system'', ''user'', ''tool''])),
      rlit ''<|message|>'', rlit ''<|end|>'', rlit ''<|return|>'', rlit ''<|call|>'']"

definition HARMONY_MARKERS :: "string list" where
  "HARMONY_MARKERS = [''<|channel|>analysis'', ''<|channel|>commentary'', ''<|channel|>final'',
     ''<|start|>assistant'', ''<|start|>system'', ''<|start|>user'', ''<|start|>tool'', ''<|start|>'',
     ''<|message|>'', ''<|end|>'', ''<|return|>'', ''<|call|>'']"

definition HARMONY_MAX_MARKER_LEN :: nat where
  "HARMONY_MAX_MARKER_LEN = foldr max (map length HARMONY_MARKERS) 0"

text \<open>The longest tail that could be the start of a marker, tried from the longest down.\<close>

definition harmony_suffix_hold_len :: "string \<Rightarrow> nat" where
  "harmony_suffix_hold_len text =
     (let limit = min (length text) (HARMONY_MAX_MARKER_LEN - 1)
      in case find (\<lambda>n. list_ex (starts_with (drop (length text - n) text)) HARMONY_MARKERS) (rev [1..<Suc limit]) of
           Some n \<Rightarrow> n | None \<Rightarrow> 0)"

section \<open>The router\<close>

record router =
  hr_buf :: string
  hr_seen :: bool
  hr_channel :: "string option"
  hr_in :: bool

definition new_router :: router where
  "new_router = \<lparr>hr_buf = [], hr_seen = False, hr_channel = None, hr_in = False\<rparr>"

definition append_text :: "router \<Rightarrow> string \<Rightarrow> (string \<times> bool) list" where
  "append_text st text =
     (if text = [] then []
      else if \<not> hr_seen st then [(text, False)]
      else if hr_in st then [(text, hr_channel st = Some ''analysis'' \<or> hr_channel st = Some ''commentary'')]
      else [])"

definition handle_marker :: "string \<Rightarrow> string option \<Rightarrow> router \<Rightarrow> router" where
  "handle_marker marker grp st0 =
     (let st = st0\<lparr>hr_seen := True\<rparr> in
      if starts_with ''<|channel|>'' marker then st\<lparr>hr_channel := grp, hr_in := False\<rparr>
      else if marker = ''<|message|>'' then st\<lparr>hr_in := True\<rparr>
      else let st = st\<lparr>hr_in := False\<rparr> in
           if marker \<in> {''<|end|>'', ''<|return|>'', ''<|call|>''} then st\<lparr>hr_channel := None\<rparr> else st)"

lemma marker_consumes: "avoids [] HARMONY_MARKER"
  by (simp add: HARMONY_MARKER_def rlit_def)

text \<open>A match of the pattern leaves less than there was.\<close>

lemma search_end_shorter:
  "search_from r l s = Some (p, q) \<Longrightarrow> avoids [] r \<Longrightarrow> length (fst (snd q)) < length s"
proof (induction r l s rule: search_from.induct)
  case (1 r l s)
  show ?case
  proof (cases "matches r (l, s, None)")
    case (Cons m ms)
    with "1.prems" have "q = m" by (simp add: search_from.simps [of r l s])
    with Cons have "q \<in> set (matches r (l, s, None))" by simp
    from avoids_consumes [OF "1.prems"(2) this] show ?thesis by (auto simp: consumes_other_def)
  next
    case Nil
    with "1.prems" obtain c t where "s = c # t" "search_from r (c # l) t = Some (p, q)"
      by (auto simp: search_from.simps [of r l s] split: list.splits)
    with "1.IH" [OF Nil] "1.prems"(2) show ?thesis by fastforce
  qed
qed

function drain_markers :: "router \<Rightarrow> router \<times> (string \<times> bool) list" where
  "drain_markers st =
     (case search_from HARMONY_MARKER [] (hr_buf st) of
        None \<Rightarrow> (st, [])
      | Some ((l, s, _), (l', s', g)) \<Rightarrow>
          (let out = append_text st (rev l);
               (st', more) = drain_markers ((handle_marker (take (length s - length s') s) g st)\<lparr>hr_buf := s'\<rparr>)
           in (st', out @ more)))"
  by pat_completeness auto
termination
proof (relation "measure (\<lambda>st. length (hr_buf st))", simp)
  fix st :: router and p0 q0 l a s b l' c s' g x y
  assume "search_from HARMONY_MARKER [] (hr_buf st) = Some p0" "(x, y) = p0" "(l, a) = x" "(s, b) = a" "(l', c) = y" "(s', g) = c"
  then have "length s' < length (hr_buf st)" using search_end_shorter [OF _ marker_consumes, of "[]" "hr_buf st" x y] by auto
  then show "((handle_marker (take (length s - length s') s) g st)\<lparr>hr_buf := s'\<rparr>, st) \<in> measure (\<lambda>st. length (hr_buf st))"
    by simp
qed

declare drain_markers.simps [simp del]

definition drain_router :: "bool \<Rightarrow> router \<Rightarrow> router \<times> (string \<times> bool) list" where
  "drain_router final st0 =
     (let (st, out) = drain_markers st0;
          hold = (if final then 0 else harmony_suffix_hold_len (hr_buf st));
          emit = take (length (hr_buf st) - hold) (hr_buf st);
          held = drop (length (hr_buf st) - hold) (hr_buf st)
      in (st\<lparr>hr_buf := held\<rparr>, out @ append_text st emit))"

definition feed_router :: "string \<Rightarrow> router \<Rightarrow> router \<times> (string \<times> bool) list" where
  "feed_router text st = (if text = [] then (st, []) else drain_router False (st\<lparr>hr_buf := hr_buf st @ text\<rparr>))"

definition flush_router :: "router \<Rightarrow> router \<times> (string \<times> bool) list" where
  "flush_router st = drain_router True st"

text \<open>A stream: its pieces are fed in order, then the rest is flushed.\<close>

fun route_pieces :: "string list \<Rightarrow> router \<Rightarrow> (string \<times> bool) list" where
  "route_pieces [] st = snd (flush_router st)"
| "route_pieces (t # ts) st = (let (st', out) = feed_router t st in out @ route_pieces ts st')"

section \<open>What the pattern matches\<close>

lemma matches_rwords: "matches (rwords ws) p = concat (map (\<lambda>w. matches (rlit w) p) ws)"
proof (induction ws)
  case Nil
  then show ?case by (simp add: rwords_def split: prod.split list.split)
next
  case (Cons w ws)
  then show ?case by (cases ws) (simp_all add: rwords_def)
qed

definition CH :: string where "CH = ''<|channel|>''"
definition ST :: string where "ST = ''<|start|>''"
definition first_word :: "string list \<Rightarrow> string \<Rightarrow> string option" where
  "first_word ws s = find (\<lambda>w. starts_with w s) ws"

definition ROLES :: "string list" where "ROLES = [''assistant'', ''system'', ''user'', ''tool'']"
definition CHANNELS :: "string list" where "CHANNELS = [''analysis'', ''commentary'', ''final'']"
definition PLAIN :: "string list" where "PLAIN = [''<|message|>'', ''<|end|>'', ''<|return|>'', ''<|call|>'']"

text \<open>The marker at the head of a text, the group it sets, and the rest.\<close>

definition marker_head :: "string \<Rightarrow> (string \<times> string option \<times> string) option" where
  "marker_head s =
     (if starts_with CH s then
        (case first_word CHANNELS (drop (length CH) s) of
           None \<Rightarrow> None | Some w \<Rightarrow> Some (CH @ w, Some w, drop (length CH + length w) s))
      else if starts_with ST s then
        (case first_word ROLES (drop (length ST) s) of
           None \<Rightarrow> Some (ST, None, drop (length ST) s)
         | Some w \<Rightarrow> Some (ST @ w, None, drop (length ST + length w) s))
      else (case first_word PLAIN s of None \<Rightarrow> None | Some w \<Rightarrow> Some (w, None, drop (length w) s)))"

lemma hd_matches_words:
  "matches (rwords ws) (l, s, g) = [] \<longleftrightarrow> first_word ws s = None"
  "first_word ws s = Some w \<Longrightarrow> \<exists>more. matches (rwords ws) (l, s, g) = (rev w @ l, drop (length w) s, g) # more"
  by (induction ws) (auto simp: matches_rwords matches_rlit first_word_def split: if_splits)

lemma first_word_Some: "first_word ws s = Some w \<Longrightarrow> w \<in> set ws \<and> (\<exists>r. s = w @ r)"
  by (auto simp: first_word_def starts_with_iff dest: find_SomeD)

lemma first_word_None: "first_word ws s = None \<longleftrightarrow> (\<forall>w \<in> set ws. \<not> starts_with w s)"
  by (simp add: first_word_def find_None_iff_all)

lemma marker_alternatives:
  "matches HARMONY_MARKER p =
     matches (RSeq (rlit CH) (RGroup (rwords CHANNELS))) p @
     matches (RSeq (rlit ST) (ropt (rwords ROLES))) p @ matches (rwords PLAIN) p"
  by (simp only: HARMONY_MARKER_def ralt.simps matches.simps CHANNELS_def ROLES_def PLAIN_def CH_def ST_def matches_rwords
      list.map concat.simps append_Nil2)

lemma seq_lit:
  "matches (RSeq (rlit w) r) (l, s, g) = (if starts_with w s then matches r (rev w @ l, drop (length w) s, g) else [])"
  by (simp add: matches_rlit)

lemma rounds_over [simp]: "rounds n (Some 0) f p = [p]"
  by (cases n) simp_all

text \<open>An optional word: the word first, then nothing.\<close>

lemma opt_word_hd:
  assumes "[] \<notin> set ws"
  shows "\<exists>more. matches (ropt (rwords ws)) (l, s, g) =
     (case first_word ws s of None \<Rightarrow> [(l, s, g)] | Some w \<Rightarrow> (rev w @ l, drop (length w) s, g) # more)"
proof (cases "first_word ws s")
  case None
  then have "matches (rwords ws) (l, s, g) = []" by (simp add: hd_matches_words)
  then show ?thesis by (simp add: ropt_def None)
next
  case (Some w)
  obtain more where m: "matches (rwords ws) (l, s, g) = (rev w @ l, drop (length w) s, g) # more"
    using hd_matches_words(2) [OF Some] by blast
  from first_word_Some [OF Some] assms have "w \<noteq> []" "length w \<le> length s" by auto
  then have "length (drop (length w) s) < length s" by (cases w) auto
  then show ?thesis by (simp add: ropt_def m Some)
qed

lemma marker_apart:
  "\<not> starts_with ST (CH @ t)" "\<not> starts_with CH (ST @ t)" "first_word PLAIN (CH @ t) = None" "first_word PLAIN (ST @ t) = None"
  by (simp_all add: CH_def ST_def PLAIN_def first_word_def)

lemma marker_matches:
  "case marker_head s of
     None \<Rightarrow> matches HARMONY_MARKER (l, s, None) = []
   | Some (m, g, r) \<Rightarrow> s = m @ r \<and> (\<exists>more. matches HARMONY_MARKER (l, s, None) = (rev m @ l, r, g) # more)"
proof (cases "starts_with CH s")
  case True
  then obtain t where s: "s = CH @ t" by (auto simp: starts_with_iff)
  have rest: "matches (rwords PLAIN) (l, CH @ t, None) = []" by (simp add: hd_matches_words marker_apart)
  show ?thesis
  proof (cases "first_word CHANNELS t")
    case None
    then have "matches (RGroup (rwords CHANNELS)) (rev CH @ l, t, None) = []" by (simp add: hd_matches_words)
    then show ?thesis using None
      by (simp add: marker_alternatives seq_lit rest marker_apart marker_head_def s del: matches.simps)
  next
    case (Some w)
    obtain more where m: "matches (rwords CHANNELS) (rev CH @ l, t, None) =
        (rev w @ rev CH @ l, drop (length w) t, None) # more"
      using hd_matches_words(2) [OF Some] by blast
    from first_word_Some [OF Some] obtain u where u: "t = w @ u" by blast
    have "\<exists>more. matches (RGroup (rwords CHANNELS)) (rev CH @ l, t, None) = (rev w @ rev CH @ l, u, Some w) # more"
      using m by (simp add: u)
    then show ?thesis using Some
      by (auto simp add: marker_alternatives seq_lit marker_head_def s u simp del: matches.simps)
  qed
next
  case F: False
  show ?thesis
  proof (cases "starts_with ST s")
    case True
    then obtain t where s: "s = ST @ t" by (auto simp: starts_with_iff)
    obtain more where m: "matches (ropt (rwords ROLES)) (rev ST @ l, t, None) =
      (case first_word ROLES t of None \<Rightarrow> [(rev ST @ l, t, None)]
       | Some w \<Rightarrow> (rev w @ rev ST @ l, drop (length w) t, None) # more)"
      using opt_word_hd [of ROLES "rev ST @ l" t None] by (auto simp: ROLES_def)
    show ?thesis
    proof (cases "first_word ROLES t")
      case None
      then show ?thesis using m
        by (simp add: marker_alternatives seq_lit marker_head_def s marker_apart del: matches.simps)
    next
      case (Some w)
      from first_word_Some [OF Some] obtain u where u: "t = w @ u" by blast
      show ?thesis using Some m
        by (simp add: marker_alternatives seq_lit marker_head_def s u marker_apart del: matches.simps)
    qed
  next
    case False
    show ?thesis
    proof (cases "first_word PLAIN s")
      case None
      then have "matches (rwords PLAIN) (l, s, None) = []" by (simp add: hd_matches_words)
      then show ?thesis using F False None
        by (simp add: marker_alternatives seq_lit marker_head_def del: matches.simps)
    next
      case (Some w)
      obtain more where m: "matches (rwords PLAIN) (l, s, None) = (rev w @ l, drop (length w) s, None) # more"
        using hd_matches_words(2) [OF Some] by blast
      from first_word_Some [OF Some] obtain u where u: "s = w @ u" by blast
      have "marker_head s = Some (w, None, u)" using F False Some u by (simp add: marker_head_def)
      then show ?thesis using F False m u
        by (simp add: marker_alternatives seq_lit del: matches.simps)
    qed
  qed
qed

section \<open>The reference: one pass over the whole text\<close>

definition flat_out :: "(string \<times> bool) list \<Rightarrow> (char \<times> bool) list" where
  "flat_out out = concat (map (\<lambda>(t, b). map (\<lambda>c. (c, b)) t) out)"

lemma flat_out_simps [simp]: "flat_out [] = []" "flat_out (xs @ ys) = flat_out xs @ flat_out ys"
  by (simp_all add: flat_out_def)

lemma CH_ST_nonempty [simp]: "CH \<noteq> []" "ST \<noteq> []" "0 < length CH" "0 < length ST"
  by (simp_all add: CH_def ST_def)

lemma marker_head_split: "marker_head s = Some (m, g, r) \<Longrightarrow> s = m @ r"
  using marker_matches [where s = s and l = "[]"] by simp

lemma plain_nonempty: "first_word PLAIN s = Some w \<Longrightarrow> w \<noteq> []"
  by (drule first_word_Some) (auto simp: PLAIN_def)

lemma marker_head_shorter: "marker_head s = Some (m, g, r) \<Longrightarrow> length r < length s"
proof -
  assume h: "marker_head s = Some (m, g, r)"
  then have "m \<noteq> []"
    by (auto simp: marker_head_def plain_nonempty split: if_splits option.splits)
  with marker_head_split [OF h] show ?thesis by (cases m) auto
qed

function route :: "router \<Rightarrow> string \<Rightarrow> (char \<times> bool) list" where
  "route st [] = []"
| "route st (c # s) =
     (case marker_head (c # s) of
        None \<Rightarrow> flat_out (append_text st [c]) @ route st s
      | Some (m, g, r) \<Rightarrow> route (handle_marker m g st) r)"
  by pat_completeness auto
termination
  by (relation "measure (\<lambda>(st, s). length s)") (auto dest: marker_head_shorter)

declare route.simps [simp del]

lemma route_Nil [simp]: "route st [] = []"
  by (simp add: route.simps)

lemma route_marker: "marker_head s = Some (m, g, r) \<Longrightarrow> route st s = route (handle_marker m g st) r"
  by (cases s) (use marker_head_shorter in \<open>fastforce simp: route.simps\<close>)+

lemma route_plain: "marker_head (c # s) = None \<Longrightarrow> route st (c # s) = flat_out (append_text st [c]) @ route st s"
  by (simp add: route.simps)

lemma append_text_Cons: "flat_out (append_text st (c # s)) = flat_out (append_text st [c]) @ flat_out (append_text st s)"
  by (simp add: append_text_def flat_out_def)

lemma append_text_Nil [simp]: "append_text st [] = []"
  by (simp add: append_text_def)

text \<open>Text in which no marker begins passes as it is.\<close>

lemma route_text:
  "(\<And>k. k < length e \<Longrightarrow> marker_head (drop k e @ z) = None) \<Longrightarrow>
     route st (e @ z) = flat_out (append_text st e) @ route st z"
proof (induction e)
  case (Cons c e)
  have "marker_head (c # e @ z) = None" using Cons.prems [of 0] by simp
  moreover have "route st (e @ z) = flat_out (append_text st e) @ route st z"
    by (rule Cons.IH) (use Cons.prems [of "Suc k" for k] in simp)
  ultimately show ?case by (simp add: route_plain append_text_Cons [of st c e])
qed simp

lemma append_text_buf [simp]: "append_text (st\<lparr>hr_buf := b\<rparr>) t = append_text st t"
  by (simp add: append_text_def)

lemma handle_marker_buf: "handle_marker m g (st\<lparr>hr_buf := b\<rparr>) = (handle_marker m g st)\<lparr>hr_buf := b\<rparr>"
  by (simp add: handle_marker_def Let_def)

lemma route_buf [simp]: "route (st\<lparr>hr_buf := b\<rparr>) s = route st s"
proof (induction st s rule: route.induct)
  case (2 st c s)
  show ?case
  proof (cases "marker_head (c # s)")
    case None
    with 2 show ?thesis by (simp add: route_plain)
  next
    case (Some x)
    obtain m g r where x: "x = (m, g, r)" by (cases x)
    from 2(2) [OF Some [unfolded x] refl refl] Some [unfolded x] show ?thesis
      by (simp add: route_marker handle_marker_buf)
  qed
qed simp

section \<open>Beginnings of markers\<close>

text \<open>What a marker starts with; all of it but its first character is free of \<open><\<close>.\<close>

definition BASES :: "string list" where
  "BASES = map ((@) CH) CHANNELS @ ST # PLAIN"

lemma bases_in: "set BASES \<subseteq> set HARMONY_MARKERS"
  by (simp add: BASES_def CH_def ST_def PLAIN_def CHANNELS_def HARMONY_MARKERS_def)

lemma bases_short: "list_all (\<lambda>b. length b \<le> HARMONY_MAX_MARKER_LEN) BASES"
  by (simp add: BASES_def CH_def ST_def PLAIN_def CHANNELS_def HARMONY_MARKERS_def HARMONY_MAX_MARKER_LEN_def)

lemma bases_shape: "list_all (\<lambda>b. b \<noteq> [] \<and> hd b = CHR ''<'' \<and> CHR ''<'' \<notin> set (tl b)) BASES"
  by (simp add: BASES_def CH_def ST_def PLAIN_def CHANNELS_def)

lemma first_word_ex: "first_word ws s \<noteq> None \<longleftrightarrow> (\<exists>w \<in> set ws. starts_with w s)"
  by (auto simp: first_word_None)

lemma bases_ex:
  "(\<exists>b \<in> set BASES. starts_with b s) \<longleftrightarrow>
     (starts_with CH s \<and> (\<exists>w \<in> set CHANNELS. starts_with w (drop (length CH) s))) \<or> starts_with ST s \<or>
     (\<exists>w \<in> set PLAIN. starts_with w s)"
proof -
  have "(\<exists>b \<in> set BASES. starts_with b s) \<longleftrightarrow>
      (\<exists>w \<in> set CHANNELS. starts_with (CH @ w) s) \<or> starts_with ST s \<or> (\<exists>w \<in> set PLAIN. starts_with w s)"
    by (simp add: BASES_def bex_Un) blast
  then show ?thesis by (simp add: starts_with_drop)
qed

lemma marker_head_iff: "marker_head s \<noteq> None \<longleftrightarrow> (\<exists>b \<in> set BASES. starts_with b s)"
proof (cases "starts_with CH s")
  case True
  then have "\<not> starts_with ST s" "first_word PLAIN s = None" using marker_apart by (auto simp: starts_with_iff)
  then have "(\<exists>b \<in> set BASES. starts_with b s) \<longleftrightarrow> (\<exists>w \<in> set CHANNELS. starts_with w (drop (length CH) s))"
    using True by (simp add: bases_ex first_word_None)
  also have "\<dots> \<longleftrightarrow> first_word CHANNELS (drop (length CH) s) \<noteq> None" by (rule first_word_ex [symmetric])
  finally show ?thesis using True by (auto simp: marker_head_def split: option.split)
next
  case F: False
  show ?thesis
  proof (cases "starts_with ST s")
    case True
    with F show ?thesis by (simp add: marker_head_def bases_ex split: option.split)
  next
    case False
    with F have "(\<exists>b \<in> set BASES. starts_with b s) \<longleftrightarrow> (\<exists>w \<in> set PLAIN. starts_with w s)"
      by (simp add: bases_ex)
    also have "\<dots> \<longleftrightarrow> first_word PLAIN s \<noteq> None" by (rule first_word_ex [symmetric])
    finally show ?thesis using F False by (auto simp: marker_head_def split: option.split)
  qed
qed

text \<open>A marker that ends beyond a text begins with all of the text from there on.\<close>

lemma marker_beyond:
  assumes "marker_head x = None" "marker_head (x @ y) \<noteq> None"
  obtains b where "b \<in> set BASES" "starts_with x b" "length x < length b"
proof -
  from assms(2) obtain b where b: "b \<in> set BASES" "starts_with b (x @ y)" unfolding marker_head_iff by blast
  moreover have "\<not> starts_with b x" using assms(1) b(1) marker_head_iff [of x] by blast
  ultimately show ?thesis using that starts_with_split by blast
qed

lemma find_rev_upt: "n < k \<Longrightarrow> 1 \<le> n \<Longrightarrow> P n \<Longrightarrow> \<exists>m \<ge> n. find P (rev [1..<k]) = Some m"
proof (induction k)
  case (Suc k)
  show ?case
  proof (cases "P k")
    case True
    with Suc.prems show ?thesis by (auto intro!: exI [of _ k])
  next
    case False
    with Suc.prems have "n \<noteq> k" by auto
    with Suc.prems Suc.IH False show ?thesis by auto
  qed
qed simp

text \<open>The held tail is at least as long as every tail that a marker could begin with.\<close>

lemma hold_enough:
  assumes "b \<in> set BASES" "starts_with x b" "length x < length b" "x \<noteq> []"
  shows "length x \<le> harmony_suffix_hold_len (y @ x)"
proof -
  have "length b \<le> HARMONY_MAX_MARKER_LEN" using bases_short assms(1) by (auto simp: list_all_iff)
  with assms(3) have "length x < Suc (min (length (y @ x)) (HARMONY_MAX_MARKER_LEN - 1))" by simp
  moreover have "1 \<le> length x" using assms(4) by (cases x) auto
  moreover have "list_ex (starts_with (drop (length (y @ x) - length x) (y @ x))) HARMONY_MARKERS"
    using bases_in assms(1,2) by (auto simp: list_ex_iff)
  ultimately obtain m where "length x \<le> m" "find (\<lambda>n. list_ex (starts_with (drop (length (y @ x) - n) (y @ x))) HARMONY_MARKERS)
      (rev [1..<Suc (min (length (y @ x)) (HARMONY_MAX_MARKER_LEN - 1))]) = Some m"
    using find_rev_upt [of "length x" "Suc (min (length (y @ x)) (HARMONY_MAX_MARKER_LEN - 1))"
        "\<lambda>n. list_ex (starts_with (drop (length (y @ x) - n) (y @ x))) HARMONY_MARKERS"] by blast
  then show ?thesis by (simp add: harmony_suffix_hold_len_def Let_def del: upt_Suc)
qed

lemma hold_at_most: "harmony_suffix_hold_len text \<le> length text"
  by (auto simp: harmony_suffix_hold_len_def Let_def split: option.split dest: find_SomeD)

section \<open>A marker keeps its effect when text follows\<close>

definition no_marker :: "string \<Rightarrow> bool" where
  "no_marker s = (\<forall>k \<le> length s. marker_head (drop k s) = None)"

lemma marker_starts: "marker_head s \<noteq> None \<Longrightarrow> s \<noteq> [] \<and> hd s = CHR ''<''"
proof -
  assume "marker_head s \<noteq> None"
  then obtain b where "b \<in> set BASES" "starts_with b s" unfolding marker_head_iff by blast
  with bases_shape show ?thesis by (cases b; cases s) (auto simp: list_all_iff)
qed

lemma role_text:
  assumes "w \<in> set ROLES" "hr_seen st" "\<not> hr_in st"
  shows "route st (w @ u) = route st u"
proof -
  have n: "CHR ''<'' \<notin> set w" using assms(1) by (auto simp: ROLES_def)
  have "marker_head (drop k w @ u) = None" if "k < length w" for k
  proof (rule ccontr)
    assume "marker_head (drop k w @ u) \<noteq> None"
    from marker_starts [OF this] that have "hd (drop k w) = CHR ''<''" by simp
    with that n show False by (metis hd_drop_conv_nth nth_mem)
  qed
  then have "route st (w @ u) = flat_out (append_text st w) @ route st u" by (rule route_text)
  with assms(2,3) show ?thesis by (simp add: append_text_def)
qed

lemma first_word_extend:
  "first_word ws t = Some w \<Longrightarrow> list_all (\<lambda>x. starts_with w x \<longrightarrow> x = w) ws \<Longrightarrow> first_word ws (t @ u) = Some w"
proof (induction ws)
  case (Cons a ws)
  show ?case
  proof (cases "starts_with a t")
    case True
    with Cons.prems show ?thesis by (simp add: first_word_def starts_with_more)
  next
    case False
    with Cons.prems(1) have f: "first_word ws t = Some w" by (simp add: first_word_def)
    then have wt: "starts_with w t" using first_word_Some by (auto simp: starts_with_iff)
    have "\<not> starts_with a (t @ u)"
    proof
      assume "starts_with a (t @ u)"
      from starts_with_split [OF this False] have "starts_with t a" by simp
      from starts_with_trans [OF wt this] Cons.prems(2) have "a = w" by simp
      with wt False show False by simp
    qed
    with Cons.IH [OF f] Cons.prems(2) show ?thesis by (simp add: first_word_def)
  qed
qed (simp add: first_word_def)

lemma words_apart:
  "list_all (\<lambda>w. list_all (\<lambda>x. starts_with w x \<longrightarrow> x = w) ws) ws" if "ws \<in> {CHANNELS, ROLES, PLAIN}" for ws
  using that by (auto simp: CHANNELS_def ROLES_def PLAIN_def)

lemma first_word_more:
  "first_word ws t = Some w \<Longrightarrow> ws \<in> {CHANNELS, ROLES, PLAIN} \<Longrightarrow> first_word ws (t @ u) = Some w"
  using words_apart [of ws] first_word_Some [of ws t w] by (intro first_word_extend) (auto simp: list_all_iff)

lemma plain_apart:
  "w \<in> set PLAIN \<Longrightarrow> \<not> starts_with CH (w @ u) \<and> \<not> starts_with ST (w @ u)"
  by (auto simp: PLAIN_def CH_def ST_def)

text \<open>A role that follows only in the next piece is text that is not shown.\<close>

lemma start_state:
  "m = ST \<or> (\<exists>w \<in> set ROLES. m = ST @ w) \<Longrightarrow> handle_marker m None st = st\<lparr>hr_seen := True, hr_in := False\<rparr>"
  by (auto simp: handle_marker_def ST_def ROLES_def)

lemma route_marker_more:
  assumes "marker_head s = Some (m, g, r)"
  shows "route st (s @ y) = route (handle_marker m g st) (r @ y)"
proof (cases "starts_with CH s")
  case True
  then obtain t where s: "s = CH @ t" by (auto simp: starts_with_iff)
  with assms obtain w where w: "first_word CHANNELS t = Some w" "m = CH @ w" "g = Some w" "r = drop (length w) t"
    by (auto simp: marker_head_def split: option.splits)
  obtain u where "t = w @ u" using first_word_Some [OF w(1)] by blast
  then have "marker_head (s @ y) = Some (m, g, r @ y)"
    using w first_word_more [OF w(1), of y] by (simp add: marker_head_def s)
  then show ?thesis by (rule route_marker)
next
  case F: False
  show ?thesis
  proof (cases "starts_with ST s")
    case True
    then obtain t where s: "s = ST @ t" by (auto simp: starts_with_iff)
    have a: "\<not> starts_with CH (ST @ t @ y)" by (rule marker_apart)
    show ?thesis
    proof (cases "first_word ROLES t")
      case (Some w)
      then obtain u where u: "t = w @ u" using first_word_Some by blast
      with assms Some F True have "m = ST @ w" "g = None" "r = u" by (auto simp: marker_head_def s)
      then have "marker_head (s @ y) = Some (m, g, r @ y)"
        using first_word_more [OF Some, of y] a by (simp add: marker_head_def s u)
      then show ?thesis by (rule route_marker)
    next
      case None
      with assms F True have m: "m = ST" "g = None" "r = t" by (auto simp: marker_head_def s)
      show ?thesis
      proof (cases "first_word ROLES (t @ y)")
        case None
        then have "marker_head (s @ y) = Some (m, g, r @ y)" using a by (simp add: marker_head_def s m)
        then show ?thesis by (rule route_marker)
      next
        case (Some w)
        then obtain u where u: "t @ y = w @ u" and w: "w \<in> set ROLES" using first_word_Some by blast
        have "marker_head (s @ y) = Some (ST @ w, None, u)" using a Some by (simp add: marker_head_def s u)
        then have "route st (s @ y) = route (handle_marker (ST @ w) None st) u" by (rule route_marker)
        also have "\<dots> = route (handle_marker ST None st) u" using w by (simp add: start_state)
        also have "\<dots> = route (handle_marker ST None st) (w @ u)"
          by (rule role_text [OF w, symmetric]) (simp_all add: start_state)
        finally show ?thesis by (simp add: m u)
      qed
    qed
  next
    case False
    with assms F obtain w where w: "first_word PLAIN s = Some w" "m = w" "g = None" "r = drop (length w) s"
      by (auto simp: marker_head_def split: option.splits)
    obtain u where u: "s = w @ u" and p: "w \<in> set PLAIN" using first_word_Some [OF w(1)] by blast
    then have "marker_head (s @ y) = Some (m, g, r @ y)"
      using w first_word_more [OF w(1), of y] plain_apart [OF p] by (simp add: marker_head_def)
    then show ?thesis by (rule route_marker)
  qed
qed

section \<open>The router is the reference\<close>

lemma search_marker:
  "case search_from HARMONY_MARKER l0 s0 of
     None \<Rightarrow> no_marker s0
   | Some ((l, s, _), (l', r, g)) \<Rightarrow> \<exists>p m. l = rev p @ l0 \<and> s0 = p @ s \<and> marker_head s = Some (m, g, r) \<and> s = m @ r \<and>
       (\<forall>k < length p. marker_head (drop k p @ s) = None)"
proof (induction HARMONY_MARKER l0 s0 rule: search_from.induct)
  case (1 l s)
  show ?case
  proof (cases "marker_head s")
    case (Some x)
    obtain m g r where x: "x = (m, g, r)" by (cases x)
    from marker_matches [where s = s and l = l] obtain more where
      sm: "s = m @ r" and e: "matches HARMONY_MARKER (l, s, None) = (rev m @ l, r, g) # more" by (auto simp: Some x)
    have "search_from HARMONY_MARKER l s = Some ((l, s, None), (rev m @ l, r, g))"
      by (simp add: search_from.simps [of HARMONY_MARKER l s] e)
    with Some sm show ?thesis by (simp add: x)
  next
    case None
    then have e: "matches HARMONY_MARKER (l, s, None) = []" using marker_matches [where s = s and l = l] by simp
    show ?thesis
    proof (cases s)
      case Nil
      then show ?thesis using None e by (simp add: search_from.simps [of HARMONY_MARKER l "[]"] no_marker_def)
    next
      case (Cons c t)
      from "1" [OF e Cons] have IH: "case search_from HARMONY_MARKER (c # l) t of
          None \<Rightarrow> no_marker t
        | Some ((l1, s1, _), (l', r, g)) \<Rightarrow> \<exists>p m. l1 = rev p @ c # l \<and> t = p @ s1 \<and> marker_head s1 = Some (m, g, r) \<and> s1 = m @ r \<and>
            (\<forall>k < length p. marker_head (drop k p @ s1) = None)" .
      have f: "search_from HARMONY_MARKER l s = search_from HARMONY_MARKER (c # l) t"
        using e by (simp add: search_from.simps [of HARMONY_MARKER l "c # t"] Cons)
      show ?thesis
      proof (cases "search_from HARMONY_MARKER (c # l) t")
        case N: None
        with IH have "no_marker t" by simp
        then have "no_marker s" using None by (auto simp: no_marker_def Cons drop_Cons' )
        with N f show ?thesis by simp
      next
        case (Some y)
        obtain l1 s1 g0 l' r g where y: "y = ((l1, s1, g0), (l', r, g))" by (metis prod_cases3 surj_pair)
        from IH Some y obtain p m where p: "l1 = rev p @ c # l" "t = p @ s1" "marker_head s1 = Some (m, g, r)" "s1 = m @ r"
          and n: "\<forall>k < length p. marker_head (drop k p @ s1) = None" by auto
        have "\<forall>k < length (c # p). marker_head (drop k (c # p) @ s1) = None"
          using n None by (auto simp: Cons p(2) drop_Cons')
        then show ?thesis using Some f y p Cons
          by simp
      qed
    qed
  qed
qed

lemma no_marker_prefix:
  assumes "marker_head (drop k p @ s) = None" "k < length p" "marker_head s \<noteq> None"
  shows "marker_head (drop k p @ s @ y) = None"
proof (rule ccontr)
  assume "marker_head (drop k p @ s @ y) \<noteq> None"
  then have "marker_head ((drop k p @ s) @ y) \<noteq> None" by simp
  from marker_beyond [OF assms(1) this] obtain b where b: "b \<in> set BASES" "starts_with (drop k p @ s) b" by blast
  then obtain z where z: "b = drop k p @ s @ z" by (auto simp: starts_with_iff)
  from marker_starts [OF assms(3)] have "CHR ''<'' \<in> set s" by (cases s) auto
  moreover have "drop k p \<noteq> []" using assms(2) by simp
  ultimately have "CHR ''<'' \<in> set (tl b)" by (simp add: z tl_append split: list.split)
  with bases_shape b(1) show False by (auto simp: list_all_iff)
qed

lemma drain_markers_route:
  "drain_markers st = (st', out) \<Longrightarrow>
     no_marker (hr_buf st') \<and> (\<forall>y. route st (hr_buf st @ y) = flat_out out @ route st' (hr_buf st' @ y))"
proof (induction st arbitrary: st' out rule: drain_markers.induct)
  case (1 st)
  show ?case
  proof (cases "search_from HARMONY_MARKER [] (hr_buf st)")
    case None
    with search_marker [where ?l0.0 = "[]" and ?s0.0 = "hr_buf st"] have "no_marker (hr_buf st)" by simp
    moreover from None "1.prems" have "st' = st" "out = []" by (simp_all add: drain_markers.simps [of st])
    ultimately show ?thesis by simp
  next
    case (Some x)
    obtain l s g0 l' r g where x: "x = ((l, s, g0), (l', r, g))" by (metis prod_cases3 surj_pair)
    from search_marker [where ?l0.0 = "[]" and ?s0.0 = "hr_buf st"] Some x obtain m where
      b: "hr_buf st = rev l @ s" and h: "marker_head s = Some (m, g, r)" and sm: "s = m @ r"
      and n: "\<forall>k < length (rev l). marker_head (drop k (rev l) @ s) = None"
      by auto
    let ?st = "(handle_marker m g st)\<lparr>hr_buf := r\<rparr>"
    have tk: "take (length s - length r) s = m" by (simp add: sm)
    obtain st1 more where d: "drain_markers ?st = (st1, more)" by (cases "drain_markers ?st")
    from "1.prems" have o: "st' = st1" "out = append_text st (rev l) @ more"
      by (simp_all add: drain_markers.simps [of st] Some x tk d)
    have IH: "no_marker (hr_buf st1) \<and> (\<forall>y. route ?st (hr_buf ?st @ y) = flat_out more @ route st1 (hr_buf st1 @ y))"
      by (rule "1.IH" [OF Some [unfolded x] refl refl refl refl refl refl, unfolded tk, OF d])
    have "route st (hr_buf st @ y) = flat_out (append_text st (rev l)) @ route ?st (r @ y)" for y
    proof -
      have "route st (rev l @ s @ y) = flat_out (append_text st (rev l)) @ route st (s @ y)"
        by (rule route_text) (use n h no_marker_prefix in auto)
      then show ?thesis by (simp add: b route_marker_more [OF h])
    qed
    then show ?thesis using IH by (simp add: o)
  qed
qed

lemma no_marker_drop: "no_marker s \<Longrightarrow> marker_head (drop k s) = None"
  by (cases "k \<le> length s") (auto simp: no_marker_def)

lemma drain_router_route:
  assumes "drain_router False st = (st', out)"
  shows "route st (hr_buf st @ y) = flat_out out @ route st' (hr_buf st' @ y)"
proof -
  obtain st1 more where d: "drain_markers st = (st1, more)" by (cases "drain_markers st")
  let ?b = "hr_buf st1" and ?h = "harmony_suffix_hold_len (hr_buf st1)"
  let ?e = "take (length ?b - ?h) ?b" and ?t = "drop (length ?b - ?h) ?b"
  have split: "?b @ y = ?e @ ?t @ y" by (metis append_assoc append_take_drop_id)
  from drain_markers_route [OF d] have n: "no_marker ?b"
    and r: "route st (hr_buf st @ y) = flat_out more @ route st1 (?e @ ?t @ y)"
    unfolding split [symmetric] by simp_all
  have "route st1 (?e @ ?t @ y) = flat_out (append_text st1 ?e) @ route st1 (?t @ y)"
  proof (rule route_text)
    fix k assume k: "k < length ?e"
    have eq: "drop k ?e @ ?t = drop k ?b" using k by (metis append_take_drop_id drop_append drop_take less_imp_le_nat take_all
          drop_drop min.cobounded2 length_take diff_is_0_eq' drop_0)
    show "marker_head (drop k ?e @ ?t @ y) = None"
    proof (rule ccontr)
      assume "marker_head (drop k ?e @ ?t @ y) \<noteq> None"
      then have "marker_head (drop k ?b @ y) \<noteq> None" by (simp only: append_assoc [symmetric] eq not_False_eq_True)
      with no_marker_drop [OF n] obtain b where b: "b \<in> set BASES" "starts_with (drop k ?b) b" "length (drop k ?b) < length b"
        using marker_beyond by metis
      have "drop k ?b \<noteq> []" using k by auto
      from hold_enough [OF b this, of "take k ?b"] have "length (drop k ?b) \<le> ?h" by simp
      with k hold_at_most [of ?b] show False by simp
    qed
  qed
  with r assms d show ?thesis by (auto simp: drain_router_def Let_def)
qed

lemma flush_route: "flat_out (snd (flush_router st)) = route st (hr_buf st)"
proof -
  obtain st1 more where d: "drain_markers st = (st1, more)" by (cases "drain_markers st")
  from drain_markers_route [OF d] have n: "no_marker (hr_buf st1)"
    and r: "route st (hr_buf st) = flat_out more @ route st1 (hr_buf st1)" by (auto dest: spec [of _ "[]"])
  have "route st1 (hr_buf st1 @ []) = flat_out (append_text st1 (hr_buf st1)) @ route st1 []"
    by (rule route_text) (use no_marker_drop [OF n] in simp)
  with r d show ?thesis by (simp add: flush_router_def drain_router_def)
qed

lemma pieces_route: "flat_out (route_pieces ts st) = route st (hr_buf st @ concat ts)"
proof (induction ts arbitrary: st)
  case Nil
  then show ?case by (simp add: flush_route)
next
  case (Cons t ts)
  show ?case
  proof (cases "t = []")
    case True
    then show ?thesis by (simp add: feed_router_def Cons)
  next
    case False
    obtain st' out where d: "drain_router False (st\<lparr>hr_buf := hr_buf st @ t\<rparr>) = (st', out)" by fastforce
    from drain_router_route [OF d, of "concat ts"] False show ?thesis by (simp add: feed_router_def d Cons)
  qed
qed

section \<open>Collapse of a stream into repetition\<close>

text \<open>\<open>findall\<close> of one or more characters of a class: the maximal runs.\<close>

function runs_of :: "(char \<Rightarrow> bool) \<Rightarrow> string \<Rightarrow> string list" where
  "runs_of P s =
     (case dropWhile (\<lambda>c. \<not> P c) s of
        [] \<Rightarrow> []
      | c # r \<Rightarrow> (c # takeWhile P r) # runs_of P (dropWhile P r))"
  by pat_completeness auto
termination
proof (relation "measure (\<lambda>(P, s). length s)", simp)
  fix P :: "char \<Rightarrow> bool" and s c r
  assume "dropWhile (\<lambda>c. \<not> P c) s = c # r"
  then have "length (c # r) \<le> length s" by (metis length_dropWhile_le)
  then show "((P, dropWhile P r), P, s) \<in> measure (\<lambda>(P, s). length s)"
    using length_dropWhile_le [of P r] by simp
qed

declare runs_of.simps [simp del]

definition is_token_char :: "char \<Rightarrow> bool" where
  "is_token_char c = (is_alnum c \<or> c = CHR ''_'')"

record stream_guard =
  sg_model :: string
  sg_last :: string
  sg_run :: nat
  sg_recent :: "string list"
  sg_chars :: nat

definition new_guard :: "string \<Rightarrow> stream_guard" where
  "new_guard model = \<lparr>sg_model = (if model = [] then ''model'' else model), sg_last = [], sg_run = 0, sg_recent = [], sg_chars = 0\<rparr>"

definition stream_tokens :: "string \<Rightarrow> string list" where
  "stream_tokens text = map lower (filter (\<lambda>t. 2 \<le> length t) (runs_of is_token_char text))"

definition push_token :: "stream_guard \<Rightarrow> string \<Rightarrow> stream_guard" where
  "push_token g token =
     (let g = (if token = sg_last g then g\<lparr>sg_run := sg_run g + 1\<rparr> else g\<lparr>sg_last := token, sg_run := 1\<rparr>)
      in g\<lparr>sg_recent := sg_recent g @ [token]\<rparr>)"

definition trim_recent :: "stream_guard \<Rightarrow> stream_guard" where
  "trim_recent g = (if 96 < length (sg_recent g) then g\<lparr>sg_recent := last_n 96 (sg_recent g)\<rparr> else g)"

text \<open>
  The element that occurs most often, and how often. Of several, the code takes one in the order
  of a set; which one only shows in the message.
\<close>

definition most_common :: "'a list \<Rightarrow> ('a \<times> nat) option" where
  "most_common xs = map_option (\<lambda>x. (x, count_list xs x)) (first_max (count_list xs) (remdups xs))"

text \<open>A share of at least 0.78; of at most 96 tokens none is so near to it that a float could miss it.\<close>

definition dominant :: "string list \<Rightarrow> (string \<times> nat) option" where
  "dominant recent =
     (case most_common recent of
        Some (tok, n) \<Rightarrow> if 60 \<le> n \<and> 78 * max (length recent) 1 \<le> 100 * n then Some (tok, n) else None
      | None \<Rightarrow> None)"

definition four_grams :: "string list \<Rightarrow> string list list" where
  "four_grams recent = map (\<lambda>i. take 4 (drop i recent)) [0..<length recent - 3]"

definition guard_reason :: "stream_guard \<Rightarrow> string option" where
  "guard_reason g =
     (let n = length (sg_recent g);
          reason = (if 28 \<le> sg_run g \<and> 100 \<le> sg_chars g
              then Some (''repeated '' @ [CHR 0x27] @ sg_last g @ [CHR 0x27] @ '' '' @ show_nat (sg_run g) @ '' times'')
              else if 72 \<le> n then
                map_option (\<lambda>(tok, k). ''repeated '' @ [CHR 0x27] @ tok @ [CHR 0x27] @ '' '' @ show_nat k @ ''/'' @ show_nat n @ '' recent tokens'')
                  (dominant (sg_recent g))
              else None)
      in case reason of
           Some r \<Rightarrow> Some r
         | None \<Rightarrow>
             if 80 \<le> n then
               (case most_common (four_grams (sg_recent g)) of
                  Some (tok, k) \<Rightarrow>
                    if 10 \<le> k then Some (''repeated phrase '' @ [CHR 0x27] @ join '' '' tok @ [CHR 0x27] @ '' '' @ show_nat k @ '' times'')
                    else None
                | None \<Rightarrow> None)
             else None)"

definition guard_message :: "stream_guard \<Rightarrow> string \<Rightarrow> string" where
  "guard_message g reason =
     (let message = ''Stopped generation: '' @ sg_model g @ '' started repeating tokens ('' @ reason @ ''). Try a different model or lower temperature.''
      in ''event: error'' @ newline @ ''data: '' @
         dumps_default (PDict [(''status'', PInt 502), (''text'', PStr message), (''error'', PStr message)]) @ newline @ newline)"

definition check_stream :: "string \<Rightarrow> stream_guard \<Rightarrow> stream_guard \<times> string option" where
  "check_stream text g0 =
     (if text = [] then (g0, None)
      else let g = g0\<lparr>sg_chars := sg_chars g0 + length text\<rparr>; tokens = stream_tokens text in
        if tokens = [] then (g, None)
        else let g = trim_recent (foldl push_token g tokens) in (g, map_option (guard_message g) (guard_reason g)))"

definition check_all :: "string list \<Rightarrow> stream_guard \<Rightarrow> stream_guard" where
  "check_all texts g = foldl (\<lambda>g t. fst (check_stream t g)) g texts"

text \<open>What the guard knows of all the tokens of a stream.\<close>

definition trailing_run :: "string list \<Rightarrow> nat" where
  "trailing_run tokens = (case rev tokens of [] \<Rightarrow> 0 | t # ts \<Rightarrow> Suc (length (takeWhile (\<lambda>x. x = t) ts)))"

definition summarises :: "stream_guard \<Rightarrow> string list \<Rightarrow> bool" where
  "summarises g tokens =
     (sg_recent g = last_n 96 tokens \<and> sg_run g = trailing_run tokens \<and>
      sg_last g = (if tokens = [] then [] else last tokens))"

lemma last_n_all: "length xs \<le> n \<Longrightarrow> last_n n xs = xs"
  by (simp add: last_n_def)

lemma tokens_nonempty: "t \<in> set (stream_tokens text) \<Longrightarrow> t \<noteq> []"
  by (auto simp: stream_tokens_def lower_def)

text \<open>While the tokens of one piece are pushed, the recent ones grow beyond the window.\<close>

definition pushing :: "stream_guard \<Rightarrow> string list \<Rightarrow> string list \<Rightarrow> bool" where
  "pushing g base new =
     (sg_recent g = last_n 96 base @ new \<and> sg_run g = trailing_run (base @ new) \<and>
      sg_last g = (if base @ new = [] then [] else last (base @ new)))"

lemma trailing_run_snoc:
  "trailing_run (xs @ [t]) = (if xs \<noteq> [] \<and> last xs = t then Suc (trailing_run xs) else 1)"
proof (cases "rev xs")
  case Nil
  then show ?thesis by (simp add: trailing_run_def)
next
  case (Cons u us)
  then have "xs = rev us @ [u]" by (metis rev.simps(2) rev_rev_ident)
  then show ?thesis by (auto simp: trailing_run_def)
qed

lemma push_pushing: "pushing g base new \<Longrightarrow> t \<noteq> [] \<Longrightarrow> pushing (push_token g t) base (new @ [t])"
  by (auto simp: pushing_def push_token_def Let_def trailing_run_snoc append_assoc [symmetric] simp del: append_assoc)

lemma foldl_pushing:
  "pushing g base new \<Longrightarrow> list_all (\<lambda>t. t \<noteq> []) ts \<Longrightarrow> pushing (foldl push_token g ts) base (new @ ts)"
proof (induction ts arbitrary: g new)
  case (Cons t ts)
  from Cons.IH [OF push_pushing [OF Cons.prems(1)]] Cons.prems(2) show ?case by simp
qed simp

lemma check_summarises:
  assumes "summarises g tokens"
  shows "summarises (fst (check_stream text g)) (tokens @ stream_tokens text)"
proof (cases "text = [] \<or> stream_tokens text = []")
  case True
  have "stream_tokens [] = []" by (simp add: stream_tokens_def runs_of.simps)
  with True assms show ?thesis by (auto simp: check_stream_def summarises_def Let_def)
next
  case False
  let ?g = "g\<lparr>sg_chars := sg_chars g + length text\<rparr>" and ?ts = "stream_tokens text"
  have "pushing ?g tokens []" using assms by (simp add: pushing_def summarises_def)
  from foldl_pushing [OF this, of ?ts] have p: "pushing (foldl push_token ?g ?ts) tokens ?ts"
    using tokens_nonempty by (auto simp: list_all_iff)
  have "last_n 96 (last_n 96 tokens @ ?ts) = last_n 96 (tokens @ ?ts)" by (rule last_n_append)
  moreover have "length (last_n 96 tokens @ ?ts) \<le> 96 \<Longrightarrow> last_n 96 tokens @ ?ts = last_n 96 (tokens @ ?ts)"
    using last_n_append [of 96 tokens ?ts] last_n_all by metis
  ultimately have "summarises (trim_recent (foldl push_token ?g ?ts)) (tokens @ ?ts)"
    using p by (auto simp: summarises_def pushing_def trim_recent_def simp del: length_append)
  with False show ?thesis by (simp add: check_stream_def Let_def)
qed

lemma check_all_summarises:
  "summarises g tokens \<Longrightarrow> summarises (check_all texts g) (tokens @ concat (map stream_tokens texts))"
  unfolding check_all_def
proof (induction texts arbitrary: g tokens)
  case (Cons t ts)
  from Cons.IH [OF check_summarises [OF Cons.prems]] show ?case by simp
qed simp

lemma new_guard_summarises: "summarises (new_guard model) []"
  by (simp add: summarises_def new_guard_def last_n_def trailing_run_def)

section \<open>Fallback chains\<close>

text \<open>A candidate is a URL, a model and its headers.\<close>

type_synonym 'h route_to = "string \<times> string \<times> 'h"

fun dedupe_from :: "(string \<times> string) list \<Rightarrow> 'h route_to list \<Rightarrow> 'h route_to list" where
  "dedupe_from seen [] = []"
| "dedupe_from seen ((url, model, h) # cs) =
     (if url = [] \<or> model = [] \<or> (url, model) \<in> set seen then dedupe_from seen cs
      else (url, model, h) # dedupe_from ((url, model) # seen) cs)"

definition dedupe_candidates :: "'h route_to list \<Rightarrow> 'h route_to list" where
  "dedupe_candidates cs = dedupe_from [] cs"

text \<open>\<open>llm_call\<close> of a candidate is a parameter; its exceptions are values.\<close>

fun try_calls :: "('h route_to \<Rightarrow> string result) \<Rightarrow> py_exc option \<Rightarrow> 'h route_to list \<Rightarrow> string result" where
  "try_calls call last_err [] = Inl (case last_err of Some e \<Rightarrow> e | None \<Rightarrow> HTTPException 503 ''All fallback candidates failed'')"
| "try_calls call last_err (c # cs) =
     (case call c of Inr r \<Rightarrow> Inr r | Inl e \<Rightarrow> try_calls call (Some e) cs)"

definition llm_call_with_fallback :: "('h route_to \<Rightarrow> string result) \<Rightarrow> 'h route_to list \<Rightarrow> string result" where
  "llm_call_with_fallback call cs =
     (if dedupe_candidates cs = [] then Inl (HTTPException 503 ''No model endpoint configured'')
      else try_calls call None (dedupe_candidates cs))"

definition is_error_chunk :: "string \<Rightarrow> bool" where
  "is_error_chunk chunk = starts_with ''event: error'' chunk"

definition event_field :: "(string \<Rightarrow> pyval option) \<Rightarrow> string \<Rightarrow> string \<Rightarrow> pyval" where
  "event_field loads chunk key =
     (case loads (drop 6 chunk) of Some (PDict d) \<Rightarrow> pget d key | _ \<Rightarrow> PNone)"

text \<open>Output proper: a data chunk that is not the terminal one and does not name the model.\<close>

definition is_output :: "(string \<Rightarrow> pyval option) \<Rightarrow> string \<Rightarrow> bool" where
  "is_output loads chunk =
     (\<not> is_error_chunk chunk \<and> starts_with ''data: '' chunk \<and> \<not> starts_with ''data: [DONE]'' chunk \<and>
      event_field loads chunk ''type'' \<noteq> PStr ''model_actual'')"

fun summarize_lines :: "(string \<Rightarrow> pyval option) \<Rightarrow> string list \<Rightarrow> string" where
  "summarize_lines loads [] = ''primary model failed''"
| "summarize_lines loads (line # rest) =
     (if starts_with ''data: '' line then
        (case loads (drop 6 line) of
           Some (PDict j) \<Rightarrow>
             (let txt = py_or (py_or (pget j ''text'') (pget j ''error'')) (PStr []);
                  status = pget j ''status'';
                  msg = (if truthy status then ''HTTP '' @ py_str status @ '': '' else []) @ py_str txt;
                  out = strip (take 200 msg)
              in if out = [] then ''primary model failed'' else out)
         | _ \<Rightarrow> ''primary model failed'')
      else summarize_lines loads rest)"

definition summarize_stream_error :: "(string \<Rightarrow> pyval option) \<Rightarrow> string option \<Rightarrow> string" where
  "summarize_stream_error loads err =
     (case err of
        None \<Rightarrow> ''primary model failed''
      | Some e \<Rightarrow> if e = [] then ''primary model failed'' else summarize_lines loads (split_on (char_of (10::nat)) e))"

definition fallback_notice :: "(string \<Rightarrow> pyval option) \<Rightarrow> string \<Rightarrow> string \<Rightarrow> string option \<Rightarrow> string" where
  "fallback_notice loads primary model err =
     ''data: '' @ dumps_default (PDict [(''type'', PStr ''fallback''), (''selected_model'', PStr primary),
        (''answered_by'', PStr model), (''reason'', PStr (summarize_stream_error loads err))]) @ newline @ newline"

text \<open>
  The chunks of one candidate: what is passed on, and the error that makes the chain move on.
  \<open>notice\<close> is what goes before its first output.
\<close>

fun relay :: "(string \<Rightarrow> pyval option) \<Rightarrow> bool \<Rightarrow> string list \<Rightarrow> bool \<Rightarrow> string list \<Rightarrow> string list \<times> string option" where
  "relay loads is_last notice emitted [] = ([], None)"
| "relay loads is_last notice emitted (chunk # chunks) =
     (if is_error_chunk chunk then
        (if \<not> emitted \<and> \<not> is_last then ([], Some chunk)
         else apfst ((#) chunk) (relay loads is_last notice emitted chunks))
      else if is_output loads chunk then
        apfst ((@) ((if emitted then [] else notice) @ [chunk])) (relay loads is_last notice True chunks)
      else apfst ((#) chunk) (relay loads is_last notice emitted chunks))"

text \<open>\<open>stream_llm\<close> of a candidate is the list of its chunks.\<close>

fun relay_chain :: "(string \<Rightarrow> pyval option) \<Rightarrow> ('h route_to \<Rightarrow> string list) \<Rightarrow> string \<Rightarrow> bool \<Rightarrow> string option \<Rightarrow> 'h route_to list \<Rightarrow> string list" where
  "relay_chain loads stream primary first last_err [] = (case last_err of Some e \<Rightarrow> [e] | None \<Rightarrow> [])"
| "relay_chain loads stream primary first last_err (c # cs) =
     (let notice = (if first then [] else [fallback_notice loads primary (fst (snd c)) last_err]);
          (out, err) = relay loads (cs = []) notice False (stream c)
      in case err of
           Some e \<Rightarrow> out @ relay_chain loads stream primary False (Some e) cs
         | None \<Rightarrow> out)"

definition stream_llm_with_fallback :: "(string \<Rightarrow> pyval option) \<Rightarrow> ('h route_to \<Rightarrow> string list) \<Rightarrow> 'h route_to list \<Rightarrow> string list" where
  "stream_llm_with_fallback loads stream cs =
     (case dedupe_candidates cs of
        [] \<Rightarrow> [''event: error'' @ newline @ ''data: '' @
              dumps_default (PDict [(''error'', PStr ''No model endpoint configured''), (''status'', PInt 503)]) @ newline @ newline]
      | c # rest \<Rightarrow> relay_chain loads stream (fst (snd c)) True None (c # rest))"

section \<open>Properties\<close>

text \<open>
  Claim C18. However a model's text is cut into pieces, the router shows exactly what one pass over the whole
  text shows: every character with the same visibility, in the same order, and none of a marker's.
\<close>

theorem router_ignores_pieces:
  "flat_out (route_pieces pieces new_router) = route new_router (concat pieces)"
  using pieces_route [of pieces new_router] by (simp add: new_router_def)

text \<open>
  The guard against repetition, although it only keeps a window, a counter and one token, holds
  after any pieces exactly the last 96 tokens of the stream, the length of the run that ends it,
  and the token of that run.
\<close>

theorem guard_summarises_stream:
  "let g = check_all texts (new_guard model); tokens = concat (map stream_tokens texts)
   in sg_recent g = last_n 96 tokens \<and> sg_run g = trailing_run tokens \<and>
      sg_last g = (if tokens = [] then [] else last tokens)"
  using check_all_summarises [OF new_guard_summarises, of texts model] by (simp add: summarises_def Let_def)

text \<open>The routes tried are distinct, and the first of several equal ones with its headers is kept.\<close>

lemma dedupe_from_routes:
  "distinct (map (\<lambda>(u, m, h). (u, m)) (dedupe_from seen cs)) \<and>
   set (map (\<lambda>(u, m, h). (u, m)) (dedupe_from seen cs)) \<inter> set seen = {}"
  by (induction seen cs rule: dedupe_from.induct) auto

lemma dedupe_from_keeps:
  "(u, m) \<notin> set seen \<Longrightarrow> u \<noteq> [] \<Longrightarrow> m \<noteq> [] \<Longrightarrow>
     find (\<lambda>(x, y, h). (x, y) = (u, m)) (dedupe_from seen cs) = find (\<lambda>(x, y, h). (x, y) = (u, m)) cs"
  by (induction seen cs rule: dedupe_from.induct) auto

text \<open>What a candidate passes on before an error, when the error comes before any output.\<close>

fun fails_early :: "(string \<Rightarrow> pyval option) \<Rightarrow> string list \<Rightarrow> (string list \<times> string) option" where
  "fails_early loads [] = None"
| "fails_early loads (chunk # chunks) =
     (if is_error_chunk chunk then Some ([], chunk)
      else if is_output loads chunk then None
      else map_option (apfst ((#) chunk)) (fails_early loads chunks))"

text \<open>A stream with the notice before its first output.\<close>

fun announced :: "(string \<Rightarrow> pyval option) \<Rightarrow> string list \<Rightarrow> string list \<Rightarrow> string list" where
  "announced loads notice [] = []"
| "announced loads notice (chunk # chunks) =
     (if is_output loads chunk then notice @ chunk # chunks else chunk # announced loads notice chunks)"

lemma relay_emitted: "relay loads l notice True chunks = (chunks, None)"
  by (induction chunks) (auto simp: is_output_def)

lemma relay_early:
  "fails_early loads chunks = Some (pre, e) \<Longrightarrow> relay loads False notice False chunks = (pre, Some e)"
  by (induction chunks arbitrary: pre) (auto simp: is_output_def split: if_splits)

lemma relay_answers:
  "l \<or> fails_early loads chunks = None \<Longrightarrow> relay loads l notice False chunks = (announced loads notice chunks, None)"
  by (induction chunks) (auto simp: relay_emitted is_output_def split: if_splits)

definition early :: "(string \<Rightarrow> pyval option) \<Rightarrow> ('h route_to \<Rightarrow> string list) \<Rightarrow> 'h route_to \<Rightarrow> string list \<times> string" where
  "early loads stream c = (case fails_early loads (stream c) of Some x \<Rightarrow> x | None \<Rightarrow> ([], []))"

definition last_error :: "string option \<Rightarrow> string list \<Rightarrow> string option" where
  "last_error e es = (if es = [] then e else Some (last es))"

lemma relay_chain_answers:
  "cs \<noteq> [] \<Longrightarrow>
     \<exists>xs c ys. cs = xs @ c # ys \<and> list_all (\<lambda>x. fails_early loads (stream x) \<noteq> None) xs \<and>
       (ys = [] \<or> fails_early loads (stream c) = None) \<and>
       relay_chain loads stream primary first e cs =
         concat (map (fst \<circ> early loads stream) xs) @
         announced loads (if first \<and> xs = [] then []
           else [fallback_notice loads primary (fst (snd c)) (last_error e (map (snd \<circ> early loads stream) xs))]) (stream c)"
proof (induction cs arbitrary: first e)
  case (Cons c cs)
  show ?case
  proof (cases "cs = [] \<or> fails_early loads (stream c) = None")
    case True
    then show ?thesis
      by (intro exI [of _ "[]"] exI [of _ c] exI [of _ cs]) (auto simp: relay_answers last_error_def)
  next
    case False
    then obtain pre err where f: "fails_early loads (stream c) = Some (pre, err)" by auto
    from Cons.IH [of False "Some err"] False obtain xs d ys where
      cs: "cs = xs @ d # ys" and a: "list_all (\<lambda>x. fails_early loads (stream x) \<noteq> None) xs"
      and o: "ys = [] \<or> fails_early loads (stream d) = None"
      and r: "relay_chain loads stream primary False (Some err) cs =
         concat (map (fst \<circ> early loads stream) xs) @
         announced loads (if False \<and> xs = [] then []
           else [fallback_notice loads primary (fst (snd d)) (last_error (Some err) (map (snd \<circ> early loads stream) xs))]) (stream d)"
      by blast
    have c: "early loads stream c = (pre, err)" by (simp add: early_def f)
    have "relay_chain loads stream primary first e (c # cs) = pre @ relay_chain loads stream primary False (Some err) cs"
      using False by (simp add: relay_early [OF f])
    then show ?thesis
      by (intro exI [where x = "c # xs"], intro exI [where x = d], intro exI [where x = ys])
        (use a o f in \<open>simp add: cs r [unfolded cs] c last_error_def comp_def\<close>)
  qed
qed simp

text \<open>
  Claim C34. A fallback chain delivers the output of exactly one candidate: the first that does not fail
  before its output, or the last. All of its chunks pass unchanged, after one notice when it is
  not the primary; of the candidates before it only what they sent before their errors passes,
  which is no output. In particular the last error is never appended at the end.
\<close>

theorem fallback_single_answer:
  assumes "dedupe_candidates cs = p # rest"
  shows "\<exists>xs c ys. p # rest = xs @ c # ys \<and> list_all (\<lambda>x. fails_early loads (stream x) \<noteq> None) xs \<and>
    (if ys = [] then True else fails_early loads (stream c) = None) \<and>
    stream_llm_with_fallback loads stream cs =
      concat (map (fst \<circ> early loads stream) xs) @
      announced loads (if xs = [] then []
        else [fallback_notice loads (fst (snd p)) (fst (snd c)) (Some (last (map (snd \<circ> early loads stream) xs)))]) (stream c)"
proof -
  obtain xs c ys where x: "p # rest = xs @ c # ys" "list_all (\<lambda>x. fails_early loads (stream x) \<noteq> None) xs"
    "ys = [] \<or> fails_early loads (stream c) = None"
    "relay_chain loads stream (fst (snd p)) True None (p # rest) =
         concat (map (fst \<circ> early loads stream) xs) @
         announced loads (if True \<and> xs = [] then []
           else [fallback_notice loads (fst (snd p)) (fst (snd c)) (last_error None (map (snd \<circ> early loads stream) xs))]) (stream c)"
    using relay_chain_answers [of "p # rest" loads stream "fst (snd p)" True None] by blast
  have "stream_llm_with_fallback loads stream cs = relay_chain loads stream (fst (snd p)) True None (p # rest)"
    by (simp add: stream_llm_with_fallback_def assms del: relay_chain.simps)
  with x show ?thesis
    by - (intro exI [where x = xs], intro exI [where x = c], intro exI [where x = ys],
        auto simp add: last_error_def simp del: relay_chain.simps)
qed

lemma early_no_output: "fails_early loads chunks = Some (pre, e) \<Longrightarrow> list_all (\<lambda>c. \<not> is_output loads c) pre"
  by (induction chunks arbitrary: pre) (auto split: if_splits)

definition sample_loads :: "string \<Rightarrow> pyval option" where
  "sample_loads s = Some (PDict [(''text'', PStr s)])"

definition sample_stream :: "unit route_to \<Rightarrow> string list" where
  "sample_stream c = (if fst (snd c) = ''a'' then [''event: error'' @ newline @ ''data: busy'']
     else [''data: hi'', ''event: error late'', ''data: [DONE]''])"

theorem fallback_single_answer_witness:
  "stream_llm_with_fallback sample_loads sample_stream [(''u'', ''a'', ()), (''u'', ''a'', ()), (''v'', ''b'', ())] =
     [fallback_notice sample_loads ''a'' ''b'' (Some (''event: error'' @ newline @ ''data: busy'')),
      ''data: hi'', ''event: error late'', ''data: [DONE]'']"
proof -
  have d: "dedupe_candidates [(''u'', ''a'', ()), (''u'', ''a'', ()), (''v'', ''b'', ())] = [(''u'', ''a'', ()), (''v'', ''b'', ())]"
    by (simp add: dedupe_candidates_def)
  have e: "fails_early sample_loads (sample_stream (''u'', ''a'', ())) = Some ([], ''event: error'' @ newline @ ''data: busy'')"
    "fails_early sample_loads (sample_stream (''v'', ''b'', ())) = None"
    by (simp_all add: sample_stream_def is_error_chunk_def is_output_def event_field_def sample_loads_def)
  obtain xs c ys where x: "[(''u'', ''a'', ()), (''v'', ''b'', ())] = xs @ c # ys"
      "if ys = [] then True else fails_early sample_loads (sample_stream c) = None"
      "list_all (\<lambda>x. fails_early sample_loads (sample_stream x) \<noteq> None) xs"
    and s: "stream_llm_with_fallback sample_loads sample_stream [(''u'', ''a'', ()), (''u'', ''a'', ()), (''v'', ''b'', ())] =
      concat (map (fst \<circ> early sample_loads sample_stream) xs) @
      announced sample_loads (if xs = [] then []
        else [fallback_notice sample_loads ''a'' (fst (snd c)) (Some (last (map (snd \<circ> early sample_loads sample_stream) xs)))]) (sample_stream c)"
    using fallback_single_answer [OF d, of sample_loads sample_stream] by auto
  have "xs = [(''u'', ''a'', ())] \<and> c = (''v'', ''b'', ())"
    using x e by (cases xs) (auto simp: Cons_eq_append_conv split: if_splits)
  then show ?thesis using s e
    by (simp add: early_def sample_stream_def is_output_def is_error_chunk_def event_field_def sample_loads_def)
qed

text \<open>Without streams: the first success is the result, else the last error.\<close>

lemma try_calls_first:
  "try_calls call e cs = (case find (\<lambda>c. is_ok (call c)) cs of
     Some c \<Rightarrow> call c
   | None \<Rightarrow> Inl (case cs of [] \<Rightarrow> (case e of Some x \<Rightarrow> x | None \<Rightarrow> HTTPException 503 ''All fallback candidates failed'')
                 | _ \<Rightarrow> projl (call (last cs))))"
proof (induction cs arbitrary: e)
  case (Cons c cs)
  show ?case
  proof (cases "call c")
    case (Inl x)
    then have "try_calls call e (c # cs) = try_calls call (Some x) cs" by simp
    then show ?thesis unfolding Cons.IH by (cases cs) (simp_all add: Inl del: try_calls.simps split: option.split)
  qed simp
qed simp

end
