(* ===== verification/LlmGate.thy ===== *)
theory LlmGate
  imports PyRegex
begin

text \<open>
  The shared state of \<open>src/llm_core.py\<close> around a call to a model: the hosts that did not answer,
  the response cache, the activity of models, and the slot that serializes calls to a local model.
  Moments are in microseconds; \<open>urlsplit\<close> is a parameter.
\<close>

section \<open>Hosts that do not answer\<close>

definition DEAD_HOST_COOLDOWN :: int where "DEAD_HOST_COOLDOWN = 20000000"
definition HOST_FAIL_THRESHOLD :: nat where "HOST_FAIL_THRESHOLD = 2"

record host_health =
  hh_dead :: "int dict"
  hh_fails :: "nat dict"

definition all_healthy :: host_health where "all_healthy = \<lparr>hh_dead = [], hh_fails = []\<rparr>"

text \<open>\<open>split\<close> is \<open>urlsplit\<close>: the scheme and the network location.\<close>

definition host_key :: "(string \<Rightarrow> string \<times> string) \<Rightarrow> string \<Rightarrow> string" where
  "host_key split url =
     (let (scheme, netloc) = split url in if scheme \<noteq> [] \<and> netloc \<noteq> [] then scheme @ ''://'' @ netloc else url)"

definition is_host_dead :: "(string \<Rightarrow> string \<times> string) \<Rightarrow> int \<Rightarrow> string \<Rightarrow> host_health \<Rightarrow> host_health \<times> bool" where
  "is_host_dead split now url s =
     (let key = host_key split url in
      case dget (hh_dead s) key of
        None \<Rightarrow> (s, False)
      | Some expiry \<Rightarrow>
          if expiry \<le> now then (s\<lparr>hh_dead := dpop key (hh_dead s)\<rparr>, False) else (s, True))"

definition mark_host_dead :: "(string \<Rightarrow> string \<times> string) \<Rightarrow> int \<Rightarrow> string \<Rightarrow> host_health \<Rightarrow> host_health \<times> bool" where
  "mark_host_dead split now url s =
     (let key = host_key split url;
          n = (case dget (hh_fails s) key of None \<Rightarrow> 0 | Some k \<Rightarrow> k) + 1;
          s = s\<lparr>hh_fails := dset key n (hh_fails s)\<rparr>
      in if HOST_FAIL_THRESHOLD \<le> n then (s\<lparr>hh_dead := dset key (now + DEAD_HOST_COOLDOWN) (hh_dead s)\<rparr>, True)
         else (s, False))"

definition clear_host_dead :: "(string \<Rightarrow> string \<times> string) \<Rightarrow> string \<Rightarrow> host_health \<Rightarrow> host_health" where
  "clear_host_dead split url s =
     (let key = host_key split url in
      s\<lparr>hh_dead := dpop key (hh_dead s), hh_fails := dpop key (hh_fails s)\<rparr>)"

text \<open>What happens at a moment: a connection fails, a call succeeds, a call asks before it connects.\<close>

datatype host_event = H_fail int string | H_ok int string | H_ask int string

primrec event_time :: "host_event \<Rightarrow> int" where
  "event_time (H_fail t u) = t"
| "event_time (H_ok t u) = t"
| "event_time (H_ask t u) = t"

primrec host_step :: "(string \<Rightarrow> string \<times> string) \<Rightarrow> host_health \<Rightarrow> host_event \<Rightarrow> host_health" where
  "host_step split s (H_fail t u) = fst (mark_host_dead split t u s)"
| "host_step split s (H_ok t u) = clear_host_dead split u s"
| "host_step split s (H_ask t u) = fst (is_host_dead split t u s)"

text \<open>The history a verdict should rest on: the failures of a host since its last success, latest first.\<close>

fun failures_since :: "(string \<Rightarrow> string \<times> string) \<Rightarrow> string \<Rightarrow> int list \<Rightarrow> host_event list \<Rightarrow> int list" where
  "failures_since split key acc [] = acc"
| "failures_since split key acc (H_fail t u # es) =
     failures_since split key (if host_key split u = key then t # acc else acc) es"
| "failures_since split key acc (H_ok t u # es) =
     failures_since split key (if host_key split u = key then [] else acc) es"
| "failures_since split key acc (H_ask t u # es) = failures_since split key acc es"

definition history_dead :: "int \<Rightarrow> int list \<Rightarrow> bool" where
  "history_dead now fails = (HOST_FAIL_THRESHOLD \<le> length fails \<and> now < hd fails + DEAD_HOST_COOLDOWN)"

text \<open>What the two maps hold of one host's history, at a moment.\<close>

definition health_agrees :: "string \<Rightarrow> int list \<Rightarrow> int \<Rightarrow> host_health \<Rightarrow> bool" where
  "health_agrees key fails now s =
     (dget (hh_fails s) key = (if fails = [] then None else Some (length fails)) \<and>
      (case dget (hh_dead s) key of
         Some expiry \<Rightarrow> HOST_FAIL_THRESHOLD \<le> length fails \<and> expiry = hd fails + DEAD_HOST_COOLDOWN
       | None \<Rightarrow> \<not> history_dead now fails))"

lemma health_later: "health_agrees key fails now s \<Longrightarrow> now \<le> later \<Longrightarrow> health_agrees key fails later s"
  by (auto simp: health_agrees_def history_dead_def split: option.splits)

lemma host_step_agrees:
  assumes "health_agrees key fails (event_time e) s"
  shows "health_agrees key (failures_since split key fails [e]) (event_time e) (host_step split s e)"
proof (cases e)
  case (H_fail t u)
  then show ?thesis using assms
    by (cases fails)
      (auto simp: health_agrees_def mark_host_dead_def history_dead_def HOST_FAIL_THRESHOLD_def DEAD_HOST_COOLDOWN_def Let_def
        split: option.splits)
next
  case (H_ok t u)
  then show ?thesis using assms
    by (auto simp: health_agrees_def clear_host_dead_def history_dead_def HOST_FAIL_THRESHOLD_def Let_def split: option.splits)
next
  case (H_ask t u)
  then show ?thesis using assms
    by (auto simp: health_agrees_def is_host_dead_def history_dead_def Let_def split: option.splits)
qed

lemma failures_since_step: "failures_since split key acc (e # es) = failures_since split key (failures_since split key acc [e]) es"
  by (cases e) auto

lemma host_run_agrees:
  "health_agrees key fails t0 s \<Longrightarrow> sorted (t0 # map event_time es @ [now]) \<Longrightarrow>
     health_agrees key (failures_since split key fails es) now (run (host_step split) s es)"
proof (induction es arbitrary: s fails t0)
  case Nil
  then show ?case by (auto intro: health_later)
next
  case (Cons e es)
  from Cons.prems have a: "health_agrees key fails (event_time e) s" by (auto intro: health_later)
  from Cons.IH [OF host_step_agrees [OF a]] Cons.prems(2) show ?case
    by (simp add: failures_since_step [of split key fails e es])
qed

section \<open>The response cache\<close>

definition set_cached_response :: "string \<Rightarrow> string \<Rightarrow> string dict \<Rightarrow> string dict" where
  "set_cached_response key response cache =
     dset key response (if 128 < length cache then foldl (\<lambda>c k. dpop k c) cache (take 64 (dkeys cache)) else cache)"

definition get_cached_response :: "string \<Rightarrow> string dict \<Rightarrow> string option" where
  "get_cached_response key cache = dget cache key"

lemma dpop_take: "wf_dict d \<Longrightarrow> foldl (\<lambda>c k. dpop k c) d (take n (dkeys d)) = drop n d"
proof (induction n arbitrary: d)
  case (Suc n)
  show ?case
  proof (cases d)
    case (Cons x xs)
    then have "dpop (fst x) xs = xs" using Suc.prems by (intro dpop_absent) auto
    then show ?thesis using Suc Cons by (cases x) simp
  qed simp
qed simp

lemma length_dset: "length (dset k v d) \<le> length d + 1"
  by (induction d) auto

lemma cache_bounded:
  "wf_dict cache \<Longrightarrow> length cache \<le> 129 \<Longrightarrow>
     wf_dict (set_cached_response k v cache) \<and> length (set_cached_response k v cache) \<le> 129"
  using length_dset [of k v cache] length_dset [of k v "drop 64 cache"]
  by (auto simp: set_cached_response_def dpop_take drop_map [symmetric])

definition cache_step :: "string dict \<Rightarrow> string \<times> string \<Rightarrow> string dict" where
  "cache_step cache kv = set_cached_response (fst kv) (snd kv) cache"

interpretation response_cache: invariant_system cache_step "\<lambda>c. wf_dict c \<and> length c \<le> 129"
  by unfold_locales (simp add: cache_step_def cache_bounded)

section \<open>The activity of models\<close>

definition model_activity_key :: "string \<Rightarrow> string \<Rightarrow> string" where
  "model_activity_key url model = strip url @ ''|'' @ strip model"

definition same_model_identity :: "string \<Rightarrow> string \<Rightarrow> bool" where
  "same_model_identity left right = (lower (strip left) = lower (strip right))"

definition note_model_activity :: "int \<Rightarrow> string \<Rightarrow> string \<Rightarrow> int dict \<Rightarrow> int dict" where
  "note_model_activity now url model act =
     (if url = [] \<or> model = [] then act else dset (model_activity_key url model) now act)"

definition since_model_activity :: "int \<Rightarrow> string \<Rightarrow> string \<Rightarrow> int dict \<Rightarrow> int option" where
  "since_model_activity now url model act =
     (case dget act (model_activity_key url model) of
        None \<Rightarrow> None | Some ts \<Rightarrow> if ts = 0 then None else Some (max 0 (now - ts)))"

section \<open>The slot of a local model\<close>

text \<open>
  A call enters the slot, waits for the lock, runs, and leaves. The steps are what happens between
  two suspensions of the event loop. \<open>asyncio.Lock\<close> hands over in the order of its queue: a
  released lock with waiters is taken by the first of them, and a new caller queues behind it.
\<close>

datatype workload = Foreground | Background

definition gate_workload :: "string option \<Rightarrow> workload" where
  "gate_workload w = (if lower (case w of None \<Rightarrow> [] | Some s \<Rightarrow> s) = ''background'' then Background else Foreground)"

definition local_model_gate_enabled :: "string option \<Rightarrow> bool" where
  "local_model_gate_enabled env =
     (lower (case env of None \<Rightarrow> ''true'' | Some s \<Rightarrow> s) \<notin> {''0'', ''false'', ''no'', ''off''})"

record slot =
  sl_waiting :: nat                        \<comment> \<open>\<open>_LOCAL_MODEL_WAITING_FOREGROUND\<close>\<close>
  sl_polling :: "nat list"                 \<comment> \<open>background calls asleep between two looks\<close>
  sl_queue :: "(nat \<times> workload) list"      \<comment> \<open>the waiters of the lock\<close>
  sl_holder :: "(nat \<times> workload) option"   \<comment> \<open>who is between acquire and release\<close>
  sl_current :: "(nat \<times> workload) option"  \<comment> \<open>\<open>_LOCAL_MODEL_CURRENT\<close>\<close>
  sl_cancelled :: "nat list"               \<comment> \<open>tasks that were told to cancel\<close>

definition free_slot :: slot where
  "free_slot = \<lparr>sl_waiting = 0, sl_polling = [], sl_queue = [], sl_holder = None, sl_current = None, sl_cancelled = []\<rparr>"

text \<open>After the lock is acquired.\<close>

definition slot_acquired :: "nat \<Rightarrow> workload \<Rightarrow> slot \<Rightarrow> slot" where
  "slot_acquired t kind s =
     s\<lparr>sl_waiting := (if kind = Foreground then sl_waiting s - 1 else sl_waiting s),
       sl_holder := Some (t, kind), sl_current := Some (t, kind)\<rparr>"

text \<open>\<open>await lock.acquire()\<close>: at once when the lock is free and nobody waits, else in the queue.\<close>

definition slot_acquire :: "nat \<Rightarrow> workload \<Rightarrow> slot \<Rightarrow> slot" where
  "slot_acquire t kind s =
     (if sl_holder s = None \<and> sl_queue s = [] then slot_acquired t kind s
      else s\<lparr>sl_queue := sl_queue s @ [(t, kind)]\<rparr>)"

definition slot_enter_foreground :: "nat \<Rightarrow> slot \<Rightarrow> slot" where
  "slot_enter_foreground t s0 =
     (let s = s0\<lparr>sl_waiting := sl_waiting s0 + 1\<rparr>;
          s = (case sl_current s of
                 Some (b, Background) \<Rightarrow> s\<lparr>sl_cancelled := b # sl_cancelled s\<rparr>
               | _ \<Rightarrow> s)
      in slot_acquire t Foreground s)"

text \<open>A look of a background call: on, or back to sleep. \<open>busy\<close> is \<open>has_foreground_activity()\<close>.\<close>

definition slot_look :: "bool \<Rightarrow> nat \<Rightarrow> slot \<Rightarrow> slot" where
  "slot_look busy t s =
     (if 0 < sl_waiting s \<or> busy then s\<lparr>sl_polling := t # removeAll t (sl_polling s)\<rparr>
      else slot_acquire t Background (s\<lparr>sl_polling := removeAll t (sl_polling s)\<rparr>))"

text \<open>The first waiter resumes.\<close>

definition slot_grant :: "slot \<Rightarrow> slot" where
  "slot_grant s =
     (case (sl_holder s, sl_queue s) of
        (None, (t, kind) # q) \<Rightarrow> slot_acquired t kind (s\<lparr>sl_queue := q\<rparr>)
      | _ \<Rightarrow> s)"

text \<open>The \<open>finally\<close> block of the holder, after its call or its cancellation.\<close>

definition slot_leave :: "nat \<Rightarrow> slot \<Rightarrow> slot" where
  "slot_leave t s =
     (case sl_holder s of
        Some (h, kind) \<Rightarrow>
          if h = t then
            s\<lparr>sl_waiting := (if kind = Foreground then sl_waiting s - 1 else sl_waiting s),
              sl_current := (case sl_current s of Some (c, k) \<Rightarrow> if c = t then None else sl_current s | None \<Rightarrow> None),
              sl_holder := None\<rparr>
          else s
      | None \<Rightarrow> s)"

text \<open>The \<open>finally\<close> block of a waiter that is cancelled in the queue.\<close>

definition slot_abandon :: "nat \<Rightarrow> slot \<Rightarrow> slot" where
  "slot_abandon t s =
     (case find (\<lambda>(x, k). x = t) (sl_queue s) of
        None \<Rightarrow> s
      | Some (_, kind) \<Rightarrow>
          s\<lparr>sl_waiting := (if kind = Foreground then sl_waiting s - 1 else sl_waiting s),
            sl_queue := remove1 (t, kind) (sl_queue s)\<rparr>)"

datatype slot_event = S_foreground nat | S_look bool nat | S_grant | S_leave nat | S_abandon nat

primrec slot_step :: "slot \<Rightarrow> slot_event \<Rightarrow> slot" where
  "slot_step s (S_foreground t) = slot_enter_foreground t s"
| "slot_step s (S_look busy t) = slot_look busy t s"
| "slot_step s S_grant = slot_grant s"
| "slot_step s (S_leave t) = slot_leave t s"
| "slot_step s (S_abandon t) = slot_abandon t s"

text \<open>The foreground calls that wait for the lock.\<close>

definition foreground_waiters :: "slot \<Rightarrow> nat" where
  "foreground_waiters s = length (filter (\<lambda>(t, k). k = Foreground) (sl_queue s))"

definition slot_inv :: "slot \<Rightarrow> bool" where
  "slot_inv s = (sl_current s = sl_holder s \<and> sl_waiting s \<le> foreground_waiters s)"

lemma slot_acquire_inv:
  "sl_current s = sl_holder s \<Longrightarrow> sl_waiting s \<le> foreground_waiters s + of_bool (k = Foreground) \<Longrightarrow>
     slot_inv (slot_acquire t k s)"
  by (auto simp: slot_acquire_def slot_acquired_def slot_inv_def foreground_waiters_def split: if_splits)

lemma waiters_remove1:
  "find (\<lambda>(x, k). x = t) q = Some (u, k) \<Longrightarrow>
     length (filter (\<lambda>(t, k). k = Foreground) (remove1 (t, k) q)) + of_bool (k = Foreground) =
     length (filter (\<lambda>(t, k). k = Foreground) q)"
  by (induction q) (auto split: if_splits)

lemma slot_step_inv: "slot_inv s \<Longrightarrow> slot_inv (slot_step s e)"
proof (cases e)
  case (S_foreground t)
  assume "slot_inv s"
  then show ?thesis unfolding S_foreground slot_step.simps slot_enter_foreground_def Let_def
    by (intro slot_acquire_inv) (auto simp: slot_inv_def foreground_waiters_def split: option.split workload.split)
next
  case (S_look busy t)
  assume a: "slot_inv s"
  then have "slot_inv (slot_acquire t Background (s\<lparr>sl_polling := removeAll t (sl_polling s)\<rparr>))"
    by (intro slot_acquire_inv) (auto simp: slot_inv_def foreground_waiters_def)
  with a show ?thesis by (auto simp: S_look slot_look_def slot_inv_def foreground_waiters_def)
next
  case S_grant
  assume "slot_inv s"
  then show ?thesis
    by (auto simp: S_grant slot_grant_def slot_acquired_def slot_inv_def foreground_waiters_def split: option.split list.split)
next
  case (S_leave t)
  assume "slot_inv s"
  then show ?thesis by (auto simp: S_leave slot_leave_def slot_inv_def foreground_waiters_def split: option.splits)
next
  case (S_abandon t)
  assume "slot_inv s"
  then show ?thesis using waiters_remove1 [of t "sl_queue s"]
    by (auto simp: S_abandon slot_abandon_def slot_inv_def foreground_waiters_def split: option.splits)
qed

interpretation local_slot: invariant_system slot_step slot_inv
  by unfold_locales (rule slot_step_inv)

section \<open>Properties\<close>

text \<open>
  A host is held to be dead exactly on its history: it failed at least twice since its last
  success, and its last failure is less than twenty seconds ago. The two maps, which forget
  expired entries on the way, answer every question as that history does.
\<close>

theorem dead_host_is_history:
  assumes "sorted (map event_time es @ [now])"
  shows "snd (is_host_dead split now url (run (host_step split) all_healthy es)) =
    history_dead now (failures_since split (host_key split url) [] es)"
proof -
  let ?key = "host_key split url" and ?s = "run (host_step split) all_healthy es"
  have a: "health_agrees ?key (failures_since split ?key [] es) now ?s"
  proof (cases es)
    case Nil
    then show ?thesis by (simp add: health_agrees_def all_healthy_def history_dead_def HOST_FAIL_THRESHOLD_def)
  next
    case (Cons e rest)
    have "health_agrees ?key [] (event_time e) all_healthy"
      by (simp add: health_agrees_def all_healthy_def history_dead_def HOST_FAIL_THRESHOLD_def)
    then show ?thesis by (rule host_run_agrees) (use assms Cons in auto)
  qed
  then show ?thesis
    by (auto simp: health_agrees_def is_host_dead_def history_dead_def Let_def split: option.splits)
qed

definition plain_split :: "string \<Rightarrow> string \<times> string" where
  "plain_split url = (''http'', url)"

theorem dead_host_is_history_witness:
  "snd (is_host_dead plain_split 19000005 ''h'' (run (host_step plain_split) all_healthy
     [H_fail 1 ''h'', H_fail 2 ''g'', H_ask 3 ''h'', H_fail 5 ''h''])) \<and>
   \<not> snd (is_host_dead plain_split 20000005 ''h'' (run (host_step plain_split) all_healthy
     [H_fail 1 ''h'', H_fail 2 ''g'', H_ask 3 ''h'', H_fail 5 ''h'']))"
  by (subst (1 2) dead_host_is_history)
    (simp_all add: plain_split_def host_key_def history_dead_def HOST_FAIL_THRESHOLD_def DEAD_HOST_COOLDOWN_def)

text \<open>
  The response cache never holds more than 129 answers, each under its own key, and the answer
  stored last is found.
\<close>

theorem response_cache_bounded:
  "let c = run cache_step [] kvs in
   wf_dict c \<and> length c \<le> 129 \<and> get_cached_response k (cache_step c (k, v)) = Some v"
  using response_cache.run_inv [of "[]" kvs]
  by (simp add: Let_def get_cached_response_def cache_step_def set_cached_response_def)

text \<open>
  The slot serves one call at a time, and its record of the current call is the holder of the lock;
  the counter of waiting foreground calls never exceeds those that wait.
\<close>

theorem slot_serves_one:
  "sl_current (run slot_step free_slot es) = sl_holder (run slot_step free_slot es) \<and>
   sl_waiting (run slot_step free_slot es) \<le> foreground_waiters (run slot_step free_slot es)"
  using local_slot.run_inv [of free_slot es] by (simp add: slot_inv_def free_slot_def foreground_waiters_def)

text \<open>
  But the counter can be too small: a foreground call takes itself off it when it gets the lock and
  again when it leaves. With three foreground calls, the third still waits when the counter is back
  at zero; a background call that looks then is let into the queue, and a foreground call that
  arrives after it waits until the background call, which nobody cancels, is done.
\<close>

theorem background_overtakes_foreground:
  "let s = run slot_step free_slot
        [S_foreground 1, S_foreground 2, S_foreground 3, S_leave 1, S_grant, S_look False 9, S_foreground 4,
         S_leave 2, S_grant, S_leave 3, S_grant]
   in sl_holder s = Some (9, Background) \<and> sl_queue s = [(4, Foreground)] \<and> sl_cancelled s = []"
  by (simp add: Let_def free_slot_def slot_enter_foreground_def slot_acquire_def slot_acquired_def slot_look_def
      slot_grant_def slot_leave_def)

end
