(* ===== verification/LlmMessages.thy ===== *)
theory LlmMessages
  imports PyRegex
begin

text \<open>
  \<open>_sanitize_llm_messages\<close> of \<open>src/llm_core.py\<close>: what of a conversation is sent to a model
  provider. A message is a dictionary, its content a JSON-like value.
\<close>

section \<open>Content\<close>

definition as_content_blocks :: "pyval \<Rightarrow> pyval list" where
  "as_content_blocks content =
     (case content of
        PList xs \<Rightarrow> xs
      | _ \<Rightarrow> if truthy content then [PDict [(''type'', PStr ''text''), (''text'', PStr (py_str content))]] else [])"

definition untrusted_text :: "string \<Rightarrow> bool" where
  "untrusted_text s =
     (starts_with (''UNTRUSTED SOURCE DATA'' @ newline) s \<or> contains ''<<<UNTRUSTED_SOURCE_DATA>>>'' s)"

function untrusted_content :: "pyval \<Rightarrow> bool" where
  "untrusted_content content =
     (case content of
        PStr s \<Rightarrow> untrusted_text s
      | PList blocks \<Rightarrow>
          list_ex (\<lambda>block. case block of
             PDict d \<Rightarrow> pget d ''type'' = PStr ''text'' \<and>
               (if truthy (pget d ''text'') then untrusted_content (pget d ''text'') else untrusted_text [])
           | _ \<Rightarrow> False) blocks
      | _ \<Rightarrow> False)"
  by pat_completeness auto
termination
proof (relation "measure size", simp)
  fix content blocks block d
  assume "content = PList blocks" "block \<in> set blocks" "block = PDict d" "truthy (pget d ''text'')"
  then have "(''text'', pget d ''text'') \<in> set d" by (intro pget_in) auto
  then have "size (pget d ''text'') < size block" using size_dict_entry \<open>block = PDict d\<close> by blast
  also have "\<dots> < size content" using size_list_entry \<open>block \<in> set blocks\<close> \<open>content = PList blocks\<close> by blast
  finally show "(pget d ''text'', content) \<in> measure size" by simp
qed

declare untrusted_content.simps [simp del]

definition REFERENCE_CONTEXT_BOUNDARY :: string where
  "REFERENCE_CONTEXT_BOUNDARY = ''Reference context received.''"

section \<open>Messages that may be sent\<close>

type_synonym message = "pyval dict"

definition ALLOWED_KEYS :: "string list" where
  "ALLOWED_KEYS = [''role'', ''content'', ''name'', ''tool_call_id'', ''tool_calls'', ''function_call'', ''reasoning_content'']"

definition has_key :: "string \<Rightarrow> message \<Rightarrow> bool" where
  "has_key k m = (k \<in> set (dkeys m))"

definition role_is :: "string \<Rightarrow> message \<Rightarrow> bool" where
  "role_is r m = (pget m ''role'' = PStr r)"

definition allowed_item :: "pyval dict \<Rightarrow> message" where
  "allowed_item msg = filter (\<lambda>(k, v). k \<in> set ALLOWED_KEYS \<and> v \<noteq> PNone) msg"

definition clean_message :: "pyval \<Rightarrow> message option" where
  "clean_message v =
     (case v of
        PDict msg \<Rightarrow>
          (let item = allowed_item msg in
           if \<not> truthy (pget item ''role'') then None
           else if role_is ''assistant'' item then
             (let item = (if \<not> has_key ''content'' item \<and> truthy (pget item ''tool_calls'')
                          then dset ''content'' PNone item else item)
              in if has_key ''content'' item \<or> truthy (pget item ''tool_calls'') then Some item else None)
           else if role_is ''tool'' item then
             (if has_key ''content'' item \<and> has_key ''tool_call_id'' item then Some item else None)
           else if has_key ''content'' item then Some item else None)
      | _ \<Rightarrow> None)"

section \<open>Tool calls and their answers\<close>

text \<open>A loop over \<open>tool_calls\<close>.\<close>

definition calls_of :: "pyval \<Rightarrow> pyval list result" where
  "calls_of v =
     (case v of PList xs \<Rightarrow> Inr xs | PTuple xs \<Rightarrow> Inr xs
      | PStr s \<Rightarrow> Inr (map (\<lambda>c. PStr [c]) s) | PDict d \<Rightarrow> Inr (map PStr (dkeys d))
      | _ \<Rightarrow> Inl (TypeError ''not iterable''))"

definition call_id :: "pyval \<Rightarrow> string" where
  "call_id tc = py_str (pget (as_mapping tc) ''id'')"

definition call_ids :: "pyval list \<Rightarrow> string list" where
  "call_ids calls = map call_id (filter (\<lambda>tc. is_mapping tc \<and> truthy (pget (as_mapping tc) ''id'')) calls)"

definition answer_id :: "message \<Rightarrow> string" where
  "answer_id m = str_or (pget m ''tool_call_id'')"

text \<open>The answers of a batch: expected, and the first of their id.\<close>

fun matched_answers :: "string list \<Rightarrow> string list \<Rightarrow> message list \<Rightarrow> message list" where
  "matched_answers expected answered [] = []"
| "matched_answers expected answered (m # ms) =
     (if answer_id m \<in> set expected \<and> answer_id m \<notin> set answered
      then m # matched_answers expected (answered @ [answer_id m]) ms
      else matched_answers expected answered ms)"

text \<open>An assistant message whose calls nobody answered: only its text stays, when it has some.\<close>

definition unanswered :: "message \<Rightarrow> message list result" where
  "unanswered msg =
     (let plain = filter (\<lambda>(k, v). k \<noteq> ''tool_calls'') msg in
      case (if truthy (pget plain ''content'') then pget plain ''content'' else PStr []) of
        PStr s \<Rightarrow> Inr (if strip s \<noteq> [] then [plain] else [])
      | _ \<Rightarrow> Inl (AttributeError ''strip''))"

definition answered_call :: "message \<Rightarrow> pyval list \<Rightarrow> message list \<Rightarrow> message list" where
  "answered_call msg calls batch =
     (let answered = map answer_id batch;
          fixed = dset ''tool_calls'' (PList (filter (\<lambda>tc. is_mapping tc \<and> call_id tc \<in> set answered) calls)) msg;
          fixed = (if has_key ''content'' fixed then fixed else dset ''content'' PNone fixed)
      in fixed # batch)"

function repair_calls :: "message list \<Rightarrow> message list result" where
  "repair_calls [] = Inr []"
| "repair_calls (msg # rest) =
     (if role_is ''tool'' msg then repair_calls rest
      else if \<not> (role_is ''assistant'' msg \<and> truthy (pget msg ''tool_calls'')) then
        rbind (repair_calls rest) (\<lambda>out. Inr (msg # out))
      else
        rbind (calls_of (pget msg ''tool_calls'')) (\<lambda>calls.
          let batch = matched_answers (call_ids calls) [] (takeWhile (role_is ''tool'') rest);
              after = dropWhile (role_is ''tool'') rest
          in rbind (if batch = [] then unanswered msg else Inr (answered_call msg calls batch)) (\<lambda>head.
             rbind (repair_calls after) (\<lambda>out. Inr (head @ out)))))"
  by pat_completeness auto
termination
  by (relation "measure length") (auto simp: le_imp_less_Suc length_dropWhile_le)

section \<open>User messages in a row\<close>

definition boundary_message :: message where
  "boundary_message = [(''role'', PStr ''assistant''), (''content'', PStr REFERENCE_CONTEXT_BOUNDARY)]"

definition is_list :: "pyval \<Rightarrow> bool" where
  "is_list v = (case v of PList _ \<Rightarrow> True | _ \<Rightarrow> False)"

definition str_or_empty :: "pyval \<Rightarrow> string" where
  "str_or_empty v = (if v = PNone then [] else py_str v)"

definition merged_content :: "pyval \<Rightarrow> pyval \<Rightarrow> pyval" where
  "merged_content lc ic =
     (if is_list lc \<or> is_list ic then PList (as_content_blocks lc @ as_content_blocks ic)
      else PStr (join (newline @ newline) (filter (\<lambda>p. p \<noteq> []) [str_or_empty lc, str_or_empty ic])))"

definition merge_user :: "message \<Rightarrow> message \<Rightarrow> message" where
  "merge_user prior item =
     (let content = merged_content (pget prior ''content'') (pget item ''content'')
      in if truthy content then dset ''content'' content prior else dpop ''content'' prior)"

text \<open>One round of the loop: the last merged message, and what it becomes with the next one.\<close>

definition merge_next :: "message \<Rightarrow> message \<Rightarrow> message list" where
  "merge_next prior item =
     (if role_is ''user'' prior \<and> role_is ''user'' item then
        (if untrusted_content (pget prior ''content'') then [prior, boundary_message, item] else [merge_user prior item])
      else [prior, item])"

definition merge_step :: "message list \<Rightarrow> message \<Rightarrow> message list" where
  "merge_step merged item = (if merged = [] then [item] else butlast merged @ merge_next (last merged) item)"

definition merge_users :: "message list \<Rightarrow> message list" where
  "merge_users ms = foldl merge_step [] ms"

definition sanitize_llm_messages :: "pyval list \<Rightarrow> message list result" where
  "sanitize_llm_messages messages =
     rbind (repair_calls (List.map_filter clean_message messages)) (\<lambda>repaired. Inr (merge_users repaired))"

section \<open>Conversations that providers accept\<close>

text \<open>
  A reader of the conversation that knows which calls still wait for an answer: an answer must be
  to one of them, and nothing else may come before all are answered.
\<close>

definition calls_made :: "message \<Rightarrow> string list" where
  "calls_made m = (case pget m ''tool_calls'' of PList calls \<Rightarrow> map call_id calls | _ \<Rightarrow> [])"

definition makes_calls :: "message \<Rightarrow> bool" where
  "makes_calls m = (role_is ''assistant'' m \<and> truthy (pget m ''tool_calls''))"

fun paired :: "string list \<Rightarrow> message list \<Rightarrow> bool" where
  "paired due [] = (due = [])"
| "paired due (m # ms) =
     (if role_is ''tool'' m then answer_id m \<in> set due \<and> paired (removeAll (answer_id m) due) ms
      else due = [] \<and> (if makes_calls m then calls_made m \<noteq> [] \<and> paired (calls_made m) ms else paired [] ms))"

fun no_user_pair :: "message list \<Rightarrow> bool" where
  "no_user_pair (a # b # ms) = (\<not> (role_is ''user'' a \<and> role_is ''user'' b) \<and> no_user_pair (b # ms))"
| "no_user_pair ms = True"

definition sendable :: "message \<Rightarrow> bool" where
  "sendable m = (set (dkeys m) \<subseteq> set ALLOWED_KEYS \<and> truthy (pget m ''role''))"

lemma role_is_other: "role_is r m \<Longrightarrow> r \<noteq> r' \<Longrightarrow> \<not> role_is r' m"
  by (simp add: role_is_def)

lemma pget_filter: "pget (filter (\<lambda>(k, v). k \<noteq> k') m) k = (if k = k' then PNone else pget m k)"
  by (induction m) auto

lemma pget_dpop: "pget (dpop k d) k' = (if k' = k then PNone else pget d k')"
  by (simp add: pget_def)

lemma role_is_simps [simp]:
  "k \<noteq> ''role'' \<Longrightarrow> role_is r (dset k v m) = role_is r m"
  "k \<noteq> ''role'' \<Longrightarrow> role_is r (dpop k m) = role_is r m"
  "k \<noteq> ''role'' \<Longrightarrow> role_is r (filter (\<lambda>(x, v). x \<noteq> k) m) = role_is r m"
  by (simp_all add: role_is_def pget_filter pget_dpop)

section \<open>Repair\<close>

lemma matched_answers_facts:
  "list_all P ms \<Longrightarrow> list_all P (matched_answers expected answered ms)"
  "set (map answer_id (matched_answers expected answered ms)) \<subseteq> set expected"
  "distinct (map answer_id (matched_answers expected answered ms)) \<and>
   set (map answer_id (matched_answers expected answered ms)) \<inter> set answered = {}"
  by (induction expected answered ms rule: matched_answers.induct) auto

lemma paired_batch:
  "list_all (role_is ''tool'') batch \<Longrightarrow> distinct (map answer_id batch) \<Longrightarrow>
     set (map answer_id batch) = set due \<Longrightarrow> paired [] out \<Longrightarrow> paired due (batch @ out)"
proof (induction batch arbitrary: due)
  case Nil
  then show ?case by (cases due) auto
next
  case (Cons m batch)
  have "set (map answer_id batch) = set due - {answer_id m}"
    using Cons.prems(2) unfolding Cons.prems(3) [symmetric] by simp
  then have "set (map answer_id batch) = set (removeAll (answer_id m) due)" by simp
  with Cons show ?case by auto
qed

lemma answered_call_paired:
  assumes "role_is ''assistant'' msg" "batch = matched_answers (call_ids calls) [] ms" "batch \<noteq> []"
    "list_all (role_is ''tool'') ms" "paired [] out"
  shows "paired [] (answered_call msg calls batch @ out)"
proof -
  let ?kept = "filter (\<lambda>tc. is_mapping tc \<and> call_id tc \<in> set (map answer_id batch)) calls"
  have sub: "set (map answer_id batch) \<subseteq> set (call_ids calls)"
    unfolding assms(2) by (rule matched_answers_facts(2))
  have eq: "set (map answer_id batch) = set (map call_id ?kept)"
  proof
    show "set (map call_id ?kept) \<subseteq> set (map answer_id batch)" by auto
    show "set (map answer_id batch) \<subseteq> set (map call_id ?kept)"
    proof
      fix i assume i: "i \<in> set (map answer_id batch)"
      with sub obtain tc where "tc \<in> set calls" "is_mapping tc" "call_id tc = i" by (auto simp: call_ids_def)
      with i show "i \<in> set (map call_id ?kept)" by auto
    qed
  qed
  have b: "list_all (role_is ''tool'') batch" "distinct (map answer_id batch)"
    unfolding assms(2) using matched_answers_facts(1,3) assms(4) by blast+
  obtain fixed where f: "answered_call msg calls batch = fixed # batch" "role_is ''assistant'' fixed"
    "pget fixed ''tool_calls'' = PList ?kept"
    using assms(1) by (auto simp: answered_call_def Let_def)
  have ne: "?kept \<noteq> []"
  proof
    assume k: "?kept = []"
    from eq [unfolded k] have "set (map answer_id batch) = {}" by simp
    with assms(3) show False by simp
  qed
  have "paired (map call_id ?kept) (batch @ out)" by (rule paired_batch [OF b eq assms(5)])
  with f(2,3) ne show ?thesis
    by (auto simp: f(1) makes_calls_def calls_made_def role_is_other simp del: set_map)
qed

lemma unanswered_paired:
  "role_is ''assistant'' msg \<Longrightarrow> unanswered msg = Inr head \<Longrightarrow> paired [] out \<Longrightarrow> paired [] (head @ out)"
  by (auto simp: unanswered_def Let_def makes_calls_def pget_filter role_is_other split: pyval.splits if_splits)

lemma repair_paired: "repair_calls ms = Inr out \<Longrightarrow> paired [] out"
proof (induction ms arbitrary: out rule: repair_calls.induct)
  case 1
  then show ?case by simp
next
  case (2 msg rest)
  show ?case
  proof (cases "role_is ''tool'' msg")
    case True
    with 2 show ?thesis by simp
  next
    case F: False
    show ?thesis
    proof (cases "role_is ''assistant'' msg \<and> truthy (pget msg ''tool_calls'')")
      case False
      with "2.prems" F obtain o' where "repair_calls rest = Inr o'" "out = msg # o'"
        by (auto simp: rbind_Inr_iff)
      with "2.IH"(2) [OF F] False F show ?thesis by (auto simp: makes_calls_def)
    next
      case M: True
      let ?tools = "takeWhile (role_is ''tool'') rest" and ?after = "dropWhile (role_is ''tool'') rest"
      from "2.prems" F M obtain calls head o' where c: "calls_of (pget msg ''tool_calls'') = Inr calls"
        and h: "(if matched_answers (call_ids calls) [] ?tools = [] then unanswered msg
          else Inr (answered_call msg calls (matched_answers (call_ids calls) [] ?tools))) = Inr head"
        and o': "repair_calls ?after = Inr o'" "out = head @ o'"
        by (auto simp: rbind_Inr_iff Let_def)
      have p: "paired [] o'"
        using "2.IH"(3) [OF F _ refl refl] M o'(1) by simp
      show ?thesis
      proof (cases "matched_answers (call_ids calls) [] ?tools = []")
        case True
        with h have "unanswered msg = Inr head" by simp
        then show ?thesis unfolding o'(2) using M by (intro unanswered_paired [OF _ _ p]) simp_all
      next
        case False
        have "list_all (role_is ''tool'') ?tools" by (auto simp: list_all_iff dest: set_takeWhileD)
        moreover have "head = answered_call msg calls (matched_answers (call_ids calls) [] ?tools)" using h False by simp
        ultimately show ?thesis using answered_call_paired [OF _ refl False _ p, of msg] M by (simp add: o'(2))
      qed
    qed
  qed
qed

section \<open>Merging\<close>

text \<open>The loop with its last message apart.\<close>

fun merge_from :: "message \<Rightarrow> message list \<Rightarrow> message list" where
  "merge_from prior [] = [prior]"
| "merge_from prior (item # rest) =
     butlast (merge_next prior item) @ merge_from (last (merge_next prior item)) rest"

lemma merge_next_nonempty [simp]: "merge_next prior item \<noteq> []"
  by (simp add: merge_next_def)

lemma merge_foldl: "foldl merge_step (acc @ [prior]) rest = acc @ merge_from prior rest"
proof (induction rest arbitrary: acc prior)
  case (Cons item rest)
  have "merge_step (acc @ [prior]) item = (acc @ butlast (merge_next prior item)) @ [last (merge_next prior item)]"
    by (simp add: merge_step_def)
  then have "foldl merge_step (acc @ [prior]) (item # rest) =
      foldl merge_step ((acc @ butlast (merge_next prior item)) @ [last (merge_next prior item)]) rest" by simp
  then show ?case unfolding Cons.IH by simp
qed simp

lemma merge_users_from: "merge_users ms = (case ms of [] \<Rightarrow> [] | m # rest \<Rightarrow> merge_from m rest)"
  using merge_foldl [of "[]"] by (cases ms) (simp_all add: merge_users_def merge_step_def)

lemma merge_user_role: "role_is r (merge_user prior item) = role_is r prior"
  by (simp add: merge_user_def Let_def)

text \<open>A message that is no answer and makes no calls only asks that none are due.\<close>

definition calm :: "message \<Rightarrow> bool" where
  "calm m = (\<not> role_is ''tool'' m \<and> \<not> makes_calls m)"

lemma paired_calm [simp]: "calm m \<Longrightarrow> paired due (m # ms) = (due = [] \<and> paired [] ms)"
  by (simp add: calm_def)

declare paired.simps(2) [simp del]

lemma user_calm: "role_is ''user'' m \<Longrightarrow> calm m"
  by (simp add: calm_def makes_calls_def role_is_def)

lemma boundary_calm: "calm boundary_message"
  by (simp add: calm_def makes_calls_def role_is_def boundary_message_def)

lemma boundary_no_user: "\<not> role_is ''user'' boundary_message"
  by (simp add: role_is_def boundary_message_def)

lemma merge_from_paired: "paired due (prior # rest) \<Longrightarrow> paired due (merge_from prior rest)"
proof (induction rest arbitrary: due prior)
  case (Cons item rest)
  show ?case
  proof (cases "role_is ''user'' prior \<and> role_is ''user'' item")
    case True
    then have c: "calm prior" "calm item" "calm (merge_user prior item)"
      by (simp_all add: user_calm merge_user_role)
    from Cons.prems [unfolded paired_calm [OF c(1)] paired_calm [OF c(2)]] have d: "due = []" "paired [] rest" by simp_all
    show ?thesis
    proof (cases "untrusted_content (pget prior ''content'')")
      case u: True
      have "paired [] (merge_from item rest)" using Cons.IH [of "[]" item] c d by simp
      then show ?thesis using True u c d boundary_calm by (simp add: merge_next_def)
    next
      case False
      have "paired due (merge_from (merge_user prior item) rest)" using Cons.IH c d by simp
      then show ?thesis using True False by (simp add: merge_next_def)
    qed
  next
    case False
    have "merge_from prior (item # rest) = prior # merge_from item rest"
      using False by (auto simp: merge_next_def)
    then show ?thesis using Cons.prems Cons.IH
      by (auto simp: paired.simps(2) [of _ prior] simp del: merge_from.simps split: if_splits)
  qed
qed simp

lemma no_user_pair_Cons:
  "no_user_pair (a # ms) = (no_user_pair ms \<and> (ms \<noteq> [] \<longrightarrow> \<not> (role_is ''user'' a \<and> role_is ''user'' (hd ms))))"
  by (cases ms) auto

lemma merge_from_pairs:
  "no_user_pair (merge_from prior rest) \<and> merge_from prior rest \<noteq> [] \<and>
   role_is ''user'' (hd (merge_from prior rest)) = role_is ''user'' prior"
proof (induction rest arbitrary: prior)
  case (Cons item rest)
  show ?case
  proof (cases "role_is ''user'' prior \<and> role_is ''user'' item")
    case True
    then show ?thesis using Cons.IH [of item] Cons.IH [of "merge_user prior item"] boundary_no_user
      by (auto simp: merge_next_def merge_user_role no_user_pair_Cons)
  next
    case False
    then have "merge_from prior (item # rest) = prior # merge_from item rest"
      by (auto simp: merge_next_def)
    then show ?thesis using Cons.IH [of item] False by (auto simp: no_user_pair_Cons simp del: merge_from.simps)
  qed
qed simp

lemma sendable_dset: "sendable m \<Longrightarrow> k \<in> set ALLOWED_KEYS \<Longrightarrow> k \<noteq> ''role'' \<Longrightarrow> sendable (dset k v m)"
  by (auto simp: sendable_def)

lemma sendable_dpop: "sendable m \<Longrightarrow> k \<noteq> ''role'' \<Longrightarrow> sendable (dpop k m)"
  by (auto simp: sendable_def pget_dpop)

lemma sendable_filter: "sendable m \<Longrightarrow> k \<noteq> ''role'' \<Longrightarrow> sendable (filter (\<lambda>(x, v). x \<noteq> k) m)"
  by (auto simp: sendable_def pget_filter)

lemma content_allowed: "''content'' \<in> set ALLOWED_KEYS" "''tool_calls'' \<in> set ALLOWED_KEYS"
  by (simp_all add: ALLOWED_KEYS_def)

lemma merge_from_sendable: "sendable prior \<Longrightarrow> list_all sendable rest \<Longrightarrow> list_all sendable (merge_from prior rest)"
proof (induction rest arbitrary: prior)
  case (Cons item rest)
  have "sendable (merge_user prior item)"
    using Cons.prems(1) by (simp add: merge_user_def Let_def sendable_dset sendable_dpop content_allowed)
  moreover have "sendable boundary_message" by (simp add: sendable_def boundary_message_def ALLOWED_KEYS_def)
  ultimately show ?case using Cons by (auto simp: merge_next_def)
qed simp

lemma clean_sendable: "clean_message v = Some m \<Longrightarrow> sendable m"
proof -
  assume c: "clean_message v = Some m"
  then obtain d where v: "v = PDict d" by (auto simp: clean_message_def split: pyval.splits)
  have k: "set (dkeys (allowed_item d)) \<subseteq> set ALLOWED_KEYS" by (auto simp: allowed_item_def)
  have "truthy (pget (allowed_item d) ''role'') \<Longrightarrow> sendable (allowed_item d)" using k by (simp add: sendable_def)
  then show ?thesis using c by (auto simp: v clean_message_def Let_def sendable_dset content_allowed split: if_splits)
qed

lemma matched_sendable: "list_all sendable ms \<Longrightarrow> list_all sendable (matched_answers e a ms)"
  by (rule matched_answers_facts(1))

lemma repair_sendable: "repair_calls ms = Inr out \<Longrightarrow> list_all sendable ms \<Longrightarrow> list_all sendable out"
proof (induction ms arbitrary: out rule: repair_calls.induct)
  case 1
  then show ?case by simp
next
  case (2 msg rest)
  let ?tools = "takeWhile (role_is ''tool'') rest" and ?after = "dropWhile (role_is ''tool'') rest"
  from "2.prems"(2) have s: "sendable msg" "list_all sendable rest" by simp_all
  have w: "list_all sendable ?tools" "list_all sendable ?after"
    using s(2) by (auto simp: list_all_iff dest: set_takeWhileD set_dropWhileD)
  consider "role_is ''tool'' msg" | "\<not> role_is ''tool'' msg" "\<not> (role_is ''assistant'' msg \<and> truthy (pget msg ''tool_calls''))"
    | "\<not> role_is ''tool'' msg" "role_is ''assistant'' msg \<and> truthy (pget msg ''tool_calls'')" by blast
  then show ?case
  proof cases
    case 1
    with 2 show ?thesis by simp
  next
    case 2
    with "2.prems"(1) "2.IH"(2) s show ?thesis by (auto simp: rbind_Inr_iff)
  next
    case 3
    with "2.prems"(1) obtain calls head o' where h: "(if matched_answers (call_ids calls) [] ?tools = [] then unanswered msg
          else Inr (answered_call msg calls (matched_answers (call_ids calls) [] ?tools))) = Inr head"
        and o': "repair_calls ?after = Inr o'" "out = head @ o'"
      by (auto simp: rbind_Inr_iff Let_def)
    have "list_all sendable o'" using "2.IH"(3) [OF 3(1) _ refl refl] 3(2) o'(1) w(2) by simp
    moreover have "list_all sendable head"
      using h s(1) matched_sendable [OF w(1)]
      by (auto simp: unanswered_def answered_call_def Let_def sendable_dset sendable_filter content_allowed
          split: if_splits pyval.splits)
    ultimately show ?thesis by (simp add: o'(2))
  qed
qed

section \<open>Properties\<close>

text \<open>
  Claim C9. What is sent is a conversation that strict providers accept, whatever trimming and retries left:
  every answer of a tool is to a call that the last assistant message made and that still waits,
  all its calls are answered before anything else follows, no two user messages follow each other,
  and every message has a role and only known keys.
\<close>

theorem sanitized_conversation_valid:
  assumes "sanitize_llm_messages messages = Inr out"
  shows "paired [] out \<and> no_user_pair out \<and> list_all sendable out"
proof -
  from assms obtain repaired where r: "repair_calls (List.map_filter clean_message messages) = Inr repaired"
    and o: "out = merge_users repaired"
    by (auto simp: sanitize_llm_messages_def rbind_Inr_iff)
  have s: "list_all sendable repaired"
    by (rule repair_sendable [OF r]) (auto simp: list_all_iff map_filter_def dest: clean_sendable)
  show ?thesis
  proof (cases repaired)
    case Nil
    then show ?thesis by (simp add: o merge_users_from)
  next
    case (Cons m rest)
    with repair_paired [OF r] merge_from_paired [of "[]" m rest] merge_from_pairs [of m rest] s
      merge_from_sendable [of m rest] show ?thesis by (simp add: o merge_users_from)
  qed
qed

definition sample_message :: "string \<Rightarrow> pyval \<Rightarrow> (string \<times> pyval) list \<Rightarrow> pyval" where
  "sample_message r c more = PDict ([(''role'', PStr r), (''content'', c)] @ more)"

definition sample_call :: "string \<Rightarrow> pyval" where
  "sample_call i = PDict [(''id'', PStr i)]"

definition tangled :: "pyval list" where
  "tangled =
     [sample_message ''tool'' (PStr ''lost'') [(''tool_call_id'', PStr ''c0'')],
      sample_message ''user'' (PStr ''hi'') [(''timestamp'', PInt 7)],
      sample_message ''user'' (PStr ''again'') [],
      sample_message ''assistant'' PNone [(''tool_calls'', PList [sample_call ''c1'', sample_call ''c2''])],
      sample_message ''tool'' (PStr ''one'') [(''tool_call_id'', PStr ''c1'')],
      sample_message ''tool'' (PStr ''twice'') [(''tool_call_id'', PStr ''c1'')]]"

definition untangled :: "message list" where
  "untangled =
     [[(''role'', PStr ''user''), (''content'', PStr (''hi'' @ newline @ newline @ ''again''))],
      [(''role'', PStr ''assistant''), (''tool_calls'', PList [sample_call ''c1'']), (''content'', PNone)],
      [(''role'', PStr ''tool''), (''content'', PStr ''one''), (''tool_call_id'', PStr ''c1'')]]"

theorem sanitized_conversation_valid_witness:
  "sanitize_llm_messages tangled = Inr untangled \<and> paired [] untangled \<and> no_user_pair untangled"
proof -
  have "sanitize_llm_messages tangled = Inr untangled" by code_simp
  with sanitized_conversation_valid [OF this] show ?thesis by simp
qed

text \<open>Messages whose calls can be repaired: text or nothing as the content, a list as the calls.\<close>

definition plain_calls :: "message \<Rightarrow> bool" where
  "plain_calls m =
     (if makes_calls m
      then is_list (pget m ''tool_calls'') \<and>
           (case pget m ''content'' of PStr s \<Rightarrow> True | c \<Rightarrow> \<not> truthy c)
      else True)"

lemma unanswered_plain: "plain_calls m \<Longrightarrow> makes_calls m \<Longrightarrow> \<exists>head. unanswered m = Inr head"
  by (auto simp: plain_calls_def unanswered_def pget_filter Let_def split: pyval.splits)

lemma repair_total: "list_all plain_calls ms \<Longrightarrow> \<exists>out. repair_calls ms = Inr out"
proof (induction ms rule: repair_calls.induct)
  case 1
  then show ?case by simp
next
  case (2 msg rest)
  let ?tools = "takeWhile (role_is ''tool'') rest" and ?after = "dropWhile (role_is ''tool'') rest"
  from "2.prems" have p: "plain_calls msg" "list_all plain_calls rest" "list_all plain_calls ?after"
    by (auto simp: list_all_iff dest: set_dropWhileD)
  consider "role_is ''tool'' msg" | "\<not> role_is ''tool'' msg" "\<not> makes_calls msg"
    | "\<not> role_is ''tool'' msg" "makes_calls msg" by blast
  then show ?case
  proof cases
    case 1
    with "2.IH"(1) p show ?thesis by simp
  next
    case 2
    with "2.IH"(2) p show ?thesis by (auto simp: makes_calls_def)
  next
    case 3
    with p(1) obtain calls where c: "pget msg ''tool_calls'' = PList calls"
      by (auto simp: plain_calls_def is_list_def split: pyval.splits)
    have t: "role_is ''assistant'' msg \<and> truthy (pget msg ''tool_calls'')" using 3(2) by (simp add: makes_calls_def)
    have "\<exists>out. repair_calls ?after = Inr out"
      using "2.IH"(3) [OF 3(1) _ refl refl] t p(3) by simp
    then obtain o' where o': "repair_calls ?after = Inr o'" by blast
    obtain h where h: "unanswered msg = Inr h" using unanswered_plain [OF p(1) 3(2)] by blast
    show ?thesis using 3(1) t by (simp add: c calls_of_def Let_def o' h)
  qed
qed

text \<open>
  Claim C39. The sanitizer does not raise as long as the assistant messages with calls carry text or nothing
  as their content and a list as their calls.
\<close>

theorem sanitizer_accepts_text:
  assumes "list_all (\<lambda>v. case clean_message v of None \<Rightarrow> True | Some m \<Rightarrow> plain_calls m) messages"
  shows "is_ok (sanitize_llm_messages messages)"
proof -
  have "list_all plain_calls (List.map_filter clean_message messages)"
    using assms by (auto simp: list_all_iff map_filter_def split: option.splits)
  from repair_total [OF this] show ?thesis by (auto simp: sanitize_llm_messages_def)
qed

theorem sanitizer_accepts_text_witness:
  "is_ok (sanitize_llm_messages tangled)"
  by (rule sanitizer_accepts_text) code_simp

text \<open>
  With content in blocks it does raise: an assistant message whose content is a list of blocks and
  whose calls nobody answered.
\<close>

lemma blocks_break_sanitizer:
  "sanitize_llm_messages
     [sample_message ''assistant'' (PList [PDict [(''type'', PStr ''text'')]]) [(''tool_calls'', PList [sample_call ''c1''])]]
   = Inl (AttributeError ''strip'')"
  by code_simp

text \<open>Two empty user messages become one that has no content at all, which the next pass would drop.\<close>

lemma empty_users_lose_content:
  "sanitize_llm_messages [sample_message ''user'' (PStr []) [], sample_message ''user'' (PStr []) []] =
     Inr [[(''role'', PStr ''user'')]]"
  by code_simp

end
