(* ===== verification/ToolProjection.thy ===== *)
theory ToolProjection
  imports AuthorityPolicy PyText
begin

text \<open>
  Results of tools as the model sees them (\<open>src/tool_result_projection.py\<close>): a result that is too
  large loses whole records at the end of its lists, and says how many. \<open>json.loads\<close> is a
  parameter; it fails with \<open>None\<close>.
\<close>

section \<open>Constants\<close>

definition MCP_RESULT_PREFIX :: string where
  "MCP_RESULT_PREFIX = ''**MCP result:**'' @ newline @ ''```json'' @ newline"

definition MCP_RESULT_SUFFIX :: string where
  "MCP_RESULT_SUFFIX = newline @ ''```''"

definition SCHEMA_KEYS :: "string list" where
  "SCHEMA_KEYS = [''inputSchema'', ''input_schema'', ''outputSchema'', ''output_schema'', ''$schema'', ''$defs'', ''definitions'']"

definition CONTROL_KEYS :: "string list" where
  "CONTROL_KEYS = [''error'', ''errors'', ''pagination'', ''nextAction'', ''next_action'', ''recovery'', ''citations'', ''sources'']"

text \<open>\<open>_json\<close>.\<close>

definition json_of :: "pyval \<Rightarrow> string" where
  "json_of v = dumps False '','' '':'' v"

primrec contains_schema :: "pyval \<Rightarrow> bool" where
  "contains_schema PNone = False"
| "contains_schema (PBool b) = False"
| "contains_schema (PInt i) = False"
| "contains_schema (PFloat s) = False"
| "contains_schema (PStr s) = False"
| "contains_schema (PList xs) = list_ex id (map contains_schema xs)"
| "contains_schema (PTuple xs) = False"
| "contains_schema (PDict d) = list_ex (\<lambda>(k, r). k \<in> set SCHEMA_KEYS \<or> r) (map (map_prod id contains_schema) d)"

section \<open>Pages\<close>

text \<open>Keys below which nothing is a page of data.\<close>

definition no_page :: "string \<Rightarrow> bool" where
  "no_page key = (key \<in> set CONTROL_KEYS \<or> key = ''_projection'')"

text \<open>The non-empty lists below a value, each with the keys that lead to it.\<close>

primrec pages :: "pyval \<Rightarrow> (string list \<times> pyval list) list" where
  "pages PNone = []"
| "pages (PBool b) = []"
| "pages (PInt i) = []"
| "pages (PFloat s) = []"
| "pages (PStr s) = []"
| "pages (PList xs) = (if xs = [] then [] else [([], xs)])"
| "pages (PTuple xs) = []"
| "pages (PDict d) = concat (map (\<lambda>(k, ps). if no_page k then [] else map (apfst ((#) k)) ps) (map (map_prod id pages) d))"

text \<open>The lists of a value, each without as many of its last items as a function of its keys says.\<close>

function cut :: "pyval \<Rightarrow> (string list \<Rightarrow> nat) \<Rightarrow> pyval" where
  "cut PNone n = PNone"
| "cut (PBool b) n = PBool b"
| "cut (PInt i) n = PInt i"
| "cut (PFloat s) n = PFloat s"
| "cut (PStr s) n = PStr s"
| "cut (PList xs) n = PList (take (length xs - n []) xs)"
| "cut (PTuple xs) n = PTuple xs"
| "cut (PDict d) n = PDict (map (\<lambda>(k, v). (k, if no_page k then v else cut v (\<lambda>p. n (k # p)))) d)"
  by pat_completeness auto
termination
proof (relation "measure (\<lambda>(v, n). size v)", simp)
  fix d :: "(string \<times> pyval) list" and n x k v assume "x \<in> set d" "(k, v) = x"
  then show "((v, \<lambda>p. n (k # p)), PDict d, n) \<in> measure (\<lambda>(v, n). size v)"
    using size_dict_entry [of k v d] by simp
qed

text \<open>\<open>page.pop()\<close> of the page at a path: an object of its own, since keys are distinct.\<close>

definition pop_page :: "string list \<Rightarrow> pyval \<Rightarrow> pyval" where
  "pop_page p v = cut v (\<lambda>q. if q = p then 1 else 0)"

definition path_text :: "string list \<Rightarrow> string" where
  "path_text p = concat (map ((@) ''/'') p)"

definition shorten :: "(string list \<Rightarrow> nat) \<Rightarrow> (string list \<times> pyval list) list \<Rightarrow> (string list \<times> pyval list) list" where
  "shorten n ps = filter (\<lambda>pg. snd pg \<noteq> []) (map (\<lambda>pg. (fst pg, take (length (snd pg) - n (fst pg)) (snd pg))) ps)"

lemma shorten_append [simp]: "shorten n (ps @ qs) = shorten n ps @ shorten n qs"
  by (simp add: shorten_def)

lemma shorten_Cons: "shorten n (pg # ps) = shorten n [pg] @ shorten n ps"
  by (simp add: shorten_def)

lemma shorten_below: "shorten n (map (apfst ((#) k)) ps) = map (apfst ((#) k)) (shorten (\<lambda>p. n (k # p)) ps)"
  by (simp add: shorten_def filter_map comp_def)

lemma pages_cut: "pages (cut v n) = shorten n (pages v)"
proof (induction v arbitrary: n rule: pyval_induct)
  case (List xs)
  then show ?case by (auto simp: shorten_def)
next
  case (Dict d)
  then show ?case
  proof (induction d)
    case Nil
    then show ?case by (simp add: shorten_def)
  next
    case (Cons kv d)
    obtain k v where kv: "kv = (k, v)" by fastforce
    have "pages (cut (PDict d) n) = shorten n (pages (PDict d))"
      by (rule Cons.IH) (use Cons.prems in auto)
    moreover have "pages (cut v (\<lambda>p. n (k # p))) = shorten (\<lambda>p. n (k # p)) (pages v)"
      using Cons.prems [of k v] kv by simp
    ultimately show ?case by (auto simp: kv shorten_below) (simp add: shorten_def)
  qed
qed (auto simp: shorten_def)

lemma cut_cut: "cut (cut v m) n = cut v (\<lambda>p. m p + n p)"
proof (induction v arbitrary: m n rule: pyval_induct)
  case (Dict d)
  then show ?case by (auto simp: comp_def case_prod_unfold)
next
  case (List xs)
  then show ?case by (simp add: diff_diff_left)
qed auto

lemma cut_0: "cut v (\<lambda>p. 0) = v"
proof (induction v rule: pyval_induct)
  case (Dict d)
  then show ?case by (auto simp: case_prod_unfold intro!: map_idI)
qed auto

section \<open>Projection\<close>

definition notice_of :: "nat dict \<Rightarrow> pyval" where
  "notice_of omitted =
     PDict [(''truncated'', PBool True),
       (''omitted_items'', PDict (map (\<lambda>(p, k). (p, PInt (int k))) omitted)),
       (''reason'', PStr (''Whole records omitted to fit the model result budget. Reread this page with a '' @
          ''smaller limit from the same server cursor, or use a precise name/ID resolver tool '' @
          ''for one target instead of a full list; do not infer omitted content.''))]"

definition bare_notice :: "string \<Rightarrow> pyval dict" where
  "bare_notice reason = [(''_projection'', PDict [(''truncated'', PBool True), (''reason'', PStr reason)])]"

definition SCHEMA_OMITTED :: "pyval dict" where
  "SCHEMA_OMITTED = bare_notice ''Schema omitted: request a narrower reference or larger context.''"

definition RESULT_OMITTED :: "pyval dict" where
  "RESULT_OMITTED = bare_notice ''Result omitted, not empty: request a narrower result.''"

definition with_notice :: "nat dict \<Rightarrow> pyval dict \<Rightarrow> pyval dict" where
  "with_notice omitted d = dset ''_projection'' (notice_of omitted) d"

definition count_omitted :: "string \<Rightarrow> nat dict \<Rightarrow> nat dict" where
  "count_omitted path omitted = dset path ((case dget omitted path of None \<Rightarrow> 0 | Some k \<Rightarrow> k) + 1) omitted"

definition page_size :: "string list \<times> pyval list \<Rightarrow> nat" where
  "page_size page = length (json_of (PList (snd page)))"

definition items :: "(string list \<times> pyval list) list \<Rightarrow> nat" where
  "items ps = sum_list (map (\<lambda>pg. length (snd pg)) ps)"

lemma items_simps [simp]: "items [] = 0" "items (pg # ps) = length (snd pg) + items ps" "items (ps @ qs) = items ps + items qs"
  by (simp_all add: items_def)

lemma items_shorten: "items (shorten n ps) \<le> items ps"
  by (induction ps) (auto simp: shorten_def)

lemma pages_nonempty: "pg \<in> set (pages v) \<Longrightarrow> snd pg \<noteq> []"
  by (induction v arbitrary: pg rule: pyval_induct) (fastforce split: if_splits)+

lemma pop_page_fewer: "(p, xs) \<in> set (pages v) \<Longrightarrow> items (pages (pop_page p v)) < items (pages v)"
proof -
  assume a: "(p, xs) \<in> set (pages v)"
  then obtain us ws where ps: "pages v = us @ (p, xs) # ws" by (meson split_list)
  have "xs \<noteq> []" using pages_nonempty [OF a] by simp
  then have "items (shorten (\<lambda>q. if q = p then 1 else 0) [(p, xs)]) < length xs"
    by (cases xs) (auto simp: shorten_def)
  then show ?thesis
    using items_shorten [of "\<lambda>q. if q = p then 1 else 0" us] items_shorten [of "\<lambda>q. if q = p then 1 else 0" ws]
    by (simp add: pop_page_def pages_cut ps shorten_Cons [of _ "(p, xs)" ws])
qed

function project_loop :: "nat \<Rightarrow> pyval dict \<Rightarrow> nat dict \<Rightarrow> pyval dict" where
  "project_loop max_chars d omitted =
     (if length (json_of (PDict (with_notice omitted d))) \<le> max_chars then with_notice omitted d
      else case first_max page_size (pages (PDict d)) of
        None \<Rightarrow> RESULT_OMITTED
      | Some (p, page) \<Rightarrow>
          project_loop max_chars (as_mapping (pop_page p (PDict d))) (count_omitted (path_text p) omitted))"
  by pat_completeness auto
termination
proof (relation "measure (\<lambda>(m, d, om). items (pages (PDict d)))", simp)
  fix max_chars :: nat and d om x p page
  assume "first_max page_size (pages (PDict d)) = Some x" "(p, page) = x"
  then have "(p, page) \<in> set (pages (PDict d))" using first_max_in by metis
  then have "items (pages (pop_page p (PDict d))) < items (pages (PDict d))" by (rule pop_page_fewer)
  then show "((max_chars, as_mapping (pop_page p (PDict d)), count_omitted (path_text p) om), max_chars, d, om)
      \<in> measure (\<lambda>(m, d, om). items (pages (PDict d)))"
    by (simp add: pop_page_def del: pages.simps)
qed

declare project_loop.simps [simp del]

definition project_result :: "pyval dict \<Rightarrow> nat \<Rightarrow> pyval dict" where
  "project_result d max_chars =
     (if length (json_of (PDict d)) \<le> max_chars then d
      else if contains_schema (PDict d) then SCHEMA_OMITTED
      else project_loop max_chars d [])"

section \<open>The frame in a message\<close>

text \<open>One of the text fields of a result: parsed when it is JSON, dropped when it repeats the structured content.\<close>

definition format_field :: "(string \<Rightarrow> pyval option) \<Rightarrow> pyval \<Rightarrow> pyval dict \<Rightarrow> string \<Rightarrow> pyval dict" where
  "format_field loads structured v key =
     (case pget v key of
        PStr text \<Rightarrow>
          (case loads text of
             None \<Rightarrow> v
           | Some x \<Rightarrow>
               (let parsed = redact_secrets x in
                if dget v ''structured_content'' \<noteq> None \<and> py_eq parsed structured then dpop key v
                else dset key parsed v))
      | _ \<Rightarrow> v)"

definition format_mcp_result :: "(string \<Rightarrow> pyval option) \<Rightarrow> pyval dict \<Rightarrow> nat option \<Rightarrow> string" where
  "format_mcp_result loads result max_chars =
     (let v = as_mapping (redact_secrets (PDict result));
          structured = pget v ''structured_content'';
          v = foldl (format_field loads structured) v [''stdout'', ''stderr''];
          limit = (case max_chars of
            Some m \<Rightarrow> m
          | None \<Rightarrow> if contains_schema (PDict v) then length (json_of (PDict v)) else 8000)
      in MCP_RESULT_PREFIX @ json_of (PDict (project_result v limit)) @ MCP_RESULT_SUFFIX)"

definition trim_mcp_result :: "(string \<Rightarrow> pyval option) \<Rightarrow> string \<Rightarrow> nat \<Rightarrow> string option" where
  "trim_mcp_result loads s max_chars =
     (case find_at MCP_RESULT_PREFIX s of
        None \<Rightarrow> None
      | Some start \<Rightarrow>
          if \<not> ends_with MCP_RESULT_SUFFIX s then None
          else
            (case loads (drop (start + length MCP_RESULT_PREFIX) (take (length s - length MCP_RESULT_SUFFIX) s)) of
               Some (PDict v) \<Rightarrow>
                 (let prefix = take start s;
                      budget = max_chars - length MCP_RESULT_PREFIX - length MCP_RESULT_SUFFIX;
                      projected = json_of (PDict (project_result v (budget - length prefix)));
                      (prefix, projected) =
                        (if budget < length prefix + length projected
                         then ([], json_of (PDict (project_result v budget))) else (prefix, projected))
                  in Some (prefix @ MCP_RESULT_PREFIX @ projected @ MCP_RESULT_SUFFIX))
             | _ \<Rightarrow> None))"

section \<open>Lemmas\<close>

definition tally :: "nat dict \<Rightarrow> string \<Rightarrow> nat" where
  "tally om s = (case dget om s of None \<Rightarrow> 0 | Some k \<Rightarrow> k)"

definition items_at :: "string \<Rightarrow> (string list \<times> pyval list) list \<Rightarrow> nat" where
  "items_at s ps = items (filter (\<lambda>pg. path_text (fst pg) = s) ps)"

lemma items_at_simps [simp]:
  "items_at s [] = 0" "items_at s (ps @ qs) = items_at s ps + items_at s qs"
  "items_at s (pg # ps) = (if path_text (fst pg) = s then length (snd pg) else 0) + items_at s ps"
  by (simp_all add: items_at_def)

lemma tally_count: "tally (count_omitted t om) s = (if s = t then tally om s + 1 else tally om s)"
  by (auto simp: tally_def count_omitted_def)

lemma PDict_pop: "PDict (as_mapping (pop_page p (PDict d))) = pop_page p (PDict d)"
  by (simp add: pop_page_def)

lemma shorten_other: "p \<notin> fst ` set ps \<Longrightarrow> (\<And>pg. pg \<in> set ps \<Longrightarrow> snd pg \<noteq> []) \<Longrightarrow> shorten (\<lambda>q. if q = p then 1 else 0) ps = ps"
  by (induction ps) (auto simp: shorten_def)

lemma pop_page_items_at:
  assumes d: "distinct (map fst (pages v))" and p: "(p, xs) \<in> set (pages v)"
  shows "items_at s (pages (pop_page p v)) + (if s = path_text p then 1 else 0) = items_at s (pages v)"
proof -
  let ?n = "\<lambda>q. if q = p then 1 else 0 :: nat"
  from p obtain us ws where ps: "pages v = us @ (p, xs) # ws" by (meson split_list)
  have ne: "\<And>pg. pg \<in> set us \<union> set ws \<Longrightarrow> snd pg \<noteq> []" "xs \<noteq> []"
    using pages_nonempty [of _ v] unfolding ps by fastforce+
  have out: "p \<notin> fst ` set us" "p \<notin> fst ` set ws" using d unfolding ps by auto
  have "shorten ?n us = us" by (rule shorten_other [OF out(1)]) (rule ne(1), simp)
  moreover have "shorten ?n ws = ws" by (rule shorten_other [OF out(2)]) (rule ne(1), simp)
  moreover have "items_at s (shorten ?n [(p, xs)]) + (if s = path_text p then 1 else 0) = items_at s [(p, xs)]"
    using ne(2) by (cases xs) (auto simp: shorten_def)
  ultimately show ?thesis
    by (simp add: pop_page_def pages_cut ps shorten_Cons [of _ "(p, xs)" ws])
qed

lemma distinct_pages_cut: "distinct (map fst (pages v)) \<Longrightarrow> distinct (map fst (pages (cut v n)))"
  by (simp add: pages_cut shorten_def distinct_map_filter comp_def)

text \<open>
  What the loop returns: cut lists with the counts of what was cut, added to those before; or the
  notice that stands for the whole, when every list is cut to nothing and it still does not fit.
\<close>

definition honest :: "nat \<Rightarrow> pyval dict \<Rightarrow> nat dict \<Rightarrow> pyval dict \<Rightarrow> bool" where
  "honest m d om r = (\<exists>n om'.
     (\<forall>s. tally om' s + items_at s (pages (cut (PDict d) n)) = tally om s + items_at s (pages (PDict d))) \<and>
     (if length (json_of (PDict (with_notice om' (as_mapping (cut (PDict d) n))))) \<le> m
      then r = with_notice om' (as_mapping (cut (PDict d) n))
      else pages (cut (PDict d) n) = [] \<and> r = RESULT_OMITTED))"

lemma project_loop_honest:
  "distinct (map fst (pages (PDict d))) \<Longrightarrow> honest m d om (project_loop m d om)"
proof (induction m d om rule: project_loop.induct)
  case (1 m d om)
  show ?case
  proof (cases "length (json_of (PDict (with_notice om d))) \<le> m \<or> first_max page_size (pages (PDict d)) = None")
    case True
    then show ?thesis
      unfolding honest_def
      by (intro exI [of _ "\<lambda>_. 0"] exI [of _ om])
        (auto simp: cut_0 project_loop.simps [of m d om] simp del: cut.simps pages.simps)
  next
    case False
    then obtain p page where x: "first_max page_size (pages (PDict d)) = Some (p, page)" by fastforce
    have mem: "(p, page) \<in> set (pages (PDict d))" using first_max_in x by metis
    let ?d = "as_mapping (pop_page p (PDict d))" and ?om = "count_omitted (path_text p) om"
    have dist: "distinct (map fst (pages (PDict ?d)))"
      by (simp only: PDict_pop) (simp only: pop_page_def distinct_pages_cut [OF "1.prems"])
    have step: "project_loop m d om = project_loop m ?d ?om"
      using False x by (simp add: project_loop.simps [of m d om] del: pages.simps)
    have ih: "honest m ?d ?om (project_loop m ?d ?om)"
      using False "1.IH" [OF _ x refl dist] by blast
    have "honest m d om r" if h: "honest m ?d ?om r" for r
    proof -
      from h obtain n om' where t: "\<And>s. tally om' s + items_at s (pages (cut (pop_page p (PDict d)) n)) = tally ?om s + items_at s (pages (pop_page p (PDict d)))"
        and r: "if length (json_of (PDict (with_notice om' (as_mapping (cut (pop_page p (PDict d)) n))))) \<le> m
          then r = with_notice om' (as_mapping (cut (pop_page p (PDict d)) n)) else pages (cut (pop_page p (PDict d)) n) = [] \<and> r = RESULT_OMITTED"
        unfolding honest_def PDict_pop by blast
      have c: "cut (pop_page p (PDict d)) n = cut (PDict d) (\<lambda>q. (if q = p then 1 else 0) + n q)"
        by (simp only: pop_page_def cut_cut)
      have "tally om' s + items_at s (pages (cut (pop_page p (PDict d)) n)) = tally om s + items_at s (pages (PDict d))" for s
        using t [of s] pop_page_items_at [OF "1.prems" mem, of s] unfolding tally_count by (cases "s = path_text p") (simp_all del: pages.simps cut.simps)
      then show ?thesis using r unfolding honest_def c by (intro exI conjI allI)
    qed
    with ih step show ?thesis by metis
  qed
qed

definition omitted_size :: nat where
  "omitted_size = max (length (json_of (PDict SCHEMA_OMITTED))) (length (json_of (PDict RESULT_OMITTED)))"

lemma project_loop_size: "length (json_of (PDict (project_loop m d om))) \<le> max m omitted_size"
proof (induction m d om rule: project_loop.induct)
  case (1 m d om)
  show ?case
  proof (cases "first_max page_size (pages (PDict d))")
    case None
    then show ?thesis by (auto simp: project_loop.simps [of m d om] omitted_size_def simp del: pages.simps first_max_None)
  next
    case (Some x)
    show ?thesis
    proof (cases "length (json_of (PDict (with_notice om d))) \<le> m")
      case True
      then show ?thesis by (simp add: project_loop.simps [of m d om])
    next
      case False
      with "1.IH" [OF False Some surjective_pairing [symmetric]] Some show ?thesis
        by (simp add: project_loop.simps [of m d om] case_prod_unfold del: pages.simps)
    qed
  qed
qed

lemma project_result_size: "length (json_of (PDict (project_result d m))) \<le> max m omitted_size"
  using project_loop_size [of m d "[]"] by (auto simp: project_result_def omitted_size_def)

section \<open>Properties\<close>

text \<open>
  Claim C17. A projected result is whole, or is cut and says how much is missing, or is given up with a
  notice that says so. A result that fits stays as it is. Else one with a schema is replaced by the
  notice for schemas. Else lists end earlier and the counts under every path are exactly the records
  that are missing there; and only if what is left when every list has been cut to nothing still
  does not fit, the notice for omitted results stands for all of it.
\<close>

theorem projection_counts_omissions:
  assumes "distinct (map fst (pages (PDict d)))"
  shows "let r = project_result d m in
    if length (json_of (PDict d)) \<le> m then r = d
    else if contains_schema (PDict d) then r = SCHEMA_OMITTED
    else (\<exists>n om. (\<forall>s. tally om s + items_at s (pages (cut (PDict d) n)) = items_at s (pages (PDict d))) \<and>
        (if length (json_of (PDict (with_notice om (as_mapping (cut (PDict d) n))))) \<le> m
         then r = with_notice om (as_mapping (cut (PDict d) n))
         else pages (cut (PDict d) n) = [] \<and> r = RESULT_OMITTED))"
  using project_loop_honest [OF assms, of m "[]"]
  by (simp add: project_result_def Let_def honest_def tally_def [of "[]"] del: cut.simps pages.simps)

definition three_rows :: "pyval dict" where
  "three_rows = [(''rows'', PList [PStr ''aaaaaaaaaaaaaaaaaaaaaaaaaaaaaaaaaaaaaaaaaaaaaaaaaaaaaaaaaaaaaaaaaaaaaaaaaaa'', PInt 2, PInt 3])]"

theorem projection_counts_omissions_witness:
  "\<not> length (json_of (PDict three_rows)) \<le> 60 \<and>
   (\<exists>n om. (\<forall>s. tally om s + items_at s (pages (cut (PDict three_rows) n)) = items_at s (pages (PDict three_rows))) \<and>
      (if length (json_of (PDict (with_notice om (as_mapping (cut (PDict three_rows) n))))) \<le> 60
       then project_result three_rows 60 = with_notice om (as_mapping (cut (PDict three_rows) n))
       else pages (cut (PDict three_rows) n) = [] \<and> project_result three_rows 60 = RESULT_OMITTED))"
proof -
  have d: "distinct (map fst (pages (PDict three_rows)))"
    by (simp add: three_rows_def no_page_def CONTROL_KEYS_def)
  have l: "\<not> length (json_of (PDict three_rows)) \<le> 60" by (simp add: three_rows_def json_of_def json_string_def json_char_def Let_def code_def)
  have s: "\<not> contains_schema (PDict three_rows)" by (simp add: three_rows_def SCHEMA_KEYS_def)
  from projection_counts_omissions [OF d, of 60] l s show ?thesis by (simp add: Let_def del: cut.simps pages.simps contains_schema.simps)
qed

text \<open>
  Trimming a framed result keeps the frame whole: what it gives ends in one complete frame around a
  projection of the very result that was framed, before it at most the text that stood there, and
  it is no longer than asked for, or than the two notices make it.
\<close>

theorem trimmed_frame_fits:
  assumes "trim_mcp_result loads s m = Some t"
  shows "length t \<le> max m (length MCP_RESULT_PREFIX + length MCP_RESULT_SUFFIX + omitted_size) \<and>
    (\<exists>v k prefix start. loads (drop (start + length MCP_RESULT_PREFIX) (take (length s - length MCP_RESULT_SUFFIX) s)) = Some (PDict v) \<and>
       find_at MCP_RESULT_PREFIX s = Some start \<and> prefix \<in> {[], take start s} \<and>
       t = prefix @ MCP_RESULT_PREFIX @ json_of (PDict (project_result v k)) @ MCP_RESULT_SUFFIX)"
proof -
  from assms obtain start v where f: "find_at MCP_RESULT_PREFIX s = Some start" "ends_with MCP_RESULT_SUFFIX s"
    and v: "loads (drop (start + length MCP_RESULT_PREFIX) (take (length s - length MCP_RESULT_SUFFIX) s)) = Some (PDict v)"
    by (auto simp: trim_mcp_result_def split: option.splits pyval.splits if_splits)
  define budget where "budget = m - length MCP_RESULT_PREFIX - length MCP_RESULT_SUFFIX"
  define first where "first = json_of (PDict (project_result v (budget - length (take start s))))"
  define again where "again = json_of (PDict (project_result v budget))"
  have t: "t = (if budget < length (take start s) + length first then MCP_RESULT_PREFIX @ again @ MCP_RESULT_SUFFIX
      else take start s @ MCP_RESULT_PREFIX @ first @ MCP_RESULT_SUFFIX)"
    using assms f v unfolding trim_mcp_result_def budget_def first_def again_def by (simp add: Let_def split: if_splits)
  have size: "length again \<le> max budget omitted_size" unfolding again_def by (rule project_result_size)
  show ?thesis
  proof (cases "budget < length (take start s) + length first")
    case True
    then have "t = [] @ MCP_RESULT_PREFIX @ json_of (PDict (project_result v budget)) @ MCP_RESULT_SUFFIX"
      using t by (simp add: again_def)
    moreover have "length t \<le> max m (length MCP_RESULT_PREFIX + length MCP_RESULT_SUFFIX + omitted_size)"
      using True t size by (simp add: budget_def)
    ultimately show ?thesis using f v by blast
  next
    case False
    then have e: "t = take start s @ MCP_RESULT_PREFIX @ json_of (PDict (project_result v (budget - length (take start s)))) @ MCP_RESULT_SUFFIX"
      using t by (simp add: first_def)
    have "0 < length first" by (simp add: first_def json_of_def)
    then have "length t \<le> m" using False t by (simp add: budget_def del: length_greater_0_conv)
    then have "length t \<le> max m (length MCP_RESULT_PREFIX + length MCP_RESULT_SUFFIX + omitted_size)" by simp
    moreover have "take start s \<in> {[], take start s}" by simp
    ultimately show ?thesis using e f v by blast
  qed
qed

end
