(* ===== verification/ContextTrim.thy ===== *)
theory ContextTrim
  imports ContextTags ToolProjection ContextBudget
begin

text \<open>
  Fitting a conversation into the window of a model (\<open>src/context_compactor.py\<close>): ceilings per class
  of context, dropping by priority, shrinking of what must stay, and compaction by a summary. The
  token arithmetic is that of \<open>ContextTags\<close>; the one float product whose rounding shows, \<open>0.7\<close>, is
  computed as IEEE 754 rounds it.
\<close>

section \<open>Texts\<close>

definition content_as_text :: "pyval \<Rightarrow> string" where
  "content_as_text content =
     (case content of
        PStr s \<Rightarrow> s
      | PList blocks \<Rightarrow> join '' '' (List.map_filter (\<lambda>b. case b of
            PDict d \<Rightarrow> (case pget d ''text'' of PStr s \<Rightarrow> if s \<noteq> [] then Some s else None | _ \<Rightarrow> None)
          | _ \<Rightarrow> None) blocks)
      | _ \<Rightarrow> [])"

definition text_token_estimate :: "pyval \<Rightarrow> int" where
  "text_token_estimate v = (case v of PStr s \<Rightarrow> int (tokens_of (length s)) + 4 | _ \<Rightarrow> 4)"

definition CURRENT_OMITTED :: string where
  "CURRENT_OMITTED = ''[Current user message omitted: it exceeded the model context window.]''"

definition SOURCE_OMITTED :: string where
  "SOURCE_OMITTED = ''[Context source omitted: it exceeded its attention budget.]''"

definition PASTED_NOTICE :: string where
  "PASTED_NOTICE = ''[Notice: the pasted message was too large for this model'' @ [CHR 0x27] @
     ''s context window, so Pandamonium kept the beginning and end.]''"

definition SOURCE_NOTICE :: string where
  "SOURCE_NOTICE = ''[Notice: this context source exceeded its attention budget, so Pandamonium '' @
     ''kept the beginning and end.]''"

text \<open>
  \<open>int(k * 0.7)\<close>: the float \<open>0.7\<close> is \<open>3152519739159347 / 2 ^ 52\<close>, and the product is rounded to 53
  bits, to the even one of two equally near.
\<close>

fun bit_length :: "nat \<Rightarrow> nat" where
  "bit_length n = (if n = 0 then 0 else Suc (bit_length (n div 2)))"

declare bit_length.simps [simp del]

definition round53 :: "nat \<Rightarrow> nat" where
  "round53 p =
     (let e = bit_length p - 53; q = p div 2 ^ e; r = p mod 2 ^ e;
          up = (e \<noteq> 0 \<and> (2 ^ (e - 1) < r \<or> (r = 2 ^ (e - 1) \<and> odd q)))
      in (if up then q + 1 else q) * 2 ^ e)"

definition seven_tenths :: "nat \<Rightarrow> nat" where
  "seven_tenths k = round53 (k * 3152519739159347) div 2 ^ 52"

definition truncate_text :: "pyval \<Rightarrow> int \<Rightarrow> string" where
  "truncate_text v token_budget =
     (if token_budget \<le> 32 then CURRENT_OMITTED
      else case v of
        PStr s \<Rightarrow>
          (let max_chars = max 200 (nat ((token_budget - 16) * 10 div 3)) in
           if length s \<le> max_chars then s
           else
             (let notice = newline @ newline @ PASTED_NOTICE;
                  keep_chars = max 200 (max_chars - length notice);
                  head_len = max 100 (seven_tenths keep_chars);
                  tail_len = max 80 (keep_chars - head_len)
              in rstrip (take head_len s) @ notice @ newline @ newline @ lstrip (last_n tail_len s)))
      | _ \<Rightarrow> [])"

section \<open>Messages\<close>

definition truncate_call :: "nat \<Rightarrow> pyval \<Rightarrow> pyval" where
  "truncate_call per_call tc =
     (case tc of
        PDict d \<Rightarrow>
          (case pget d ''function'' of
             PDict fn \<Rightarrow>
               (case pget fn ''arguments'' of
                  PStr args \<Rightarrow>
                    if per_call < tokens_of (length args) then
                      PDict (dset ''function''
                        (PDict (dset ''arguments''
                          (PStr (dumps_default (PDict [(''_truncated_for_context'', PInt (int (length args)))]))) fn)) d)
                    else tc
                | _ \<Rightarrow> tc)
           | _ \<Rightarrow> tc)
      | _ \<Rightarrow> tc)"

definition truncate_tool_call_args :: "message \<Rightarrow> int \<Rightarrow> message" where
  "truncate_tool_call_args msg token_budget =
     (case pget msg ''tool_calls'' of
        PList tcs \<Rightarrow>
          if tcs = [] then msg
          else
            (let used = 4 + content_tokens (pget msg ''content'');
                 per_call = max 16 (nat (token_budget - int used) div length tcs)
             in dset ''tool_calls'' (PList (map (truncate_call per_call) tcs)) msg)
      | _ \<Rightarrow> msg)"

fun truncate_blocks :: "int \<Rightarrow> pyval list \<Rightarrow> pyval list" where
  "truncate_blocks remaining [] = []"
| "truncate_blocks remaining (item # rest) =
     (case item of
        PDict d \<Rightarrow>
          if pget d ''type'' = PStr ''text'' then
            (let truncated = truncate_text (pget_or d ''text'' (PStr [])) remaining
             in PDict (dset ''text'' (PStr truncated) d) # truncate_blocks (remaining - text_token_estimate (PStr truncated)) rest)
          else item # truncate_blocks remaining rest
      | _ \<Rightarrow> item # truncate_blocks remaining rest)"

definition truncate_message :: "(string \<Rightarrow> pyval option) \<Rightarrow> message \<Rightarrow> int \<Rightarrow> message" where
  "truncate_message loads msg token_budget =
     (let out = (case pget_or msg ''content'' (PStr []) of
            PStr s \<Rightarrow> dset ''content''
              (PStr (case trim_mcp_result loads s (nat ((token_budget - 16) * 10 div 3)) of
                 Some projected \<Rightarrow> projected | None \<Rightarrow> truncate_text (PStr s) token_budget)) msg
          | PList blocks \<Rightarrow> dset ''content'' (PList (truncate_blocks token_budget blocks)) msg
          | _ \<Rightarrow> msg)
      in truncate_tool_call_args out token_budget)"

definition DROP_PRIORITY :: "nat dict" where
  "DROP_PRIORITY = [(''derived_knowledge'', 0), (''retrieved_knowledge'', 10), (''recalled_memory'', 20),
     (''tool_catalog'', 30), (''conversation'', 40), (''time'', 50), (''working_state'', 60),
     (''extension_state'', 70), (''tool_result'', 80)]"

definition context_class :: "message \<Rightarrow> string" where
  "context_class m = (let c = pget (tag_of m) ''class'' in if truthy c then py_str c else ''unknown'')"

definition truncate_context_message :: "(string \<Rightarrow> pyval option) \<Rightarrow> message \<Rightarrow> int \<Rightarrow> bool \<Rightarrow> message" where
  "truncate_context_message loads m token_budget source_notice =
     (let out = truncate_message loads m token_budget;
          out = (case pget out ''content'' of
            PStr s \<Rightarrow> if source_notice
              then dset ''content'' (PStr (replace_all PASTED_NOTICE SOURCE_NOTICE (replace_all CURRENT_OMITTED SOURCE_OMITTED s))) out
              else out
          | _ \<Rightarrow> out);
          metadata = dset ''original_tokens'' (PInt (int (message_tokens m)))
            (dset ''context_trimmed'' (PBool True) (metadata_of out))
      in dset ''metadata'' (PDict metadata) out)"

section \<open>Tool calls and results\<close>

fun drop_orphans :: "bool \<Rightarrow> message list \<Rightarrow> message list" where
  "drop_orphans in_batch [] = []"
| "drop_orphans in_batch (m # ms) =
     (if role_is ''tool'' m then (if in_batch then m # drop_orphans True ms else drop_orphans False ms)
      else m # drop_orphans (makes_calls m) ms)"

definition followed :: "message list \<Rightarrow> bool" where
  "followed ms = (case ms of [] \<Rightarrow> False | m # _ \<Rightarrow> role_is ''tool'' m)"

fun strip_dangling :: "message list \<Rightarrow> message list result" where
  "strip_dangling [] = Inr []"
| "strip_dangling (m # ms) =
     rbind (if makes_calls m \<and> \<not> followed ms then unanswered m else Inr [m])
       (\<lambda>head. rbind (strip_dangling ms) (\<lambda>out. Inr (head @ out)))"

definition sanitize_tool_messages :: "message list \<Rightarrow> message list result" where
  "sanitize_tool_messages ms = strip_dangling (drop_orphans False ms)"

definition active_tool_pair :: "message list \<Rightarrow> nat list" where
  "active_tool_pair ms =
     (case find (\<lambda>i. makes_calls (ms ! i)) (rev [0..<length ms]) of
        None \<Rightarrow> []
      | Some i \<Rightarrow> i # [i + 1..<i + 1 + length (takeWhile (role_is ''tool'') (drop (i + 1) ms))])"

section \<open>Ceilings per class\<close>

text \<open>
  One message of a class, from the newest back: what remains of the ceiling, the messages, and the
  indices that are dropped.
\<close>

definition class_round :: "(string \<Rightarrow> pyval option) \<Rightarrow> int \<times> message list \<times> nat list \<Rightarrow> nat \<Rightarrow> int \<times> message list \<times> nat list" where
  "class_round loads s i =
     (let (remaining, result, dropped) = s; tokens = int (message_tokens (result ! i)) in
      if tokens \<le> remaining then (remaining - tokens, result, dropped)
      else if 64 \<le> remaining then (0, result[i := truncate_context_message loads (result ! i) remaining True], dropped)
      else (remaining, result, i # dropped))"

definition class_ceiling :: "int \<Rightarrow> int \<Rightarrow> int" where
  "class_ceiling base percent = max 64 (base * percent div 100)"

definition class_indices :: "message list \<Rightarrow> string \<Rightarrow> nat list" where
  "class_indices ms c = filter (\<lambda>i. context_class (ms ! i) = c) [0..<length ms]"

text \<open>The classes with a ceiling, in the order in which they first occur.\<close>

definition classes_in :: "int dict \<Rightarrow> message list \<Rightarrow> string list" where
  "classes_in percentages ms = rev (remdups (rev (filter (\<lambda>c. c \<in> set (dkeys percentages)) (map context_class ms))))"

definition class_pass :: "(string \<Rightarrow> pyval option) \<Rightarrow> int dict \<Rightarrow> int \<Rightarrow> message list \<Rightarrow>
    message list \<times> nat list \<Rightarrow> string \<Rightarrow> message list \<times> nat list" where
  "class_pass loads percentages base ms s c =
     snd (foldl (class_round loads)
       (class_ceiling base (case dget percentages c of None \<Rightarrow> 0 | Some p \<Rightarrow> p), s) (rev (class_indices ms c)))"

definition kept_of :: "message list \<Rightarrow> nat list \<Rightarrow> message list" where
  "kept_of ms dropped = map (\<lambda>i. ms ! i) (filter (\<lambda>i. i \<notin> set dropped) [0..<length ms])"

definition apply_class_budgets :: "(string \<Rightarrow> pyval option) \<Rightarrow> int dict \<Rightarrow> message list \<Rightarrow> int \<Rightarrow> int option \<Rightarrow> message list" where
  "apply_class_budgets loads percentages ms budget class_base =
     (let base = max (case class_base of Some b \<Rightarrow> b | None \<Rightarrow> budget) 0;
          (result, dropped) = foldl (class_pass loads percentages base ms) (ms, []) (classes_in percentages ms)
      in kept_of result dropped)"

section \<open>Dropping and shrinking\<close>

definition PROTECTED_CLASSES :: "string list" where
  "PROTECTED_CLASSES = [''policy'', ''operator_intent'', ''presentation'']"

definition protected_message :: "bool \<Rightarrow> message \<Rightarrow> bool" where
  "protected_message first_system m =
     (context_class m \<in> set PROTECTED_CLASSES \<or>
      (context_class m = ''identity_policy'' \<and> (\<not> truthy (pget (tag_of m) ''inferred'') \<or> first_system)) \<or>
      truthy (pget m ''_protected'') \<or> truthy (pget (metadata_of m) ''research_spinoff_from''))"

definition first_system :: "message list \<Rightarrow> nat option" where
  "first_system ms = find (\<lambda>i. role_is ''system'' (ms ! i)) [0..<length ms]"

definition protected_indices :: "message list \<Rightarrow> nat list" where
  "protected_indices ms =
     active_tool_pair ms @ filter (\<lambda>i. protected_message (first_system ms = Some i) (ms ! i)) [0..<length ms]"

definition drop_rank :: "message \<Rightarrow> nat" where
  "drop_rank m = (case dget DROP_PRIORITY (context_class m) of None \<Rightarrow> 5 | Some p \<Rightarrow> p)"

definition drop_candidates :: "message list \<Rightarrow> nat list" where
  "drop_candidates ms =
     sort_key (\<lambda>i. drop_rank (ms ! i)) (filter (\<lambda>i. i \<notin> set (protected_indices ms)) [0..<length ms])"

fun drop_lowest :: "int \<Rightarrow> message list \<Rightarrow> nat list \<Rightarrow> nat list \<Rightarrow> nat list" where
  "drop_lowest budget ms dropped [] = dropped"
| "drop_lowest budget ms dropped (i # is) =
     (if int (estimate_tokens (kept_of ms dropped)) \<le> budget then dropped
      else drop_lowest budget ms (i # dropped) is)"

definition SHRINK_ORDER :: "string list" where
  "SHRINK_ORDER = [''working_state'', ''retrieved_knowledge'', ''derived_knowledge'', ''recalled_memory'', ''tool_result'',
     ''extension_state'', ''time'', ''policy'', ''identity_policy'', ''operator_intent'']"

fun shrink_class :: "(string \<Rightarrow> pyval option) \<Rightarrow> int \<Rightarrow> string \<Rightarrow> message list \<Rightarrow> nat list \<Rightarrow> message list" where
  "shrink_class loads budget c result [] = result"
| "shrink_class loads budget c result (i # is) =
     (if int (estimate_tokens result) \<le> budget then result
      else if context_class (result ! i) \<noteq> c then shrink_class loads budget c result is
      else
        (let excess = int (estimate_tokens result) - budget;
             target = max 64 (int (message_tokens (result ! i)) - excess)
         in shrink_class loads budget c
              (result[i := truncate_context_message loads (result ! i) target (c \<noteq> ''operator_intent'')]) is))"

definition shrink_all :: "(string \<Rightarrow> pyval option) \<Rightarrow> int \<Rightarrow> message list \<Rightarrow> message list" where
  "shrink_all loads budget ms =
     foldl (\<lambda>result c. shrink_class loads budget c result (rev [0..<length result])) ms SHRINK_ORDER"

definition trim_budget :: "int \<Rightarrow> int \<Rightarrow> int" where
  "trim_budget context_length reserve = max (context_length - max reserve 0) 64"

definition trim_for_context :: "(string \<Rightarrow> pyval option) \<Rightarrow> int dict \<Rightarrow> pyval list \<Rightarrow> int \<Rightarrow> int \<Rightarrow> int option \<Rightarrow> message list result" where
  "trim_for_context loads percentages messages context_length reserve class_base =
     (let budget = trim_budget context_length reserve;
          trim = (\<lambda>result.
            if int (estimate_tokens result) \<le> budget then sanitize_tool_messages result
            else
              rbind (sanitize_tool_messages (kept_of result (drop_lowest budget result [] (drop_candidates result))))
                (\<lambda>result. sanitize_tool_messages (shrink_all loads budget result)))
      in rbind (annotate_context_messages messages) (\<lambda>annotated.
           trim (apply_class_budgets loads percentages annotated budget class_base)))"

section \<open>Compaction\<close>

text \<open>
  The dash of the summary's heading is not a Latin-1 character and is written as a hyphen here;
  nothing computes with it.
\<close>

definition summary_message :: "string \<Rightarrow> nat \<Rightarrow> message" where
  "summary_message s n =
     [(''role'', PStr ''system''),
      (''content'', PStr (''[Conversation summary - earlier messages were compacted]'' @ newline @ s)),
      (''metadata'', PDict [(''compacted'', PBool True), (''summarized_count'', PInt (int n)),
         (''jos_context'', PDict (make_tag ''conversation'' ''session.compaction_summary'' ''derived''))])]"

text \<open>The history of a session holds messages of its own type; the summary is put in by \<open>mk\<close>.\<close>

definition updated_history :: "(string \<Rightarrow> nat \<Rightarrow> 'm) \<Rightarrow> nat \<Rightarrow> string \<Rightarrow> nat \<Rightarrow> 'm list \<Rightarrow> 'm list" where
  "updated_history mk split_point s system_count history =
     (let effective_split = system_count + split_point in
      if length history \<le> effective_split then history
      else take system_count history @ [mk s split_point] @ drop effective_split history)"

text \<open>
  \<open>window\<close> is the context length of the model; \<open>call\<close> is the call of the summarizing model on the
  text of the older half and the number of earlier compactions, which may fail. The percentage is
  compared exactly: a ratio of integers equals \<open>0.85\<close> as a float only if it does as a rational.
\<close>

definition convo_line :: "message \<Rightarrow> string result" where
  "convo_line m =
     (case pget_or m ''role'' (PStr ''user'') of
        PStr r \<Rightarrow> Inr (upper r @ '': '' @ take 2000 (content_as_text (pget m ''content'')))
      | _ \<Rightarrow> Inl (AttributeError ''upper''))"

text \<open>\<open>"[Conversation summary" in content\<close>: a part of a text, a member of a list, a key of a mapping.\<close>

definition holds_summary :: "message \<Rightarrow> bool result" where
  "holds_summary m =
     (case pget_or m ''content'' (PStr []) of
        PStr s \<Rightarrow> Inr (contains ''[Conversation summary'' s)
      | PList xs \<Rightarrow> Inr (list_ex (py_eq (PStr ''[Conversation summary'')) xs)
      | PTuple xs \<Rightarrow> Inr (list_ex (py_eq (PStr ''[Conversation summary'')) xs)
      | PDict d \<Rightarrow> Inr (dget d ''[Conversation summary'' \<noteq> None)
      | _ \<Rightarrow> Inl (TypeError ''in''))"

definition earlier_summaries :: "message list \<Rightarrow> nat result" where
  "earlier_summaries ms = rbind (rmap holds_summary ms) (\<lambda>bs. Inr (length (filter id bs)))"

text \<open>The text to summarize and the count are made outside of the \<open>try\<close>, so their errors are those of the compaction.\<close>

definition maybe_compact ::
    "(string \<Rightarrow> nat \<Rightarrow> nat \<Rightarrow> string result) \<Rightarrow> nat \<Rightarrow> (string \<Rightarrow> nat \<Rightarrow> 'm) \<Rightarrow> message list \<Rightarrow> 'm list \<Rightarrow>
     (message list \<times> 'm list \<times> bool) result" where
  "maybe_compact call window mk messages history =
     (let used = estimate_tokens messages in
      if window = 0 \<or> 100 * used < 85 * window then Inr (messages, history, False)
      else
        (let system_msgs = filter (role_is ''system'') messages;
             convo_msgs = filter (\<lambda>m. \<not> role_is ''system'' m) messages
         in if length convo_msgs < 4 then Inr (messages, history, False)
            else
              (let split_point = length convo_msgs div 2;
                   older = take split_point convo_msgs;
                   recent = drop split_point convo_msgs
               in rbind (rmap convo_line older) (\<lambda>convo_lines.
                  rbind (earlier_summaries system_msgs) (\<lambda>earlier. Inr
                    (case call (join newline convo_lines) (length older) (earlier + 1) of
                       Inl e \<Rightarrow> (messages, history, False)
                     | Inr s \<Rightarrow> (system_msgs @ [summary_message s (length older)] @ recent,
                         updated_history mk split_point s (length system_msgs) history, True)))))))"

section \<open>Batches stay whole\<close>

text \<open>
  A conversation whose answers of tools stand in a batch behind the message that made the calls,
  and whose calls are followed by an answer. \<open>b\<close> tells whether a batch is open.
\<close>

fun batched :: "bool \<Rightarrow> message list \<Rightarrow> bool" where
  "batched b [] = True"
| "batched b (m # ms) =
     (if role_is ''tool'' m then b \<and> batched True ms
      else (if makes_calls m then followed ms else True) \<and> batched (makes_calls m) ms)"

fun no_orphans :: "bool \<Rightarrow> message list \<Rightarrow> bool" where
  "no_orphans b [] = True"
| "no_orphans b (m # ms) =
     (if role_is ''tool'' m then b \<and> no_orphans True ms else no_orphans (makes_calls m) ms)"

lemma drop_orphans_none: "no_orphans b (drop_orphans b ms)"
  by (induction b ms rule: drop_orphans.induct) auto

lemma tool_no_calls: "role_is ''tool'' m \<Longrightarrow> \<not> makes_calls m"
  by (auto simp: makes_calls_def role_is_def)

lemma unanswered_shape:
  "unanswered m = Inr head \<Longrightarrow> makes_calls m \<Longrightarrow>
     head = [] \<or> (\<exists>p. head = [p] \<and> \<not> makes_calls p \<and> \<not> role_is ''tool'' p)"
  by (auto simp: unanswered_def makes_calls_def role_is_def pget_filter Let_def split: pyval.splits if_splits)

text \<open>Whether an answer follows is not changed by what is stripped behind.\<close>

lemma strip_followed: "strip_dangling ms = Inr out \<Longrightarrow> followed ms \<Longrightarrow> followed out"
  by (cases ms) (auto simp: followed_def rbind_Inr_iff tool_no_calls)

lemma strip_not_followed_batched: "batched b out \<Longrightarrow> \<not> followed out \<Longrightarrow> batched c out"
  by (cases out) (auto simp: followed_def)

lemma strip_batched:
  "strip_dangling ms = Inr out \<Longrightarrow> no_orphans b ms \<Longrightarrow> batched b out"
proof (induction ms arbitrary: b out)
  case (Cons m ms)
  from Cons.prems(1) obtain head tail where
    h: "(if makes_calls m \<and> \<not> followed ms then unanswered m else Inr [m]) = Inr head"
    and t: "strip_dangling ms = Inr tail" and out: "out = head @ tail"
    by (auto simp: rbind_Inr_iff)
  show ?case
  proof (cases "makes_calls m \<and> \<not> followed ms")
    case True
    have nt: "\<not> role_is ''tool'' m" using True tool_no_calls by blast
    with Cons.prems(2) have "no_orphans (makes_calls m) ms" by simp
    moreover have "\<not> followed ms" using True by simp
    ultimately have "no_orphans c ms" for c by (cases ms) (auto simp: followed_def)
    then have tail: "batched c tail" for c using Cons.IH [OF t] by blast
    from h True have "head = [] \<or> (\<exists>p. head = [p] \<and> \<not> makes_calls p \<and> \<not> role_is ''tool'' p)"
      by (intro unanswered_shape) auto
    with tail out show ?thesis by auto
  next
    case False
    with h have head: "head = [m]" by auto
    show ?thesis
    proof (cases "role_is ''tool'' m")
      case True
      with Cons.prems(2) Cons.IH [OF t, of True] head out show ?thesis by simp
    next
      case nt: False
      with Cons.prems(2) have "batched (makes_calls m) tail" using Cons.IH [OF t] by simp
      moreover have "followed tail" if "makes_calls m" using False that strip_followed [OF t] by blast
      ultimately show ?thesis using nt head out by simp
    qed
  qed
qed simp

lemma sanitize_batched: "sanitize_tool_messages ms = Inr out \<Longrightarrow> batched False out"
  unfolding sanitize_tool_messages_def by (rule strip_batched) (auto intro: drop_orphans_none)

lemma trim_ends_sanitized:
  "trim_for_context loads percentages messages context_length reserve class_base = Inr out \<Longrightarrow>
     \<exists>ms. sanitize_tool_messages ms = Inr out"
  by (auto simp: trim_for_context_def Let_def rbind_Inr_iff split: if_splits)

section \<open>What survives\<close>

text \<open>A message that is neither an answer of a tool nor makes calls passes the repair.\<close>

lemma orphans_keep: "m \<in> set ms \<Longrightarrow> calm m \<Longrightarrow> m \<in> set (drop_orphans b ms)"
  by (induction b ms rule: drop_orphans.induct) (auto simp: calm_def)

lemma strip_keep: "strip_dangling ms = Inr out \<Longrightarrow> m \<in> set ms \<Longrightarrow> calm m \<Longrightarrow> m \<in> set out"
  by (induction ms arbitrary: out) (auto simp: calm_def rbind_Inr_iff split: if_splits)

lemma sanitize_keep: "sanitize_tool_messages ms = Inr out \<Longrightarrow> m \<in> set ms \<Longrightarrow> calm m \<Longrightarrow> m \<in> set out"
  unfolding sanitize_tool_messages_def using strip_keep orphans_keep by blast

text \<open>Truncation keeps everything but the content, the arguments of calls, and the two marks in the metadata.\<close>

lemma truncate_calls_get: "k \<noteq> ''tool_calls'' \<Longrightarrow> pget (truncate_tool_call_args m t) k = pget m k"
  by (auto simp: truncate_tool_call_args_def Let_def split: pyval.splits)

lemma truncate_message_get: "k \<notin> {''content'', ''tool_calls''} \<Longrightarrow> pget (truncate_message loads m t) k = pget m k"
  by (auto simp: truncate_message_def truncate_calls_get Let_def split: pyval.splits option.splits)

lemma truncate_calls_truthy: "truthy (pget (truncate_tool_call_args m t) ''tool_calls'') = truthy (pget m ''tool_calls'')"
  by (auto simp: truncate_tool_call_args_def Let_def split: pyval.splits)

lemma truncate_message_calls: "truthy (pget (truncate_message loads m t) ''tool_calls'') = truthy (pget m ''tool_calls'')"
  by (auto simp: truncate_message_def truncate_calls_truthy Let_def split: pyval.splits option.splits)

lemma truncate_context_get:
  "k \<notin> {''content'', ''tool_calls'', ''metadata''} \<Longrightarrow> pget (truncate_context_message loads m t n) k = pget m k"
  by (auto simp: truncate_context_message_def truncate_message_get Let_def split: pyval.splits)

lemma truncate_context_metadata:
  "k \<notin> {''context_trimmed'', ''original_tokens''} \<Longrightarrow>
     pget (metadata_of (truncate_context_message loads m t n)) k = pget (metadata_of m) k"
  by (auto simp: truncate_context_message_def metadata_of_def truncate_message_get Let_def split: pyval.splits)

lemma truncate_context_role: "role_is r (truncate_context_message loads m t n) = role_is r m"
  by (simp add: role_is_def truncate_context_get)

lemma truncate_context_tag: "tag_of (truncate_context_message loads m t n) = tag_of m"
  by (simp add: tag_of_def truncate_context_metadata)

lemma truncate_context_class [simp]: "context_class (truncate_context_message loads m t n) = context_class m"
  by (simp add: context_class_def truncate_context_tag)

lemma truncate_context_calm: "calm (truncate_context_message loads m t n) = calm m"
proof -
  have "truthy (pget (truncate_context_message loads m t n) ''tool_calls'') = truthy (pget m ''tool_calls'')"
    by (auto simp: truncate_context_message_def truncate_message_calls Let_def split: pyval.splits)
  then show ?thesis by (simp add: calm_def makes_calls_def truncate_context_role)
qed

lemma kept_of_mem: "m \<in> set (kept_of ms dropped) \<longleftrightarrow> (\<exists>i < length ms. i \<notin> set dropped \<and> ms ! i = m)"
  by (auto simp: kept_of_def)

text \<open>A pass over one class leaves the other messages alone.\<close>

lemma class_rounds_other:
  "foldl (class_round loads) (r, result, dropped) is = (r', result', dropped') \<Longrightarrow>
     length result' = length result \<and> set dropped' \<subseteq> set dropped \<union> set is \<and>
     (\<forall>i. i \<notin> set is \<longrightarrow> result' ! i = result ! i)"
proof (induction "is" arbitrary: r result dropped)
  case (Cons i "is")
  obtain r1 result1 dropped1 where s: "class_round loads (r, result, dropped) i = (r1, result1, dropped1)"
    by (metis prod_cases3)
  have one: "length result1 = length result" "set dropped1 \<subseteq> set dropped \<union> {i}" "\<forall>j. j \<noteq> i \<longrightarrow> result1 ! j = result ! j"
    using s by (auto simp: class_round_def Let_def split: if_splits)
  from Cons.prems s have "foldl (class_round loads) (r1, result1, dropped1) is = (r', result', dropped')" by simp
  from Cons.IH [OF this] one show ?case by auto
qed simp

lemma class_pass_other:
  assumes "class_pass loads percentages base ms (result, dropped) c = (result', dropped')"
  shows "length result' = length result" "set dropped' \<subseteq> set dropped \<union> set (class_indices ms c)"
    "i \<notin> set (class_indices ms c) \<Longrightarrow> result' ! i = result ! i"
proof -
  obtain r' where f: "foldl (class_round loads)
      (class_ceiling base (case dget percentages c of None \<Rightarrow> 0 | Some p \<Rightarrow> p), result, dropped) (rev (class_indices ms c)) = (r', result', dropped')"
    using assms unfolding class_pass_def by (metis prod.collapse)
  show "length result' = length result" "set dropped' \<subseteq> set dropped \<union> set (class_indices ms c)"
    "i \<notin> set (class_indices ms c) \<Longrightarrow> result' ! i = result ! i"
    using class_rounds_other [OF f] by auto
qed

lemma class_passes_other:
  "foldl (class_pass loads percentages base ms) (result, dropped) cs = (result', dropped') \<Longrightarrow>
     length result' = length result \<and>
     (\<forall>i. (\<forall>c \<in> set cs. i \<notin> set (class_indices ms c)) \<longrightarrow> i \<notin> set dropped \<longrightarrow> result' ! i = result ! i \<and> i \<notin> set dropped')"
proof (induction cs arbitrary: result dropped)
  case (Cons c cs)
  obtain result1 dropped1 where s: "class_pass loads percentages base ms (result, dropped) c = (result1, dropped1)"
    by fastforce
  from Cons.prems s have "foldl (class_pass loads percentages base ms) (result1, dropped1) cs = (result', dropped')" by simp
  from Cons.IH [OF this] class_pass_other [OF s] show ?case by auto
qed simp

text \<open>A message whose class has no ceiling comes out of the budgets as it is.\<close>

lemma budgets_keep:
  assumes "m \<in> set ms" "context_class m \<notin> set (dkeys percentages)"
  shows "m \<in> set (apply_class_budgets loads percentages ms budget class_base)"
proof -
  let ?base = "max (case class_base of Some b \<Rightarrow> b | None \<Rightarrow> budget) 0"
  obtain result dropped where f: "foldl (class_pass loads percentages ?base ms) (ms, []) (classes_in percentages ms) = (result, dropped)"
    by fastforce
  from assms(1) obtain i where i: "i < length ms" "ms ! i = m" by (auto simp: in_set_conv_nth)
  have "i \<notin> set (class_indices ms c)" if "c \<in> set (classes_in percentages ms)" for c
  proof
    assume "i \<in> set (class_indices ms c)"
    then have "context_class m = c" using i(2) by (simp add: class_indices_def)
    moreover have "c \<in> set (dkeys percentages)" using that unfolding classes_in_def by simp
    ultimately show False using assms(2) by simp
  qed
  with class_passes_other [OF f] i have "result ! i = m" "i \<notin> set dropped" "length result = length ms" by auto
  with f i(1) show ?thesis by (auto simp: apply_class_budgets_def kept_of_mem)
qed

lemma drop_lowest_subset: "set (drop_lowest budget ms dropped is) \<subseteq> set dropped \<union> set is"
  by (induction budget ms dropped "is" rule: drop_lowest.induct) auto

lemma dropping_keeps:
  assumes "m \<in> set ms" "context_class m \<in> set PROTECTED_CLASSES"
  shows "m \<in> set (kept_of ms (drop_lowest budget ms [] (drop_candidates ms)))"
proof -
  from assms(1) obtain i where i: "i < length ms" "ms ! i = m" by (auto simp: in_set_conv_nth)
  then have "i \<in> set (protected_indices ms)" using assms(2) by (simp add: protected_indices_def protected_message_def)
  then have "i \<notin> set (drop_lowest budget ms [] (drop_candidates ms))"
    using drop_lowest_subset [of budget ms "[]" "drop_candidates ms"] by (auto simp: drop_candidates_def)
  with i show ?thesis by (auto simp: kept_of_mem)
qed

section \<open>Shrinking\<close>

text \<open>What a message can have become: itself, or itself shortened once to at least 64 tokens.\<close>

definition shortened :: "(string \<Rightarrow> pyval option) \<Rightarrow> message \<Rightarrow> message \<Rightarrow> bool" where
  "shortened loads m m' = (m' = m \<or> (\<exists>t n. 64 \<le> t \<and> m' = truncate_context_message loads m t n))"

lemma shrink_class_facts:
  "distinct is \<Longrightarrow> (\<And>i. i \<in> set is \<Longrightarrow> i < length result) \<Longrightarrow>
     (let out = shrink_class loads budget c result is in
      length out = length result \<and>
      (\<forall>i. if i \<in> set is \<and> context_class (result ! i) = c then shortened loads (result ! i) (out ! i) else out ! i = result ! i))"
proof (induction loads budget c result "is" rule: shrink_class.induct)
  case (2 loads budget c result i "is")
  let ?excess = "int (estimate_tokens result) - budget"
  let ?m = "truncate_context_message loads (result ! i) (max 64 (int (message_tokens (result ! i)) - ?excess)) (c \<noteq> ''operator_intent'')"
  consider "int (estimate_tokens result) \<le> budget"
    | "\<not> int (estimate_tokens result) \<le> budget" "context_class (result ! i) \<noteq> c"
    | "\<not> int (estimate_tokens result) \<le> budget" "context_class (result ! i) = c" by blast
  then show ?case
  proof cases
    case 1
    then show ?thesis by (simp add: shortened_def)
  next
    case 2
    with "2.IH"(1) "2.prems" show ?thesis by (auto simp: Let_def)
  next
    case 3
    let ?r = "result[i := ?m]" and ?out = "shrink_class loads budget c (result[i := ?m]) is"
    have "let out = ?out in length out = length ?r \<and>
      (\<forall>j. if j \<in> set is \<and> context_class (?r ! j) = c then shortened loads (?r ! j) (out ! j) else out ! j = ?r ! j)"
      by (rule "2.IH"(2) [OF 3(1) _ refl refl]) (use 3 "2.prems" in auto)
    then have l: "length ?out = length ?r"
      "\<And>j. if j \<in> set is \<and> context_class (?r ! j) = c then shortened loads (?r ! j) (?out ! j) else ?out ! j = ?r ! j"
      unfolding Let_def by blast+
    have i: "i \<notin> set is" "i < length result" using "2.prems" by auto
    have e: "shrink_class loads budget c result (i # is) = ?out" using 3 by (simp add: Let_def)
    have "shortened loads (result ! i) ?m"
      unfolding shortened_def by (intro disjI2 exI conjI) (rule max.cobounded1, rule refl)
    moreover have "?out ! i = ?m" using l(2) [of i] i by simp
    ultimately have "if j \<in> set (i # is) \<and> context_class (result ! j) = c then shortened loads (result ! j) (?out ! j)
        else ?out ! j = result ! j" for j
      using l(2) [of j] i 3(2) by (cases "j = i") (simp_all only: list.set insert_iff nth_list_update_neq simp_thms if_True)
    then show ?thesis using l(1) unfolding e Let_def by simp
  qed
qed simp

lemma shortened_class: "shortened loads m m' \<Longrightarrow> context_class m' = context_class m"
  by (auto simp: shortened_def)

lemma shrink_classes_facts:
  "distinct cs \<Longrightarrow>
     (let out = foldl (\<lambda>result c. shrink_class loads budget c result (rev [0..<length result])) ms cs in
      length out = length ms \<and>
      (\<forall>i < length ms. if context_class (ms ! i) \<in> set cs then shortened loads (ms ! i) (out ! i) else out ! i = ms ! i))"
proof (induction cs rule: rev_induct)
  case (snoc c cs)
  let ?mid = "foldl (\<lambda>result c. shrink_class loads budget c result (rev [0..<length result])) ms cs"
  let ?out = "shrink_class loads budget c ?mid (rev [0..<length ?mid])"
  have mid: "length ?mid = length ms"
    "\<And>i. i < length ms \<Longrightarrow> if context_class (ms ! i) \<in> set cs then shortened loads (ms ! i) (?mid ! i) else ?mid ! i = ms ! i"
    using snoc by (auto simp: Let_def)
  have last: "let out = shrink_class loads budget c ?mid (rev [0..<length ?mid]) in
      length out = length ?mid \<and>
      (\<forall>i. if i \<in> set (rev [0..<length ?mid]) \<and> context_class (?mid ! i) = c then shortened loads (?mid ! i) (out ! i) else out ! i = ?mid ! i)"
    by (rule shrink_class_facts) auto
  from last have l: "length ?out = length ?mid"
    "\<And>i. if i \<in> set (rev [0..<length ?mid]) \<and> context_class (?mid ! i) = c then shortened loads (?mid ! i) (?out ! i) else ?out ! i = ?mid ! i"
    unfolding Let_def by blast+
  have new: "c \<notin> set cs" using snoc.prems by simp
  have each: "if context_class (ms ! i) \<in> set (cs @ [c]) then shortened loads (ms ! i) (?out ! i) else ?out ! i = ms ! i"
    if i: "i < length ms" for i
  proof (cases "context_class (ms ! i) = c")
    case True
    with new mid(2) [OF i] have "?mid ! i = ms ! i" by simp
    with l(2) [of i] i True mid(1) show ?thesis by simp
  next
    case False
    have "context_class (?mid ! i) = context_class (ms ! i)" using mid(2) [OF i] by (auto split: if_splits dest: shortened_class)
    with l(2) [of i] False have "?out ! i = ?mid ! i" by simp
    with mid(2) [OF i] False show ?thesis by simp
  qed
  have "length ?out = length ms" using l(1) mid(1) by simp
  with each show ?case by (simp add: Let_def)
qed simp

lemma shrink_all_keeps:
  assumes "m \<in> set ms"
  shows "\<exists>m' \<in> set (shrink_all loads budget ms). shortened loads m m'"
proof -
  from assms obtain i where i: "i < length ms" "ms ! i = m" by (auto simp: in_set_conv_nth)
  have "distinct SHRINK_ORDER" by (simp add: SHRINK_ORDER_def)
  from shrink_classes_facts [OF this, of loads budget ms] i
  have "length (shrink_all loads budget ms) = length ms" "shortened loads m (shrink_all loads budget ms ! i)"
    by (auto simp: shrink_all_def Let_def shortened_def split: if_splits)
  with i(1) show ?thesis by (metis nth_mem)
qed

definition fits_without :: "int \<Rightarrow> message list \<Rightarrow> nat list \<Rightarrow> bool" where
  "fits_without budget ms dropped = (int (estimate_tokens (kept_of ms dropped)) \<le> budget)"

lemma kept_of_cong: "set d = set d' \<Longrightarrow> kept_of ms d = kept_of ms d'"
  by (simp add: kept_of_def)

lemma drop_lowest_prefix:
  "\<exists>k \<le> length is. set (drop_lowest budget ms dropped is) = set dropped \<union> set (take k is) \<and>
     (if k = length is then True else fits_without budget ms (take k is @ dropped)) \<and>
     (\<forall>j < k. \<not> fits_without budget ms (take j is @ dropped))"
proof (induction budget ms dropped "is" rule: drop_lowest.induct)
  case (2 budget ms dropped i "is")
  show ?case
  proof (cases "fits_without budget ms dropped")
    case True
    then show ?thesis by (intro exI [of _ 0]) (simp add: fits_without_def)
  next
    case False
    then obtain k where k: "k \<le> length is"
      "set (drop_lowest budget ms (i # dropped) is) = set (i # dropped) \<union> set (take k is)"
      "if k = length is then True else fits_without budget ms (take k is @ i # dropped)"
      "\<forall>j < k. \<not> fits_without budget ms (take j is @ i # dropped)"
      using "2.IH" by (auto simp: fits_without_def)
    have same: "fits_without budget ms (take j (i # is) @ dropped) = fits_without budget ms (take (j - 1) is @ i # dropped)"
      if "0 < j" for j using that unfolding fits_without_def by (cases j) (auto intro!: arg_cong [of _ _ "\<lambda>x. int (estimate_tokens x) \<le> budget"] kept_of_cong)
    have "\<not> fits_without budget ms (take j (i # is) @ dropped)" if "j < Suc k" for j
      using that k(4) False same [of j] by (cases j) auto
    moreover have "set (drop_lowest budget ms dropped (i # is)) = set dropped \<union> set (take (Suc k) (i # is))"
      using k(2) False by (auto simp: fits_without_def)
    moreover have "if Suc k = length (i # is) then True else fits_without budget ms (take (Suc k) (i # is) @ dropped)"
      using k(3) same [of "Suc k"] by simp
    ultimately show ?thesis using k(1) by (intro exI [of _ "Suc k"]) auto
  qed
qed simp

section \<open>Properties\<close>

text \<open>
  Claim C5. However short the window is, the operator's turn, the policies and the presentation stay in
  what is sent: each such message of the conversation is there, whole or shortened once to no less
  than 64 tokens, provided its class is none of those that have a ceiling.
\<close>

theorem protected_context_stays:
  assumes "trim_for_context loads percentages messages context_length reserve class_base = Inr out"
    and "annotate_context_messages messages = Inr annotated" "m \<in> set annotated" "calm m"
    and "context_class m \<in> set PROTECTED_CLASSES" "context_class m \<notin> set (dkeys percentages)"
  shows "\<exists>m' \<in> set out. shortened loads m m'"
proof -
  let ?b = "trim_budget context_length reserve"
  let ?r = "apply_class_budgets loads percentages annotated ?b class_base"
  have r: "m \<in> set ?r" by (rule budgets_keep [OF assms(3,6)])
  show ?thesis
  proof (cases "int (estimate_tokens ?r) \<le> ?b")
    case True
    with assms(1) have "sanitize_tool_messages ?r = Inr out" by (simp add: trim_for_context_def Let_def assms(2))
    from sanitize_keep [OF this r assms(4)] show ?thesis by (auto simp: shortened_def)
  next
    case False
    with assms(1) obtain mid where mid: "sanitize_tool_messages (kept_of ?r (drop_lowest ?b ?r [] (drop_candidates ?r))) = Inr mid"
      and out: "sanitize_tool_messages (shrink_all loads ?b mid) = Inr out"
      by (auto simp: trim_for_context_def Let_def rbind_Inr_iff assms(2))
    have "m \<in> set mid" by (rule sanitize_keep [OF mid dropping_keeps [OF r assms(5)] assms(4)])
    then obtain m' where m': "m' \<in> set (shrink_all loads ?b mid)" "shortened loads m m'" using shrink_all_keeps by blast
    have "calm m'" using m'(2) assms(4) truncate_context_calm by (auto simp: shortened_def)
    with sanitize_keep [OF out m'(1)] m'(2) show ?thesis by blast
  qed
qed

text \<open>
  What is sent has every answer of a tool in the batch of the message that made the calls, and no
  message that makes calls without an answer behind it, whatever was dropped.
\<close>

theorem trimmed_batches_whole:
  assumes "trim_for_context loads percentages messages context_length reserve class_base = Inr out"
  shows "batched False out"
  using trim_ends_sanitized [OF assms] sanitize_batched by blast

text \<open>
  Claim C24. The least important context goes first and no more of it than needed: what is dropped is a
  beginning of the candidates in the order of their rank, the shortest after which the rest fits,
  or all of them; and no protected message is a candidate.
\<close>

theorem drops_shortest_prefix:
  "let candidates = drop_candidates ms; dropped = drop_lowest budget ms [] candidates in
   sorted (map (\<lambda>i. drop_rank (ms ! i)) candidates) \<and> set candidates \<inter> set (protected_indices ms) = {} \<and>
   (\<exists>k \<le> length candidates. set dropped = set (take k candidates) \<and>
      (if k = length candidates then True else fits_without budget ms dropped) \<and>
      list_all (\<lambda>j. \<not> fits_without budget ms (take j candidates)) [0..<k])"
proof -
  let ?c = "drop_candidates ms"
  obtain k where k: "k \<le> length ?c" "set (drop_lowest budget ms [] ?c) = set (take k ?c)"
    "if k = length ?c then True else fits_without budget ms (take k ?c)" "\<forall>j < k. \<not> fits_without budget ms (take j ?c)"
    using drop_lowest_prefix [of ?c budget ms "[]"] unfolding append_Nil2 by auto
  have "fits_without budget ms (drop_lowest budget ms [] ?c) = fits_without budget ms (take k ?c)"
    using kept_of_cong [OF k(2)] by (simp add: fits_without_def)
  with k show ?thesis
    unfolding Let_def by (auto simp: list_all_iff drop_candidates_def intro!: exI [of _ k])
qed


text \<open>
  Where the session does hold the system messages at its front, the two agree: the history is what
  was sent, with the summary in the place of the older half.
\<close>

lemma compaction_agrees:
  assumes "list_all (role_is ''system'') preface" "list_all (\<lambda>m. \<not> role_is ''system'' m) turns"
    and "85 * window \<le> 100 * estimate_tokens (preface @ turns)" "0 < window" "4 \<le> length turns"
    and "rmap convo_line (take (length turns div 2) turns) = Inr older_lines" "earlier_summaries preface = Inr earlier"
    and "call (join newline older_lines) (length turns div 2) (earlier + 1) = Inr s"
  shows "maybe_compact call window summary_message (preface @ turns) (preface @ turns) = Inr
    (let kept = preface @ [summary_message s (length turns div 2)] @ drop (length turns div 2) turns in (kept, kept, True))"
proof -
  have "filter (role_is ''system'') (preface @ turns) = preface" "filter (\<lambda>m. \<not> role_is ''system'' m) (preface @ turns) = turns"
    using assms(1,2) by (auto simp: list_all_iff filter_empty_conv filter_id_conv)
  moreover have "min (length turns) (length turns div 2) = length turns div 2" "length turns div 2 < length turns" using assms(5) by auto
  ultimately show ?thesis
    using assms(3-) by (simp add: maybe_compact_def updated_history_def Let_def)
qed

text \<open>A text that is truncated to 64 tokens takes more than a hundred.\<close>

lemma truncated_text_over_budget:
  "100 < tokens_of (length (truncate_text (PStr (replicate 1000 CHR ''a'')) 64))"
proof -
  have x: "\<not> is_space (CHR ''a'')" by (simp add: is_space_def code_def)
  have "dropWhile is_space (replicate n CHR ''a'') = replicate n CHR ''a''" for n
    using x by (induction n) (simp_all del: dropWhile_eq_Nil_conv)
  then have a: "rstrip (replicate n CHR ''a'') = replicate n CHR ''a''" "lstrip (replicate n CHR ''a'') = replicate n CHR ''a''" for n
    by (simp_all only: rstrip_def lstrip_def rev_replicate)
  have s: "seven_tenths 200 = 140" by (simp add: seven_tenths_def round53_def bit_length.simps Let_def)
  have l: "length (newline @ newline @ PASTED_NOTICE) = 120" by (simp add: newline_def PASTED_NOTICE_def)
  define t where "t = replicate 1000 CHR ''a''"
  have t: "length t = 1000" "rstrip (take 140 t) = replicate 140 CHR ''a''" "lstrip (last_n 80 t) = replicate 80 CHR ''a''"
    using a by (simp_all add: t_def last_n_def)
  have "truncate_text (PStr t) 64 = rstrip (take 140 t) @ (newline @ newline @ PASTED_NOTICE) @ newline @ newline @ lstrip (last_n 80 t)"
    unfolding truncate_text_def Let_def by (simp only: pyval.case t(1) l) (simp add: s)
  then have "length (truncate_text (PStr t) 64) = 342"
    using l t by (simp add: newline_def)
  then show ?thesis by (simp add: t_def tokens_of_def)
qed

definition long_note :: pyval where
  "long_note = PDict [(''role'', PStr ''user''), (''content'', PStr (replicate 220 CHR ''n'')),
     (''metadata'', PDict [(''jos_context'', PDict [(''class'', PStr ''note'')])])]"

definition short_turn :: pyval where
  "short_turn = PDict [(''role'', PStr ''user''), (''content'', PStr ''hi'')]"

definition mounted_turn :: message where
  "mounted_turn = [(''role'', PStr ''user''), (''content'', PStr ''hi''), (''metadata'', PDict [(''jos_context'', PDict operator_tag)])]"

lemma annotated_pair:
  "annotate_context_messages [long_note, short_turn] = Inr [as_mapping long_note @ [], mounted_turn]"
  by code_simp

definition the_note :: message where "the_note = as_mapping long_note"

lemma pair_tokens: "message_tokens the_note = 70" "message_tokens mounted_turn = 4"
  by (simp_all add: the_note_def long_note_def mounted_turn_def message_tokens_def content_tokens_def tokens_of_def)

lemma pair_classes: "context_class the_note = ''note''" "context_class mounted_turn = ''operator_intent''"
  by (code_simp)+

lemma pair_roles:
  "\<not> role_is ''tool'' the_note" "\<not> role_is ''tool'' mounted_turn" "\<not> role_is ''system'' the_note" "\<not> role_is ''system'' mounted_turn"
  "\<not> makes_calls the_note" "\<not> makes_calls mounted_turn" "calm mounted_turn" "\<not> protected_message False the_note"
  by code_simp+

lemma trimmed_pair:
  "trim_for_context (\<lambda>_. None) DEFAULT_CLASS_BUDGET_PERCENT [long_note, short_turn] 576 512 None = Inr [mounted_turn]"
proof -
  let ?ms = "[the_note, mounted_turn]"
  have a: "annotate_context_messages [long_note, short_turn] = Inr ?ms" using annotated_pair by (simp add: the_note_def)
  have "classes_in DEFAULT_CLASS_BUDGET_PERCENT ?ms = []"
    by (simp add: classes_in_def pair_classes DEFAULT_CLASS_BUDGET_PERCENT_def)
  then have b: "apply_class_budgets (\<lambda>_. None) DEFAULT_CLASS_BUDGET_PERCENT ?ms 64 None = ?ms"
    by (simp add: apply_class_budgets_def kept_of_def)
  have p: "protected_indices ?ms = [1]"
    using pair_roles by (simp add: protected_indices_def active_tool_pair_def first_system_def protected_message_def PROTECTED_CLASSES_def pair_classes)
  have "drop_lowest 64 ?ms [] (drop_candidates ?ms) = [0]"
    by (simp add: drop_candidates_def p kept_of_def pair_tokens)
  then have k: "kept_of ?ms (drop_lowest 64 ?ms [] (drop_candidates ?ms)) = [mounted_turn]" by (simp add: kept_of_def)
  have s: "sanitize_tool_messages [mounted_turn] = Inr [mounted_turn]"
    using pair_roles by (simp add: sanitize_tool_messages_def)
  have "shrink_all (\<lambda>_. None) 64 [mounted_turn] = [mounted_turn]"
    by (simp add: shrink_all_def SHRINK_ORDER_def pair_tokens)
  with a b k s show ?thesis by (simp add: trim_for_context_def trim_budget_def Let_def pair_tokens)
qed

theorem protected_context_stays_witness:
  "\<exists>m' \<in> set [mounted_turn]. shortened (\<lambda>_. None) mounted_turn m'"
  by (rule protected_context_stays [OF trimmed_pair annotated_pair]) (use pair_roles in \<open>simp_all add: annotated_pair pair_classes PROTECTED_CLASSES_def DEFAULT_CLASS_BUDGET_PERCENT_def\<close>)

theorem trimmed_batches_whole_witness: "batched False [mounted_turn]"
  by (rule trimmed_batches_whole [OF trimmed_pair])




end
