(* ===== verification/AgentLoop.thy ===== *)
theory AgentLoop
  imports PromptSecurity PyScan
begin

text \<open>
  Pieces of the agent's loop (\<open>src/agent_loop.py\<close>): the reasoning that is cut from a model's text, the
  breaker that ends a run of repeated calls, and what a round puts into the conversation.
\<close>

section \<open>Reasoning blocks\<close>

text \<open>
  The scan finds positions in the lower-cased text and cuts the text itself at them. \<open>lowering\<close> is
  \<open>str.lower\<close> of the alphabet of the text, which need not keep its length.
\<close>

function scan_thinks :: "string \<Rightarrow> string \<Rightarrow> string" where
  "scan_thinks lowered s =
     (case find_at ''<think>'' lowered of
        None \<Rightarrow> s
      | Some start \<Rightarrow>
          (case find_at ''</think>'' (drop (start + 7) lowered) of
             None \<Rightarrow> s
           | Some j \<Rightarrow> take start s @ scan_thinks (drop (start + 7 + j + 8) lowered) (drop (start + 7 + j + 8) s)))"
  by pat_completeness auto
termination
proof (relation "measure (length \<circ> fst)", simp)
  fix lowered s :: string and start j
  assume "find_at ''<think>'' lowered = Some start"
  then have "lowered \<noteq> []" by auto
  then show "((drop (start + 7 + j + 8) lowered, drop (start + 7 + j + 8) s), lowered, s) \<in> measure (length \<circ> fst)" by simp
qed

declare scan_thinks.simps [simp del]

definition strip_think_blocks :: "(string \<Rightarrow> string) \<Rightarrow> string \<Rightarrow> string" where
  "strip_think_blocks lowering s = (if s = [] then s else scan_thinks (lowering s) s)"

text \<open>Where lower case goes character by character, both texts are cut at the same place.\<close>

definition cut_thinks :: "string \<Rightarrow> string" where
  "cut_thinks s = scan_thinks (lower s) s"

lemma cut_thinks_simps:
  "cut_thinks s =
     (case find_at ''<think>'' (lower s) of
        None \<Rightarrow> s
      | Some start \<Rightarrow>
          (case find_at ''</think>'' (drop (start + 7) (lower s)) of
             None \<Rightarrow> s
           | Some j \<Rightarrow> take start s @ cut_thinks (drop (start + 7 + j + 8) s)))"
  by (simp only: cut_thinks_def scan_thinks.simps [of "lower s"] lower_drop)

text \<open>The pattern that the scan replaces.\<close>

definition THINK_BLOCK :: regex where
  "THINK_BLOCK = ignore_case (RSeq (rlit ''<think>'') (RSeq (RLazy rany) (rlit ''</think>'')))"

lemma caseless_think: "list_all caseless ''</think>''"
proof -
  have "caseless c" if "code c < 65 \<or> (97 \<le> code c \<and> code c \<le> 122)" for c
    unfolding caseless_def
  proof
    fix x
    have "code x < 256" by (simp add: code_def)
    then show "(x = c \<or> lower_char x = c \<or> upper_char x = c) = (lower_char x = c)"
      using that by (auto simp: lower_char_def upper_char_def code_def Let_def)
  qed
  then show ?thesis by (simp add: code_def)
qed

text \<open>Where the pattern matches first, when it does.\<close>

lemma think_match:
  "(case matches THINK_BLOCK (l, s, None) of [] \<Rightarrow> None | q # _ \<Rightarrow> Some (snd q)) =
     (if starts_with ''<think>'' (lower s)
      then map_option (\<lambda>j. (drop (7 + j + 8) s, None)) (find_at ''</think>'' (drop 7 (lower s))) else None)"
proof -
  define close where "close = ''</think>''"
  define body where "body = RLazy (RSet (\<lambda>_. True))"
  define C where "C = ignore_case (rlit close)"
  let ?l = "rev (take 7 s) @ l" and ?t = "drop 7 s"
  have mC: "matches C (l, s, g) = (if starts_with close (lower s) then [(rev (take 8 s) @ l, drop 8 s, g)] else [])" for l s g
  proof -
    have "list_all caseless close" "length close = 8" using caseless_think by (simp_all add: close_def)
    then show ?thesis using matches_caseless [of close l s g] by (simp only: C_def)
  qed
  have mB: "matches body (l, s, g) = map (\<lambda>k. (rev (take k s) @ l, drop k s, g)) [0..<Suc (length s)]" for l s g
    unfolding body_def matches.simps fst_conv snd_conv by (rule lazy_any) simp_all
  have "matches (RSeq body C) (?l, ?t, None) =
      concat (map (\<lambda>k. if starts_with close (drop k (lower ?t))
        then [(rev (take 8 (drop k ?t)) @ rev (take k ?t) @ ?l, drop 8 (drop k ?t), None)] else []) [0..<Suc (length ?t)])"
    by (simp only: matches.simps(3) mB map_map comp_def mC lower_drop)
  then obtain rest where m: "matches (RSeq body C) (?l, ?t, None) =
      (case find_at close (lower ?t) of None \<Rightarrow> []
       | Some k \<Rightarrow> (rev (take 8 (drop k ?t)) @ rev (take k ?t) @ ?l, drop 8 (drop k ?t), None) # rest)"
    using concat_find [of "\<lambda>k. starts_with close (drop k (lower ?t))"
      "\<lambda>k. (rev (take 8 (drop k ?t)) @ rev (take k ?t) @ ?l, drop 8 (drop k ?t), None)" "[0..<Suc (length ?t)]"]
    by (auto simp: find_at_def lower_def simp del: upt_Suc)
  have "list_all caseless ''<think>''" "length ''<think>'' = 7" using caseless_think by simp_all
  then have "matches (ignore_case (rlit ''<think>'')) (l, s, None) = (if starts_with ''<think>'' (lower s) then [(?l, ?t, None)] else [])"
    using matches_caseless [of "''<think>''" l s None] by (simp only:)
  moreover have t: "THINK_BLOCK = RSeq (ignore_case (rlit ''<think>'')) (RSeq body C)"
    by (simp add: THINK_BLOCK_def body_def C_def close_def rany_def)
  ultimately have "matches THINK_BLOCK (l, s, None) = (if starts_with ''<think>'' (lower s) then matches (RSeq body C) (?l, ?t, None) else [])"
    unfolding t by (cases "starts_with ''<think>'' (lower s)")
      (simp_all only: matches.simps(3) if_True if_False list.map concat.simps append_Nil2)
  then show ?thesis
    unfolding m by (auto simp: lower_drop add.commute close_def split: option.splits)
qed


section \<open>One pass instead of a substitution\<close>

lemma find_think: "starts_with ''<think>'' (lower s) \<Longrightarrow> find_at ''<think>'' (lower s) = Some 0"
  by (cases "lower s") auto

text \<open>A text with no closing marker behind it is left as it is.\<close>

lemma strip_unclosed: "find_at ''</think>'' (drop 7 (lower (c # s))) = None \<Longrightarrow> cut_thinks s = s"
proof -
  assume a: "find_at ''</think>'' (drop 7 (lower (c # s))) = None"
  have "find_at ''</think>'' (drop (start + 7) (lower s)) = None" for start
    using find_at_suffix [OF a, of "Suc start"] by (simp add: lower_def add.commute)
  then show "cut_thinks s = s" by (simp add: cut_thinks_simps [of s] split: option.split)
qed

lemma strip_Cons:
  assumes "\<not> (starts_with ''<think>'' (lower (c # s)) \<and> find_at ''</think>'' (drop 7 (lower (c # s))) \<noteq> None)"
  shows "cut_thinks (c # s) = c # cut_thinks s"
proof (cases "starts_with ''<think>'' (lower (c # s))")
  case True
  with assms have n: "find_at ''</think>'' (drop 7 (lower (c # s))) = None" by simp
  then have "cut_thinks (c # s) = c # s"
    using find_think [OF True] by (simp add: cut_thinks_simps [of "c # s"])
  with strip_unclosed [OF n] show ?thesis by simp
next
  case False
  then have "find_at ''<think>'' (lower (c # s)) = map_option Suc (find_at ''<think>'' (lower s))"
    by (simp add: lower_def del: starts_with_Cons)
  moreover have "drop (Suc k + 7) (lower (c # s)) = drop (k + 7) (lower s)"
    "drop (Suc k + 7 + j + 8) (c # s) = drop (k + 7 + j + 8) s" for k j
    by (simp_all only: add_Suc drop_Suc_Cons lower_def list.map)
  ultimately show ?thesis
    unfolding cut_thinks_simps [of "c # s"] cut_thinks_simps [of s]
    by (cases "find_at ''<think>'' (lower s)"; cases "find_at ''</think>'' (drop (the (find_at ''<think>'' (lower s)) + 7) (lower s))")
      (simp_all del: drop_Suc_Cons find_at_simps)
qed

lemma sub_is_strip: "length s < n \<Longrightarrow> sub_from n THINK_BLOCK (\<lambda>_. []) l s = cut_thinks s"
proof (induction n arbitrary: l s)
  case (Suc n)
  let ?m = "matches THINK_BLOCK (l, s, None)"
  show ?case
  proof (cases "starts_with ''<think>'' (lower s)")
    case False
    then have m: "?m = []" using think_match [of l s] by (auto split: list.splits)
    show ?thesis
    proof (cases s)
      case Nil
      then show ?thesis using m by (simp add: cut_thinks_simps [of "[]"] lower_def)
    next
      case (Cons c t)
      with m Suc have "sub_from (Suc n) THINK_BLOCK (\<lambda>_. []) l s = c # cut_thinks t" by simp
      with strip_Cons [of c t] False Cons show ?thesis by simp
    qed
  next
    case True
    show ?thesis
    proof (cases "find_at ''</think>'' (drop 7 (lower s))")
      case None
      then have m: "?m = []" using think_match [of l s] True by (auto split: list.splits)
      obtain c t where Cons: "s = c # t" using True by (cases s) (auto simp: lower_def)
      with m Suc have "sub_from (Suc n) THINK_BLOCK (\<lambda>_. []) l s = c # cut_thinks t" by simp
      with strip_Cons [of c t] None Cons show ?thesis by simp
    next
      case (Some j)
      with True obtain l' q where m: "?m = (l', drop (7 + j + 8) s, None) # q"
        using think_match [of l s] by (auto split: list.splits)
      have "s \<noteq> []" using True by (auto simp: lower_def)
      then have short: "length (drop (7 + j + 8) s) < length s" by simp
      have "cut_thinks s = cut_thinks (drop (7 + j + 8) s)"
        using find_think [OF True] Some by (simp add: cut_thinks_simps [of s])
      moreover have "sub_from (Suc n) THINK_BLOCK (\<lambda>_. []) l s = sub_from n THINK_BLOCK (\<lambda>_. []) l' (drop (7 + j + 8) s)"
        using m short by simp
      ultimately show ?thesis using Suc.IH [of "drop (7 + j + 8) s" l'] short Suc.prems by simp
    qed
  qed
qed simp

text \<open>
  The scan gives what the regular expression it replaced gives,
  \<open>re.sub(r'<think>.*?</think>', '', text, flags=DOTALL|IGNORECASE)\<close>, for the texts whose lower case is
  that of their characters one by one, as it is throughout Latin-1.
\<close>

lemma think_scan_is_regex:
  assumes "lowering s = lower s"
  shows "strip_think_blocks lowering s = re_sub THINK_BLOCK (\<lambda>_. []) s"
proof -
  have e: "cut_thinks [] = []" by (simp add: cut_thinks_simps [of "[]"] lower_def)
  have "re_sub THINK_BLOCK (\<lambda>_. []) s = cut_thinks s"
    unfolding re_sub_def by (rule sub_is_strip) simp
  then show ?thesis
    using e unfolding strip_think_blocks_def assms cut_thinks_def by (cases s) (simp_all del: scan_thinks.simps)
qed

text \<open>
  Where a character has a lower case of two characters, as U+0130 has, the positions shift: the scan
  keeps a part of the marker and takes a part of the answer. The character stands for such a one.
\<close>

lemma long_lower_case_shifts:
  "strip_think_blocks (\<lambda>s. concat (map (\<lambda>c. if c = CHR 0xCC then [c, c] else [lower_char c]) s))
     (CHR 0xCC # ''<think>a</think>bc'') = CHR 0xCC # ''<c''"
  by code_simp

section \<open>The loop breaker\<close>

text \<open>A tool block: its type and its content, which may be absent.\<close>

type_synonym tool_block = "string \<times> string option"

definition call_sig :: "tool_block \<Rightarrow> string" where
  "call_sig b = fst b @ '':'' @ take 120 (strip (case snd b of None \<Rightarrow> [] | Some c \<Rightarrow> c))"

definition round_sig :: "tool_block list \<Rightarrow> string" where
  "round_sig blocks = join ''|'' (sort (map call_sig blocks))"

text \<open>The state of the breaker: the last six rounds, the streak of useless ones, and how often each call was made.\<close>

record breaker =
  br_recent :: "string list"
  br_stuck :: nat
  br_freq :: "nat dict"

definition new_breaker :: breaker where
  "new_breaker = \<lparr>br_recent = [], br_stuck = 0, br_freq = []\<rparr>"

definition count_call :: "nat dict \<Rightarrow> string \<Rightarrow> nat dict" where
  "count_call freq sig = dset sig ((case dget freq sig of None \<Rightarrow> 0 | Some n \<Rightarrow> n) + 1) freq"

definition detect_runaway_call :: "nat \<Rightarrow> nat dict \<Rightarrow> string option" where
  "detect_runaway_call threshold freq =
     (case find (\<lambda>(s, n). threshold \<le> n) freq of
        Some (s, _) \<Rightarrow> if s = [] then None else Some (takeWhile (\<lambda>c. c \<noteq> CHR '':'') s)
      | None \<Rightarrow> None)"

text \<open>
  A round that calls tools: the state after it, and whether the breaker ends the calling.
  \<open>wrote\<close> tells whether the round has text besides its reasoning.
\<close>

definition breaker_round :: "tool_block list \<Rightarrow> bool \<Rightarrow> breaker \<Rightarrow> breaker \<times> bool" where
  "breaker_round blocks wrote br =
     (let sig = round_sig blocks;
          is_repeat = sig \<in> set (br_recent br);
          br = br\<lparr>br_recent := last_n 6 (br_recent br @ [sig]),
                  br_freq := foldl count_call (br_freq br) (map call_sig blocks),
                  br_stuck := (if is_repeat \<and> \<not> wrote then br_stuck br + 1 else 0)\<rparr>;
          runaway = (case detect_runaway_call 15 (br_freq br) of None \<Rightarrow> False | Some s \<Rightarrow> s \<noteq> [])
      in (br, 4 \<le> br_stuck br \<or> runaway))"

text \<open>The rounds up to the first that trips the breaker.\<close>

fun rounds_until_trip :: "(tool_block list \<times> bool) list \<Rightarrow> breaker \<Rightarrow> (tool_block list \<times> bool) list" where
  "rounds_until_trip [] br = []"
| "rounds_until_trip ((blocks, wrote) # rest) br =
     (let (br', tripped) = breaker_round blocks wrote br
      in if tripped then [] else (blocks, wrote) # rounds_until_trip rest br')"

definition calls_in :: "(tool_block list \<times> bool) list \<Rightarrow> string list" where
  "calls_in rs = concat (map (\<lambda>r. map call_sig (fst r)) rs)"

section \<open>Failures of the generic API\<close>

definition HTTP_STATUS :: regex where
  "HTTP_STATUS = rseq [rlit ''HTTP'', rplus rspace, RGroup (RRep 3 (Some 3) rdigit), RWordB]"

definition http_status :: "string \<Rightarrow> string option" where
  "http_status s = (case matches HTTP_STATUS ([], s, None) of (_, _, Some g) # _ \<Rightarrow> Some g | _ \<Rightarrow> None)"

definition succeeded :: "pyval \<Rightarrow> bool" where
  "succeeded v = (v = PNone \<or> py_eq v (PInt 0) \<or> v = PStr ''0'')"

definition failure_fingerprint :: "(string \<Rightarrow> pyval option) \<Rightarrow> string \<Rightarrow> string \<Rightarrow> pyval dict \<Rightarrow> string option" where
  "failure_fingerprint loads tool_type content result =
     (if tool_type \<noteq> ''api_call'' \<or> succeeded (pget result ''exit_code'') then None
      else case http_status (str_or (pget result ''error'')) of
        None \<Rightarrow> None
      | Some status \<Rightarrow>
          (let arguments = (case loads (if content = [] then ''{}'' else content) of Some (PDict d) \<Rightarrow> d | _ \<Rightarrow> []);
               integration = lower (strip (str_or (py_or (py_or (pget arguments ''integration_id'') (pget arguments ''integration'')) (pget arguments ''id''))));
               m = upper (strip (py_str (py_or (pget arguments ''method'') (PStr ''GET''))))
           in Some (''api_call:'' @ integration @ '':'' @ m @ '':HTTP '' @ status)))"

definition record_repeated_api_failure ::
    "(string \<Rightarrow> pyval option) \<Rightarrow> nat \<Rightarrow> string \<Rightarrow> string \<Rightarrow> pyval dict \<Rightarrow> nat dict \<Rightarrow> nat dict \<times> string option" where
  "record_repeated_api_failure loads threshold tool_type content result freq =
     (case failure_fingerprint loads tool_type content result of
        None \<Rightarrow> (freq, None)
      | Some fp \<Rightarrow>
          (let freq = count_call freq fp
           in (freq, if threshold \<le> (case dget freq fp of None \<Rightarrow> 0 | Some n \<Rightarrow> n) then Some fp else None)))"

section \<open>What a round puts into the conversation\<close>

definition call_name :: "pyval dict \<Rightarrow> pyval" where
  "call_name tc = pget_or tc ''name'' (PStr [])"

definition round_call_id :: "nat \<Rightarrow> nat \<Rightarrow> pyval dict \<Rightarrow> pyval" where
  "round_call_id round_num j tc = pget_or tc ''id'' (PStr (''call_'' @ show_nat round_num @ ''_'' @ show_nat j))"

definition tool_call_entry :: "nat \<Rightarrow> nat \<Rightarrow> pyval dict \<Rightarrow> pyval" where
  "tool_call_entry round_num j tc =
     PDict ([(''id'', round_call_id round_num j tc), (''type'', PStr ''function''),
        (''function'', PDict [(''name'', call_name tc), (''arguments'', pget_or tc ''arguments'' (PStr ''{}''))])] @
       (if truthy (pget tc ''extra_content'') then [(''extra_content'', pget tc ''extra_content'')] else []))"

definition assistant_entry :: "string \<Rightarrow> pyval dict list \<Rightarrow> nat \<Rightarrow> string \<Rightarrow> message" where
  "assistant_entry response calls round_num reasoning =
     [(''role'', PStr ''assistant''), (''content'', if strip response \<noteq> [] then PStr response else PNone)] @
     (if reasoning \<noteq> [] then [(''reasoning_content'', PStr reasoning)] else []) @
     [(''tool_calls'', PList (map (\<lambda>(j, tc). tool_call_entry round_num j tc) (List.enumerate 0 calls)))]"

definition tool_entry :: "nat \<Rightarrow> string list \<Rightarrow> nat \<times> pyval dict \<Rightarrow> message" where
  "tool_entry round_num texts j_tc =
     (let (j, tc) = j_tc in
      [(''role'', PStr ''tool''), (''tool_call_id'', round_call_id round_num j tc),
       (''content'', PStr (if j < length texts then texts ! j else [])),
       (''metadata'', PDict [(''trusted'', PBool False), (''source'', PStr ''tool result''),
          (''jos_context'', PDict [(''class'', PStr ''tool_result''),
             (''source'', PStr (''tool.'' @ py_str (pget_or tc ''name'' (PStr ''unknown'')) @ ''.result'')),
             (''trust'', PStr ''untrusted_data'')])])])"

definition without_reasoning :: "message \<Rightarrow> message" where
  "without_reasoning m = (if role_is ''assistant'' m then dpop ''reasoning_content'' m else m)"

definition append_tool_results ::
    "message list \<Rightarrow> string \<Rightarrow> pyval dict list \<Rightarrow> string list \<Rightarrow> string list \<Rightarrow> bool \<Rightarrow> nat \<Rightarrow> string \<Rightarrow> message list" where
  "append_tool_results messages response calls results texts used_native round_num reasoning =
     map without_reasoning messages @
     (if used_native \<and> calls \<noteq> [] then
        assistant_entry response calls round_num reasoning # map (tool_entry round_num texts) (List.enumerate 0 calls)
      else
        [[(''role'', PStr ''assistant''), (''content'', PStr response)] @
           (if reasoning \<noteq> [] then [(''reasoning_content'', PStr reasoning)] else []),
         untrusted_context_message ''tool execution results'' (PStr (join (newline @ newline) results))])"

section \<open>The breaker counts exactly\<close>

definition freq_of :: "nat dict \<Rightarrow> string \<Rightarrow> nat" where
  "freq_of freq sig = (case dget freq sig of None \<Rightarrow> 0 | Some n \<Rightarrow> n)"

lemma freq_count: "freq_of (count_call freq s) sig = freq_of freq sig + (if s = sig then 1 else 0)"
  by (auto simp: freq_of_def count_call_def)

lemma freq_counts: "freq_of (foldl count_call freq ss) sig = freq_of freq sig + count_list ss sig"
  by (induction ss arbitrary: freq) (auto simp: freq_count)

lemma wf_count: "wf_dict freq \<Longrightarrow> wf_dict (foldl count_call freq ss)"
  by (induction ss arbitrary: freq) (auto simp: count_call_def)

lemma counted_sigs: "set (dkeys (foldl count_call freq ss)) = set (dkeys freq) \<union> set ss"
  by (induction ss arbitrary: freq) (auto simp: count_call_def dkeys_dset)

lemma no_runaway:
  assumes "wf_dict freq" "list_all (\<lambda>k. k \<noteq> [] \<and> hd k \<noteq> CHR '':'') (dkeys freq)"
    "(case detect_runaway_call 15 freq of None \<Rightarrow> False | Some s \<Rightarrow> s \<noteq> []) = False"
  shows "freq_of freq sig \<le> 14"
proof (cases "dget freq sig")
  case (Some n)
  then have mem: "(sig, n) \<in> set freq" by (simp add: map_of_SomeD)
  have "\<not> 15 \<le> n"
  proof
    assume "15 \<le> n"
    with mem obtain s m where f: "find (\<lambda>(s, n). 15 \<le> n) freq = Some (s, m)"
      by (cases "find (\<lambda>(s, n). 15 \<le> n) freq") (auto simp: find_None_iff)
    then have "s \<in> set (dkeys freq)" by (auto dest!: find_SomeD intro: rev_image_eqI)
    with assms(2) have "s \<noteq> []" "hd s \<noteq> CHR '':''" by (auto simp: list_all_iff)
    then have "takeWhile (\<lambda>c. c \<noteq> CHR '':'') s \<noteq> []" by (cases s) auto
    with f \<open>s \<noteq> []\<close> assms(3) show False by (simp add: detect_runaway_call_def)
  qed
  with Some show ?thesis by (simp add: freq_of_def)
qed (simp add: freq_of_def)

definition named_calls :: "(tool_block list \<times> bool) list \<Rightarrow> bool" where
  "named_calls rs = list_all (\<lambda>r. list_all (\<lambda>b. fst b \<noteq> [] \<and> hd (fst b) \<noteq> CHR '':'') (fst r)) rs"

lemma call_sig_named: "fst b \<noteq> [] \<Longrightarrow> hd (call_sig b) = hd (fst b) \<and> call_sig b \<noteq> []"
  by (simp add: call_sig_def)

lemma breaker_run_bounded:
  "wf_dict (br_freq br) \<Longrightarrow> list_all (\<lambda>k. k \<noteq> [] \<and> hd k \<noteq> CHR '':'') (dkeys (br_freq br)) \<Longrightarrow> named_calls rs \<Longrightarrow>
     freq_of (br_freq br) sig \<le> 14 \<Longrightarrow>
     freq_of (br_freq br) sig + count_list (calls_in (rounds_until_trip rs br)) sig \<le> 14"
proof (induction rs br rule: rounds_until_trip.induct)
  case (2 blocks wrote rest br)
  obtain br' tripped where b: "breaker_round blocks wrote br = (br', tripped)" by fastforce
  show ?case
  proof (cases tripped)
    case True
    with b "2.prems"(4) show ?thesis by (simp add: calls_in_def)
  next
    case False
    have f: "br_freq br' = foldl count_call (br_freq br) (map call_sig blocks)"
      "(case detect_runaway_call 15 (br_freq br') of None \<Rightarrow> False | Some s \<Rightarrow> s \<noteq> []) = False"
      using b False by (auto simp: breaker_round_def Let_def)
    have w: "wf_dict (br_freq br')" unfolding f(1) by (rule wf_count [OF "2.prems"(1)])
    have n: "named_calls rest" using "2.prems"(3) by (simp add: named_calls_def)
    have k: "list_all (\<lambda>k. k \<noteq> [] \<and> hd k \<noteq> CHR '':'') (dkeys (br_freq br'))"
      using "2.prems"(2,3) call_sig_named unfolding f(1) list_all_iff counted_sigs named_calls_def by auto
    from "2.IH" [OF b [symmetric] refl False w k n no_runaway [OF w k f(2)]]
    show ?thesis using b False by (simp add: f(1) freq_counts calls_in_def)
  qed
qed (simp add: calls_in_def)

lemma breaker_passes:
  "wf_dict (br_freq br) \<Longrightarrow> (\<And>sig. freq_of (br_freq br) sig + count_list (calls_in rs) sig \<le> 14) \<Longrightarrow>
     distinct (map (round_sig \<circ> fst) rs) \<Longrightarrow> set (br_recent br) \<inter> set (map (round_sig \<circ> fst) rs) = {} \<Longrightarrow>
     rounds_until_trip rs br = rs"
proof (induction rs br rule: rounds_until_trip.induct)
  case (2 blocks wrote rest br)
  obtain br' tripped where b: "breaker_round blocks wrote br = (br', tripped)" by fastforce
  have br': "br' = fst (breaker_round blocks wrote br)" using b by simp
  have nr: "round_sig blocks \<notin> set (br_recent br)" using "2.prems"(4) by auto
  have f: "br_freq br' = foldl count_call (br_freq br) (map call_sig blocks)" "br_stuck br' = 0"
    "br_recent br' = last_n 6 (br_recent br @ [round_sig blocks])"
    unfolding br' by (simp_all add: breaker_round_def Let_def nr)
  have w: "wf_dict (br_freq br')" unfolding f(1) by (rule wf_count [OF "2.prems"(1)])
  have c: "freq_of (br_freq br') sig + count_list (calls_in rest) sig \<le> 14" for sig
    using "2.prems"(2) [of sig] by (simp add: f(1) freq_counts calls_in_def)
  have "find (\<lambda>(s, n). 15 \<le> n) (br_freq br') = None"
  proof -
    have "\<not> 15 \<le> n" if "(s, n) \<in> set (br_freq br')" for s n
    proof -
      have "dget (br_freq br') s = Some n" using wf_dget_iff [OF w] that by blast
      with c [of s] show ?thesis by (simp add: freq_of_def)
    qed
    then show ?thesis by (auto simp: find_None_iff)
  qed
  then have t: "\<not> tripped" using b f(2) by (auto simp: breaker_round_def detect_runaway_call_def Let_def)
  have "set (br_recent br') \<subseteq> set (br_recent br) \<union> {round_sig blocks}"
    unfolding f(3) using set_last_n [of 6 "br_recent br @ [round_sig blocks]"] by auto
  moreover have "round_sig blocks \<notin> set (map (round_sig \<circ> fst) rest)" "set (br_recent br) \<inter> set (map (round_sig \<circ> fst) rest) = {}"
    using "2.prems"(3,4) by (simp_all del: set_map add: comp_def)
  ultimately have d: "set (br_recent br') \<inter> set (map (round_sig \<circ> fst) rest) = {}" by blast
  have "distinct (map (round_sig \<circ> fst) rest)" using "2.prems"(3) by (simp add: comp_def)
  from "2.IH" [OF b [symmetric] refl t w c this d] show ?case using b t by simp
qed simp

text \<open>
  Claim C22. The breaker bounds a turn and spares work. However a model behaves, no call is made a fifteenth
  time: in the rounds that are run, each call with its arguments occurs at most fourteen times. And
  rounds that are all different, with no call more than fourteen times, are all run.
\<close>

theorem breaker_bounds_repeats:
  assumes "named_calls rs"
  shows "count_list (calls_in (rounds_until_trip rs new_breaker)) sig \<le> 14 \<and>
    (if distinct (map (round_sig \<circ> fst) rs) \<and> list_all (\<lambda>s. count_list (calls_in rs) s \<le> 14) (calls_in rs)
     then rounds_until_trip rs new_breaker = rs else True)"
proof -
  have z: "freq_of [] s = 0" for s by (simp add: freq_of_def)
  have "count_list (calls_in (rounds_until_trip rs new_breaker)) sig \<le> 14"
    using breaker_run_bounded [of new_breaker rs sig] assms by (simp add: new_breaker_def z)
  moreover have "rounds_until_trip rs new_breaker = rs"
    if d: "distinct (map (round_sig \<circ> fst) rs)" "list_all (\<lambda>s. count_list (calls_in rs) s \<le> 14) (calls_in rs)"
  proof -
    have "count_list (calls_in rs) s \<le> 14" for s
      using d(2) by (cases "s \<in> set (calls_in rs)") (auto simp: list_all_iff)
    then show ?thesis using breaker_passes [of new_breaker rs] d(1) by (simp add: new_breaker_def z)
  qed
  ultimately show ?thesis by simp
qed

definition same_round :: "tool_block list \<times> bool" where
  "same_round = ([(''bash'', Some ''ls'')], True)"

theorem breaker_bounds_repeats_witness:
  "count_list (calls_in (rounds_until_trip (replicate 20 same_round) new_breaker)) (call_sig (''bash'', Some ''ls'')) \<le> 14"
  using breaker_bounds_repeats [of "replicate 20 same_round" "call_sig (''bash'', Some ''ls'')"]
  by (simp add: named_calls_def same_round_def list_all_iff)

section \<open>Results reach the model\<close>

text \<open>A batch of calls with their answers is repaired by itself when it stands at the end.\<close>

lemma takeWhile_tool_append: "\<not> role_is ''tool'' a \<Longrightarrow>
     takeWhile (role_is ''tool'') (xs @ a # ys) = takeWhile (role_is ''tool'') xs \<and>
     dropWhile (role_is ''tool'') (xs @ a # ys) = dropWhile (role_is ''tool'') xs @ a # ys"
  by (induction xs) auto

lemma repair_append:
  assumes "\<not> role_is ''tool'' a"
  shows "repair_calls (ms @ a # zs) = rbind (repair_calls ms) (\<lambda>o1. rbind (repair_calls (a # zs)) (\<lambda>o2. Inr (o1 @ o2)))"
proof (induction ms rule: repair_calls.induct)
  case 1
  then show ?case by (cases "repair_calls (a # zs)") simp_all
next
  case (2 msg rest)
  note t = takeWhile_tool_append [OF assms, of rest zs]
  show ?case
  proof (cases "role_is ''tool'' msg")
    case True
    with "2.IH"(1) show ?thesis by simp
  next
    case nt: False
    show ?thesis
    proof (cases "role_is ''assistant'' msg \<and> truthy (pget msg ''tool_calls'')")
      case False
      have "repair_calls ((msg # rest) @ a # zs) = rbind (repair_calls (rest @ a # zs)) (\<lambda>out. Inr (msg # out))"
        using nt False by simp
      moreover have "repair_calls (msg # rest) = rbind (repair_calls rest) (\<lambda>out. Inr (msg # out))" using nt False by simp
      ultimately show ?thesis using "2.IH"(2) [OF nt False]
        by (cases "repair_calls rest"; cases "repair_calls (a # zs)") (simp_all del: repair_calls.simps)
    next
      case True
      show ?thesis
      proof (cases "calls_of (pget msg ''tool_calls'')")
        case (Inl e)
        then show ?thesis using nt True by simp
      next
        case (Inr calls)
        let ?batch = "matched_answers (call_ids calls) [] (takeWhile (role_is ''tool'') rest)"
        let ?head = "if ?batch = [] then unanswered msg else Inr (answered_call msg calls ?batch)"
        let ?after = "dropWhile (role_is ''tool'') rest"
        have a: "repair_calls ((msg # rest) @ a # zs) = rbind ?head (\<lambda>head. rbind (repair_calls (?after @ a # zs)) (\<lambda>out. Inr (head @ out)))"
          using nt True Inr t by (simp add: Let_def)
        have b: "repair_calls (msg # rest) = rbind ?head (\<lambda>head. rbind (repair_calls ?after) (\<lambda>out. Inr (head @ out)))"
          using nt True Inr by (simp add: Let_def)
        have ih: "repair_calls (?after @ a # zs) = rbind (repair_calls ?after) (\<lambda>o1. rbind (repair_calls (a # zs)) (\<lambda>o2. Inr (o1 @ o2)))"
          if "?head = Inr head" for head
          using "2.IH"(3) [OF nt _ refl refl] True by simp
        show ?thesis
        proof (cases ?head)
          case (Inl e)
          show ?thesis unfolding a b Inl by simp
        next
          case (Inr head)
          show ?thesis unfolding a b Inr ih [OF Inr]
            by (cases "repair_calls ?after"; cases "repair_calls (a # zs)") (simp_all del: repair_calls.simps)
        qed
      qed
    qed
  qed
qed

lemma foldl_merge_plain: "list_all (\<lambda>m. \<not> role_is ''user'' m) ms \<Longrightarrow> foldl merge_step acc ms = acc @ ms"
proof (induction ms arbitrary: acc)
  case (Cons m ms)
  have "merge_step acc m = acc @ [m]"
    using Cons.prems by (cases acc rule: rev_cases) (auto simp: merge_step_def merge_next_def)
  with Cons show ?case by simp
qed simp

text \<open>An answer as it is sent: without the tag that the server keeps.\<close>

definition sent_tool :: "nat \<Rightarrow> string list \<Rightarrow> nat \<times> pyval dict \<Rightarrow> message" where
  "sent_tool n texts j_tc =
     (let (j, tc) = j_tc in
      [(''role'', PStr ''tool''), (''tool_call_id'', round_call_id n j tc),
       (''content'', PStr (if j < length texts then texts ! j else []))])"

definition call_entries :: "nat \<Rightarrow> pyval dict list \<Rightarrow> pyval list" where
  "call_entries n calls = map (\<lambda>(j, tc). tool_call_entry n j tc) (List.enumerate 0 calls)"

text \<open>Calls whose ids are texts, and the ids.\<close>

definition text_ids :: "nat \<Rightarrow> pyval dict list \<Rightarrow> string list \<Rightarrow> bool" where
  "text_ids n calls ids = (map (\<lambda>(j, tc). round_call_id n j tc) (List.enumerate 0 calls) = map PStr ids)"

lemma clean_tool:
  "round_call_id n j tc \<noteq> PNone \<Longrightarrow> clean_message (PDict (tool_entry n texts (j, tc))) = Some (sent_tool n texts (j, tc))"
  by (simp add: clean_message_def tool_entry_def sent_tool_def allowed_item_def ALLOWED_KEYS_def has_key_def role_is_def Let_def)

lemma sent_tool_facts:
  "role_is ''tool'' (sent_tool n texts p)" "\<not> role_is ''user'' (sent_tool n texts p)"
  "round_call_id n (fst p) (snd p) = PStr i \<Longrightarrow> answer_id (sent_tool n texts p) = i"
  by (auto simp: sent_tool_def role_is_def answer_id_def case_prod_unfold)

definition sent_assistant :: "string \<Rightarrow> pyval dict list \<Rightarrow> nat \<Rightarrow> string \<Rightarrow> message" where
  "sent_assistant response calls n reasoning =
     (let calls_and_reasoning = (if reasoning \<noteq> [] then [(''reasoning_content'', PStr reasoning)] else []) @ [(''tool_calls'', PList (call_entries n calls))]
      in if strip response \<noteq> [] then (''role'', PStr ''assistant'') # (''content'', PStr response) # calls_and_reasoning
         else (''role'', PStr ''assistant'') # calls_and_reasoning @ [(''content'', PNone)])"

lemma clean_assistant:
  "calls \<noteq> [] \<Longrightarrow> clean_message (PDict (assistant_entry response calls n reasoning)) = Some (sent_assistant response calls n reasoning)"
  by (cases calls) (simp_all add: clean_message_def assistant_entry_def sent_assistant_def call_entries_def allowed_item_def ALLOWED_KEYS_def
      has_key_def role_is_def Let_def)

lemma sent_assistant_facts:
  "role_is ''assistant'' (sent_assistant response calls n reasoning)"
  "\<not> role_is ''tool'' (sent_assistant response calls n reasoning)" "\<not> role_is ''user'' (sent_assistant response calls n reasoning)"
  "pget (sent_assistant response calls n reasoning) ''tool_calls'' = PList (call_entries n calls)"
  "has_key ''content'' (sent_assistant response calls n reasoning)"
  "dset ''tool_calls'' (PList (call_entries n calls)) (sent_assistant response calls n reasoning) = sent_assistant response calls n reasoning"
  by (simp_all add: sent_assistant_def role_is_def has_key_def Let_def)

lemma entry_id: "round_call_id n j tc = PStr i \<Longrightarrow> pget (as_mapping (tool_call_entry n j tc)) ''id'' = PStr i \<and> is_mapping (tool_call_entry n j tc)"
  by (simp add: tool_call_entry_def)

lemma text_ids_nth:
  assumes "text_ids n calls ids"
  shows "length ids = length calls" "i < length calls \<Longrightarrow> round_call_id n i (calls ! i) = PStr (ids ! i)"
proof -
  have m: "map (\<lambda>(j, tc). round_call_id n j tc) (List.enumerate 0 calls) = map PStr ids" using assms by (simp add: text_ids_def)
  from arg_cong [OF m, of length] show l: "length ids = length calls" by simp
  from arg_cong [OF m, of "\<lambda>xs. xs ! i"] l show "i < length calls \<Longrightarrow> round_call_id n i (calls ! i) = PStr (ids ! i)"
    by (simp add: nth_enumerate_eq)
qed

lemma entries_ids:
  assumes "text_ids n calls ids"
  shows "map call_id (call_entries n calls) = ids" "call_ids (call_entries n calls) = filter (\<lambda>i. i \<noteq> []) ids"
    "list_all is_mapping (call_entries n calls)" "map answer_id (map (sent_tool n texts) (List.enumerate 0 calls)) = ids"
proof -
  note nth = text_ids_nth [OF assms]
  have e: "call_entries n calls ! i = tool_call_entry n i (calls ! i)" if "i < length calls" for i
    using that by (simp add: call_entries_def nth_enumerate_eq)
  have l: "length (call_entries n calls) = length calls" by (simp add: call_entries_def)
  show a: "map call_id (call_entries n calls) = ids"
    by (rule nth_equalityI) (use nth e l entry_id in \<open>simp_all add: call_id_def\<close>)
  show b: "list_all is_mapping (call_entries n calls)"
    using nth e l entry_id by (auto simp: list_all_length)
  have t: "truthy (pget (as_mapping tc) ''id'') = (call_id tc \<noteq> [])" if "tc \<in> set (call_entries n calls)" for tc
    using that nth e l entry_id by (auto simp: in_set_conv_nth call_id_def)
  have "filter (\<lambda>tc. is_mapping tc \<and> truthy (pget (as_mapping tc) ''id'')) (call_entries n calls) = filter (\<lambda>tc. call_id tc \<noteq> []) (call_entries n calls)"
    using b t by (intro filter_cong) (auto simp: list_all_iff)
  then show "call_ids (call_entries n calls) = filter (\<lambda>i. i \<noteq> []) ids"
    by (simp add: call_ids_def filter_map comp_def flip: a)
  show "map answer_id (map (sent_tool n texts) (List.enumerate 0 calls)) = ids"
    by (rule nth_equalityI) (use nth in \<open>simp_all add: nth_enumerate_eq sent_tool_facts\<close>)
qed

lemma matched_all:
  "distinct (answered @ map answer_id ms) \<Longrightarrow> set (map answer_id ms) \<subseteq> set expected \<Longrightarrow> matched_answers expected answered ms = ms"
  by (induction ms arbitrary: answered) auto

lemma matched_none: "matched_answers [] answered ms = []"
  by (induction ms arbitrary: answered) auto

lemma takeWhile_tools: "takeWhile (role_is ''tool'') (map (sent_tool n texts) ps) = map (sent_tool n texts) ps"
  "dropWhile (role_is ''tool'') (map (sent_tool n texts) ps) = []"
  by (simp_all add: takeWhile_eq_all_conv sent_tool_facts)

lemma repair_batch:
  assumes ids: "text_ids n calls ids" "distinct ids" "list_all (\<lambda>i. i \<noteq> []) ids" and "calls \<noteq> []"
  shows "repair_calls (sent_assistant response calls n reasoning # map (sent_tool n texts) (List.enumerate 0 calls)) =
    Inr (sent_assistant response calls n reasoning # map (sent_tool n texts) (List.enumerate 0 calls))"
proof -
  let ?a = "sent_assistant response calls n reasoning" and ?ts = "map (sent_tool n texts) (List.enumerate 0 calls)"
  note e = entries_ids [OF ids(1)]
  have x: "call_ids (call_entries n calls) = ids" using e(2) ids(3) by (simp add: filter_id_conv list_all_iff)
  have m: "matched_answers ids [] ?ts = ?ts" by (rule matched_all) (use e(4) ids(2) in simp_all)
  have "filter (\<lambda>tc. is_mapping tc \<and> call_id tc \<in> set ids) (call_entries n calls) = call_entries n calls"
    using e(1,3) by (auto simp: filter_id_conv list_all_iff)
  then have f: "answered_call ?a (call_entries n calls) ?ts = ?a # ?ts"
    unfolding answered_call_def Let_def e(4) by (simp add: sent_assistant_facts)
  have ne: "?ts \<noteq> []" "call_entries n calls \<noteq> []" using assms(4) by (auto simp: call_entries_def enumerate_eq_zip)
  show ?thesis
    unfolding repair_calls.simps(2) sent_assistant_facts takeWhile_tools
    using ne by (simp add: calls_of_def Let_def x m f sent_assistant_facts)
qed

lemma clean_tools:
  "text_ids n calls ids \<Longrightarrow> List.map_filter clean_message (map PDict (map (tool_entry n texts) (List.enumerate 0 calls))) =
     map (sent_tool n texts) (List.enumerate 0 calls)"
proof -
  assume a: "text_ids n calls ids"
  have "clean_message (PDict (tool_entry n texts p)) = Some (sent_tool n texts p)" if "p \<in> set (List.enumerate 0 calls)" for p
  proof -
    from that have "p = (fst p, calls ! fst p)" "fst p < length calls"
      by (auto simp: in_set_enumerate_eq)
    with text_ids_nth(2) [OF a] clean_tool [of n "fst p" "snd p" texts] show ?thesis by (metis prod.collapse pyval.distinct(7) sndI)
  qed
  then show ?thesis by (simp add: map_filter_def comp_def)
qed

lemma map_filter_append: "List.map_filter f (xs @ ys) = List.map_filter f xs @ List.map_filter f ys"
  by (simp add: map_filter_def)

lemma sanitize_split:
  assumes "\<not> role_is ''tool'' a" "repair_calls (a # ts) = Inr tail" "list_all (\<lambda>m. \<not> role_is ''user'' m) tail"
    and "List.map_filter clean_message raw = a # ts"
  shows "sanitize_llm_messages (ms @ raw) = rbind (sanitize_llm_messages ms) (\<lambda>out. Inr (out @ tail))"
  using assms(2) foldl_merge_plain [OF assms(3)]
  by (cases "repair_calls (List.map_filter clean_message ms)")
    (simp_all add: sanitize_llm_messages_def map_filter_append assms(4) repair_append [OF assms(1)] merge_users_def)

lemma native_messages:
  "calls \<noteq> [] \<Longrightarrow> map PDict (append_tool_results messages response calls results texts True n reasoning) =
     map PDict (map without_reasoning messages) @
       PDict (assistant_entry response calls n reasoning) # map PDict (map (tool_entry n texts) (List.enumerate 0 calls))"
  by (simp add: append_tool_results_def)

text \<open>
  Claim C10. The results of a round reach the model: when the calls of a native round have ids that are
  different and not empty, the sanitizer sends the message that made them and every result, each
  under its id and in order, behind what it makes of the conversation before.
\<close>

theorem native_results_reach_model:
  assumes "text_ids n calls ids" "distinct ids" "list_all (\<lambda>i. i \<noteq> []) ids" "calls \<noteq> []"
  shows "sanitize_llm_messages (map PDict (append_tool_results messages response calls results texts True n reasoning)) =
    rbind (sanitize_llm_messages (map PDict (map without_reasoning messages)))
      (\<lambda>out. Inr (out @ sent_assistant response calls n reasoning # map (sent_tool n texts) (List.enumerate 0 calls)))"
  unfolding native_messages [OF assms(4)]
proof (rule sanitize_split)
  show "\<not> role_is ''tool'' (sent_assistant response calls n reasoning)" by (simp add: sent_assistant_facts)
  show "repair_calls (sent_assistant response calls n reasoning # map (sent_tool n texts) (List.enumerate 0 calls)) =
      Inr (sent_assistant response calls n reasoning # map (sent_tool n texts) (List.enumerate 0 calls))"
    by (rule repair_batch [OF assms])
  show "list_all (\<lambda>m. \<not> role_is ''user'' m) (sent_assistant response calls n reasoning # map (sent_tool n texts) (List.enumerate 0 calls))"
    by (simp add: list_all_iff sent_assistant_facts sent_tool_facts)
  show "List.map_filter clean_message (PDict (assistant_entry response calls n reasoning) # map PDict (map (tool_entry n texts) (List.enumerate 0 calls))) =
      sent_assistant response calls n reasoning # map (sent_tool n texts) (List.enumerate 0 calls)"
    using clean_tools [OF assms(1)] clean_assistant [OF assms(4)] by (simp add: map_filter_simps)
qed

definition two_calls :: "pyval dict list" where
  "two_calls = [[(''id'', PStr ''c1''), (''name'', PStr ''bash'')], [(''name'', PStr ''python'')]]"

definition greeting :: message where
  "greeting = [(''role'', PStr ''user''), (''content'', PStr ''hi'')]"

lemma greeting_sent: "sanitize_llm_messages (map PDict (map without_reasoning [greeting])) = Inr [greeting]"
  by code_simp

lemma two_ids: "text_ids 3 two_calls [''c1'', ''call_3_1'']"
  by (simp add: text_ids_def two_calls_def round_call_id_def pget_or_def show_nat.simps enumerate_eq_zip) code_simp

theorem native_results_reach_model_witness:
  "sanitize_llm_messages (map PDict (append_tool_results [greeting] [] two_calls [] [''one'', ''two''] True 3 [])) =
     Inr ([greeting] @ sent_assistant [] two_calls 3 [] # map (sent_tool 3 [''one'', ''two'']) (List.enumerate 0 two_calls))"
  using native_results_reach_model [OF two_ids, of "[greeting]" "[]" "[]" "[''one'', ''two'']" "[]"] greeting_sent
  by (simp add: two_calls_def)

text \<open>
  A round whose calls have the empty id leaves no trace: when such a round had no text either, the
  conversation that is sent is the one before the round, without the calls and without a single
  result. The streaming client gives a call the empty id when its provider sends none.
\<close>

theorem round_without_ids_vanishes:
  assumes "text_ids n calls (replicate (length calls) [])" "calls \<noteq> []" "strip response = []"
  shows "sanitize_llm_messages (map PDict (append_tool_results messages response calls results texts True n reasoning)) =
    sanitize_llm_messages (map PDict (map without_reasoning messages))"
proof -
  let ?a = "sent_assistant response calls n reasoning" and ?ts = "map (sent_tool n texts) (List.enumerate 0 calls)"
  have "call_ids (call_entries n calls) = []" using entries_ids(2) [OF assms(1)] by simp
  moreover have "call_entries n calls \<noteq> []" using assms(2) by (auto simp: call_entries_def enumerate_eq_zip)
  moreover have "unanswered ?a = Inr []"
    using assms(3) by (simp add: unanswered_def sent_assistant_def pget_filter Let_def strip_def rstrip_def lstrip_def)
  ultimately have "repair_calls (?a # ?ts) = Inr []"
    unfolding repair_calls.simps(2) sent_assistant_facts takeWhile_tools
    by (simp add: calls_of_def Let_def matched_none sent_assistant_facts)
  moreover have "List.map_filter clean_message (PDict (assistant_entry response calls n reasoning) # map PDict (map (tool_entry n texts) (List.enumerate 0 calls))) = ?a # ?ts"
    using clean_tools [OF assms(1)] clean_assistant [OF assms(2)] by (simp add: map_filter_simps)
  ultimately have "sanitize_llm_messages (map PDict (map without_reasoning messages) @ PDict (assistant_entry response calls n reasoning) # map PDict (map (tool_entry n texts) (List.enumerate 0 calls))) =
      rbind (sanitize_llm_messages (map PDict (map without_reasoning messages))) (\<lambda>out. Inr (out @ []))"
    by (intro sanitize_split) (simp_all add: sent_assistant_facts)
  then show ?thesis unfolding native_messages [OF assms(2)]
    by (cases "sanitize_llm_messages (map PDict (map without_reasoning messages))") simp_all
qed

definition nameless_call :: "pyval dict list" where
  "nameless_call = [[(''id'', PStr []), (''name'', PStr ''bash'')]]"

theorem round_without_ids_vanishes_witness:
  "sanitize_llm_messages (map PDict (append_tool_results [greeting] [] nameless_call [] [''found it''] True 1 [])) = Inr [greeting]"
  using round_without_ids_vanishes [of 1 nameless_call "[]" "[greeting]" "[]" "[''found it'']" "[]"] greeting_sent
  by (simp add: nameless_call_def text_ids_def round_call_id_def pget_or_def strip_def rstrip_def lstrip_def enumerate_eq_zip)

end
