(* ===== verification/ExtManifest.thy ===== *)
theory ExtManifest
  imports AuthorityPolicy
begin

text \<open>
  The manifests of extensions (\<open>src/extension_registry.py\<close>): the strict validation that every
  manifest passes before anything is installed, and the normal form it returns.

  The default icon is a character outside Latin-1 and an argument, like the check that
  \<open>urllib.parse\<close> makes of a network location in brackets.
\<close>

section \<open>Fields\<close>

record ext_env =
  ee_icon :: string
  ee_netloc_ok :: "string \<Rightarrow> bool"
  ee_sha256 :: "string \<Rightarrow> string"

abbreviation contract :: "string \<Rightarrow> 'a result" where
  "contract err \<equiv> Inl (ExtensionContractError err)"

definition ext_object :: "string \<Rightarrow> pyval \<Rightarrow> pyval dict result" where
  "ext_object err v = (case v of PDict d \<Rightarrow> Inr d | _ \<Rightarrow> contract err)"

definition strict_fields :: "string list \<Rightarrow> string \<Rightarrow> pyval dict \<Rightarrow> unit result" where
  "strict_fields allowed err d = require (list_all (\<lambda>k. k \<in> set allowed) (dkeys d)) (ExtensionContractError err)"

definition bounded_text :: "string \<Rightarrow> nat \<Rightarrow> pyval \<Rightarrow> string result" where
  "bounded_text err maximum v =
     (let s = strip (str_or v)
      in if s = [] \<or> maximum < length s \<or> list_ex (\<lambda>c. code c < 32) s then contract err else Inr s)"

text \<open>\<open>Path(s).as_posix()\<close> of a relative path with the given components.\<close>

definition as_posix :: "string list \<Rightarrow> string" where
  "as_posix parts = (if parts = [] then ''.'' else join ''/'' parts)"

definition safe_relative_path :: "string \<Rightarrow> pyval \<Rightarrow> string result" where
  "safe_relative_path err v =
     rbind (bounded_text err 500 v) (\<lambda>s.
       if starts_with ''/'' s \<or> ''..'' \<in> set (components s) then contract err
       else Inr (as_posix (components s)))"

text \<open>
  \<open>urlparse\<close>: leading blanks and control characters and every line break and tab are removed
  first; the scheme is what stands before a colon when it has the characters of one; the
  network location stands between two slashes and the first of \<open>/?#\<close>.
\<close>

definition url_clean :: "string \<Rightarrow> string" where
  "url_clean s = filter (\<lambda>c. code c \<notin> {9, 10, 13}) (dropWhile (\<lambda>c. code c \<le> 32) s)"

definition scheme_char :: "char \<Rightarrow> bool" where
  "scheme_char c = (is_alnum c \<or> c \<in> set ''+-.'')"

definition split_scheme :: "string \<Rightarrow> string \<times> string" where
  "split_scheme s =
     (let before = takeWhile (\<lambda>c. c \<noteq> CHR '':'') s
      in if before \<noteq> [] \<and> length before < length s \<and> (is_az (hd before) \<or> is_AZ (hd before)) \<and> list_all scheme_char before
         then (lower before, drop (length before + 1) s) else ([], s))"

definition split_netloc :: "string \<Rightarrow> string" where
  "split_netloc s = (if starts_with ''//'' s then takeWhile (\<lambda>c. c \<notin> set ''/?#'') (drop 2 s) else [])"

text \<open>The scheme and the network location; brackets must match and hold an address.\<close>

definition urlparse :: "ext_env \<Rightarrow> string \<Rightarrow> (string \<times> string) result" where
  "urlparse env s =
     (let (scheme, rest) = split_scheme (url_clean s);
          netloc = split_netloc rest;
          opens = CHR ''['' \<in> set netloc; closes = CHR '']'' \<in> set netloc
      in if opens \<noteq> closes \<or> opens \<and> closes \<and> \<not> ee_netloc_ok env netloc
         then Inl (ValueError ''Invalid IPv6 URL'') else Inr (scheme, netloc))"

text \<open>Whether \<open>parsed.username\<close> or \<open>parsed.password\<close> is a text that is not empty.\<close>

definition has_credentials :: "string \<Rightarrow> bool" where
  "has_credentials netloc =
     (CHR ''@'' \<in> set netloc \<and>
      (let userinfo = rev (tl (dropWhile (\<lambda>c. c \<noteq> CHR ''@'') (rev netloc))) in userinfo \<noteq> [] \<and> userinfo \<noteq> '':''))"

definition https_url :: "ext_env \<Rightarrow> string \<Rightarrow> pyval \<Rightarrow> string result" where
  "https_url env err v =
     rbind (bounded_text err 2000 v) (\<lambda>s.
     rbind (urlparse env s) (\<lambda>(scheme, netloc).
       if scheme \<noteq> ''https'' \<or> netloc = [] \<or> has_credentials netloc then contract err else Inr s))"

definition endpoint :: "ext_env \<Rightarrow> string \<Rightarrow> pyval \<Rightarrow> string result" where
  "endpoint env err v =
     rbind (bounded_text err 2000 v) (\<lambda>s.
       if starts_with ''/'' s \<and> \<not> starts_with ''//'' s then Inr s else https_url env err (PStr s))"

definition string_list :: "string \<Rightarrow> bool \<Rightarrow> nat \<Rightarrow> pyval \<Rightarrow> string list result" where
  "string_list err paths maximum v =
     (case v of
        PList xs \<Rightarrow> if maximum < length xs then contract err
                    else rmap (if paths then safe_relative_path err else bounded_text err 200) xs
      | _ \<Rightarrow> contract err)"

section \<open>Tool schemas\<close>

definition MANIFEST_VERSION :: string where "MANIFEST_VERSION = ''jos-extension.v1''"

definition name_char :: "char \<Rightarrow> bool" where
  "name_char c = (is_alnum c \<or> c = CHR ''_'' \<or> c = CHR ''-'')"

definition hex_char :: "char \<Rightarrow> bool" where
  "hex_char c = (in_range CHR ''0'' CHR ''9'' c \<or> in_range CHR ''a'' CHR ''f'' c)"

definition skill_char :: "char \<Rightarrow> bool" where
  "skill_char c = (is_az c \<or> in_range CHR ''0'' CHR ''9'' c \<or> c = CHR ''-'')"

definition SKILL_ID :: regex where
  "SKILL_ID = rseq [RBegin, RSet is_az, RRep 0 (Some 59) (RSet skill_char), REnd]"

definition TOOL_NAME :: regex where
  "TOOL_NAME = rseq [RBegin, RSet (\<lambda>c. is_az c \<or> is_AZ c), RRep 0 (Some 127) (RSet name_char), REnd]"

definition IMMUTABLE_REVISION :: regex where
  "IMMUTABLE_REVISION = rseq [RBegin, ralt [RRep 40 (Some 40) (RSet hex_char), RRep 64 (Some 64) (RSet hex_char)], REnd]"

definition REVISION :: regex where
  "REVISION = rseq [RBegin, ralt [rlit ''self'', RRep 40 (Some 40) (RSet hex_char), RRep 64 (Some 64) (RSet hex_char)], REnd]"

definition CONFIGURATION_KEY :: regex where
  "CONFIGURATION_KEY = rseq [RBegin, RSet is_AZ,
     RRep 0 (Some 63) (RSet (\<lambda>c. is_AZ c \<or> in_range CHR ''0'' CHR ''9'' c \<or> c = CHR ''_'')), REnd]"

definition PERMISSION_MODES :: "string list" where
  "PERMISSION_MODES = [''read_only'', ''bounded_write'', ''external_side_effect'', ''destructive'', ''controlled_administrative'']"

text \<open>Values that a Python set can hold.\<close>

fun hashable :: "pyval \<Rightarrow> bool" where
  "hashable (PList _) = False"
| "hashable (PDict _) = False"
| "hashable (PTuple xs) = list_all hashable xs"
| "hashable _ = True"

definition as_str :: "pyval \<Rightarrow> string option" where
  "as_str v = (case v of PStr s \<Rightarrow> Some s | _ \<Rightarrow> None)"

text \<open>The names in \<open>required\<close>: distinct, texts, and properties.\<close>

definition required_names_ok :: "pyval dict \<Rightarrow> pyval list \<Rightarrow> bool" where
  "required_names_ok properties required =
     (list_all (\<lambda>v. case v of PStr s \<Rightarrow> s \<in> set (dkeys properties) | _ \<Rightarrow> False) required \<and> distinct required)"

definition check_parameters :: "pyval \<Rightarrow> pyval dict result" where
  "check_parameters v =
     (case v of
        PDict parameters \<Rightarrow>
          rbind (require (pget parameters ''type'' = PStr ''object'') (ExtensionContractError ''extension_capability_parameters_invalid'')) (\<lambda>_.
          rbind (ext_object ''extension_capability_properties_invalid'' (pget_or parameters ''properties'' (PDict []))) (\<lambda>properties.
          rbind (case pget_or parameters ''required'' (PList []) of
                   PList required \<Rightarrow>
                     if \<not> list_all hashable required then Inl (TypeError ''unhashable type'')
                     else require (required_names_ok properties required) (ExtensionContractError ''extension_capability_required_invalid'')
                 | _ \<Rightarrow> contract ''extension_capability_required_invalid'') (\<lambda>_.
          rbind (require (case dget parameters ''additionalProperties'' of
                            None \<Rightarrow> True | Some (PBool _) \<Rightarrow> True | Some (PDict _) \<Rightarrow> True | _ \<Rightarrow> False)
                   (ExtensionContractError ''extension_capability_additional_properties_invalid'')) (\<lambda>_.
            Inr parameters))))
      | _ \<Rightarrow> contract ''extension_capability_parameters_invalid'')"

text \<open>A tool schema in its normal form.\<close>

record tool =
  tool_name :: string
  tool_description :: string
  tool_parameters :: "pyval dict"

definition tool_value :: "tool \<Rightarrow> pyval" where
  "tool_value t =
     PDict [(''type'', PStr ''function''),
            (''function'', PDict [(''name'', PStr (tool_name t)), (''description'', PStr (tool_description t)),
                                  (''parameters'', PDict (tool_parameters t))])]"

definition normalize_tool_schema :: "pyval \<Rightarrow> tool result" where
  "normalize_tool_schema raw =
     rbind (ext_object ''extension_capability_schema_malformed'' raw) (\<lambda>schema.
       let function = (case pget schema ''function'' of PDict d \<Rightarrow> d | _ \<Rightarrow> schema);
           name = strip (str_or (pget function ''name''))
       in rbind (require (re_fullmatch TOOL_NAME name) (ExtensionContractError ''extension_capability_name_invalid'')) (\<lambda>_.
          rbind (case pget_or function ''description'' (PStr []) of
                   PStr s \<Rightarrow> if 4000 < length s then contract ''extension_capability_description_invalid'' else Inr s
                 | _ \<Rightarrow> contract ''extension_capability_description_invalid'') (\<lambda>description.
          rbind (check_parameters (pget function ''parameters'')) (\<lambda>parameters.
            Inr \<lparr>tool_name = name, tool_description = description, tool_parameters = parameters\<rparr>))))"

definition normalize_tools :: "pyval \<Rightarrow> tool list result" where
  "normalize_tools v =
     (case v of
        PList xs \<Rightarrow>
          if 256 < length xs then contract ''extension_capability_catalog_invalid''
          else rbind (rmap normalize_tool_schema xs) (\<lambda>tools.
               rbind (require (distinct (map tool_name tools)) (ExtensionContractError ''extension_capability_name_duplicate'')) (\<lambda>_.
                 Inr tools))
      | _ \<Rightarrow> contract ''extension_capability_catalog_invalid'')"

section \<open>The parts of a manifest\<close>

definition TOP_LEVEL_FIELDS :: "string list" where
  "TOP_LEVEL_FIELDS = [''protocol_version'', ''extension_id'', ''name'', ''version'', ''source'', ''runtime'',
     ''capabilities'', ''permissions'', ''health'', ''lifecycle'', ''data_boundaries'',
     ''removal'', ''rollback'', ''configuration'', ''metadata'']"

definition REQUIRED_FIELDS :: "string list" where
  "REQUIRED_FIELDS = filter (\<lambda>k. k \<noteq> ''configuration'' \<and> k \<noteq> ''metadata'') TOP_LEVEL_FIELDS"

definition check_source :: "pyval \<Rightarrow> (pyval dict \<times> string) result" where
  "check_source v =
     rbind (ext_object ''extension_source_invalid'' v) (\<lambda>source.
     rbind (strict_fields [''url'', ''revision''] ''extension_source_unknown_field'' source) (\<lambda>_.
     rbind (bounded_text ''extension_source_revision_invalid'' 64 (pget source ''revision'')) (\<lambda>revision.
     rbind (require (re_fullmatch REVISION revision) (ExtensionContractError ''extension_source_revision_invalid'')) (\<lambda>_.
       Inr (source, revision)))))"

definition check_runtime :: "pyval \<Rightarrow> (pyval dict \<times> string) result" where
  "check_runtime v =
     rbind (ext_object ''extension_runtime_invalid'' v) (\<lambda>runtime.
     rbind (strict_fields [''type'', ''entrypoint''] ''extension_runtime_unknown_field'' runtime) (\<lambda>_.
       let runtime_type = str_or (pget runtime ''type'')
       in rbind (require (runtime_type \<in> set [''web'', ''service'', ''mcp'', ''openapi'', ''skills''])
              (ExtensionContractError ''extension_runtime_type_invalid'')) (\<lambda>_.
            Inr (runtime, runtime_type))))"

definition DESCRIPTOR_TYPES :: "string list" where
  "DESCRIPTOR_TYPES = [''inline'', ''live_catalog'', ''mcp'', ''openapi'', ''skill_bundle'']"

definition SKILL_BUNDLE_FORMATS :: "string list" where
  "SKILL_BUNDLE_FORMATS = [''agent_skill'', ''codex_plugin'']"

definition texts :: "string list \<Rightarrow> pyval" where "texts ss = PList (map PStr ss)"

definition check_include :: "pyval \<Rightarrow> string list result" where
  "check_include v =
     rbind (string_list ''extension_skill_bundle_include_invalid'' False 64 v) (\<lambda>items.
     rbind (require (items \<noteq> [] \<and> distinct items \<and> list_all (re_fullmatch SKILL_ID) items)
              (ExtensionContractError ''extension_skill_bundle_include_invalid'')) (\<lambda>_. Inr items))"

text \<open>The fields of a descriptor of a known type.\<close>

definition descriptor_fields :: "ext_env \<Rightarrow> bool \<Rightarrow> string \<Rightarrow> pyval dict \<Rightarrow> pyval dict result" where
  "descriptor_fields env has_schemas descriptor_type descriptor =
     (let unknown = ''extension_descriptor_unknown_field'' in
      if descriptor_type = ''mcp'' then
        rbind (strict_fields [''type'', ''reference''] unknown descriptor) (\<lambda>_.
        rbind (bounded_text ''extension_descriptor_reference_invalid'' 200 (pget descriptor ''reference'')) (\<lambda>reference.
          Inr (dset ''reference'' (PStr reference) descriptor)))
      else if descriptor_type = ''inline'' then
        rbind (strict_fields [''type''] unknown descriptor) (\<lambda>_.
        rbind (require has_schemas (ExtensionContractError ''extension_inline_schemas_required'')) (\<lambda>_. Inr descriptor))
      else if descriptor_type = ''skill_bundle'' then
        rbind (strict_fields [''type'', ''format'', ''include''] unknown descriptor) (\<lambda>_.
          let bundle_format = str_or (pget descriptor ''format'')
          in rbind (require (bundle_format \<in> set SKILL_BUNDLE_FORMATS) (ExtensionContractError ''extension_skill_bundle_format_invalid'')) (\<lambda>_.
             rbind (check_include (pget descriptor ''include'')) (\<lambda>items.
               Inr (dset ''include'' (texts items) (dset ''format'' (PStr bundle_format) descriptor)))))
      else
        rbind (strict_fields [''type'', ''endpoint''] unknown descriptor) (\<lambda>_.
        rbind (endpoint env ''extension_descriptor_endpoint_invalid'' (pget descriptor ''endpoint'')) (\<lambda>e.
          Inr (dset ''endpoint'' (PStr e) descriptor))))"

definition check_descriptor :: "ext_env \<Rightarrow> pyval dict \<Rightarrow> (string \<times> pyval dict) result" where
  "check_descriptor env capabilities =
     rbind (ext_object ''extension_descriptor_invalid'' (pget capabilities ''descriptor'')) (\<lambda>descriptor.
       let descriptor_type = str_or (pget descriptor ''type'')
       in rbind (require (descriptor_type \<in> set DESCRIPTOR_TYPES) (ExtensionContractError ''extension_descriptor_type_invalid'')) (\<lambda>_.
          rbind (descriptor_fields env (''schemas'' \<in> set (dkeys capabilities)) descriptor_type descriptor) (\<lambda>descriptor.
            Inr (descriptor_type, descriptor))))"

definition check_capabilities :: "ext_env \<Rightarrow> string \<Rightarrow> pyval \<Rightarrow> (string \<times> pyval dict \<times> tool list) result" where
  "check_capabilities env runtime_type v =
     rbind (ext_object ''extension_capabilities_invalid'' v) (\<lambda>capabilities.
     rbind (strict_fields [''descriptor'', ''schemas''] ''extension_capabilities_unknown_field'' capabilities) (\<lambda>_.
     rbind (check_descriptor env capabilities) (\<lambda>(descriptor_type, descriptor).
     rbind (require (descriptor_type = ''inline'' \<or> ''schemas'' \<notin> set (dkeys capabilities))
              (ExtensionContractError ''extension_descriptor_schemas_must_be_referenced'')) (\<lambda>_.
     rbind (require ((runtime_type = ''skills'') = (descriptor_type = ''skill_bundle'') \<and>
                     (runtime_type = ''mcp'') = (descriptor_type = ''mcp''))
              (ExtensionContractError ''extension_runtime_descriptor_mismatch'')) (\<lambda>_.
     rbind (if descriptor_type = ''inline'' then normalize_tools (pget_or capabilities ''schemas'' (PList [])) else Inr []) (\<lambda>schemas.
       Inr (descriptor_type, descriptor, schemas)))))))"

text \<open>Whether all modes are known: a mode that a set cannot hold raises before the rest is looked at.\<close>

fun modes_known :: "pyval list \<Rightarrow> bool result" where
  "modes_known [] = Inr True"
| "modes_known (v # vs) =
     (if \<not> hashable v then Inl (TypeError ''unhashable type'')
      else if v \<in> set (map PStr PERMISSION_MODES) then modes_known vs else Inr False)"

definition include_of :: "pyval dict \<Rightarrow> string list" where
  "include_of descriptor = (case pget descriptor ''include'' of PList xs \<Rightarrow> List.map_filter as_str xs | _ \<Rightarrow> [])"

definition check_permissions :: "string \<Rightarrow> pyval dict \<Rightarrow> pyval \<Rightarrow> (string \<times> pyval dict) result" where
  "check_permissions descriptor_type descriptor v =
     rbind (ext_object ''extension_permissions_invalid'' v) (\<lambda>permissions.
     rbind (strict_fields [''default'', ''capabilities''] ''extension_permissions_unknown_field'' permissions) (\<lambda>_.
       let default_permission = str_or (pget permissions ''default'')
       in rbind (ext_object ''extension_permission_overrides_invalid'' (pget permissions ''capabilities'')) (\<lambda>overrides.
          rbind (if default_permission \<notin> set PERMISSION_MODES then Inr False else modes_known (dvals overrides)) (\<lambda>known.
          rbind (require known (ExtensionContractError ''extension_permission_mode_invalid'')) (\<lambda>_.
          rbind (require (list_all (re_fullmatch TOOL_NAME) (dkeys overrides)) (ExtensionContractError ''extension_permission_capability_invalid'')) (\<lambda>_.
          rbind (require (descriptor_type \<noteq> ''skill_bundle'' \<or> set (dkeys overrides) \<subseteq> set (include_of descriptor))
                   (ExtensionContractError ''extension_permission_capability_unknown'')) (\<lambda>_.
            Inr (default_permission, overrides))))))))"

definition config_key :: "string list \<Rightarrow> pyval dict \<Rightarrow> string result" where
  "config_key seen item =
     rbind (strict_fields [''key'', ''description'', ''required'', ''secret''] ''extension_configuration_unknown_field'' item) (\<lambda>_.
     rbind (require (''key'' \<in> set (dkeys item) \<and> ''description'' \<in> set (dkeys item)) (ExtensionContractError ''extension_configuration_invalid'')) (\<lambda>_.
     rbind (bounded_text ''extension_configuration_key_invalid'' 64 (pget item ''key'')) (\<lambda>key.
     rbind (require (re_fullmatch CONFIGURATION_KEY key \<and> key \<notin> set seen) (ExtensionContractError ''extension_configuration_key_invalid'')) (\<lambda>_.
       Inr key))))"

definition config_flag :: "pyval dict \<Rightarrow> string \<Rightarrow> bool result" where
  "config_flag item k =
     (case pget_or item k (PBool False) of PBool b \<Rightarrow> Inr b | _ \<Rightarrow> contract ''extension_configuration_flag_invalid'')"

definition config_entry :: "string \<Rightarrow> string \<Rightarrow> bool \<Rightarrow> bool \<Rightarrow> pyval" where
  "config_entry key description required secret =
     PDict [(''key'', PStr key), (''description'', PStr description), (''required'', PBool required), (''secret'', PBool secret)]"

fun check_items :: "string list \<Rightarrow> pyval list \<Rightarrow> pyval list result" where
  "check_items seen [] = Inr []"
| "check_items seen (raw # rest) =
     rbind (ext_object ''extension_configuration_invalid'' raw) (\<lambda>item.
     rbind (config_key seen item) (\<lambda>key.
     rbind (config_flag item ''required'') (\<lambda>required.
     rbind (config_flag item ''secret'') (\<lambda>secret.
     rbind (bounded_text ''extension_configuration_description_invalid'' 200 (pget item ''description'')) (\<lambda>description.
     rbind (check_items (key # seen) rest) (\<lambda>items.
       Inr (config_entry key description required secret # items)))))))"

definition check_configuration :: "pyval \<Rightarrow> pyval list result" where
  "check_configuration v =
     (case v of
        PList xs \<Rightarrow> if 32 < length xs then contract ''extension_configuration_invalid'' else check_items [] xs
      | _ \<Rightarrow> contract ''extension_configuration_invalid'')"

text \<open>An integer that is not a boolean, between one and a maximum.\<close>

definition int_upto :: "int \<Rightarrow> string \<Rightarrow> pyval \<Rightarrow> int result" where
  "int_upto maximum err v =
     (case v of PInt i \<Rightarrow> if 1 \<le> i \<and> i \<le> maximum then Inr i else contract err | _ \<Rightarrow> contract err)"

definition health_fields :: "ext_env \<Rightarrow> string \<Rightarrow> pyval dict \<Rightarrow> pyval dict result" where
  "health_fields env health_type health =
     (let unknown = ''extension_health_unknown_field'' in
      if health_type = ''catalog'' then
        rbind (strict_fields [''type'', ''timeout_seconds''] unknown health) (\<lambda>_. Inr health)
      else if health_type = ''http'' then
        rbind (strict_fields [''type'', ''endpoint'', ''timeout_seconds''] unknown health) (\<lambda>_.
        rbind (endpoint env ''extension_health_endpoint_invalid'' (pget health ''endpoint'')) (\<lambda>e.
          Inr (dset ''endpoint'' (PStr e) health)))
      else contract ''extension_health_type_invalid'')"

definition check_health :: "ext_env \<Rightarrow> pyval \<Rightarrow> pyval dict result" where
  "check_health env v =
     rbind (ext_object ''extension_health_invalid'' v) (\<lambda>health.
     rbind (health_fields env (str_or (pget health ''type'')) health) (\<lambda>health.
     rbind (int_upto 30 ''extension_health_timeout_invalid'' (pget health ''timeout_seconds'')) (\<lambda>_. Inr health)))"

definition check_lifecycle :: "pyval \<Rightarrow> pyval dict result" where
  "check_lifecycle v =
     rbind (ext_object ''extension_lifecycle_invalid'' v) (\<lambda>lifecycle.
     rbind (strict_fields [''install'', ''start'', ''stop'', ''remove''] ''extension_lifecycle_unknown_field'' lifecycle) (\<lambda>_.
       rmap (\<lambda>name. rbind (string_list (''extension_lifecycle_'' @ name @ ''_invalid'') False 32 (pget lifecycle name))
                      (\<lambda>items. Inr (name, texts items)))
         [''install'', ''start'', ''stop'', ''remove'']))"

definition check_boundaries :: "ext_env \<Rightarrow> pyval \<Rightarrow> pyval dict result" where
  "check_boundaries env v =
     rbind (ext_object ''extension_data_boundaries_invalid'' v) (\<lambda>boundaries.
     rbind (strict_fields [''read'', ''write'', ''network''] ''extension_data_boundaries_unknown_field'' boundaries) (\<lambda>_.
     rbind (string_list ''extension_data_read_invalid'' True 64 (pget boundaries ''read'')) (\<lambda>reads.
     rbind (string_list ''extension_data_write_invalid'' True 64 (pget boundaries ''write'')) (\<lambda>writes.
     rbind (string_list ''extension_data_network_invalid'' False 64 (pget boundaries ''network'')) (\<lambda>network.
     rbind (rmap (\<lambda>s. https_url env ''extension_data_network_invalid'' (PStr s)) network) (\<lambda>urls.
       Inr [(''read'', texts reads), (''write'', texts writes), (''network'', texts urls)]))))))"

definition check_removal :: "pyval \<Rightarrow> pyval dict result" where
  "check_removal v =
     rbind (ext_object ''extension_removal_invalid'' v) (\<lambda>removal.
     rbind (strict_fields [''remove_paths'', ''preserve_paths''] ''extension_removal_unknown_field'' removal) (\<lambda>_.
     rbind (string_list ''extension_remove_paths_invalid'' True 64 (pget removal ''remove_paths'')) (\<lambda>removes.
     rbind (string_list ''extension_preserve_paths_invalid'' True 64 (pget removal ''preserve_paths'')) (\<lambda>preserves.
       Inr [(''remove_paths'', texts removes), (''preserve_paths'', texts preserves)]))))"

definition check_rollback :: "pyval \<Rightarrow> int result" where
  "check_rollback v =
     rbind (ext_object ''extension_rollback_invalid'' v) (\<lambda>rollback.
     rbind (strict_fields [''strategy'', ''retain_revisions''] ''extension_rollback_unknown_field'' rollback) (\<lambda>_.
     rbind (require (pget rollback ''strategy'' = PStr ''pinned_revision'') (ExtensionContractError ''extension_rollback_strategy_invalid'')) (\<lambda>_.
       int_upto 10 ''extension_rollback_retention_invalid'' (pget rollback ''retain_revisions''))))"

text \<open>A list of at most thirty-two texts, each bounded.\<close>

definition metadata_list :: "pyval \<Rightarrow> string list result" where
  "metadata_list v =
     (case v of
        PList xs \<Rightarrow>
          if 32 < length xs \<or> list_ex (\<lambda>x. as_str x = None) xs then contract ''extension_metadata_invalid''
          else rmap (bounded_text ''extension_metadata_invalid'' 1000) xs
      | _ \<Rightarrow> contract ''extension_metadata_invalid'')"

definition CATEGORY :: regex where
  "CATEGORY = rseq [RSet is_az, RRep 0 (Some 63) (RSet skill_char)]"

definition METADATA_FIELDS :: "string list" where
  "METADATA_FIELDS = [''summary'', ''categories'', ''icon'', ''examples'', ''requirements'', ''skill_descriptions'']"

definition check_metadata :: "ext_env \<Rightarrow> pyval dict \<Rightarrow> pyval \<Rightarrow> pyval dict result" where
  "check_metadata env descriptor v =
     rbind (ext_object ''extension_metadata_invalid'' v) (\<lambda>metadata.
     rbind (strict_fields METADATA_FIELDS ''extension_metadata_unknown_field'' metadata) (\<lambda>_.
       let icon = pget_or metadata ''icon'' (PStr (ee_icon env))
       in rbind (require (as_str (pget metadata ''summary'') \<noteq> None \<and> as_str icon \<noteq> None) (ExtensionContractError ''extension_metadata_invalid'')) (\<lambda>_.
          rbind (bounded_text ''extension_metadata_summary_invalid'' 1000 (pget metadata ''summary'')) (\<lambda>summary_text.
          rbind (bounded_text ''extension_metadata_icon_invalid'' 16 icon) (\<lambda>icon_text.
          rbind (metadata_list (pget_or metadata ''categories'' (PList []))) (\<lambda>categories.
          rbind (metadata_list (pget_or metadata ''examples'' (PList []))) (\<lambda>examples.
          rbind (metadata_list (pget_or metadata ''requirements'' (PList []))) (\<lambda>requirements.
          rbind (require (list_all (re_fullmatch CATEGORY) categories) (ExtensionContractError ''extension_metadata_category_invalid'')) (\<lambda>_.
          rbind (ext_object ''extension_metadata_invalid'' (pget_or metadata ''skill_descriptions'' (PDict []))) (\<lambda>descriptions.
          rbind (require (set (dkeys descriptions) \<subseteq> set (include_of descriptor) \<and> list_all (\<lambda>x. as_str x \<noteq> None) (dvals descriptions))
                   (ExtensionContractError ''extension_metadata_skill_invalid'')) (\<lambda>_.
          rbind (rmap (\<lambda>(name, x). rbind (bounded_text ''extension_metadata_invalid'' 1000 x) (\<lambda>s. Inr (name, PStr s))) descriptions) (\<lambda>bounded.
            Inr [(''summary'', PStr summary_text), (''icon'', PStr icon_text), (''categories'', texts categories), (''examples'', texts examples),
                 (''requirements'', texts requirements), (''skill_descriptions'', PDict bounded)]))))))))))))"

section \<open>The manifest\<close>

text \<open>\<open>d.update(entries)\<close>.\<close>

definition dupdate :: "pyval dict \<Rightarrow> pyval dict \<Rightarrow> pyval dict" where
  "dupdate entries d = foldl (\<lambda>d (k, v). dset k v d) d entries"

definition with_metadata :: "ext_env \<Rightarrow> pyval dict \<Rightarrow> pyval dict \<Rightarrow> pyval dict result" where
  "with_metadata env descriptor value =
     (case dget value ''metadata'' of
        None \<Rightarrow> Inr value
      | Some m \<Rightarrow> rbind (check_metadata env descriptor m) (\<lambda>display. Inr (dset ''metadata'' (PDict display) value)))"

definition capabilities_value :: "pyval dict \<Rightarrow> tool list \<Rightarrow> pyval" where
  "capabilities_value d schemas =
     PDict ((''descriptor'', PDict d) # (if schemas \<noteq> [] then [(''schemas'', PList (map tool_value schemas))] else []))"

definition validate_extension_manifest :: "ext_env \<Rightarrow> pyval \<Rightarrow> pyval dict result" where
  "validate_extension_manifest env manifest =
     rbind (ext_object ''extension_manifest_invalid'' manifest) (\<lambda>value.
     rbind (strict_fields TOP_LEVEL_FIELDS ''extension_manifest_unknown_field'' value) (\<lambda>_.
     rbind (require (list_all (\<lambda>k. k \<in> set (dkeys value)) REQUIRED_FIELDS) (ExtensionContractError ''extension_manifest_required_field_missing'')) (\<lambda>_.
     rbind (require (pget value ''protocol_version'' = PStr MANIFEST_VERSION) (ExtensionContractError ''extension_manifest_version_unsupported'')) (\<lambda>_.
     rbind (bounded_text ''extension_id_invalid'' 64 (pget value ''extension_id'')) (\<lambda>extension_id.
     rbind (require (re_fullmatch EXTENSION_ID extension_id) (ExtensionContractError ''extension_id_invalid'')) (\<lambda>_.
     rbind (check_source (pget value ''source'')) (\<lambda>(source, revision).
     rbind (check_runtime (pget value ''runtime'')) (\<lambda>(runtime, runtime_type).
     rbind (check_capabilities env runtime_type (pget value ''capabilities'')) (\<lambda>(descriptor_type, descriptor, schemas).
     rbind (check_permissions descriptor_type descriptor (pget value ''permissions'')) (\<lambda>(default_permission, overrides).
     rbind (check_configuration (pget_or value ''configuration'' (PList []))) (\<lambda>configuration.
     rbind (check_health env (pget value ''health'')) (\<lambda>health.
     rbind (check_lifecycle (pget value ''lifecycle'')) (\<lambda>lifecycle.
     rbind (check_boundaries env (pget value ''data_boundaries'')) (\<lambda>boundaries.
     rbind (check_removal (pget value ''removal'')) (\<lambda>removal.
     rbind (check_rollback (pget value ''rollback'')) (\<lambda>retain.
     rbind (with_metadata env descriptor value) (\<lambda>normalized.
     rbind (bounded_text ''extension_name_invalid'' 200 (pget value ''name'')) (\<lambda>name.
     rbind (bounded_text ''extension_version_invalid'' 80 (pget value ''version'')) (\<lambda>version.
     rbind (https_url env ''extension_source_url_invalid'' (pget source ''url'')) (\<lambda>url.
     rbind (safe_relative_path ''extension_entrypoint_invalid'' (pget runtime ''entrypoint'')) (\<lambda>entrypoint.
       let normalized = dupdate
             [(''extension_id'', PStr extension_id), (''name'', PStr name), (''version'', PStr version),
              (''source'', PDict [(''url'', PStr url), (''revision'', PStr revision)]),
              (''runtime'', PDict [(''type'', PStr runtime_type), (''entrypoint'', PStr entrypoint)]),
              (''capabilities'', capabilities_value descriptor schemas),
              (''permissions'', PDict [(''default'', PStr default_permission), (''capabilities'', PDict overrides)]),
              (''health'', PDict health), (''lifecycle'', PDict lifecycle), (''data_boundaries'', PDict boundaries), (''removal'', PDict removal),
              (''rollback'', PDict [(''strategy'', PStr ''pinned_revision''), (''retain_revisions'', PInt retain)])] normalized
       in Inr (if configuration \<noteq> [] then dset ''configuration'' (PList configuration) normalized
               else dpop ''configuration'' normalized))))))))))))))))))))))"

section \<open>Normal forms of fields\<close>

definition plain_text :: "nat \<Rightarrow> string \<Rightarrow> bool" where
  "plain_text n s = (s \<noteq> [] \<and> length s \<le> n \<and> strip s = s \<and> list_all (\<lambda>c. \<not> code c < 32) s)"

lemma bounded_text_iff: "bounded_text err n v = Inr s \<longleftrightarrow> s = strip (str_or v) \<and> plain_text n s"
proof -
  have "bounded_text err n v = (if plain_text n (strip (str_or v)) then Inr (strip (str_or v)) else contract err)"
    by (auto simp: bounded_text_def plain_text_def Let_def strip_twice list_ex_iff list_all_iff)
  then show ?thesis by (metis Inl_Inr_False sum.inject(2))
qed

lemma bounded_plain: "bounded_text err n v = Inr s \<Longrightarrow> plain_text n s"
  using bounded_text_iff by blast

lemma plain_bounded: "plain_text n s \<Longrightarrow> bounded_text err n (PStr s) = Inr s"
  by (simp add: bounded_text_iff plain_text_def)

lemma join_length: "length (join [c] xs) = sum_list (map length xs) + (length xs - 1)"
  by (induction xs rule: induct_list012) auto

lemma join_filter_length: "length (join [c] (filter P xs)) \<le> length (join [c] xs)"
proof -
  have "sum_list (map length (filter P xs)) \<le> sum_list (map length xs)" by (induction xs) auto
  moreover have "length (filter P xs) \<le> length xs" by simp
  ultimately show ?thesis unfolding join_length by linarith
qed

lemma join_split_on: "join [c] (split_on c s) = s"
proof (induction s)
  case (Cons x s)
  show ?case
  proof (cases "split_on c s")
    case Nil
    then show ?thesis by (cases s) (auto split: if_splits list.splits)
  next
    case (Cons p ps)
    with Cons.IH show ?thesis by (cases ps) auto
  qed
qed simp

lemma components_chars: "x \<in> set (components s) \<Longrightarrow> set x \<subseteq> set s"
proof -
  have "x \<in> set (split_on c s) \<Longrightarrow> set x \<subseteq> set s" for c
    by (induction s arbitrary: x) (auto split: if_splits list.splits, blast+)
  then show "x \<in> set (components s) \<Longrightarrow> set x \<subseteq> set s" by (auto simp: components_def)
qed

lemma join_chars: "set (join sep xs) \<subseteq> set sep \<union> (\<Union>x \<in> set xs. set x)"
  by (induction xs rule: induct_list012) auto

text \<open>A path in its normal form is kept, unless it begins or ends with a blank.\<close>

lemma safe_path_again:
  assumes "safe_relative_path err v = Inr p" "strip p = p"
  shows "safe_relative_path err' (PStr p) = Inr p"
proof -
  from assms(1) obtain s where s: "plain_text 500 s" "p = as_posix (components s)" "''..'' \<notin> set (components s)"
    by (auto simp: safe_relative_path_def rbind_Inr_iff dest!: bounded_plain split: if_splits)
  have parts: "\<forall>x \<in> set (components s). CHR ''/'' \<notin> set x \<and> x \<noteq> [] \<and> x \<noteq> ''.''"
    using components_parts by blast
  have c: "components p = components s"
  proof (cases "components s = []")
    case True
    then show ?thesis unfolding s(2) True by (simp add: as_posix_def components_def)
  next
    case False
    then show ?thesis unfolding s(2) using components_join [OF parts, of False] by (simp add: as_posix_def)
  qed
  have "length (join ''/'' (components s)) \<le> length s"
    unfolding components_def using join_filter_length [of "CHR ''/''" _ "split_on CHR ''/'' s"] join_split_on [of "CHR ''/''" s] by metis
  moreover have "s \<noteq> []" using s(1) by (simp add: plain_text_def)
  then have "1 \<le> length s" by (cases s) auto
  ultimately have "length p \<le> length s" by (simp add: s(2) as_posix_def)
  moreover have "set p \<subseteq> set ''/.'' \<union> set s"
  proof -
    have "set (join ''/'' (components s)) \<subseteq> set ''/'' \<union> set s"
      using join_chars [of "''/''" "components s"] components_chars [of _ s] by blast
    then show ?thesis by (auto simp: s(2) as_posix_def)
  qed
  then have "list_all (\<lambda>c. \<not> code c < 32) p"
    using s(1) by (auto simp: plain_text_def list_all_iff code_def)
  moreover have ne: "p \<noteq> [] \<and> \<not> starts_with ''/'' p"
  proof (cases "components s")
    case Nil
    then show ?thesis by (simp add: s(2) as_posix_def starts_with_def)
  next
    case (Cons x xs)
    with parts obtain a y where x: "x = a # y" "a \<noteq> CHR ''/''" by (cases x) auto
    have "\<exists>z. join ''/'' (components s) = a # z" unfolding Cons x(1) by (cases xs) auto
    with x(2) show ?thesis by (auto simp: s(2) as_posix_def starts_with_def Cons)
  qed
  ultimately have "plain_text 500 p" using s(1) assms(2) by (simp add: plain_text_def)
  then show ?thesis using ne c s(2,3) by (simp add: safe_relative_path_def plain_bounded)
qed

lemma https_url_again: "https_url env err v = Inr s \<Longrightarrow> https_url env err' (PStr s) = Inr s"
  by (auto simp: https_url_def rbind_Inr_iff plain_bounded dest!: bounded_plain split: if_splits)

lemma https_url_plain: "https_url env err v = Inr s \<Longrightarrow> plain_text 2000 s"
  by (auto simp: https_url_def rbind_Inr_iff dest!: bounded_plain split: if_splits)

lemma endpoint_again: "endpoint env err v = Inr s \<Longrightarrow> endpoint env err' (PStr s) = Inr s"
proof -
  assume "endpoint env err v = Inr s"
  then obtain t where t: "plain_text 2000 t"
    "(if starts_with ''/'' t \<and> \<not> starts_with ''//'' t then Inr t else https_url env err (PStr t)) = Inr s"
    unfolding endpoint_def by (blast elim: rbind_InrE dest: bounded_plain)
  have "plain_text 2000 s" "s = t"
    using t https_url_plain [of env err "PStr t" s] by (auto simp: https_url_def plain_bounded rbind_Inr_iff split: if_splits)
  with t https_url_again [of env err "PStr t" s err'] show ?thesis by (auto simp: endpoint_def plain_bounded split: if_splits)
qed

lemma string_list_texts: "string_list err False n v = Inr ss \<Longrightarrow> string_list err' False n (texts ss) = Inr ss"
  by (auto simp: string_list_def texts_def rmap_length split: pyval.splits if_splits
      intro!: rmap_fixed plain_bounded dest: rmap_results bounded_plain)

lemma string_list_plain: "string_list err False n v = Inr ss \<Longrightarrow> s \<in> set ss \<Longrightarrow> plain_text 200 s"
  by (auto simp: string_list_def split: pyval.splits if_splits dest!: rmap_results bounded_plain)

lemma string_list_paths:
  "string_list err True n v = Inr ss \<Longrightarrow> list_all (\<lambda>s. strip s = s) ss \<Longrightarrow> string_list err' True n (texts ss) = Inr ss"
  by (auto simp: string_list_def texts_def rmap_length list_all_iff split: pyval.splits if_splits
      intro!: rmap_fixed dest: rmap_results intro: safe_path_again)

text \<open>Names and revisions are plain texts.\<close>

lemma tool_name_iff:
  "re_fullmatch TOOL_NAME s \<longleftrightarrow> (case s of [] \<Rightarrow> False | c # r \<Rightarrow> (is_az c \<or> is_AZ c) \<and> list_all name_char r \<and> length r \<le> 127)"
  unfolding TOOL_NAME_def fullmatch_anchored fullmatch_head_rep by (simp split: list.split)

lemma skill_id_iff:
  "re_fullmatch SKILL_ID s \<longleftrightarrow> (case s of [] \<Rightarrow> False | c # r \<Rightarrow> is_az c \<and> list_all skill_char r \<and> length r \<le> 59)"
  unfolding SKILL_ID_def fullmatch_anchored fullmatch_head_rep by (simp split: list.split)

lemma graphic_plain:
  assumes "s \<noteq> []" "length s \<le> n" "list_all (\<lambda>c. 32 < code c \<and> code c < 127) s"
  shows "plain_text n s"
proof -
  have ns: "\<not> is_space c" if "c \<in> set s" for c
    using assms(3) that by (auto simp: list_all_iff is_space_def Let_def)
  have "dropWhile is_space s = s" "dropWhile is_space (rev s) = rev s"
    using ns assms(1) by (auto intro!: dropWhile_idle simp: hd_rev)
  then have "strip s = s" by (simp add: strip_def lstrip_def rstrip_def)
  then show ?thesis using assms by (auto simp: plain_text_def list_all_iff)
qed

lemma name_graphic: "name_char c \<Longrightarrow> 32 < code c \<and> code c < 127" "is_az c \<or> is_AZ c \<Longrightarrow> name_char c" "skill_char c \<Longrightarrow> name_char c"
  "hex_char c \<Longrightarrow> 32 < code c \<and> code c < 127"
  by (auto simp: name_char_def is_alnum_def is_az_def is_AZ_def in_range_def code_def skill_char_def hex_char_def)

lemma tool_name_plain: "re_fullmatch TOOL_NAME s \<Longrightarrow> plain_text 128 s"
  by (rule graphic_plain) (auto simp: tool_name_iff list_all_iff name_graphic split: list.splits)

lemma skill_is_tool_name: "re_fullmatch SKILL_ID s \<Longrightarrow> re_fullmatch TOOL_NAME s"
  by (auto simp: skill_id_iff tool_name_iff list_all_iff name_graphic split: list.splits)

lemma times_set_end:
  "(\<exists>q \<in> set (times n (matches (RSet P)) (l, r, g)). fst (snd q) = []) \<longleftrightarrow> list_all P r \<and> length r = n"
proof (induction n arbitrary: l r)
  case (Suc n)
  then show ?case by (cases r) auto
qed auto

section \<open>Every part is kept by its own check\<close>

lemma ext_object_iff [simp]: "ext_object err v = Inr d \<longleftrightarrow> v = PDict d"
  by (auto simp: ext_object_def split: pyval.splits)

lemma ext_object_PDict [simp]: "ext_object err (PDict d) = Inr d"
  by (simp add: ext_object_def)

lemma strict_fields_iff: "strict_fields allowed err d = Inr u \<longleftrightarrow> fst ` set d \<subseteq> set allowed"
  by (auto simp: strict_fields_def list_all_iff)

lemma dset_same_entry: "dget d k = Some v \<Longrightarrow> dset k v d = d"
  by (induction d) (auto split: if_splits)

lemma dset_twice: "dset k v (dset k v d) = dset k v d"
  by (rule dset_same_entry) simp

lemmas check_intros = strict_fields_iff rbind_Inr_iff

lemma source_again:
  "check_source v = Inr (source, revision) \<Longrightarrow>
     check_source (PDict [(''url'', u), (''revision'', PStr revision)]) = Inr ([(''url'', u), (''revision'', PStr revision)], revision)"
  by (auto simp: check_source_def check_intros plain_bounded dest!: bounded_plain)

lemma runtime_again:
  "check_runtime v = Inr (runtime, t) \<Longrightarrow>
     check_runtime (PDict [(''type'', PStr t), (''entrypoint'', e)]) = Inr ([(''type'', PStr t), (''entrypoint'', e)], t)"
  by (auto simp: check_runtime_def check_intros Let_def)

lemma include_again: "check_include v = Inr items \<Longrightarrow> check_include (texts items) = Inr items"
  by (auto simp: check_include_def check_intros string_list_texts)

lemma fields_again:
  assumes "descriptor_fields env h t d0 = Inr d"
  shows "descriptor_fields env True t d = Inr d" "pget d ''type'' = pget d0 ''type''"
proof -
  consider (mcp) "t = ''mcp''" | (inline) "t = ''inline''" | (skills) "t = ''skill_bundle''"
    | (other) "t \<noteq> ''mcp'' \<and> t \<noteq> ''inline'' \<and> t \<noteq> ''skill_bundle''" by blast
  then have "descriptor_fields env True t d = Inr d \<and> pget d ''type'' = pget d0 ''type''"
  proof cases
    case mcp
    with assms obtain r where "d = dset ''reference'' (PStr r) d0" "plain_text 200 r" "fst ` set d0 \<subseteq> {''type'', ''reference''}"
      by (auto simp: descriptor_fields_def check_intros dest!: bounded_plain)
    with mcp show ?thesis by (auto simp: descriptor_fields_def check_intros plain_bounded dset_twice)
  next
    case inline
    with assms show ?thesis by (auto simp: descriptor_fields_def check_intros)
  next
    case skills
    with assms obtain f w items where s: "d = dset ''include'' (texts items) (dset ''format'' (PStr f) d0)" "f \<in> set SKILL_BUNDLE_FORMATS"
        "check_include w = Inr items" "fst ` set d0 \<subseteq> {''type'', ''format'', ''include''}"
      by (auto simp: descriptor_fields_def check_intros Let_def)
    have same: "dset ''include'' (texts items) (dset ''format'' (PStr f) d) = d"
      unfolding s(1) by (simp add: dset_same_entry)
    from s(1) have "pget d ''format'' = PStr f" "pget d ''include'' = texts items" "pget d ''type'' = pget d0 ''type''" by simp_all
    moreover have "fst ` set d \<subseteq> {''type'', ''format'', ''include''}" using s(4) unfolding s(1) by auto
    ultimately show ?thesis using skills s(2) include_again [OF s(3)] same by (simp add: descriptor_fields_def check_intros Let_def)
  next
    case other
    with assms obtain e w where e: "d = dset ''endpoint'' (PStr e) d0" "endpoint env ''extension_descriptor_endpoint_invalid'' w = Inr e"
        "fst ` set d0 \<subseteq> {''type'', ''endpoint''}"
      by (auto simp: descriptor_fields_def check_intros)
    with other show ?thesis by (auto simp: descriptor_fields_def check_intros dset_twice endpoint_again [OF e(2)])
  qed
  then show "descriptor_fields env True t d = Inr d" "pget d ''type'' = pget d0 ''type''" by auto
qed

lemma inline_needs_schemas: "t \<noteq> ''inline'' \<Longrightarrow> descriptor_fields env h t d = descriptor_fields env True t d"
  by (simp add: descriptor_fields_def Let_def)

lemma descriptor_again:
  assumes "check_descriptor env c = Inr (t, d)" "pget c' ''descriptor'' = PDict d" "t = ''inline'' \<Longrightarrow> ''schemas'' \<in> set (dkeys c')"
  shows "check_descriptor env c' = Inr (t, d)"
proof -
  obtain d0 where p: "pget c ''descriptor'' = PDict d0"
    using assms(1) by (cases "pget c ''descriptor''") (auto simp: check_descriptor_def ext_object_def)
  have d0: "t \<in> set DESCRIPTOR_TYPES" "t = str_or (pget d0 ''type'')"
    "descriptor_fields env (''schemas'' \<in> set (dkeys c)) t d0 = Inr d"
    using assms(1) by (auto simp: check_descriptor_def Let_def rbind_Inr_iff p simp del: set_map)
  have "descriptor_fields env (''schemas'' \<in> set (dkeys c')) t d = Inr d"
  proof (cases "t = ''inline''")
    case True
    then show ?thesis using fields_again(1) [OF d0(3)] assms(3) by simp
  next
    case False
    from inline_needs_schemas [OF this] show ?thesis by (rule trans) (rule fields_again(1) [OF d0(3)])
  qed
  with d0(1,2) fields_again(2) [OF d0(3)] assms(2) show ?thesis by (simp add: check_descriptor_def)
qed

lemma parameters_again: "check_parameters v = Inr p \<Longrightarrow> v = PDict p"
  by (cases v) (auto simp: check_parameters_def rbind_Inr_iff)

lemma tool_again: "normalize_tool_schema raw = Inr t \<Longrightarrow> normalize_tool_schema (tool_value t) = Inr t"
proof -
  assume "normalize_tool_schema raw = Inr t"
  then obtain v where "re_fullmatch TOOL_NAME (tool_name t)" "length (tool_description t) \<le> 4000" "check_parameters v = Inr (tool_parameters t)"
    unfolding normalize_tool_schema_def Let_def by (elim rbind_InrE) (auto split: pyval.split_asm if_split_asm)
  moreover from this have "strip (tool_name t) = tool_name t" "check_parameters (PDict (tool_parameters t)) = Inr (tool_parameters t)"
    using tool_name_plain parameters_again by (auto simp: plain_text_def)
  ultimately show ?thesis
    by (simp add: normalize_tool_schema_def tool_value_def pget_or_def)
qed

lemma tools_again: "normalize_tools v = Inr ts \<Longrightarrow> normalize_tools (PList (map tool_value ts)) = Inr ts"
  by (auto simp: normalize_tools_def check_intros rmap_length split: pyval.splits if_splits
      intro!: rmap_fixed dest: rmap_results tool_again)

lemma permissions_again:
  "check_permissions t d v = Inr (df, ov) \<Longrightarrow>
     check_permissions t d (PDict [(''default'', PStr df), (''capabilities'', PDict ov)]) = Inr (df, ov)"
  by (auto simp: check_permissions_def check_intros Let_def split: if_splits)

lemma config_entry_again:
  assumes "config_key seen item = Inr k" "config_flag item ''required'' = Inr r" "config_flag item ''secret'' = Inr s" "plain_text 200 t"
  shows "config_key seen (as_mapping (config_entry k t r s)) = Inr k \<and>
    config_flag (as_mapping (config_entry k t r s)) ''required'' = Inr r \<and> config_flag (as_mapping (config_entry k t r s)) ''secret'' = Inr s"
  using assms by (auto simp: config_key_def config_flag_def config_entry_def check_intros pget_or_def plain_bounded dest!: bounded_plain)

lemma items_again: "check_items seen xs = Inr ys \<Longrightarrow> check_items seen ys = Inr ys"
proof (induction seen xs arbitrary: ys rule: check_items.induct)
  case (2 seen raw rest)
  from "2.prems" obtain item k r s t zs where e: "raw = PDict item" "config_key seen item = Inr k"
    "config_flag item ''required'' = Inr r" "config_flag item ''secret'' = Inr s" "plain_text 200 t"
    "check_items (k # seen) rest = Inr zs" "ys = config_entry k t r s # zs"
    by (auto simp: check_intros dest!: bounded_plain)
  from "2.IH" [OF e(6)] have "check_items (k # seen) zs = Inr zs" .
  moreover obtain m where "config_entry k t r s = PDict m" "pget m ''description'' = PStr t"
    by (simp add: config_entry_def)
  moreover have "config_key seen m = Inr k" "config_flag m ''required'' = Inr r" "config_flag m ''secret'' = Inr s"
    using config_entry_again [OF e(2-5)] calculation(2) by simp_all
  ultimately show ?case unfolding e(7) check_items.simps by (simp add: plain_bounded e(5))
qed simp

lemma items_length: "check_items seen xs = Inr ys \<Longrightarrow> length ys = length xs"
  by (induction seen xs arbitrary: ys rule: check_items.induct) (auto simp: check_intros)

lemma configuration_again: "check_configuration v = Inr ys \<Longrightarrow> check_configuration (PList ys) = Inr ys"
  by (auto simp: check_configuration_def items_length intro: items_again split: pyval.splits if_splits)

lemma int_upto_again: "int_upto n err v = Inr i \<Longrightarrow> int_upto n err' (PInt i) = Inr i"
  by (auto simp: int_upto_def split: pyval.splits if_splits)

lemma health_again:
  assumes "check_health env v = Inr h"
  shows "check_health env (PDict h) = Inr h"
proof -
  from assms obtain h0 i where h: "health_fields env (str_or (pget h0 ''type'')) h0 = Inr h" "int_upto 30 ''extension_health_timeout_invalid'' (pget h ''timeout_seconds'') = Inr i"
    unfolding check_health_def by (elim rbind_InrE) auto
  have "health_fields env (str_or (pget h ''type'')) h = Inr h"
  proof (cases "str_or (pget h0 ''type'') = ''catalog''")
    case True
    with h(1) show ?thesis by (auto simp: health_fields_def check_intros)
  next
    case False
    then have "str_or (pget h0 ''type'') = ''http''" using h(1) by (auto simp: health_fields_def split: if_split_asm)
    moreover from this h(1) obtain e w where e: "h = dset ''endpoint'' (PStr e) h0" "endpoint env ''extension_health_endpoint_invalid'' w = Inr e"
      "fst ` set h0 \<subseteq> {''type'', ''endpoint'', ''timeout_seconds''}"
      by (auto simp: health_fields_def check_intros)
    ultimately show ?thesis by (auto simp: health_fields_def check_intros dset_twice endpoint_again [OF e(2)])
  qed
  with h(2) show ?thesis by (simp add: check_health_def)
qed

lemma lifecycle_again: "check_lifecycle v = Inr l \<Longrightarrow> check_lifecycle (PDict l) = Inr l"
  by (auto simp: check_lifecycle_def check_intros string_list_texts)

lemma rollback_again:
  "check_rollback v = Inr i \<Longrightarrow> check_rollback (PDict [(''strategy'', PStr ''pinned_revision''), (''retain_revisions'', PInt i)]) = Inr i"
  unfolding check_rollback_def by (elim rbind_InrE) (auto simp: check_intros dest: int_upto_again)

text \<open>The texts of a field, and the paths in a manifest.\<close>

definition texts_of :: "pyval \<Rightarrow> string list" where
  "texts_of v = (case v of PList xs \<Rightarrow> List.map_filter as_str xs | _ \<Rightarrow> [])"

lemma texts_of_texts [simp]: "texts_of (texts ss) = ss"
  by (induction ss) (simp_all add: texts_of_def texts_def map_filter_simps as_str_def)

lemma boundaries_again:
  assumes "check_boundaries env v = Inr b" "list_all (\<lambda>p. strip p = p) (texts_of (pget b ''read'') @ texts_of (pget b ''write''))"
  shows "check_boundaries env (PDict b) = Inr b"
proof -
  from assms(1) obtain v1 v2 v3 r w n u where b: "b = [(''read'', texts r), (''write'', texts w), (''network'', texts u)]"
    "string_list ''extension_data_read_invalid'' True 64 v1 = Inr r" "string_list ''extension_data_write_invalid'' True 64 v2 = Inr w"
    "string_list ''extension_data_network_invalid'' False 64 v3 = Inr n"
    "rmap (\<lambda>s. https_url env ''extension_data_network_invalid'' (PStr s)) n = Inr u"
    by (auto simp: check_boundaries_def check_intros)
  have "u = n"
  proof (rule nth_equalityI)
    show "length u = length n" using rmap_length [OF b(5)] .
    fix i assume "i < length u"
    then have "https_url env ''extension_data_network_invalid'' (PStr (n ! i)) = Inr (u ! i)" "n ! i \<in> set n"
      using b(5) by (simp_all add: rmap_Inr_iff list_all2_conv_all_nth)
    moreover from this have "plain_text 200 (n ! i)" using string_list_plain [OF b(4)] by blast
    ultimately show "u ! i = n ! i"
      by (auto simp: https_url_def rbind_Inr_iff bounded_text_iff plain_text_def split: if_splits)
  qed
  moreover have "list_all (\<lambda>s. strip s = s) r" "list_all (\<lambda>s. strip s = s) w" using assms(2) by (simp_all add: b(1))
  ultimately show ?thesis
    using b string_list_paths [OF b(2)] string_list_paths [OF b(3)] string_list_texts [OF b(4)]
    by (simp add: check_boundaries_def check_intros)
qed

lemma removal_again:
  assumes "check_removal v = Inr r" "list_all (\<lambda>p. strip p = p) (texts_of (pget r ''remove_paths'') @ texts_of (pget r ''preserve_paths''))"
  shows "check_removal (PDict r) = Inr r"
proof -
  from assms(1) obtain v1 v2 a b where r: "r = [(''remove_paths'', texts a), (''preserve_paths'', texts b)]"
    "string_list ''extension_remove_paths_invalid'' True 64 v1 = Inr a" "string_list ''extension_preserve_paths_invalid'' True 64 v2 = Inr b"
    by (auto simp: check_removal_def check_intros)
  moreover have "list_all (\<lambda>s. strip s = s) a" "list_all (\<lambda>s. strip s = s) b" using assms(2) by (simp_all add: r(1))
  ultimately show ?thesis
    using string_list_paths [OF r(2)] string_list_paths [OF r(3)] by (simp add: check_removal_def check_intros)
qed

lemma metadata_list_again: "metadata_list v = Inr ss \<Longrightarrow> metadata_list (texts ss) = Inr ss"
  by (auto simp: metadata_list_def texts_def rmap_length as_str_def list_ex_iff split: pyval.splits if_splits
      intro!: rmap_fixed plain_bounded dest: rmap_results bounded_plain)

lemma descriptions_again:
  "rmap (\<lambda>(name, x). rbind (bounded_text err n x) (\<lambda>s. Inr (name, PStr s))) ds = Inr bs \<Longrightarrow>
     dkeys bs = dkeys ds \<and> list_all (\<lambda>x. as_str x \<noteq> None) (dvals bs) \<and>
     rmap (\<lambda>(name, x). rbind (bounded_text err n x) (\<lambda>s. Inr (name, PStr s))) bs = Inr bs"
proof (induction ds arbitrary: bs)
  case (Cons p ds)
  obtain k v where p: "p = (k, v)" by (cases p)
  from Cons.prems obtain s rest where "plain_text n s" "bs = (k, PStr s) # rest"
    "rmap (\<lambda>(name, x). rbind (bounded_text err n x) (\<lambda>s. Inr (name, PStr s))) ds = Inr rest"
    unfolding p by (auto simp: rbind_Inr_iff dest: bounded_plain)
  with Cons.IH [of rest] show ?case by (simp add: p plain_bounded as_str_def)
qed simp

lemma metadata_again:
  assumes "check_metadata env d v = Inr m"
  shows "check_metadata env d (PDict m) = Inr m"
proof -
  from assms obtain st it cs es rs ds bs w1 w2 w3 where m: "m = [(''summary'', PStr st), (''icon'', PStr it), (''categories'', texts cs),
      (''examples'', texts es), (''requirements'', texts rs), (''skill_descriptions'', PDict bs)]"
    "plain_text 1000 st" "plain_text 16 it" "metadata_list w1 = Inr cs" "metadata_list w2 = Inr es" "metadata_list w3 = Inr rs"
    "list_all (re_fullmatch CATEGORY) cs" "set (dkeys ds) \<subseteq> set (include_of d)"
    "rmap (\<lambda>(name, x). rbind (bounded_text ''extension_metadata_invalid'' 1000 x) (\<lambda>s. Inr (name, PStr s))) ds = Inr bs"
    unfolding check_metadata_def Let_def by (elim rbind_InrE) (simp, blast dest: bounded_plain)
  note again = metadata_list_again [OF m(4)] metadata_list_again [OF m(5)] metadata_list_again [OF m(6)] descriptions_again [OF m(9)]
  have "fst ` set bs \<subseteq> set (include_of d)" using m(8) again(4) by (metis list.set_map)
  then show ?thesis
    using again m(2,3,7) unfolding check_metadata_def m(1)
    by (simp add: strict_fields_iff METADATA_FIELDS_def rbind_Inr_iff plain_bounded pget_or_def as_str_def Let_def)
qed

lemma capabilities_again:
  assumes "check_capabilities env rt v = Inr (t, d, schemas)" "t = ''inline'' \<Longrightarrow> schemas \<noteq> []"
  shows "check_capabilities env rt (PDict ((''descriptor'', PDict d) # (if schemas \<noteq> [] then [(''schemas'', PList (map tool_value schemas))] else []))) =
    Inr (t, d, schemas)"
proof -
  obtain cc where v: "v = PDict cc" using assms(1) by (cases v) (auto simp: check_capabilities_def ext_object_def)
  define w where "w = pget_or cc ''schemas'' (PList [])"
  have a: "rbind (check_descriptor env cc) (\<lambda>(t', d').
     rbind (require (t' = ''inline'' \<or> ''schemas'' \<notin> set (dkeys cc)) (ExtensionContractError ''extension_descriptor_schemas_must_be_referenced'')) (\<lambda>_.
     rbind (require ((rt = ''skills'') = (t' = ''skill_bundle'') \<and> (rt = ''mcp'') = (t' = ''mcp'')) (ExtensionContractError ''extension_runtime_descriptor_mismatch'')) (\<lambda>_.
     rbind (if t' = ''inline'' then normalize_tools w else Inr []) (\<lambda>schemas. Inr (t', d', schemas))))) = Inr (t, d, schemas)"
    using assms(1) unfolding check_capabilities_def v w_def ext_object_PDict rbind_simps
    by (rule rbind_InrE) simp
  from a obtain td where "check_descriptor env cc = Inr td" by (rule rbind_InrE)
  with a have c: "check_descriptor env cc = Inr (t, d)"
    "(rt = ''skills'') = (t = ''skill_bundle'')" "(rt = ''mcp'') = (t = ''mcp'')"
    "(if t = ''inline'' then normalize_tools w else Inr []) = Inr schemas"
    by (cases td; clarsimp simp: rbind_Inr_iff)+
  let ?c = "(''descriptor'', PDict d) # (if schemas \<noteq> [] then [(''schemas'', PList (map tool_value schemas))] else [])"
  have "check_descriptor env ?c = Inr (t, d)"
    by (rule descriptor_again [OF c(1)]) (use assms(2) in auto)
  moreover have "(if t = ''inline'' then normalize_tools (pget_or ?c ''schemas'' (PList [])) else Inr []) = Inr schemas"
  proof (cases "t = ''inline''")
    case True
    with c(4) tools_again [of w schemas] assms(2) show ?thesis by (simp add: pget_or_def)
  qed (use c(4) in simp)
  moreover have "strict_fields [''descriptor'', ''schemas''] err ?c = Inr ()" for err
    by (cases "schemas = []") (simp_all add: strict_fields_iff)
  moreover have "(t = ''inline'' \<or> ''schemas'' \<notin> set (dkeys ?c)) = True" using c(4) by (cases "t = ''inline''") simp_all
  ultimately show ?thesis
    unfolding check_capabilities_def ext_object_PDict rbind_simps
    by (simp only: rbind_simps case_prod_conv c(2,3) refl simp_thms require_simps(1))
qed

section \<open>The normal form of a manifest\<close>

lemma required_in: "dget n k = Some v \<Longrightarrow> k \<in> fst ` set n"
  by (metis dget_None_dkeys option.distinct(1) list.set_map)

lemma dget_dupdate: "wf_dict kvs \<Longrightarrow> dget (dupdate kvs d) k = (case dget kvs k of Some v \<Rightarrow> Some v | None \<Rightarrow> dget d k)"
proof (induction kvs arbitrary: d)
  case (Cons p kvs)
  then show ?case by (cases p) (auto simp: dupdate_def split: option.split dest: required_in)
qed (simp add: dupdate_def)

lemma dupdate_same: "list_all (\<lambda>(k, v). dget d k = Some v) kvs \<Longrightarrow> dupdate kvs d = d"
  by (induction kvs) (auto simp: dupdate_def dset_same_entry)

lemma dkeys_dupdate: "fst ` set (dupdate kvs d) = fst ` set kvs \<union> fst ` set d"
proof (induction kvs arbitrary: d)
  case (Cons p kvs)
  have "dupdate (p # kvs) d = dupdate kvs (dset (fst p) (snd p) d)" by (simp add: dupdate_def case_prod_unfold)
  with Cons.IH show ?case by simp
qed (simp add: dupdate_def)

text \<open>The paths that a normalized manifest names, and whether a second validation keeps it.\<close>

definition manifest_paths :: "pyval dict \<Rightarrow> string list" where
  "manifest_paths n =
     (let field = (\<lambda>k. as_mapping (pget n k)) in
      str_or (pget (field ''runtime'') ''entrypoint'') #
      texts_of (pget (field ''data_boundaries'') ''read'') @ texts_of (pget (field ''data_boundaries'') ''write'') @
      texts_of (pget (field ''removal'') ''remove_paths'') @ texts_of (pget (field ''removal'') ''preserve_paths''))"

definition inline_empty :: "pyval dict \<Rightarrow> bool" where
  "inline_empty n =
     (let capabilities = as_mapping (pget n ''capabilities'') in
      str_or (pget (as_mapping (pget capabilities ''descriptor'')) ''type'') = ''inline'' \<and> ''schemas'' \<notin> set (dkeys capabilities))"

definition stable_manifest :: "pyval dict \<Rightarrow> bool" where
  "stable_manifest n = (list_all (\<lambda>p. strip p = p) (manifest_paths n) \<and> \<not> inline_empty n)"

inductive normal_manifest :: "ext_env \<Rightarrow> pyval dict \<Rightarrow> bool" for env where
  normal_manifestI:
  "\<lbrakk>fst ` set n \<subseteq> set TOP_LEVEL_FIELDS; pget n ''protocol_version'' = PStr MANIFEST_VERSION;
    dget n ''extension_id'' = Some (PStr i); plain_text 64 i; re_fullmatch EXTENSION_ID i;
    dget n ''name'' = Some (PStr name); plain_text 200 name; dget n ''version'' = Some (PStr version); plain_text 80 version;
    dget n ''source'' = Some (PDict [(''url'', PStr url), (''revision'', PStr revision)]);
    https_url env ''extension_source_url_invalid'' (PStr url) = Inr url; plain_text 64 revision; re_fullmatch REVISION revision;
    dget n ''runtime'' = Some (PDict [(''type'', PStr rt), (''entrypoint'', PStr e)]);
    rt \<in> set [''web'', ''service'', ''mcp'', ''openapi'', ''skills''];
    safe_relative_path ''extension_entrypoint_invalid'' (PStr e) = Inr e;
    dget n ''capabilities'' = Some (capabilities_value d schemas);
    check_capabilities env rt (capabilities_value d schemas) = Inr (t, d, schemas);
    dget n ''permissions'' = Some (PDict [(''default'', PStr df), (''capabilities'', PDict ov)]);
    check_permissions t d (PDict [(''default'', PStr df), (''capabilities'', PDict ov)]) = Inr (df, ov);
    dget n ''configuration'' = (if conf \<noteq> [] then Some (PList conf) else None); check_configuration (PList conf) = Inr conf;
    dget n ''health'' = Some (PDict health); check_health env (PDict health) = Inr health;
    dget n ''lifecycle'' = Some (PDict life); check_lifecycle (PDict life) = Inr life;
    dget n ''data_boundaries'' = Some (PDict bounds); check_boundaries env (PDict bounds) = Inr bounds;
    dget n ''removal'' = Some (PDict removal); check_removal (PDict removal) = Inr removal;
    dget n ''rollback'' = Some (PDict [(''strategy'', PStr ''pinned_revision''), (''retain_revisions'', PInt retain)]);
    check_rollback (PDict [(''strategy'', PStr ''pinned_revision''), (''retain_revisions'', PInt retain)]) = Inr retain;
    case dget n ''metadata'' of None \<Rightarrow> True | Some v \<Rightarrow> \<exists>m. v = PDict m \<and> check_metadata env d v = Inr m\<rbrakk>
   \<Longrightarrow> normal_manifest env n"

lemma dget_pget: "dget n k = Some v \<Longrightarrow> pget n k = v"
  by (simp add: pget_def)

lemma source_normal:
  "plain_text 64 r \<Longrightarrow> re_fullmatch REVISION r \<Longrightarrow>
     check_source (PDict [(''url'', u), (''revision'', PStr r)]) = Inr ([(''url'', u), (''revision'', PStr r)], r)"
  by (simp add: check_source_def check_intros plain_bounded)

lemma runtime_normal:
  "t \<in> set [''web'', ''service'', ''mcp'', ''openapi'', ''skills''] \<Longrightarrow>
     check_runtime (PDict [(''type'', PStr t), (''entrypoint'', e)]) = Inr ([(''type'', PStr t), (''entrypoint'', e)], t)"
  by (auto simp: check_runtime_def check_intros)

lemma with_metadata_same:
  "(case dget n ''metadata'' of None \<Rightarrow> True | Some v \<Rightarrow> \<exists>m. v = PDict m \<and> check_metadata env d v = Inr m) \<Longrightarrow> with_metadata env d n = Inr n"
  by (auto simp: with_metadata_def dset_same_entry split: option.splits)

lemma normal_kept:
  assumes "normal_manifest env n"
  shows "validate_extension_manifest env (PDict n) = Inr n"
  using assms
proof cases
  case (normal_manifestI i name version url revision rt e d schemas t df ov conf health life bounds removal retain)
  note dgets = normal_manifestI(3,6,8,10,14,17,19,23,25,27,29,31)
  have req: "list_all (\<lambda>k. k \<in> set (dkeys n)) REQUIRED_FIELDS"
    using dgets [THEN required_in] normal_manifestI(2)
    by (auto simp: REQUIRED_FIELDS_def TOP_LEVEL_FIELDS_def MANIFEST_VERSION_def pget_def dget_None_dkeys split: option.splits dest: required_in)
  have u: "dupdate [(''extension_id'', PStr i), (''name'', PStr name), (''version'', PStr version),
      (''source'', PDict [(''url'', PStr url), (''revision'', PStr revision)]),
      (''runtime'', PDict [(''type'', PStr rt), (''entrypoint'', PStr e)]),
      (''capabilities'', capabilities_value d schemas),
      (''permissions'', PDict [(''default'', PStr df), (''capabilities'', PDict ov)]),
      (''health'', PDict health), (''lifecycle'', PDict life), (''data_boundaries'', PDict bounds), (''removal'', PDict removal),
      (''rollback'', PDict [(''strategy'', PStr ''pinned_revision''), (''retain_revisions'', PInt retain)])] n = n"
    by (rule dupdate_same) (simp add: dgets)
  have c: "check_configuration (pget_or n ''configuration'' (PList [])) = Inr conf"
    "(if conf \<noteq> [] then dset ''configuration'' (PList conf) n else dpop ''configuration'' n) = n"
    using normal_manifestI(21,22) by (auto simp: pget_or_def dset_same_entry dget_None_dkeys dpop_absent)
  note pg = dgets [THEN dget_pget]
  have strict: "strict_fields TOP_LEVEL_FIELDS ''extension_manifest_unknown_field'' n = Inr ()"
    by (simp add: strict_fields_iff normal_manifestI(1))
  have source_fields: "pget [(''url'', PStr url), (''revision'', PStr revision)] ''url'' = PStr url"
    "pget [(''type'', PStr rt), (''entrypoint'', PStr e)] ''entrypoint'' = PStr e" by simp_all
  show ?thesis
    unfolding validate_extension_manifest_def Let_def
    by (simp only: ext_object_PDict rbind_simps normal_manifestI(2) pg case_prod_conv strict req require_simps(1) refl
        normal_manifestI(5,11,16,18,20,24,26,28,30,32) plain_bounded [OF normal_manifestI(4)] plain_bounded [OF normal_manifestI(7)]
        plain_bounded [OF normal_manifestI(9)] source_normal [OF normal_manifestI(12,13)] runtime_normal [OF normal_manifestI(15)]
        source_fields c with_metadata_same [OF normal_manifestI(33)] u)
qed

lemma rbind_pairE:
  assumes "rbind r (\<lambda>(a, b). f a b) = Inr y"
  obtains a b where "r = Inr (a, b)" "f a b = Inr y"
  using assms by (cases r) auto

lemma rbind_tripleE:
  assumes "rbind r (\<lambda>(a, b, c). f a b c) = Inr y"
  obtains a b c where "r = Inr (a, b, c)" "f a b c = Inr y"
  using assms by (cases r) auto

text \<open>What a validation returns: the parts it checked, put over what was given.\<close>

lemma validate_parts:
  assumes "validate_extension_manifest env m = Inr n"
  obtains given i source revision runtime rt t d schemas df ov conf health life bounds removal retain norm name version url e u1 u3 u4 u5 where
    "ext_object ''extension_manifest_invalid'' m = Inr given" "strict_fields TOP_LEVEL_FIELDS ''extension_manifest_unknown_field'' given = Inr u1"
    "require (pget given ''protocol_version'' = PStr MANIFEST_VERSION) (ExtensionContractError ''extension_manifest_version_unsupported'') = Inr u3"
    "bounded_text ''extension_id_invalid'' 64 (pget given ''extension_id'') = Inr i"
    "require (re_fullmatch EXTENSION_ID i) (ExtensionContractError ''extension_id_invalid'') = Inr u4"
    "check_source (pget given ''source'') = Inr (source, revision)"
    "check_runtime (pget given ''runtime'') = Inr (runtime, rt)" "check_capabilities env rt (pget given ''capabilities'') = Inr (t, d, schemas)"
    "check_permissions t d (pget given ''permissions'') = Inr (df, ov)" "check_configuration (pget_or given ''configuration'' (PList [])) = Inr conf"
    "check_health env (pget given ''health'') = Inr health" "check_lifecycle (pget given ''lifecycle'') = Inr life"
    "check_boundaries env (pget given ''data_boundaries'') = Inr bounds" "check_removal (pget given ''removal'') = Inr removal"
    "check_rollback (pget given ''rollback'') = Inr retain" "with_metadata env d given = Inr norm"
    "bounded_text ''extension_name_invalid'' 200 (pget given ''name'') = Inr name"
    "bounded_text ''extension_version_invalid'' 80 (pget given ''version'') = Inr version"
    "https_url env ''extension_source_url_invalid'' (pget source ''url'') = Inr url"
    "safe_relative_path ''extension_entrypoint_invalid'' (pget runtime ''entrypoint'') = Inr e"
    "(let normalized = dupdate [(''extension_id'', PStr i), (''name'', PStr name), (''version'', PStr version),
      (''source'', PDict [(''url'', PStr url), (''revision'', PStr revision)]),
      (''runtime'', PDict [(''type'', PStr rt), (''entrypoint'', PStr e)]),
      (''capabilities'', capabilities_value d schemas),
      (''permissions'', PDict [(''default'', PStr df), (''capabilities'', PDict ov)]),
      (''health'', PDict health), (''lifecycle'', PDict life), (''data_boundaries'', PDict bounds), (''removal'', PDict removal),
      (''rollback'', PDict [(''strategy'', PStr ''pinned_revision''), (''retain_revisions'', PInt retain)])] norm
     in Inr (if conf \<noteq> [] then dset ''configuration'' (PList conf) normalized else dpop ''configuration'' normalized)) = Inr n"
  using assms unfolding validate_extension_manifest_def
  by (elim rbind_tripleE rbind_pairE rbind_InrE) (rule that, assumption+, unfold Let_def, simp)

lemma check_source_plain: "check_source v = Inr (source, r) \<Longrightarrow> plain_text 64 r \<and> re_fullmatch REVISION r"
  unfolding check_source_def by (elim rbind_InrE) (auto dest: bounded_plain)

lemma check_runtime_type: "check_runtime v = Inr (r, t) \<Longrightarrow> t \<in> set [''web'', ''service'', ''mcp'', ''openapi'', ''skills'']"
  unfolding check_runtime_def Let_def by (elim rbind_InrE) auto

lemma capabilities_type:
  assumes "check_capabilities env rt v = Inr (t, d, schemas)"
  shows "str_or (pget d ''type'') = t"
proof -
  obtain c where v: "v = PDict c" using assms by (cases v) (auto simp: check_capabilities_def ext_object_def)
  have "check_descriptor env c = Inr (t, d)"
    using assms unfolding check_capabilities_def v ext_object_PDict rbind_simps
    by (elim rbind_tripleE rbind_pairE rbind_InrE) simp
  then obtain d0 where "pget c ''descriptor'' = PDict d0" "str_or (pget d0 ''type'') = t"
    "descriptor_fields env (''schemas'' \<in> set (dkeys c)) t d0 = Inr d"
    unfolding check_descriptor_def Let_def by (elim rbind_InrE) (rule that, auto)
  with fields_again(2) [of env _ t d0 d] show ?thesis by metis
qed

lemma normal_of_validated:
  assumes "validate_extension_manifest env m = Inr n" "stable_manifest n"
  shows "normal_manifest env n"
  using assms(1)
proof (rule validate_parts)
  fix given i source revision runtime rt t d schemas df ov conf health life bounds removal retain norm name version url e u1 u3 u4
  assume p: "strict_fields TOP_LEVEL_FIELDS ''extension_manifest_unknown_field'' given = Inr u1"
    "require (pget given ''protocol_version'' = PStr MANIFEST_VERSION) (ExtensionContractError ''extension_manifest_version_unsupported'') = Inr u3"
    "bounded_text ''extension_id_invalid'' 64 (pget given ''extension_id'') = Inr i"
    "require (re_fullmatch EXTENSION_ID i) (ExtensionContractError ''extension_id_invalid'') = Inr u4"
    "check_source (pget given ''source'') = Inr (source, revision)"
    "check_runtime (pget given ''runtime'') = Inr (runtime, rt)" "check_capabilities env rt (pget given ''capabilities'') = Inr (t, d, schemas)"
    "check_permissions t d (pget given ''permissions'') = Inr (df, ov)" "check_configuration (pget_or given ''configuration'' (PList [])) = Inr conf"
    "check_health env (pget given ''health'') = Inr health" "check_lifecycle (pget given ''lifecycle'') = Inr life"
    "check_boundaries env (pget given ''data_boundaries'') = Inr bounds" "check_removal (pget given ''removal'') = Inr removal"
    "check_rollback (pget given ''rollback'') = Inr retain" "with_metadata env d given = Inr norm"
    "bounded_text ''extension_name_invalid'' 200 (pget given ''name'') = Inr name"
    "bounded_text ''extension_version_invalid'' 80 (pget given ''version'') = Inr version"
    "https_url env ''extension_source_url_invalid'' (pget source ''url'') = Inr url"
    "safe_relative_path ''extension_entrypoint_invalid'' (pget runtime ''entrypoint'') = Inr e"
  define kvs where "kvs = [(''extension_id'', PStr i), (''name'', PStr name), (''version'', PStr version),
      (''source'', PDict [(''url'', PStr url), (''revision'', PStr revision)]),
      (''runtime'', PDict [(''type'', PStr rt), (''entrypoint'', PStr e)]),
      (''capabilities'', capabilities_value d schemas),
      (''permissions'', PDict [(''default'', PStr df), (''capabilities'', PDict ov)]),
      (''health'', PDict health), (''lifecycle'', PDict life), (''data_boundaries'', PDict bounds), (''removal'', PDict removal),
      (''rollback'', PDict [(''strategy'', PStr ''pinned_revision''), (''retain_revisions'', PInt retain)])]"
  assume "(let normalized = dupdate [(''extension_id'', PStr i), (''name'', PStr name), (''version'', PStr version),
      (''source'', PDict [(''url'', PStr url), (''revision'', PStr revision)]),
      (''runtime'', PDict [(''type'', PStr rt), (''entrypoint'', PStr e)]),
      (''capabilities'', capabilities_value d schemas),
      (''permissions'', PDict [(''default'', PStr df), (''capabilities'', PDict ov)]),
      (''health'', PDict health), (''lifecycle'', PDict life), (''data_boundaries'', PDict bounds), (''removal'', PDict removal),
      (''rollback'', PDict [(''strategy'', PStr ''pinned_revision''), (''retain_revisions'', PInt retain)])] norm
     in Inr (if conf \<noteq> [] then dset ''configuration'' (PList conf) normalized else dpop ''configuration'' normalized)) = Inr n"
  then have n: "n = (if conf \<noteq> [] then dset ''configuration'' (PList conf) (dupdate kvs norm) else dpop ''configuration'' (dupdate kvs norm))"
    unfolding kvs_def by (simp add: Let_def)
  have wf: "wf_dict kvs" by (simp add: kvs_def)
  have g: "dget n k = (if k = ''configuration'' then if conf \<noteq> [] then Some (PList conf) else None
      else case dget kvs k of Some v \<Rightarrow> Some v | None \<Rightarrow> dget norm k)" for k
    by (simp add: n dget_dupdate [OF wf])
  have norm: "dget norm k = dget given k" if "k \<noteq> ''metadata''" for k
    using p(15) that by (auto simp: with_metadata_def rbind_Inr_iff split: option.splits)
  have meta: "case dget norm ''metadata'' of None \<Rightarrow> True | Some v \<Rightarrow> \<exists>m. v = PDict m \<and> check_metadata env d v = Inr m"
    using p(15) metadata_again [of env d] by (fastforce simp: with_metadata_def rbind_Inr_iff split: option.splits)
  have keys: "fst ` set norm \<subseteq> set TOP_LEVEL_FIELDS"
  proof -
    have "fst ` set norm \<subseteq> insert ''metadata'' (fst ` set given)"
    proof (cases "dget given ''metadata''")
      case None
      with p(15) show ?thesis by (simp add: with_metadata_def subset_insertI)
    next
      case (Some v)
      with p(15) obtain m where "norm = dset ''metadata'' (PDict m) given" by (auto simp: with_metadata_def rbind_Inr_iff)
      then show ?thesis by simp
    qed
    moreover have "''metadata'' \<in> set TOP_LEVEL_FIELDS" by (simp add: TOP_LEVEL_FIELDS_def)
    ultimately show ?thesis using p(1) unfolding strict_fields_iff by (meson insert_subset order_trans)
  qed
  have "fst ` set (dupdate kvs norm) \<subseteq> set TOP_LEVEL_FIELDS"
  proof -
    have "fst ` set kvs \<subseteq> set TOP_LEVEL_FIELDS" by (simp add: kvs_def TOP_LEVEL_FIELDS_def)
    with keys show ?thesis unfolding dkeys_dupdate by blast
  qed
  moreover have "''configuration'' \<in> set TOP_LEVEL_FIELDS" by (simp add: TOP_LEVEL_FIELDS_def)
  ultimately have k: "fst ` set n \<subseteq> set TOP_LEVEL_FIELDS" unfolding n by (cases "conf = []") (simp_all, blast)
  have dk: "dget kvs ''protocol_version'' = None" "dget kvs ''metadata'' = None" by (simp_all add: kvs_def)
  have pv: "pget n ''protocol_version'' = PStr MANIFEST_VERSION"
    using p(2) g [of "''protocol_version''"] norm [of "''protocol_version''"] dk(1) by (simp add: pget_def)
  have mt: "case dget n ''metadata'' of None \<Rightarrow> True | Some v \<Rightarrow> \<exists>m. v = PDict m \<and> check_metadata env d v = Inr m"
    using meta g [of "''metadata''"] dk(2) by simp
  have dg: "dget n ''extension_id'' = Some (PStr i)" "dget n ''name'' = Some (PStr name)" "dget n ''version'' = Some (PStr version)"
    "dget n ''source'' = Some (PDict [(''url'', PStr url), (''revision'', PStr revision)])"
    "dget n ''runtime'' = Some (PDict [(''type'', PStr rt), (''entrypoint'', PStr e)])"
    "dget n ''capabilities'' = Some (capabilities_value d schemas)"
    "dget n ''permissions'' = Some (PDict [(''default'', PStr df), (''capabilities'', PDict ov)])"
    "dget n ''health'' = Some (PDict health)" "dget n ''lifecycle'' = Some (PDict life)" "dget n ''data_boundaries'' = Some (PDict bounds)"
    "dget n ''removal'' = Some (PDict removal)"
    "dget n ''rollback'' = Some (PDict [(''strategy'', PStr ''pinned_revision''), (''retain_revisions'', PInt retain)])"
    by (simp_all add: g kvs_def)
  have tidy: "strip e = e" "list_all (\<lambda>p. strip p = p) (texts_of (pget bounds ''read'') @ texts_of (pget bounds ''write''))"
    "list_all (\<lambda>p. strip p = p) (texts_of (pget removal ''remove_paths'') @ texts_of (pget removal ''preserve_paths''))"
    using assms(2) dg [THEN dget_pget] by (simp_all add: stable_manifest_def manifest_paths_def Let_def)
  have ne: "t = ''inline'' \<Longrightarrow> schemas \<noteq> []"
    using assms(2) dg(6) [THEN dget_pget] capabilities_type [OF p(7)] by (auto simp: stable_manifest_def inline_empty_def Let_def capabilities_value_def)
  show "normal_manifest env n"
    by (rule normal_manifestI [OF k pv dg(1) bounded_plain [OF p(3)] p(4) [unfolded require_simps(3)] dg(2) bounded_plain [OF p(16)]
          dg(3) bounded_plain [OF p(17)] dg(4) https_url_again [OF p(18)] _ _ dg(5) check_runtime_type [OF p(6)] safe_path_again [OF p(19) tidy(1)]
          dg(6) capabilities_again [OF p(7) ne, folded capabilities_value_def] dg(7) permissions_again [OF p(8)] _ configuration_again [OF p(9)]
          dg(8) health_again [OF p(10)] dg(9) lifecycle_again [OF p(11)] dg(10) boundaries_again [OF p(12) tidy(2)]
          dg(11) removal_again [OF p(13) tidy(3)] dg(12) rollback_again [OF p(14)] mt])
      (use check_source_plain [OF p(5)] g [of "''configuration''"] in simp_all)
qed

text \<open>The revision that a registration pins is put into the normal form.\<close>

lemma normal_pinned:
  assumes "normal_manifest env n" "plain_text 64 r" "re_fullmatch REVISION r" "pget n ''source'' = PDict s"
  shows "normal_manifest env (dset ''source'' (PDict (dset ''revision'' (PStr r) s)) n)"
  using assms(1)
proof cases
  case (normal_manifestI i name version url revision rt e d schemas t df ov conf health life bounds removal retain)
  from dget_pget [OF normal_manifestI(10)] assms(4) have s: "dset ''revision'' (PStr r) s = [(''url'', PStr url), (''revision'', PStr r)]"
    by auto
  have source_top: "''source'' \<in> set TOP_LEVEL_FIELDS" by (simp add: TOP_LEVEL_FIELDS_def)
  let ?n = "dset ''source'' (PDict [(''url'', PStr url), (''revision'', PStr r)]) n"
  have "normal_manifest env ?n"
    by (rule normal_manifest.normal_manifestI [where n = ?n and i = i and name = name and version = version and url = url and revision = r
          and rt = rt and e = e and d = d and schemas = schemas and t = t and df = df and ov = ov and conf = conf and health = health
          and life = life and bounds = bounds and removal = removal and retain = retain])
      (simp_all add: normal_manifestI assms(2,3) source_top normal_manifestI(15) [simplified])
  then show ?thesis unfolding s .
qed

end
