(* ===== verification/ExtRegistry.thy ===== *)
theory ExtRegistry
  imports ExtManifest "HOL-Library.Multiset"
begin

text \<open>
  The catalog of an extension is reconciled with its manifest (\<open>src/extension_registry.py\<close>), its
  capabilities are listed in an inventory that is bound to the manifest by digests
  (\<open>src/extension_capability_inventory.py\<close>), the registry file keeps the record, and a turn
  mounts capabilities from it (\<open>src/extension_agent_mount.py\<close>). The file is read with the same
  strict validation as a new manifest; the lemmas show that a record it builds passes it
  unchanged (\<open>sound_record\<close>). SHA-256 is an argument.
\<close>

section \<open>Reconciling a manifest with its catalog\<close>

record capability =
  cap_name :: string
  cap_schema :: pyval
  cap_mode :: string

record skill =
  sk_id :: string
  sk_path :: string
  sk_scope :: string
  sk_platforms :: "string list"
  sk_toolsets :: "string list"
  sk_mode :: string

definition stored_name :: "pyval \<Rightarrow> string" where
  "stored_name v = str_or (pget (as_mapping (pget (as_mapping v) ''function'')) ''name'')"

text \<open>The fields of a skill besides its id, and the skill with a mode.\<close>

definition skill_fields :: "string \<Rightarrow> string \<Rightarrow> pyval dict \<Rightarrow> skill result" where
  "skill_fields i mode d =
     rbind (safe_relative_path ''extension_skill_source_path_invalid'' (pget d ''source_path'')) (\<lambda>source_path.
     rbind (bounded_text ''extension_skill_owner_scope_invalid'' 200 (pget d ''owner_scope'')) (\<lambda>owner_scope.
     rbind (string_list ''extension_skill_platforms_invalid'' False 32 (pget d ''platforms'')) (\<lambda>platforms.
     rbind (string_list ''extension_skill_toolsets_invalid'' False 32 (pget d ''requires_toolsets'')) (\<lambda>toolsets.
       Inr \<lparr>sk_id = i, sk_path = source_path, sk_scope = owner_scope, sk_platforms = platforms, sk_toolsets = toolsets, sk_mode = mode\<rparr>))))"

fun catalog_skills :: "(string \<Rightarrow> string) \<Rightarrow> string list \<Rightarrow> pyval list \<Rightarrow> skill list result" where
  "catalog_skills mode seen [] = Inr []"
| "catalog_skills mode seen (raw # rest) =
     rbind (ext_object ''extension_skill_catalog_invalid'' raw) (\<lambda>d.
     rbind (strict_fields [''id'', ''source_path'', ''owner_scope'', ''platforms'', ''requires_toolsets''] ''extension_skill_catalog_unknown_field'' d) (\<lambda>_.
     rbind (bounded_text ''extension_skill_id_invalid'' 64 (pget d ''id'')) (\<lambda>i.
     rbind (require (re_fullmatch SKILL_ID i \<and> i \<notin> set seen) (ExtensionContractError ''extension_skill_id_invalid'')) (\<lambda>_.
     rbind (skill_fields i (mode i) d) (\<lambda>s.
     rbind (catalog_skills mode (i # seen) rest) (\<lambda>ss. Inr (s # ss)))))))"

text \<open>A catalog that was resolved for the manifest, at the revision that is installed.\<close>

definition check_catalog :: "string list \<Rightarrow> pyval dict \<Rightarrow> string \<Rightarrow> pyval \<Rightarrow> pyval dict result" where
  "check_catalog allowed normalized source_revision resolved =
     rbind (ext_object ''extension_resolved_catalog_required'' resolved) (\<lambda>catalog.
     rbind (strict_fields allowed ''extension_catalog_unknown_field'' catalog) (\<lambda>_.
     rbind (require (pget catalog ''protocol_version'' = PStr MANIFEST_VERSION) (ExtensionContractError ''extension_catalog_version_unsupported'')) (\<lambda>_.
     rbind (require (pget catalog ''extension_id'' = pget normalized ''extension_id'') (ExtensionContractError ''extension_catalog_id_mismatch'')) (\<lambda>_.
     rbind (require (pget catalog ''source_revision'' = PStr source_revision) (ExtensionContractError ''extension_catalog_revision_mismatch'')) (\<lambda>_.
       Inr catalog)))))"

record reconciled =
  rc_manifest :: "pyval dict"
  rc_version :: string
  rc_caps :: "capability list"
  rc_skills :: "skill list"

definition descriptor_of :: "pyval dict \<Rightarrow> pyval dict" where
  "descriptor_of n = as_mapping (pget (as_mapping (pget n ''capabilities'')) ''descriptor'')"

definition manifest_id :: "pyval dict \<Rightarrow> string" where
  "manifest_id n = str_or (pget n ''extension_id'')"

definition overrides_of :: "pyval dict \<Rightarrow> pyval dict" where
  "overrides_of n = as_mapping (pget (as_mapping (pget n ''permissions'')) ''capabilities'')"

text \<open>\<open>overrides.get(name, default)\<close>.\<close>

definition mode_in :: "pyval dict \<Rightarrow> string \<Rightarrow> string" where
  "mode_in n name = str_or (pget_or (overrides_of n) name (pget (as_mapping (pget n ''permissions'')) ''default''))"

text \<open>The tools, the skills and the version of the catalog, by the type of the descriptor.\<close>

definition catalog_contents :: "pyval dict \<Rightarrow> string \<Rightarrow> pyval \<Rightarrow> (pyval list \<times> skill list \<times> string) result" where
  "catalog_contents n source_revision resolved =
     (if pget (descriptor_of n) ''type'' = PStr ''inline'' then
        (case dget (as_mapping (pget n ''capabilities'')) ''schemas'' of
           Some (PList tools) \<Rightarrow> Inr (tools, [], str_or (pget n ''version''))
         | _ \<Rightarrow> Inl (KeyError ''schemas''))
      else if pget (descriptor_of n) ''type'' = PStr ''skill_bundle'' then
        rbind (check_catalog [''protocol_version'', ''extension_id'', ''version'', ''source_revision'', ''skills''] n source_revision resolved) (\<lambda>catalog.
        rbind (case pget catalog ''skills'' of
                 PList xs \<Rightarrow> if xs = [] \<or> 64 < length xs then contract ''extension_skill_catalog_invalid'' else catalog_skills (mode_in n) [] xs
               | _ \<Rightarrow> contract ''extension_skill_catalog_invalid'') (\<lambda>skills.
        rbind (require (set (map sk_id skills) = set (include_of (descriptor_of n))) (ExtensionContractError ''extension_skill_catalog_mismatch'')) (\<lambda>_.
        rbind (bounded_text ''extension_catalog_release_invalid'' 80 (pget catalog ''version'')) (\<lambda>version.
          Inr ([], skills, version)))))
      else
        rbind (check_catalog [''protocol_version'', ''extension_id'', ''version'', ''source_revision'', ''tools''] n source_revision resolved) (\<lambda>catalog.
        rbind (normalize_tools (pget catalog ''tools'')) (\<lambda>tools.
        rbind (bounded_text ''extension_catalog_release_invalid'' 80 (pget catalog ''version'')) (\<lambda>version.
          Inr (map tool_value tools, [], version)))))"

text \<open>The manifest with the revision that is installed in the place of the declared one.\<close>

definition pinned :: "string \<Rightarrow> pyval dict \<Rightarrow> pyval dict" where
  "pinned source_revision n = dset ''source'' (PDict (dset ''revision'' (PStr source_revision) (as_mapping (pget n ''source'')))) n"

definition reconcile_extension_catalog :: "ext_env \<Rightarrow> pyval \<Rightarrow> pyval \<Rightarrow> string \<Rightarrow> bool \<Rightarrow> reconciled result" where
  "reconcile_extension_catalog env manifest resolved source_revision health_available =
     rbind (validate_extension_manifest env manifest) (\<lambda>normalized.
     rbind (require health_available (ExtensionContractError ''extension_health_unavailable'')) (\<lambda>_.
     rbind (require (re_fullmatch IMMUTABLE_REVISION source_revision) (ExtensionContractError ''extension_source_revision_invalid'')) (\<lambda>_.
     rbind (require (pget (as_mapping (pget normalized ''source'')) ''revision'' \<in> {PStr ''self'', PStr source_revision})
              (ExtensionContractError ''extension_source_revision_mismatch'')) (\<lambda>_.
       let n = pinned source_revision normalized
       in rbind (catalog_contents n source_revision resolved) (\<lambda>(tools, skills, version).
            let names = (if pget (descriptor_of n) ''type'' = PStr ''skill_bundle'' then map sk_id skills else map stored_name tools)
            in rbind (require (set (dkeys (overrides_of n)) \<subseteq> set names) (ExtensionContractError ''extension_permission_capability_unknown'')) (\<lambda>_.
                 Inr \<lparr>rc_manifest = n, rc_version = version,
                      rc_caps = map (\<lambda>t. \<lparr>cap_name = stored_name t, cap_schema = t, cap_mode = mode_in n (stored_name t)\<rparr>) tools,
                      rc_skills = skills\<rparr>))))))"

section \<open>The capability inventory\<close>

definition INVENTORY_VERSION :: string where "INVENTORY_VERSION = ''jos-extension-capability-inventory.v1''"

definition INVENTORY_FIELDS :: "string list" where
  "INVENTORY_FIELDS = [''inventory_version'', ''extension_id'', ''extension_version'', ''source_revision'', ''manifest_digest'',
     ''descriptor'', ''capabilities'', ''inventory_digest'']"

definition DIGEST :: regex where
  "DIGEST = rseq [RBegin, rlit ''sha256:'', RRep 64 (Some 64) (RSet hex_char), REnd]"

definition digest_text :: "string \<Rightarrow> pyval \<Rightarrow> string result" where
  "digest_text err v =
     rbind (bounded_text err 80 v) (\<lambda>s. rbind (require (re_fullmatch DIGEST s) (ExtensionContractError err)) (\<lambda>_. Inr s))"

definition canonical_json :: "pyval \<Rightarrow> string" where
  "canonical_json v = dumps False '','' '':'' (sort_keys_deep v)"

definition manifest_digest :: "ext_env \<Rightarrow> pyval dict \<Rightarrow> string" where
  "manifest_digest env n = ''sha256:'' @ ee_sha256 env (canonical_json (PDict n))"

definition inventory_digest :: "ext_env \<Rightarrow> pyval dict \<Rightarrow> string" where
  "inventory_digest env inventory = ''sha256:'' @ ee_sha256 env (canonical_json (PDict (filter (\<lambda>(k, v). k \<noteq> ''inventory_digest'') inventory)))"

definition tool_item :: "string \<Rightarrow> string \<Rightarrow> tool \<Rightarrow> pyval dict" where
  "tool_item descriptor mode t =
     [(''name'', PStr (tool_name t)), (''kind'', PStr ''tool''), (''permission_mode'', PStr mode), (''descriptor'', PStr descriptor),
      (''schema'', tool_value t)]"

definition skill_item :: "skill \<Rightarrow> pyval dict" where
  "skill_item s =
     [(''name'', PStr (sk_id s)), (''kind'', PStr ''skill''), (''permission_mode'', PStr (sk_mode s)), (''descriptor'', PStr ''skill_bundle''),
      (''skill'', PDict [(''source_path'', PStr (sk_path s)), (''owner_scope'', PStr (sk_scope s)),
                         (''platforms'', texts (sk_platforms s)), (''requires_toolsets'', texts (sk_toolsets s))])]"

definition build_tool :: "string \<Rightarrow> capability \<Rightarrow> pyval dict result" where
  "build_tool descriptor_type c =
     rbind (normalize_tool_schema (cap_schema c)) (\<lambda>t.
     rbind (require (cap_mode c \<in> set PERMISSION_MODES) (ExtensionContractError ''extension_inventory_permission_invalid'')) (\<lambda>_.
       Inr (tool_item descriptor_type (cap_mode c) t)))"

definition skill_value :: "skill \<Rightarrow> pyval dict" where
  "skill_value s =
     [(''id'', PStr (sk_id s)), (''source_path'', PStr (sk_path s)), (''owner_scope'', PStr (sk_scope s)),
      (''platforms'', texts (sk_platforms s)), (''requires_toolsets'', texts (sk_toolsets s)), (''permission_mode'', PStr (sk_mode s))]"

definition build_skill :: "skill \<Rightarrow> pyval dict result" where
  "build_skill s =
     rbind (bounded_text ''extension_skill_id_invalid'' 64 (PStr (sk_id s))) (\<lambda>i.
     rbind (require (re_fullmatch SKILL_ID i \<and> sk_mode s \<in> set PERMISSION_MODES) (ExtensionContractError ''extension_inventory_skill_invalid'')) (\<lambda>_.
     rbind (skill_fields i (sk_mode s) (skill_value s)) (\<lambda>s. Inr (skill_item s))))"

definition item_name :: "pyval dict \<Rightarrow> string" where
  "item_name d = str_or (pget d ''name'')"

definition build_capability_inventory ::
    "ext_env \<Rightarrow> pyval dict \<Rightarrow> capability list \<Rightarrow> skill list \<Rightarrow> string \<Rightarrow> pyval dict result" where
  "build_capability_inventory env manifest caps skills source_revision =
     rbind (bounded_text ''extension_id_invalid'' 64 (pget manifest ''extension_id'')) (\<lambda>extension_id.
     rbind (require (re_fullmatch EXTENSION_ID extension_id) (ExtensionContractError ''extension_id_invalid'')) (\<lambda>_.
     rbind (bounded_text ''extension_source_revision_invalid'' 64 (PStr source_revision)) (\<lambda>revision.
     rbind (require (re_fullmatch IMMUTABLE_REVISION revision) (ExtensionContractError ''extension_source_revision_invalid'')) (\<lambda>_.
     rbind (ext_object ''extension_inventory_source_invalid'' (pget manifest ''capabilities'')) (\<lambda>block.
     rbind (ext_object ''extension_inventory_source_invalid'' (pget block ''descriptor'')) (\<lambda>descriptor.
       let descriptor_type = str_or (pget descriptor ''type'')
       in rbind (require (descriptor_type \<in> set DESCRIPTOR_TYPES) (ExtensionContractError ''extension_descriptor_type_invalid'')) (\<lambda>_.
          rbind (rmap (build_tool descriptor_type) caps) (\<lambda>tools.
          rbind (rmap build_skill skills) (\<lambda>skill_items.
            let items = tools @ skill_items
            in rbind (require (distinct (map item_name items)) (ExtensionContractError ''extension_inventory_capability_duplicate'')) (\<lambda>_.
               rbind (bounded_text ''extension_version_invalid'' 80 (pget manifest ''version'')) (\<lambda>version.
                 let envelope = [(''inventory_version'', PStr INVENTORY_VERSION), (''extension_id'', PStr extension_id),
                        (''extension_version'', PStr version), (''source_revision'', PStr revision),
                        (''manifest_digest'', PStr (manifest_digest env manifest)), (''descriptor'', PStr descriptor_type),
                        (''capabilities'', PList (map PDict (sort_key item_name items)))]
                 in Inr (envelope @ [(''inventory_digest'', PStr (inventory_digest env envelope))]))))))))))))"

definition CAPABILITY_FIELDS :: "string list" where
  "CAPABILITY_FIELDS = [''name'', ''kind'', ''permission_mode'', ''descriptor'', ''schema'', ''skill'']"

definition SKILL_FIELDS :: "string list" where
  "SKILL_FIELDS = [''source_path'', ''owner_scope'', ''platforms'', ''requires_toolsets'']"

text \<open>Membership in the permission modes: a value that a set cannot hold raises.\<close>

definition check_mode :: "string \<Rightarrow> pyval \<Rightarrow> string result" where
  "check_mode err v =
     (if \<not> hashable v then Inl (TypeError ''unhashable type'')
      else case v of PStr s \<Rightarrow> if s \<in> set PERMISSION_MODES then Inr s else contract err | _ \<Rightarrow> contract err)"

definition inventory_payload :: "string \<Rightarrow> string \<Rightarrow> string \<Rightarrow> string \<Rightarrow> pyval dict \<Rightarrow> pyval dict result" where
  "inventory_payload name kind mode descriptor item =
     (if kind = ''skill'' then
        rbind (require (re_fullmatch SKILL_ID name \<and> descriptor = ''skill_bundle'') (ExtensionContractError ''extension_inventory_skill_invalid'')) (\<lambda>_.
        rbind (ext_object ''extension_inventory_skill_invalid'' (pget item ''skill'')) (\<lambda>skill.
        rbind (strict_fields SKILL_FIELDS ''extension_inventory_skill_unknown_field'' skill) (\<lambda>_.
        rbind (require (list_all (\<lambda>k. k \<in> set (dkeys skill)) SKILL_FIELDS \<and> ''schema'' \<notin> set (dkeys item))
                 (ExtensionContractError ''extension_inventory_skill_invalid'')) (\<lambda>_.
        rbind (skill_fields name mode skill) (\<lambda>s. Inr (drop 4 (skill_item s)))))))
      else if kind = ''tool'' then
        rbind (require (''schema'' \<in> set (dkeys item) \<and> ''skill'' \<notin> set (dkeys item)) (ExtensionContractError ''extension_inventory_tool_invalid'')) (\<lambda>_.
        rbind (normalize_tool_schema (pget item ''schema'')) (\<lambda>t.
        rbind (require (tool_name t = name) (ExtensionContractError ''extension_capability_name_mismatch'')) (\<lambda>_.
          Inr [(''schema'', tool_value t)])))
      else rbind (require (''schema'' \<notin> set (dkeys item) \<and> ''skill'' \<notin> set (dkeys item)) (ExtensionContractError ''extension_inventory_endpoint_invalid'')) (\<lambda>_.
        Inr []))"

definition validate_inventory_capability :: "pyval \<Rightarrow> pyval dict result" where
  "validate_inventory_capability raw =
     rbind (ext_object ''extension_inventory_capability_invalid'' raw) (\<lambda>item.
     rbind (strict_fields CAPABILITY_FIELDS ''extension_inventory_capability_unknown_field'' item) (\<lambda>_.
     rbind (bounded_text ''extension_capability_name_invalid'' 128 (pget item ''name'')) (\<lambda>name.
     rbind (require (re_fullmatch TOOL_NAME name) (ExtensionContractError ''extension_capability_name_invalid'')) (\<lambda>_.
       let kind = str_or (pget item ''kind'')
       in rbind (require (kind \<in> set [''tool'', ''skill'', ''endpoint'']) (ExtensionContractError ''extension_inventory_kind_invalid'')) (\<lambda>_.
          rbind (check_mode ''extension_inventory_permission_invalid'' (pget item ''permission_mode'')) (\<lambda>mode.
            let descriptor = str_or (pget item ''descriptor'')
            in rbind (require (descriptor \<in> set DESCRIPTOR_TYPES) (ExtensionContractError ''extension_inventory_descriptor_invalid'')) (\<lambda>_.
               rbind (inventory_payload name kind mode descriptor item) (\<lambda>payload.
                 Inr ([(''name'', PStr name), (''kind'', PStr kind), (''permission_mode'', PStr mode), (''descriptor'', PStr descriptor)] @ payload))))))))) "

definition validate_capability_inventory :: "ext_env \<Rightarrow> pyval \<Rightarrow> pyval dict result" where
  "validate_capability_inventory env v =
     rbind (ext_object ''extension_inventory_invalid'' v) (\<lambda>inventory.
     rbind (strict_fields INVENTORY_FIELDS ''extension_inventory_unknown_field'' inventory) (\<lambda>_.
     rbind (require (list_all (\<lambda>k. k \<in> set (dkeys inventory)) INVENTORY_FIELDS) (ExtensionContractError ''extension_inventory_required_field_missing'')) (\<lambda>_.
     rbind (require (pget inventory ''inventory_version'' = PStr INVENTORY_VERSION) (ExtensionContractError ''extension_inventory_version_unsupported'')) (\<lambda>_.
     rbind (bounded_text ''extension_id_invalid'' 64 (pget inventory ''extension_id'')) (\<lambda>extension_id.
     rbind (require (re_fullmatch EXTENSION_ID extension_id) (ExtensionContractError ''extension_id_invalid'')) (\<lambda>_.
     rbind (bounded_text ''extension_source_revision_invalid'' 64 (pget inventory ''source_revision'')) (\<lambda>revision.
     rbind (require (re_fullmatch IMMUTABLE_REVISION revision) (ExtensionContractError ''extension_source_revision_invalid'')) (\<lambda>_.
       let descriptor = str_or (pget inventory ''descriptor'')
       in rbind (require (descriptor \<in> set DESCRIPTOR_TYPES) (ExtensionContractError ''extension_inventory_descriptor_invalid'')) (\<lambda>_.
          rbind (case pget inventory ''capabilities'' of
                   PList xs \<Rightarrow> if 256 < length xs then contract ''extension_inventory_capabilities_invalid'' else rmap validate_inventory_capability xs
                 | _ \<Rightarrow> contract ''extension_inventory_capabilities_invalid'') (\<lambda>items.
          rbind (require (distinct (map item_name items)) (ExtensionContractError ''extension_inventory_capability_duplicate'')) (\<lambda>_.
          rbind (bounded_text ''extension_version_invalid'' 80 (pget inventory ''extension_version'')) (\<lambda>version.
          rbind (digest_text ''extension_inventory_manifest_digest_invalid'' (pget inventory ''manifest_digest'')) (\<lambda>md.
          rbind (digest_text ''extension_inventory_digest_invalid'' (pget inventory ''inventory_digest'')) (\<lambda>declared.
            let normalized = [(''inventory_version'', PStr INVENTORY_VERSION), (''extension_id'', PStr extension_id),
                   (''extension_version'', PStr version), (''source_revision'', PStr revision), (''manifest_digest'', PStr md),
                   (''descriptor'', PStr descriptor), (''capabilities'', PList (map PDict items))]
            in if declared \<noteq> inventory_digest env normalized then contract ''extension_inventory_digest_mismatch''
               else Inr (normalized @ [(''inventory_digest'', PStr declared)])))))))))))))))"

definition inventory_is_current :: "ext_env \<Rightarrow> pyval dict \<Rightarrow> pyval \<Rightarrow> string \<Rightarrow> bool result" where
  "inventory_is_current env inventory source_revision digest =
     (case validate_capability_inventory env (PDict inventory) of
        Inr normalized \<Rightarrow> Inr (pget normalized ''source_revision'' = source_revision \<and> pget normalized ''manifest_digest'' = PStr digest)
      | Inl (ExtensionContractError _) \<Rightarrow> Inr False
      | Inl e \<Rightarrow> Inl e)"

text \<open>What of an inventory may be shown: names and metadata, never schemas.\<close>

definition advisory_item :: "pyval dict \<Rightarrow> pyval dict" where
  "advisory_item d = map (\<lambda>k. (k, pget d k)) [''name'', ''kind'', ''permission_mode'', ''descriptor'']"

definition inventory_items :: "pyval dict \<Rightarrow> pyval dict list" where
  "inventory_items inventory = (case pget inventory ''capabilities'' of PList xs \<Rightarrow> map as_mapping xs | _ \<Rightarrow> [])"

definition advisory_capability_items :: "ext_env \<Rightarrow> pyval dict \<Rightarrow> pyval dict list result" where
  "advisory_capability_items env inventory =
     rbind (validate_capability_inventory env (PDict inventory)) (\<lambda>normalized. Inr (map advisory_item (inventory_items normalized)))"

definition find_item :: "string \<Rightarrow> pyval dict \<Rightarrow> pyval dict option" where
  "find_item name inventory = find (\<lambda>d. item_name d = name) (inventory_items inventory)"

definition resolve_mount_schemas :: "ext_env \<Rightarrow> pyval dict \<Rightarrow> string list \<Rightarrow> pyval list result" where
  "resolve_mount_schemas env inventory names =
     rbind (validate_capability_inventory env (PDict inventory)) (\<lambda>normalized.
       let requested = map strip names
       in rbind (require (requested \<noteq> [] \<and> length requested \<le> 32 \<and> distinct requested) (ExtensionContractError ''extension_capability_mount_invalid'')) (\<lambda>_.
          rmap (\<lambda>name.
             case find_item name normalized of
               None \<Rightarrow> contract ''extension_capability_unknown''
             | Some d \<Rightarrow> if pget d ''kind'' \<noteq> PStr ''tool'' \<or> ''schema'' \<notin> set (dkeys d) then contract ''extension_capability_not_mountable''
                          else Inr (pget d ''schema'')) requested))"

section \<open>The registry file\<close>

definition REGISTRY_VERSION :: string where "REGISTRY_VERSION = ''jos-extension-registry.v1''"

record ext_record =
  er_enabled :: bool
  er_manifest :: "pyval dict"
  er_version :: string
  er_caps :: "capability list"
  er_skills :: "skill list"
  er_inventory :: "pyval dict option"

definition capability_value :: "capability \<Rightarrow> pyval" where
  "capability_value c = PDict [(''name'', PStr (cap_name c)), (''schema'', cap_schema c), (''permission_mode'', PStr (cap_mode c))]"

definition record_value :: "ext_record \<Rightarrow> pyval" where
  "record_value r =
     PDict [(''enabled'', PBool (er_enabled r)), (''manifest'', PDict (er_manifest r)), (''catalog_version'', PStr (er_version r)),
            (''effective_capabilities'', PList (map capability_value (er_caps r))),
            (''admitted_skills'', PList (map (\<lambda>s. PDict (skill_value s)) (er_skills r))),
            (''capability_inventory'', case er_inventory r of None \<Rightarrow> PNone | Some inventory \<Rightarrow> PDict inventory)]"

definition write_registry :: "ext_record dict \<Rightarrow> registry_file" where
  "write_registry rs = Holds (PDict [(''schema_version'', PStr REGISTRY_VERSION), (''extensions'', PDict (dmap record_value rs))])"

definition item_of :: "pyval dict \<Rightarrow> string \<Rightarrow> pyval result" where
  "item_of d k = (case dget d k of None \<Rightarrow> Inl (KeyError k) | Some v \<Rightarrow> Inr v)"

text \<open>
  A value that is not a dictionary where one is read: whatever it is, one of the errors that drop
  the record is raised.
\<close>

definition stored_object :: "pyval \<Rightarrow> pyval dict result" where
  "stored_object v = (case v of PDict d \<Rightarrow> Inr d | _ \<Rightarrow> Inl (TypeError ''not a dictionary''))"

text \<open>What \<open>for x in v\<close> visits.\<close>

definition visited :: "pyval \<Rightarrow> pyval list result" where
  "visited v =
     (case v of PList xs \<Rightarrow> Inr xs | PTuple xs \<Rightarrow> Inr xs | PStr s \<Rightarrow> Inr (map (\<lambda>c. PStr [c]) s) | PDict d \<Rightarrow> Inr (map PStr (dkeys d))
      | _ \<Rightarrow> Inl (TypeError ''not iterable''))"

fun read_capabilities :: "string list \<Rightarrow> pyval list \<Rightarrow> capability list result" where
  "read_capabilities seen [] = Inr []"
| "read_capabilities seen (v # rest) =
     rbind (stored_object v) (\<lambda>raw.
     rbind (strict_fields [''name'', ''schema'', ''permission_mode''] ''extension_registry_capability_unknown_field'' raw) (\<lambda>_.
     rbind (item_of raw ''schema'') (\<lambda>schema.
     rbind (normalize_tool_schema schema) (\<lambda>t.
     rbind (require (pget raw ''name'' = PStr (tool_name t) \<and> tool_name t \<notin> set seen) (ExtensionContractError ''extension_registry_capability_invalid'')) (\<lambda>_.
     rbind (check_mode ''extension_registry_capability_invalid'' (pget raw ''permission_mode'')) (\<lambda>mode.
     rbind (read_capabilities (tool_name t # seen) rest) (\<lambda>cs.
       Inr (\<lparr>cap_name = tool_name t, cap_schema = tool_value t, cap_mode = mode\<rparr> # cs))))))))"

fun read_skills :: "string list \<Rightarrow> pyval list \<Rightarrow> skill list result" where
  "read_skills seen [] = Inr []"
| "read_skills seen (raw # rest) =
     rbind (ext_object ''extension_registry_skill_invalid'' raw) (\<lambda>d.
     rbind (strict_fields [''id'', ''source_path'', ''owner_scope'', ''platforms'', ''requires_toolsets'', ''permission_mode''] ''extension_registry_skill_unknown_field'' d) (\<lambda>_.
     rbind (bounded_text ''extension_skill_id_invalid'' 64 (pget d ''id'')) (\<lambda>i.
     rbind (require (re_fullmatch SKILL_ID i \<and> i \<notin> set seen) (ExtensionContractError ''extension_registry_skill_invalid'')) (\<lambda>_.
     rbind (check_mode ''extension_registry_skill_invalid'' (pget d ''permission_mode'')) (\<lambda>mode.
     rbind (skill_fields i mode d) (\<lambda>s.
     rbind (read_skills (i # seen) rest) (\<lambda>ss. Inr (s # ss))))))))"

definition bundle_consistent :: "bool \<Rightarrow> pyval dict \<Rightarrow> capability list \<Rightarrow> skill list \<Rightarrow> bool" where
  "bundle_consistent enabled manifest caps skills =
     (if pget (descriptor_of manifest) ''type'' = PStr ''skill_bundle''
      then caps = [] \<and> (enabled \<longrightarrow> set (map sk_id skills) = set (include_of (descriptor_of manifest))) \<and> (\<not> enabled \<longrightarrow> skills = [])
      else skills = [])"

definition contract_none :: "'a option result \<Rightarrow> 'a option result" where
  "contract_none r = (case r of Inl (ExtensionContractError _) \<Rightarrow> Inr None | _ \<Rightarrow> r)"

definition manifest_revision :: "pyval dict \<Rightarrow> pyval" where
  "manifest_revision n = pget (as_mapping (pget n ''source'')) ''revision''"

definition read_inventory :: "ext_env \<Rightarrow> pyval dict \<Rightarrow> capability list \<Rightarrow> skill list \<Rightarrow> pyval \<Rightarrow> pyval dict option result" where
  "read_inventory env manifest caps skills v =
     (if v \<noteq> PNone then
        contract_none (rbind (validate_capability_inventory env v) (\<lambda>inventory.
          rbind (inventory_is_current env inventory (manifest_revision manifest) (manifest_digest env manifest)) (\<lambda>current.
            Inr (if current then Some inventory else None))))
      else if caps \<noteq> [] \<or> skills \<noteq> [] then
        contract_none (rbind (build_capability_inventory env manifest caps skills (str_or (manifest_revision manifest))) (\<lambda>i. Inr (Some i)))
      else Inr None)"

definition read_record :: "ext_env \<Rightarrow> string \<Rightarrow> pyval \<Rightarrow> ext_record result" where
  "read_record env extension_id v =
     rbind (stored_object v) (\<lambda>raw.
     rbind (strict_fields [''enabled'', ''manifest'', ''catalog_version'', ''effective_capabilities'', ''admitted_skills'', ''capability_inventory'']
              ''extension_registry_record_unknown_field'' raw) (\<lambda>_.
     rbind (item_of raw ''manifest'') (\<lambda>m.
     rbind (validate_extension_manifest env m) (\<lambda>manifest.
     rbind (require (manifest_id manifest = extension_id) (ExtensionContractError ''extension_registry_record_invalid'')) (\<lambda>_.
     rbind (rbind (item_of raw ''enabled'') (\<lambda>v. case v of PBool b \<Rightarrow> Inr b | _ \<Rightarrow> contract ''extension_registry_record_invalid'')) (\<lambda>enabled.
     rbind (rbind (item_of raw ''effective_capabilities'') visited) (\<lambda>raw_caps.
     rbind (read_capabilities [] raw_caps) (\<lambda>caps.
     rbind (visited (pget_or raw ''admitted_skills'' (PList []))) (\<lambda>raw_skills.
     rbind (read_skills [] raw_skills) (\<lambda>skills.
     rbind (require (bundle_consistent enabled manifest caps skills) (ExtensionContractError ''extension_registry_skill_invalid'')) (\<lambda>_.
     rbind (read_inventory env manifest caps skills (pget raw ''capability_inventory'')) (\<lambda>inventory.
     rbind (rbind (item_of raw ''catalog_version'') (bounded_text ''extension_catalog_release_invalid'' 80)) (\<lambda>version.
       Inr \<lparr>er_enabled = enabled, er_manifest = manifest, er_version = version, er_caps = caps, er_skills = skills, er_inventory = inventory\<rparr>)))))))))))))"

definition dropped :: "py_exc \<Rightarrow> bool" where
  "dropped e = (case e of ExtensionContractError _ \<Rightarrow> True | KeyError _ \<Rightarrow> True | TypeError _ \<Rightarrow> True | _ \<Rightarrow> False)"

fun read_records :: "ext_env \<Rightarrow> pyval dict \<Rightarrow> ext_record dict result" where
  "read_records env [] = Inr []"
| "read_records env ((extension_id, v) # rest) =
     (case read_record env extension_id v of
        Inr r \<Rightarrow> rbind (read_records env rest) (\<lambda>rs. Inr ((extension_id, r) # rs))
      | Inl e \<Rightarrow> if dropped e then read_records env rest else Inl e)"

definition read_registry :: "ext_env \<Rightarrow> registry_file \<Rightarrow> ext_record dict result" where
  "read_registry env f =
     (case f of
        Holds (PDict state) \<Rightarrow>
          (case pget state ''extensions'' of
             PDict d \<Rightarrow> if pget state ''schema_version'' = PStr REGISTRY_VERSION then read_records env d else Inr []
           | _ \<Rightarrow> Inr [])
      | Holds _ \<Rightarrow> Inl (AttributeError ''get'')
      | _ \<Rightarrow> Inr [])"

section \<open>The operations of the registry\<close>

definition enabled_names :: "ext_record dict \<Rightarrow> string list" where
  "enabled_names rs = concat (map (\<lambda>r. if er_enabled r then map cap_name (er_caps r) else []) (dvals rs))"

text \<open>The record of a package: its reconciled metadata with their inventory.\<close>

definition new_record :: "ext_env \<Rightarrow> pyval \<Rightarrow> pyval \<Rightarrow> string \<Rightarrow> bool \<Rightarrow> ext_record result" where
  "new_record env manifest resolved source_revision health_available =
     rbind (reconcile_extension_catalog env manifest resolved source_revision health_available) (\<lambda>rc.
     rbind (build_capability_inventory env (rc_manifest rc) (rc_caps rc) (rc_skills rc) (str_or (manifest_revision (rc_manifest rc)))) (\<lambda>inventory.
       Inr \<lparr>er_enabled = True, er_manifest = rc_manifest rc, er_version = rc_version rc, er_caps = rc_caps rc,
            er_skills = rc_skills rc, er_inventory = Some inventory\<rparr>))"

definition conflicts :: "string \<Rightarrow> ext_record \<Rightarrow> ext_record dict \<Rightarrow> bool" where
  "conflicts extension_id r rs = (set (enabled_names (dpop extension_id rs)) \<inter> set (map cap_name (er_caps r)) \<noteq> {})"

definition register :: "ext_env \<Rightarrow> pyval \<Rightarrow> pyval \<Rightarrow> string \<Rightarrow> bool \<Rightarrow> registry_file \<Rightarrow> (registry_file \<times> ext_record) result" where
  "register env manifest resolved source_revision health_available f =
     rbind (new_record env manifest resolved source_revision health_available) (\<lambda>r.
       let extension_id = manifest_id (er_manifest r)
       in rbind (read_registry env f) (\<lambda>rs.
          rbind (require (\<not> conflicts extension_id r rs) (ExtensionContractError ''extension_registry_capability_conflict'')) (\<lambda>_.
            Inr (write_registry (dset extension_id r rs), r))))"

definition disabled_record :: "ext_record \<Rightarrow> ext_record" where
  "disabled_record r = r\<lparr>er_enabled := False, er_caps := [], er_skills := []\<rparr>"

definition disable :: "ext_env \<Rightarrow> string \<Rightarrow> registry_file \<Rightarrow> (registry_file \<times> bool) result" where
  "disable env extension_id f =
     rbind (read_registry env f) (\<lambda>rs.
       case dget rs extension_id of
         None \<Rightarrow> Inr (f, False)
       | Some r \<Rightarrow> Inr (write_registry (dset extension_id (disabled_record r) rs), True))"

definition unregister :: "ext_env \<Rightarrow> string \<Rightarrow> registry_file \<Rightarrow> (registry_file \<times> bool) result" where
  "unregister env extension_id f =
     rbind (read_registry env f) (\<lambda>rs.
       case dget rs extension_id of
         None \<Rightarrow> Inr (f, False)
       | Some _ \<Rightarrow> Inr (write_registry (dpop extension_id rs), True))"

definition engaged_in :: "string list option \<Rightarrow> string \<Rightarrow> bool" where
  "engaged_in ids i = (case ids of None \<Rightarrow> True | Some is \<Rightarrow> i \<in> set is)"

text \<open>The capabilities in effect: the extension, the mode and the schema of each name.\<close>

definition effective_capabilities :: "ext_env \<Rightarrow> string list option \<Rightarrow> registry_file \<Rightarrow> (string \<times> string \<times> pyval) dict result" where
  "effective_capabilities env engaged f =
     rbind (read_registry env f) (\<lambda>rs.
       Inr (foldl (\<lambda>d (name, x). dset name x d) []
         (concat (map (\<lambda>(i, r). if er_enabled r \<and> engaged_in engaged i
                                 then map (\<lambda>c. (cap_name c, (i, cap_mode c, cap_schema c))) (er_caps r) else []) rs))))"

definition context_extensions :: "ext_env \<Rightarrow> string list \<Rightarrow> registry_file \<Rightarrow> (nat \<times> nat) dict result" where
  "context_extensions env engaged f =
     rbind (read_registry env f) (\<lambda>rs.
       Inr (dmap (\<lambda>r. (length (er_caps r), length (er_skills r))) (filter (\<lambda>(i, r). i \<in> set engaged \<and> er_enabled r) rs)))"

definition capability_inventory :: "ext_env \<Rightarrow> string \<Rightarrow> registry_file \<Rightarrow> pyval dict option result" where
  "capability_inventory env extension_id f =
     rbind (read_registry env f) (\<lambda>rs. Inr (case dget rs extension_id of None \<Rightarrow> None | Some r \<Rightarrow> er_inventory r))"

section \<open>Mounting capabilities for a turn\<close>

definition is_cli :: "pyval dict \<Rightarrow> bool" where
  "is_cli n = (pget (as_mapping (pget n ''runtime'')) ''type'' = PStr ''service'' \<and> pget (descriptor_of n) ''type'' = PStr ''inline'')"

definition PROVIDER_SOURCES :: "string dict" where
  "PROVIDER_SOURCES = [(''ani-cli'', ''https://github.com/pystardust/ani-cli.git''), (''pandaflix'', ''https://github.com/MADPANDA3D/pandaflix.git'')]"

definition is_provider :: "pyval dict \<Rightarrow> bool" where
  "is_provider n =
     (case dget PROVIDER_SOURCES (manifest_id n) of
        None \<Rightarrow> False
      | Some source \<Rightarrow> pget (as_mapping (pget n ''source'')) ''url'' = PStr source)"

record mounted =
  mo_name :: string
  mo_extension :: string
  mo_mode :: string
  mo_descriptor :: pyval
  mo_schema :: pyval
  mo_revision :: "pyval option"

text \<open>The first extension whose inventory has the name.\<close>

definition inventory_match :: "string \<Rightarrow> ext_record dict \<Rightarrow> (string \<times> ext_record \<times> pyval dict) option" where
  "inventory_match name rs =
     (case find (\<lambda>(i, r). case er_inventory r of None \<Rightarrow> False | Some inventory \<Rightarrow> name \<in> set (map item_name (inventory_items inventory))) rs of
        None \<Rightarrow> None
      | Some (i, r) \<Rightarrow> Some (i, r, the (er_inventory r)))"

definition find_capability :: "string \<Rightarrow> capability list \<Rightarrow> capability option" where
  "find_capability name cs = find (\<lambda>c. cap_name c = name) cs"

text \<open>
  A capability of an extension that is installed: mounted, or the reason why it is not.
  \<open>revision\<close> is the active revision of a package that the lifecycle file names.
\<close>

definition mount_found :: "(string \<Rightarrow> pyval result) \<Rightarrow> string \<Rightarrow> string \<Rightarrow> ext_record \<Rightarrow> (string + mounted) result" where
  "mount_found revision name i r =
     (let m = er_manifest r; descriptor = pget (descriptor_of m) ''type'' in
      if \<not> er_enabled r then Inr (Inl ''extension_disabled'')
      else if is_provider m then Inr (Inl ''extension_media_ui_only'')
      else if descriptor \<noteq> PStr ''mcp'' \<and> \<not> is_cli m then Inr (Inl ''extension_mount_requires_engagement'')
      else case find_capability name (er_caps r) of
             None \<Rightarrow> Inr (Inl ''extension_capability_unavailable'')
           | Some c \<Rightarrow>
               rbind (if is_cli m then rbind (revision i) (\<lambda>v. Inr (Some v)) else Inr None) (\<lambda>package.
                 Inr (Inr \<lparr>mo_name = name, mo_extension = i, mo_mode = cap_mode c, mo_descriptor = descriptor,
                           mo_schema = cap_schema c, mo_revision = package\<rparr>)))"

definition mount_one :: "ext_env \<Rightarrow> (string \<Rightarrow> pyval result) \<Rightarrow> ext_record dict \<Rightarrow> string \<Rightarrow> (string + mounted) result" where
  "mount_one env revision rs name =
     (case inventory_match name rs of
        None \<Rightarrow> Inr (Inl ''extension_capability_unknown'')
      | Some (i, r, inventory) \<Rightarrow>
          (case resolve_mount_schemas env inventory [name] of
             Inl (ExtensionContractError err) \<Rightarrow> Inr (Inl err)
           | Inl e \<Rightarrow> Inl e
           | Inr _ \<Rightarrow> mount_found revision name i r))"

definition mount_extension_capabilities ::
    "ext_env \<Rightarrow> (string \<Rightarrow> pyval result) \<Rightarrow> string list \<Rightarrow> registry_file \<Rightarrow> (string \<times> (string + mounted)) list result" where
  "mount_extension_capabilities env revision names f =
     (let requested = filter (\<lambda>s. s \<noteq> []) (map strip names)
      in rbind (require (requested \<noteq> [] \<and> length requested \<le> 32 \<and> distinct requested) (ExtensionContractError ''extension_capability_mount_invalid'')) (\<lambda>_.
         rbind (read_registry env f) (\<lambda>rs.
           rmap (\<lambda>name. rbind (mount_one env revision rs name) (\<lambda>x. Inr (name, x))) requested)))"

section \<open>What is built is valid\<close>

text \<open>\<open>hashlib.sha256(...).hexdigest()\<close>: sixty-four hexadecimal digits.\<close>

definition hex_digests :: "ext_env \<Rightarrow> bool" where
  "hex_digests env = (\<forall>s. length (ee_sha256 env s) = 64 \<and> list_all hex_char (ee_sha256 env s))"

lemma times_set: "times n (matches (RSet P)) (l, r, g) =
    (if n \<le> length r \<and> list_all P (take n r) then [(rev (take n r) @ l, drop n r, g)] else [])"
proof (induction n arbitrary: l r)
  case (Suc n)
  then show ?case by (cases r) auto
qed simp

lemma matches_exactly: "matches (RRep n (Some n) (RSet P)) (l, r, g) =
    (if n \<le> length r \<and> list_all P (take n r) then [(rev (take n r) @ l, drop n r, g)] else [])"
  by (simp add: times_set)

lemma fullmatch_mid: "re_fullmatch (rseq [RBegin, a, REnd]) s = re_fullmatch a s"
  by (simp add: re_fullmatch_def list_ex_seq list_ex_end del: matches.simps(3,11))

lemma fullmatch_exactly: "re_fullmatch (RRep n (Some n) (RSet P)) s \<longleftrightarrow> length s = n \<and> list_all P s"
  unfolding re_fullmatch_def matches_exactly by auto

lemma fullmatch_alt: "re_fullmatch (RAlt a b) s = (re_fullmatch a s \<or> re_fullmatch b s)"
  by (simp add: re_fullmatch_def)

lemma immutable_iff: "re_fullmatch IMMUTABLE_REVISION s \<longleftrightarrow> (length s = 40 \<or> length s = 64) \<and> list_all hex_char s"
  unfolding IMMUTABLE_REVISION_def fullmatch_mid by (auto simp: fullmatch_alt fullmatch_exactly)

lemma immutable_revision: "re_fullmatch IMMUTABLE_REVISION s \<Longrightarrow> re_fullmatch REVISION s \<and> plain_text 64 s"
proof
  assume s: "re_fullmatch IMMUTABLE_REVISION s"
  then show "re_fullmatch REVISION s"
    unfolding REVISION_def fullmatch_mid immutable_iff by (auto simp: fullmatch_alt fullmatch_exactly)
  show "plain_text 64 s"
    using s unfolding immutable_iff by (intro graphic_plain) (auto simp: list_all_iff name_graphic)
qed

lemma digest_ok:
  assumes "hex_digests env"
  shows "digest_text err (PStr (''sha256:'' @ ee_sha256 env s)) = Inr (''sha256:'' @ ee_sha256 env s)"
proof -
  let ?h = "ee_sha256 env s"
  have h: "length ?h = 64" "list_all hex_char ?h" using assms by (auto simp: hex_digests_def)
  have "re_fullmatch DIGEST (''sha256:'' @ ?h)"
    unfolding DIGEST_def fullmatch_anchored using h
    by (simp add: re_fullmatch_def list_ex_seq rlit_def matches_exactly del: matches.simps(3,5))
  moreover have "plain_text 80 (''sha256:'' @ ?h)"
    using h by (intro graphic_plain) (simp, simp, simp add: list_all_iff name_graphic, simp add: code_def)
  ultimately show ?thesis by (simp add: digest_text_def plain_bounded)
qed

lemma skill_fields_again:
  assumes "skill_fields i m d = Inr s" "strip (sk_path s) = sk_path s"
    "pget d' ''source_path'' = PStr (sk_path s)" "pget d' ''owner_scope'' = PStr (sk_scope s)"
    "pget d' ''platforms'' = texts (sk_platforms s)" "pget d' ''requires_toolsets'' = texts (sk_toolsets s)"
  shows "skill_fields i m d' = Inr s"
proof -
  obtain p w pl ts where a: "safe_relative_path ''extension_skill_source_path_invalid'' (pget d ''source_path'') = Inr p"
    "bounded_text ''extension_skill_owner_scope_invalid'' 200 (pget d ''owner_scope'') = Inr w"
    "string_list ''extension_skill_platforms_invalid'' False 32 (pget d ''platforms'') = Inr pl"
    "string_list ''extension_skill_toolsets_invalid'' False 32 (pget d ''requires_toolsets'') = Inr ts"
    and s: "s = \<lparr>sk_id = i, sk_path = p, sk_scope = w, sk_platforms = pl, sk_toolsets = ts, sk_mode = m\<rparr>"
    using assms(1) unfolding skill_fields_def by (elim rbind_InrE) simp
  have "strip p = p" using assms(2) by (simp add: s)
  then show ?thesis
    using safe_path_again [OF a(1)] plain_bounded [OF bounded_plain [OF a(2)]] string_list_texts [OF a(3)] string_list_texts [OF a(4)] assms(3-6)
    unfolding skill_fields_def by (simp add: s)
qed

lemma skill_fields_id: "skill_fields i m d = Inr s \<Longrightarrow> sk_id s = i \<and> sk_mode s = m"
  unfolding skill_fields_def by (elim rbind_InrE) auto

lemma drop_skill_item: "drop 4 (skill_item s) = [(''skill'', PDict [(''source_path'', PStr (sk_path s)), (''owner_scope'', PStr (sk_scope s)),
    (''platforms'', texts (sk_platforms s)), (''requires_toolsets'', texts (sk_toolsets s))])]"
  by (simp add: skill_item_def)

lemma mode_ok: "m \<in> set PERMISSION_MODES \<Longrightarrow> check_mode err (PStr m) = Inr m"
  by (simp add: check_mode_def)

lemma tool_item_valid:
  assumes "normalize_tool_schema raw = Inr t" "m \<in> set PERMISSION_MODES" "dt \<in> set DESCRIPTOR_TYPES"
  shows "validate_inventory_capability (PDict (tool_item dt m t)) = Inr (tool_item dt m t)"
proof -
  have n: "re_fullmatch TOOL_NAME (tool_name t)"
    using assms(1) unfolding normalize_tool_schema_def Let_def by (elim rbind_InrE) auto
  show ?thesis
    using assms(2,3) n plain_bounded [OF tool_name_plain [OF n]] tool_again [OF assms(1)]
    by (simp add: validate_inventory_capability_def tool_item_def strict_fields_iff CAPABILITY_FIELDS_def rbind_Inr_iff mode_ok inventory_payload_def)
qed

text \<open>Capabilities and skills in the form in which they are stored.\<close>

definition good_cap :: "capability \<Rightarrow> bool" where
  "good_cap c \<longleftrightarrow> (\<exists>t. normalize_tool_schema (cap_schema c) = Inr t \<and> cap_schema c = tool_value t \<and> cap_name c = tool_name t \<and>
     cap_mode c \<in> set PERMISSION_MODES)"

definition good_skill :: "skill \<Rightarrow> bool" where
  "good_skill s \<longleftrightarrow> re_fullmatch SKILL_ID (sk_id s) \<and> sk_mode s \<in> set PERMISSION_MODES \<and>
     skill_fields (sk_id s) (sk_mode s) (skill_value s) = Inr s"

lemma good_skill_fields:
  "good_skill s \<Longrightarrow> pget d ''source_path'' = PStr (sk_path s) \<Longrightarrow> pget d ''owner_scope'' = PStr (sk_scope s) \<Longrightarrow>
     pget d ''platforms'' = texts (sk_platforms s) \<Longrightarrow> pget d ''requires_toolsets'' = texts (sk_toolsets s) \<Longrightarrow>
     skill_fields (sk_id s) (sk_mode s) d = Inr s"
  by (simp add: good_skill_def skill_fields_def skill_value_def)

lemma skill_id_plain: "re_fullmatch SKILL_ID i \<Longrightarrow> plain_text 64 i"
  by (rule graphic_plain) (auto simp: skill_id_iff list_all_iff name_graphic split: list.splits)

lemma skill_item_valid:
  assumes "good_skill s"
  shows "validate_inventory_capability (PDict (skill_item s)) = Inr (skill_item s)"
proof -
  let ?d = "[(''source_path'', PStr (sk_path s)), (''owner_scope'', PStr (sk_scope s)),
    (''platforms'', texts (sk_platforms s)), (''requires_toolsets'', texts (sk_toolsets s))]"
  have "skill_fields (sk_id s) (sk_mode s) ?d = Inr s" by (rule good_skill_fields [OF assms]) simp_all
  moreover have i: "re_fullmatch SKILL_ID (sk_id s)" "sk_mode s \<in> set PERMISSION_MODES" using assms by (simp_all add: good_skill_def)
  ultimately show ?thesis
    using skill_is_tool_name [OF i(1)] plain_bounded [OF tool_name_plain [OF skill_is_tool_name [OF i(1)]]]
    by (simp add: validate_inventory_capability_def skill_item_def [of s] strict_fields_iff CAPABILITY_FIELDS_def rbind_Inr_iff mode_ok
        inventory_payload_def Let_def SKILL_FIELDS_def DESCRIPTOR_TYPES_def drop_skill_item)
qed

lemma build_good_skill: "good_skill s \<Longrightarrow> build_skill s = Inr (skill_item s)"
  using skill_id_plain [of "sk_id s"] by (simp add: build_skill_def good_skill_def plain_bounded)

lemma build_good_cap: "good_cap c \<Longrightarrow> \<exists>t. build_tool dt c = Inr (tool_item dt (cap_mode c) t) \<and> normalize_tool_schema (cap_schema c) = Inr t \<and> tool_name t = cap_name c"
  by (auto simp: build_tool_def good_cap_def)

lemma sorted_items:
  "set (sort_key f xs) = set xs" "distinct (map g (sort_key f xs)) = distinct (map g xs)" "length (sort_key f xs) = length xs"
proof -
  have "mset (map g (sort_key f xs)) = mset (map g xs)" by simp
  then show "distinct (map g (sort_key f xs)) = distinct (map g xs)" by (rule mset_eq_imp_distinct_iff)
qed simp_all

lemma items_valid:
  assumes "rmap (build_tool dt) caps = Inr tools" "list_all good_cap caps" "dt \<in> set DESCRIPTOR_TYPES"
  shows "d \<in> set tools \<Longrightarrow> validate_inventory_capability (PDict d) = Inr d" "map item_name tools = map cap_name caps"
    "d \<in> set tools \<Longrightarrow> pget d ''kind'' = PStr ''tool'' \<and> ''schema'' \<in> set (dkeys d)"
proof -
  have all: "list_all2 (\<lambda>c d. \<exists>t. d = tool_item dt (cap_mode c) t \<and> normalize_tool_schema (cap_schema c) = Inr t \<and> tool_name t = cap_name c \<and>
      cap_mode c \<in> set PERMISSION_MODES) caps tools"
    using assms(1,2) build_good_cap [of _ dt] by (fastforce simp: rmap_Inr_iff list_all2_conv_all_nth list_all_length good_cap_def)
  have mem: "\<exists>m t raw. d = tool_item dt m t \<and> normalize_tool_schema raw = Inr t \<and> m \<in> set PERMISSION_MODES" if "d \<in> set tools" for d
    using all that by (induction rule: list_all2_induct) auto
  show "d \<in> set tools \<Longrightarrow> validate_inventory_capability (PDict d) = Inr d"
    using mem [of d] assms(3) tool_item_valid by blast
  show "map item_name tools = map cap_name caps"
    using all by (induction rule: list_all2_induct) (auto simp: item_name_def tool_item_def)
  show "d \<in> set tools \<Longrightarrow> pget d ''kind'' = PStr ''tool'' \<and> ''schema'' \<in> set (dkeys d)"
    using mem [of d] by (auto simp: tool_item_def)
qed

lemma built_inventory:
  assumes "build_capability_inventory env n caps skills pin = Inr inventory" "hex_digests env"
    "length caps + length skills \<le> 256" "list_all good_cap caps" "list_all good_skill skills" "plain_text 64 pin"
  obtains items where
    "validate_capability_inventory env (PDict inventory) = Inr inventory" "pget inventory ''source_revision'' = PStr pin"
    "pget inventory ''manifest_digest'' = PStr (manifest_digest env n)" "inventory_items inventory = items"
    "set (map item_name items) = set (map cap_name caps) \<union> set (map sk_id skills)" "distinct (map item_name items)"
    "\<And>d. d \<in> set items \<Longrightarrow> item_name d \<in> set (map cap_name caps) \<Longrightarrow> pget d ''kind'' = PStr ''tool'' \<and> ''schema'' \<in> set (dkeys d)"
proof -
  from assms(1) obtain i dt tools block descriptor version r where b: "plain_text 64 i" "re_fullmatch EXTENSION_ID i"
    "plain_text 64 r" "r = strip pin" "re_fullmatch IMMUTABLE_REVISION r" "dt \<in> set DESCRIPTOR_TYPES" "rmap (build_tool dt) caps = Inr tools"
    "distinct (map item_name (tools @ map skill_item skills))" "plain_text 80 version"
    "inventory = (let envelope = [(''inventory_version'', PStr INVENTORY_VERSION), (''extension_id'', PStr i),
                        (''extension_version'', PStr version), (''source_revision'', PStr r),
                        (''manifest_digest'', PStr (manifest_digest env n)), (''descriptor'', PStr dt),
                        (''capabilities'', PList (map PDict (sort_key item_name (tools @ map skill_item skills))))]
                 in envelope @ [(''inventory_digest'', PStr (inventory_digest env envelope))])"
  proof -
    have sk: "rmap build_skill skills = Inr (map skill_item skills)"
      using assms(5) by (induction skills) (auto simp: build_good_skill)
    show ?thesis
      using assms(1) unfolding build_capability_inventory_def Let_def sk rbind_simps
      by (elim rbind_InrE) (rule that, auto simp: bounded_text_iff)
  qed
  have r: "r = pin" using b(4) assms(6) by (simp add: plain_text_def)
  let ?items = "sort_key item_name (tools @ map skill_item skills)"
  have len: "length ?items \<le> 256" using rmap_length [OF b(7)] assms(3) by simp
  have valid: "rmap validate_inventory_capability (map PDict ?items) = Inr ?items"
  proof (rule rmap_fixed)
    fix d assume "d \<in> set ?items"
    then have "d \<in> set tools \<or> d \<in> skill_item ` set skills" by simp
    then show "validate_inventory_capability (PDict d) = Inr d"
      using items_valid(1) [OF b(7) assms(4) b(6)] skill_item_valid assms(5) by (auto simp: list_all_iff)
  qed
  have dist: "distinct (map item_name ?items)" unfolding sorted_items by (rule b(8))
  define its where "its = ?items"
  define md where "md = manifest_digest env n"
  define whole where "whole = [(''inventory_version'', PStr INVENTORY_VERSION), (''extension_id'', PStr i),
    (''extension_version'', PStr version), (''source_revision'', PStr r), (''manifest_digest'', PStr md), (''descriptor'', PStr dt),
    (''capabilities'', PList (map PDict its))]"
  define dg where "dg = inventory_digest env whole"
  have inv: "inventory = whole @ [(''inventory_digest'', PStr dg)]" by (simp add: b(10) Let_def whole_def its_def dg_def md_def)
  have digests: "digest_text err (PStr md) = Inr md" "digest_text err (PStr dg) = Inr dg" for err
    unfolding dg_def md_def manifest_digest_def inventory_digest_def by (rule digest_ok [OF assms(2)])+
  have gets: "pget inventory ''inventory_version'' = PStr INVENTORY_VERSION" "pget inventory ''extension_id'' = PStr i"
    "pget inventory ''extension_version'' = PStr version" "pget inventory ''source_revision'' = PStr r" "pget inventory ''manifest_digest'' = PStr md"
    "pget inventory ''descriptor'' = PStr dt" "pget inventory ''capabilities'' = PList (map PDict its)" "pget inventory ''inventory_digest'' = PStr dg"
    by (simp_all add: inv whole_def)
  have strict: "strict_fields INVENTORY_FIELDS err inventory = Inr ()" for err
    by (simp add: strict_fields_iff inv whole_def INVENTORY_FIELDS_def)
  have req: "list_all (\<lambda>k. k \<in> set (dkeys inventory)) INVENTORY_FIELDS" by (simp add: inv whole_def INVENTORY_FIELDS_def)
  have "validate_capability_inventory env (PDict inventory) = Inr (whole @ [(''inventory_digest'', PStr dg)])"
    using valid [folded its_def] dist [folded its_def] len [folded its_def] b(2,5,6)
    unfolding validate_capability_inventory_def Let_def
    by (simp add: gets strict req [unfolded list.set_map] digests plain_bounded b(1,3,9) whole_def [symmetric] dg_def [symmetric] del: append_Cons append_assoc list.set_map)
  then have "validate_capability_inventory env (PDict inventory) = Inr inventory" unfolding inv .
  moreover have "pget inventory ''source_revision'' = PStr pin" "pget inventory ''manifest_digest'' = PStr (manifest_digest env n)"
    "inventory_items inventory = ?items"
    by (simp_all add: b(10) Let_def r inventory_items_def comp_def)
  moreover have names: "map item_name (map skill_item skills) = map sk_id skills" by (simp add: item_name_def skill_item_def)
  then have "set (map item_name ?items) = set (map cap_name caps) \<union> set (map sk_id skills)"
    using items_valid(2) [OF b(7) assms(4) b(6)] by (metis map_append set_append set_map set_sort)
  moreover have "pget d ''kind'' = PStr ''tool'' \<and> ''schema'' \<in> set (dkeys d)" if "d \<in> set ?items" "item_name d \<in> set (map cap_name caps)" for d
  proof -
    have "set (map cap_name caps) \<inter> set (map sk_id skills) = {}"
      using b(8) names items_valid(2) [OF b(7) assms(4) b(6)] by (metis distinct_append map_append)
    moreover have "item_name (skill_item s) = sk_id s" for s by (simp add: item_name_def skill_item_def)
    ultimately have "d \<notin> skill_item ` set skills" using that(2) by force
    with that(1) have "d \<in> set tools" by auto
    then show ?thesis by (rule items_valid(3) [OF b(7) assms(4) b(6)])
  qed
  ultimately show ?thesis using dist by (intro that) auto
qed

section \<open>A stored record reads back\<close>

definition sound_record :: "ext_env \<Rightarrow> ext_record \<Rightarrow> bool" where
  "sound_record env r \<longleftrightarrow>
     validate_extension_manifest env (PDict (er_manifest r)) = Inr (er_manifest r) \<and>
     list_all good_cap (er_caps r) \<and> distinct (map cap_name (er_caps r)) \<and>
     list_all good_skill (er_skills r) \<and> distinct (map sk_id (er_skills r)) \<and>
     bundle_consistent (er_enabled r) (er_manifest r) (er_caps r) (er_skills r) \<and> plain_text 80 (er_version r) \<and>
     (case er_inventory r of None \<Rightarrow> False
      | Some inventory \<Rightarrow> validate_capability_inventory env (PDict inventory) = Inr inventory \<and>
          pget inventory ''source_revision'' = manifest_revision (er_manifest r) \<and>
          pget inventory ''manifest_digest'' = PStr (manifest_digest env (er_manifest r)))"

lemma strict_ok [simp]: "fst ` set d \<subseteq> set allowed \<Longrightarrow> strict_fields allowed err d = Inr ()"
  by (simp add: strict_fields_iff)

lemma read_good_caps:
  "list_all good_cap cs \<Longrightarrow> distinct (map cap_name cs) \<Longrightarrow> set (map cap_name cs) \<inter> set seen = {} \<Longrightarrow>
     read_capabilities seen (map capability_value cs) = Inr cs"
proof (induction cs arbitrary: seen)
  case (Cons c cs)
  from Cons.prems(1) obtain t where "normalize_tool_schema (cap_schema c) = Inr t" "cap_schema c = tool_value t" "cap_name c = tool_name t"
    "cap_mode c \<in> set PERMISSION_MODES" by (auto simp: good_cap_def)
  with Cons.prems Cons.IH [of "cap_name c # seen"] show ?case
    by (cases c) (simp add: capability_value_def stored_object_def item_of_def mode_ok)
qed simp

lemma read_good_skills:
  "list_all good_skill ss \<Longrightarrow> distinct (map sk_id ss) \<Longrightarrow> set (map sk_id ss) \<inter> set seen = {} \<Longrightarrow>
     read_skills seen (map (\<lambda>s. PDict (skill_value s)) ss) = Inr ss"
proof (induction ss arbitrary: seen)
  case (Cons s ss)
  have g: "re_fullmatch SKILL_ID (sk_id s)" "sk_mode s \<in> set PERMISSION_MODES" "skill_fields (sk_id s) (sk_mode s) (skill_value s) = Inr s"
    using Cons.prems(1) by (simp_all add: good_skill_def)
  have "strict_fields [''id'', ''source_path'', ''owner_scope'', ''platforms'', ''requires_toolsets'', ''permission_mode''] err (skill_value s) = Inr ()"
    "pget (skill_value s) ''id'' = PStr (sk_id s)" "pget (skill_value s) ''permission_mode'' = PStr (sk_mode s)" for err
    by (simp_all add: skill_value_def strict_fields_iff)
  with g Cons.prems Cons.IH [of "sk_id s # seen"] plain_bounded [OF skill_id_plain [OF g(1)]] show ?case
    by (simp add: mode_ok)
qed simp

lemma sound_reads_back:
  assumes "sound_record env r"
  shows "read_record env (manifest_id (er_manifest r)) (record_value r) = Inr r"
proof -
  from assms obtain inventory where i: "er_inventory r = Some inventory" "validate_capability_inventory env (PDict inventory) = Inr inventory"
    "pget inventory ''source_revision'' = manifest_revision (er_manifest r)"
    "pget inventory ''manifest_digest'' = PStr (manifest_digest env (er_manifest r))"
    by (auto simp: sound_record_def split: option.splits)
  have inv: "read_inventory env (er_manifest r) (er_caps r) (er_skills r) (PDict inventory) = Inr (Some inventory)"
    using i(2-4) by (simp add: read_inventory_def inventory_is_current_def contract_none_def)
  have caps: "read_capabilities [] (map capability_value (er_caps r)) = Inr (er_caps r)"
    using assms by (intro read_good_caps) (simp_all add: sound_record_def)
  have skills: "read_skills [] (map (\<lambda>s. PDict (skill_value s)) (er_skills r)) = Inr (er_skills r)"
    using assms by (intro read_good_skills) (simp_all add: sound_record_def)
  show ?thesis
    using assms inv caps skills
    by (simp add: sound_record_def read_record_def record_value_def stored_object_def strict_fields_iff item_of_def visited_def pget_or_def
        i(1) plain_bounded)
qed

lemma sound_disabled: "sound_record env r \<Longrightarrow> sound_record env (disabled_record r)"
  by (auto simp: sound_record_def disabled_record_def bundle_consistent_def split: option.splits)

lemma read_sound_records:
  "list_all (\<lambda>(i, r). sound_record env r \<and> manifest_id (er_manifest r) = i) rs \<Longrightarrow> read_records env (dmap record_value rs) = Inr rs"
  by (induction rs) (auto simp: dest: sound_reads_back)

lemma read_written:
  "list_all (\<lambda>(i, r). sound_record env r \<and> manifest_id (er_manifest r) = i) rs \<Longrightarrow> read_registry env (write_registry rs) = Inr rs"
  by (simp add: read_registry_def write_registry_def read_sound_records)

section \<open>A new record is sound\<close>

lemma pinned_gets: "k \<noteq> ''source'' \<Longrightarrow> pget (pinned r n) k = pget n k"
  by (simp add: pinned_def)

lemma pinned_parts:
  "descriptor_of (pinned r n) = descriptor_of n" "overrides_of (pinned r n) = overrides_of n" "mode_in (pinned r n) = mode_in n"
  "manifest_id (pinned r n) = manifest_id n" "manifest_paths (pinned r n) = manifest_paths n" "inline_empty (pinned r n) = inline_empty n"
  "stable_manifest (pinned r n) = stable_manifest n" "manifest_revision (pinned r n) = PStr r"
proof -
  show "manifest_paths (pinned r n) = manifest_paths n" "inline_empty (pinned r n) = inline_empty n"
    by (simp_all add: manifest_paths_def inline_empty_def pinned_gets Let_def)
  then show "stable_manifest (pinned r n) = stable_manifest n" by (simp add: stable_manifest_def)
  show "overrides_of (pinned r n) = overrides_of n" by (simp add: overrides_of_def pinned_gets)
  then show "mode_in (pinned r n) = mode_in n" by (rule_tac ext) (simp add: mode_in_def pinned_gets)
qed (simp_all add: descriptor_of_def manifest_id_def manifest_revision_def pinned_gets, simp add: pinned_def)

lemma modes_known_all: "modes_known vs = Inr True \<Longrightarrow> v \<in> set vs \<Longrightarrow> \<exists>m \<in> set PERMISSION_MODES. v = PStr m"
  by (induction vs) (auto split: if_splits)

lemma normal_modes:
  assumes "normal_manifest env n"
  shows "mode_in n name \<in> set PERMISSION_MODES"
  using assms
proof cases
  case (normal_manifestI i nm version url revision rt e d schemas t df ov)
  have p: "df \<in> set PERMISSION_MODES" "modes_known (dvals ov) = Inr True"
    using normal_manifestI(20) by (auto simp: check_permissions_def rbind_Inr_iff Let_def split: if_split_asm)
  have g: "pget n ''permissions'' = PDict [(''default'', PStr df), (''capabilities'', PDict ov)]"
    using dget_pget [OF normal_manifestI(19)] .
  show ?thesis
  proof (cases "dget ov name")
    case None
    then show ?thesis using p(1) by (simp add: mode_in_def overrides_of_def g pget_or_def)
  next
    case (Some v)
    then have "v \<in> set (dvals ov)" by (rule dget_in_vals)
    from modes_known_all [OF p(2) this] obtain m where "m \<in> set PERMISSION_MODES" "v = PStr m" by blast
    with Some show ?thesis by (simp add: mode_in_def overrides_of_def g pget_or_def)
  qed
qed

lemma normal_fields:
  assumes "normal_manifest env n"
  shows "plain_text 80 (str_or (pget n ''version''))" "pget n ''extension_id'' = PStr (manifest_id n)"
    "\<exists>s. pget n ''source'' = PDict s"
    "dget (as_mapping (pget n ''capabilities'')) ''schemas'' = Some (PList tools) \<Longrightarrow> \<exists>ts. tools = map tool_value ts \<and> normalize_tools (PList tools) = Inr ts"
proof -
  have "plain_text 80 (str_or (pget n ''version'')) \<and> pget n ''extension_id'' = PStr (manifest_id n) \<and>
    (\<exists>s. pget n ''source'' = PDict s) \<and>
    (dget (as_mapping (pget n ''capabilities'')) ''schemas'' = Some (PList tools) \<longrightarrow> (\<exists>ts. tools = map tool_value ts \<and> normalize_tools (PList tools) = Inr ts))"
    for tools
    using assms
  proof cases
  case (normal_manifestI i nm version url revision rt e d schemas t df ov)
  have g: "pget n ''version'' = PStr version" "pget n ''extension_id'' = PStr i" "pget n ''capabilities'' = capabilities_value d schemas"
    "\<exists>s. pget n ''source'' = PDict s"
    using normal_manifestI(3,8,17,10) by (auto dest: dget_pget)
  have "normalize_tools (PList (map tool_value schemas)) = Inr schemas" if "schemas \<noteq> []"
  proof -
    have "(if t = ''inline'' then normalize_tools (pget_or ((''descriptor'', PDict d) # [(''schemas'', PList (map tool_value schemas))]) ''schemas'' (PList [])) else Inr []) = Inr schemas"
      using normal_manifestI(18) that unfolding check_capabilities_def capabilities_value_def ext_object_PDict rbind_simps
      by (elim rbind_pairE rbind_InrE) simp
    with that show ?thesis by (simp add: pget_or_def split: if_split_asm)
  qed
  then show ?thesis
    using normal_manifestI(9) g by (auto simp: manifest_id_def capabilities_value_def split: if_split_asm)
  qed
  then show "plain_text 80 (str_or (pget n ''version''))" "pget n ''extension_id'' = PStr (manifest_id n)" "\<exists>s. pget n ''source'' = PDict s"
    "dget (as_mapping (pget n ''capabilities'')) ''schemas'' = Some (PList tools) \<Longrightarrow> \<exists>ts. tools = map tool_value ts \<and> normalize_tools (PList tools) = Inr ts"
    by blast+
qed

definition tidy_record :: "ext_record \<Rightarrow> bool" where
  "tidy_record r = (stable_manifest (er_manifest r) \<and> list_all (\<lambda>s. strip (sk_path s) = sk_path s) (er_skills r))"

lemma catalog_skills_good:
  "catalog_skills mode seen raws = Inr ss \<Longrightarrow> (\<And>i. mode i \<in> set PERMISSION_MODES) \<Longrightarrow> list_all (\<lambda>s. strip (sk_path s) = sk_path s) ss \<Longrightarrow>
     list_all good_skill ss \<and> distinct (map sk_id ss) \<and> set (map sk_id ss) \<inter> set seen = {} \<and> length ss = length raws"
proof (induction raws arbitrary: seen ss)
  case (Cons raw raws)
  from Cons.prems(1) obtain d i s rest where e: "re_fullmatch SKILL_ID i" "i \<notin> set seen" "skill_fields i (mode i) d = Inr s"
    "catalog_skills mode (i # seen) raws = Inr rest" "ss = s # rest"
    by (auto elim!: rbind_InrE)
  have id: "sk_id s = i" "sk_mode s = mode i" using skill_fields_id [OF e(3)] by auto
  have "skill_fields i (mode i) (skill_value s) = Inr s"
    by (rule skill_fields_again [OF e(3)]) (use Cons.prems(3) e(5) in \<open>simp_all add: skill_value_def\<close>)
  then have "good_skill s" using e(1) Cons.prems(2) by (simp add: good_skill_def id)
  with Cons.IH [OF e(4) Cons.prems(2)] Cons.prems(3) e(2,5) id(1) show ?case by auto
qed simp

lemma tools_good:
  assumes "normalize_tools v = Inr ts" "\<And>i. mode i \<in> set PERMISSION_MODES"
  defines "cs \<equiv> map (\<lambda>t. \<lparr>cap_name = stored_name t, cap_schema = t, cap_mode = mode (stored_name t)\<rparr>) (map tool_value ts)"
  shows "list_all good_cap cs" "distinct (map cap_name cs)" "length cs \<le> 256"
proof -
  from assms(1) obtain xs where x: "length xs \<le> 256" "rmap normalize_tool_schema xs = Inr ts" "distinct (map tool_name ts)"
    by (auto simp: normalize_tools_def rbind_Inr_iff not_less split: pyval.split_asm if_split_asm)
  have n: "stored_name (tool_value t) = tool_name t" for t by (simp add: stored_name_def tool_value_def)
  have "normalize_tool_schema (tool_value t) = Inr t" if "t \<in> set ts" for t
    using rmap_results [OF x(2) that] tool_again by blast
  then show "list_all good_cap cs" using assms(2) by (auto simp: cs_def list_all_iff good_cap_def n)
  show "distinct (map cap_name cs)" using x(3) by (simp add: cs_def comp_def n)
  show "length cs \<le> 256" using rmap_length [OF x(2)] x(1) by (simp add: cs_def)
qed

lemma catalog_kinds:
  assumes "catalog_contents n rv cat = Inr (tools, skills, version)" "normal_manifest env n" "list_all (\<lambda>s. strip (sk_path s) = sk_path s) skills"
  shows "\<exists>ts. tools = map tool_value ts \<and> normalize_tools (PList tools) = Inr ts"
    "list_all good_skill skills" "distinct (map sk_id skills)" "length tools + length skills \<le> 256" "plain_text 80 version"
    "bundle_consistent True n (map (\<lambda>t. \<lparr>cap_name = stored_name t, cap_schema = t, cap_mode = mode_in n (stored_name t)\<rparr>) tools) skills"
proof -
  have nil: "normalize_tools (PList []) = Inr []" by (simp add: normalize_tools_def)
  have len: "normalize_tools (PList tools) = Inr ts \<Longrightarrow> length tools \<le> 256" for ts
    by (simp add: normalize_tools_def split: if_split_asm)
  let ?caps = "map (\<lambda>t. \<lparr>cap_name = stored_name t, cap_schema = t, cap_mode = mode_in n (stored_name t)\<rparr>) tools"
  have "(\<exists>ts. tools = map tool_value ts \<and> normalize_tools (PList tools) = Inr ts) \<and> list_all good_skill skills \<and> distinct (map sk_id skills) \<and>
    length tools + length skills \<le> 256 \<and> plain_text 80 version \<and> bundle_consistent True n ?caps skills"
  proof (cases "pget (descriptor_of n) ''type'' = PStr ''inline''")
    case True
    with assms(1) have "dget (as_mapping (pget n ''capabilities'')) ''schemas'' = Some (PList tools)" "skills = []" "version = str_or (pget n ''version'')"
      by (auto simp: catalog_contents_def split: option.split_asm pyval.split_asm)
    with normal_fields [OF assms(2)] len True show ?thesis by (auto simp: bundle_consistent_def)
  next
    case ni: False
    show ?thesis
    proof (cases "pget (descriptor_of n) ''type'' = PStr ''skill_bundle''")
      case True
      with assms(1) obtain c xs where c: "tools = []" "catalog_skills (mode_in n) [] xs = Inr skills" "length xs \<le> 64"
        "set (map sk_id skills) = set (include_of (descriptor_of n))" "plain_text 80 version"
        unfolding catalog_contents_def
        by (auto elim!: rbind_InrE simp: bounded_text_iff split: pyval.split_asm if_split_asm)
      with catalog_skills_good [OF c(2) normal_modes [OF assms(2)] assms(3)] True nil show ?thesis
        by (auto simp: bundle_consistent_def)
    next
      case False
      with assms(1) ni obtain v ts where c: "normalize_tools v = Inr ts" "tools = map tool_value ts" "skills = []" "plain_text 80 version"
        unfolding catalog_contents_def by (auto elim!: rbind_InrE simp: bounded_text_iff)
      with tools_again [OF c(1)] len False show ?thesis by (auto simp: bundle_consistent_def)
    qed
  qed
  then show "\<exists>ts. tools = map tool_value ts \<and> normalize_tools (PList tools) = Inr ts"
    "list_all good_skill skills" "distinct (map sk_id skills)" "length tools + length skills \<le> 256" "plain_text 80 version"
    "bundle_consistent True n ?caps skills" by blast+
qed

lemma new_record_parts:
  assumes "new_record env m cat rv h = Inr r"
  obtains n0 tools skills version inventory where
    "validate_extension_manifest env m = Inr n0" "re_fullmatch IMMUTABLE_REVISION rv" "catalog_contents (pinned rv n0) rv cat = Inr (tools, skills, version)"
    "r = \<lparr>er_enabled = True, er_manifest = pinned rv n0, er_version = version,
        er_caps = map (\<lambda>t. \<lparr>cap_name = stored_name t, cap_schema = t, cap_mode = mode_in (pinned rv n0) (stored_name t)\<rparr>) tools,
        er_skills = skills, er_inventory = Some inventory\<rparr>"
    "build_capability_inventory env (pinned rv n0) (er_caps r) skills rv = Inr inventory"
proof -
  from assms obtain rc inventory where a: "reconcile_extension_catalog env m cat rv h = Inr rc"
    "build_capability_inventory env (rc_manifest rc) (rc_caps rc) (rc_skills rc) (str_or (manifest_revision (rc_manifest rc))) = Inr inventory"
    "r = \<lparr>er_enabled = True, er_manifest = rc_manifest rc, er_version = rc_version rc, er_caps = rc_caps rc,
            er_skills = rc_skills rc, er_inventory = Some inventory\<rparr>"
    unfolding new_record_def by (elim rbind_InrE) simp
  from a(1) obtain n0 tools skills version where "validate_extension_manifest env m = Inr n0" "re_fullmatch IMMUTABLE_REVISION rv"
    "catalog_contents (pinned rv n0) rv cat = Inr (tools, skills, version)"
    "rc = \<lparr>rc_manifest = pinned rv n0, rc_version = version,
        rc_caps = map (\<lambda>t. \<lparr>cap_name = stored_name t, cap_schema = t, cap_mode = mode_in (pinned rv n0) (stored_name t)\<rparr>) tools, rc_skills = skills\<rparr>"
    unfolding reconcile_extension_catalog_def Let_def by (elim rbind_tripleE rbind_InrE) (rule that, auto)
  with a(2,3) show ?thesis by (intro that) (simp_all add: pinned_parts)
qed

lemma new_record_good:
  assumes "new_record env m cat rv h = Inr r" "hex_digests env" "tidy_record r"
  shows "sound_record env r \<and> (\<exists>inventory. er_inventory r = Some inventory \<and>
    (\<forall>name \<in> set (map cap_name (er_caps r)). name \<in> set (map item_name (inventory_items inventory)) \<and> is_ok (resolve_mount_schemas env inventory [name])))"
  using assms(1)
proof (rule new_record_parts)
  fix n0 tools skills version inventory
  assume v: "validate_extension_manifest env m = Inr n0" and rv: "re_fullmatch IMMUTABLE_REVISION rv"
    and c: "catalog_contents (pinned rv n0) rv cat = Inr (tools, skills, version)"
    and r: "r = \<lparr>er_enabled = True, er_manifest = pinned rv n0, er_version = version,
        er_caps = map (\<lambda>t. \<lparr>cap_name = stored_name t, cap_schema = t, cap_mode = mode_in (pinned rv n0) (stored_name t)\<rparr>) tools,
        er_skills = skills, er_inventory = Some inventory\<rparr>"
    and b: "build_capability_inventory env (pinned rv n0) (er_caps r) skills rv = Inr inventory"
  have st: "stable_manifest n0" "list_all (\<lambda>s. strip (sk_path s) = sk_path s) skills"
    using assms(3) by (simp_all add: tidy_record_def r pinned_parts)
  have n0: "normal_manifest env n0" by (rule normal_of_validated [OF v st(1)])
  obtain s where s: "pget n0 ''source'' = PDict s" using normal_fields(3) [OF n0] by blast
  have n: "normal_manifest env (pinned rv n0)"
    using normal_pinned [OF n0 _ _ s] immutable_revision [OF rv] by (simp add: pinned_def s)
  note k = catalog_kinds [OF c n st(2)]
  obtain ts where ts: "tools = map tool_value ts" "normalize_tools (PList tools) = Inr ts" using k(1) by blast
  have caps: "list_all good_cap (er_caps r)" "distinct (map cap_name (er_caps r))"
    using tools_good [OF ts(2) normal_modes [OF n]] by (simp_all add: r ts(1))
  have len: "length (er_caps r) + length skills \<le> 256" using k(4) by (simp add: r)
  have rp: "plain_text 64 rv" using immutable_revision [OF rv] by simp
  have bc: "bundle_consistent True (pinned rv n0) (er_caps r) skills" using k(6) by (simp add: r)
  have rr: "er_manifest r = pinned rv n0" "er_skills r = skills" "er_version r = version" "er_enabled r" "er_inventory r = Some inventory"
    by (simp_all add: r)
  obtain items where i: "validate_capability_inventory env (PDict inventory) = Inr inventory" "pget inventory ''source_revision'' = PStr rv"
    "pget inventory ''manifest_digest'' = PStr (manifest_digest env (pinned rv n0))" "inventory_items inventory = items"
    "set (map item_name items) = set (map cap_name (er_caps r)) \<union> set (map sk_id skills)"
    "\<And>d. d \<in> set items \<Longrightarrow> item_name d \<in> set (map cap_name (er_caps r)) \<Longrightarrow> pget d ''kind'' = PStr ''tool'' \<and> ''schema'' \<in> set (dkeys d)"
    by (rule built_inventory [OF b assms(2) len caps(1) k(2) rp]) (rule that)
  have "sound_record env r"
    using i(1-3) normal_kept [OF n] caps k(2,3,5) bc unfolding sound_record_def rr by (simp add: pinned_parts rr(4))
  moreover have "name \<in> set (map item_name (inventory_items inventory)) \<and> is_ok (resolve_mount_schemas env inventory [name])"
    if name: "name \<in> set (map cap_name (er_caps r))" for name
  proof -
    have "re_fullmatch TOOL_NAME name"
      using name caps(1) by (auto simp: list_all_iff good_cap_def normalize_tool_schema_def Let_def elim!: rbind_InrE)
    then have st: "strip name = name" using tool_name_plain by (simp add: plain_text_def)
    have mem: "name \<in> set (map item_name items)" using name unfolding i(5) by blast
    then obtain d where d: "find (\<lambda>d. item_name d = name) items = Some d"
      by (cases "find (\<lambda>d. item_name d = name) items") (auto simp: find_None_iff_all)
    with find_SomeD [OF d] i(6) [of d] name have "pget d ''kind'' = PStr ''tool''" "''schema'' \<in> set (dkeys d)" by simp_all
    with mem d i(1,4) st show ?thesis by (simp add: resolve_mount_schemas_def find_item_def)
  qed
  ultimately show "sound_record env r \<and> (\<exists>inventory. er_inventory r = Some inventory \<and>
    (\<forall>name \<in> set (map cap_name (er_caps r)). name \<in> set (map item_name (inventory_items inventory)) \<and> is_ok (resolve_mount_schemas env inventory [name])))"
    by (auto simp: rr)
qed

lemma new_record_sound:
  "new_record env m cat rv h = Inr r \<Longrightarrow> hex_digests env \<Longrightarrow> tidy_record r \<Longrightarrow> sound_record env r"
  using new_record_good by blast

end
