(* ===== verification/ExtRuns.thy ===== *)
theory ExtRuns
  imports ExtRegistry
begin

text \<open>
  Runs of the registry of extensions: registrations, disablings and removals, each a read of the
  file, a decision and a write. The file refines a table of records, the enabled extensions share
  no capability name, and what is mounted for a turn is in effect; a disabled extension that
  shadows an enabled one is not, which is what the last theorem shows.
\<close>

section \<open>The registry is a table\<close>

datatype ext_event =
    Ext_register pyval pyval string bool
  | Ext_disable string
  | Ext_unregister string

text \<open>An operation on the file; when it raises, the file is as it was.\<close>

definition ext_step :: "ext_env \<Rightarrow> registry_file \<Rightarrow> ext_event \<Rightarrow> registry_file" where
  "ext_step env f e =
     (case (case e of Ext_register m cat rv h \<Rightarrow> rbind (register env m cat rv h f) (\<lambda>(f', r). Inr f')
            | Ext_disable i \<Rightarrow> rbind (disable env i f) (\<lambda>(f', b). Inr f')
            | Ext_unregister i \<Rightarrow> rbind (unregister env i f) (\<lambda>(f', b). Inr f')) of
        Inl _ \<Rightarrow> f
      | Inr f' \<Rightarrow> f')"

text \<open>The same operation on a table of records.\<close>

definition table_step :: "ext_env \<Rightarrow> ext_record dict \<Rightarrow> ext_event \<Rightarrow> ext_record dict" where
  "table_step env rs e =
     (case e of
        Ext_register m cat rv h \<Rightarrow>
          (case new_record env m cat rv h of
             Inl _ \<Rightarrow> rs
           | Inr r \<Rightarrow> if conflicts (manifest_id (er_manifest r)) r rs then rs else dset (manifest_id (er_manifest r)) r rs)
      | Ext_disable i \<Rightarrow> (case dget rs i of None \<Rightarrow> rs | Some r \<Rightarrow> dset i (disabled_record r) rs)
      | Ext_unregister i \<Rightarrow> dpop i rs)"

text \<open>A registration of a package whose paths do not begin or end with a blank, and that is no inline descriptor without tools.\<close>

definition tidy_event :: "ext_env \<Rightarrow> ext_event \<Rightarrow> bool" where
  "tidy_event env e =
     (case e of Ext_register m cat rv h \<Rightarrow> (case new_record env m cat rv h of Inl _ \<Rightarrow> True | Inr r \<Rightarrow> tidy_record r) | _ \<Rightarrow> True)"

lemma disabled_simps [simp]:
  "er_manifest (disabled_record r) = er_manifest r" "\<not> er_enabled (disabled_record r)" "er_caps (disabled_record r) = []"
  "er_inventory (disabled_record r) = er_inventory r"
  by (simp_all add: disabled_record_def)

abbreviation "table_ok env rs \<equiv> wf_dict rs \<and> list_all (\<lambda>(i, r). sound_record env r \<and> manifest_id (er_manifest r) = i) rs"

lemma records_dset:
  "list_all (\<lambda>(i, r). P i r) rs \<Longrightarrow> P i r \<Longrightarrow> list_all (\<lambda>(i, r). P i r) (dset i r rs)"
  by (induction rs) auto

lemma records_dpop: "list_all (\<lambda>(i, r). P i r) rs \<Longrightarrow> list_all (\<lambda>(i, r). P i r) (dpop i rs)"
  by (auto simp: list_all_iff AList.delete_eq)

lemma records_dget: "list_all (\<lambda>(i, r). P i r) rs \<Longrightarrow> dget rs i = Some r \<Longrightarrow> P i r"
  by (auto simp: list_all_iff dest!: map_of_SomeD)

lemma table_step_ok:
  assumes "table_ok env rs" "hex_digests env" "tidy_event env e"
  shows "table_ok env (table_step env rs e)"
proof (cases e)
  case (Ext_register m cat rv h)
  with assms show ?thesis
    by (auto simp: table_step_def tidy_event_def new_record_sound intro!: records_dset split: sum.splits)
next
  case (Ext_disable i)
  show ?thesis
  proof (cases "dget rs i")
    case None
    then show ?thesis using assms(1) Ext_disable by (simp add: table_step_def)
  next
    case (Some r)
    let ?P = "\<lambda>i r. sound_record env r \<and> manifest_id (er_manifest r) = i"
    have "?P i r" using records_dget [of ?P rs i r] assms(1) Some by simp
    then have "list_all (\<lambda>(i, r). ?P i r) (dset i (disabled_record r) rs)"
      using assms(1) by (intro records_dset) (simp_all add: sound_disabled)
    then show ?thesis using assms(1) Ext_disable Some by (simp add: table_step_def)
  qed
next
  case (Ext_unregister i)
  with assms show ?thesis by (auto simp: table_step_def intro!: records_dpop)
qed

lemma table_agrees:
  assumes "hex_digests env" "list_all (tidy_event env) es" "table_ok env rs" "read_registry env f = Inr rs" "f = Absent \<and> rs = [] \<or> f = write_registry rs"
  shows "read_registry env (run (ext_step env) f es) = Inr (run (table_step env) rs es)"
  using assms(2-)
proof (induction es arbitrary: f rs)
  case (Cons e es)
  let ?rs = "table_step env rs e"
  have ok: "table_ok env ?rs" using table_step_ok [OF Cons.prems(2) assms(1)] Cons.prems(1) by simp
  have again: "read_registry env (write_registry ?rs) = Inr ?rs" using ok by (intro read_written) simp
  have "ext_step env f e = f \<and> ?rs = rs \<or> ext_step env f e = write_registry ?rs"
  proof (cases e)
    case (Ext_register m cat rv h)
    then show ?thesis
      using Cons.prems(3) by (cases "new_record env m cat rv h") (auto simp: ext_step_def table_step_def register_def Let_def)
  next
    case (Ext_disable i)
    then show ?thesis
      using Cons.prems(3) by (cases "dget rs i") (auto simp: ext_step_def table_step_def disable_def)
  next
    case (Ext_unregister i)
    have "dget rs i = None \<Longrightarrow> dpop i rs = rs" by (metis dget_None_dkeys dpop_absent list.set_map)
    with Ext_unregister show ?thesis
      using Cons.prems(3) by (cases "dget rs i") (auto simp: ext_step_def table_step_def unregister_def)
  qed
  then show ?case
  proof
    assume a: "ext_step env f e = f \<and> ?rs = rs"
    with Cons.IH [of rs f] Cons.prems show ?thesis by simp
  next
    assume a: "ext_step env f e = write_registry ?rs"
    with Cons.IH [OF _ ok again] Cons.prems(1) show ?thesis by simp
  qed
qed simp

lemma table_of_run:
  assumes "hex_digests env" "list_all (tidy_event env) es"
  shows "read_registry env (run (ext_step env) Absent es) = Inr (run (table_step env) [] es)"
  by (rule table_agrees [OF assms]) (simp_all add: read_registry_def)

section \<open>Every name has one owner\<close>

abbreviation own_names :: "ext_record \<Rightarrow> string list" where
  "own_names r \<equiv> (if er_enabled r then map cap_name (er_caps r) else [])"

lemma enabled_names_Cons: "enabled_names ((i, r) # rs) = own_names r @ enabled_names rs"
  by (simp add: enabled_names_def)

lemma enabled_names_mset: "wf_dict rs \<Longrightarrow> mset (enabled_names (dset i r rs)) = mset (own_names r @ enabled_names (dpop i rs))"
proof (induction rs)
  case (Cons p rs)
  obtain k s where p: "p = (k, s)" by (cases p)
  show ?case
  proof (cases "k = i")
    case True
    with Cons.prems show ?thesis by (simp add: p enabled_names_Cons dpop_absent del: mset_append)
  next
    case False
    with Cons show ?thesis by (simp add: p enabled_names_Cons)
  qed
qed (simp add: enabled_names_def)

lemma enabled_names_dset: "wf_dict rs \<Longrightarrow> distinct (enabled_names (dset i r rs)) \<longleftrightarrow> distinct (own_names r @ enabled_names (dpop i rs))"
  by (rule mset_eq_imp_distinct_iff) (rule enabled_names_mset)

lemma enabled_names_dpop: "distinct (enabled_names rs) \<Longrightarrow> distinct (enabled_names (dpop i rs)) \<and> set (enabled_names (dpop i rs)) \<subseteq> set (enabled_names rs)"
  by (induction rs) (auto simp: enabled_names_Cons enabled_names_def)

lemma read_capabilities_names: "read_capabilities seen (map capability_value cs) = Inr cs' \<Longrightarrow> map cap_name cs' = map cap_name cs"
proof (induction cs arbitrary: seen cs')
  case (Cons c cs)
  from Cons.prems obtain t rest mode where e: "cap_name c = tool_name t" "read_capabilities (tool_name t # seen) (map capability_value cs) = Inr rest"
    "cs' = \<lparr>cap_name = tool_name t, cap_schema = tool_value t, cap_mode = mode\<rparr> # rest"
    by (auto simp: capability_value_def [of c] stored_object_def elim!: rbind_InrE)
  with Cons.IH [OF e(2)] show ?case by simp
qed simp

lemma read_record_names:
  assumes "read_record env i (record_value r) = Inr r'"
  shows "er_enabled r' = er_enabled r" "map cap_name (er_caps r') = map cap_name (er_caps r)"
proof -
  have "er_enabled r' = er_enabled r \<and> read_capabilities [] (map capability_value (er_caps r)) = Inr (er_caps r')"
    using assms by (auto simp: read_record_def record_value_def stored_object_def item_of_def visited_def elim!: rbind_InrE)
  then show "er_enabled r' = er_enabled r" "map cap_name (er_caps r') = map cap_name (er_caps r)"
    using read_capabilities_names by blast+
qed

lemma read_records_names:
  "read_records env (dmap record_value rs) = Inr rs' \<Longrightarrow> wf_dict rs \<Longrightarrow> distinct (enabled_names rs) \<Longrightarrow>
     wf_dict rs' \<and> set (dkeys rs') \<subseteq> set (dkeys rs) \<and> distinct (enabled_names rs') \<and> set (enabled_names rs') \<subseteq> set (enabled_names rs)"
proof (induction rs arbitrary: rs')
  case (Cons p rs)
  obtain i r where p: "p = (i, r)" by (cases p)
  show ?case
  proof (cases "read_record env i (record_value r)")
    case (Inl e)
    with Cons.prems(1) have "read_records env (dmap record_value rs) = Inr rs'" by (simp add: p split: if_split_asm)
    from Cons.IH [OF this] Cons.prems(2,3) show ?thesis by (auto simp: p enabled_names_Cons)
  next
    case (Inr r')
    with Cons.prems(1) obtain rest where rest: "read_records env (dmap record_value rs) = Inr rest" "rs' = (i, r') # rest"
      by (auto simp: p elim!: rbind_InrE)
    have "own_names r' = own_names r" using read_record_names [OF Inr] by simp
    with Cons.IH [OF rest(1)] Cons.prems(2,3) show ?thesis by (auto simp: p rest(2) enabled_names_Cons)
  qed
qed (simp add: enabled_names_def)

text \<open>What every operation keeps of the file: the enabled extensions share no name.\<close>

definition names_owned :: "registry_file \<Rightarrow> bool" where
  "names_owned f \<longleftrightarrow> f = Absent \<or> (\<exists>rs. f = write_registry rs \<and> wf_dict rs \<and> distinct (enabled_names rs))"

lemma owned_read: "names_owned f \<Longrightarrow> read_registry env f = Inr rs \<Longrightarrow> wf_dict rs \<and> distinct (enabled_names rs)"
  by (auto simp: names_owned_def read_registry_def write_registry_def enabled_names_def [of "[]"] dest: read_records_names)

lemma owned_write: "wf_dict rs \<Longrightarrow> distinct (enabled_names rs) \<Longrightarrow> names_owned (write_registry rs)"
  by (auto simp: names_owned_def)

lemma validated_tools:
  assumes "validate_extension_manifest env m = Inr n" "dget (as_mapping (pget n ''capabilities'')) ''schemas'' = Some (PList tools)"
  shows "\<exists>ts v. tools = map tool_value ts \<and> normalize_tools v = Inr ts"
  using assms(1)
proof (rule validate_parts)
  fix given :: "pyval dict" and rt t d schemas conf i name version url revision e df ov health life bounds removal retain and norm :: "pyval dict"
  assume c: "check_capabilities env rt (pget given ''capabilities'') = Inr (t, d, schemas)"
    and n: "(let normalized = dupdate [(''extension_id'', PStr i), (''name'', PStr name), (''version'', PStr version),
      (''source'', PDict [(''url'', PStr url), (''revision'', PStr revision)]),
      (''runtime'', PDict [(''type'', PStr rt), (''entrypoint'', PStr e)]),
      (''capabilities'', capabilities_value d schemas),
      (''permissions'', PDict [(''default'', PStr df), (''capabilities'', PDict ov)]),
      (''health'', PDict health), (''lifecycle'', PDict life), (''data_boundaries'', PDict bounds), (''removal'', PDict removal),
      (''rollback'', PDict [(''strategy'', PStr ''pinned_revision''), (''retain_revisions'', PInt retain)])] norm
     in Inr (if conf \<noteq> [] then dset ''configuration'' (PList conf) normalized else dpop ''configuration'' normalized)) = (Inr n :: pyval dict result)"
  have "pget n ''capabilities'' = capabilities_value d schemas"
    using n by (auto simp: Let_def pget_def dget_dupdate split: if_split_asm)
  with assms(2) have s: "schemas \<noteq> []" "tools = map tool_value schemas" by (auto simp: capabilities_value_def split: if_split_asm)
  obtain cc where "pget given ''capabilities'' = PDict cc"
    using c by (cases "pget given ''capabilities''") (auto simp: check_capabilities_def ext_object_def)
  with c s(1) have "normalize_tools (pget_or cc ''schemas'' (PList [])) = Inr schemas"
    unfolding check_capabilities_def by (auto elim!: rbind_pairE rbind_InrE split: if_split_asm)
  with s(2) show ?thesis by blast
qed

lemma new_record_names: "new_record env m cat rv h = Inr r \<Longrightarrow> distinct (map cap_name (er_caps r))"
proof (erule new_record_parts)
  fix n0 tools skills version inventory
  assume v: "validate_extension_manifest env m = Inr n0" and c: "catalog_contents (pinned rv n0) rv cat = Inr (tools, skills, version)"
    and r: "r = \<lparr>er_enabled = True, er_manifest = pinned rv n0, er_version = version,
        er_caps = map (\<lambda>t. \<lparr>cap_name = stored_name t, cap_schema = t, cap_mode = mode_in (pinned rv n0) (stored_name t)\<rparr>) tools,
        er_skills = skills, er_inventory = Some inventory\<rparr>"
  have nil: "normalize_tools (PList []) = Inr []" by (simp add: normalize_tools_def)
  have "\<exists>ts v. tools = map tool_value ts \<and> normalize_tools v = Inr ts"
    using c validated_tools [OF v, of tools] nil unfolding catalog_contents_def
    by (auto simp: pinned_gets elim!: rbind_InrE split: if_split_asm option.split_asm pyval.split_asm)
  then obtain ts v where ts: "tools = map tool_value ts" "normalize_tools v = Inr ts" by blast
  have "stored_name (tool_value t) = tool_name t" for t by (simp add: stored_name_def tool_value_def)
  then show "distinct (map cap_name (er_caps r))"
    using ts by (auto simp: r comp_def normalize_tools_def rbind_Inr_iff split: pyval.split_asm if_split_asm)
qed

lemma ext_step_owned: "names_owned f \<Longrightarrow> names_owned (ext_step env f e)"
proof (cases "read_registry env f")
  case (Inl x)
  assume "names_owned f"
  with Inl show ?thesis
    by (cases e) (auto simp: ext_step_def register_def disable_def unregister_def Let_def split: sum.splits prod.splits elim!: rbind_InrE)
next
  case (Inr rs)
  assume o: "names_owned f"
  note rs = owned_read [OF o Inr]
  show ?thesis
  proof (cases e)
    case (Ext_register m cat rv h)
    show ?thesis
    proof (cases "new_record env m cat rv h")
      case (Inl x)
      then show ?thesis using o Ext_register by (simp add: ext_step_def register_def)
    next
      case new: (Inr r)
      let ?i = "manifest_id (er_manifest r)"
      show ?thesis
      proof (cases "conflicts ?i r rs")
        case True
        then show ?thesis using o Ext_register new Inr by (simp add: ext_step_def register_def Let_def)
      next
        case False
        have "distinct (enabled_names (dset ?i r rs))"
          using False rs enabled_names_dpop [of rs ?i] new_record_names [OF new] by (auto simp: enabled_names_dset conflicts_def)
        then show ?thesis using False rs Ext_register new Inr owned_write by (simp add: ext_step_def register_def Let_def)
      qed
    qed
  next
    case (Ext_disable i)
    have "distinct (enabled_names (dset i (disabled_record r) rs))" for r
      using rs enabled_names_dpop [of rs i] by (simp add: enabled_names_dset)
    then show ?thesis using o Ext_disable Inr rs owned_write by (cases "dget rs i") (simp_all add: ext_step_def disable_def)
  next
    case (Ext_unregister i)
    then show ?thesis using o Inr rs owned_write enabled_names_dpop [of rs i] by (cases "dget rs i") (simp_all add: ext_step_def unregister_def)
  qed
qed

interpretation extension_names: invariant_system "ext_step env" names_owned for env
  by unfold_locales (rule ext_step_owned)

definition ext_sample_env :: ext_env where
  "ext_sample_env = \<lparr>ee_icon = ''*'', ee_netloc_ok = (\<lambda>_. True), ee_sha256 = (\<lambda>_. replicate 64 CHR ''0'')\<rparr>"

definition sample_revision :: string where "sample_revision = replicate 40 CHR ''a''"

definition sample_manifest :: "string \<Rightarrow> pyval" where
  "sample_manifest i = PDict [(''protocol_version'', PStr MANIFEST_VERSION), (''extension_id'', PStr i), (''name'', PStr ''Demo''), (''version'', PStr ''1''),
     (''source'', PDict [(''url'', PStr ''https://a.b/c''), (''revision'', PStr ''self'')]),
     (''runtime'', PDict [(''type'', PStr ''mcp''), (''entrypoint'', PStr ''run'')]),
     (''capabilities'', PDict [(''descriptor'', PDict [(''type'', PStr ''mcp''), (''reference'', PStr ''r'')])]),
     (''permissions'', PDict [(''default'', PStr ''read_only''), (''capabilities'', PDict [])]),
     (''health'', PDict [(''type'', PStr ''catalog''), (''timeout_seconds'', PInt 5)]),
     (''lifecycle'', PDict [(''install'', PList []), (''start'', PList []), (''stop'', PList []), (''remove'', PList [])]),
     (''data_boundaries'', PDict [(''read'', PList []), (''write'', PList []), (''network'', PList [])]),
     (''removal'', PDict [(''remove_paths'', PList []), (''preserve_paths'', PList [])]),
     (''rollback'', PDict [(''strategy'', PStr ''pinned_revision''), (''retain_revisions'', PInt 2)])]"

definition sample_catalog :: "string \<Rightarrow> pyval" where
  "sample_catalog i = PDict [(''protocol_version'', PStr MANIFEST_VERSION), (''extension_id'', PStr i), (''version'', PStr ''1''),
     (''source_revision'', PStr sample_revision),
     (''tools'', PList [PDict [(''name'', PStr ''t''), (''parameters'', PDict [(''type'', PStr ''object'')])]])]"

section \<open>Properties\<close>

text \<open>
  Claim C27. A normalized manifest is its own normal form: what the validation returns passes the validation
  again, unchanged, provided that none of its paths begins or ends with a blank and that it is not an inline descriptor
  without tools. The registry validates what it stored whenever it is read, so it relies on this; lemma
  \<open>blank_path_lost\<close> shows that the first condition is needed.
\<close>

theorem manifest_normal_form:
  assumes "validate_extension_manifest env m = Inr n" "stable_manifest n"
  shows "validate_extension_manifest env (PDict n) = Inr n"
  by (rule normal_kept [OF normal_of_validated [OF assms]])

definition sample_normal :: "pyval dict" where
  "sample_normal = (case validate_extension_manifest ext_sample_env (sample_manifest ''demo'') of Inr n \<Rightarrow> n | Inl _ \<Rightarrow> [])"

lemma sample_validates:
  "validate_extension_manifest ext_sample_env (sample_manifest ''demo'') = Inr sample_normal" "stable_manifest sample_normal"
proof -
  have "case validate_extension_manifest ext_sample_env (sample_manifest ''demo'') of Inr n \<Rightarrow> stable_manifest n | Inl _ \<Rightarrow> False"
    by code_simp
  then show "validate_extension_manifest ext_sample_env (sample_manifest ''demo'') = Inr sample_normal" "stable_manifest sample_normal"
    by (auto simp: sample_normal_def split: sum.splits)
qed

theorem manifest_normal_form_witness:
  "validate_extension_manifest ext_sample_env (PDict sample_normal) = Inr sample_normal"
  by (rule manifest_normal_form [OF sample_validates])

text \<open>A path that ends with a blank is not kept, and one that is only a blank is refused the second time.\<close>

lemma blank_path_lost:
  "safe_relative_path ''e'' (PStr ''a/ /.'') = Inr ''a/ ''" "safe_relative_path ''e'' (PStr ''a/ '') = Inr ''a''"
  "safe_relative_path ''e'' (PStr ''./ /.'') = Inr '' ''" "safe_relative_path ''e'' (PStr '' '') = contract ''e''"
  by code_simp+

text \<open>An inline descriptor without tools passes the validation and raises a \<open>KeyError\<close> afterwards.\<close>

lemma empty_inline_breaks:
  assumes "pget (descriptor_of n) ''type'' = PStr ''inline''" "dget (as_mapping (pget n ''capabilities'')) ''schemas'' = None"
  shows "catalog_contents n rv cat = Inl (KeyError ''schemas'')"
  using assms by (simp add: catalog_contents_def)

text \<open>A registry file that is JSON but not an object makes every operation raise.\<close>

lemma list_file_breaks: "read_registry env (Holds (PList [])) = Inl (AttributeError ''get'')"
  by (simp add: read_registry_def)

text \<open>
  Claim C8. The registry is a table, as long as no registered package is a manifest that its own validation
  would not take again. Where the digest function gives digests of the right form, and every record
  that a registration would add has only paths (of the manifest and of the skills) without a blank at either end and is not
  an inline descriptor without tools, what is read from the
  file after any registrations, disablings and removals is exactly the table of records that the same operations
  make in memory, in the same order: the strict validation at every read loses and changes nothing of
  what was written. Lemma \<open>blank_path_lost\<close> shows what becomes of a path with a blank.
\<close>

theorem registry_is_table:
  assumes "hex_digests env" "list_all (tidy_event env) es"
  shows "read_registry env (run (ext_step env) Absent es) = Inr (run (table_step env) [] es)"
  by (rule table_of_run [OF assms])

definition sample_registration :: "string \<Rightarrow> ext_event" where
  "sample_registration i = Ext_register (sample_manifest i) (sample_catalog i) sample_revision True"

definition sample_record :: "string \<Rightarrow> ext_record" where
  "sample_record i =
     (case new_record ext_sample_env (sample_manifest i) (sample_catalog i) sample_revision True of
        Inr r \<Rightarrow> r | Inl _ \<Rightarrow> \<lparr>er_enabled = False, er_manifest = [], er_version = [], er_caps = [], er_skills = [], er_inventory = None\<rparr>)"

definition sample_facts :: "string \<Rightarrow> bool" where
  "sample_facts i =
     (case new_record ext_sample_env (sample_manifest i) (sample_catalog i) sample_revision True of
        Inr r \<Rightarrow> tidy_record r \<and> manifest_id (er_manifest r) = i \<and> map cap_name (er_caps r) = [''t''] \<and> er_enabled r \<and>
          pget (descriptor_of (er_manifest r)) ''type'' = PStr ''mcp'' \<and> \<not> is_cli (er_manifest r)
      | Inl _ \<Rightarrow> False)"

lemma sample_a: "sample_facts ''a''"
  by code_simp

lemma sample_b: "sample_facts ''b''"
  by code_simp

lemma sample_new:
  assumes "sample_facts i"
  shows "new_record ext_sample_env (sample_manifest i) (sample_catalog i) sample_revision True = Inr (sample_record i)"
    "tidy_record (sample_record i)" "manifest_id (er_manifest (sample_record i)) = i" "map cap_name (er_caps (sample_record i)) = [''t'']"
    "er_enabled (sample_record i)" "pget (descriptor_of (er_manifest (sample_record i))) ''type'' = PStr ''mcp''"
    "\<not> is_cli (er_manifest (sample_record i))"
  using assms by (auto simp: sample_facts_def sample_record_def split: sum.splits)

lemma sample_hex: "hex_digests ext_sample_env"
proof -
  have "list_all hex_char (replicate 64 CHR ''0'')" by (simp add: list_all_iff hex_char_def in_range_def code_def)
  then show ?thesis by (simp add: hex_digests_def ext_sample_env_def)
qed

lemma sample_tidy: "sample_facts i \<Longrightarrow> tidy_event ext_sample_env (sample_registration i)"
  using sample_new by (simp add: tidy_event_def sample_registration_def)

theorem registry_is_table_witness:
  "read_registry ext_sample_env (run (ext_step ext_sample_env) Absent [sample_registration ''a'', Ext_disable ''a'']) =
     Inr [(''a'', disabled_record (sample_record ''a''))]"
proof -
  have "list_all (tidy_event ext_sample_env) [sample_registration ''a'', Ext_disable ''a'']"
    using sample_tidy [OF sample_a] by (simp add: tidy_event_def)
  from registry_is_table [OF sample_hex this] sample_new [OF sample_a]
  show ?thesis by (simp add: table_step_def sample_registration_def conflicts_def enabled_names_def)
qed

text \<open>
  Claim C20. Every name has one owner. Whatever is registered, disabled and removed, with whatever manifests and
  catalogs, no two capabilities of the enabled extensions that the registry reads have the same name.
\<close>

theorem capability_names_owned_once:
  assumes "read_registry env (run (ext_step env) Absent es) = Inr rs"
  shows "distinct (enabled_names rs)"
  using owned_read [OF extension_names.run_inv assms] by (simp add: names_owned_def)

theorem capability_names_owned_once_witness:
  "distinct (enabled_names [(''a'', sample_record ''a'')])"
proof (rule capability_names_owned_once)
  have "list_all (tidy_event ext_sample_env) [sample_registration ''a'']" using sample_tidy [OF sample_a] by simp
  from table_of_run [OF sample_hex this] sample_new [OF sample_a]
  show "read_registry ext_sample_env (run (ext_step ext_sample_env) Absent [sample_registration ''a'']) = Inr [(''a'', sample_record ''a'')]"
    by (simp add: table_step_def sample_registration_def conflicts_def enabled_names_def)
qed

text \<open>The capabilities in effect, as a list with their names.\<close>

definition effective_entries :: "ext_record dict \<Rightarrow> (string \<times> string \<times> string \<times> pyval) list" where
  "effective_entries rs =
     concat (map (\<lambda>(i, r). if er_enabled r then map (\<lambda>c. (cap_name c, (i, cap_mode c, cap_schema c))) (er_caps r) else []) rs)"

lemma effective_names: "map fst (effective_entries rs) = enabled_names rs"
  by (induction rs) (auto simp: effective_entries_def enabled_names_def)

lemma foldl_dset: "distinct (map fst xs) \<Longrightarrow> set (map fst xs) \<inter> set (dkeys d) = {} \<Longrightarrow>
    foldl (\<lambda>d (name, x). dset name x d) d xs = d @ xs"
proof (induction xs arbitrary: d)
  case (Cons p xs)
  obtain k v where p: "p = (k, v)" by (cases p)
  have "dset k v d = d @ [(k, v)]" using Cons.prems(2) by (intro dset_absent) (simp add: p)
  with Cons.IH [of "d @ [(k, v)]"] Cons.prems show ?case by (simp add: p)
qed simp

lemma effective_of_read:
  assumes "read_registry env f = Inr rs" "distinct (enabled_names rs)"
  shows "effective_capabilities env None f = Inr (effective_entries rs)"
proof -
  have "foldl (\<lambda>d (name, x). dset name x d) [] (effective_entries rs) = effective_entries rs"
    using foldl_dset [of "effective_entries rs" "[]"] assms(2) by (simp add: effective_names del: map_map)
  then show ?thesis by (simp add: effective_capabilities_def assms(1) effective_entries_def engaged_in_def)
qed

lemma mount_one_effective:
  assumes "mount_one env revision rs name = Inr (Inr mo)" "distinct (enabled_names rs)"
  shows "mo_name mo = name \<and> dget (effective_entries rs) name = Some (mo_extension mo, mo_mode mo, mo_schema mo)"
proof -
  from assms(1) obtain i r inventory where m: "inventory_match name rs = Some (i, r, inventory)" "mount_found revision name i r = Inr (Inr mo)"
    by (auto simp: mount_one_def split: option.split_asm sum.split_asm py_exc.split_asm)
  have "(i, r) \<in> set rs" using m(1) by (auto simp: inventory_match_def split: option.split_asm dest: find_SomeD)
  moreover from m(2) obtain c where c: "er_enabled r" "find_capability name (er_caps r) = Some c"
    "mo_name mo = name" "mo_extension mo = i" "mo_mode mo = cap_mode c" "mo_schema mo = cap_schema c"
    by (auto simp: mount_found_def Let_def rbind_Inr_iff split: if_split_asm option.split_asm)
  moreover have "c \<in> set (er_caps r)" "cap_name c = name" using c(2) by (auto simp: find_capability_def dest: find_SomeD)
  ultimately have "(name, (mo_extension mo, mo_mode mo, mo_schema mo)) \<in> set (effective_entries rs)"
    by (force simp: effective_entries_def)
  moreover have "distinct (map fst (effective_entries rs))" using assms(2) by (simp only: effective_names)
  ultimately show ?thesis using c(3) map_of_is_SomeI by metis
qed

text \<open>
  Claim C15. Mounting gives no authority of its own. After any operations, every capability that is mounted for
  a turn is one in effect: the registry's table of capabilities in effect has its name, with the same
  extension, permission mode and schema, and every name asked for is answered, in order.
\<close>

theorem mounted_is_effective:
  assumes "mount_extension_capabilities env revision names (run (ext_step env) Absent es) = Inr out"
    "effective_capabilities env None (run (ext_step env) Absent es) = Inr eff"
  shows "map fst out = filter (\<lambda>s. s \<noteq> []) (map strip names) \<and>
    list_all (\<lambda>(name, x). case x of Inl _ \<Rightarrow> True
      | Inr mo \<Rightarrow> mo_name mo = name \<and> dget eff name = Some (mo_extension mo, mo_mode mo, mo_schema mo)) out"
proof -
  let ?f = "run (ext_step env) Absent es" and ?names = "filter (\<lambda>s. s \<noteq> []) (map strip names)"
  from assms(1) obtain rs where rs: "read_registry env ?f = Inr rs"
    "rmap (\<lambda>name. rbind (mount_one env revision rs name) (\<lambda>x. Inr (name, x))) ?names = Inr out"
    unfolding mount_extension_capabilities_def Let_def by (elim rbind_InrE) simp
  have d: "distinct (enabled_names rs)"
    using owned_read [OF extension_names.run_inv rs(1)] by (simp add: names_owned_def)
  have eff: "eff = effective_entries rs" using effective_of_read [OF rs(1) d] assms(2) by simp
  have "list_all2 (\<lambda>name (n, x). n = name \<and> mount_one env revision rs name = Inr x) ?names out"
    using rs(2) unfolding rmap_Inr_iff by (rule list_all2_mono) (auto elim!: rbind_InrE)
  then show ?thesis
  proof (induction rule: list_all2_induct)
    case (Cons name ns p out)
    then show ?case using mount_one_effective [of env revision rs name] d by (auto simp: eff split: sum.split)
  qed simp
qed

lemma mount_requested:
  assumes "read_registry env f = Inr rs" "strip name = name" "name \<noteq> []" "mount_one env revision rs name = Inr x"
  shows "mount_extension_capabilities env revision [name] f = Inr [(name, x)]"
  using assms by (simp add: mount_extension_capabilities_def)

lemma capability_is_mountable:
  assumes "new_record env m cat rv h = Inr r" "hex_digests env" "tidy_record r" "name \<in> set (map cap_name (er_caps r))"
  obtains inventory where "er_inventory r = Some inventory" "name \<in> set (map item_name (inventory_items inventory))"
    "is_ok (resolve_mount_schemas env inventory [name])" "strip name = name" "name \<noteq> []"
proof -
  obtain inventory where i: "er_inventory r = Some inventory" "name \<in> set (map item_name (inventory_items inventory))"
    "is_ok (resolve_mount_schemas env inventory [name])" and s: "sound_record env r"
    using new_record_good [OF assms(1-3)] assms(4) by blast
  obtain c where "c \<in> set (er_caps r)" "cap_name c = name" using assms(4) by auto
  then have "re_fullmatch TOOL_NAME name"
    using s by (auto simp: sound_record_def list_all_iff good_cap_def normalize_tool_schema_def Let_def elim!: rbind_InrE)
  then have "strip name = name" "name \<noteq> []" using tool_name_plain [of name] by (auto simp: plain_text_def)
  with i show ?thesis by (rule that)
qed

lemma first_match:
  assumes "er_inventory r = Some inventory" "name \<in> set (map item_name (inventory_items inventory))" "is_ok (resolve_mount_schemas env inventory [name])"
  shows "mount_one env revision ((i, r) # rs) name = mount_found revision name i r"
  using assms by (auto simp: mount_one_def inventory_match_def split: sum.split)

lemma sample_mount:
  assumes "sample_facts i" "find (\<lambda>p. fst p = i) [(''a'', x), (''b'', y)] \<noteq> None"
  obtains c where "er_caps (sample_record i) = [c]" "cap_name c = ''t''"
    "mount_found revision ''t'' i (sample_record i) = Inr (Inr \<lparr>mo_name = ''t'', mo_extension = i, mo_mode = cap_mode c,
       mo_descriptor = PStr ''mcp'', mo_schema = cap_schema c, mo_revision = None\<rparr>)"
proof -
  note s = sample_new [OF assms(1)]
  from s(4) obtain c where c: "er_caps (sample_record i) = [c]" "cap_name c = ''t''" by auto
  have "\<not> is_provider (er_manifest (sample_record i))"
    using assms(2) s(3) by (auto simp: is_provider_def PROVIDER_SOURCES_def split: if_split_asm)
  then show ?thesis
    using c s(5-) by (intro that [OF c]) (simp add: mount_found_def find_capability_def)
qed

lemma sample_mountable:
  assumes "sample_facts i"
  obtains inventory where "er_inventory (sample_record i) = Some inventory" "''t'' \<in> set (map item_name (inventory_items inventory))"
    "is_ok (resolve_mount_schemas ext_sample_env inventory [''t''])"
proof -
  have "''t'' \<in> set (map cap_name (er_caps (sample_record i)))" using sample_new(4) [OF assms] by simp
  then show ?thesis
    by (rule capability_is_mountable [OF sample_new(1) [OF assms] sample_hex sample_new(2) [OF assms]]) (rule that)
qed

lemma read_sample:
  "read_registry ext_sample_env (run (ext_step ext_sample_env) Absent [sample_registration ''a'']) = Inr [(''a'', sample_record ''a'')]"
proof -
  have "list_all (tidy_event ext_sample_env) [sample_registration ''a'']" using sample_tidy [OF sample_a] by simp
  from table_of_run [OF sample_hex this] sample_new [OF sample_a] show ?thesis
    by (simp add: table_step_def sample_registration_def conflicts_def enabled_names_def)
qed

theorem mounted_is_effective_witness:
  "\<exists>mo. mount_extension_capabilities ext_sample_env (\<lambda>_. Inr PNone) [''t''] (run (ext_step ext_sample_env) Absent [sample_registration ''a'']) = Inr [(''t'', Inr mo)] \<and>
     dget (effective_entries [(''a'', sample_record ''a'')]) ''t'' = Some (mo_extension mo, mo_mode mo, mo_schema mo)"
proof -
  let ?f = "run (ext_step ext_sample_env) Absent [sample_registration ''a'']" and ?revision = "\<lambda>_. Inr PNone"
  obtain c where c: "er_caps (sample_record ''a'') = [c]" "cap_name c = ''t''"
    "mount_found ?revision ''t'' ''a'' (sample_record ''a'') = Inr (Inr \<lparr>mo_name = ''t'', mo_extension = ''a'', mo_mode = cap_mode c,
       mo_descriptor = PStr ''mcp'', mo_schema = cap_schema c, mo_revision = None\<rparr>)"
    by (rule sample_mount [OF sample_a]) simp
  obtain inventory where i: "er_inventory (sample_record ''a'') = Some inventory" "''t'' \<in> set (map item_name (inventory_items inventory))"
    "is_ok (resolve_mount_schemas ext_sample_env inventory [''t''])"
    by (rule sample_mountable [OF sample_a])
  have m: "mount_extension_capabilities ext_sample_env ?revision [''t''] ?f = Inr [(''t'', Inr \<lparr>mo_name = ''t'', mo_extension = ''a'', mo_mode = cap_mode c,
       mo_descriptor = PStr ''mcp'', mo_schema = cap_schema c, mo_revision = None\<rparr>)]"
  proof (rule mount_requested [OF read_sample])
    show "mount_one ext_sample_env ?revision [(''a'', sample_record ''a'')] ''t'' = Inr (Inr \<lparr>mo_name = ''t'', mo_extension = ''a'', mo_mode = cap_mode c,
       mo_descriptor = PStr ''mcp'', mo_schema = cap_schema c, mo_revision = None\<rparr>)"
      unfolding first_match [OF i] by (rule c(3))
    show "strip ''t'' = ''t''" by code_simp
  qed simp
  have e: "effective_capabilities ext_sample_env None ?f = Inr (effective_entries [(''a'', sample_record ''a'')])"
    by (rule effective_of_read [OF read_sample]) (simp add: enabled_names_def c(1))
  from mounted_is_effective [OF m e] m show ?thesis by simp
qed

text \<open>
  Claim C33. Mounting does not find a capability in effect when an extension that was registered before
  provided it and is disabled: the search stops at the first extension whose inventory has the name, and a disabled one keeps its
  inventory. The registry says that the capability is in effect, and mounting says that its
  extension is disabled.
\<close>

theorem disabled_shadows_enabled:
  assumes "hex_digests env" "new_record env m1 cat1 rv1 h1 = Inr r1" "new_record env m2 cat2 rv2 h2 = Inr r2" "tidy_record r1" "tidy_record r2"
    "i = manifest_id (er_manifest r1)" "j = manifest_id (er_manifest r2)" "i \<noteq> j"
    "name \<in> set (map cap_name (er_caps r1))" "name \<in> set (map cap_name (er_caps r2))"
  shows "\<exists>f eff x. f = run (ext_step env) Absent [Ext_register m1 cat1 rv1 h1, Ext_disable i, Ext_register m2 cat2 rv2 h2] \<and>
    effective_capabilities env None f = Inr eff \<and> dget eff name = Some (j, x) \<and>
    mount_extension_capabilities env revision [name] f = Inr [(name, Inl ''extension_disabled'')]"
proof -
  let ?es = "[Ext_register m1 cat1 rv1 h1, Ext_disable i, Ext_register m2 cat2 rv2 h2]"
  let ?f = "run (ext_step env) Absent ?es" and ?rs = "[(i, disabled_record r1), (j, r2)]"
  have "list_all (tidy_event env) ?es" using assms(2-5) by (simp add: tidy_event_def)
  from table_of_run [OF assms(1) this] assms(2-8) have read: "read_registry env ?f = Inr ?rs"
    by (simp add: table_step_def conflicts_def enabled_names_def)
  have on: "er_enabled r2" using assms(3) by (auto elim!: new_record_parts)
  have "distinct (enabled_names ?rs)" using new_record_names [OF assms(3)] by (simp add: enabled_names_def on)
  from effective_of_read [OF read this] have eff: "effective_capabilities env None ?f = Inr (effective_entries ?rs)" .
  have "name \<in> set (map fst (effective_entries ?rs))" using assms(10) by (simp add: effective_names enabled_names_def on del: set_map)
  then obtain y where y: "dget (effective_entries ?rs) name = Some y" by (metis dget_None_dkeys not_None_eq)
  have "fst y = j" using map_of_SomeD [OF y] by (auto simp: effective_entries_def)
  then obtain x where x: "dget (effective_entries ?rs) name = Some (j, x)" using y by (cases y) auto
  obtain inventory where inv: "er_inventory r1 = Some inventory" "name \<in> set (map item_name (inventory_items inventory))"
    "is_ok (resolve_mount_schemas env inventory [name])" "strip name = name" "name \<noteq> []"
    by (rule capability_is_mountable [OF assms(2,1,4,9)])
  have "er_inventory (disabled_record r1) = Some inventory" by (simp add: inv(1))
  then have "mount_one env revision ?rs name = Inr (Inl ''extension_disabled'')"
    using first_match [of "disabled_record r1"] inv(2,3) by (simp add: mount_found_def)
  then have "mount_extension_capabilities env revision [name] ?f = Inr [(name, Inl ''extension_disabled'')]"
    by (rule mount_requested [OF read inv(4,5)])
  with eff x show ?thesis by blast
qed

theorem disabled_shadows_enabled_witness:
  "\<exists>f eff x. f = run (ext_step ext_sample_env) Absent [sample_registration ''a'', Ext_disable ''a'', sample_registration ''b''] \<and>
    effective_capabilities ext_sample_env None f = Inr eff \<and> dget eff ''t'' = Some (''b'', x) \<and>
    mount_extension_capabilities ext_sample_env (\<lambda>_. Inr PNone) [''t''] f = Inr [(''t'', Inl ''extension_disabled'')]"
  using disabled_shadows_enabled [OF sample_hex sample_new(1) [OF sample_a] sample_new(1) [OF sample_b] sample_new(2) [OF sample_a] sample_new(2) [OF sample_b]
      sample_new(3) [OF sample_a, symmetric] sample_new(3) [OF sample_b, symmetric], of "''t''" "\<lambda>_. Inr PNone"]
    sample_new(4) [OF sample_a] sample_new(4) [OF sample_b]
  by (simp add: sample_registration_def)

end
