(* ===== verification/TaskCalendar.thy ===== *)
theory TaskCalendar
  imports PyText
begin

text \<open>
  The calendar of scheduled tasks (\<open>compute_next_run\<close> of \<open>src/task_scheduler.py\<close>): the next run of a
  daily, weekly, monthly or single task, without a zone or in one. The first part models what of
  \<open>datetime\<close> the code uses, the lemmas relate days to dates, and the property is that without a zone
  the next run is the first moment that matches. A zone and \<open>croniter\<close> are parameters.
\<close>

section \<open>The calendar\<close>

text \<open>
  \<open>datetime\<close> without a zone: the microseconds since the first midnight of the year one. Its date is
  a year, a month and a day of the proleptic Gregorian calendar.
\<close>

definition DAY :: int where "DAY = 86400000000"

definition leap :: "int \<Rightarrow> bool" where
  "leap y = (y mod 4 = 0 \<and> (y mod 100 \<noteq> 0 \<or> y mod 400 = 0))"

definition days_before_year :: "int \<Rightarrow> int" where
  "days_before_year y = (y - 1) * 365 + (y - 1) div 4 - (y - 1) div 100 + (y - 1) div 400"

definition month_lengths :: "int \<Rightarrow> int list" where
  "month_lengths y = [31, if leap y then 29 else 28, 31, 30, 31, 30, 31, 31, 30, 31, 30, 31]"

definition days_in_month :: "int \<Rightarrow> int \<Rightarrow> int" where
  "days_in_month y m = month_lengths y ! nat (m - 1)"

definition month_start :: "int \<Rightarrow> int \<Rightarrow> int" where
  "month_start y m = days_before_year y + sum_list (take (nat (m - 1)) (month_lengths y))"

text \<open>The year of a day: a first guess that is never too late, then one year after the other.\<close>

function year_from :: "int \<Rightarrow> int \<Rightarrow> int" where
  "year_from y n = (if n < days_before_year (y + 1) then y else year_from (y + 1) n)"
  by pat_completeness auto

lemma next_year: "days_before_year (y + 1) = days_before_year y + (if leap y then 366 else 365)"
proof -
  have step: "y div k = (y - 1) div k + (if y mod k = 0 then 1 else 0)" if k: "0 < k" for k :: int
  proof (cases "y mod k = 0")
    case True
    then obtain q where "y = k * q" by (auto elim: dvdE simp: mod_eq_0_iff_dvd)
    moreover have "(k * q - 1) div k = q - 1"
      by (rule int_div_pos_eq [of _ _ _ "k - 1"]) (use k in \<open>simp_all add: algebra_simps\<close>)
    ultimately show ?thesis using k True by simp
  next
    case False
    have "0 < y mod k" "y mod k < k" using k False pos_mod_sign [OF k, of y] by (simp_all add: order.not_eq_order_implies_strict)
    moreover have "k * (y div k) + y mod k = y" by simp
    ultimately have "y - 1 = k * (y div k) + (y mod k - 1)" "0 \<le> y mod k - 1" "y mod k - 1 < k" by linarith+
    then have "(y - 1) div k = y div k" by (rule int_div_pos_eq)
    then show ?thesis using False by simp
  qed
  have y: "y + 1 - 1 = y" by simp
  have sums: "a' = a + p \<Longrightarrow> b' = b + q \<Longrightarrow> c' = c + r \<Longrightarrow> y * 365 + a' - b' + c' = (y - 1) * 365 + a - b + c + 365 + p - q + r"
    for a a' b b' c c' p q r :: int by simp
  have m: "y mod b = 0" if "y mod c = 0" "b dvd c" for b c
    using dvd_trans [OF that(2) mod_0_imp_dvd [OF that(1)]] by (rule dvd_imp_mod_0)
  have m': "y mod 400 = 0 \<Longrightarrow> y mod 100 = 0" "y mod 100 = 0 \<Longrightarrow> y mod 4 = 0"
    by (erule m, simp)+
  have "days_before_year (y + 1) = days_before_year y + 365 + (if y mod 4 = 0 then 1 else 0) - (if y mod 100 = 0 then 1 else 0) + (if y mod 400 = 0 then 1 else 0)"
    unfolding days_before_year_def y by (rule sums) (rule step, simp)+
  then show ?thesis unfolding leap_def using m' by (cases "y mod 4 = 0"; cases "y mod 100 = 0"; cases "y mod 400 = 0") simp_all
qed

termination year_from
proof (relation "measure (\<lambda>(y, n). nat (n + 1 - days_before_year y))")
  fix y n :: int
  assume "\<not> n < days_before_year (y + 1)"
  then show "((y + 1, n), y, n) \<in> measure (\<lambda>(y, n). nat (n + 1 - days_before_year y))"
    using next_year [of y] by (auto split: if_split_asm)
qed simp

fun split_months :: "int \<Rightarrow> int list \<Rightarrow> int \<Rightarrow> int \<times> int" where
  "split_months m [] n = (m, n + 1)"
| "split_months m (l # ls) n = (if n < l then (m, n + 1) else split_months (m + 1) ls (n - l))"

definition year_of :: "int \<Rightarrow> int" where
  "year_of n = year_from (n div 366 + 1) n"

definition date_of :: "int \<Rightarrow> int \<times> int \<times> int" where
  "date_of n = (let y = year_of n in (y, split_months 1 (month_lengths y) (n - days_before_year y)))"

declare year_from.simps [simp del]

lemma year_from_bounds: "days_before_year y \<le> n \<Longrightarrow> days_before_year (year_from y n) \<le> n \<and> n < days_before_year (year_from y n + 1)"
proof (induction y n rule: year_from.induct)
  case (1 y n)
  then show ?case by (cases "n < days_before_year (y + 1)") (simp_all add: year_from.simps [of y n])
qed

lemma year_of_bounds:
  assumes "0 \<le> n"
  shows "days_before_year (year_of n) \<le> n" "n < days_before_year (year_of n + 1)"
proof -
  let ?k = "n div 366"
  have "?k * 366 \<le> n" by simp
  moreover have "0 \<le> ?k" using assms by simp
  moreover have "?k div 4 \<le> ?k" using \<open>0 \<le> ?k\<close> by simp
  moreover have "?k div 400 \<le> ?k div 100" using \<open>0 \<le> ?k\<close> by (simp add: zdiv_mono2)
  ultimately have "days_before_year (?k + 1) \<le> n" by (simp add: days_before_year_def)
  from year_from_bounds [OF this] show "days_before_year (year_of n) \<le> n" "n < days_before_year (year_of n + 1)"
    by (simp_all add: year_of_def)
qed

lemma days_before_mono: "y \<le> y' \<Longrightarrow> days_before_year y \<le> days_before_year y'"
proof (induction "nat (y' - y)" arbitrary: y')
  case (Suc k)
  have "k = nat (y' - 1 - y)" "y \<le> y' - 1" using Suc(2) by simp_all
  from Suc(1) [OF this] next_year [of "y' - 1"] show ?case by (simp split: if_split_asm)
qed simp

lemma year_unique:
  assumes "0 \<le> n" "days_before_year y \<le> n" "n < days_before_year (y + 1)"
  shows "year_of n = y"
proof (rule ccontr)
  assume "year_of n \<noteq> y"
  then have "year_of n + 1 \<le> y \<or> y + 1 \<le> year_of n" by arith
  with days_before_mono [of "year_of n + 1" y] days_before_mono [of "y + 1" "year_of n"] year_of_bounds [OF assms(1)] assms(2,3)
  show False by auto
qed

lemma year_lengths: "sum_list (month_lengths y) = (if leap y then 366 else 365)" "length (month_lengths y) = 12"
  by (simp_all add: month_lengths_def)

lemma split_months_at:
  "k < length ls \<Longrightarrow> list_all (\<lambda>l. 0 \<le> l) ls \<Longrightarrow> 0 \<le> d \<Longrightarrow> d < ls ! k \<Longrightarrow>
     split_months m ls (sum_list (take k ls) + d) = (m + int k, d + 1)"
proof (induction ls arbitrary: m k)
  case (Cons l ls)
  show ?case
  proof (cases k)
    case (Suc j)
    have "0 \<le> sum_list (take j ls)" using Cons.prems(2) by (intro sum_list_nonneg) (auto simp: list_all_iff dest: in_set_takeD)
    with Suc Cons.IH [of j "m + 1"] Cons.prems show ?thesis by simp
  qed (use Cons.prems in simp)
qed simp

lemma split_months_exists:
  fixes n :: int
  shows "0 \<le> n \<Longrightarrow> n < sum_list ls \<Longrightarrow> \<exists>k d. k < length ls \<and> 0 \<le> d \<and> d < ls ! k \<and> n = sum_list (take k ls) + d"
proof (induction ls arbitrary: n)
  case (Cons l ls)
  show ?case
  proof (cases "n < l")
    case True
    with Cons.prems show ?thesis by (intro exI [of _ 0] exI [of _ n]) simp
  next
    case False
    with Cons.IH [of "n - l"] Cons.prems obtain k d where "k < length ls" "0 \<le> d" "d < ls ! k" "n - l = sum_list (take k ls) + d" by auto
    then show ?thesis by (intro exI [of _ "Suc k"] exI [of _ d]) simp
  qed
qed simp

lemma month_lengths_pos: "list_all (\<lambda>l. 0 \<le> l) (month_lengths y)" by (simp add: month_lengths_def)

lemma months_before: "0 \<le> sum_list (take k (month_lengths y))"
  by (rule sum_list_nonneg) (auto simp: month_lengths_def dest!: in_set_takeD split: if_split_asm)

lemma month_in_year:
  assumes "1 \<le> m" "m \<le> 12"
  shows "days_before_year y \<le> month_start y m" "month_start y m + days_in_month y m \<le> days_before_year (y + 1)"
proof -
  let ?k = "nat (m - 1)" let ?ls = "month_lengths y"
  show "days_before_year y \<le> month_start y m" using months_before by (simp add: month_start_def)
  have k: "?k < length ?ls" using assms by (simp add: year_lengths)
  have "sum_list ?ls = sum_list (take ?k ?ls) + (?ls ! ?k + sum_list (drop (Suc ?k) ?ls))"
    using id_take_nth_drop [OF k] by (metis sum_list.Cons sum_list.append)
  moreover have "0 \<le> sum_list (drop (Suc ?k) ?ls)" by (rule sum_list_nonneg) (auto simp: month_lengths_def dest!: in_set_dropD split: if_split_asm)
  ultimately show "month_start y m + days_in_month y m \<le> days_before_year (y + 1)"
    using next_year [of y] by (simp add: month_start_def days_in_month_def year_lengths)
qed

text \<open>Every day of a month has its year, its month, and its number in the month.\<close>

lemma date_in_month:
  assumes "1 \<le> y" "1 \<le> m" "m \<le> 12" "0 \<le> d" "d < days_in_month y m"
  shows "date_of (month_start y m + d) = (y, m, d + 1)"
proof -
  let ?k = "nat (m - 1)" let ?ls = "month_lengths y"
  have k: "?k < length ?ls" using assms(2,3) by (simp add: year_lengths)
  have at: "split_months 1 ?ls (sum_list (take ?k ?ls) + d) = (m, d + 1)"
    using split_months_at [OF k month_lengths_pos assms(4), of 1] assms(2,5) by (simp add: days_in_month_def)
  have "0 \<le> days_before_year y" using days_before_mono [OF assms(1)] by (simp add: days_before_year_def)
  then have "year_of (month_start y m + d) = y"
    using assms(4,5) month_in_year [OF assms(2,3), of y] by (intro year_unique) simp_all
  with at show ?thesis by (simp add: date_of_def month_start_def Let_def)
qed

lemma date_exists:
  assumes "0 \<le> n"
  obtains y m d where "1 \<le> y" "1 \<le> m" "m \<le> 12" "0 \<le> d" "d < days_in_month y m" "n = month_start y m + d"
proof -
  let ?y = "year_of n"
  have "n - days_before_year ?y < sum_list (month_lengths ?y)"
    using year_of_bounds(2) [OF assms] next_year [of ?y] by (simp add: year_lengths split: if_split_asm)
  then obtain k d where k: "k < 12" "0 \<le> d" "d < month_lengths ?y ! k" "n - days_before_year ?y = sum_list (take k (month_lengths ?y)) + d"
    using split_months_exists [of "n - days_before_year ?y" "month_lengths ?y"] year_of_bounds(1) [OF assms] by (auto simp: year_lengths)
  have "1 \<le> ?y"
  proof (rule ccontr)
    assume "\<not> 1 \<le> ?y"
    then have "days_before_year (?y + 1) \<le> days_before_year 1" by (intro days_before_mono) simp
    with year_of_bounds(2) [OF assms] assms show False by (simp add: days_before_year_def)
  qed
  then show ?thesis
    using k by (intro that [of ?y "int k + 1" d]) (simp_all add: days_in_month_def month_start_def)
qed

lemma month_after: "1 \<le> m \<Longrightarrow> m < 12 \<Longrightarrow> month_start y (m + 1) = month_start y m + days_in_month y m"
proof -
  assume m: "1 \<le> m" "m < 12"
  then have "nat (m - 1) < length (month_lengths y)" "nat (m + 1 - 1) = Suc (nat (m - 1))" by (simp_all add: year_lengths)
  then show ?thesis by (simp add: month_start_def days_in_month_def take_Suc_conv_app_nth)
qed

lemma january_after: "month_start (y + 1) 1 = month_start y 12 + days_in_month y 12"
  by (simp add: month_start_def days_in_month_def next_year month_lengths_def)

lemma days_in_month_bounds: "1 \<le> m \<Longrightarrow> m \<le> 12 \<Longrightarrow> 28 \<le> days_in_month y m \<and> days_in_month y m \<le> 31"
proof -
  assume "1 \<le> m" "m \<le> 12"
  then have "m \<in> {1, 2, 3, 4, 5, 6, 7, 8, 9, 10, 11, 12}" by simp arith
  then show ?thesis by (auto simp: days_in_month_def month_lengths_def)
qed

section \<open>Moments and zones\<close>

definition MAX_MOMENT :: int where "MAX_MOMENT = days_before_year 10000 * DAY"

text \<open>\<open>w + timedelta(days=n)\<close>, and \<open>w.replace(hour=..., minute=..., second=0, microsecond=0)\<close>.\<close>

definition plus_days :: "int \<Rightarrow> int \<Rightarrow> int result" where
  "plus_days w n = (let w' = w + n * DAY in if 0 \<le> w' \<and> w' < MAX_MOMENT then Inr w' else Inl (OverflowError ''date value out of range''))"

definition at_time :: "int \<Rightarrow> int \<Rightarrow> int \<Rightarrow> int" where
  "at_time hour minute w = w div DAY * DAY + (hour * 60 + minute) * 60000000"

definition weekday :: "int \<Rightarrow> int" where "weekday w = w div DAY mod 7"

definition replace_day :: "int \<Rightarrow> int \<Rightarrow> int result" where
  "replace_day day w =
     (let (y, m, d) = date_of (w div DAY)
      in if 1 \<le> day \<and> day \<le> days_in_month y m then Inr ((month_start y m + day - 1) * DAY + w mod DAY)
         else Inl (ValueError ''day is out of range for month''))"

text \<open>The first day of the next month, and the last day of the month.\<close>

definition next_first :: "int \<Rightarrow> int result" where
  "next_first w =
     (let (y, m, d) = date_of (w div DAY)
      in if m < 12 then Inr (month_start y (m + 1) * DAY + w mod DAY)
         else if y < 9999 then Inr (month_start (y + 1) 1 * DAY + w mod DAY)
         else Inl (ValueError ''year 10000 is out of range''))"

definition last_day :: "int \<Rightarrow> int result" where
  "last_day w = rbind (next_first w) (\<lambda>n. plus_days n (- 1))"

text \<open>
  A zone of \<open>zoneinfo\<close>: the local time of a moment, with the fold that tells the second of two equal
  local times, and the moment of a local time with its fold.
\<close>

record zone =
  zo_wall :: "int \<Rightarrow> int \<times> bool"
  zo_utc :: "int \<Rightarrow> bool \<Rightarrow> int"

definition to_utc_naive :: "zone option \<Rightarrow> int \<times> bool \<Rightarrow> int" where
  "to_utc_naive tz dt = (case tz of None \<Rightarrow> fst dt | Some z \<Rightarrow> zo_utc z (fst dt) (snd dt))"

section \<open>The next run of a schedule\<close>

record schedule_spec =
  sp_schedule :: "string option"
  sp_time :: "string option"
  sp_day :: "int option"
  sp_date :: "int option"
  sp_cron :: "string option"

text \<open>\<open>HH:MM\<close>; what follows a second colon is ignored.\<close>

definition parse_time :: "string \<Rightarrow> (int \<times> int) option" where
  "parse_time s =
     (case split_on CHR '':'' s of
        h # m # _ \<Rightarrow>
          (case (parse_int h, parse_int m) of
             (Some hour, Some minute) \<Rightarrow> if 0 \<le> hour \<and> hour \<le> 23 \<and> 0 \<le> minute \<and> minute \<le> 59 then Some (hour, minute) else None
           | _ \<Rightarrow> None)
      | _ \<Rightarrow> None)"

text \<open>A sum with a \<open>timedelta\<close> has fold zero, \<open>replace\<close> keeps the fold; two local times compare without it.\<close>

definition daily_run :: "int \<times> int \<Rightarrow> int \<times> bool \<Rightarrow> (int \<times> bool) result" where
  "daily_run hm now =
     (let candidate = at_time (fst hm) (snd hm) (fst now)
      in if candidate \<le> fst now then rbind (plus_days candidate 1) (\<lambda>c. Inr (c, False)) else Inr (candidate, snd now))"

definition weekly_run :: "int \<Rightarrow> int \<times> int \<Rightarrow> int \<times> bool \<Rightarrow> (int \<times> bool) result" where
  "weekly_run day hm now =
     (let candidate = at_time (fst hm) (snd hm) (fst now);
          ahead = day - weekday candidate;
          ahead = (if ahead < 0 \<or> ahead = 0 \<and> candidate \<le> fst now then ahead + 7 else ahead)
      in rbind (plus_days candidate ahead) (\<lambda>c. Inr (c, False)))"

text \<open>The day of the month of a local time, or its last day when it has no such day.\<close>

definition day_or_last :: "int \<Rightarrow> int \<times> int \<Rightarrow> int \<times> bool \<Rightarrow> (int \<times> bool) result" where
  "day_or_last day hm now =
     (case replace_day day (fst now) of
        Inr c \<Rightarrow> Inr (at_time (fst hm) (snd hm) c, snd now)
      | Inl _ \<Rightarrow> rbind (last_day (fst now)) (\<lambda>c. Inr (at_time (fst hm) (snd hm) c, False)))"

definition monthly_run :: "int \<Rightarrow> int \<times> int \<Rightarrow> int \<times> bool \<Rightarrow> (int \<times> bool) result" where
  "monthly_run day hm now =
     rbind (day_or_last day hm now) (\<lambda>candidate.
       if fst candidate \<le> fst now then rbind (next_first (fst now)) (\<lambda>n. day_or_last day hm (n, snd now))
       else Inr candidate)"

text \<open>\<open>cron\<close> is what \<open>croniter\<close> gives for an expression after a local time, if it accepts the expression.\<close>

definition compute_next_run ::
    "(string \<Rightarrow> int \<times> bool \<Rightarrow> (int \<times> bool) option) \<Rightarrow> zone option \<Rightarrow> int \<Rightarrow> schedule_spec \<Rightarrow> int option result" where
  "compute_next_run cron tz after s =
     (let now = (case tz of None \<Rightarrow> (after, False) | Some z \<Rightarrow> zo_wall z after);
          at_utc = (\<lambda>dt. Inr (Some (to_utc_naive tz dt)))
      in if sp_schedule s = Some ''cron'' \<and> sp_cron s \<noteq> None \<and> sp_cron s \<noteq> Some [] then
           (case cron (the (sp_cron s)) now of None \<Rightarrow> Inr None | Some nxt \<Rightarrow> at_utc nxt)
         else if sp_schedule s = Some ''once'' then
           (case sp_date s of
              None \<Rightarrow> Inr None
            | Some d \<Rightarrow> Inr (if to_utc_naive tz now < d then Some d else None))
         else case sp_time s of
           None \<Rightarrow> Inr None
         | Some t \<Rightarrow>
             (case parse_time t of
                None \<Rightarrow> Inr None
              | Some hm \<Rightarrow>
                  if sp_schedule s = Some ''daily'' then rbind (daily_run hm now) at_utc
                  else if sp_schedule s = Some ''weekly'' then
                    rbind (weekly_run (case sp_day s of None \<Rightarrow> 0 | Some d \<Rightarrow> d) hm now) at_utc
                  else if sp_schedule s = Some ''monthly'' then
                    rbind (monthly_run (case sp_day s of None \<Rightarrow> 1 | Some d \<Rightarrow> d) hm now) at_utc
                  else Inr None))"

section \<open>The next run is the first\<close>

text \<open>The moments at which a schedule without a zone fires.\<close>

definition fires_at :: "schedule_spec \<Rightarrow> int \<times> int \<Rightarrow> int \<Rightarrow> bool" where
  "fires_at s hm w \<longleftrightarrow> w mod DAY = (fst hm * 60 + snd hm) * 60000000 \<and>
     (sp_schedule s = Some ''weekly'' \<longrightarrow> weekday w = (case sp_day s of None \<Rightarrow> 0 | Some d \<Rightarrow> d)) \<and>
     (sp_schedule s = Some ''monthly'' \<longrightarrow>
        (let (y, m, d) = date_of (w div DAY) in d = min (case sp_day s of None \<Rightarrow> 1 | Some d \<Rightarrow> d) (days_in_month y m)))"

definition is_first_after :: "int \<Rightarrow> (int \<Rightarrow> bool) \<Rightarrow> int \<Rightarrow> bool" where
  "is_first_after after P r \<longleftrightarrow> after < r \<and> P r \<and> (\<forall>w. after < w \<and> w < r \<longrightarrow> \<not> P w)"

lemma day_pos: "0 < DAY" by (simp add: DAY_def)

lemma time_of_day: "parse_time t = Some hm \<Longrightarrow> 0 \<le> (fst hm * 60 + snd hm) * 60000000 \<and> (fst hm * 60 + snd hm) * 60000000 < DAY"
  by (auto simp: parse_time_def DAY_def split: list.split_asm option.split_asm if_split_asm)

lemma day_split:
  assumes "0 \<le> t" "t < DAY"
  shows "(n * DAY + t) div DAY = n" "(n * DAY + t) mod DAY = t"
proof -
  have "(t + n * DAY) div DAY = n" "(t + n * DAY) mod DAY = t" using assms day_pos by simp_all
  then show "(n * DAY + t) div DAY = n" "(n * DAY + t) mod DAY = t" by (simp_all add: add.commute)
qed

lemma day_order:
  assumes "0 \<le> t" "t < DAY" "w mod DAY = t"
  shows "w = w div DAY * DAY + t" "w div DAY < w' div DAY \<Longrightarrow> w < w'" "w' < w \<Longrightarrow> w' div DAY \<le> w div DAY"
proof -
  show "w = w div DAY * DAY + t" using assms(3) div_mult_mod_eq [of w DAY] by simp
  show "w < w'" if "w div DAY < w' div DAY" using that zdiv_mono1 [of w' w DAY] day_pos by linarith
  show "w' div DAY \<le> w div DAY" if "w' < w" using that zdiv_mono1 [of w' w DAY] day_pos by simp
qed

text \<open>
  A schedule that fires once per period, at a given day of it: the first moment after another one
  is in its period, or in the next one.
\<close>

lemma first_of_days:
  assumes t: "0 \<le> t" "t < DAY"
    and P: "\<And>w. P w \<longleftrightarrow> w mod DAY = t \<and> D (w div DAY)"
    and n: "D n" "n * DAY + t > after" "\<And>k. after div DAY \<le> k \<Longrightarrow> k < n \<Longrightarrow> D k \<Longrightarrow> k * DAY + t \<le> after"
  shows "is_first_after after P (n * DAY + t)"
  unfolding is_first_after_def
proof (intro conjI allI impI)
  show "after < n * DAY + t" by (rule n(2))
  show "P (n * DAY + t)" using n(1) by (simp only: P day_split [OF t] simp_thms)
  fix w assume w: "after < w \<and> w < n * DAY + t"
  show "\<not> P w"
  proof
    assume "P w"
    then have p: "w mod DAY = t" "D (w div DAY)" by (simp_all add: P)
    have e: "w = w div DAY * DAY + t" by (rule day_order(1) [OF t p(1)])
    have "after div DAY \<le> w div DAY" using day_order(3) [OF t p(1)] w by simp
    moreover have "w div DAY < n"
    proof (rule ccontr)
      assume "\<not> w div DAY < n"
      then have "n * DAY \<le> w div DAY * DAY" using day_pos by simp
      with w e show False by simp
    qed
    ultimately have "w div DAY * DAY + t \<le> after" using n(3) p(2) by blast
    with e w show False by simp
  qed
qed

lemma at_time_split: "at_time h m w = w div DAY * DAY + (h * 60 + m) * 60000000" by (simp add: at_time_def)

lemma day_bounds: "w div DAY * DAY \<le> w" "w < w div DAY * DAY + DAY"
  using div_mult_mod_eq [of w DAY] pos_mod_bound [OF day_pos, of w] pos_mod_sign [OF day_pos, of w] by linarith+

text \<open>Before the year 9999 no sum with a few days leaves the calendar.\<close>

lemma room: "after < days_before_year 9999 * DAY \<Longrightarrow> n \<le> after div DAY + 62 \<Longrightarrow> 0 \<le> n \<Longrightarrow> 0 \<le> t \<Longrightarrow> t < DAY \<Longrightarrow>
    0 \<le> n * DAY + t \<and> n * DAY + t < MAX_MOMENT"
proof -
  assume a: "after < days_before_year 9999 * DAY" "n \<le> after div DAY + 62" "0 \<le> n" "0 \<le> t" "t < DAY"
  have "after div DAY < days_before_year 9999"
  proof (rule ccontr)
    assume "\<not> ?thesis"
    then have "days_before_year 9999 * DAY \<le> after div DAY * DAY" using day_pos by simp
    with day_bounds(1) [of after] a(1) show False by simp
  qed
  then have "n + 1 \<le> days_before_year 10000" using a(2) by (simp add: days_before_year_def)
  then have "(n + 1) * DAY \<le> days_before_year 10000 * DAY" using day_pos by (intro mult_right_mono) simp_all
  with a(3-5) day_pos show ?thesis by (simp add: MAX_MOMENT_def distrib_right)
qed

lemma plus_days_ok:
  assumes "after < days_before_year 9999 * DAY" "n + k \<le> after div DAY + 62" "0 \<le> n + k" "0 \<le> t" "t < DAY"
  shows "plus_days (n * DAY + t) k = Inr ((n + k) * DAY + t)"
  using room [OF assms] by (simp add: plus_days_def distrib_right Let_def algebra_simps)

lemma daily_first:
  assumes "0 \<le> after" "after < days_before_year 9999 * DAY" "0 \<le> t" "t < DAY" "t = (fst hm * 60 + snd hm) * 60000000"
    and P: "\<And>w. P w \<longleftrightarrow> w mod DAY = t"
  shows "\<exists>r. daily_run hm (after, False) = Inr (r, False) \<and> is_first_after after P r"
proof -
  let ?n = "after div DAY"
  have n: "0 \<le> ?n" using assms(1) day_pos by (simp add: pos_imp_zdiv_nonneg_iff)
  have c: "at_time (fst hm) (snd hm) after = ?n * DAY + t" by (simp add: at_time_split assms(5))
  have P': "\<And>w. P w \<longleftrightarrow> w mod DAY = t \<and> True" by (simp add: P)
  show ?thesis
  proof (cases "?n * DAY + t \<le> after")
    case True
    have "is_first_after after P ((?n + 1) * DAY + t)"
    proof (rule first_of_days [OF assms(3,4) P'])
      show "after < (?n + 1) * DAY + t"
        using assms(3) day_bounds(2) [of after] by (simp add: distrib_right)
      show "k * DAY + t \<le> after" if "after div DAY \<le> k" "k < after div DAY + 1" for k
        using that True by (metis add1_zle_eq dual_order.antisym zle_add1_eq_le)
    qed simp
    moreover have "plus_days (?n * DAY + t) 1 = Inr ((?n + 1) * DAY + t)"
      by (rule plus_days_ok [OF assms(2)]) (use n assms in simp_all)
    ultimately show ?thesis using True by (simp add: daily_run_def c)
  next
    case False
    have "is_first_after after P (?n * DAY + t)"
      by (rule first_of_days [OF assms(3,4) P']) (use False in simp_all)
    with False show ?thesis by (simp add: daily_run_def c)
  qed
qed

lemma weekly_first:
  assumes "0 \<le> after" "after < days_before_year 9999 * DAY" "0 \<le> t" "t < DAY" "t = (fst hm * 60 + snd hm) * 60000000"
    and "0 \<le> day" "day \<le> 6"
    and P: "\<And>w. P w \<longleftrightarrow> w mod DAY = t \<and> weekday w = day"
  shows "\<exists>r. weekly_run day hm (after, False) = Inr (r, False) \<and> is_first_after after P r"
proof -
  let ?n = "after div DAY" let ?c = "?n * DAY + t"
  have n: "0 \<le> ?n" using assms(1) day_pos by (simp add: pos_imp_zdiv_nonneg_iff)
  have c: "at_time (fst hm) (snd hm) after = ?c" by (simp add: at_time_split assms(5))
  have wd: "weekday ?c = ?n mod 7" using day_split [OF assms(3,4)] by (simp add: weekday_def)
  define ahead where "ahead = (if day - ?n mod 7 < 0 \<or> day = ?n mod 7 \<and> ?c \<le> after then day - ?n mod 7 + 7 else day - ?n mod 7)"
  have m: "0 \<le> ?n mod 7" "?n mod 7 < 7" by simp_all
  have a: "0 \<le> ahead" "ahead \<le> 7" "ahead = 0 \<longleftrightarrow> day = ?n mod 7 \<and> after < ?c" "ahead = 7 \<longleftrightarrow> day = ?n mod 7 \<and> ?c \<le> after"
    using assms(6,7) m by (auto simp: ahead_def)
  have wa: "(?n + ahead) mod 7 = day"
  proof -
    have "\<exists>q. ?n + ahead = day + 7 * q"
    proof (cases "day - ?n mod 7 < 0 \<or> day = ?n mod 7 \<and> ?c \<le> after")
      case True
      then show ?thesis by (intro exI [of _ "?n div 7 + 1"]) (simp add: ahead_def minus_mod_eq_mult_div)
    next
      case False
      then show ?thesis by (intro exI [of _ "?n div 7"]) (simp add: ahead_def minus_mod_eq_mult_div)
    qed
    then obtain q where "?n + ahead = day + 7 * q" by blast
    with assms(6,7) show ?thesis by simp
  qed
  have P': "\<And>w. P w \<longleftrightarrow> w mod DAY = t \<and> (\<lambda>k. k mod 7 = day) (w div DAY)" by (simp add: P weekday_def)
  have "is_first_after after P ((?n + ahead) * DAY + t)"
  proof (rule first_of_days [OF assms(3,4) P'])
    show "(?n + ahead) mod 7 = day" by (rule wa)
    show "after < (?n + ahead) * DAY + t"
    proof (cases "ahead = 0")
      case False
      then have "(?n + 1) * DAY \<le> (?n + ahead) * DAY" using a(1) day_pos by (intro mult_right_mono) simp_all
      then show ?thesis
        using assms(3) day_bounds(2) [of after] by (simp add: distrib_right)
    qed (use a(3) in simp)
    show "k * DAY + t \<le> after" if k: "?n \<le> k" "k < ?n + ahead" "k mod 7 = day" for k
    proof (cases "k = ?n")
      case True
      with k(2,3) a show ?thesis by auto
    next
      case False
      then have "0 < (?n + ahead) - k" "(?n + ahead) - k < 7" using k a(2) by auto
      moreover have "((?n + ahead) - k) mod 7 = 0" using mod_eq_dvd_iff [of "?n + ahead" 7 k] wa k(3) by (metis dvd_imp_mod_0)
      ultimately show ?thesis by simp
    qed
  qed
  moreover have "plus_days ?c ahead = Inr ((?n + ahead) * DAY + t)"
    by (rule plus_days_ok [OF assms(2)]) (use n a assms in simp_all)
  moreover have "weekly_run day hm (after, False) = rbind (plus_days ?c ahead) (\<lambda>c. Inr (c, False))"
    by (simp add: weekly_run_def Let_def c wd ahead_def)
  ultimately show ?thesis by simp
qed

abbreviation month_day :: "int \<Rightarrow> int \<Rightarrow> int \<Rightarrow> int" where
  "month_day day y m \<equiv> month_start y m + min day (days_in_month y m) - 1"

lemma next_first_at:
  assumes "1 \<le> y" "1 \<le> m" "m \<le> 12" "0 \<le> d" "d < days_in_month y m" "w div DAY = month_start y m + d" "m < 12 \<or> y < 9999"
  shows "next_first w = Inr ((month_start y m + days_in_month y m) * DAY + w mod DAY)"
  using date_in_month [OF assms(1-5)] assms(6,7) month_after [OF assms(2), of y] january_after [of y] assms(3)
  by (cases "m < 12") (auto simp: next_first_def)

lemma day_or_last_at:
  assumes "1 \<le> y" "1 \<le> m" "m \<le> 12" "0 \<le> d" "d < days_in_month y m" "w div DAY = month_start y m + d" "m < 12 \<and> y \<le> 9999 \<or> y < 9999"
    and "1 \<le> day" "t = (fst hm * 60 + snd hm) * 60000000" "0 \<le> t" "t < DAY"
  shows "day_or_last day hm (w, False) = Inr (month_day day y m * DAY + t, False)"
proof -
  have w: "0 \<le> w mod DAY" "w mod DAY < DAY" using day_pos by simp_all
  note split = day_split [OF w]
  show ?thesis
  proof (cases "day \<le> days_in_month y m")
    case True
    then have "replace_day day w = Inr ((month_start y m + day - 1) * DAY + w mod DAY)"
      using date_in_month [OF assms(1-5)] assms(6,8) by (simp add: replace_day_def)
    with True show ?thesis by (simp add: day_or_last_def at_time_split split assms(9))
  next
    case False
    then have r: "is_ok (replace_day day w) = False"
      using date_in_month [OF assms(1-5)] assms(6,8) by (simp add: replace_day_def)
    let ?l = "month_start y m + days_in_month y m"
    have "0 \<le> days_before_year y" using days_before_mono [OF assms(1)] by (simp add: days_before_year_def)
    moreover have "28 \<le> days_in_month y m" using days_in_month_bounds [OF assms(2,3)] by simp
    moreover have "days_before_year (y + 1) \<le> days_before_year 10000" using assms(7) by (intro days_before_mono) auto
    ultimately have "0 \<le> ?l - 1" "?l \<le> days_before_year 10000" using month_in_year [OF assms(2,3), of y] by linarith+
    then have "0 \<le> (?l - 1) * DAY + w mod DAY" "(?l - 1) * DAY + w mod DAY < MAX_MOMENT"
      using w mult_nonneg_nonneg [of "?l - 1" DAY] mult_right_mono [of ?l "days_before_year 10000" DAY] day_pos
      unfolding MAX_MOMENT_def left_diff_distrib by linarith+
    then have "plus_days (?l * DAY + w mod DAY) (- 1) = Inr ((?l - 1) * DAY + w mod DAY)"
      by (simp add: plus_days_def Let_def left_diff_distrib algebra_simps)
    moreover have "next_first w = Inr (?l * DAY + w mod DAY)" by (rule next_first_at [OF assms(1-6)]) (use assms(7) in auto)
    ultimately have "last_day w = Inr ((?l - 1) * DAY + w mod DAY)" by (simp add: last_day_def)
    moreover have "at_time (fst hm) (snd hm) ((?l - 1) * DAY + w mod DAY) = (?l - 1) * DAY + t"
      unfolding at_time_split split assms(9) ..
    ultimately show ?thesis using False r by (cases "replace_day day w") (simp_all add: day_or_last_def min_def)
  qed
qed

definition on_day :: "int \<Rightarrow> int \<Rightarrow> bool" where
  "on_day day k = (case date_of k of (y, m, d) \<Rightarrow> d = min day (days_in_month y m))"

lemma on_day_at:
  assumes "1 \<le> y" "1 \<le> m" "m \<le> 12" "month_start y m \<le> k" "k < month_start y m + days_in_month y m"
  shows "on_day day k \<longleftrightarrow> k = month_day day y m"
  using date_in_month [OF assms(1-3), of "k - month_start y m"] assms(4,5) by (auto simp: on_day_def)

lemma month_day_in: "1 \<le> m \<Longrightarrow> m \<le> 12 \<Longrightarrow> 1 \<le> day \<Longrightarrow>
    month_start y m \<le> month_day day y m \<and> month_day day y m < month_start y m + days_in_month y m"
  using days_in_month_bounds [of m y] by auto

lemma monthly_first:
  assumes "0 \<le> after" "after < days_before_year 9999 * DAY" "0 \<le> t" "t < DAY" "t = (fst hm * 60 + snd hm) * 60000000"
    and day: "1 \<le> day"
    and P: "\<And>w. P w \<longleftrightarrow> w mod DAY = t \<and> on_day day (w div DAY)"
  shows "\<exists>r. monthly_run day hm (after, False) = Inr (r, False) \<and> is_first_after after P r"
proof -
  let ?n = "after div DAY"
  have "0 \<le> ?n" using assms(1) day_pos by (simp add: pos_imp_zdiv_nonneg_iff)
  then obtain y m d where e: "1 \<le> y" "1 \<le> m" "m \<le> 12" "0 \<le> d" "d < days_in_month y m" "?n = month_start y m + d" by (rule date_exists)
  have y: "y < 9999"
  proof (rule ccontr)
    assume "\<not> y < 9999"
    then have "days_before_year 9999 \<le> ?n" using days_before_mono [of 9999 y] month_in_year(1) [OF e(2,3), of y] e(4,6) by simp
    then have "days_before_year 9999 * DAY \<le> ?n * DAY" using day_pos by simp
    with day_bounds(1) [of after] assms(2) show False by simp
  qed
  let ?k = "month_day day y m"
  have here: "day_or_last day hm (after, False) = Inr (?k * DAY + t, False)"
    by (rule day_or_last_at [OF e]) (use y day assms in auto)
  show ?thesis
  proof (cases "?k * DAY + t \<le> after")
    case False
    have "is_first_after after P (?k * DAY + t)"
    proof (rule first_of_days [OF assms(3,4) P])
      show "on_day day ?k" using on_day_at [OF e(1-3), of ?k day] month_day_in [OF e(2,3) day] by simp
      show "k * DAY + t \<le> after" if k: "?n \<le> k" "k < ?k" "on_day day k" for k
        using on_day_at [OF e(1-3), of k day] month_day_in [OF e(2,3) day, of y] k e(4,6) by simp
    qed (use False in simp)
    with False here show ?thesis by (simp add: monthly_run_def)
  next
    case True
    define y' m' where "y' = (if m = 12 then y + 1 else y)" and "m' = (if m = 12 then 1 else m + 1)"
    let ?s = "month_start y m + days_in_month y m"
    have s: "?s = month_start y' m'"
      using month_after [OF e(2), of y] january_after [of y] e(3) by (auto simp: y'_def m'_def)
    have v: "1 \<le> y'" "1 \<le> m'" "m' \<le> 12" "m' < 12 \<and> y' \<le> 9999 \<or> y' < 9999" using e(1-3) y by (auto simp: y'_def m'_def)
    let ?w = "?s * DAY + after mod DAY" let ?k' = "month_day day y' m'"
    have nf: "next_first after = Inr ?w" by (rule next_first_at [OF e]) (use y in simp)
    have wd: "?w div DAY = month_start y' m' + 0" using day_split(1) [of "after mod DAY" ?s] day_pos s by simp
    have there: "day_or_last day hm (?w, False) = Inr (?k' * DAY + t, False)"
      by (rule day_or_last_at [OF v(1-3) _ _ wd v(4) day assms(5,3,4)]) (use days_in_month_bounds [OF v(2,3), of y'] in simp_all)
    have in': "?s \<le> ?k'" "?k' < ?s + days_in_month y' m'" using month_day_in [OF v(2,3) day, of y'] s by simp_all
    have "is_first_after after P (?k' * DAY + t)"
    proof (rule first_of_days [OF assms(3,4) P])
      show "on_day day ?k'" using on_day_at [OF v(1-3), of ?k' day] in' s by simp
      have "?n + 1 \<le> ?k'" using e(5,6) in' by simp
      then have "(?n + 1) * DAY \<le> ?k' * DAY" using day_pos by (intro mult_right_mono) simp_all
      then show "after < ?k' * DAY + t" using assms(3) day_bounds(2) [of after] by (simp add: distrib_right)
      show "k * DAY + t \<le> after" if k: "?n \<le> k" "k < ?k'" "on_day day k" for k
      proof (cases "k < ?s")
        case in_month: True
        then have "k = ?k" using on_day_at [OF e(1-3), of k day] k e(4,6) by simp
        with True show ?thesis by simp
      next
        case False
        with on_day_at [OF v(1-3), of k day] k in' s show ?thesis by simp
      qed
    qed
    with True here nf there show ?thesis by (simp add: monthly_run_def)
  qed
qed

lemma next_run_first:
  assumes "sp_schedule s \<in> {Some ''daily'', Some ''weekly'', Some ''monthly''}" "sp_time s = Some t" "parse_time t = Some hm"
    "sp_schedule s = Some ''weekly'' \<Longrightarrow> (case sp_day s of None \<Rightarrow> True | Some d \<Rightarrow> 0 \<le> d \<and> d \<le> 6)"
    "sp_schedule s = Some ''monthly'' \<Longrightarrow> (case sp_day s of None \<Rightarrow> True | Some d \<Rightarrow> 1 \<le> d)"
    "0 \<le> after" "after < days_before_year 9999 * DAY"
  shows "\<exists>r. compute_next_run cron None after s = Inr (Some r) \<and> is_first_after after (fires_at s hm) r"
proof -
  let ?t = "(fst hm * 60 + snd hm) * 60000000"
  have t: "0 \<le> ?t" "?t < DAY" using time_of_day [OF assms(3)] by simp_all
  note run = compute_next_run_def assms(2,3) to_utc_naive_def
  consider "sp_schedule s = Some ''daily''" | "sp_schedule s = Some ''weekly''" | "sp_schedule s = Some ''monthly''" using assms(1) by blast
  then show ?thesis
  proof cases
    case 1
    have "\<exists>r. daily_run hm (after, False) = Inr (r, False) \<and> is_first_after after (fires_at s hm) r"
      by (rule daily_first [OF assms(6,7) t refl]) (simp add: fires_at_def 1)
    then show ?thesis by (auto simp: run 1)
  next
    case 2
    let ?d = "case sp_day s of None \<Rightarrow> 0 | Some d \<Rightarrow> d"
    have "0 \<le> ?d" "?d \<le> 6" using assms(4) [OF 2] by (auto split: option.splits)
    then have "\<exists>r. weekly_run ?d hm (after, False) = Inr (r, False) \<and> is_first_after after (fires_at s hm) r"
      by (rule weekly_first [OF assms(6,7) t refl]) (simp add: fires_at_def 2)
    then show ?thesis by (auto simp: run 2)
  next
    case 3
    let ?d = "case sp_day s of None \<Rightarrow> 1 | Some d \<Rightarrow> d"
    have "1 \<le> ?d" using assms(5) [OF 3] by (auto split: option.splits)
    then have "\<exists>r. monthly_run ?d hm (after, False) = Inr (r, False) \<and> is_first_after after (fires_at s hm) r"
      by (rule monthly_first [OF assms(6,7) t refl]) (simp add: fires_at_def 3 on_day_def)
    then show ?thesis by (auto simp: run 3)
  qed
qed

text \<open>
  Claim C16. The next run is the first one. Without a zone, a daily, weekly or monthly schedule with a valid
  time has a next run: the first moment after the given one at that time of day, on that weekday, or
  on that day of the month, where a month that is too short has its last day. None is skipped.
\<close>

theorem next_run_is_first:
  assumes "sp_schedule s \<in> {Some ''daily'', Some ''weekly'', Some ''monthly''}" "sp_time s = Some t" "parse_time t = Some hm"
    "sp_schedule s = Some ''weekly'' \<Longrightarrow> (case sp_day s of None \<Rightarrow> True | Some d \<Rightarrow> 0 \<le> d \<and> d \<le> 6)"
    "sp_schedule s = Some ''monthly'' \<Longrightarrow> (case sp_day s of None \<Rightarrow> True | Some d \<Rightarrow> 1 \<le> d)"
    "0 \<le> after" "after < days_before_year 9999 * DAY"
  shows "\<exists>r. compute_next_run cron None after s = Inr (Some r) \<and> is_first_after after (fires_at s hm) r"
  by (rule next_run_first [OF assms])

theorem next_run_is_first_witness:
  "\<exists>r. compute_next_run (\<lambda>_ _. None) None (month_start 2023 2 * DAY)
       \<lparr>sp_schedule = Some ''monthly'', sp_time = Some ''09:30'', sp_day = Some 31, sp_date = None, sp_cron = None\<rparr> = Inr (Some r) \<and>
     is_first_after (month_start 2023 2 * DAY)
       (fires_at \<lparr>sp_schedule = Some ''monthly'', sp_time = Some ''09:30'', sp_day = Some 31, sp_date = None, sp_cron = None\<rparr> (9, 30)) r"
proof (rule next_run_is_first [where t = "''09:30''"])
  show "parse_time ''09:30'' = Some (9, 30)" by code_simp
  have "0 \<le> month_start 2023 2 \<and> month_start 2023 2 < days_before_year 9999" by code_simp
  then show "0 \<le> month_start 2023 2 * DAY" "month_start 2023 2 * DAY < days_before_year 9999 * DAY" using day_pos by simp_all
qed simp_all

section \<open>A fold\<close>

text \<open>
  London in the autumn of 2025: at one in the morning of Sunday the 26th of October, in UTC, the
  local time goes back from two to one. The hour from one to two is there twice.
\<close>

definition HOUR :: int where "HOUR = 3600000000"

definition clock_change :: int where "clock_change = (month_start 2025 10 + 25) * DAY + HOUR"

definition london :: zone where
  "london = \<lparr>zo_wall = (\<lambda>u. if u < clock_change then (u + HOUR, False) else (u, u < clock_change + HOUR)),
     zo_utc = (\<lambda>w fold. if w < clock_change \<or> w < clock_change + HOUR \<and> \<not> fold then w - HOUR else w)\<rparr>"

lemma london_zone: "zo_utc london (fst (zo_wall london u)) (snd (zo_wall london u)) = u"
  by (simp add: london_def HOUR_def)

text \<open>
  A weekly schedule can have its next run in the past. In the second pass of the hour that is there
  twice, a weekly schedule for a minute of that hour which has not come yet gets the same minute of the
  first pass as its next run, almost an hour ago, because adding a \<open>timedelta\<close> of no days drops the
  fold. The task is due at once, and so it is after every run until that minute has passed again.
\<close>

theorem weekly_run_in_the_past:
  assumes "sp_schedule s = Some ''weekly''" "sp_day s = Some 6" "sp_time s = Some ''01:55''"
    "clock_change \<le> after" "after < clock_change + 55 * 60000000"
  shows "\<exists>r. compute_next_run cron (Some london) after s = Inr (Some r) \<and> r = clock_change - 5 * 60000000 \<and> r < after"
proof -
  have p: "parse_time ''01:55'' = Some (1, 55)" by code_simp
  define n where "n = month_start 2025 10 + 25"
  have n: "n mod 7 = 6" "0 \<le> n" "n < days_before_year 10000" unfolding n_def by code_simp+
  have c: "clock_change = n * DAY + HOUR" by (simp add: clock_change_def n_def)
  have "n * DAY + (after - n * DAY) = after" by simp
  then have d: "after div DAY = n"
    using day_split(1) [of "after - n * DAY" n] assms(4,5) c by (simp add: HOUR_def DAY_def)
  have w: "zo_wall london after = (after, True)" using assms(4,5) by (simp add: london_def HOUR_def)
  have cand: "at_time 1 55 after = n * DAY + 115 * 60000000" by (simp add: at_time_def d)
  have wd: "weekday (n * DAY + 115 * 60000000) = 6"
    using day_split(1) [of "115 * 60000000" n] n(1) by (simp add: weekday_def DAY_def)
  have "(n + 1) * DAY \<le> MAX_MOMENT" using n(3) by (simp add: MAX_MOMENT_def DAY_def)
  then have plus: "plus_days (n * DAY + 115 * 60000000) 0 = Inr (n * DAY + 115 * 60000000)"
    using n(2) by (simp add: plus_days_def DAY_def)
  have "\<not> n * DAY + 115 * 60000000 \<le> after" using assms(5) c by (simp add: HOUR_def)
  then have "weekly_run 6 (1, 55) (after, True) = Inr (n * DAY + 115 * 60000000, False)"
    using cand wd plus by (simp add: weekly_run_def)
  moreover have "zo_utc london (n * DAY + 115 * 60000000) False = clock_change - 5 * 60000000"
    by (simp add: london_def c HOUR_def)
  ultimately have "compute_next_run cron (Some london) after s = Inr (Some (clock_change - 5 * 60000000))"
    using assms(1-3) p w by (simp add: compute_next_run_def to_utc_naive_def)
  with assms(4) show ?thesis by simp
qed

theorem weekly_run_in_the_past_witness:
  "\<exists>r. compute_next_run (\<lambda>_ _. None) (Some london) (clock_change + 60000000)
       \<lparr>sp_schedule = Some ''weekly'', sp_time = Some ''01:55'', sp_day = Some 6, sp_date = None, sp_cron = None\<rparr> = Inr (Some r) \<and>
     r = clock_change - 5 * 60000000 \<and> r < clock_change + 60000000"
  by (rule weekly_run_in_the_past) simp_all

end
