(* ===== verification/TaskScheduler.thy ===== *)
theory TaskScheduler
  imports TaskCalendar ToolPolicy
begin

text \<open>
  The scheduler of tasks (\<open>TaskScheduler\<close> of \<open>src/task_scheduler.py\<close>) with the events that trigger
  tasks (\<open>src/event_bus.py\<close>): the rows of tasks and runs, the coroutines that execute them, the set
  of tasks in execution and the slot. A coroutine is split where it suspends: it begins, waits for the
  slot, waits for a quiet foreground, runs, and ends with a result, an exception or a cancellation.

  What an execution does, its delivery and the log of the assistant are the outcome, a parameter; a
  commit succeeds. The handlers end a run, advance the task, report, and start the task that follows.
\<close>

section \<open>Tasks, runs and executions\<close>

record task_row =
  tr_owner :: "string option"
  tr_name :: string
  tr_type :: "string option"
  tr_action :: "string option"
  tr_status :: string
  tr_trigger :: "string option"
  tr_event :: "string option"
  tr_threshold :: "int option"
  tr_counter :: "int option"
  tr_spec :: schedule_spec
  tr_next :: "int option"
  tr_last :: "int option"
  tr_runs :: "int option"
  tr_then :: "string option"
  tr_notify :: bool
  tr_output :: "string option"

record run_row =
  rr_task :: string
  rr_status :: string
  rr_result :: "string option"
  rr_error :: "string option"
  rr_started :: int
  rr_finished :: "int option"

text \<open>
  A coroutine that executes a task stands before its first step, waits for the slot, waits until the
  foreground is quiet, or runs. \<open>Chained\<close> is one that still has to enter the set of tasks in
  execution.
\<close>

datatype phase = Chained | Created | Queued | Gated | Running

record flight =
  fl_task :: string
  fl_bypass :: bool
  fl_release :: bool
  fl_slot :: bool
  fl_phase :: phase
  fl_cancelled :: bool

record notification =
  nt_name :: string
  nt_status :: string
  nt_task :: "string option"
  nt_owner :: "string option"
  nt_body :: "string option"
  nt_time :: int

text \<open>
  Executions and their runs are numbered: \<open>uuid4\<close> draws an identifier that was not drawn before.
\<close>

record sched =
  sd_tasks :: "task_row dict"
  sd_runs :: "(nat \<times> run_row) list"
  sd_executing :: "string list"
  sd_handles :: "(string \<times> nat) list"
  sd_flights :: "(nat \<times> flight) list"
  sd_slot :: "nat option"
  sd_fresh :: nat
  sd_defers :: "int dict"
  sd_notes :: "notification list"

text \<open>The zone of a task, \<open>croniter\<close>, the accounts, and the texts outside Latin-1.\<close>

record sched_env =
  sv_zone :: "string \<Rightarrow> zone option"
  sv_cron :: "string \<Rightarrow> int \<times> bool \<Rightarrow> (int \<times> bool) option"
  sv_auth_disabled :: bool
  sv_auth :: "auth_state option"
  sv_queued_text :: string
  sv_waiting_text :: string
  sv_starting_text :: string
  sv_ellipsis :: string

abbreviation set_run :: "nat \<Rightarrow> run_row \<Rightarrow> sched \<Rightarrow> sched" where
  "set_run n u s \<equiv> s\<lparr>sd_runs := AList.update n u (sd_runs s)\<rparr>"

abbreviation set_task :: "string \<Rightarrow> task_row \<Rightarrow> sched \<Rightarrow> sched" where
  "set_task i t s \<equiv> s\<lparr>sd_tasks := dset i t (sd_tasks s)\<rparr>"

abbreviation set_flight :: "nat \<Rightarrow> flight \<Rightarrow> sched \<Rightarrow> sched" where
  "set_flight n f s \<equiv> s\<lparr>sd_flights := AList.update n f (sd_flights s)\<rparr>"

definition active_run :: "run_row \<Rightarrow> bool" where
  "active_run u = (rr_status u \<in> set [''queued'', ''running''])"

text \<open>What the update of a row does where the query finds it.\<close>

definition alter_run :: "nat \<Rightarrow> (run_row \<Rightarrow> run_row) \<Rightarrow> sched \<Rightarrow> sched" where
  "alter_run n f s = (case map_of (sd_runs s) n of None \<Rightarrow> s | Some u \<Rightarrow> set_run n (f u) s)"

definition alter_task :: "string \<Rightarrow> (task_row \<Rightarrow> task_row) \<Rightarrow> sched \<Rightarrow> sched" where
  "alter_task i f s = (case dget (sd_tasks s) i of None \<Rightarrow> s | Some t \<Rightarrow> set_task i (f t) s)"

section \<open>Notifications\<close>

definition add_notification :: "sched_env \<Rightarrow> int \<Rightarrow> string \<Rightarrow> string \<Rightarrow> string option \<Rightarrow> string option \<Rightarrow> string option \<Rightarrow> sched \<Rightarrow> sched" where
  "add_notification env now task_name result_status task_id owner body s =
     (let body = (case body of Some b \<Rightarrow> Some (if 500 < length b then take 500 b @ sv_ellipsis env else b) | None \<Rightarrow> None);
          notes = sd_notes s @ [\<lparr>nt_name = task_name, nt_status = result_status, nt_task = task_id, nt_owner = owner, nt_body = body, nt_time = now\<rparr>]
      in s\<lparr>sd_notes := drop (length notes - 50) notes\<rparr>)"

definition pop_notifications :: "string option \<Rightarrow> sched \<Rightarrow> sched \<times> notification list" where
  "pop_notifications owner s =
     (case owner of
        None \<Rightarrow> (s\<lparr>sd_notes := []\<rparr>, sd_notes s)
      | Some _ \<Rightarrow> (s\<lparr>sd_notes := filter (\<lambda>n. nt_owner n \<noteq> owner) (sd_notes s)\<rparr>, filter (\<lambda>n. nt_owner n = owner) (sd_notes s)))"

section \<open>Dispatch\<close>

definition spawn :: "string \<Rightarrow> bool \<Rightarrow> bool \<Rightarrow> phase \<Rightarrow> sched \<Rightarrow> sched" where
  "spawn i bypass release ph s =
     s\<lparr>sd_flights := AList.update (sd_fresh s) \<lparr>fl_task = i, fl_bypass = bypass, fl_release = release, fl_slot = False, fl_phase = ph, fl_cancelled = False\<rparr> (sd_flights s),
       sd_fresh := Suc (sd_fresh s)\<rparr>"

definition run_task_now :: "string \<Rightarrow> bool \<Rightarrow> sched \<Rightarrow> sched \<times> bool" where
  "run_task_now i force s =
     (if force then (spawn i True False Created s, True)
      else if i \<in> set (sd_executing s) then (s, False)
      else (spawn i False True Created (s\<lparr>sd_executing := i # sd_executing s\<rparr>), True))"

definition is_due :: "int \<Rightarrow> task_row \<Rightarrow> bool" where
  "is_due now t = (tr_status t = ''active'' \<and> (case tr_next t of None \<Rightarrow> False | Some w \<Rightarrow> w \<le> now))"

definition MINUTE :: int where "MINUTE = 60000000"

text \<open>A tick: every task that is due and not in execution is dispatched, or put off when the foreground is busy.\<close>

definition check_due_tasks :: "int \<Rightarrow> bool \<Rightarrow> sched \<Rightarrow> sched" where
  "check_due_tasks now foreground s =
     (let due = map fst (filter (\<lambda>(i, t). is_due now t \<and> i \<notin> set (sd_executing s)) (sd_tasks s))
      in foldl (\<lambda>s i. if foreground then alter_task i (\<lambda>t. t\<lparr>tr_next := Some (now + 15 * MINUTE)\<rparr>) s
                       else spawn i False True Created (s\<lparr>sd_executing := i # sd_executing s\<rparr>)) s due)"

section \<open>The steps of an execution\<close>

text \<open>The end of a coroutine: its handle, its slot and its place in the set of tasks in execution.\<close>

definition conclude :: "nat \<Rightarrow> flight \<Rightarrow> sched \<Rightarrow> sched" where
  "conclude n f s =
     s\<lparr>sd_flights := AList.delete n (sd_flights s),
       sd_handles := filter (\<lambda>(i, h). \<not> (i = fl_task f \<and> h = n)) (sd_handles s),
       sd_slot := (if sd_slot s = Some n then None else sd_slot s),
       sd_executing := (if fl_release f then removeAll (fl_task f) (sd_executing s) else sd_executing s)\<rparr>"

definition MODEL_BACKED_ACTIONS :: "string list" where
  "MODEL_BACKED_ACTIONS = [''summarize_emails'', ''draft_email_replies'', ''email_auto_translate'', ''extract_email_events'', ''classify_events'',
     ''learn_sender_signatures'', ''check_email_urgency'', ''test_skills'', ''audit_skills'', ''consolidate_memory'']"

definition text_or :: "string \<Rightarrow> string option \<Rightarrow> string" where
  "text_or d v = (case v of None \<Rightarrow> d | Some s \<Rightarrow> if s = [] then d else s)"

definition task_needs_model_slot :: "sched \<Rightarrow> string \<Rightarrow> bool" where
  "task_needs_model_slot s i =
     (case dget (sd_tasks s) i of
        None \<Rightarrow> True
      | Some t \<Rightarrow> if text_or ''llm'' (tr_type t) \<noteq> ''action'' then True else text_or [] (tr_action t) \<in> set MODEL_BACKED_ACTIONS)"

text \<open>The run starts, after the foreground was quiet.\<close>

definition start_run :: "sched_env \<Rightarrow> int \<Rightarrow> nat \<Rightarrow> flight \<Rightarrow> sched \<Rightarrow> sched" where
  "start_run env now n f s =
     (let run = (case map_of (sd_runs s) n of
            Some u \<Rightarrow> u\<lparr>rr_status := ''running'', rr_started := now, rr_result := Some (sv_starting_text env)\<rparr>
          | None \<Rightarrow> \<lparr>rr_task = fl_task f, rr_status = ''running'', rr_result = Some (sv_starting_text env), rr_error = None, rr_started = now, rr_finished = None\<rparr>)
      in set_flight n (f\<lparr>fl_phase := Running\<rparr>) (set_run n run s))"

text \<open>The beginning of \<open>_execute_task_locked\<close>, up to the wait for the foreground.\<close>

definition inactive_text :: "string \<Rightarrow> string" where
  "inactive_text old_status = ''Task no longer active (status='' @ old_status @ '')''"

definition enter_locked :: "sched_env \<Rightarrow> int \<Rightarrow> nat \<Rightarrow> flight \<Rightarrow> sched \<Rightarrow> sched" where
  "enter_locked env now n f s =
     (let i = fl_task f;
          stale = (\<lambda>status. conclude n f (alter_run n (\<lambda>u.
            if rr_status u = ''queued'' then u\<lparr>rr_status := ''skipped'', rr_finished := Some now, rr_error := Some (inactive_text status)\<rparr> else u) s))
      in case dget (sd_tasks s) i of
           None \<Rightarrow> stale ''deleted''
         | Some t \<Rightarrow>
             if tr_status t \<noteq> ''active'' then stale (tr_status t)
             else if is_admin_only_task_action (tr_type t) (tr_action t) \<and> \<not> owner_has_admin_task_privileges (sv_auth_disabled env) (sv_auth env) (tr_owner t) then
               (let msg = ''Action '' @ [CHR 0x27] @ text_or ''None'' (tr_action t) @ [CHR 0x27] @ '' requires admin privileges''
                in conclude n f (set_task i (t\<lparr>tr_status := ''paused'', tr_next := None, tr_last := Some now\<rparr>)
                     (alter_run n (\<lambda>u. u\<lparr>rr_status := ''error'', rr_result := Some msg, rr_error := Some msg, rr_finished := Some now\<rparr>) s)))
             else if fl_bypass f then start_run env now n f s
             else set_flight n (f\<lparr>fl_phase := Gated\<rparr>)
                    (alter_run n (\<lambda>u. if rr_status u = ''queued'' then u\<lparr>rr_result := Some (sv_waiting_text env)\<rparr> else u) s))"

text \<open>The first step of \<open>_execute_task\<close>, and of \<open>_run_chained\<close> before it.\<close>

definition begin_execution :: "sched_env \<Rightarrow> int \<Rightarrow> nat \<Rightarrow> flight \<Rightarrow> sched \<Rightarrow> sched" where
  "begin_execution env now n f s =
     (let i = fl_task f;
          run = \<lparr>rr_task = i, rr_status = ''queued'', rr_result = Some (sv_queued_text env), rr_error = None, rr_started = now, rr_finished = None\<rparr>;
          s = set_run n run (s\<lparr>sd_handles := AList.update i n (sd_handles s)\<rparr>)
      in if fl_bypass f \<or> \<not> task_needs_model_slot s i then enter_locked env now n f s
         else set_flight n (f\<lparr>fl_phase := Queued\<rparr>) s)"

definition begin_step :: "sched_env \<Rightarrow> int \<Rightarrow> nat \<Rightarrow> flight \<Rightarrow> sched \<Rightarrow> sched" where
  "begin_step env now n f s =
     (if fl_phase f = Chained then
        if fl_task f \<in> set (sd_executing s) then s\<lparr>sd_flights := AList.delete n (sd_flights s)\<rparr>
        else begin_execution env now n (f\<lparr>fl_phase := Created\<rparr>)
               (set_flight n (f\<lparr>fl_phase := Created\<rparr>) (s\<lparr>sd_executing := fl_task f # sd_executing s\<rparr>))
      else begin_execution env now n f s)"

section \<open>The end of an execution\<close>

definition scheduled :: "task_row \<Rightarrow> bool" where
  "scheduled t = (text_or ''schedule'' (tr_trigger t) = ''schedule'')"

definition next_of :: "sched_env \<Rightarrow> int \<Rightarrow> string \<Rightarrow> task_row \<Rightarrow> int option result" where
  "next_of env now i t = compute_next_run (sv_cron env) (sv_zone env i) now (tr_spec t)"

text \<open>The next run of a scheduled task; a task that waits for an event has none.\<close>

definition advance :: "sched_env \<Rightarrow> int \<Rightarrow> string \<Rightarrow> task_row \<Rightarrow> task_row result" where
  "advance env now i t =
     (if scheduled t then rbind (next_of env now i t) (\<lambda>w. Inr (t\<lparr>tr_next := w\<rparr>)) else Inr (t\<lparr>tr_next := None\<rparr>))"

fun has_chain_cycle :: "nat \<Rightarrow> string list \<Rightarrow> task_row dict \<Rightarrow> string option \<Rightarrow> string \<Rightarrow> bool" where
  "has_chain_cycle 0 visited tasks owner current = True"
| "has_chain_cycle (Suc k) visited tasks owner current =
     (if current \<in> set visited then True
      else case dget tasks current of
             None \<Rightarrow> False
           | Some t \<Rightarrow>
               if owner \<noteq> None \<and> tr_owner t \<noteq> owner then True
               else case tr_then t of
                      None \<Rightarrow> False
                    | Some j \<Rightarrow> if j = [] then False else has_chain_cycle k (current # visited) tasks owner j)"

text \<open>A successful run starts the task that follows it.\<close>

definition chain_on :: "task_row \<Rightarrow> sched \<Rightarrow> sched" where
  "chain_on t s =
     (case tr_then t of
        None \<Rightarrow> s
      | Some j \<Rightarrow>
          (case dget (sd_tasks s) j of
             None \<Rightarrow> s
           | Some t' \<Rightarrow>
               if j = [] \<or> tr_owner t' \<noteq> tr_owner t \<or> has_chain_cycle 10 [] (sd_tasks s) (tr_owner t) j then s
               else spawn j False True Chained s))"

definition chats :: "task_row \<Rightarrow> bool" where
  "chats t = (text_or ''llm'' (tr_type t) \<in> set [''llm'', ''research''] \<and> tr_notify t)"

text \<open>The text of an exception of the calendar.\<close>

definition exc_text :: "py_exc \<Rightarrow> string" where
  "exc_text e = (case e of OverflowError m \<Rightarrow> ''OverflowError: '' @ m | ValueError m \<Rightarrow> ''ValueError: '' @ m | _ \<Rightarrow> [])"

text \<open>
  An exception outside the handlers: the run is an error, and the next run of a scheduled task is
  computed again; when that raises too it stays as it is.
\<close>

definition failed :: "sched_env \<Rightarrow> int \<Rightarrow> nat \<Rightarrow> flight \<Rightarrow> string \<Rightarrow> sched \<Rightarrow> sched" where
  "failed env now n f err s =
     (let i = fl_task f;
          s = (case dget (sd_tasks s) i of
                 None \<Rightarrow> s
               | Some t \<Rightarrow> if chats t then add_notification env now (''Task '' @ i) ''error'' (Some i) (tr_owner t) None s else s);
          s = alter_run n (\<lambda>u. if rr_status u \<in> set [''running'', ''success'']
                                then u\<lparr>rr_status := ''error'', rr_error := Some (take 2000 err), rr_finished := Some now\<rparr> else u) s;
          s = alter_task i (\<lambda>t. if scheduled t
                                 then (case next_of env now i t of Inl _ \<Rightarrow> t\<lparr>tr_last := Some now\<rparr> | Inr w \<Rightarrow> t\<lparr>tr_last := Some now, tr_next := w\<rparr>)
                                 else t) s
      in conclude n f s)"

datatype outcome =
    Finished bool string
  | Deferred int
  | Noop string
  | Raised string

text \<open>A run that returned a result is reported, and the task that follows it starts.\<close>

definition report :: "sched_env \<Rightarrow> int \<Rightarrow> nat \<Rightarrow> flight \<Rightarrow> bool \<Rightarrow> string \<Rightarrow> task_row \<Rightarrow> sched \<Rightarrow> sched" where
  "report env now n f ok result t s =
     (let i = fl_task f;
          t = (if scheduled t \<and> tr_next t = None \<and> sp_schedule (tr_spec t) = Some ''once'' then t\<lparr>tr_status := ''completed''\<rparr> else t);
          s = set_task i t s;
          body = (if text_or ''session'' (tr_output t) = ''notification'' then Some result else None);
          s = (if chats t then add_notification env now (tr_name t) (if ok then ''success'' else ''error'') (Some i) (tr_owner t) body s
               else if \<not> ok then add_notification env now (tr_name t) ''error'' (Some i) (tr_owner t) (Some result) s
               else s)
      in if ok then chain_on t (conclude n f s) else conclude n f s)"

definition returned :: "int \<Rightarrow> bool \<Rightarrow> string \<Rightarrow> run_row \<Rightarrow> run_row" where
  "returned now ok result u =
     u\<lparr>rr_status := (if ok then ''success'' else ''error''), rr_result := Some result,
       rr_error := (if ok then rr_error u else Some result), rr_finished := Some now\<rparr>"

text \<open>The executor returned: a result that was delivered, a request to wait, nothing to do, or an exception.\<close>

definition finish :: "sched_env \<Rightarrow> int \<Rightarrow> nat \<Rightarrow> flight \<Rightarrow> outcome \<Rightarrow> sched \<Rightarrow> sched" where
  "finish env now n f out s =
     (let i = fl_task f in
      case dget (sd_tasks s) i of
        None \<Rightarrow> failed env now n f ''ObjectDeletedError'' s
      | Some t \<Rightarrow>
          (case out of
             Raised err \<Rightarrow> failed env now n f err s
           | Deferred delay \<Rightarrow>
               (let count = (case dget (sd_defers s) i of None \<Rightarrow> 0 | Some c \<Rightarrow> c) + 1;
                    delay = (if delay = 0 then 20 * 60 else delay);
                    delay = (if 2 < count then max delay (40 * 60) else delay)
                in conclude n f (set_task i (t\<lparr>tr_next := Some (now + delay * 1000000)\<rparr>)
                     (s\<lparr>sd_defers := dset i count (sd_defers s), sd_runs := AList.delete n (sd_runs s)\<rparr>)))
           | Noop reason \<Rightarrow>
               (let s = alter_run n (\<lambda>u. u\<lparr>rr_status := ''skipped'', rr_result := Some reason, rr_finished := Some now\<rparr>) s;
                    t = t\<lparr>tr_last := Some now\<rparr>
                in case advance env now i t of
                     Inl e \<Rightarrow> failed env now n f (exc_text e) (set_task i t s)
                   | Inr t \<Rightarrow> conclude n f (set_task i t s))
           | Finished ok result \<Rightarrow>
               (let s = alter_run n (returned now ok result) s;
                    t = t\<lparr>tr_last := Some now, tr_runs := Some ((case tr_runs t of None \<Rightarrow> 0 | Some c \<Rightarrow> c) + 1)\<rparr>;
                    s = s\<lparr>sd_defers := dpop i (sd_defers s)\<rparr>
                in case advance env now i t of
                     Inl e \<Rightarrow> failed env now n f (exc_text e) (set_task i t s)
                   | Inr t \<Rightarrow> report env now n f ok result t s)))"

section \<open>Cancellation\<close>

text \<open>The run is aborted if it is still active.\<close>

definition aborted :: "int \<Rightarrow> string \<Rightarrow> run_row \<Rightarrow> run_row" where
  "aborted now message u =
     u\<lparr>rr_status := ''aborted'', rr_error := Some message,
       rr_result := (case rr_result u of None \<Rightarrow> Some message | Some r \<Rightarrow> Some (if r = [] then message else r)), rr_finished := Some now\<rparr>"

definition mark_run_aborted :: "int \<Rightarrow> nat \<Rightarrow> sched \<Rightarrow> sched" where
  "mark_run_aborted now n s = alter_run n (\<lambda>u. if active_run u then aborted now ''Stopped by user'' u else u) s"

definition defer_immediately_due_task :: "int \<Rightarrow> int \<Rightarrow> string \<Rightarrow> sched \<Rightarrow> sched" where
  "defer_immediately_due_task now delay i s =
     alter_task i (\<lambda>t. if is_due now t then t\<lparr>tr_next := Some (now + delay)\<rparr> else t) s"

text \<open>
  A \<open>CancelledError\<close> arrives where the coroutine waits. In a run, \<open>hit\<close> tells that the monitor of
  the foreground cancelled it.
\<close>

definition cancelled :: "sched_env \<Rightarrow> int \<Rightarrow> nat \<Rightarrow> flight \<Rightarrow> bool \<Rightarrow> sched \<Rightarrow> sched" where
  "cancelled env now n f hit s =
     (let i = fl_task f in
      case fl_phase f of
        Running \<Rightarrow>
          (let msg = (if hit then ''Paused because Pandamonium became active'' else ''Stopped by user'');
               s = alter_run n (aborted now msg) s
           in case dget (sd_tasks s) i of
                None \<Rightarrow> failed env now n f ''ObjectDeletedError'' s
              | Some t \<Rightarrow>
                  (let t = t\<lparr>tr_last := Some now\<rparr>
                   in if hit then conclude n f (set_task i (t\<lparr>tr_next := Some (now + 15 * MINUTE)\<rparr>) s)
                      else case advance env now i t of
                             Inl e \<Rightarrow> failed env now n f (exc_text e) (set_task i t s)
                           | Inr t \<Rightarrow> conclude n f (set_task i t s)))
      | _ \<Rightarrow> conclude n f (defer_immediately_due_task now (15 * MINUTE) i (mark_run_aborted now n s)))"

definition cancel_handle :: "string \<Rightarrow> sched \<Rightarrow> sched \<times> bool" where
  "cancel_handle i s =
     (case map_of (sd_handles s) i of
        None \<Rightarrow> (s, False)
      | Some n \<Rightarrow>
          (case map_of (sd_flights s) n of
             None \<Rightarrow> (s, False)
           | Some f \<Rightarrow> (set_flight n (f\<lparr>fl_cancelled := True\<rparr>) s, True)))"

text \<open>The latest active run of a task is aborted.\<close>

definition abort_latest :: "int \<Rightarrow> string \<Rightarrow> sched \<Rightarrow> sched \<times> bool" where
  "abort_latest now i s =
     (case rev (sort_key (\<lambda>(n, u). rr_started u) (filter (\<lambda>(n, u). rr_task u = i \<and> active_run u) (sd_runs s))) of
        [] \<Rightarrow> (s, False)
      | (n, u) # _ \<Rightarrow> (mark_run_aborted now n s, True))"

definition stop_task :: "int \<Rightarrow> string \<Rightarrow> sched \<Rightarrow> sched \<times> bool" where
  "stop_task now i s =
     (let (s, b) = cancel_handle i s;
          b' = (i \<in> set (sd_executing s));
          s = s\<lparr>sd_executing := removeAll i (sd_executing s)\<rparr>;
          (s, b'') = abort_latest now i s
      in (s, b \<or> b' \<or> b''))"

definition stop_background_tasks :: "int \<Rightarrow> sched \<Rightarrow> sched \<times> nat" where
  "stop_background_tasks now s =
     foldl (\<lambda>(s, k) i.
       let (s, b) = cancel_handle i s; (s, b') = abort_latest now i s
       in (s, k + of_bool b + of_bool b')) (s, 0) (sd_executing s)"

section \<open>Events\<close>

text \<open>
  The owner of an event that has none: the first administrator of the file of accounts, or its first
  account. \<open>None\<close> stands for a file that cannot be read.
\<close>

definition resolve_event_owner :: "(string \<times> bool) list option \<Rightarrow> string option \<Rightarrow> string option" where
  "resolve_event_owner known owner =
     (let o' = strip (text_or [] owner)
      in if o' \<noteq> [] then Some o'
         else case known of
                None \<Rightarrow> None
              | Some us \<Rightarrow> (case find snd us of Some (u, _) \<Rightarrow> Some u | None \<Rightarrow> (case us of [] \<Rightarrow> None | (u, _) # _ \<Rightarrow> Some u)))"

definition int_or :: "int \<Rightarrow> int option \<Rightarrow> int" where
  "int_or d v = (case v of None \<Rightarrow> d | Some i \<Rightarrow> if i = 0 then d else i)"

definition listens :: "string \<Rightarrow> string option \<Rightarrow> task_row \<Rightarrow> bool" where
  "listens event owner t \<longleftrightarrow> tr_trigger t = Some ''event'' \<and> tr_event t = Some event \<and> tr_status t = ''active'' \<and>
     tr_owner t = (if text_or [] owner = [] then None else owner)"

text \<open>One task counts the event; at its threshold it starts again from zero and is run.\<close>

definition count_event :: "int \<Rightarrow> string \<Rightarrow> sched \<Rightarrow> sched" where
  "count_event now i s =
     (case dget (sd_tasks s) i of
        None \<Rightarrow> s
      | Some t \<Rightarrow>
          (let counter = int_or 0 (tr_counter t) + 1
           in if int_or 1 (tr_threshold t) \<le> counter
              then fst (run_task_now i False (set_task i (t\<lparr>tr_counter := Some 0, tr_next := Some now\<rparr>) s))
              else set_task i (t\<lparr>tr_counter := Some counter\<rparr>) s))"

definition handle_event :: "int \<Rightarrow> string \<Rightarrow> string option \<Rightarrow> sched \<Rightarrow> sched" where
  "handle_event now event owner s =
     foldl (\<lambda>s i. count_event now i s) s (map fst (filter (\<lambda>(i, t). listens event owner t) (sd_tasks s)))"

section \<open>Runs of the scheduler\<close>

datatype sched_op =
    Tick int bool
  | Run_now string bool
  | Event int string "string option"
  | Go int nat
  | Finish int nat outcome
  | Cancel int nat bool
  | Stop int string
  | Stop_background int
  | Edit string task_row
  | Pop "string option"

text \<open>
  A coroutine goes on: it begins, takes the slot when that is free, or starts to run. A cancelled one
  waits for its \<open>CancelledError\<close>.
\<close>

definition go :: "sched_env \<Rightarrow> int \<Rightarrow> nat \<Rightarrow> sched \<Rightarrow> sched" where
  "go env now n s =
     (case map_of (sd_flights s) n of
        None \<Rightarrow> s
      | Some f \<Rightarrow>
          (if fl_cancelled f then s
           else case fl_phase f of
             Chained \<Rightarrow> begin_step env now n f s
           | Created \<Rightarrow> begin_step env now n f s
           | Queued \<Rightarrow> if sd_slot s = None then enter_locked env now n (f\<lparr>fl_slot := True\<rparr>) (set_flight n (f\<lparr>fl_slot := True\<rparr>) (s\<lparr>sd_slot := Some n\<rparr>)) else s
           | Gated \<Rightarrow> start_run env now n f s
           | Running \<Rightarrow> s))"

fun sched_step :: "sched_env \<Rightarrow> sched \<Rightarrow> sched_op \<Rightarrow> sched" where
  "sched_step env s (Tick now foreground) = check_due_tasks now foreground s"
| "sched_step env s (Run_now i force) = fst (run_task_now i force s)"
| "sched_step env s (Event now event owner) = handle_event now event owner s"
| "sched_step env s (Go now n) = go env now n s"
| "sched_step env s (Finish now n out) =
     (case map_of (sd_flights s) n of None \<Rightarrow> s | Some f \<Rightarrow> if fl_phase f = Running then finish env now n f out s else s)"
| "sched_step env s (Cancel now n hit) =
     (case map_of (sd_flights s) n of
        None \<Rightarrow> s
      | Some f \<Rightarrow> if fl_cancelled f \<and> fl_phase f \<in> {Queued, Gated, Running} \<or> hit \<and> fl_phase f = Running \<and> \<not> fl_bypass f
                   then cancelled env now n f hit s else s)"
| "sched_step env s (Stop now i) = fst (stop_task now i s)"
| "sched_step env s (Stop_background now) = fst (stop_background_tasks now s)"
| "sched_step env s (Edit i t) = set_task i t s"
| "sched_step env s (Pop owner) = fst (pop_notifications owner s)"

definition idle :: "task_row dict \<Rightarrow> sched" where
  "idle tasks = \<lparr>sd_tasks = tasks, sd_runs = [], sd_executing = [], sd_handles = [], sd_flights = [], sd_slot = None, sd_fresh = 0,
     sd_defers = [], sd_notes = []\<rparr>"

section \<open>Every active run has its execution\<close>

text \<open>
  Executions and runs are numbered without repetition; a run that is queued or running belongs to an
  execution that has begun, and the slot belongs to the only execution that took it.
\<close>

definition begun :: "flight \<Rightarrow> bool" where
  "begun f = (fl_phase f \<in> {Queued, Gated, Running})"

definition run_fits :: "flight option \<Rightarrow> run_row \<Rightarrow> bool" where
  "run_fits fo u \<longleftrightarrow>
     (rr_status u = ''queued'' \<longrightarrow> (case fo of None \<Rightarrow> False | Some f \<Rightarrow> fl_phase f \<in> {Queued, Gated})) \<and>
     (rr_status u = ''running'' \<longrightarrow> (case fo of None \<Rightarrow> False | Some f \<Rightarrow> fl_phase f = Running))"

definition fits :: "nat \<Rightarrow> nat option \<Rightarrow> nat \<Rightarrow> flight option \<Rightarrow> run_row option \<Rightarrow> bool" where
  "fits fresh slot n fo uo \<longleftrightarrow>
     (case uo of None \<Rightarrow> True | Some u \<Rightarrow> run_fits fo u) \<and>
     (case fo of None \<Rightarrow> True | Some f \<Rightarrow> fl_slot f \<longrightarrow> slot = Some n) \<and>
     (fresh \<le> n \<longrightarrow> fo = None \<and> uo = None)"

definition fits_at :: "nat \<Rightarrow> sched \<Rightarrow> bool" where
  "fits_at n s = fits (sd_fresh s) (sd_slot s) n (map_of (sd_flights s) n) (map_of (sd_runs s) n)"

definition sched_inv :: "sched \<Rightarrow> bool" where
  "sched_inv s \<longleftrightarrow> (\<forall>n. fits_at n s)"

text \<open>What a step of one execution leaves as it is: the other executions and their runs.\<close>

definition others :: "nat \<Rightarrow> sched \<Rightarrow> sched \<Rightarrow> bool" where
  "others n s s' \<longleftrightarrow> sd_fresh s' = sd_fresh s \<and> sd_slot s' = sd_slot s \<and>
     (\<forall>k. k \<noteq> n \<longrightarrow> map_of (sd_flights s') k = map_of (sd_flights s) k \<and> map_of (sd_runs s') k = map_of (sd_runs s) k)"

named_theorems sched_keeps

lemma others_refl [sched_keeps]: "others n s s" by (simp add: others_def)

lemma others_trans: "others n s s' \<Longrightarrow> others n s' s'' \<Longrightarrow> others n s s''" by (simp add: others_def)

lemma others_set_task [sched_keeps]: "others n s s' \<Longrightarrow> others n s (set_task i t s')" by (simp add: others_def)

lemma others_alter_task [sched_keeps]: "others n s s' \<Longrightarrow> others n s (alter_task i g s')"
  by (simp add: others_def alter_task_def split: option.split)

lemma others_set_run [sched_keeps]: "others n s s' \<Longrightarrow> others n s (set_run n u s')" by (simp add: others_def update_conv')

lemma others_alter_run [sched_keeps]: "others n s s' \<Longrightarrow> others n s (alter_run n g s')"
  by (simp add: others_def alter_run_def update_conv' split: option.split)

lemma others_set_flight [sched_keeps]: "others n s s' \<Longrightarrow> others n s (set_flight n f s')" by (simp add: others_def update_conv')

lemma others_notify [sched_keeps]: "others n s s' \<Longrightarrow> others n s (add_notification env now name st i owner body s')"
  by (simp add: others_def add_notification_def Let_def)

lemma others_handles [sched_keeps]: "others n s s' \<Longrightarrow> others n s (s'\<lparr>sd_handles := h\<rparr>)" by (simp add: others_def)

lemma others_executing [sched_keeps]: "others n s s' \<Longrightarrow> others n s (s'\<lparr>sd_executing := h\<rparr>)" by (simp add: others_def)

lemma others_defers [sched_keeps]: "others n s s' \<Longrightarrow> others n s (s'\<lparr>sd_defers := h\<rparr>)" by (simp add: others_def)

lemma others_drop_run [sched_keeps]: "others n s s' \<Longrightarrow> others n s (s'\<lparr>sd_runs := AList.delete n (sd_runs s')\<rparr>)"
  by (simp add: others_def delete_conv')

lemma fits_others: "fits_at k s \<Longrightarrow> others n s s' \<Longrightarrow> k \<noteq> n \<Longrightarrow> fits_at k s'"
  by (simp add: fits_at_def others_def)

lemma inv_others: "sched_inv s \<Longrightarrow> others n s s' \<Longrightarrow> fits_at n s' \<Longrightarrow> sched_inv s'"
  unfolding sched_inv_def by (metis fits_others)

text \<open>An execution ends when its run is over.\<close>

definition run_over :: "nat \<Rightarrow> sched \<Rightarrow> bool" where
  "run_over n s \<longleftrightarrow> (case map_of (sd_runs s) n of None \<Rightarrow> True | Some u \<Rightarrow> \<not> active_run u)"

lemma conclude_lookups:
  "sd_fresh (conclude n f s) = sd_fresh s" "sd_slot (conclude n f s) = (if sd_slot s = Some n then None else sd_slot s)"
  "map_of (sd_flights (conclude n f s)) k = (if k = n then None else map_of (sd_flights s) k)"
  "map_of (sd_runs (conclude n f s)) k = map_of (sd_runs s) k"
  by (simp_all add: conclude_def delete_conv')

lemma conclude_inv:
  assumes "sched_inv s" "others n s s'" "run_over n s'" "n < sd_fresh s"
  shows "sched_inv (conclude n f s')"
  unfolding sched_inv_def
proof
  fix k
  show "fits_at k (conclude n f s')"
  proof (cases "k = n")
    case True
    have "n < sd_fresh s'" using assms(2,4) by (simp add: others_def)
    with True assms(3) show ?thesis
      by (cases "map_of (sd_runs s') n") (auto simp: fits_at_def fits_def conclude_lookups run_over_def run_fits_def active_run_def)
  next
    case False
    have "fits_at k s'" using fits_others [OF _ assms(2) False] assms(1) by (simp add: sched_inv_def)
    with False show ?thesis
      by (cases "map_of (sd_flights s') k") (auto simp: fits_at_def fits_def conclude_lookups)
  qed
qed

lemma run_over_alter: "(\<And>u. map_of (sd_runs s) n = Some u \<Longrightarrow> \<not> active_run (g u)) \<Longrightarrow> run_over n (alter_run n g s)"
  by (auto simp: run_over_def alter_run_def update_conv' split: option.split)

lemma run_over_set_task [simp]: "run_over n (set_task i t s) = run_over n s" by (simp add: run_over_def)

lemma run_over_alter_task [simp]: "run_over n (alter_task i g s) = run_over n s"
  by (simp add: run_over_def alter_task_def split: option.split)

lemma run_over_notify [simp]: "run_over n (add_notification env now name st i owner body s) = run_over n s"
  by (simp add: run_over_def add_notification_def Let_def)

lemma fitsD:
  assumes "sched_inv s"
  shows "map_of (sd_runs s) n = Some u \<Longrightarrow> run_fits (map_of (sd_flights s) n) u"
    "map_of (sd_flights s) n = Some f \<Longrightarrow> fl_slot f \<Longrightarrow> sd_slot s = Some n"
    "map_of (sd_flights s) n = Some f \<Longrightarrow> n < sd_fresh s"
    "map_of (sd_runs s) n = Some u \<Longrightarrow> n < sd_fresh s"
proof -
  have a: "fits_at n s" using assms by (simp add: sched_inv_def)
  show "map_of (sd_runs s) n = Some u \<Longrightarrow> run_fits (map_of (sd_flights s) n) u" using a by (simp add: fits_at_def fits_def)
  show "map_of (sd_flights s) n = Some f \<Longrightarrow> fl_slot f \<Longrightarrow> sd_slot s = Some n" using a by (simp add: fits_at_def fits_def)
  show "map_of (sd_flights s) n = Some f \<Longrightarrow> n < sd_fresh s" "map_of (sd_runs s) n = Some u \<Longrightarrow> n < sd_fresh s"
    using a by (auto simp: fits_at_def fits_def not_less [symmetric])
qed

lemma foldl_keeps: "P s \<Longrightarrow> (\<And>s x. P s \<Longrightarrow> P (g s x)) \<Longrightarrow> P (foldl g s xs)"
  by (induction xs arbitrary: s) simp_all

text \<open>A state with the same executions, runs, slot and numbers.\<close>

lemma inv_same: "sched_inv s \<Longrightarrow> sd_flights s' = sd_flights s \<Longrightarrow> sd_runs s' = sd_runs s \<Longrightarrow> sd_slot s' = sd_slot s \<Longrightarrow> sd_fresh s' = sd_fresh s \<Longrightarrow> sched_inv s'"
  by (simp add: sched_inv_def fits_at_def)

lemma alter_task_inv [sched_keeps]: "sched_inv s \<Longrightarrow> sched_inv (alter_task i g s)"
  by (erule inv_same) (simp_all add: alter_task_def split: option.split)

lemma set_task_inv: "sched_inv s \<Longrightarrow> sched_inv (set_task i t s)"
  by (erule inv_same) simp_all

lemma executing_inv: "sched_inv s \<Longrightarrow> sched_inv (s\<lparr>sd_executing := e\<rparr>)"
  by (erule inv_same) simp_all

lemma spawn_inv: "sched_inv s \<Longrightarrow> sched_inv (spawn i b r ph s)"
  unfolding sched_inv_def
proof
  fix n
  assume "\<forall>n. fits_at n s"
  then have "fits_at n s" ..
  then show "fits_at n (spawn i b r ph s)"
    by (auto simp: fits_at_def fits_def spawn_def update_conv' split: option.splits)
qed

lemma run_task_now_inv: "sched_inv s \<Longrightarrow> sched_inv (fst (run_task_now i force s))"
  by (simp add: run_task_now_def spawn_inv executing_inv)

lemma check_due_inv: "sched_inv s \<Longrightarrow> sched_inv (check_due_tasks now foreground s)"
  unfolding check_due_tasks_def Let_def by (erule foldl_keeps) (simp add: spawn_inv executing_inv alter_task_inv)

lemma handle_event_inv: "sched_inv s \<Longrightarrow> sched_inv (handle_event now event owner s)"
  unfolding handle_event_def
  by (erule foldl_keeps) (auto simp: count_event_def Let_def run_task_now_inv set_task_inv split: option.split)

lemma start_run_inv:
  assumes "sched_inv s" "others n s s'" "fl_slot f \<Longrightarrow> sd_slot s = Some n" "n < sd_fresh s"
  shows "sched_inv (start_run env now n f s')"
proof (rule inv_others [OF assms(1)])
  show "others n s (start_run env now n f s')"
    unfolding start_run_def Let_def by (intro sched_keeps assms(2))
  have "sd_slot s' = sd_slot s" "n < sd_fresh s'" using assms(2,4) by (simp_all add: others_def)
  then show "fits_at n (start_run env now n f s')"
    using assms(3) by (auto simp: start_run_def fits_at_def fits_def run_fits_def update_conv' Let_def split: option.split)
qed

lemma enter_locked_inv:
  assumes "sched_inv s" "others n s s'" "fl_slot f \<Longrightarrow> sd_slot s = Some n" "n < sd_fresh s"
    and run: "\<And>u. map_of (sd_runs s') n = Some u \<Longrightarrow> rr_status u \<noteq> ''running''"
  shows "sched_inv (enter_locked env now n f s')"
proof -
  let ?stale = "\<lambda>st. conclude n f (alter_run n (\<lambda>u. if rr_status u = ''queued''
      then u\<lparr>rr_status := ''skipped'', rr_finished := Some now, rr_error := Some (inactive_text st)\<rparr> else u) s')"
  have stale: "sched_inv (?stale st)" for st
  proof (rule conclude_inv [OF assms(1) _ _ assms(4)])
    show "run_over n (alter_run n (\<lambda>u. if rr_status u = ''queued''
      then u\<lparr>rr_status := ''skipped'', rr_finished := Some now, rr_error := Some (inactive_text st)\<rparr> else u) s')"
      by (rule run_over_alter) (auto simp: active_run_def dest: run)
  qed (intro sched_keeps assms(2))
  show ?thesis
  proof (cases "dget (sd_tasks s') (fl_task f)")
    case None
    then show ?thesis using stale by (simp add: enter_locked_def)
  next
    case (Some t)
    define msg where "msg = ''Action '' @ [CHR 0x27] @ text_or ''None'' (tr_action t) @ [CHR 0x27] @ '' requires admin privileges''"
    have blocked: "sched_inv (conclude n f (set_task i t' (alter_run n (\<lambda>u. u\<lparr>rr_status := ''error'', rr_result := Some msg, rr_error := Some msg, rr_finished := Some now\<rparr>) s')))" for i t'
    proof (rule conclude_inv [OF assms(1) _ _ assms(4)])
      show "run_over n (set_task i t' (alter_run n (\<lambda>u. u\<lparr>rr_status := ''error'', rr_result := Some msg, rr_error := Some msg, rr_finished := Some now\<rparr>) s'))"
        unfolding run_over_set_task by (rule run_over_alter) (simp add: active_run_def)
    qed (intro sched_keeps assms(2))
    let ?wait = "alter_run n (\<lambda>u. if rr_status u = ''queued'' then u\<lparr>rr_result := Some (sv_waiting_text env)\<rparr> else u) s'"
    have gated: "sched_inv (set_flight n (f\<lparr>fl_phase := Gated\<rparr>) ?wait)"
    proof (rule inv_others [OF assms(1)])
      show "others n s (set_flight n (f\<lparr>fl_phase := Gated\<rparr>) ?wait)" by (intro sched_keeps assms(2))
      have "sd_slot s' = sd_slot s" "n < sd_fresh s'" using assms(2,4) by (simp_all add: others_def)
      then show "fits_at n (set_flight n (f\<lparr>fl_phase := Gated\<rparr>) ?wait)"
        using assms(3) run by (auto simp: alter_run_def fits_at_def fits_def run_fits_def update_conv' split: option.split)
    qed
    show ?thesis
      using stale blocked gated start_run_inv [OF assms(1-4)]
      by (simp add: enter_locked_def Some Let_def msg_def [symmetric] del: append.simps)
  qed
qed

lemma begin_execution_inv:
  assumes "sched_inv s" "map_of (sd_flights s) n = Some f"
  shows "sched_inv (begin_execution env now n f s)"
proof -
  define u where "u = \<lparr>rr_task = fl_task f, rr_status = ''queued'', rr_result = Some (sv_queued_text env), rr_error = None, rr_started = now, rr_finished = None\<rparr>"
  let ?s = "set_run n u (s\<lparr>sd_handles := AList.update (fl_task f) n (sd_handles s)\<rparr>)"
  have n: "n < sd_fresh s" by (rule fitsD(3) [OF assms(1,2)])
  have o': "others n s ?s" by (intro sched_keeps)
  have "sched_inv (enter_locked env now n f ?s)"
    by (rule enter_locked_inv [OF assms(1) o' fitsD(2) [OF assms] n]) (simp_all add: u_def update_conv')
  moreover have "sched_inv (set_flight n (f\<lparr>fl_phase := Queued\<rparr>) ?s)"
  proof (rule inv_others [OF assms(1)])
    show "others n s (set_flight n (f\<lparr>fl_phase := Queued\<rparr>) ?s)" by (intro sched_keeps)
    show "fits_at n (set_flight n (f\<lparr>fl_phase := Queued\<rparr>) ?s)"
      using fitsD(2) [OF assms] n by (simp add: fits_at_def fits_def run_fits_def update_conv' u_def)
  qed
  ultimately show ?thesis unfolding begin_execution_def Let_def u_def [symmetric] by simp
qed

lemma failed_inv:
  assumes "sched_inv s" "others n s s'" "n < sd_fresh s"
    and run: "\<And>u. map_of (sd_runs s') n = Some u \<Longrightarrow> rr_status u \<noteq> ''queued''"
  shows "sched_inv (failed env now n f err s')"
  unfolding failed_def Let_def
proof (rule conclude_inv [OF assms(1) _ _ assms(3)], intro sched_keeps)
  show "others n s (case dget (sd_tasks s') (fl_task f) of None \<Rightarrow> s'
      | Some t \<Rightarrow> if chats t then add_notification env now (''Task '' @ fl_task f) ''error'' (Some (fl_task f)) (tr_owner t) None s' else s')"
    using assms(2) by (auto intro: sched_keeps split: option.split)
  show "run_over n (alter_task i g (alter_run n (\<lambda>u. if rr_status u \<in> set [''running'', ''success'']
      then u\<lparr>rr_status := ''error'', rr_error := Some (take 2000 err), rr_finished := Some now\<rparr> else u)
      (case dget (sd_tasks s') (fl_task f) of None \<Rightarrow> s'
      | Some t \<Rightarrow> if chats t then add_notification env now (''Task '' @ fl_task f) ''error'' (Some (fl_task f)) (tr_owner t) None s' else s')))" for i g
    unfolding run_over_alter_task
  proof (rule run_over_alter)
    fix u
    assume "map_of (sd_runs (case dget (sd_tasks s') (fl_task f) of None \<Rightarrow> s'
      | Some t \<Rightarrow> if chats t then add_notification env now (''Task '' @ fl_task f) ''error'' (Some (fl_task f)) (tr_owner t) None s' else s')) n = Some u"
    then have "map_of (sd_runs s') n = Some u" by (auto simp: add_notification_def Let_def split: option.split_asm if_split_asm)
    from run [OF this] show "\<not> active_run (if rr_status u \<in> set [''running'', ''success'']
      then u\<lparr>rr_status := ''error'', rr_error := Some (take 2000 err), rr_finished := Some now\<rparr> else u)"
      by (auto simp: active_run_def)
  qed
qed

lemma chain_on_inv: "sched_inv s \<Longrightarrow> sched_inv (chain_on t s)"
  by (auto simp: chain_on_def spawn_inv split: option.split)

lemma run_not_queued:
  "sched_inv s \<Longrightarrow> map_of (sd_flights s) n = Some f \<Longrightarrow> fl_phase f = Running \<Longrightarrow> map_of (sd_runs s) n = Some u \<Longrightarrow> rr_status u \<noteq> ''queued''"
  using fitsD(1) [of s n u] by (auto simp: run_fits_def)

lemma run_not_running:
  "sched_inv s \<Longrightarrow> map_of (sd_flights s) n = Some f \<Longrightarrow> fl_phase f \<noteq> Running \<Longrightarrow> map_of (sd_runs s) n = Some u \<Longrightarrow> rr_status u \<noteq> ''running''"
  using fitsD(1) [of s n u] by (auto simp: run_fits_def)

text \<open>A row that the end of the run rewrites to something that is not active.\<close>

lemma over_run: "(\<And>u. rr_status (g u) \<noteq> ''queued'' \<and> rr_status (g u) \<noteq> ''running'') \<Longrightarrow> run_over n (alter_run n g s)"
  by (rule run_over_alter) (simp add: active_run_def)

lemma altered_not_queued:
  "(\<And>u. rr_status (g u) \<noteq> ''queued'') \<Longrightarrow> map_of (sd_runs (alter_run n g s)) n = Some u \<Longrightarrow> rr_status u \<noteq> ''queued''"
  by (auto simp: alter_run_def update_conv' split: option.split_asm)

text \<open>
  After the run is over and the task is advanced: the execution ends, or it fails because the
  calendar raises.
\<close>

lemma advanced_inv:
  assumes "sched_inv s" "n < sd_fresh s" "others n s s'"
    and over: "run_over n s'" and q: "\<And>u. map_of (sd_runs s') n = Some u \<Longrightarrow> rr_status u \<noteq> ''queued''"
    and fin: "\<And>t'. sched_inv (conclude n f (set_task i t' s')) \<Longrightarrow> sched_inv (g t')"
  shows "sched_inv (case advance env now i t of Inl e \<Rightarrow> failed env now n f (exc_text e) (set_task i t s') | Inr t' \<Rightarrow> g t')"
proof (cases "advance env now i t")
  case (Inl e)
  have "sched_inv (failed env now n f (exc_text e) (set_task i t s'))"
    by (rule failed_inv [OF assms(1) _ assms(2)]) (use q in \<open>auto intro: sched_keeps assms(3)\<close>)
  with Inl show ?thesis by simp
next
  case (Inr t')
  have "sched_inv (conclude n f (set_task i t' s'))"
    by (rule conclude_inv [OF assms(1) _ _ assms(2)]) (use over in \<open>auto intro: sched_keeps assms(3)\<close>)
  with Inr fin show ?thesis by simp
qed

lemma finish_inv:
  assumes "sched_inv s" "map_of (sd_flights s) n = Some f" "fl_phase f = Running"
  shows "sched_inv (finish env now n f out s)"
proof -
  have n: "n < sd_fresh s" by (rule fitsD(3) [OF assms(1,2)])
  note fail = failed_inv [OF assms(1) others_refl n run_not_queued [OF assms]]
  show ?thesis
  proof (cases "dget (sd_tasks s) (fl_task f)")
    case None
    then show ?thesis using fail by (simp add: finish_def)
  next
    case (Some t)
    show ?thesis
    proof (cases out)
      case (Raised err)
      then show ?thesis using fail by (simp add: finish_def Some)
    next
      case (Deferred delay)
      have "sched_inv (conclude n f (set_task i t' (s\<lparr>sd_defers := d, sd_runs := AList.delete n (sd_runs s)\<rparr>)))" for i t' d
        by (rule conclude_inv [OF assms(1) _ _ n]) (simp_all add: others_def delete_conv' run_over_def)
      with Deferred show ?thesis by (simp add: finish_def Some Let_def)
    next
      case (Noop reason)
      let ?g = "\<lambda>u. u\<lparr>rr_status := ''skipped'', rr_result := Some reason, rr_finished := Some now\<rparr>"
      have "sched_inv (case advance env now i t of Inl e \<Rightarrow> failed env now n f (exc_text e) (set_task i t (alter_run n ?g s))
          | Inr t' \<Rightarrow> conclude n f (set_task i t' (alter_run n ?g s)))" for i t
        by (rule advanced_inv [OF assms(1) n others_alter_run [OF others_refl] over_run]) (auto dest: altered_not_queued [rotated])
      with Noop show ?thesis by (simp add: finish_def Some Let_def)
    next
      case (Finished ok result)
      define s1 where "s1 = (alter_run n (returned now ok result) s)\<lparr>sd_defers := dpop (fl_task f) (sd_defers (alter_run n (returned now ok result) s))\<rparr>"
      have o1: "others n s s1" unfolding s1_def by (intro sched_keeps)
      have over: "run_over n s1" using over_run [of "returned now ok result" n s] by (simp add: s1_def run_over_def returned_def)
      have q: "map_of (sd_runs s1) n = Some u \<Longrightarrow> rr_status u \<noteq> ''queued''" for u
        using altered_not_queued [of "returned now ok result" n s u] by (simp add: s1_def returned_def)
      have "sched_inv (conclude n f (set_task i t' s1))" "sched_inv (conclude n f (add_notification env now nm st j own b (set_task i t' s1)))"
        for i t' nm st j own b
        by (rule conclude_inv [OF assms(1) _ _ n]; use over in \<open>auto intro: sched_keeps o1\<close>)+
      then have fin: "sched_inv (report env now n f ok result t' s1)" for t'
        by (simp add: report_def Let_def chain_on_inv)
      have "sched_inv (case advance env now (fl_task f) t' of Inl e \<Rightarrow> failed env now n f (exc_text e) (set_task (fl_task f) t' s1)
          | Inr t' \<Rightarrow> report env now n f ok result t' s1)" for t'
        by (rule advanced_inv [OF assms(1) n o1 over q fin])
      then show ?thesis unfolding s1_def by (simp add: finish_def Some Finished Let_def)
    qed
  qed
qed

lemma cancelled_inv:
  assumes "sched_inv s" "map_of (sd_flights s) n = Some f" "begun f"
  shows "sched_inv (cancelled env now n f hit s)"
proof -
  have n: "n < sd_fresh s" by (rule fitsD(3) [OF assms(1,2)])
  have waiting: "sched_inv (conclude n f (defer_immediately_due_task now d i (mark_run_aborted now n s)))" for d i
  proof (rule conclude_inv [OF assms(1) _ _ n])
    show "others n s (defer_immediately_due_task now d i (mark_run_aborted now n s))"
      unfolding defer_immediately_due_task_def mark_run_aborted_def by (intro sched_keeps)
    show "run_over n (defer_immediately_due_task now d i (mark_run_aborted now n s))"
      unfolding defer_immediately_due_task_def run_over_alter_task mark_run_aborted_def
      by (rule run_over_alter) (auto simp: active_run_def aborted_def)
  qed
  show ?thesis
  proof (cases "fl_phase f")
    case Running
    define s1 where "s1 = alter_run n (aborted now (if hit then ''Paused because Pandamonium became active'' else ''Stopped by user'')) s"
    have o1: "others n s s1" unfolding s1_def by (intro sched_keeps)
    have over: "run_over n s1" unfolding s1_def by (rule over_run) (simp add: aborted_def)
    have q: "map_of (sd_runs s1) n = Some u \<Longrightarrow> rr_status u \<noteq> ''queued''" for u
      unfolding s1_def by (erule altered_not_queued [rotated]) (simp add: aborted_def)
    have failed: "sched_inv (failed env now n f err s1)" for err by (rule failed_inv [OF assms(1) o1 n q])
    have ended: "sched_inv (conclude n f (set_task i t s1))" for i t
      by (rule conclude_inv [OF assms(1) _ _ n]) (use over in \<open>auto intro: sched_keeps o1\<close>)
    have advanced: "sched_inv (case advance env now i t of Inl e \<Rightarrow> failed env now n f (exc_text e) (set_task i t s1) | Inr t' \<Rightarrow> conclude n f (set_task i t' s1))" for i t
      by (rule advanced_inv [OF assms(1) n o1 over q])
    show ?thesis
      unfolding cancelled_def Let_def s1_def [symmetric]
      using Running by (cases "dget (sd_tasks s1) (fl_task f)") (simp_all add: failed ended advanced)
  qed (use waiting assms(3) in \<open>simp_all add: cancelled_def begun_def\<close>)
qed

lemma set_flight_inv:
  assumes "sched_inv s" "map_of (sd_flights s) n = Some f" "fl_phase g = fl_phase f" "fl_slot g \<Longrightarrow> sd_slot s = Some n"
  shows "sched_inv (set_flight n g s)"
proof (rule inv_others [OF assms(1)])
  show "others n s (set_flight n g s)" by (intro sched_keeps)
  have "fits_at n s" using assms(1) by (simp add: sched_inv_def)
  with assms(2-4) show "fits_at n (set_flight n g s)"
    by (auto simp: fits_at_def fits_def update_conv' run_fits_def split: option.split_asm)
qed

lemma cancel_handle_inv: "sched_inv s \<Longrightarrow> sched_inv (fst (cancel_handle i s))"
proof -
  assume s: "sched_inv s"
  have "sched_inv (set_flight n (f\<lparr>fl_cancelled := True\<rparr>) s)" if "map_of (sd_flights s) n = Some f" for n f
    by (rule set_flight_inv [OF s that]) (use fitsD(2) [OF s that] in simp_all)
  with s show ?thesis by (simp add: cancel_handle_def split: option.split)
qed

lemma mark_aborted_inv:
  assumes "sched_inv s"
  shows "sched_inv (mark_run_aborted now n s)"
proof (rule inv_others [OF assms])
  show "others n s (mark_run_aborted now n s)" unfolding mark_run_aborted_def by (intro sched_keeps)
  have "fits_at n s" using assms by (simp add: sched_inv_def)
  then show "fits_at n (mark_run_aborted now n s)"
    by (auto simp: mark_run_aborted_def alter_run_def fits_at_def fits_def update_conv' run_fits_def aborted_def split: option.split)
qed

lemma abort_latest_inv: "sched_inv s \<Longrightarrow> sched_inv (fst (abort_latest now i s))"
  by (auto simp: abort_latest_def mark_aborted_inv split: list.split)

lemma stop_task_inv: "sched_inv s \<Longrightarrow> sched_inv (fst (stop_task now i s))"
  by (auto simp: stop_task_def Let_def split_beta intro!: abort_latest_inv executing_inv cancel_handle_inv)

lemma stop_background_inv: "sched_inv s \<Longrightarrow> sched_inv (fst (stop_background_tasks now s))"
  unfolding stop_background_tasks_def
proof (rule foldl_keeps [where P = "\<lambda>p. sched_inv (fst p)"])
  fix p :: "sched \<times> nat" and i
  assume "sched_inv (fst p)"
  then show "sched_inv (fst ((\<lambda>(s, k) i. let (s, b) = cancel_handle i s; (s, b') = abort_latest now i s in (s, k + of_bool b + of_bool b')) p i))"
    by (simp add: split_beta Let_def abort_latest_inv cancel_handle_inv)
qed simp

lemma acquire_inv:
  assumes "sched_inv s" "map_of (sd_flights s) n = Some f" "sd_slot s = None"
  shows "sched_inv (set_flight n (f\<lparr>fl_slot := True\<rparr>) (s\<lparr>sd_slot := Some n\<rparr>))"
  unfolding sched_inv_def
proof
  fix k
  have k: "fits_at k s" using assms(1) by (simp add: sched_inv_def)
  show "fits_at k (set_flight n (f\<lparr>fl_slot := True\<rparr>) (s\<lparr>sd_slot := Some n\<rparr>))"
    using k assms(2,3) by (auto simp: fits_at_def fits_def update_conv' run_fits_def split: option.split_asm)
qed

lemma go_inv:
  assumes "sched_inv s"
  shows "sched_inv (go env now n s)"
proof (cases "map_of (sd_flights s) n")
  case None
  then show ?thesis using assms by (simp add: go_def)
next
  case (Some f)
  note n = fitsD(3) [OF assms Some]
  have dropped: "sched_inv (s\<lparr>sd_flights := AList.delete n (sd_flights s)\<rparr>)" if "fl_phase f = Chained"
  proof (rule inv_others [OF assms])
    show "others n s (s\<lparr>sd_flights := AList.delete n (sd_flights s)\<rparr>)" by (simp add: others_def delete_conv')
    have "fits_at n s" using assms by (simp add: sched_inv_def)
    with that Some show "fits_at n (s\<lparr>sd_flights := AList.delete n (sd_flights s)\<rparr>)"
      by (auto simp: fits_at_def fits_def delete_conv' run_fits_def split: option.split_asm)
  qed
  have created: "sched_inv (begin_execution env now n (f\<lparr>fl_phase := Created\<rparr>) (set_flight n (f\<lparr>fl_phase := Created\<rparr>) (s\<lparr>sd_executing := e\<rparr>)))"
    if "fl_phase f = Chained" for e
  proof (rule begin_execution_inv)
    show "sched_inv (set_flight n (f\<lparr>fl_phase := Created\<rparr>) (s\<lparr>sd_executing := e\<rparr>))"
    proof (rule inv_others [OF assms])
      show "others n s (set_flight n (f\<lparr>fl_phase := Created\<rparr>) (s\<lparr>sd_executing := e\<rparr>))" by (intro sched_keeps)
      have "fits_at n s" using assms by (simp add: sched_inv_def)
      with that Some show "fits_at n (set_flight n (f\<lparr>fl_phase := Created\<rparr>) (s\<lparr>sd_executing := e\<rparr>))"
        by (auto simp: fits_at_def fits_def update_conv' run_fits_def split: option.split_asm)
    qed
  qed (simp add: update_conv')
  have start: "sched_inv (start_run env now n f s)"
    by (rule start_run_inv [OF assms others_refl fitsD(2) [OF assms Some] n])
  have enter: "sched_inv (enter_locked env now n (f\<lparr>fl_slot := True\<rparr>) (set_flight n (f\<lparr>fl_slot := True\<rparr>) (s\<lparr>sd_slot := Some n\<rparr>)))"
    if "fl_phase f = Queued" "sd_slot s = None"
    by (rule enter_locked_inv [OF acquire_inv [OF assms Some that(2)] others_refl])
      (use n that(1) run_not_running [OF assms Some] in simp_all)
  show ?thesis
    using assms Some dropped start enter begin_execution_inv [OF assms Some] created
    by (simp add: go_def begin_step_def split: phase.split)
qed

lemma sched_step_inv: "sched_inv s \<Longrightarrow> sched_inv (sched_step env s e)"
proof (cases e)
  case (Cancel now n hit)
  assume s: "sched_inv s"
  show ?thesis
  proof (cases "map_of (sd_flights s) n")
    case (Some f)
    then have "begun f \<Longrightarrow> sched_inv (cancelled env now n f hit s)" using cancelled_inv [OF s] by blast
    with Some s Cancel show ?thesis by (auto simp: begun_def)
  qed (use s Cancel in simp)
qed (auto simp: check_due_inv run_task_now_inv handle_event_inv go_inv finish_inv stop_task_inv stop_background_inv set_task_inv
    pop_notifications_def split: option.split intro: inv_same)

lemma idle_inv: "sched_inv (idle tasks)" by (simp add: sched_inv_def fits_at_def fits_def idle_def)

interpretation scheduler: invariant_system "sched_step env" sched_inv for env
  by unfold_locales (rule sched_step_inv)

text \<open>
  Claim C21. No run is left behind. Whatever happens, a run that is queued or running has its execution: one
  that waits for its turn or for the foreground, or one that runs. When an execution ends, its run has
  a final status or, if it was deferred, is gone.
\<close>

theorem active_run_has_execution:
  assumes "s = run (sched_step env) (idle tasks) es" "map_of (sd_runs s) n = Some u"
  shows "(rr_status u = ''queued'' \<longrightarrow> (\<exists>f. map_of (sd_flights s) n = Some f \<and> fl_phase f \<in> {Queued, Gated})) \<and>
    (rr_status u = ''running'' \<longrightarrow> (\<exists>f. map_of (sd_flights s) n = Some f \<and> fl_phase f = Running))"
proof -
  have "sched_inv s" unfolding assms(1) by (rule scheduler.run_inv [OF idle_inv])
  from fitsD(1) [OF this assms(2)] show ?thesis by (auto simp: run_fits_def split: option.split_asm)
qed

section \<open>When a task runs again\<close>

text \<open>What the end of an execution leaves of the row of a task.\<close>

lemma conclude_rows [simp]: "sd_tasks (conclude n f s) = sd_tasks s" by (simp add: conclude_def)

lemma alter_run_rows [simp]: "sd_tasks (alter_run n g s) = sd_tasks s" by (simp add: alter_run_def split: option.split)

lemma notification_rows [simp]: "sd_tasks (add_notification env now name st i owner body s) = sd_tasks s"
  by (simp add: add_notification_def Let_def)

lemma chain_on_rows [simp]: "sd_tasks (chain_on t s) = sd_tasks s" by (simp add: chain_on_def spawn_def split: option.split)

lemma failed_row:
  assumes "dget (sd_tasks s) (fl_task f) = Some t"
  shows "dget (sd_tasks (failed env now n f err s)) (fl_task f) = Some (if scheduled t
      then (case next_of env now (fl_task f) t of Inl _ \<Rightarrow> t\<lparr>tr_last := Some now\<rparr> | Inr w \<Rightarrow> t\<lparr>tr_last := Some now, tr_next := w\<rparr>) else t)"
  using assms by (simp add: failed_def Let_def alter_task_def)

lemma report_row:
  "dget (sd_tasks (report env now n f ok result t s)) (fl_task f) =
     Some (if scheduled t \<and> tr_next t = None \<and> sp_schedule (tr_spec t) = Some ''once'' then t\<lparr>tr_status := ''completed''\<rparr> else t)"
  by (simp add: report_def Let_def)

text \<open>A schedule that the calendar can serve: daily, weekly or monthly, with a valid time and day.\<close>

definition regular :: "schedule_spec \<Rightarrow> int \<times> int \<Rightarrow> bool" where
  "regular s hm \<longleftrightarrow> sp_schedule s \<in> {Some ''daily'', Some ''weekly'', Some ''monthly''} \<and> sp_time s \<noteq> None \<and> parse_time (the (sp_time s)) = Some hm \<and>
     (case sp_day s of None \<Rightarrow> True | Some d \<Rightarrow> 1 \<le> d \<and> d \<le> 6 \<or> d = 0 \<and> sp_schedule s \<noteq> Some ''monthly'' \<or> 6 < d \<and> sp_schedule s \<noteq> Some ''weekly'')"

lemma regular_next:
  assumes "regular (tr_spec t) hm" "sv_zone env i = None" "0 \<le> now" "now < days_before_year 9999 * DAY"
  obtains r where "next_of env now i t = Inr (Some r)" "is_first_after now (fires_at (tr_spec t) hm) r"
proof -
  obtain time where time: "sp_time (tr_spec t) = Some time" "parse_time time = Some hm" using assms(1) by (auto simp: regular_def)
  have "\<exists>r. compute_next_run (sv_cron env) None now (tr_spec t) = Inr (Some r) \<and> is_first_after now (fires_at (tr_spec t) hm) r"
    by (rule next_run_first [OF _ time _ _ assms(3,4)]) (use assms(1) in \<open>auto simp: regular_def split: option.splits\<close>)
  with that assms(2) show ?thesis by (auto simp: next_of_def)
qed

text \<open>
  A scheduled task is not due at the end of its run, whatever the run gave: its next run is the first
  moment of its schedule after that, or the delay that it asked for.
\<close>

lemma task_not_due_after_run:
  assumes f: "map_of (sd_flights s) n = Some f" "fl_phase f = Running" "dget (sd_tasks s) (fl_task f) = Some t"
    and t: "scheduled t" "regular (tr_spec t) hm" "sv_zone env (fl_task f) = None"
    and now: "0 \<le> now" "now < days_before_year 9999 * DAY" and out: "\<And>delay. out = Deferred delay \<Longrightarrow> 0 \<le> delay"
  shows "\<exists>t'. dget (sd_tasks (sched_step env s (Finish now n out))) (fl_task f) = Some t' \<and> \<not> is_due now t' \<and>
    ((\<exists>delay. out = Deferred delay) \<or> (\<exists>r. tr_next t' = Some r \<and> is_first_after now (fires_at (tr_spec t) hm) r))"
proof -
  obtain r where r: "next_of env now (fl_task f) t = Inr (Some r)" "is_first_after now (fires_at (tr_spec t) hm) r"
    by (rule regular_next [OF t(2,3) now])
  have later: "now < r" using r(2) by (simp add: is_first_after_def)
  have adv: "advance env now (fl_task f) (t\<lparr>tr_last := a, tr_runs := b\<rparr>) = Inr (t\<lparr>tr_last := a, tr_runs := b, tr_next := Some r\<rparr>)" for a b
    using t(1) r(1) by (simp add: advance_def scheduled_def next_of_def)
  have adv': "advance env now (fl_task f) (t\<lparr>tr_last := a\<rparr>) = Inr (t\<lparr>tr_last := a, tr_next := Some r\<rparr>)" for a
    using t(1) r(1) by (simp add: advance_def scheduled_def next_of_def)
  show ?thesis
  proof (cases out)
    case (Deferred delay)
    then have "0 \<le> delay" by (rule out)
    then show ?thesis using f Deferred by (auto simp: finish_def Let_def is_due_def)
  next
    case (Raised err)
    then show ?thesis using f t(1) r later by (auto simp: finish_def failed_row is_due_def)
  next
    case (Noop reason)
    then show ?thesis using f r later adv' by (simp add: finish_def Let_def is_due_def)
  next
    case (Finished ok result)
    then show ?thesis using f r later adv by (simp add: finish_def Let_def is_due_def report_row)
  qed
qed

text \<open>
  Claim C30. A task that waits for an event and fails is run again and again. The trigger of such a task is
  stored as a next run that has come; the handler of an exception advances only scheduled tasks, so
  the task is due at every later moment, and every tick with a quiet foreground dispatches it again.
\<close>

theorem failed_event_task_repeats:
  assumes "map_of (sd_flights s) n = Some f" "fl_phase f = Running" "fl_release f" "dget (sd_tasks s) (fl_task f) = Some t"
    "tr_trigger t = Some ''event''" "is_due now t" "now \<le> later"
  shows "fl_task f \<notin> set (sd_executing (sched_step env s (Finish now n (Raised err)))) \<and>
    fl_task f \<in> set (sd_executing (sched_step env (sched_step env s (Finish now n (Raised err))) (Tick later False)))"
proof -
  let ?i = "fl_task f" and ?s = "failed env now n f err s"
  have step: "sched_step env s (Finish now n (Raised err)) = ?s" using assms(1,2,4) by (simp add: finish_def)
  have free: "?i \<notin> set (sd_executing ?s)" using assms(3) by (simp add: failed_def Let_def conclude_def)
  have row: "dget (sd_tasks ?s) ?i = Some t" using failed_row [OF assms(4)] assms(5) by (simp add: scheduled_def text_or_def)
  have due: "is_due later t" using assms(6,7) by (auto simp: is_due_def split: option.splits)
  let ?due = "map fst (filter (\<lambda>(i, t). is_due later t \<and> i \<notin> set (sd_executing ?s)) (sd_tasks ?s))"
  have "(?i, t) \<in> set (sd_tasks ?s)" using row by (rule map_of_SomeD)
  then have mem: "?i \<in> set ?due" using due free by force
  have grows: "i \<in> set xs \<or> i \<in> set (sd_executing s) \<Longrightarrow>
      i \<in> set (sd_executing (foldl (\<lambda>s i. spawn i False True Created (s\<lparr>sd_executing := i # sd_executing s\<rparr>)) s xs))" for i xs s
    by (induction xs arbitrary: s) (auto simp: spawn_def)
  have "?i \<in> set (sd_executing (sched_step env ?s (Tick later False)))"
    unfolding sched_step.simps check_due_tasks_def Let_def if_False by (rule grows) (use mem in simp)
  with free show ?thesis unfolding step by simp
qed

section \<open>Chains of tasks\<close>

definition follows :: "task_row dict \<Rightarrow> string \<Rightarrow> string option" where
  "follows tasks i =
     (case dget tasks i of None \<Rightarrow> None | Some t \<Rightarrow> (case tr_then t of None \<Rightarrow> None | Some j \<Rightarrow> if j = [] then None else Some j))"

text \<open>The task at a place of the chain that begins with a task.\<close>

fun chain_at :: "task_row dict \<Rightarrow> string \<Rightarrow> nat \<Rightarrow> string option" where
  "chain_at tasks i 0 = Some i"
| "chain_at tasks i (Suc k) = (case follows tasks i of None \<Rightarrow> None | Some j \<Rightarrow> chain_at tasks j k)"

definition owned_by :: "task_row dict \<Rightarrow> string option \<Rightarrow> string \<Rightarrow> bool" where
  "owned_by tasks owner j \<longleftrightarrow> owner = None \<or> (case dget tasks j of None \<Rightarrow> True | Some t \<Rightarrow> tr_owner t = owner)"

lemma chain_at_append: "chain_at tasks i (a + b) = (case chain_at tasks i a of None \<Rightarrow> None | Some j \<Rightarrow> chain_at tasks j b)"
  by (induction a arbitrary: i) (auto split: option.split)

lemma no_return:
  assumes "chain_at tasks i (Suc m) = Some i"
  shows "chain_at tasks i k \<noteq> None"
proof (induction k rule: less_induct)
  case (less k)
  show ?case
  proof (cases "k \<le> m")
    case True
    have "chain_at tasks i (k + (Suc m - k)) = Some i" using assms True by simp
    then show ?thesis unfolding chain_at_append by (auto split: option.split_asm)
  next
    case False
    then have "chain_at tasks i k = chain_at tasks i (k - Suc m)"
      using chain_at_append [of tasks i "Suc m" "k - Suc m"] assms by simp
    then show ?thesis using less [of "k - Suc m"] False by simp
  qed
qed

lemma has_chain_cycle_iff:
  "\<not> has_chain_cycle k visited tasks owner i \<longleftrightarrow>
     (\<exists>n. n < k \<and> chain_at tasks i (Suc n) = None) \<and>
     (\<forall>n j. chain_at tasks i n = Some j \<longrightarrow> owned_by tasks owner j \<and> j \<notin> set visited)"
proof (induction k arbitrary: visited i)
  case (Suc k)
  have none: "follows tasks i = None \<Longrightarrow> (\<forall>n j. chain_at tasks i n = Some j \<longrightarrow> P j) = P i" for P
  proof
    assume "follows tasks i = None" "P i"
    then show "\<forall>n j. chain_at tasks i n = Some j \<longrightarrow> P j" by (metis chain_at.elims option.case(1) option.distinct(1) option.inject)
  next
    assume "\<forall>n j. chain_at tasks i n = Some j \<longrightarrow> P j"
    then show "P i" by (metis chain_at.simps(1))
  qed
  show ?case
  proof (cases "follows tasks i")
    case None
    then have "has_chain_cycle (Suc k) visited tasks owner i \<longleftrightarrow> i \<in> set visited \<or> \<not> owned_by tasks owner i"
      by (auto simp: follows_def owned_by_def split: option.split_asm if_split_asm)
    moreover have "\<exists>n. n < Suc k \<and> chain_at tasks i (Suc n) = None" using None by (intro exI [of _ 0]) simp
    ultimately show ?thesis using none [OF None, of "\<lambda>j. owned_by tasks owner j \<and> j \<notin> set visited"] by blast
  next
    case (Some j)
    then have step: "has_chain_cycle (Suc k) visited tasks owner i \<longleftrightarrow>
        i \<in> set visited \<or> \<not> owned_by tasks owner i \<or> has_chain_cycle k (i # visited) tasks owner j"
      by (cases owner) (auto simp: follows_def owned_by_def split: option.split_asm if_split_asm)
    have at: "chain_at tasks i (Suc n) = chain_at tasks j n" for n using Some by simp
    have all: "(\<forall>n x. chain_at tasks i n = Some x \<longrightarrow> P x) \<longleftrightarrow> P i \<and> (\<forall>n x. chain_at tasks j n = Some x \<longrightarrow> P x)" for P
    proof
      assume a: "\<forall>n x. chain_at tasks i n = Some x \<longrightarrow> P x"
      have "P i" using a chain_at.simps(1) by blast
      moreover have "P x" if "chain_at tasks j n = Some x" for n x using a at [of n] that by metis
      ultimately show "P i \<and> (\<forall>n x. chain_at tasks j n = Some x \<longrightarrow> P x)" by blast
    next
      assume a: "P i \<and> (\<forall>n x. chain_at tasks j n = Some x \<longrightarrow> P x)"
      show "\<forall>n x. chain_at tasks i n = Some x \<longrightarrow> P x"
      proof (intro allI impI)
        fix n x assume "chain_at tasks i n = Some x"
        then show "P x" using a at by (cases n) auto
      qed
    qed
    have ends: "(\<exists>n. n < Suc k \<and> chain_at tasks i (Suc n) = None) \<longleftrightarrow> (\<exists>n. n < k \<and> chain_at tasks j (Suc n) = None)"
    proof
      assume "\<exists>n. n < Suc k \<and> chain_at tasks i (Suc n) = None"
      then obtain n where n: "n < Suc k" "chain_at tasks j n = None" using at by auto
      then obtain m where "n = Suc m" by (cases n) auto
      with n show "\<exists>n. n < k \<and> chain_at tasks j (Suc n) = None" by auto
    next
      assume "\<exists>n. n < k \<and> chain_at tasks j (Suc n) = None"
      then obtain n where "n < k" "chain_at tasks j (Suc n) = None" by blast
      then show "\<exists>n. n < Suc k \<and> chain_at tasks i (Suc n) = None" using at by (intro exI [of _ "Suc n"]) simp
    qed
    have away: "x \<noteq> i" if e: "\<exists>n. n < k \<and> chain_at tasks j (Suc n) = None" and x: "chain_at tasks j n = Some x" for n x
    proof
      assume "x = i"
      then have "chain_at tasks i (Suc n) = Some i" using at x by simp
      from no_return [OF this] e at show False by (metis)
    qed
    show ?thesis unfolding step de_Morgan_disj not_not Suc.IH ends all using away by auto
  qed
qed simp

text \<open>
  The check of a chain is exact: it passes when the chain ends after at most ten tasks, all of which
  that exist belong to the owner. So no chain of tasks goes on for ever.
\<close>

lemma chain_check_exact:
  "\<not> has_chain_cycle 10 [] tasks owner i \<longleftrightarrow>
     (\<exists>n. n < 10 \<and> chain_at tasks i (Suc n) = None) \<and> (\<forall>n j. chain_at tasks i n = Some j \<longrightarrow> owned_by tasks owner j)"
  unfolding has_chain_cycle_iff by simp

section \<open>One execution of a task at a time\<close>

text \<open>
  What the dispatch sees of the executions: their task, whether they still have to enter the set of tasks
  in execution, and whether they leave it.
\<close>

definition seen :: "sched \<Rightarrow> nat \<Rightarrow> (string \<times> bool \<times> bool) option" where
  "seen s n = map_option (\<lambda>f. (fl_task f, fl_phase f = Chained, fl_release f)) (map_of (sd_flights s) n)"

definition once_inv :: "sched \<Rightarrow> bool" where
  "once_inv s \<longleftrightarrow>
     (\<forall>n i b r. seen s n = Some (i, b, r) \<longrightarrow> r \<and> n < sd_fresh s \<and> (b \<or> i \<in> set (sd_executing s))) \<and>
     (\<forall>n m i r r'. seen s n = Some (i, False, r) \<longrightarrow> seen s m = Some (i, False, r') \<longrightarrow> n = m)"

lemma once_same: "once_inv s \<Longrightarrow> seen s' = seen s \<Longrightarrow> sd_executing s' = sd_executing s \<Longrightarrow> sd_fresh s' = sd_fresh s \<Longrightarrow> once_inv s'"
  by (simp only: once_inv_def)

lemma onceD:
  assumes "once_inv s" "seen s n = Some (i, b, r)"
  shows "r" "n < sd_fresh s" "\<not> b \<Longrightarrow> i \<in> set (sd_executing s)" "\<not> b \<Longrightarrow> seen s m = Some (i, False, r') \<Longrightarrow> n = m"
proof -
  show "r" "n < sd_fresh s" "\<not> b \<Longrightarrow> i \<in> set (sd_executing s)" using assms unfolding once_inv_def by blast+
  assume "\<not> b" "seen s m = Some (i, False, r')"
  with assms(2) have "seen s n = Some (i, False, r)" by simp
  with assms(1) \<open>seen s m = _\<close> show "n = m" unfolding once_inv_def by blast
qed

lemma onceI:
  assumes "\<And>n i b r. seen s n = Some (i, b, r) \<Longrightarrow> r \<and> n < sd_fresh s \<and> (b \<or> i \<in> set (sd_executing s))"
    "\<And>n m i r r'. seen s n = Some (i, False, r) \<Longrightarrow> seen s m = Some (i, False, r') \<Longrightarrow> n = m"
  shows "once_inv s"
  using assms unfolding once_inv_def by blast

lemma seen_simps [simp]:
  "seen (s\<lparr>sd_tasks := d'\<rparr>) = seen s" "seen (alter_task i g s) = seen s" "seen (set_run n u s) = seen s" "seen (alter_run n h s) = seen s"
  "seen (add_notification env now nm st j own b s) = seen s" "seen (s\<lparr>sd_handles := hs\<rparr>) = seen s" "seen (s\<lparr>sd_slot := sl\<rparr>) = seen s"
  "seen (s\<lparr>sd_executing := e\<rparr>) = seen s" "seen (s\<lparr>sd_defers := d\<rparr>) = seen s" "seen (s\<lparr>sd_runs := rs\<rparr>) = seen s" "seen (s\<lparr>sd_notes := ns\<rparr>) = seen s"
  by (simp_all add: seen_def fun_eq_iff alter_task_def alter_run_def add_notification_def Let_def split: option.split)

lemma executing_simps [simp]:
  "sd_executing (alter_task i g s) = sd_executing s" "sd_executing (alter_run n h s) = sd_executing s" "sd_executing (add_notification env now nm st j own b s) = sd_executing s"
  "sd_fresh (alter_task i g s) = sd_fresh s" "sd_fresh (alter_run n h s) = sd_fresh s" "sd_fresh (add_notification env now nm st j own b s) = sd_fresh s"
  by (simp_all add: alter_task_def alter_run_def add_notification_def Let_def split: option.split)

lemma seen_set_flight:
  "map_of (sd_flights s) n = Some f \<Longrightarrow> fl_task g = fl_task f \<Longrightarrow> fl_release g = fl_release f \<Longrightarrow> (fl_phase g = Chained) = (fl_phase f = Chained) \<Longrightarrow>
     seen (set_flight n g s) = seen s"
  by (auto simp: seen_def fun_eq_iff update_conv')

lemma seen_spawn: "seen (spawn i b r ph s) n = (if n = sd_fresh s then Some (i, ph = Chained, r) else seen s n)"
  by (simp add: seen_def spawn_def update_conv')

lemma seen_conclude: "seen (conclude n f s) m = (if m = n then None else seen s m)"
  by (simp add: seen_def conclude_lookups)

lemma once_conclude:
  assumes "once_inv s" "seen s n = Some (fl_task f, b, fl_release f)" "\<not> b"
  shows "once_inv (conclude n f s)"
proof (rule onceI)
  fix m i c r
  assume "seen (conclude n f s) m = Some (i, c, r)"
  then have m: "m \<noteq> n" "seen s m = Some (i, c, r)" by (simp_all add: seen_conclude split: if_split_asm)
  have "fl_release f" by (rule onceD(1) [OF assms(1,2)])
  then have ex: "sd_executing (conclude n f s) = removeAll (fl_task f) (sd_executing s)" by (simp add: conclude_def)
  have "i \<noteq> fl_task f" if "\<not> c" using onceD(4) [OF assms(1,2,3)] m that by auto
  with onceD(1-3) [OF assms(1) m(2)] show "r \<and> m < sd_fresh (conclude n f s) \<and> (c \<or> i \<in> set (sd_executing (conclude n f s)))"
    by (auto simp: ex conclude_lookups(1))
next
  fix m k i r r'
  assume "seen (conclude n f s) m = Some (i, False, r)" "seen (conclude n f s) k = Some (i, False, r')"
  then have "seen s m = Some (i, False, r)" "seen s k = Some (i, False, r')" by (simp_all add: seen_conclude split: if_split_asm)
  then show "m = k" using onceD(4) [OF assms(1)] by blast
qed

lemma once_spawn:
  assumes "once_inv s" "ph = Chained \<or> i \<notin> set (sd_executing s)"
  shows "once_inv (spawn i b True ph (if ph = Chained then s else s\<lparr>sd_executing := i # sd_executing s\<rparr>))"
proof (rule onceI)
  let ?s = "if ph = Chained then s else s\<lparr>sd_executing := i # sd_executing s\<rparr>"
  have sn: "seen (spawn i b True ph ?s) n = (if n = sd_fresh s then Some (i, ph = Chained, True) else seen s n)" for n
    by (simp add: seen_spawn)
  show "r \<and> n < sd_fresh (spawn i b True ph ?s) \<and> (c \<or> j \<in> set (sd_executing (spawn i b True ph ?s)))"
    if "seen (spawn i b True ph ?s) n = Some (j, c, r)" for n j c r
    using that onceD(1-3) [OF assms(1), of n j c r] unfolding sn by (auto simp: spawn_def split: if_split_asm)
  have new: "ph = Chained" if "seen s m = Some (i, False, r)" for m r
    using onceD(3) [OF assms(1) that] assms(2) by auto
  show "n = m" if "seen (spawn i b True ph ?s) n = Some (j, False, r)" "seen (spawn i b True ph ?s) m = Some (j, False, r')" for n m j r r'
    using that onceD(4) [OF assms(1)] new unfolding sn by (auto split: if_split_asm)
qed

lemma once_chained: "once_inv s \<Longrightarrow> once_inv (spawn i b True Chained s)"
  using once_spawn [of s Chained i b] by simp

lemma once_dispatch: "once_inv s \<Longrightarrow> i \<notin> set (sd_executing s) \<Longrightarrow> once_inv (spawn i b True Created (s\<lparr>sd_executing := i # sd_executing s\<rparr>))"
  using once_spawn [of s Created i b] by simp

lemma once_run_now: "once_inv s \<Longrightarrow> once_inv (fst (run_task_now i False s))"
  by (simp add: run_task_now_def once_dispatch)

text \<open>The tick dispatches tasks that are different and not in execution.\<close>

lemma once_tick_list:
  "once_inv s \<Longrightarrow> distinct xs \<Longrightarrow> set xs \<inter> set (sd_executing s) = {} \<Longrightarrow>
     once_inv (foldl (\<lambda>s i. if foreground then alter_task i g s else spawn i False True Created (s\<lparr>sd_executing := i # sd_executing s\<rparr>)) s xs)"
proof (induction xs arbitrary: s)
  case (Cons i xs)
  let ?s = "if foreground then alter_task i g s else spawn i False True Created (s\<lparr>sd_executing := i # sd_executing s\<rparr>)"
  have "once_inv ?s" using Cons.prems by (auto intro: once_same once_dispatch)
  moreover have "set xs \<inter> set (sd_executing ?s) = {}" using Cons.prems by (auto simp: spawn_def)
  ultimately show ?case using Cons.IH [of ?s] Cons.prems(2) by simp
qed simp

lemma once_tick: "once_inv s \<Longrightarrow> wf_dict (sd_tasks s) \<Longrightarrow> once_inv (check_due_tasks now foreground s)"
proof -
  assume s: "once_inv s" "wf_dict (sd_tasks s)"
  have "wf_dict (filter P (sd_tasks s))" for P using s(2) by (rule wf_filter)
  then have "distinct (map fst (filter (\<lambda>(i, t). is_due now t \<and> i \<notin> set (sd_executing s)) (sd_tasks s)))" .
  moreover have "set (map fst (filter (\<lambda>(i, t). is_due now t \<and> i \<notin> set (sd_executing s)) (sd_tasks s))) \<inter> set (sd_executing s) = {}" by auto
  ultimately show ?thesis unfolding check_due_tasks_def Let_def by (intro once_tick_list s(1))
qed

lemma once_event: "once_inv s \<Longrightarrow> once_inv (handle_event now event owner s)"
  unfolding handle_event_def
proof (erule foldl_keeps)
  fix s i
  assume s: "once_inv s"
  have "once_inv (set_task i t s)" for t by (rule once_same [OF s]) simp_all
  then show "once_inv (count_event now i s)" by (simp add: count_event_def Let_def s once_run_now split: option.split)
qed

lemma once_set_flight:
  "once_inv s \<Longrightarrow> map_of (sd_flights s) n = Some f \<Longrightarrow> fl_task g = fl_task f \<Longrightarrow> fl_release g = fl_release f \<Longrightarrow> (fl_phase g = Chained) = (fl_phase f = Chained) \<Longrightarrow>
     once_inv (set_flight n g s)"
  by (erule once_same) (simp_all add: seen_set_flight)

lemma flights_simps [simp]:
  "sd_flights (alter_task i g s) = sd_flights s" "sd_flights (alter_run n h s) = sd_flights s" "sd_flights (add_notification env now nm st j own b s) = sd_flights s"
  by (simp_all add: alter_task_def alter_run_def add_notification_def Let_def split: option.split)

text \<open>An execution that entered the set, seen as such.\<close>

definition entered_as :: "nat \<Rightarrow> flight \<Rightarrow> sched \<Rightarrow> bool" where
  "entered_as n f s \<longleftrightarrow> once_inv s \<and> seen s n = Some (fl_task f, False, fl_release f)"

lemma entered_conclude: "entered_as n f s \<Longrightarrow> once_inv (conclude n f s)"
  by (auto simp: entered_as_def intro: once_conclude)

lemma entered_same: "entered_as n f s \<Longrightarrow> seen s' = seen s \<Longrightarrow> sd_executing s' = sd_executing s \<Longrightarrow> sd_fresh s' = sd_fresh s \<Longrightarrow> entered_as n f s'"
  by (auto simp: entered_as_def intro: once_same)

lemma entered_flight: "entered_as n f s \<Longrightarrow> fl_phase g \<noteq> Chained \<Longrightarrow> fl_task g = fl_task f \<Longrightarrow> fl_release g = fl_release f \<Longrightarrow> once_inv (set_flight n g s)"
proof -
  assume e: "entered_as n f s" and g: "fl_phase g \<noteq> Chained" "fl_task g = fl_task f" "fl_release g = fl_release f"
  then obtain h where "map_of (sd_flights s) n = Some h" "fl_task h = fl_task f" "fl_phase h \<noteq> Chained" "fl_release h = fl_release f"
    by (auto simp: entered_as_def seen_def)
  from once_set_flight [OF _ this(1), of g] e g this(2-4) show ?thesis by (simp add: entered_as_def)
qed

lemma once_enter_locked: "entered_as n f s \<Longrightarrow> once_inv (enter_locked env now n f s)"
proof -
  assume e: "entered_as n f s"
  have a: "entered_as n f (alter_run n h s)" for h by (rule entered_same [OF e]) simp_all
  have "entered_as n f (set_task i t (alter_run n h s))" for h i t by (rule entered_same [OF a]) simp_all
  then have c: "once_inv (conclude n f (alter_run n h s))" "once_inv (conclude n f (set_task i t (alter_run n h s)))" for h i t
    by (blast intro: entered_conclude a)+
  have g: "once_inv (set_flight n (f\<lparr>fl_phase := Gated\<rparr>) (alter_run n h s))" for h
    by (rule entered_flight [OF a]) simp_all
  have r: "once_inv (start_run env now n f s)"
    unfolding start_run_def Let_def by (rule entered_flight [OF entered_same [OF e]]) simp_all
  show ?thesis
    by (simp add: enter_locked_def Let_def c g r split: option.split del: alter_run_rows flights_simps append_Cons append_Nil)
qed

lemma once_begin_execution:
  assumes "entered_as n f s"
  shows "once_inv (begin_execution env now n f s)"
proof -
  define s1 where "s1 = set_run n \<lparr>rr_task = fl_task f, rr_status = ''queued'', rr_result = Some (sv_queued_text env), rr_error = None, rr_started = now, rr_finished = None\<rparr>
    (s\<lparr>sd_handles := AList.update (fl_task f) n (sd_handles s)\<rparr>)"
  have "entered_as n f s1" unfolding s1_def by (rule entered_same [OF assms]) simp_all
  then have "once_inv (enter_locked env now n f s1)" "once_inv (set_flight n (f\<lparr>fl_phase := Queued\<rparr>) s1)"
    by (auto intro: once_enter_locked entered_flight)
  then show ?thesis unfolding begin_execution_def Let_def s1_def [symmetric] by simp
qed

lemma entered_rows:
  assumes "entered_as n f s"
  shows "entered_as n f (set_task i t s)" "entered_as n f (alter_task i g s)" "entered_as n f (alter_run n' h s)"
    "entered_as n f (add_notification env now nm st j own b s)" "entered_as n f (s\<lparr>sd_defers := d\<rparr>)" "entered_as n f (s\<lparr>sd_runs := rs\<rparr>)"
  by (rule entered_same [OF assms]; simp)+

lemma once_failed: "entered_as n f s \<Longrightarrow> once_inv (failed env now n f err s)"
  unfolding failed_def Let_def
  by (rule entered_conclude, intro entered_rows(2,3)) (simp add: entered_rows(4) split: option.split)

lemma once_chain_on: "once_inv s \<Longrightarrow> once_inv (chain_on t s)"
  by (auto simp: chain_on_def once_chained split: option.split)

lemma once_advanced:
  assumes "entered_as n f s" "\<And>t'. once_inv (g t')"
  shows "once_inv (case advance env now i t of Inl e \<Rightarrow> failed env now n f (exc_text e) (set_task i t s) | Inr t' \<Rightarrow> g t')"
  using assms(2) once_failed [OF entered_rows(1) [OF assms(1)]] by (simp split: sum.split)

lemma once_finish:
  assumes e: "entered_as n f s"
  shows "once_inv (finish env now n f out s)"
proof (cases "dget (sd_tasks s) (fl_task f)")
  case None
  then show ?thesis by (simp add: finish_def once_failed [OF e])
next
  case (Some t)
  show ?thesis
  proof (cases out)
    case (Raised err)
    then show ?thesis by (simp add: finish_def Some once_failed [OF e])
  next
    case (Deferred delay)
    have "entered_as n f (set_task i t' (s\<lparr>sd_defers := d, sd_runs := rs\<rparr>))" for i t' d rs
      using entered_rows(1) [OF entered_rows(6) [OF entered_rows(5) [OF e]]] by simp
    with Deferred show ?thesis by (simp add: finish_def Some Let_def entered_conclude)
  next
    case (Noop reason)
    let ?s = "alter_run n (\<lambda>u. u\<lparr>rr_status := ''skipped'', rr_result := Some reason, rr_finished := Some now\<rparr>) s"
    have "once_inv (case advance env now (fl_task f) t' of Inl e \<Rightarrow> failed env now n f (exc_text e) (set_task (fl_task f) t' ?s)
        | Inr t' \<Rightarrow> conclude n f (set_task (fl_task f) t' ?s))" for t'
      by (rule once_advanced) (intro entered_conclude entered_rows e)+
    with Noop show ?thesis by (simp add: finish_def Some Let_def)
  next
    case (Finished ok result)
    define s1 where "s1 = (alter_run n (returned now ok result) s)\<lparr>sd_defers := dpop (fl_task f) (sd_defers (alter_run n (returned now ok result) s))\<rparr>"
    have e1: "entered_as n f s1" unfolding s1_def by (intro entered_rows e)
    have "once_inv (conclude n f (set_task i t' s1))" "once_inv (conclude n f (add_notification env now nm st j own b (set_task i t' s1)))" for i t' nm st j own b
      by (intro entered_conclude entered_rows e1)+
    then have "once_inv (report env now n f ok result t' s1)" for t' by (simp add: report_def Let_def once_chain_on)
    then have "once_inv (case advance env now (fl_task f) t' of Inl e \<Rightarrow> failed env now n f (exc_text e) (set_task (fl_task f) t' s1)
        | Inr t' \<Rightarrow> report env now n f ok result t' s1)" for t'
      by (rule once_advanced [OF e1])
    then show ?thesis unfolding s1_def by (simp add: finish_def Some Finished Let_def)
  qed
qed

lemma once_cancelled:
  assumes e: "entered_as n f s"
  shows "once_inv (cancelled env now n f hit s)"
proof -
  define s1 where "s1 = alter_run n (aborted now (if hit then ''Paused because Pandamonium became active'' else ''Stopped by user'')) s"
  have e1: "entered_as n f s1" unfolding s1_def by (intro entered_rows e)
  have ended: "once_inv (conclude n f (set_task i t s1))" for i t by (intro entered_conclude entered_rows e1)
  have advanced: "once_inv (case advance env now i t of Inl e \<Rightarrow> failed env now n f (exc_text e) (set_task i t s1) | Inr t' \<Rightarrow> conclude n f (set_task i t' s1))" for i t
    by (rule once_advanced [OF e1]) (intro entered_conclude entered_rows e1)
  have waiting: "once_inv (conclude n f (defer_immediately_due_task now d i (mark_run_aborted now n s)))" for d i
    unfolding defer_immediately_due_task_def mark_run_aborted_def by (intro entered_conclude entered_rows e)
  show ?thesis
    unfolding cancelled_def Let_def s1_def [symmetric]
    by (cases "dget (sd_tasks s1) (fl_task f)"; cases "fl_phase f") (simp_all add: once_failed [OF e1] ended advanced waiting)
qed

lemma entered_at: "once_inv s \<Longrightarrow> map_of (sd_flights s) n = Some f \<Longrightarrow> fl_phase f \<noteq> Chained \<Longrightarrow> entered_as n f s"
  by (simp add: entered_as_def seen_def)

lemma once_go:
  assumes "once_inv s"
  shows "once_inv (go env now n s)"
proof (cases "map_of (sd_flights s) n")
  case None
  then show ?thesis using assms by (simp add: go_def)
next
  case (Some f)
  show ?thesis
  proof (cases "fl_phase f")
    case Chained
    let ?drop = "s\<lparr>sd_flights := AList.delete n (sd_flights s)\<rparr>"
    have drop: "once_inv ?drop"
    proof (rule onceI)
      have sn: "seen ?drop m = (if m = n then None else seen s m)" for m by (simp add: seen_def delete_conv')
      show "r \<and> m < sd_fresh ?drop \<and> (b \<or> i \<in> set (sd_executing ?drop))" if "seen ?drop m = Some (i, b, r)" for m i b r
        using that onceD(1-3) [OF assms, of m i b r] unfolding sn by (auto split: if_split_asm)
      show "m = k" if "seen ?drop m = Some (i, False, r)" "seen ?drop k = Some (i, False, r')" for m k i r r'
        using that onceD(4) [OF assms] unfolding sn by (auto split: if_split_asm)
    qed
    show ?thesis
    proof (cases "fl_task f \<in> set (sd_executing s)")
      case True
      then show ?thesis using drop assms Some Chained by (simp add: go_def begin_step_def)
    next
      case False
      let ?e = "s\<lparr>sd_executing := fl_task f # sd_executing s\<rparr>"
      let ?c = "f\<lparr>fl_phase := Created\<rparr>" let ?q = "set_flight n ?c ?e"
      have sf: "seen s n = Some (fl_task f, True, fl_release f)" using Some Chained by (simp add: seen_def)
      note rel = onceD(1) [OF assms sf] and fresh = onceD(2) [OF assms sf]
      have sn: "seen ?q m = (if m = n then Some (fl_task f, False, True) else seen s m)" for m
        using rel by (simp add: seen_def update_conv')
      have other: "i \<noteq> fl_task f" if "seen s m = Some (i, False, r)" for m i r
        using onceD(3) [OF assms that] False by auto
      have "once_inv ?q"
      proof (rule onceI)
        show "r \<and> m < sd_fresh ?q \<and> (b \<or> i \<in> set (sd_executing ?q))" if "seen ?q m = Some (i, b, r)" for m i b r
          using that onceD(1-3) [OF assms, of m i b r] fresh unfolding sn by (auto split: if_split_asm)
        show "m = k" if "seen ?q m = Some (i, False, r)" "seen ?q k = Some (i, False, r')" for m k i r r'
        proof (cases "m = n \<or> k = n")
          case True
          then show ?thesis using that other [of k i r'] other [of m i r] unfolding sn by (cases "m = n"; cases "k = n") simp_all
        next
          case False
          then show ?thesis using that onceD(4) [OF assms, of m i False r k r'] unfolding sn by simp
        qed
      qed
      then have "once_inv (begin_execution env now n ?c ?q)" by (intro once_begin_execution entered_at) (simp_all add: update_conv')
      then show ?thesis using False assms Some Chained by (simp add: go_def begin_step_def)
    qed
  next
    case Created
    then show ?thesis using once_begin_execution [OF entered_at [OF assms Some]] assms Some by (simp add: go_def begin_step_def)
  next
    case Queued
    let ?f = "f\<lparr>fl_slot := True\<rparr>" let ?s = "set_flight n (f\<lparr>fl_slot := True\<rparr>) (s\<lparr>sd_slot := Some n\<rparr>)"
    have "once_inv ?s" by (rule once_set_flight [of _ n f]) (use assms Some in \<open>auto intro: once_same\<close>)
    then have "entered_as n ?f ?s" using Queued by (intro entered_at) (simp_all add: update_conv')
    then show ?thesis using Queued assms Some by (simp add: go_def once_enter_locked)
  next
    case Gated
    have "once_inv (start_run env now n f s)"
      unfolding start_run_def Let_def by (rule entered_flight [OF entered_same [OF entered_at [OF assms Some]]]) (use Gated in simp_all)
    then show ?thesis using Gated assms Some by (simp add: go_def)
  qed (use assms Some in \<open>simp add: go_def\<close>)
qed

text \<open>Operations without a forced run and without a stopped task.\<close>

fun ordinary :: "sched_op \<Rightarrow> bool" where
  "ordinary (Run_now i force) = (\<not> force)"
| "ordinary (Stop now i) = False"
| "ordinary e = True"

definition ordered_inv :: "sched \<Rightarrow> bool" where
  "ordered_inv s \<longleftrightarrow> once_inv s \<and> wf_dict (sd_tasks s)"

lemma once_cancel_handle: "once_inv s \<Longrightarrow> once_inv (fst (cancel_handle i s))"
  by (auto simp: cancel_handle_def split: option.split intro: once_set_flight)

lemma once_abort_latest: "once_inv s \<Longrightarrow> once_inv (fst (abort_latest now i s))"
proof -
  assume "once_inv s"
  then have "once_inv (mark_run_aborted now n s)" for n by (rule once_same) (simp_all add: mark_run_aborted_def)
  with \<open>once_inv s\<close> show ?thesis by (auto simp: abort_latest_def split: list.split)
qed

lemma once_stop_background: "once_inv s \<Longrightarrow> once_inv (fst (stop_background_tasks now s))"
  unfolding stop_background_tasks_def
proof (rule foldl_keeps [where P = "\<lambda>p. once_inv (fst p)"])
  fix p :: "sched \<times> nat" and i
  assume "once_inv (fst p)"
  then show "once_inv (fst ((\<lambda>(s, k) i. let (s, b) = cancel_handle i s; (s, b') = abort_latest now i s in (s, k + of_bool b + of_bool b')) p i))"
    by (simp add: split_beta Let_def once_abort_latest once_cancel_handle)
qed simp

text \<open>The table of tasks stays a dictionary.\<close>

lemma wf_alter_task [simp]: "wf_dict (sd_tasks s) \<Longrightarrow> wf_dict (sd_tasks (alter_task i g s))"
  by (simp add: alter_task_def split: option.split)

lemma spawn_rows [simp]: "sd_tasks (spawn i b r ph s) = sd_tasks s" by (simp add: spawn_def)

lemma wf_failed: "wf_dict (sd_tasks s) \<Longrightarrow> wf_dict (sd_tasks (failed env now n f err s))"
  by (auto simp: failed_def Let_def split: option.split)

lemma wf_advanced:
  "wf_dict (sd_tasks s) \<Longrightarrow> (\<And>t'. wf_dict (sd_tasks (g t'))) \<Longrightarrow>
     wf_dict (sd_tasks (case advance env now i t of Inl e \<Rightarrow> failed env now n f (exc_text e) (set_task j t s) | Inr t' \<Rightarrow> g t'))"
  by (auto intro!: wf_failed split: sum.split)

lemma wf_report: "wf_dict (sd_tasks s) \<Longrightarrow> wf_dict (sd_tasks (report env now n f ok result t s))"
  by (simp add: report_def Let_def)

lemma wf_finish: "wf_dict (sd_tasks s) \<Longrightarrow> wf_dict (sd_tasks (finish env now n f out s))"
  by (auto simp: finish_def Let_def intro!: wf_failed wf_report split: option.split outcome.split sum.split)

lemma wf_cancelled: "wf_dict (sd_tasks s) \<Longrightarrow> wf_dict (sd_tasks (cancelled env now n f hit s))"
  by (auto simp: cancelled_def Let_def defer_immediately_due_task_def mark_run_aborted_def intro!: wf_failed split: option.split phase.split sum.split)

lemma wf_enter_locked: "wf_dict (sd_tasks s) \<Longrightarrow> wf_dict (sd_tasks (enter_locked env now n f s))"
  by (auto simp: enter_locked_def Let_def start_run_def split: option.split)

lemma wf_begin: "wf_dict (sd_tasks s) \<Longrightarrow> wf_dict (sd_tasks (begin_execution env now n f s))"
  by (auto simp: begin_execution_def Let_def intro!: wf_enter_locked)

lemma wf_go: "wf_dict (sd_tasks s) \<Longrightarrow> wf_dict (sd_tasks (go env now n s))"
  by (auto simp: go_def begin_step_def start_run_def Let_def intro!: wf_begin wf_enter_locked split: option.split phase.split)

lemma wf_run_now: "wf_dict (sd_tasks s) \<Longrightarrow> wf_dict (sd_tasks (fst (run_task_now i force s)))"
  by (simp add: run_task_now_def)

lemma wf_event: "wf_dict (sd_tasks s) \<Longrightarrow> wf_dict (sd_tasks (handle_event now event owner s))"
  unfolding handle_event_def by (erule foldl_keeps) (simp add: count_event_def Let_def wf_run_now split: option.split)

lemma wf_tick: "wf_dict (sd_tasks s) \<Longrightarrow> wf_dict (sd_tasks (check_due_tasks now foreground s))"
  unfolding check_due_tasks_def Let_def by (erule foldl_keeps) simp

lemma rows_cancel_handle [simp]: "sd_tasks (fst (cancel_handle i s)) = sd_tasks s"
  by (simp add: cancel_handle_def split: option.split)

lemma rows_abort_latest [simp]: "sd_tasks (fst (abort_latest now i s)) = sd_tasks s"
  by (auto simp: abort_latest_def mark_run_aborted_def split: list.split)

lemma rows_stop_background [simp]: "sd_tasks (fst (stop_background_tasks now s)) = sd_tasks s"
  unfolding stop_background_tasks_def
proof (rule foldl_keeps [where P = "\<lambda>p. sd_tasks (fst p) = sd_tasks s"])
  fix p :: "sched \<times> nat" and i
  assume "sd_tasks (fst p) = sd_tasks s"
  then show "sd_tasks (fst ((\<lambda>(s, k) i. let (s, b) = cancel_handle i s; (s, b') = abort_latest now i s in (s, k + of_bool b + of_bool b')) p i)) = sd_tasks s"
    by (simp add: split_beta Let_def)
qed simp

lemma ordered_step: "ordered_inv s \<Longrightarrow> ordinary e \<Longrightarrow> ordered_inv (sched_step env s e)"
proof -
  assume s: "ordered_inv s" and e: "ordinary e"
  have i: "once_inv s" and w: "wf_dict (sd_tasks s)" using s by (simp_all add: ordered_inv_def)
  show ?thesis
  proof (cases e)
    case (Finish now n out)
    have "once_inv (finish env now n f out s)" if "map_of (sd_flights s) n = Some f" "fl_phase f = Running" for f
      by (rule once_finish [OF entered_at [OF i that(1)]]) (simp add: that(2))
    with i w Finish show ?thesis by (auto simp: ordered_inv_def wf_finish split: option.split)
  next
    case (Cancel now n hit)
    have "once_inv (cancelled env now n f hit s)" if "map_of (sd_flights s) n = Some f" "fl_phase f \<in> {Queued, Gated, Running}" for f
      by (rule once_cancelled [OF entered_at [OF i that(1)]]) (use that(2) in auto)
    with i w Cancel show ?thesis by (auto simp: ordered_inv_def wf_cancelled split: option.split)
  next
    case (Edit j t)
    have "once_inv (set_task j t s)" by (rule once_same [OF i]) simp_all
    with w Edit show ?thesis by (simp add: ordered_inv_def)
  next
    case (Pop owner)
    have "once_inv (fst (pop_notifications owner s))" by (rule once_same [OF i]) (auto simp: pop_notifications_def split: option.split)
    moreover have "sd_tasks (fst (pop_notifications owner s)) = sd_tasks s" by (simp add: pop_notifications_def split: option.split)
    ultimately show ?thesis using w Pop by (simp add: ordered_inv_def)
  qed (use i w e in \<open>auto simp: ordered_inv_def once_tick once_run_now once_event once_go once_stop_background wf_run_now wf_event wf_tick wf_go\<close>)
qed

interpretation dispatch: guarded_system "sched_step env" ordered_inv ordinary for env
  by unfold_locales (rule ordered_step)

lemma idle_ordered: "wf_dict tasks \<Longrightarrow> ordered_inv (idle tasks)"
  by (simp add: ordered_inv_def once_inv_def idle_def seen_def)

text \<open>
  Claim C12. A task is executed once at a time. As long as no run is forced and no task is stopped by hand,
  two executions that have begun, or are about to, are of different tasks, whatever triggers them:
  the clock, an event, the operator, or another task.
\<close>

theorem one_execution_per_task:
  assumes "wf_dict tasks" "list_all ordinary es" "s = run (sched_step env) (idle tasks) es"
    "map_of (sd_flights s) n = Some f" "map_of (sd_flights s) m = Some g" "fl_phase f \<noteq> Chained" "fl_phase g \<noteq> Chained" "fl_task f = fl_task g"
  shows "n = m"
proof -
  have "once_inv s" using dispatch.guarded_run [OF idle_ordered [OF assms(1)] assms(2)] assms(3) by (simp add: ordered_inv_def)
  from onceD(4) [OF this, of n "fl_task f" False _ m] assms(4-8) show ?thesis by (simp add: seen_def)
qed

text \<open>A housekeeping task, which does not wait for the slot.\<close>

definition tidy_task :: task_row where
  "tidy_task = \<lparr>tr_owner = Some ''ann'', tr_name = ''Tidy'', tr_type = Some ''action'', tr_action = Some ''tidy_sessions'', tr_status = ''active'',
     tr_trigger = Some ''event'', tr_event = Some ''session_created'', tr_threshold = Some 2, tr_counter = None,
     tr_spec = \<lparr>sp_schedule = None, sp_time = None, sp_day = None, sp_date = None, sp_cron = None\<rparr>,
     tr_next = None, tr_last = None, tr_runs = None, tr_then = None, tr_notify = False, tr_output = Some ''none''\<rparr>"

definition plain_sched_env :: sched_env where
  "plain_sched_env = \<lparr>sv_zone = (\<lambda>_. None), sv_cron = (\<lambda>_ _. None), sv_auth_disabled = True, sv_auth = None,
     sv_queued_text = ''queued'', sv_waiting_text = ''waiting'', sv_starting_text = ''starting'', sv_ellipsis = ''...''\<rparr>"

definition running_now :: "sched_op list \<Rightarrow> (nat \<times> string \<times> phase) list" where
  "running_now es = map (\<lambda>(n, f). (n, fl_task f, fl_phase f))
     (filter (\<lambda>(n, f). \<not> fl_cancelled f) (sd_flights (run (sched_step plain_sched_env) (idle [(''tidy'', tidy_task)]) es)))"

lemma event_runs_once:
  "running_now [Event 1 ''session_created'' (Some ''ann''), Event 2 ''session_created'' (Some ''ann''), Tick 3 False, Run_now ''tidy'' False, Go 4 0, Go 5 0] =
     [(0, ''tidy'', Running)]"
  by code_simp

theorem one_execution_per_task_witness:
  "\<exists>n m f. map_of (sd_flights (run (sched_step plain_sched_env) (idle [(''tidy'', tidy_task)]) [Run_now ''tidy'' False, Tick 3 False])) n = Some f \<and>
     map_of (sd_flights (run (sched_step plain_sched_env) (idle [(''tidy'', tidy_task)]) [Run_now ''tidy'' False, Tick 3 False])) m = Some f \<and> n = m"
proof -
  let ?s = "run (sched_step plain_sched_env) (idle [(''tidy'', tidy_task)]) [Run_now ''tidy'' False, Tick 3 False]"
  obtain f where f: "map_of (sd_flights ?s) 0 = Some f" "fl_phase f \<noteq> Chained"
    by (simp add: idle_def run_task_now_def spawn_def check_due_tasks_def)
  moreover have "wf_dict [(''tidy'', tidy_task)]" "list_all ordinary [Run_now ''tidy'' False, Tick 3 False]" by simp_all
  ultimately have "(0::nat) = 0" using one_execution_per_task [OF _ _ refl f(1) f(1) f(2) f(2) refl] by blast
  with f(1) show ?thesis by blast
qed

text \<open>
  A stopped task can be executed twice at a time: stopping takes it out of the set of tasks in
  execution while its coroutine still has to receive the cancellation; it is started again, and when the
  first coroutine ends it takes the second one out of the set.
\<close>

lemma stopped_task_runs_twice:
  "running_now [Run_now ''tidy'' False, Go 1 0, Go 2 0, Stop 3 ''tidy'', Run_now ''tidy'' False, Go 4 1, Go 5 1, Cancel 6 0 False,
       Run_now ''tidy'' False, Go 7 2, Go 8 2] =
     [(1, ''tidy'', Running), (2, ''tidy'', Running)]"
  by code_simp

abbreviation tidy_run :: "sched_op list \<Rightarrow> sched" where
  "tidy_run es \<equiv> run (sched_step plain_sched_env) (idle [(''tidy'', tidy_task)]) es"

theorem active_run_has_execution_witness:
  "\<exists>f. map_of (sd_flights (tidy_run [Run_now ''tidy'' False, Go 1 0])) 0 = Some f \<and> fl_phase f \<in> {Queued, Gated}"
proof -
  have "case map_of (sd_runs (tidy_run [Run_now ''tidy'' False, Go 1 0])) 0 of Some u \<Rightarrow> rr_status u = ''queued'' | None \<Rightarrow> False" by code_simp
  then obtain u where "map_of (sd_runs (tidy_run [Run_now ''tidy'' False, Go 1 0])) 0 = Some u" "rr_status u = ''queued''"
    by (auto split: option.split_asm)
  with active_run_has_execution [OF refl this(1)] show ?thesis by blast
qed

theorem failed_event_task_repeats_witness:
  "''tidy'' \<in> set (sd_executing (tidy_run [Event 1 ''session_created'' (Some ''ann''), Event 2 ''session_created'' (Some ''ann''), Go 4 0, Go 5 0,
     Finish 6 0 (Raised ''database is locked''), Tick 3600000000 False]))"
proof -
  let ?s = "tidy_run [Event 1 ''session_created'' (Some ''ann''), Event 2 ''session_created'' (Some ''ann''), Go 4 0, Go 5 0]"
  have "(case map_of (sd_flights ?s) 0 of Some f \<Rightarrow> fl_phase f = Running \<and> fl_release f \<and> fl_task f = ''tidy'' | None \<Rightarrow> False) \<and>
    (case dget (sd_tasks ?s) ''tidy'' of Some t \<Rightarrow> tr_trigger t = Some ''event'' \<and> is_due 6 t | None \<Rightarrow> False)" by code_simp
  then obtain f t where f: "map_of (sd_flights ?s) 0 = Some f" "fl_phase f = Running" "fl_release f" "fl_task f = ''tidy''"
    and t: "dget (sd_tasks ?s) (fl_task f) = Some t" "tr_trigger t = Some ''event''" "is_due 6 t"
    by (auto split: option.split_asm)
  from failed_event_task_repeats [OF f(1-3) t, of 3600000000 plain_sched_env "''database is locked''"] f(4) show ?thesis by simp
qed

end
