(* ===== verification/ToolBlocks.thy ===== *)
theory ToolBlocks
  imports PyScan ToolPolicy
begin

text \<open>
  The tool blocks that native calls become: the names of the tools (\<open>TOOL_TAGS\<close> of
  src/src/agent_tools/__init__.py, \<open>_TOOL_NAME_MAP\<close> of src/src/tool_parsing.py),
  \<open>function_call_to_tool_block\<close> of src/src/tool_schemas.py, which turns the name and the arguments of a
  call into the type and the content of a block, and the readers of edit and suggestion blocks
  of src/src/agent_tools/document_tools.py. \<open>json.loads\<close>, and the hexadecimal conversion of JSON escapes,
  are parameters. The theorems show that a converted block is for the tool that the name stands for,
  that well-formed edits are read back as they were made, and where that fails.
\<close>

section \<open>Names of tools\<close>

definition TOOL_TAGS :: "string list" where
  "TOOL_TAGS = BUILTIN_EMAIL_TOOLS @ [
     ''bash'', ''python'', ''web_search'', ''web_fetch'', ''read_file'', ''write_file'', ''edit_file'', ''grep'', ''glob'', ''ls'', ''get_workspace'',
     ''manage_workspace'', ''manage_bg_jobs'', ''inspect_network'', ''create_document'', ''update_document'', ''edit_document'', ''search_chats'',
     ''chat_with_model'', ''create_session'', ''list_sessions'', ''send_to_session'', ''pipeline'', ''manage_session'', ''manage_memory'',
     ''list_models'', ''ui_control'', ''generate_image'', ''ask_user'', ''update_plan'', ''manage_tasks'', ''api_call'', ''ask_teacher'',
     ''manage_skills'', ''suggest_document'', ''manage_endpoints'', ''manage_mcp'', ''manage_webhooks'', ''manage_tokens'', ''manage_documents'',
     ''manage_settings'', ''manage_extensions'', ''get_runtime_status'', ''start_agent_task'', ''read_agent_task'', ''search_jarvis_knowledge'',
     ''manage_notes'', ''manage_calendar'', ''read_calendar'', ''resolve_contact'', ''manage_contact'', ''ssh_node'', ''nextcloud_files'',
     ''android_device'', ''download_model'', ''serve_model'', ''list_served_models'', ''stop_served_model'', ''list_downloads'', ''cancel_download'',
     ''search_hf_models'', ''list_cached_models'', ''list_serve_presets'', ''serve_preset'', ''adopt_served_model'', ''list_cookbook_servers'',
     ''tail_serve_output'', ''edit_image'', ''trigger_research'', ''manage_research'', ''app_api'', ''manage_books'']"

text \<open>What models call the tools.\<close>

definition TOOL_NAME_MAP :: "string dict" where
  "TOOL_NAME_MAP = [
     (''manage_books'', ''manage_books''), (''get_runtime_status'', ''get_runtime_status''), (''start_agent_task'', ''start_agent_task''),
     (''read_agent_task'', ''read_agent_task''), (''search_jarvis_knowledge'', ''search_jarvis_knowledge''), (''shell'', ''bash''), (''bash'', ''bash''), (''terminal'', ''bash''), (''command'', ''bash''), (''execute'', ''bash''), (''run'', ''bash''), (''python'', ''python''), (''code'', ''python''), (''search'', ''web_search''), (''web_search'', ''web_search''), (''websearch'', ''web_search''), (''google_search'', ''web_search''), (''google_search_retrieval'', ''web_search''), (''google_search_grounding'', ''web_search''), (''web_fetch'', ''web_fetch''),
     (''webfetch'', ''web_fetch''), (''fetch_url'', ''web_fetch''), (''fetch'', ''web_fetch''), (''read'', ''read_file''), (''read_file'', ''read_file''), (''cat'', ''read_file''), (''write'', ''write_file''), (''write_file'', ''write_file''), (''save'', ''write_file''),
     (''document'', ''update_document''), (''update_document'', ''update_document''), (''create_document'', ''create_document''), (''edit'', ''edit_document''), (''edit_document'', ''edit_document''), (''search_chats'', ''search_chats''), (''search_conversations'', ''search_chats''),
     (''find_chat'', ''search_chats''), (''chat_with_model'', ''chat_with_model''), (''ask_model'', ''chat_with_model''), (''chat_model'', ''chat_with_model''), (''create_session'', ''create_session''), (''new_session'', ''create_session''), (''list_sessions'', ''list_sessions''),
     (''send_to_session'', ''send_to_session''), (''message_session'', ''send_to_session''), (''pipeline'', ''pipeline''), (''chain'', ''pipeline''),
     (''manage_session'', ''manage_session''), (''session_control'', ''manage_session''), (''manage_memory'', ''manage_memory''), (''memory'', ''manage_memory''), (''manage_tasks'', ''manage_tasks''), (''tasks'', ''manage_tasks''), (''schedule'', ''manage_tasks''), (''list_models'', ''list_models''), (''models'', ''list_models''), (''available_models'', ''list_models''), (''ui_control'', ''ui_control''), (''ui'', ''ui_control''), (''control'', ''ui_control''), (''api_call'', ''api_call''), (''api'', ''api_call''), (''integration'', ''api_call''),
     (''ask_teacher'', ''ask_teacher''), (''teacher'', ''ask_teacher''), (''manage_skills'', ''manage_skills''), (''skills'', ''manage_skills''),
     (''skill'', ''manage_skills''), (''suggest_document'', ''suggest_document''), (''suggest'', ''suggest_document''), (''review_document'', ''suggest_document''), (''manage_endpoints'', ''manage_endpoints''), (''endpoints'', ''manage_endpoints''), (''manage_mcp'', ''manage_mcp''),
     (''mcp_servers'', ''manage_mcp''), (''manage_webhooks'', ''manage_webhooks''), (''webhooks'', ''manage_webhooks''), (''manage_tokens'', ''manage_tokens''), (''tokens'', ''manage_tokens''), (''manage_documents'', ''manage_documents''), (''documents'', ''manage_documents''),
     (''manage_research'', ''manage_research''), (''list_research'', ''manage_research''), (''read_research'', ''manage_research''),
     (''open_research'', ''manage_research''), (''delete_research'', ''manage_research''), (''manage_settings'', ''manage_settings''), (''settings'', ''manage_settings''), (''preferences'', ''manage_settings''), (''manage_notes'', ''manage_notes''), (''notes'', ''manage_notes''), (''todo'', ''manage_notes''), (''todos'', ''manage_notes''), (''manage_bg_jobs'', ''manage_bg_jobs''), (''bg_jobs'', ''manage_bg_jobs''),
     (''background_jobs'', ''manage_bg_jobs'')]"

definition tool_type_of :: "string \<Rightarrow> string" where
  "tool_type_of name = (case dget TOOL_NAME_MAP name of None \<Rightarrow> name | Some t \<Rightarrow> t)"

definition REQUIRED_NATIVE_TOOL_ARGS :: "string list dict" where
  "REQUIRED_NATIVE_TOOL_ARGS = [(''web_search'', [''query'', ''queries'']), (''web_fetch'', [''url'']), (''read_file'', [''path'']),
     (''write_file'', [''path'']), (''edit_file'', [''path''])]"

section \<open>Arguments that are not JSON\<close>

text \<open>
  \<open>hex\<close> is \<open>chr(int(s, 16))\<close> of four characters, which also stand for text outside Latin-1; \<open>None\<close> is
  the \<open>ValueError\<close>.
\<close>

fun decode_loose_json_string :: "(string \<Rightarrow> string option) \<Rightarrow> string \<Rightarrow> string" where
  "decode_loose_json_string hex [] = []"
| "decode_loose_json_string hex [c] = [c]"
| "decode_loose_json_string hex (c # d # s) =
     (if c \<noteq> CHR 0x5C then c # decode_loose_json_string hex (d # s)
      else if d = CHR ''n'' then CHR 0x0A # decode_loose_json_string hex s
      else if d = CHR ''r'' then CHR 0x0D # decode_loose_json_string hex s
      else if d = CHR ''t'' then CHR 0x09 # decode_loose_json_string hex s
      else if d = CHR ''b'' then CHR 0x08 # decode_loose_json_string hex s
      else if d = CHR ''f'' then CHR 0x0C # decode_loose_json_string hex s
      else if d = CHR 0x22 \<or> d = CHR 0x5C \<or> d = CHR ''/'' then d # decode_loose_json_string hex s
      else if d = CHR ''u'' \<and> 4 \<le> length s then
        (case hex (take 4 s) of
           Some x \<Rightarrow> x @ decode_loose_json_string hex (drop 4 s)
         | None \<Rightarrow> c # d # decode_loose_json_string hex s)
      else c # d # decode_loose_json_string hex s)"

text \<open>\<open>s.rfind(p, i, j)\<close> of a single character.\<close>

definition rfind_char :: "char \<Rightarrow> string \<Rightarrow> nat \<Rightarrow> nat \<Rightarrow> nat option" where
  "rfind_char c s i j = find (\<lambda>k. s ! k = c) (rev [i..<min j (length s)])"

text \<open>One round of the loop over the keys.\<close>

definition salvage :: "(string \<Rightarrow> string option) \<Rightarrow> string \<Rightarrow> string \<Rightarrow> pyval dict option" where
  "salvage hex raw key =
     (let marker = [CHR 0x22] @ key @ [CHR 0x22]
      in case find_at marker raw of
           None \<Rightarrow> None
         | Some key_pos \<Rightarrow>
             let after = key_pos + length marker
             in case find_at '':'' (drop after raw) of
                  None \<Rightarrow> None
                | Some c \<Rightarrow>
                    let colon_pos = after + c
                    in case find_at [CHR 0x22] (drop (colon_pos + 1) raw) of
                         None \<Rightarrow> None
                       | Some q \<Rightarrow>
                           let first_quote = colon_pos + 1 + q
                           in case rfind_char CHR ''}'' raw 0 (length raw) of
                                None \<Rightarrow> None
                              | Some close_brace \<Rightarrow>
                                  (case rfind_char CHR 0x22 raw (first_quote + 1) close_brace of
                                     None \<Rightarrow> None
                                   | Some last_quote \<Rightarrow>
                                       Some [(''content'', PStr (decode_loose_json_string hex
                                         (take (last_quote - (first_quote + 1)) (drop (first_quote + 1) raw))))]))"

definition repair_document_function_args :: "(string \<Rightarrow> string option) \<Rightarrow> string \<Rightarrow> string \<Rightarrow> pyval dict option" where
  "repair_document_function_args hex tool_type arguments =
     (let raw = strip arguments
      in if tool_type \<noteq> ''update_document'' \<or> \<not> starts_with ''{'' raw \<or> \<not> ends_with ''}'' raw then None
         else case salvage hex raw ''content'' of Some d \<Rightarrow> Some d | None \<Rightarrow> salvage hex raw ''conten'')"

section \<open>The text each tool expects\<close>

text \<open>An operand of \<open>+\<close> or a member of \<open>join\<close> must be a string.\<close>

definition as_text :: "pyval \<Rightarrow> string result" where
  "as_text v = (case v of PStr s \<Rightarrow> Inr s | _ \<Rightarrow> Inl (TypeError ''str''))"

text \<open>Two texts on lines of their own, and a text followed by an optional line.\<close>

definition two_lines :: "pyval \<Rightarrow> pyval \<Rightarrow> pyval result" where
  "two_lines a b = rbind (as_text a) (\<lambda>s. rbind (as_text b) (\<lambda>t. Inr (PStr (s @ newline @ t))))"

definition with_line :: "string \<Rightarrow> pyval \<Rightarrow> string result" where
  "with_line s v = (if truthy v then rbind (as_text v) (\<lambda>t. Inr (s @ newline @ t)) else Inr s)"

definition json_or_empty :: "pyval dict \<Rightarrow> string" where
  "json_or_empty args = (if args = [] then ''{}'' else dumps_default (PDict args))"

abbreviation empty :: pyval where "empty \<equiv> PStr []"

definition web_search_content :: "pyval dict \<Rightarrow> pyval" where
  "web_search_content args =
     (let queries = pget args ''queries'';
          content = (case queries of
              PList (q # _) \<Rightarrow> PStr (py_str q)
            | _ \<Rightarrow> if truthy queries then PStr (py_str queries) else pget_or args ''query'' empty)
      in case pget args ''time_filter'' of
           PStr tf \<Rightarrow> if truthy content \<and> tf \<in> set [''day'', ''week'', ''month'', ''year'']
                       then PStr (dumps_default (PDict [(''query'', content), (''time_filter'', PStr tf)])) else content
         | _ \<Rightarrow> content)"

definition create_document_content :: "pyval dict \<Rightarrow> pyval result" where
  "create_document_content args =
     rbind (rmap as_text ([pget_or args ''title'' (PStr ''Untitled'')] @
         (if truthy (pget args ''language'') then [pget args ''language''] else []) @ [pget_or args ''content'' empty]))
       (\<lambda>parts. Inr (PStr (join newline parts)))"

text \<open>The blocks of an edit, and of a suggestion.\<close>

abbreviation FIND :: string where "FIND \<equiv> ''<<<FIND>>>''"
abbreviation REPLACE :: string where "REPLACE \<equiv> ''<<<REPLACE>>>''"
abbreviation SUGGEST :: string where "SUGGEST \<equiv> ''<<<SUGGEST>>>''"
abbreviation REASON :: string where "REASON \<equiv> ''<<<REASON>>>''"
abbreviation END :: string where "END \<equiv> ''<<<END>>>''"

definition edit_block :: "string \<Rightarrow> string \<Rightarrow> string" where
  "edit_block old new = FIND @ newline @ old @ newline @ REPLACE @ newline @ new @ newline @ END"

definition suggest_block :: "string \<Rightarrow> string \<Rightarrow> string \<Rightarrow> string" where
  "suggest_block old new reason =
     FIND @ newline @ old @ newline @ SUGGEST @ newline @ new @ newline @ REASON @ newline @ reason @ newline @ END"

definition field :: "pyval dict \<Rightarrow> string \<Rightarrow> string" where
  "field d k = py_str (pget_or d k empty)"

definition dicts_of :: "pyval \<Rightarrow> pyval dict list" where
  "dicts_of v = (case v of PList xs \<Rightarrow> map as_mapping (filter is_mapping xs) | _ \<Rightarrow> [])"

definition edit_document_content :: "pyval dict \<Rightarrow> string" where
  "edit_document_content args =
     join newline (map (\<lambda>d. edit_block (field d ''find'') (field d ''replace'')) (dicts_of (pget_or args ''edits'' (PList []))))"

definition suggest_document_content :: "pyval dict \<Rightarrow> string" where
  "suggest_document_content args =
     join newline (map (\<lambda>d. suggest_block (field d ''find'') (field d ''replace'') (field d ''reason''))
       (dicts_of (pget_or args ''suggestions'' (PList []))))"

definition manage_session_content :: "pyval dict \<Rightarrow> pyval result" where
  "manage_session_content args =
     (let action = pget_or args ''action'' empty; val = pget_or args ''value'' empty
      in if action = PStr ''list'' then
           (let keyword = py_or (py_or (pget_or args ''session_id'' empty) (pget_or args ''keyword'' empty)) val
            in if \<not> truthy keyword then Inr (PStr ''list'')
               else case keyword of
                 PStr k \<Rightarrow> Inr (PStr (if lower k \<noteq> ''current'' then ''list'' @ newline @ k else ''list''))
               | _ \<Rightarrow> Inl (AttributeError ''lower''))
         else rbind (two_lines action (pget_or args ''session_id'' (PStr ''current''))) (\<lambda>c.
                rbind (as_text c) (\<lambda>s. rbind (with_line s val) (\<lambda>t. Inr (PStr t)))))"

definition manage_memory_content :: "pyval dict \<Rightarrow> pyval result" where
  "manage_memory_content args =
     (let action = pget_or args ''action'' empty
      in if action = PStr ''add'' then
           (let entry = py_or (py_or (py_or (pget args ''text'') (pget args ''value'')) (pget args ''content'')) empty;
                entry = (if \<not> truthy entry \<and> truthy (pget args ''key'') then PStr (str_or (pget args ''key'')) else entry);
                content = ''add'' @ newline @ py_str entry
            in if truthy (pget args ''category'') then rbind (with_line content (pget args ''category'')) (\<lambda>t. Inr (PStr t))
               else if truthy (pget args ''key'') then Inr (PStr (content @ newline @ py_str (pget args ''key'')))
               else Inr (PStr content))
         else if action = PStr ''edit'' then
           rbind (two_lines (PStr ''edit'') (pget_or args ''memory_id'' empty)) (\<lambda>c. two_lines c (pget_or args ''text'' empty))
         else if action = PStr ''delete'' then two_lines (PStr ''delete'') (pget_or args ''memory_id'' empty)
         else if action = PStr ''search'' then
           two_lines (PStr ''search'') (py_or (py_or (py_or (pget args ''text'') (pget args ''tex'')) (pget args ''query'')) empty)
         else if action = PStr ''list'' then rbind (with_line ''list'' (pget args ''category'')) (\<lambda>t. Inr (PStr t))
         else Inr action)"

definition ADVANCED_COLORS :: "string list" where
  "ADVANCED_COLORS = [''userBubbleBg'', ''aiBubbleBg'', ''bubbleBorder'', ''sidebarBg'', ''sectionAccent'', ''brandColor'', ''inputBg'',
     ''inputBorder'', ''sendBtnBg'', ''sendBtnHover'', ''codeBg'', ''codeFg'', ''toggleBg'', ''toggleActive'', ''accentPrimary'',
     ''accentError'']"

definition theme_content :: "pyval \<Rightarrow> pyval dict \<Rightarrow> string" where
  "theme_content name colors =
     join '' '' ([''create_theme'', py_str name, py_str (pget_or colors ''bg'' (PStr ''#282c34'')), py_str (pget_or colors ''fg'' (PStr ''#9cdef2'')),
         py_str (pget_or colors ''panel'' (PStr ''#111111'')), py_str (pget_or colors ''border'' (PStr ''#355a66'')),
         py_str (pget_or colors ''accent'' (PStr ''#e06c75''))] @
       map (\<lambda>k. k @ ''='' @ py_str (pget colors k)) (filter (\<lambda>k. truthy (pget colors k)) ADVANCED_COLORS))"

definition ui_control_content :: "pyval dict \<Rightarrow> pyval result" where
  "ui_control_content args =
     (let action = pget_or args ''action'' empty; name = pget_or args ''name'' empty; val = pget_or args ''value'' empty
      in if action = PStr ''toggle'' then Inr (PStr (''toggle '' @ py_str name @ '' '' @ py_str val))
         else if action = PStr ''oracle_protocol'' then
           Inr (PStr (''oracle_protocol '' @ py_str (py_or name val) @ (if truthy name \<and> truthy val then '' '' @ py_str val else [])))
         else if action = PStr ''open_panel'' then Inr (PStr (''open_panel '' @ py_str (py_or name val)))
         else if action = PStr ''open_email_reply'' then
           (let uid = py_or (pget args ''uid'') name; folder = py_or (py_or (pget args ''folder'') val) (PStr ''INBOX'');
                mode = py_or (pget args ''mode'') (PStr ''reply'');
                body = py_or (py_or (py_or (pget args ''body'') (pget args ''extra'')) (pget args ''content'')) empty
            in Inr (PStr (''open_email_reply '' @ py_str uid @ '' '' @ py_str folder @ '' '' @ py_str mode @
                 (if truthy body then '' '' @ py_str body else []))))
         else if action = PStr ''switch_model'' then Inr (PStr (''switch_model '' @ py_str (py_or val name)))
         else if action = PStr ''set_theme'' then Inr (PStr (''set_theme '' @ py_str (py_or val name)))
         else if action = PStr ''create_theme'' then
           (case pget_or args ''colors'' (PDict []) of
              PDict colors \<Rightarrow> Inr (PStr (theme_content (py_or (py_or name val) (PStr ''custom'')) colors))
            | _ \<Rightarrow> Inl (AttributeError ''get''))
         else Inr action)"

definition block_content :: "string \<Rightarrow> pyval dict \<Rightarrow> pyval result" where
  "block_content tool_type args =
     (if tool_type = ''bash'' then Inr (pget_or args ''command'' empty)
      else if tool_type = ''python'' then Inr (pget_or args ''code'' empty)
      else if tool_type = ''web_search'' then Inr (web_search_content args)
      else if tool_type = ''read_file'' then
        Inr (if truthy (pget args ''offset'') \<or> truthy (pget args ''limit'') then PStr (dumps_default (PDict args)) else pget_or args ''path'' empty)
      else if tool_type \<in> set [''grep'', ''glob'', ''ls'', ''manage_workspace''] then Inr (PStr (json_or_empty args))
      else if tool_type = ''get_workspace'' then Inr empty
      else if tool_type = ''write_file'' then two_lines (pget_or args ''path'' empty) (pget_or args ''content'' empty)
      else if tool_type = ''create_document'' then create_document_content args
      else if tool_type = ''edit_document'' then Inr (PStr (edit_document_content args))
      else if tool_type = ''suggest_document'' then Inr (PStr (suggest_document_content args))
      else if tool_type = ''update_document'' then Inr (pget_or args ''content'' empty)
      else if tool_type = ''search_chats'' then Inr (pget_or args ''query'' empty)
      else if tool_type = ''chat_with_model'' then two_lines (pget_or args ''model'' empty) (pget_or args ''message'' empty)
      else if tool_type = ''create_session'' then two_lines (pget_or args ''name'' (PStr ''Untitled'')) (pget_or args ''model'' empty)
      else if tool_type = ''list_sessions'' then Inr (pget_or args ''filter'' empty)
      else if tool_type = ''send_to_session'' then two_lines (pget_or args ''session_id'' empty) (pget_or args ''message'' empty)
      else if tool_type = ''pipeline'' then Inr (PStr (dumps_default (PDict [(''steps'', pget_or args ''steps'' (PList []))])))
      else if tool_type = ''manage_session'' then manage_session_content args
      else if tool_type = ''manage_memory'' then manage_memory_content args
      else if tool_type = ''list_models'' then Inr (pget_or args ''filter'' empty)
      else if tool_type = ''ui_control'' then ui_control_content args
      else if tool_type = ''ask_teacher'' then two_lines (pget_or args ''model'' (PStr ''auto'')) (pget_or args ''problem'' empty)
      else if tool_type = ''ask_user'' then Inr (PStr (dumps_unicode (PDict args)))
      else Inr (PStr (dumps_default (PDict args))))"

section \<open>The conversion of a native call\<close>

record json_env =
  je_loads :: "string \<Rightarrow> pyval option"
  je_hex :: "string \<Rightarrow> string option"

text \<open>The value of the arguments; \<open>None\<close> when they cannot be parsed or repaired.\<close>

definition call_arguments :: "json_env \<Rightarrow> string \<Rightarrow> pyval \<Rightarrow> pyval option" where
  "call_arguments env tool_type arguments =
     (if \<not> truthy arguments then Some (PDict [])
      else case arguments of
        PStr s \<Rightarrow>
          if strip s = [] then Some (PDict [])
          else (case je_loads env s of
                  Some v \<Rightarrow> Some v
                | None \<Rightarrow> map_option PDict (repair_document_function_args (je_hex env) tool_type s))
      | v \<Rightarrow> Some v)"

text \<open>A block is a type and a content; \<open>None\<close> is a call that is rejected.\<close>

type_synonym block = "string \<times> pyval"

definition function_call_to_tool_block :: "json_env \<Rightarrow> string \<Rightarrow> pyval \<Rightarrow> block option result" where
  "function_call_to_tool_block env name arguments =
     (let tool_type = tool_type_of name
      in case call_arguments env tool_type arguments of
           None \<Rightarrow> Inr None
         | Some v \<Rightarrow>
             if \<not> is_mapping v \<and> (starts_with email_prefix tool_type \<or> name \<in> set BUILTIN_EMAIL_TOOLS) then Inr None
             else let args = as_mapping v;
                      required = (case dget REQUIRED_NATIVE_TOOL_ARGS tool_type of None \<Rightarrow> [] | Some ks \<Rightarrow> ks)
               in if required \<noteq> [] \<and> list_all (\<lambda>k. strip (str_or (pget args k)) = []) required then Inr None
                  else if starts_with ''mcp__'' tool_type then Inr (Some (tool_type, PStr (json_or_empty args)))
                  else if name \<in> set BUILTIN_EMAIL_TOOLS then Inr (Some (email_prefix @ name, PStr (json_or_empty args)))
                  else if tool_type \<notin> set TOOL_TAGS then Inr None
                  else rbind (block_content tool_type args) (\<lambda>c. Inr (Some (tool_type, c))))"

section \<open>Reading the blocks of an edit\<close>

text \<open>
  A pattern of literals with lazy texts between them, each of which is a group: one tree for every
  group, with the \<open>k\<close>-th one captured.
\<close>

definition grouped :: "bool \<Rightarrow> regex \<Rightarrow> regex" where
  "grouped b r = (if b then RGroup r else r)"

fun marked :: "nat \<Rightarrow> nat \<Rightarrow> string list \<Rightarrow> regex" where
  "marked k i [] = REps"
| "marked k i [w] = rlit w"
| "marked k i (w # v # ws) = RSeq (rlit w) (RSeq (grouped (k = i) (RLazy rany)) (marked k (Suc i) (v # ws)))"

definition groups :: "string list \<Rightarrow> nat \<Rightarrow> string \<Rightarrow> string list" where
  "groups markers k s = map (\<lambda>(p, q). captured q) (re_finditer (marked k 1 markers) s)"

definition EDIT_MARKERS :: "string list" where
  "EDIT_MARKERS = [FIND @ newline, newline @ REPLACE @ newline, newline @ END]"

definition SUGGEST_MARKERS :: "string list" where
  "SUGGEST_MARKERS = [FIND @ newline, newline @ SUGGEST @ newline, newline @ REASON @ newline, newline @ END]"

definition parse_edit_blocks :: "string \<Rightarrow> (string \<times> string) list" where
  "parse_edit_blocks content = zip (groups EDIT_MARKERS 1 content) (groups EDIT_MARKERS 2 content)"

record suggestion =
  sg_id :: string
  sg_find :: string
  sg_replace :: string
  sg_reason :: string

definition SKIP_PHRASES :: "string list" where
  "SKIP_PHRASES = [''no change'', ''clear'', ''fine as'', ''looks good'', ''no improvement'', ''keep as'']"

definition keeps_suggestion :: "string \<times> string \<times> string \<Rightarrow> bool" where
  "keeps_suggestion m = (case m of (old, new, reason) \<Rightarrow>
     strip old \<noteq> strip new \<and> \<not> list_ex (\<lambda>phrase. contains phrase (lower (strip reason))) SKIP_PHRASES)"

definition parse_suggest_blocks :: "string \<Rightarrow> suggestion list" where
  "parse_suggest_blocks content =
     (let found = zip (groups SUGGEST_MARKERS 1 content) (zip (groups SUGGEST_MARKERS 2 content) (groups SUGGEST_MARKERS 3 content));
          kept = filter keeps_suggestion found
      in map (\<lambda>(i, old, new, reason). \<lparr>sg_id = ''sugg-'' @ show_nat (i + 1), sg_find = old, sg_replace = new, sg_reason = strip reason\<rparr>)
           (zip [0..<length kept] kept))"

text \<open>
  The edits are applied one after another to the first occurrence of their text. When a text does not
  occur, it is tried without the line numbers that the document is shown with. The result is the
  document, and how many edits were applied and skipped.
\<close>

definition replace_first :: "string \<Rightarrow> string \<Rightarrow> string \<Rightarrow> string" where
  "replace_first a b s = (case find_at a s of None \<Rightarrow> s | Some i \<Rightarrow> take i s @ b @ drop (i + length a) s)"

definition GUTTER :: regex where
  "GUTTER = rseq [RBegin, rplus rdigit, RSet (\<lambda>c. c = CHR 0x09)]"

definition strip_gutter :: "string \<Rightarrow> string" where
  "strip_gutter old = join newline (map (re_sub GUTTER (\<lambda>_. [])) (split_on CHR 0x0A old))"

definition apply_edit :: "string \<times> nat \<times> nat \<Rightarrow> string \<times> string \<Rightarrow> string \<times> nat \<times> nat" where
  "apply_edit st edit =
     (case (st, edit) of ((updated, applied, skipped), (old, new)) \<Rightarrow>
        if contains old updated then (replace_first old new updated, applied + 1, skipped)
        else let stripped = strip_gutter old
          in if stripped \<noteq> old \<and> contains stripped updated then (replace_first stripped new updated, applied + 1, skipped)
             else (updated, applied, skipped + 1))"

definition apply_edits :: "(string \<times> string) list \<Rightarrow> string \<Rightarrow> string \<times> nat \<times> nat" where
  "apply_edits edits content = foldl apply_edit (content, 0, 0) edits"

section \<open>What is written is read back\<close>

lemma marked_lit_seq: "matches (RSeq (rlit w) r) (l, s, g) = (if starts_with w s then matches r (rev w @ l, drop (length w) s, g) else [])"
  by (simp add: matches_rlit)

lemma matches_grouped_lazy:
  "matches (grouped b (RLazy rany)) (l, s, g) = map (\<lambda>k. (rev (take k s) @ l, drop k s, if b then Some (take k s) else g)) [0..<Suc (length s)]"
proof (cases b)
  case True
  have "matches (RGroup (RLazy rany)) (l, s, g) =
      map (\<lambda>k. (rev (take k s) @ l, drop k s, Some (take (length s - length (drop k s)) s))) [0..<Suc (length s)]"
    by (simp only: matches.simps(7) matches_lazy_any map_map comp_def fst_conv snd_conv prod.case)
  also have "\<dots> = map (\<lambda>k. (rev (take k s) @ l, drop k s, Some (take k s))) [0..<Suc (length s)]"
    by (rule map_cong) auto
  finally show ?thesis using True by (simp add: grouped_def del: matches.simps)
qed (simp add: grouped_def matches_lazy_any del: matches.simps upt_Suc)

text \<open>The text that a group stands for: no earlier end of it is followed by the next literal.\<close>

definition ends_at :: "string \<Rightarrow> string \<Rightarrow> bool" where
  "ends_at t w \<longleftrightarrow> (\<forall>k z. k < length t \<longrightarrow> \<not> starts_with w (drop k t @ w @ z))"

fun interleave :: "string list \<Rightarrow> string list \<Rightarrow> string" where
  "interleave (t # ts) (w # ws) = t @ w @ interleave ts ws"
| "interleave _ _ = []"

lemma marked_hd: "\<not> starts_with w s \<Longrightarrow> matches (marked k i (w # ws)) (l, s, g) = []"
  by (cases ws) (simp_all add: marked_lit_seq matches_rlit del: matches.simps)

lemma marked_head:
  "list_all2 ends_at ts ws \<Longrightarrow>
     \<exists>l' more. matches (marked k i (w # ws)) (l, w @ interleave ts ws @ z, g) =
       (l', z, if i \<le> k \<and> k < i + length ts then Some (ts ! (k - i)) else g) # more"
proof (induction ws arbitrary: ts w l g i)
  case Nil
  then show ?case by (auto simp: matches_rlit)
next
  case (Cons v ws)
  then obtain t ts' where ts: "ts = t # ts'" and t: "ends_at t v" and rec: "list_all2 ends_at ts' ws" by (cases ts) auto
  let ?s = "t @ v @ interleave ts' ws @ z"
  let ?f = "\<lambda>n. matches (marked k (Suc i) (v # ws)) (rev (take n ?s) @ rev w @ l, drop n ?s, if k = i then Some (take n ?s) else g)"
  have m: "matches (marked k i (w # v # ws)) (l, w @ interleave ts (v # ws) @ z, g) = concat (map ?f [0..<Suc (length ?s)])"
    by (simp only: marked.simps ts interleave.simps append_assoc marked_lit_seq starts_with_append if_True append_eq_conv_conj
        matches.simps(3) [of "grouped _ _"] matches_grouped_lazy map_map comp_def) simp
  obtain l' more where hd: "?f (length t) = (l', z, if Suc i \<le> k \<and> k < Suc i + length ts' then Some (ts' ! (k - Suc i)) else if k = i then Some t else g) # more"
  proof -
    have "take (length t) ?s = t" "drop (length t) ?s = v @ interleave ts' ws @ z" by simp_all
    note eqs = this
    show thesis
      using Cons.IH [OF rec, of "Suc i" v "rev t @ rev w @ l" "if k = i then Some t else g"] that unfolding eqs by blast
  qed
  have e: "?f n = []" if "n < length t" for n
  proof (rule marked_hd)
    show "\<not> starts_with v (drop n ?s)" using t that unfolding ends_at_def by simp
  qed
  have "length t < Suc (length ?s)" by simp
  from concat_first [of "length t" _ ?f, OF this e hd] obtain ys where ys: "concat (map ?f [0..<Suc (length ?s)]) = (l', z, if Suc i \<le> k \<and> k < Suc i + length ts' then Some (ts' ! (k - Suc i)) else if k = i then Some t else g) # ys"
    by blast
  have g: "(if Suc i \<le> k \<and> k < Suc i + length ts' then Some (ts' ! (k - Suc i)) else if k = i then Some t else g) =
      (if i \<le> k \<and> k < i + length ts then Some (ts ! (k - i)) else g)"
    by (auto simp: ts nth_Cons' Suc_le_eq)
  have "matches (marked k i (w # v # ws)) (l, w @ interleave ts (v # ws) @ z, g) = (l', z, if i \<le> k \<and> k < i + length ts then Some (ts ! (k - i)) else g) # ys"
    by (simp only: m ys g)
  then show ?case by blast
qed

text \<open>Literals whose line does not occur in the text.\<close>

lemma ends_at_line:
  assumes "c \<notin> set m" "\<not> contains m t" "m \<noteq> []"
  shows "ends_at t (c # m @ [c])" "ends_at t (c # m)"
proof -
  have "\<not> starts_with (c # m) (drop k t @ c # m @ z)" if k: "k < length t" for k z
  proof
    assume a: "starts_with (c # m) (drop k t @ c # m @ z)"
    obtain d x where x: "drop k t = d # x" using k by (cases "drop k t") auto
    with a have "starts_with m (x @ c # m @ z)" by simp
    then have "starts_with m x" using starts_with_across [OF assms(1)] by simp
    then have "contains m x" using assms(3) by (cases m; cases x) auto
    moreover have "x = drop (Suc k) t" using x by (metis drop_Suc drop_tl list.sel(3) tl_drop)
    ultimately show False using contains_drop assms(2) by blast
  qed
  note n = this
  then show "ends_at t (c # m)" unfolding ends_at_def by simp
  have "starts_with (c # m) s" if "starts_with ((c # m) @ [c]) s" for s
    using that unfolding starts_with_drop by blast
  with n show "ends_at t (c # m @ [c])" unfolding ends_at_def by (metis append_Cons append_assoc)
qed

section \<open>A list of blocks\<close>

text \<open>The blocks of a document, one after another with a line break between them.\<close>

definition block_text :: "string list \<Rightarrow> string list \<Rightarrow> string" where
  "block_text markers ts = (case markers of [] \<Rightarrow> [] | w # ws \<Rightarrow> w @ interleave ts ws)"

lemma finditer_nil: "w \<noteq> [] \<Longrightarrow> finditer_from (marked k i (w # ws)) l [] = []"
  by (cases w) (simp_all add: finditer_from.simps [of _ l "[]"] search_from.simps [of _ l "[]"] marked_hd del: matches.simps)

lemma marked_progress:
  assumes "w \<noteq> []" "search_from (marked k i (w # ws)) l s = Some (p, q)"
  shows "length (unread q) < length s"
proof -
  obtain u v ms where s: "s = u @ v" "p = (rev u @ l, v, None)" "matches (marked k i (w # ws)) p = q # ms"
    using search_from_SomeD [OF assms(2)] by blast
  then have w: "starts_with w v" using marked_hd by (metis list.distinct(1))
  obtain r where r: "marked k i (w # ws) = RSeq (rlit w) r \<or> marked k i (w # ws) = rlit w" by (cases ws) auto
  have "length (unread q) \<le> length (drop (length w) v)"
  proof (cases "marked k i (w # ws) = rlit w")
    case True
    with s w have "q = (rev w @ rev u @ l, drop (length w) v, None)" by (simp add: matches_rlit)
    then show ?thesis by simp
  next
    case False
    with r s w have "q \<in> set (matches r (rev w @ rev u @ l, drop (length w) v, None))" by (simp add: marked_lit_seq del: matches.simps)
    then show ?thesis using matches_rest_length by fastforce
  qed
  moreover have "length (drop (length w) v) < length v" using w assms(1) by (cases v; cases w) auto
  ultimately show ?thesis using s(1) by simp
qed

lemma finditer_skip:
  assumes "search_from r l (c # t) = search_from r (c # l) t" "\<And>p q. search_from r (c # l) t = Some (p, q) \<Longrightarrow> length (unread q) < length t"
  shows "finditer_from r l (c # t) = finditer_from r (c # l) t"
proof (cases "search_from r (c # l) t")
  case None
  with assms(1) show ?thesis by (simp add: finditer_from.simps [of r])
next
  case (Some pq)
  obtain p q where pq: "pq = (p, q)" by (cases pq)
  with Some assms(2) have lt: "length (unread q) < length t" by blast
  then have "length (unread q) < length (c # t)" by simp
  with lt Some pq assms(1) show ?thesis by (simp add: finditer_from.simps [of r l "c # t"] finditer_from.simps [of r "c # l" t])
qed

lemma groups_from:
  assumes "hd w \<noteq> CHR 0x0A" "w \<noteq> []" "1 \<le> k" "k \<le> length ws"
  shows "(\<And>ts. ts \<in> set tss \<Longrightarrow> list_all2 ends_at ts ws) \<Longrightarrow>
    map (\<lambda>(p, q). captured q) (finditer_from (marked k 1 (w # ws)) l (join newline (map (block_text (w # ws)) tss))) = map (\<lambda>ts. ts ! (k - 1)) tss"
proof (induction tss arbitrary: l)
  case Nil
  then show ?case by (simp add: finditer_nil [OF assms(2)])
next
  case (Cons ts tss)
  let ?r = "marked k 1 (w # ws)"
  let ?z = "case tss of [] \<Rightarrow> [] | _ \<Rightarrow> newline @ join newline (map (block_text (w # ws)) tss)"
  have ts: "list_all2 ends_at ts ws" by (rule Cons.prems) simp
  have len: "length ts = length ws" using ts by (rule list_all2_lengthD)
  have s: "join newline (map (block_text (w # ws)) (ts # tss)) = w @ interleave ts ws @ ?z" (is "?s = _")
    by (cases tss) (simp_all add: block_text_def)
  obtain l' more where m: "matches ?r (l, ?s, None) = (l', ?z, Some (ts ! (k - 1))) # more"
    using marked_head [OF ts, of k 1 w l ?z None] assms(3,4) len s by auto
  then have f: "search_from ?r l ?s = Some ((l, ?s, None), (l', ?z, Some (ts ! (k - 1))))"
    by (simp only: search_from.simps [of ?r l ?s] m list.case)
  have lt: "length ?z < length ?s" using s assms(2) by simp
  have it: "finditer_from ?r l ?s = ((l, ?s, None), (l', ?z, Some (ts ! (k - 1)))) # finditer_from ?r l' ?z"
    by (simp only: finditer_from.simps [of ?r l ?s] f option.case prod.case fst_conv snd_conv if_P [OF lt])
  have "map (\<lambda>(p, q). captured q) (finditer_from ?r l' ?z) = map (\<lambda>ts. ts ! (k - 1)) tss"
  proof (cases tss)
    case Nil
    then show ?thesis by (simp add: finditer_nil [OF assms(2)])
  next
    case (Cons u us)
    let ?t = "join newline (map (block_text (w # ws)) tss)"
    have "\<not> starts_with w (CHR 0x0A # ?t)" using assms(1,2) by (cases w) auto
    then have "search_from ?r l' (CHR 0x0A # ?t) = search_from ?r (CHR 0x0A # l') ?t"
      by (simp add: search_from.simps [of _ l' "CHR 0x0A # _"] marked_hd del: matches.simps)
    then have "finditer_from ?r l' (CHR 0x0A # ?t) = finditer_from ?r (CHR 0x0A # l') ?t"
      by (rule finditer_skip) (rule marked_progress [OF assms(2)])
    with Cons Cons.IH [of "CHR 0x0A # l'"] Cons.prems show ?thesis by (simp add: newline_def)
  qed
  with it show ?case by (simp add: captured_def)
qed

section \<open>Which tool a call becomes\<close>

lemma email_tools_own_names: "name \<in> set BUILTIN_EMAIL_TOOLS \<Longrightarrow> tool_type_of name = name"
proof -
  have "list_all (\<lambda>n. tool_type_of n = n) BUILTIN_EMAIL_TOOLS" by code_simp
  then show "name \<in> set BUILTIN_EMAIL_TOOLS \<Longrightarrow> tool_type_of name = name" by (simp add: list_all_iff)
qed

lemma email_prefix_mcp: "starts_with email_prefix t \<Longrightarrow> starts_with ''mcp__'' t"
  using starts_with_trans [of "''mcp__''" email_prefix t] by (simp add: email_prefix_def del: starts_with_Cons) (simp add: starts_with_def)

text \<open>
  A native call becomes a block of a known tool. The block of a call is for the tool that the
  name stands for, which is one the loop dispatches or an MCP tool, or for the MCP tool of an e-mail
  name; no call becomes a block of another tool.
\<close>

theorem converted_block_known:
  assumes "function_call_to_tool_block env name arguments = Inr (Some (t, c))"
  shows "t = tool_type_of name \<and> (t \<in> set TOOL_TAGS \<or> starts_with ''mcp__'' t) \<or>
    name \<in> set BUILTIN_EMAIL_TOOLS \<and> t = email_prefix @ name"
  using assms by (auto simp: function_call_to_tool_block_def Let_def split: option.splits if_splits elim!: rbind_InrE)

theorem converted_block_known_witness:
  "(let b = function_call_to_tool_block \<lparr>je_loads = \<lambda>_. None, je_hex = \<lambda>_. None\<rparr> ''shell'' (PDict [(''command'', PStr ''ls'')])
    in b = Inr (Some (''bash'', PStr ''ls''))) \<and> (''bash'' = tool_type_of ''shell'' \<and> (''bash'' \<in> set TOOL_TAGS \<or> starts_with ''mcp__'' ''bash'') \<or>
    ''shell'' \<in> set BUILTIN_EMAIL_TOOLS \<and> ''bash'' = email_prefix @ ''shell'')"
proof -
  have b: "function_call_to_tool_block \<lparr>je_loads = \<lambda>_. None, je_hex = \<lambda>_. None\<rparr> ''shell'' (PDict [(''command'', PStr ''ls'')]) =
    Inr (Some (''bash'', PStr ''ls''))" by code_simp
  from b converted_block_known [OF b] show ?thesis by (simp only: Let_def)
qed

text \<open>A call of an e-mail tool whose arguments are not an object is rejected.\<close>

lemma email_calls_fail_closed:
  "name \<in> set BUILTIN_EMAIL_TOOLS \<Longrightarrow> call_arguments env name arguments = Some v \<Longrightarrow> \<not> is_mapping v \<Longrightarrow>
     function_call_to_tool_block env name arguments = Inr None"
  by (simp add: function_call_to_tool_block_def email_tools_own_names)

section \<open>Edits of a document\<close>

definition edit_args :: "(string \<times> string) list \<Rightarrow> pyval" where
  "edit_args edits = PList (map (\<lambda>(old, new). PDict [(''find'', PStr old), (''replace'', PStr new)]) edits)"

lemma dicts_of_map: "dicts_of (PList (map (\<lambda>x. PDict (f x)) xs)) = map f xs"
  by (induction xs) (simp_all add: dicts_of_def)

lemma edit_document_text:
  assumes "dget args ''edits'' = Some (edit_args edits)"
  shows "edit_document_content args = join newline (map (block_text EDIT_MARKERS) (map (\<lambda>(old, new). [old, new]) edits))"
proof -
  have "edit_args edits = PList (map (\<lambda>x. PDict [(''find'', PStr (fst x)), (''replace'', PStr (snd x))]) edits)"
    by (simp add: edit_args_def case_prod_unfold)
  then have "dicts_of (edit_args edits) = map (\<lambda>x. [(''find'', PStr (fst x)), (''replace'', PStr (snd x))]) edits"
    by (simp add: dicts_of_map)
  with assms show ?thesis
    by (simp add: edit_document_content_def pget_or_def field_def edit_block_def block_text_def EDIT_MARKERS_def comp_def case_prod_unfold)
qed

definition quotes_no_marker :: "string \<times> string \<Rightarrow> bool" where
  "quotes_no_marker e = (\<not> contains REPLACE (fst e) \<and> \<not> contains END (snd e))"

lemma newline_cons: "newline @ s = CHR 0x0A # s" "newline = [CHR 0x0A]"
  by (simp_all add: newline_def)

lemma ends_at_markers:
  "\<not> contains REPLACE s \<Longrightarrow> ends_at s (newline @ REPLACE @ newline)" "\<not> contains SUGGEST s \<Longrightarrow> ends_at s (newline @ SUGGEST @ newline)"
  "\<not> contains REASON s \<Longrightarrow> ends_at s (newline @ REASON @ newline)" "\<not> contains END s \<Longrightarrow> ends_at s (newline @ END)"
  using ends_at_line [of "CHR 0x0A" REPLACE s] ends_at_line [of "CHR 0x0A" SUGGEST s] ends_at_line [of "CHR 0x0A" REASON s]
    ends_at_line [of "CHR 0x0A" END s]
  unfolding newline_cons append_Cons append_Nil by (simp_all del: contains.simps)

lemma groups_of_blocks:
  assumes "markers = (FIND @ newline) # ws" "1 \<le> k" "k \<le> length ws" "\<And>ts. ts \<in> set tss \<Longrightarrow> list_all2 ends_at ts ws"
  shows "groups markers k (join newline (map (block_text markers) tss)) = map (\<lambda>ts. ts ! (k - 1)) tss"
  unfolding groups_def re_finditer_def assms(1)
  by (rule groups_from) (use assms in \<open>simp_all\<close>)

lemma parse_edit_blocks_text:
  assumes "list_all quotes_no_marker edits"
  shows "parse_edit_blocks (join newline (map (block_text EDIT_MARKERS) (map (\<lambda>(old, new). [old, new]) edits))) = edits"
proof -
  let ?tss = "map (\<lambda>(old, new). [old, new]) edits"
  have ends: "list_all2 ends_at ts [newline @ REPLACE @ newline, newline @ END]" if ts: "ts \<in> set ?tss" for ts
  proof -
    obtain old new where "(old, new) \<in> set edits" "ts = [old, new]" using ts by auto
    moreover have "quotes_no_marker (old, new)" using assms calculation(1) unfolding list_all_iff by blast
    ultimately have "ends_at old (newline @ REPLACE @ newline)" "ends_at new (newline @ END)" "ts = [old, new]"
      using ends_at_markers unfolding quotes_no_marker_def fst_conv snd_conv by blast+
    then show ?thesis by (simp only: list_all2_Cons list_all2_Nil)
  qed
  have "groups EDIT_MARKERS k (join newline (map (block_text EDIT_MARKERS) ?tss)) = map (\<lambda>ts. ts ! (k - 1)) ?tss" if "k \<in> {1, 2}" for k
    by (rule groups_of_blocks [OF EDIT_MARKERS_def]) (use that ends in \<open>auto simp del: list_all2_Cons\<close>)
  from this [of 1] this [of 2] show ?thesis
    by (simp add: parse_edit_blocks_def comp_def case_prod_unfold zip_map_fst_snd)
qed

text \<open>
  The edits of a native call reach the tool as they were made. For edits whose old texts do
  not quote the marker of the replacement and whose new texts do not quote the end marker, the tool
  reads from the block of the call exactly these edits, in order, also when a text is empty or has
  several lines.
\<close>

theorem native_edits_read_back:
  assumes "call_arguments env ''edit_document'' arguments = Some (PDict args)" "dget args ''edits'' = Some (edit_args edits)"
    "list_all quotes_no_marker edits"
  shows "\<exists>c. function_call_to_tool_block env ''edit_document'' arguments = Inr (Some (''edit_document'', PStr c)) \<and> parse_edit_blocks c = edits"
proof -
  have "tool_type_of ''edit_document'' = ''edit_document''" "''edit_document'' \<notin> set BUILTIN_EMAIL_TOOLS" "''edit_document'' \<in> set TOOL_TAGS"
    "dget REQUIRED_NATIVE_TOOL_ARGS ''edit_document'' = None" "\<not> starts_with ''mcp__'' ''edit_document''"
    by code_simp+
  with assms(1) have "function_call_to_tool_block env ''edit_document'' arguments = Inr (Some (''edit_document'', PStr (edit_document_content args)))"
    by (simp add: function_call_to_tool_block_def block_content_def)
  with edit_document_text [OF assms(2)] parse_edit_blocks_text [OF assms(3)] show ?thesis by simp
qed

theorem native_edits_read_back_witness:
  "\<exists>c. function_call_to_tool_block \<lparr>je_loads = \<lambda>_. None, je_hex = \<lambda>_. None\<rparr> ''edit_document''
      (PDict [(''edits'', edit_args [(''teh'', ''the''), (''drop me'', [])])]) = Inr (Some (''edit_document'', PStr c)) \<and>
    parse_edit_blocks c = [(''teh'', ''the''), (''drop me'', [])]"
proof (rule native_edits_read_back)
  show "call_arguments \<lparr>je_loads = \<lambda>_. None, je_hex = \<lambda>_. None\<rparr> ''edit_document'' (PDict [(''edits'', edit_args [(''teh'', ''the''), (''drop me'', [])])]) =
      Some (PDict [(''edits'', edit_args [(''teh'', ''the''), (''drop me'', [])])])"
    by (simp add: call_arguments_def)
  show "list_all quotes_no_marker [(''teh'', ''the''), (''drop me'', [])]" by code_simp
qed simp

text \<open>A new text that quotes the markers is cut, and what follows its end marker is an edit of its own.\<close>

lemma quoted_markers_forge_edit:
  "parse_edit_blocks (edit_block ''a'' (''b'' @ newline @ END @ newline @ FIND @ newline @ ''c'' @ newline @ REPLACE @ newline @ ''d'')) =
     [(''a'', ''b''), (''c'', ''d'')]"
proof -
  have "edit_block ''a'' (''b'' @ newline @ END @ newline @ FIND @ newline @ ''c'' @ newline @ REPLACE @ newline @ ''d'') =
      join newline (map (block_text EDIT_MARKERS) (map (\<lambda>(old, new). [old, new]) [(''a'', ''b''), (''c'', ''d'')]))"
    by (simp add: edit_block_def block_text_def EDIT_MARKERS_def)
  moreover have "list_all quotes_no_marker [(''a'', ''b''), (''c'', ''d'')]" by code_simp
  ultimately show ?thesis by (metis parse_edit_blocks_text)
qed

section \<open>Suggestions\<close>

definition suggest_args :: "(string \<times> string \<times> string) list \<Rightarrow> pyval" where
  "suggest_args ss = PList (map (\<lambda>(old, new, reason). PDict [(''find'', PStr old), (''replace'', PStr new), (''reason'', PStr reason)]) ss)"

definition plain_suggestion :: "string \<times> string \<times> string \<Rightarrow> bool" where
  "plain_suggestion s = (case s of (old, new, reason) \<Rightarrow> \<not> contains SUGGEST old \<and> \<not> contains REASON new \<and> \<not> contains END reason)"

lemma suggest_document_text:
  assumes "dget args ''suggestions'' = Some (suggest_args ss)"
  shows "suggest_document_content args = join newline (map (block_text SUGGEST_MARKERS) (map (\<lambda>(old, new, reason). [old, new, reason]) ss))"
proof -
  have "suggest_args ss = PList (map (\<lambda>x. PDict [(''find'', PStr (fst x)), (''replace'', PStr (fst (snd x))), (''reason'', PStr (snd (snd x)))]) ss)"
    by (simp add: suggest_args_def case_prod_unfold)
  then have "dicts_of (suggest_args ss) = map (\<lambda>x. [(''find'', PStr (fst x)), (''replace'', PStr (fst (snd x))), (''reason'', PStr (snd (snd x)))]) ss"
    by (simp add: dicts_of_map)
  with assms show ?thesis
    by (simp add: suggest_document_content_def pget_or_def field_def suggest_block_def block_text_def SUGGEST_MARKERS_def comp_def case_prod_unfold)
qed

lemma suggest_groups:
  assumes "list_all plain_suggestion ss"
    "c = join newline (map (block_text SUGGEST_MARKERS) (map (\<lambda>(old, new, reason). [old, new, reason]) ss))"
  shows "zip (groups SUGGEST_MARKERS 1 c) (zip (groups SUGGEST_MARKERS 2 c) (groups SUGGEST_MARKERS 3 c)) = ss"
proof -
  let ?tss = "map (\<lambda>(old, new, reason). [old, new, reason]) ss"
  have ends: "list_all2 ends_at ts [newline @ SUGGEST @ newline, newline @ REASON @ newline, newline @ END]" if ts: "ts \<in> set ?tss" for ts
  proof -
    obtain old new reason where "(old, new, reason) \<in> set ss" "ts = [old, new, reason]" using ts by auto
    moreover have "plain_suggestion (old, new, reason)" using assms(1) calculation(1) unfolding list_all_iff by blast
    ultimately have "ends_at old (newline @ SUGGEST @ newline)" "ends_at new (newline @ REASON @ newline)" "ends_at reason (newline @ END)" "ts = [old, new, reason]"
      using ends_at_markers unfolding plain_suggestion_def prod.case by blast+
    then show ?thesis by (simp only: list_all2_Cons list_all2_Nil)
  qed
  have "groups SUGGEST_MARKERS k c = map (\<lambda>ts. ts ! (k - 1)) ?tss" if "k \<in> {1, 2, 3}" for k
    unfolding assms(2) by (rule groups_of_blocks [OF SUGGEST_MARKERS_def]) (use that ends in \<open>auto simp del: list_all2_Cons\<close>)
  moreover have "zip (map fst ss) (zip (map (\<lambda>x. fst (snd x)) ss) (map (\<lambda>x. snd (snd x)) ss)) = ss" by (induction ss) simp_all
  ultimately show ?thesis by (simp add: comp_def case_prod_unfold)
qed

text \<open>A suggestion is dropped when its reason has one of the phrases, also inside a word.\<close>

lemma unclear_suggestion_lost:
  assumes "list_all plain_suggestion ss" "dget args ''suggestions'' = Some (suggest_args ss)"
    "list_all (\<lambda>(old, new, reason). contains ''clear'' (lower (strip reason))) ss"
  shows "parse_suggest_blocks (suggest_document_content args) = []"
proof -
  have "filter keeps_suggestion ss = []"
    using assms(3) by (auto simp: filter_empty_conv list_all_iff keeps_suggestion_def SKIP_PHRASES_def simp del: contains.simps)
  with suggest_groups [OF assms(1) suggest_document_text [OF assms(2)]] show ?thesis
    by (simp only: parse_suggest_blocks_def Let_def) simp
qed

lemma unclear_suggestion_example:
  "parse_suggest_blocks (suggest_document_content [(''suggestions'', suggest_args [(''it'', ''the result'', ''The reference is unclear.'')])]) = []"
  by (rule unclear_suggestion_lost [of "[(''it'', ''the result'', ''The reference is unclear.'')]"]) (code_simp, simp, code_simp)

end
