(* ===== verification/ToolParsing.thy ===== *)
theory ToolParsing
  imports ToolBlocks
begin

text \<open>
  What src/src/tool_parsing.py reads out of the text of a reply: the regular expressions, the forward scans
  over delimiters, the formats (fences, \<open>[TOOL_CALL]\<close>, XML and DSML calls, \<open>tool_code\<close>, Gemma, function
  models, leaked OpenAI calls, bare JSON look-ups), \<open>parse_tool_blocks\<close> that tries them in order, and
  \<open>strip_tool_blocks\<close> that cuts them from what is shown. The matching is that of PyRegex and PyScan.
  The last section shows that the forward scans give what the patterns they replaced give.
\<close>

section \<open>The environment\<close>

text \<open>
  What the standard library reads: \<open>json.loads\<close>, \<open>JSONDecoder.raw_decode\<close> with the length it read, and
  \<open>ast.parse\<close> of a text that is one call of a plain name, with its arguments and keywords by
  \<open>ast.literal_eval\<close> (\<open>None\<close> where that raises). The tokens of StepFun are outside Latin-1. \<open>pe_lower\<close> is \<open>str.lower\<close> where
  positions depend on it.
\<close>

record call_expr =
  ce_name :: string
  ce_args :: "pyval option list"
  ce_keywords :: "(string option \<times> pyval option) list"

record parse_env = json_env +
  pe_raw_decode :: "string \<Rightarrow> (pyval \<times> nat) option"
  pe_call :: "string \<Rightarrow> call_expr option"
  pe_begin :: string
  pe_sep :: string
  pe_end :: string
  pe_calls_begin :: string
  pe_calls_end :: string
  pe_lower :: "string \<Rightarrow> string"

definition to_block :: "parse_env \<Rightarrow> string \<Rightarrow> string \<Rightarrow> block option result" where
  "to_block env name arguments = function_call_to_tool_block (json_env.truncate env) name (PStr arguments)"

text \<open>The name of a tool in a text: an alias, or the name of a tool itself.\<close>

definition known_tool :: "string \<Rightarrow> string option" where
  "known_tool name = (case dget TOOL_NAME_MAP name of Some t \<Rightarrow> Some t | None \<Rightarrow> if name \<in> set TOOL_TAGS then Some name else None)"

definition ci :: "string \<Rightarrow> regex" where
  "ci s = ignore_case (rlit s)"

abbreviation spaces :: regex where "spaces \<equiv> rstar rspace"
abbreviation quote_set :: "char \<Rightarrow> bool" where "quote_set \<equiv> one_of [CHR 0x22, CHR 0x27]"
abbreviation ident :: regex where "ident \<equiv> rplus (RSet is_word)"

text \<open>The group of the first match, if there is one.\<close>

definition search_group :: "regex \<Rightarrow> string \<Rightarrow> string option" where
  "search_group r s = (case search_from r [] s of None \<Rightarrow> None | Some (p, q) \<Rightarrow> Some (captured q))"

text \<open>\<open>s.strip(chars)\<close>.\<close>

definition strip_chars :: "string \<Rightarrow> string \<Rightarrow> string" where
  "strip_chars cs s = rev (dropWhile (one_of cs) (rev (dropWhile (one_of cs) s)))"

text \<open>\<open>s.splitlines()\<close>.\<close>

definition line_break :: "char \<Rightarrow> bool" where
  "line_break c = (let n = code c in 10 \<le> n \<and> n \<le> 13 \<or> 28 \<le> n \<and> n \<le> 30 \<or> n = 133)"

function split_lines :: "string \<Rightarrow> string list" where
  "split_lines s =
     (if s = [] then []
      else takeWhile (\<lambda>c. \<not> line_break c) s #
        (case dropWhile (\<lambda>c. \<not> line_break c) s of
           [] \<Rightarrow> []
         | c # r \<Rightarrow> split_lines (if code c = 13 \<and> starts_with newline r then tl r else r)))"
  by pat_completeness auto
termination
proof (relation "measure length", simp)
  fix s c r assume "dropWhile (\<lambda>c. \<not> line_break c) s = c # r"
  then have "Suc (length r) \<le> length s" using length_dropWhile_le [of "\<lambda>c. \<not> line_break c" s] by simp
  then show "((if code c = 13 \<and> starts_with newline r then tl r else r), s) \<in> measure length" by auto
qed

declare split_lines.simps [simp del]

section \<open>Fenced code\<close>

definition CODE_FENCE_TAGS :: "string list" where "CODE_FENCE_TAGS = [''bash'', ''python'']"

definition blank :: "char \<Rightarrow> bool" where "blank c = (c = CHR '' '' \<or> c = CHR 0x09)"

abbreviation fence :: string where "fence \<equiv> ''```''"

text \<open>A fence with its \<open>k\<close>-th group captured.\<close>

definition TOOL_BLOCK :: "nat \<Rightarrow> regex" where
  "TOOL_BLOCK k = ignore_case (rseq [rlit fence, grouped (k = 1) (rwords TOOL_TAGS), RNotAhead (\<lambda>c. is_word c \<or> c = CHR ''-''),
     rstar (RSet blank), ropt (grouped (k = 2) (RSeq (RSet (one_of ''{['')) (RLazy (RSet not_newline)))), rstar (RSet blank),
     RLook (RAlt (RSeq (ropt (rlit [CHR 0x0D])) (rlit newline)) (rlit fence)),
     ropt (rlit [CHR 0x0D]), ropt (rlit newline), grouped (k = 3) (RLazy rany), rlit fence])"

text \<open>What a fence is: the tag and content of a call, or \<open>None\<close> for text that is shown.\<close>

definition fenced_tool_call :: "(string \<Rightarrow> pyval option) \<Rightarrow> string \<Rightarrow> string \<Rightarrow> string \<Rightarrow> (string \<times> string) option" where
  "fenced_tool_call loads g1 g2 g3 =
     (let tag = lower g1; inline = strip g2; body = strip g3
      in if inline = [] then Some (tag, body)
         else if tag \<in> set CODE_FENCE_TAGS then None
         else let content = (if body \<noteq> [] then inline @ newline @ body else inline)
           in if loads content = None then None else Some (tag, content))"

text \<open>The fences of a text with what they are, where they start and where they end.\<close>

definition fences :: "(string \<Rightarrow> pyval option) \<Rightarrow> string \<Rightarrow> ((pos \<times> pos) \<times> (string \<times> string) option) list" where
  "fences loads s =
     map (\<lambda>((p, q1), (_, q2), (_, q3)). ((p, q1), fenced_tool_call loads (captured q1) (captured q2) (captured q3)))
       (zip (re_finditer (TOOL_BLOCK 1) s) (zip (re_finditer (TOOL_BLOCK 2) s) (re_finditer (TOOL_BLOCK 3) s)))"

text \<open>The substitution removes the fences that are calls.\<close>

fun cut_called :: "pos \<Rightarrow> ((pos \<times> pos) \<times> (string \<times> string) option) list \<Rightarrow> string" where
  "cut_called p [] = unread p"
| "cut_called p (((a, b), call) # others) = between p a @ (if call \<noteq> None then [] else between a b) @ cut_called b others"

definition strip_executed_fences :: "(string \<Rightarrow> pyval option) \<Rightarrow> string \<Rightarrow> string" where
  "strip_executed_fences loads s = cut_called ([], s, None) (fences loads s)"

section \<open>Calls written as code\<close>

definition MISFENCED_WEB_TOOL_NAMES :: "string dict" where
  "MISFENCED_WEB_TOOL_NAMES = [(''web_search'', ''web_search''), (''websearch'', ''web_search''), (''google_search'', ''web_search''),
     (''google_search_retrieval'', ''web_search''), (''google_search_grounding'', ''web_search''), (''web_fetch'', ''web_fetch''),
     (''webfetch'', ''web_fetch''), (''fetch_url'', ''web_fetch'')]"

definition literal_string :: "pyval option \<Rightarrow> string option" where
  "literal_string v =
     (case v of
        Some (PStr s) \<Rightarrow> Some (strip s)
      | Some (PList xs) \<Rightarrow> (case find (\<lambda>x. case x of PStr s \<Rightarrow> strip s \<noteq> [] | _ \<Rightarrow> False) xs of Some (PStr s) \<Rightarrow> Some (strip s) | _ \<Rightarrow> None)
      | _ \<Rightarrow> None)"

definition is_py_int :: "pyval \<Rightarrow> bool" where
  "is_py_int v = (case v of PInt _ \<Rightarrow> True | PBool _ \<Rightarrow> True | _ \<Rightarrow> False)"

text \<open>The keywords of a lookup, one after another.\<close>

fun web_keywords :: "(string option \<times> pyval option) list \<Rightarrow> pyval dict \<Rightarrow> pyval dict option" where
  "web_keywords [] args = Some args"
| "web_keywords ((k, v) # others) args =
     (case k of
        None \<Rightarrow> None
      | Some k \<Rightarrow>
          if k \<notin> set [''query'', ''queries'', ''url'', ''time_filter'', ''freshness'', ''max_pages''] then None
          else let key = (if k = ''queries'' then ''query'' else k)
            in case literal_string v of
                 Some s \<Rightarrow> web_keywords others (dset key (PStr s) args)
               | None \<Rightarrow>
                   (case v of
                      None \<Rightarrow> None
                    | Some parsed \<Rightarrow> if key = ''max_pages'' \<and> is_py_int parsed then web_keywords others (dset key parsed args) else None))"

definition web_lookup :: "string \<Rightarrow> pyval dict \<Rightarrow> block option" where
  "web_lookup mapped args =
     (if mapped = ''web_search'' then
        (let query = pget args ''query'';
             payload = (''query'', query) # concat (map (\<lambda>k. case dget args k of None \<Rightarrow> [] | Some v \<Rightarrow> [(k, v)]) [''time_filter'', ''freshness'', ''max_pages''])
         in if \<not> truthy query then None
            else if length payload = 1 then Some (''web_search'', query)
            else Some (''web_search'', PStr (dumps_default (PDict payload))))
      else if \<not> truthy (pget args ''url'') then None else Some (''web_fetch'', pget args ''url''))"

definition parse_misfenced_web_lookup :: "parse_env \<Rightarrow> string \<Rightarrow> block option" where
  "parse_misfenced_web_lookup env content =
     (case pe_call env (strip content) of
        None \<Rightarrow> None
      | Some call \<Rightarrow>
          (case dget MISFENCED_WEB_TOOL_NAMES (lower (ce_name call)) of
             None \<Rightarrow> None
           | Some mapped \<Rightarrow>
               (let key = (if mapped = ''web_fetch'' then ''url'' else ''query'');
                    start = (case ce_args call of
                        [] \<Rightarrow> Some []
                      | [a] \<Rightarrow> (case literal_string a of None \<Rightarrow> None | Some s \<Rightarrow> if s = [] then None else Some [(key, PStr s)])
                      | _ \<Rightarrow> None)
                in case start of
                     None \<Rightarrow> None
                   | Some args \<Rightarrow> (case web_keywords (ce_keywords call) args of None \<Rightarrow> None | Some args \<Rightarrow> web_lookup mapped args))))"

fun read_keywords :: "(string option \<times> pyval option) list \<Rightarrow> pyval dict \<Rightarrow> pyval dict option" where
  "read_keywords [] args = Some args"
| "read_keywords ((k, v) # others) args =
     (case k of
        None \<Rightarrow> None
      | Some k \<Rightarrow>
          if k \<notin> set [''path'', ''file'', ''file_path'', ''offset'', ''limit''] then None
          else if k \<in> set [''path'', ''file'', ''file_path''] then
            (case literal_string v of
               None \<Rightarrow> None
             | Some p \<Rightarrow> if p = [] then None else read_keywords others (dset ''path'' (PStr p) args))
          else (case v of
                  Some (PInt i) \<Rightarrow> if i < 0 then None else read_keywords others (dset k (PInt i) args)
                | Some (PBool b) \<Rightarrow> read_keywords others (dset k (PBool b) args)
                | _ \<Rightarrow> None))"

definition READ_FILE_LINE :: regex where
  "READ_FILE_LINE = ignore_case (rseq [rlit ''read_file'', rplus rspace, RGroup (rplus rdot)])"

text \<open>\<open>fullmatch\<close> with the group.\<close>

definition fullmatch_group :: "regex \<Rightarrow> string \<Rightarrow> string option" where
  "fullmatch_group r s = map_option captured (find (\<lambda>q. unread q = []) (matches r ([], s, None)))"

text \<open>A non-negative integer, also a truth value, which Python counts as one.\<close>

definition nonneg_int :: "pyval \<Rightarrow> bool" where
  "nonneg_int v = (case v of PInt i \<Rightarrow> 0 \<le> i | PBool _ \<Rightarrow> True | _ \<Rightarrow> False)"

definition read_file_object :: "parse_env \<Rightarrow> pyval dict \<Rightarrow> block option result" where
  "read_file_object env args =
     (case py_or (py_or (pget args ''path'') (pget args ''file'')) (pget args ''file_path'') of
        PStr p \<Rightarrow>
          if strip p = [] then Inr None
          else to_block env ''read_file'' (dumps_default (PDict ((''path'', PStr (strip p)) #
                 map (\<lambda>k. (k, pget args k)) (filter (\<lambda>k. nonneg_int (pget args k)) [''offset'', ''limit'']))))
      | _ \<Rightarrow> Inr None)"

definition read_file_shell :: "parse_env \<Rightarrow> string \<Rightarrow> block option result" where
  "read_file_shell env stripped =
     (case filter (\<lambda>l. l \<noteq> []) (map strip (split_lines stripped)) of
        [line] \<Rightarrow>
          (case fullmatch_group READ_FILE_LINE line of
             None \<Rightarrow> Inr None
           | Some g \<Rightarrow>
               (let path = strip g
                in if path = [] then Inr None
                   else if starts_with ''{'' path then
                     (case je_loads env path of Some (PDict args) \<Rightarrow> read_file_object env args | _ \<Rightarrow> Inr None)
                   else let path = (if 2 \<le> length path \<and> hd path = last path \<and> quote_set (hd path) then strip (butlast (tl path)) else path)
                     in Inr (if path = [] then None else Some (''read_file'', PStr path))))
      | _ \<Rightarrow> Inr None)"

definition parse_misfenced_read_file_lookup :: "parse_env \<Rightarrow> bool \<Rightarrow> string \<Rightarrow> block option result" where
  "parse_misfenced_read_file_lookup env allow_shell_style content =
     (let stripped = strip content
      in if stripped = [] then Inr None
         else case pe_call env stripped of
           Some call \<Rightarrow>
             if lower (ce_name call) \<noteq> ''read_file'' then Inr None
             else (let start = (case ce_args call of
                        [] \<Rightarrow> Some []
                      | [a] \<Rightarrow> (case literal_string a of None \<Rightarrow> None | Some p \<Rightarrow> if p = [] then None else Some [(''path'', PStr p)])
                      | _ \<Rightarrow> None)
                   in case start of
                        None \<Rightarrow> Inr None
                      | Some args \<Rightarrow>
                          (case read_keywords (ce_keywords call) args of
                             None \<Rightarrow> Inr None
                           | Some args \<Rightarrow> if truthy (pget args ''path'') then to_block env ''read_file'' (dumps_default (PDict args)) else Inr None))
         | None \<Rightarrow> if allow_shell_style then read_file_shell env stripped else Inr None)"

section \<open>Scanners\<close>

text \<open>A named opener, and the body up to the next closer.\<close>

definition iter_named_blocks :: "regex \<Rightarrow> regex \<Rightarrow> string \<Rightarrow> (string \<times> string) list" where
  "iter_named_blocks op cl s = map (\<lambda>(a, b, c, d). (captured b, between b c)) (iter_delimited op cl [] s)"

definition delimited_bodies :: "regex \<Rightarrow> regex \<Rightarrow> string \<Rightarrow> string list" where
  "delimited_bodies op cl s = map (\<lambda>(a, b, c, d). between b c) (iter_delimited op cl [] s)"

definition quote_re :: regex where "quote_re = RSet quote_set"

definition named_open :: "string \<Rightarrow> regex" where
  "named_open tag = ignore_case (rseq [rlit (CHR ''<'' # tag), rplus rspace, rlit ''name='', quote_re, RGroup ident, quote_re, rlit ''>''])"

definition XML_INVOKE_OPEN :: regex where "XML_INVOKE_OPEN = RSeq (named_open ''invoke'') spaces"
definition XML_INVOKE_CLOSE :: regex where "XML_INVOKE_CLOSE = ci ''</invoke>''"
definition XML_PARAM_OPEN :: regex where "XML_PARAM_OPEN = named_open ''parameter''"
definition XML_PARAM_CLOSE :: regex where "XML_PARAM_CLOSE = ci ''</parameter>''"

definition tag_name :: regex where
  "tag_name = RGroup (RSeq (RSet (\<lambda>c. is_az c \<or> is_AZ c \<or> c = CHR ''_'')) (rstar (RSet (\<lambda>c. is_word c \<or> c = CHR ''-''))))"

definition XML_DIRECT_OPEN :: regex where "XML_DIRECT_OPEN = rseq [rlit ''<'', spaces, tag_name, spaces, rlit ''>'']"
definition XML_DIRECT_CLOSE_ANY :: regex where "XML_DIRECT_CLOSE_ANY = rseq [rlit ''</'', spaces, tag_name, spaces, rlit ''>'']"

text \<open>
  The wrappers: an optional namespace, one of two names. The first character of each opener stands
  apart: it is where the closer may begin too.
\<close>

definition namespace :: regex where "namespace = ropt (RSeq ident (rlit '':''))"
definition call_names :: regex where "call_names = rwords [''tool_call'', ''function_call'']"

definition lt :: regex where "lt = RSet (\<lambda>c. c = CHR ''<'')"

definition XML_TOOL_CALL_OPEN :: regex where
  "XML_TOOL_CALL_OPEN = ignore_case (RSeq lt (rseq [namespace, call_names, rlit ''>'', spaces]))"
definition XML_TOOL_CALL_CLOSE :: regex where
  "XML_TOOL_CALL_CLOSE = ignore_case (RSeq lt (rseq [rlit ''/'', namespace, call_names, rlit ''>'']))"
definition TOOL_CALL_OPEN :: regex where
  "TOOL_CALL_OPEN = ignore_case (RSeq (RSet (\<lambda>c. c = CHR ''['')) (rseq [rlit ''TOOL_CALL]'', spaces, rlit ''{'']))"
definition TOOL_CALL_CLOSE :: regex where
  "TOOL_CALL_CLOSE = ignore_case (RSeq (RSet (\<lambda>c. c = CHR ''}'')) (rseq [spaces, rlit ''[/TOOL_CALL]'']))"
definition TOOL_CODE_OPEN :: regex where
  "TOOL_CODE_OPEN = ignore_case (RSeq lt (rseq [rlit ''tool_code>'', spaces, rlit ''{'']))"
definition TOOL_CODE_CLOSE :: regex where
  "TOOL_CODE_CLOSE = ignore_case (RSeq (RSet (\<lambda>c. c = CHR ''}'')) (rseq [spaces, rlit ''</tool_code>'']))"
definition FUNCTION_MODEL_OPEN :: regex where
  "FUNCTION_MODEL_OPEN = ignore_case (RSeq lt (rseq [rlit ''function_model>'', spaces]))"
definition FUNCTION_MODEL_CLOSE :: regex where
  "FUNCTION_MODEL_CLOSE = ignore_case (RSeq lt (rlit ''/function_model>''))"
definition FUNCTION_MODEL_PARAMS_OPEN :: regex where
  "FUNCTION_MODEL_PARAMS_OPEN = ignore_case (RSeq lt (rseq [rlit ''parameters>'', spaces]))"
definition FUNCTION_MODEL_PARAMS_CLOSE :: regex where
  "FUNCTION_MODEL_PARAMS_CLOSE = ignore_case (RSeq lt (rlit ''/parameters>''))"

definition XML_OPEN_TOOL_CALL :: regex where
  "XML_OPEN_TOOL_CALL = RSeq XML_TOOL_CALL_OPEN (rseq [RGroup (rstar rany), RNotAhead (\<lambda>_. True)])"

definition iter_xml_invoke :: "string \<Rightarrow> (string \<times> string) list" where
  "iter_xml_invoke s = iter_named_blocks XML_INVOKE_OPEN XML_INVOKE_CLOSE s"

text \<open>
  Openers paired with the closer of their own name that is the first after them; the others are
  skipped. \<open>same\<close> is how names are compared.
\<close>

definition closer_after :: "(string \<Rightarrow> string) \<Rightarrow> (pos \<times> pos) list \<Rightarrow> string \<Rightarrow> pos \<Rightarrow> (pos \<times> pos) option" where
  "closer_after same closers name b = find (\<lambda>(c, d). same (captured d) = same name \<and> length (unread c) \<le> length (unread b)) closers"

function backref_from :: "(string \<Rightarrow> string) \<Rightarrow> regex \<Rightarrow> (pos \<times> pos) list \<Rightarrow> string \<Rightarrow> string \<Rightarrow> (string \<times> string) list" where
  "backref_from same op closers l s =
     (case search_from op l s of
        None \<Rightarrow> []
      | Some (a, b) \<Rightarrow>
          (case closer_after same closers (captured b) b of
             None \<Rightarrow> if length (unread b) < length s then backref_from same op closers (fst b) (unread b) else []
           | Some (c, d) \<Rightarrow> (captured b, between b c) # (if length (unread d) < length s then backref_from same op closers (fst d) (unread d) else [])))"
  by pat_completeness auto
termination by (relation "measure (\<lambda>(same, op, closers, l, s). length s)") auto

declare backref_from.simps [simp del]

definition iter_backref_blocks :: "regex \<Rightarrow> regex \<Rightarrow> bool \<Rightarrow> string \<Rightarrow> (string \<times> string) list" where
  "iter_backref_blocks op close_any ignore s = backref_from (if ignore then lower else id) op (re_finditer close_any s) [] s"

definition iter_xml_direct :: "string \<Rightarrow> (string \<times> string) list" where
  "iter_xml_direct s = iter_backref_blocks XML_DIRECT_OPEN XML_DIRECT_CLOSE_ANY True s"

text \<open>The tokens of StepFun, by literal search.\<close>

function iter_stepfun :: "string \<Rightarrow> string \<Rightarrow> string \<Rightarrow> string \<Rightarrow> (string \<times> string) list" where
  "iter_stepfun b m e s =
     (case find_at b s of
        None \<Rightarrow> []
      | Some i \<Rightarrow>
          let t = drop (i + length b) s
          in case find_at m t of
               None \<Rightarrow> []
             | Some j \<Rightarrow>
                 let u = drop (j + length m) t
                 in case find_at e u of
                      None \<Rightarrow> []
                    | Some k \<Rightarrow>
                        let name = strip (take j t); more = drop (k + length e) u
                        in (if name \<noteq> [] \<and> length name \<le> 128 then [(name, strip (take k u))] else []) @
                           (if length more < length s then iter_stepfun b m e more else []))"
  by pat_completeness auto
termination by (relation "measure (\<lambda>(b, m, e, s). length s)") auto

declare iter_stepfun.simps [simp del]

text \<open>A text without the spans from one literal to the next occurrence of another.\<close>

function cut_between :: "string \<Rightarrow> string \<Rightarrow> string \<Rightarrow> string" where
  "cut_between b e s =
     (case find_at b s of
        None \<Rightarrow> s
      | Some i \<Rightarrow>
          (case find_at e (drop (i + length b) s) of
             None \<Rightarrow> s
           | Some k \<Rightarrow>
               let more = drop (i + length b + k + length e) s
               in take i s @ (if length more < length s then cut_between b e more else more)))"
  by pat_completeness auto
termination by (relation "measure (\<lambda>(b, e, s). length s)") auto

declare cut_between.simps [simp del]

definition strip_stepfun_tool_markup :: "parse_env \<Rightarrow> string \<Rightarrow> string" where
  "strip_stepfun_tool_markup env s =
     replace_all (pe_calls_end env) [] (replace_all (pe_calls_begin env) [] (cut_between (pe_begin env) (pe_end env) s))"

text \<open>Positions of the lower-cased text cut the text itself, which may be shorter.\<close>

function cut_invokes :: "string \<Rightarrow> string \<Rightarrow> string" where
  "cut_invokes lowered s =
     (case find_at ''<invoke'' lowered of
        None \<Rightarrow> s
      | Some start \<Rightarrow>
          (case find_at ''>'' (drop start s) of
             None \<Rightarrow> s
           | Some j \<Rightarrow>
               (case find_at ''</invoke>'' (drop (start + j + 1) lowered) of
                  None \<Rightarrow> s
                | Some k \<Rightarrow> take start s @ cut_invokes (drop (start + j + 1 + k + 9) lowered) (drop (start + j + 1 + k + 9) s))))"
  by pat_completeness auto
termination
proof (relation "measure (length \<circ> fst)", simp)
  fix lowered s :: string and start j k
  assume "find_at ''<invoke'' lowered = Some start"
  then have "lowered \<noteq> []" by auto
  then show "((drop (start + j + 1 + k + 9) lowered, drop (start + j + 1 + k + 9) s), lowered, s) \<in> measure (length \<circ> fst)" by simp
qed

declare cut_invokes.simps [simp del]

definition strip_bare_invoke_markup :: "parse_env \<Rightarrow> string \<Rightarrow> string" where
  "strip_bare_invoke_markup env s = cut_invokes (pe_lower env s) s"

section \<open>The formats\<close>

text \<open>The first of several patterns that match with a content that is not empty.\<close>

definition first_content :: "(string \<Rightarrow> string option) list \<Rightarrow> string \<Rightarrow> string" where
  "first_content fs raw =
     foldl (\<lambda>content f. if content \<noteq> [] then content else case f raw of None \<Rightarrow> [] | Some g \<Rightarrow> g) [] fs"

definition assigns :: regex where "assigns = rwords [''=>'', '':'', ''='']"

definition some_lazily :: regex where "some_lazily = RGroup (RSeq rany (RLazy rany))"

definition TOOL_DECL :: regex where
  "TOOL_DECL = ignore_case (rseq [rlit ''tool'', spaces, assigns, spaces, ropt quote_re, RGroup ident, ropt quote_re])"

definition keyed :: "string \<Rightarrow> regex" where
  "keyed key = rseq [rlit key, spaces, assigns, spaces, quote_re, some_lazily, quote_re]"

definition COMMAND_FLAG :: regex where
  "COMMAND_FLAG = rseq [rlit ''--command'', rplus rspace, quote_re, some_lazily, quote_re]"

definition ARGS_BRACE_OPEN :: regex where
  "ARGS_BRACE_OPEN = rseq [rlit ''args'', spaces, assigns, spaces, rlit ''{'']"

definition LEADING_FLAG :: regex where
  "LEADING_FLAG = rseq [RBegin, rlit ''-'', ropt (rlit ''-''), ident, rplus rspace]"

definition quotes :: string where "quotes = [CHR 0x27, CHR 0x22]"

text \<open>What stands between the opening brace of the arguments and the last brace.\<close>

definition braced_args :: "string \<Rightarrow> string option" where
  "braced_args raw =
     (case (search_from ARGS_BRACE_OPEN [] raw, rfind_char CHR ''}'' raw 0 (length raw)) of
        (Some (a, b), Some close) \<Rightarrow>
          (let from = length raw - length (unread b)
           in if from \<le> close then Some (strip_chars quotes (re_sub LEADING_FLAG (\<lambda>_. []) (strip (take (close - from) (unread b)))))
              else None)
      | _ \<Rightarrow> None)"

definition LEADING_SEPARATOR :: regex where
  "LEADING_SEPARATOR = rseq [RBegin, RSet (one_of '',;''), spaces]"

definition after_declaration :: "pos \<Rightarrow> string" where
  "after_declaration q =
     strip_chars (''{} '' @ [CHR 0x09] @ newline @ quotes) (re_sub LEADING_SEPARATOR (\<lambda>_. []) (strip (unread q)))"

definition parse_tool_call_block :: "string \<Rightarrow> block option" where
  "parse_tool_call_block raw =
     (case search_from TOOL_DECL [] raw of
        None \<Rightarrow> None
      | Some (p, q) \<Rightarrow>
          (case known_tool (lower (captured q)) of
             None \<Rightarrow> None
           | Some mapped \<Rightarrow>
               (let content = first_content ([search_group COMMAND_FLAG, search_group (keyed ''command''), braced_args] @
                      map (\<lambda>key. search_group (keyed key)) [''query'', ''path'', ''code'', ''content'', ''text'', ''file''] @
                      [\<lambda>_. Some (after_declaration q)]) raw
                in if content = [] then None else Some (mapped, PStr (strip content)))))"

definition parse_xml_invoke :: "parse_env \<Rightarrow> string \<times> string \<Rightarrow> block option result" where
  "parse_xml_invoke env nb =
     (let params = foldl (\<lambda>d (n, v). dset n (PStr (strip v)) d) [] (iter_named_blocks XML_PARAM_OPEN XML_PARAM_CLOSE (snd nb))
      in to_block env (lower (fst nb)) (dumps_default (PDict params)))"

text \<open>The arguments of a tool that got a body: an object, or the body as its main argument.\<close>

definition body_params :: "parse_env \<Rightarrow> string \<Rightarrow> string \<Rightarrow> pyval dict" where
  "body_params env mapped body =
     (case je_loads env body of
        Some v \<Rightarrow> as_mapping v
      | None \<Rightarrow>
          [(if mapped = ''web_search'' then ''query'' else if mapped = ''web_fetch'' then ''url'' else if mapped = ''bash'' then ''command''
            else if mapped = ''python'' then ''code'' else if mapped \<in> set [''read_file'', ''write_file''] then ''path'' else ''content'', PStr body)])"

definition with_body :: "parse_env \<Rightarrow> string \<Rightarrow> string \<Rightarrow> block option result" where
  "with_body env tool_name body =
     (case known_tool tool_name of
        None \<Rightarrow> Inr None
      | Some mapped \<Rightarrow>
          (let body = strip body
           in if body = [] then Inr None else to_block env mapped (dumps_default (PDict (body_params env mapped body)))))"

definition dashes :: "string \<Rightarrow> string" where "dashes s = replace_char CHR ''-'' CHR ''_'' s"

definition parse_xml_direct_tool :: "parse_env \<Rightarrow> string \<times> string \<Rightarrow> block option result" where
  "parse_xml_direct_tool env nb =
     (let tool_name = dashes (lower (fst nb))
      in if tool_name \<in> set [''invoke'', ''parameter'', ''tool_call'', ''function_call''] then Inr None else with_body env tool_name (snd nb))"

definition parse_stepfun_tool_call :: "parse_env \<Rightarrow> string \<times> string \<Rightarrow> block option result" where
  "parse_stepfun_tool_call env nb = with_body env (replace_char CHR ''.'' CHR ''_'' (dashes (lower (fst nb)))) (snd nb)"

definition TOOL_CODE_DECL :: regex where
  "TOOL_CODE_DECL = rseq [rlit ''tool'', spaces, rlit ''=>'', spaces, quote_re,
     RGroup (RSeq (RSet (\<lambda>c. \<not> is_space c)) (RLazy (RSet (\<lambda>c. \<not> is_space c)))), quote_re]"

definition TOOL_CODE_ARGS :: regex where
  "TOOL_CODE_ARGS = rseq [rlit ''args'', spaces, rlit ''=>'', spaces, ropt quote_re, spaces, RGroup (RLazy rany), spaces, ropt quote_re, spaces, REnd]"

definition TOOL_CODE_PARAM_OPEN :: regex where "TOOL_CODE_PARAM_OPEN = rseq [rlit ''<'', RGroup ident, rlit ''>'']"
definition TOOL_CODE_PARAM_CLOSE_ANY :: regex where "TOOL_CODE_PARAM_CLOSE_ANY = rseq [rlit ''</'', RGroup ident, rlit ''>'']"

definition drop_prefix :: "string \<Rightarrow> string" where
  "drop_prefix name =
     (case find (\<lambda>p. starts_with p name) [''mcp__'', ''cli_mcp_server_'', ''desktop_commander_'', ''mcp_code_executor_''] of
        None \<Rightarrow> name | Some p \<Rightarrow> drop (length p) name)"

definition param_lines :: "string dict \<Rightarrow> string" where
  "param_lines d = join newline (map (\<lambda>(k, v). k @ '': '' @ v) d)"

definition dget_or :: "'a dict \<Rightarrow> string \<Rightarrow> 'a \<Rightarrow> 'a" where
  "dget_or d k v = (case dget d k of None \<Rightarrow> v | Some w \<Rightarrow> w)"

definition tool_code_text :: "string \<Rightarrow> string dict \<Rightarrow> string \<Rightarrow> string" where
  "tool_code_text mapped params args_body =
     (if mapped = ''bash'' then dget_or params ''command'' args_body
      else if mapped = ''python'' then dget_or params ''code'' args_body
      else if mapped = ''web_search'' then dget_or params ''query'' args_body
      else if mapped = ''web_fetch'' then dget_or params ''url'' args_body
      else if mapped \<in> set [''read_file'', ''write_file''] then dget_or params ''path'' (dget_or params ''file_path'' args_body)
      else if params \<noteq> [] then param_lines params else args_body)"

text \<open>A name that stands for no tool is tried as that of an MCP tool.\<close>

definition freeform_tool_code :: "string \<Rightarrow> string dict \<Rightarrow> string \<Rightarrow> block option" where
  "freeform_tool_code tool_name params args_body =
     (case dget TOOL_NAME_MAP tool_name of
        Some mapped \<Rightarrow>
          (let content = tool_code_text mapped params args_body
           in if content = [] then None else Some (mapped, PStr (strip content)))
      | None \<Rightarrow>
          if tool_name = [] \<or> args_body = [] then None
          else Some (tool_name, PStr (strip (if params \<noteq> [] then param_lines params else args_body))))"

definition parse_tool_code_block :: "parse_env \<Rightarrow> string \<Rightarrow> block option result" where
  "parse_tool_code_block env raw =
     (case search_group TOOL_CODE_DECL raw of
        None \<Rightarrow> Inr None
      | Some g \<Rightarrow>
          (let tool_name = drop_prefix (dashes (lower g));
               args_body = (case search_group TOOL_CODE_ARGS raw of None \<Rightarrow> [] | Some a \<Rightarrow> strip_chars quotes (strip a));
               params = foldl (\<lambda>d (n, v). dset n (strip v) d) [] (iter_backref_blocks TOOL_CODE_PARAM_OPEN TOOL_CODE_PARAM_CLOSE_ANY False args_body)
           in rbind (if params = [] then Inr None
                     else to_block env (tool_type_of tool_name) (dumps_default (PDict (map (\<lambda>(k, v). (k, PStr v)) params))))
                (\<lambda>b. Inr (case b of Some _ \<Rightarrow> b | None \<Rightarrow> freeform_tool_code tool_name params args_body))))"

definition GEMMA_WRAP :: regex where "GEMMA_WRAP = rseq [rlit ''<'', ropt (rlit ''|''), rlit ''tool_call'', ropt (rlit ''|''), rlit ''>'']"

definition GEMMA_TOOL_CALL :: "nat \<Rightarrow> regex" where
  "GEMMA_TOOL_CALL k = ignore_case (rseq [GEMMA_WRAP, spaces, rlit ''call:'', grouped (k = 1) (rplus (RSet (\<lambda>c. is_word c \<or> c = CHR ''-''))), spaces,
     grouped (k = 2) (rseq [rlit ''{'', RLazy rany, rlit ''}'']), spaces, GEMMA_WRAP])"

text \<open>\<open>([{,]\s*)(\w+)\s*:\<close>: keys without quotes get them. The two groups stand next to each other.\<close>

definition UNQUOTED_KEY :: "nat \<Rightarrow> regex" where
  "UNQUOTED_KEY k = rseq [grouped (k = 1) (RSeq (RSet (one_of ''{,'')) spaces), grouped (k = 2) ident, spaces, rlit '':'']"

fun substitute_matches :: "pos \<Rightarrow> ((pos \<times> pos) \<times> string) list \<Rightarrow> string" where
  "substitute_matches p [] = unread p"
| "substitute_matches p (((a, b), t) # others) = between p a @ t @ substitute_matches b others"

definition quote_keys :: "string \<Rightarrow> string" where
  "quote_keys s =
     substitute_matches ([], s, None)
       (map (\<lambda>((a, b), (_, b')). ((a, b), captured b @ [CHR 0x22] @ captured b' @ [CHR 0x22] @ '':''))
         (zip (re_finditer (UNQUOTED_KEY 1) s) (re_finditer (UNQUOTED_KEY 2) s)))"

definition LOOSE_PAIR :: "nat \<Rightarrow> regex" where
  "LOOSE_PAIR k = rseq [grouped (k = 1) ident, spaces, rlit '':'', spaces, ropt quote_re, grouped (k = 2) (RLazy rdot), ropt quote_re,
     RLook (RAlt (rseq [spaces, rlit '','', spaces, ident, spaces, rlit '':'']) (RSeq spaces (rlit ''}'')))]"

definition loose_params :: "string \<Rightarrow> pyval dict" where
  "loose_params body =
     foldl (\<lambda>d ((_, b), (_, b')). dset (captured b) (PStr (strip (captured b'))) d) []
       (zip (re_finditer (LOOSE_PAIR 1) body) (re_finditer (LOOSE_PAIR 2) body))"

definition gemma_quotes :: "string \<Rightarrow> string" where
  "gemma_quotes s =
     (let q = [CHR 0x22] in replace_all (q @ ''|>'') q (replace_all (''<|'' @ q) q (replace_all (''<|'' @ q @ ''|>'') q s)))"

definition parse_gemma_tool_call :: "parse_env \<Rightarrow> string \<times> string \<Rightarrow> block option result" where
  "parse_gemma_tool_call env nb =
     (let body = strip (snd nb)
      in if body = [] then Inr None
         else let body = gemma_quotes body;
                  params = (case je_loads env body of
                      Some v \<Rightarrow> as_mapping v
                    | None \<Rightarrow> (case je_loads env (quote_keys body) of Some v \<Rightarrow> as_mapping v | None \<Rightarrow> loose_params body))
           in to_block env (dashes (lower (strip (fst nb)))) (dumps_default (PDict params)))"

definition FUNCTION_MODEL_NAME :: regex where
  "FUNCTION_MODEL_NAME = ignore_case (rseq [rlit ''<function_call>'', spaces, tag_name, spaces, rlit ''</function_call>''])"

definition parse_function_model_call :: "parse_env \<Rightarrow> string \<Rightarrow> block option result" where
  "parse_function_model_call env body =
     (case search_group FUNCTION_MODEL_NAME body of
        None \<Rightarrow> Inr None
      | Some g \<Rightarrow>
          (let params = (case delimited_bodies FUNCTION_MODEL_PARAMS_OPEN FUNCTION_MODEL_PARAMS_CLOSE body of
               [] \<Rightarrow> ''{}'' | b # _ \<Rightarrow> if strip b = [] then ''{}'' else strip b)
           in to_block env (dashes (lower (strip g))) params))"

section \<open>JSON in prose\<close>

fun first_of :: "('a \<Rightarrow> 'b option) \<Rightarrow> 'a list \<Rightarrow> 'b option" where
  "first_of f [] = None"
| "first_of f (x # xs) = (case f x of Some y \<Rightarrow> Some y | None \<Rightarrow> first_of f xs)"

definition stripped_string :: "pyval \<Rightarrow> string option" where
  "stripped_string v = (case v of PStr s \<Rightarrow> if strip s = [] then None else Some (strip s) | _ \<Rightarrow> None)"

definition coerce_raw_web_query :: "pyval \<Rightarrow> string option" where
  "coerce_raw_web_query v = (case v of PList xs \<Rightarrow> first_of stripped_string xs | _ \<Rightarrow> stripped_string v)"

definition few_pages :: "pyval \<Rightarrow> bool" where
  "few_pages v = (case v of PInt i \<Rightarrow> 1 \<le> i \<and> i \<le> 10 | PBool b \<Rightarrow> b | _ \<Rightarrow> False)"

definition time_word :: "pyval \<Rightarrow> string option" where
  "time_word v = (case v of PStr s \<Rightarrow> let w = lower (strip s) in if w \<in> set [''day'', ''week'', ''month'', ''year''] then Some w else None | _ \<Rightarrow> None)"

definition raw_web_json_to_tool_block :: "pyval \<Rightarrow> block option" where
  "raw_web_json_to_tool_block payload =
     (case payload of
        PDict d \<Rightarrow>
          if \<not> list_all (\<lambda>k. k \<in> set [''query'', ''queries'', ''time_filter'', ''freshness'', ''max_pages'']) (dkeys d) then None
          else (case (case coerce_raw_web_query (pget d ''query'') of Some q \<Rightarrow> Some q | None \<Rightarrow> coerce_raw_web_query (pget d ''queries'')) of
                  None \<Rightarrow> None
                | Some query \<Rightarrow>
                    (let content = (''query'', PStr query) #
                           concat (map (\<lambda>k. case time_word (pget d k) of None \<Rightarrow> [] | Some w \<Rightarrow> [(k, PStr w)]) [''time_filter'', ''freshness'']) @
                           (if few_pages (pget d ''max_pages'') then [(''max_pages'', pget d ''max_pages'')] else [])
                     in Some (''web_search'', PStr (if length content = 1 then query else dumps_default (PDict content)))))
      | _ \<Rightarrow> None)"

definition RAW_WEB_JSON_TOOL :: regex where
  "RAW_WEB_JSON_TOOL = ignore_case (rseq [RWordB,
     rwords [''web_search'', ''websearch'', ''google_search'', ''google_search_retrieval'', ''google_search_grounding''], RWordB])"

text \<open>The block and the span of the JSON.\<close>

definition parse_raw_web_json_lookup :: "parse_env \<Rightarrow> string \<Rightarrow> (block \<times> nat \<times> nat) option" where
  "parse_raw_web_json_lookup env s =
     first_of (\<lambda>(p, q).
       first_of (\<lambda>i.
         if unread q ! i \<noteq> CHR ''{'' then None
         else case pe_raw_decode env (drop i (unread q)) of
           None \<Rightarrow> None
         | Some (v, n) \<Rightarrow>
             (case raw_web_json_to_tool_block v of
                None \<Rightarrow> None
              | Some b \<Rightarrow> let start = length s - length (unread q) + i in Some (b, start, start + n)))
         [0..<min 1200 (length (unread q))])
       (re_finditer RAW_WEB_JSON_TOOL s)"

primrec looks_like_openai_tool_call_blob :: "pyval \<Rightarrow> bool" where
  "looks_like_openai_tool_call_blob PNone = False"
| "looks_like_openai_tool_call_blob (PBool b) = False"
| "looks_like_openai_tool_call_blob (PInt i) = False"
| "looks_like_openai_tool_call_blob (PFloat s) = False"
| "looks_like_openai_tool_call_blob (PStr s) = False"
| "looks_like_openai_tool_call_blob (PList xs) = (xs \<noteq> [] \<and> list_all id (map looks_like_openai_tool_call_blob xs))"
| "looks_like_openai_tool_call_blob (PTuple xs) = False"
| "looks_like_openai_tool_call_blob (PDict d) =
     (case pget d ''function'' of PDict f \<Rightarrow> (case pget f ''name'' of PStr _ \<Rightarrow> True | _ \<Rightarrow> False) | _ \<Rightarrow> False)"

definition leaked_web_search :: "pyval dict \<Rightarrow> pyval" where
  "leaked_web_search args =
     (let content = pget_or args ''query'' empty; queries = pget args ''queries'';
          content = (if truthy content then content
             else case queries of PList (q # _) \<Rightarrow> PStr (py_str q) | _ \<Rightarrow> if truthy queries then PStr (py_str queries) else content)
      in case pget args ''time_filter'' of
           PStr tf \<Rightarrow> if truthy content \<and> tf \<in> set [''day'', ''week'', ''month'', ''year'']
                       then PStr (dumps_default (PDict [(''query'', content), (''time_filter'', PStr tf)])) else content
         | _ \<Rightarrow> content)"

text \<open>The members of a value that is iterated over, of which only objects count.\<close>

definition iterated_dicts :: "pyval \<Rightarrow> pyval dict list result" where
  "iterated_dicts v =
     (case (if truthy v then v else PList []) of
        PList xs \<Rightarrow> Inr (map as_mapping (filter is_mapping xs))
      | PTuple xs \<Rightarrow> Inr (map as_mapping (filter is_mapping xs))
      | PStr _ \<Rightarrow> Inr [] | PDict _ \<Rightarrow> Inr []
      | _ \<Rightarrow> Inl (TypeError ''not iterable''))"

definition leaked_session :: "pyval dict \<Rightarrow> pyval result" where
  "leaked_session args =
     (let action = pget_or args ''action'' empty
      in if action = PStr ''list'' then
           (let keyword = py_or (pget_or args ''keyword'' empty) (pget_or args ''value'' empty)
            in if \<not> truthy keyword then Inr (PStr ''list'')
               else case keyword of
                 PStr k \<Rightarrow> Inr (PStr (if lower k \<noteq> ''current'' then ''list'' @ newline @ k else ''list''))
               | _ \<Rightarrow> Inl (AttributeError ''lower''))
         else rbind (two_lines action (pget_or args ''session_id'' (PStr ''current''))) (\<lambda>c.
                rbind (as_text c) (\<lambda>s. rbind (with_line s (pget args ''value'')) (\<lambda>t. Inr (PStr t)))))"

definition leaked_memory :: "pyval dict \<Rightarrow> pyval" where
  "leaked_memory args =
     (let action = pget_or args ''action'' empty; line = (\<lambda>k. newline @ field args k);
          category = (if truthy (pget args ''category'') then newline @ py_str (pget args ''category'') else [])
      in if action = PStr ''add'' then PStr (''add'' @ line ''text'' @ category)
         else if action = PStr ''edit'' then PStr (''edit'' @ line ''memory_id'' @ line ''text'')
         else if action = PStr ''delete'' then PStr (''delete'' @ line ''memory_id'')
         else if action = PStr ''search'' then PStr (''search'' @ line ''text'')
         else if action = PStr ''list'' then PStr (''list'' @ category)
         else action)"

definition leaked_ui_control :: "pyval dict \<Rightarrow> pyval" where
  "leaked_ui_control args =
     (let action = pget_or args ''action'' empty; name = pget_or args ''name'' empty; val = pget_or args ''value'' empty
      in if action = PStr ''open_panel'' then PStr (''open_panel '' @ py_str (py_or name val))
         else if action = PStr ''toggle'' then PStr (''toggle '' @ py_str name @ '' '' @ py_str val)
         else action)"

definition leaked_content :: "string \<Rightarrow> pyval dict \<Rightarrow> pyval result" where
  "leaked_content tool_type args =
     (if tool_type \<in> set [''bash'', ''python'', ''read_file'', ''write_file'', ''create_document'', ''update_document'', ''search_chats'',
          ''chat_with_model'', ''create_session'', ''list_sessions'', ''send_to_session'', ''pipeline'', ''get_workspace'', ''list_models'']
      then block_content tool_type args
      else if tool_type = ''web_search'' then Inr (leaked_web_search args)
      else if tool_type = ''web_fetch'' then Inr (py_or (py_or (pget args ''url'') (pget args ''domain'')) empty)
      else if tool_type \<in> set [''grep'', ''glob'', ''ls'', ''edit_file''] then Inr (PStr (json_or_empty args))
      else if tool_type = ''edit_document'' then
        rbind (iterated_dicts (pget_or args ''edits'' (PList []))) (\<lambda>ds.
          Inr (PStr (join newline (map (\<lambda>d. edit_block (field d ''find'') (field d ''replace'')) ds))))
      else if tool_type = ''suggest_document'' then
        rbind (iterated_dicts (pget_or args ''suggestions'' (PList []))) (\<lambda>ds.
          Inr (PStr (join newline (map (\<lambda>d. suggest_block (field d ''find'') (field d ''replace'') (field d ''reason'')) ds))))
      else if tool_type = ''manage_session'' then leaked_session args
      else if tool_type = ''manage_memory'' then Inr (leaked_memory args)
      else if tool_type = ''ui_control'' then Inr (leaked_ui_control args)
      else if tool_type \<in> set [''manage_tasks'', ''manage_skills'', ''api_call'', ''manage_endpoints'', ''manage_mcp'', ''manage_webhooks'',
          ''manage_tokens'', ''manage_documents'', ''manage_settings'', ''manage_notes'', ''manage_research'', ''manage_bg_jobs'', ''manage_extensions'']
      then Inr (PStr (dumps_default (PDict args)))
      else Inr (PStr (if args = [] then [] else dumps_default (PDict args))))"

definition leaked_arguments :: "parse_env \<Rightarrow> pyval \<Rightarrow> pyval dict" where
  "leaked_arguments env raw_args =
     (let args = (case raw_args of PStr s \<Rightarrow> (case je_loads env s of None \<Rightarrow> [] | Some v \<Rightarrow> as_mapping v) | v \<Rightarrow> as_mapping v)
      in if dget args ''text'' = None \<and> dget args ''tex'' \<noteq> None then dset ''text'' (pget args ''tex'') args else args)"

definition leaked_call :: "parse_env \<Rightarrow> pyval dict \<Rightarrow> block option result" where
  "leaked_call env d =
     (case pget d ''function'' of
        PDict f \<Rightarrow>
          (let name = strip (str_or (pget f ''name'')); tool_type = tool_type_of name;
               args = leaked_arguments env (py_or (pget f ''arguments'') (PDict []))
           in if name = [] then Inr None
              else if starts_with ''mcp__'' tool_type then Inr (Some (tool_type, PStr (json_or_empty args)))
              else if name \<in> set BUILTIN_EMAIL_TOOLS then Inr (Some (email_prefix @ name, PStr (json_or_empty args)))
              else if tool_type \<notin> set TOOL_TAGS then Inr None
              else rbind (leaked_content tool_type args) (\<lambda>c. Inr (Some (tool_type, PStr (str_or c)))))
      | _ \<Rightarrow> Inr None)"

fun first_block :: "block option result list \<Rightarrow> block option result" where
  "first_block [] = Inr None"
| "first_block (r # rs) = rbind r (\<lambda>b. case b of Some _ \<Rightarrow> Inr b | None \<Rightarrow> first_block rs)"

primrec raw_openai_tool_call_to_block :: "parse_env \<Rightarrow> pyval \<Rightarrow> block option result" where
  "raw_openai_tool_call_to_block env PNone = Inr None"
| "raw_openai_tool_call_to_block env (PBool b) = Inr None"
| "raw_openai_tool_call_to_block env (PInt i) = Inr None"
| "raw_openai_tool_call_to_block env (PFloat s) = Inr None"
| "raw_openai_tool_call_to_block env (PStr s) = Inr None"
| "raw_openai_tool_call_to_block env (PList xs) = first_block (map (raw_openai_tool_call_to_block env) xs)"
| "raw_openai_tool_call_to_block env (PTuple xs) = Inr None"
| "raw_openai_tool_call_to_block env (PDict d) = leaked_call env d"

definition function_key :: string where "function_key = [CHR 0x22] @ ''function'' @ [CHR 0x22]"

fun scan_openai :: "parse_env \<Rightarrow> string \<Rightarrow> block option result" where
  "scan_openai env [] = Inr None"
| "scan_openai env (c # s) =
     (if c \<in> set ''[{'' then
        (case pe_raw_decode env (c # s) of
           None \<Rightarrow> scan_openai env s
         | Some (v, n) \<Rightarrow> rbind (raw_openai_tool_call_to_block env v) (\<lambda>b. case b of Some _ \<Rightarrow> Inr b | None \<Rightarrow> scan_openai env s))
      else scan_openai env s)"

definition parse_raw_openai_tool_call_json :: "parse_env \<Rightarrow> string \<Rightarrow> block option result" where
  "parse_raw_openai_tool_call_json env s = (if contains function_key s then scan_openai env s else Inr None)"

definition json_space :: "char \<Rightarrow> bool" where "json_space = one_of ('' '' @ [CHR 0x09, CHR 0x0D, CHR 0x0A])"

function cut_openai :: "parse_env \<Rightarrow> string \<Rightarrow> string" where
  "cut_openai env [] = []"
| "cut_openai env (c # s) =
     (case (if c \<in> set ''[{'' then pe_raw_decode env (c # s) else None) of
        None \<Rightarrow> c # cut_openai env s
      | Some (v, n) \<Rightarrow>
          if \<not> looks_like_openai_tool_call_blob v then c # cut_openai env s
          else let r = dropWhile json_space (drop n (c # s));
                   r = (case r of d # u \<Rightarrow> if d = CHR '']'' then u else r | [] \<Rightarrow> [])
               in if length r \<le> length s then cut_openai env r else r)"
  by pat_completeness auto
termination by (relation "measure (\<lambda>(env, s). length s)") auto

declare cut_openai.simps [simp del]

definition strip_raw_openai_tool_call_json :: "parse_env \<Rightarrow> string \<Rightarrow> string" where
  "strip_raw_openai_tool_call_json env s = (if contains function_key s then cut_openai env s else s)"

section \<open>Every format in turn\<close>

text \<open>DSML markup in its ASCII form; the full-width bar is outside Latin-1.\<close>

definition dsml :: "regex list \<Rightarrow> regex" where
  "dsml r = ignore_case (rseq ([rlit ''<'', spaces] @ r))"

definition bars_dsml :: "regex list" where
  "bars_dsml = [rplus (RSet (\<lambda>c. c = CHR ''|'')), spaces, rlit ''DSML'', spaces, rplus (RSet (\<lambda>c. c = CHR ''|'')), spaces]"

definition quoted_name :: regex where
  "quoted_name = rseq [quote_re, rplus (RSet (\<lambda>c. \<not> quote_set c)), quote_re]"

definition normalize_dsml :: "string \<Rightarrow> string" where
  "normalize_dsml s =
     (if \<not> contains ''DSML'' s then s
      else let slash = [rlit ''/'', spaces];
               s = re_sub (dsml (bars_dsml @ [rlit ''tool_calls'', spaces, rlit ''>''])) (\<lambda>_. ''<tool_call>'') s;
               s = re_sub (dsml (slash @ bars_dsml @ [rlit ''tool_calls'', spaces, rlit ''>''])) (\<lambda>_. ''</tool_call>'') s;
               s = re_sub (dsml (bars_dsml @ [rlit ''invoke'', rplus rspace, rlit ''name=''])) (\<lambda>_. ''<invoke name='') s;
               s = re_sub (dsml (slash @ bars_dsml @ [rlit ''invoke'', spaces, rlit ''>''])) (\<lambda>_. ''</invoke>'') s;
               s = re_sub (dsml (bars_dsml @ [rlit ''parameter'', rplus rspace, rlit ''name='', RGroup quoted_name, rstar (RSet (\<lambda>c. c \<noteq> CHR ''>'')), rlit ''>'']))
                     (\<lambda>g. ''<parameter name='' @ g @ ''>'') s
           in re_sub (dsml (slash @ bars_dsml @ [rlit ''parameter'', spaces, rlit ''>''])) (\<lambda>_. ''</parameter>'') s)"

definition rsome :: "('a \<Rightarrow> block option result) \<Rightarrow> 'a list \<Rightarrow> block list result" where
  "rsome f xs = rbind (rmap f xs) (\<lambda>bs. Inr (concat (map (\<lambda>b. case b of None \<Rightarrow> [] | Some x \<Rightarrow> [x]) bs)))"

definition invokes_in :: "parse_env \<Rightarrow> string \<Rightarrow> block list result" where
  "invokes_in env s = rsome (parse_xml_invoke env) (iter_xml_invoke s)"

definition directs_in :: "parse_env \<Rightarrow> string \<Rightarrow> block list result" where
  "directs_in env s = rsome (parse_xml_direct_tool env) (iter_xml_direct s)"

definition fence_blocks :: "parse_env \<Rightarrow> (string \<times> string) option \<Rightarrow> block list result" where
  "fence_blocks env call =
     (case call of
        None \<Rightarrow> Inr []
      | Some (tag, content) \<Rightarrow>
          if content = [] then Inr (if tag \<in> set BUILTIN_EMAIL_TOOLS then [(tag, empty)] else [])
          else if contains ''<invoke'' content then invokes_in env content
          else if tag \<in> set [''python'', ''bash''] then
            rbind (case parse_misfenced_web_lookup env content of
                     Some b \<Rightarrow> Inr (Some b)
                   | None \<Rightarrow> parse_misfenced_read_file_lookup env (tag = ''bash'') content)
              (\<lambda>b. Inr (case b of Some b \<Rightarrow> [b] | None \<Rightarrow> [(tag, PStr content)]))
          else Inr [(tag, PStr content)])"

text \<open>Wrapped calls: the calls of each body, or its direct tags as long as none was found.\<close>

fun wrapped_blocks :: "parse_env \<Rightarrow> string list \<Rightarrow> block list \<Rightarrow> block list result" where
  "wrapped_blocks env [] found = Inr found"
| "wrapped_blocks env (body # bodies) found =
     rbind (invokes_in env body) (\<lambda>bs.
       let found = found @ bs
       in if found \<noteq> [] then wrapped_blocks env bodies found
          else rbind (directs_in env body) (wrapped_blocks env bodies))"

text \<open>A wrapper that is not closed.\<close>

fun open_blocks :: "parse_env \<Rightarrow> string list \<Rightarrow> block list \<Rightarrow> block list result" where
  "open_blocks env [] found = Inr found"
| "open_blocks env (body # bodies) found =
     rbind (invokes_in env body) (\<lambda>bs.
       if found @ bs \<noteq> [] then Inr (found @ bs)
       else rbind (directs_in env body) (open_blocks env bodies))"

definition PANELS :: regex where
  "PANELS = ralt [RSeq (rlit ''document'') (ropt (rlit ''s'')), rlit ''library'', rlit ''gallery'', RSeq (rlit ''image'') (ropt (rlit ''s'')),
     rlit ''email'', rlit ''inbox'', rlit ''mail'', RSeq (rlit ''session'') (ropt (rlit ''s'')), RSeq (rlit ''chat'') (ropt (rlit ''s'')),
     rlit ''history'', RSeq (rlit ''note'') (ropt (rlit ''s'')), rlit ''brain'', RSeq (rlit ''memor'') (rwords [''y'', ''ies'']),
     RSeq (rlit ''skill'') (ropt (rlit ''s'')), rlit ''settings'', rlit ''preferences'', rlit ''cookbook'', RSeq (rlit ''model'') (ropt (rlit ''s''))]"

definition ticks :: regex where "ticks = ropt (RRep 1 (Some 3) (rlit ''`''))"

definition PLAIN_UI_OPEN_PANEL :: regex where
  "PLAIN_UI_OPEN_PANEL = ignore_case (rseq [RLineBegin, spaces, ticks, spaces, rlit ''ui_control'', rplus rspace, rlit ''open_panel'', rplus rspace,
     RGroup PANELS, spaces, ticks, spaces, RAhead (\<lambda>c. c = CHR 0x0A) True])"

text \<open>Without a block so far, the next format is tried.\<close>

definition or_else :: "block list result \<Rightarrow> block list result \<Rightarrow> block list result" where
  "or_else r next_format = rbind r (\<lambda>found. if found \<noteq> [] then Inr found else next_format)"

definition markup_blocks :: "parse_env \<Rightarrow> string \<Rightarrow> block list result" where
  "markup_blocks env s =
     or_else (rsome (\<lambda>b. Inr (parse_tool_call_block b)) (delimited_bodies TOOL_CALL_OPEN TOOL_CALL_CLOSE s))
    (or_else (rsome (parse_stepfun_tool_call env) (iter_stepfun (pe_begin env) (pe_sep env) (pe_end env) s))
    (or_else (wrapped_blocks env (delimited_bodies XML_TOOL_CALL_OPEN XML_TOOL_CALL_CLOSE s) [])
    (or_else (open_blocks env (map (\<lambda>(p, q). captured q) (re_finditer XML_OPEN_TOOL_CALL s)) [])
    (or_else (invokes_in env s)
    (or_else (rsome (parse_tool_code_block env) (delimited_bodies TOOL_CODE_OPEN TOOL_CODE_CLOSE s))
    (or_else (rsome (parse_gemma_tool_call env)
               (zip (map (\<lambda>(p, q). captured q) (re_finditer (GEMMA_TOOL_CALL 1) s)) (map (\<lambda>(p, q). captured q) (re_finditer (GEMMA_TOOL_CALL 2) s))))
             (rsome (parse_function_model_call env) (delimited_bodies FUNCTION_MODEL_OPEN FUNCTION_MODEL_CLOSE s))))))))"

definition parse_tool_blocks :: "parse_env \<Rightarrow> string \<Rightarrow> bool \<Rightarrow> block list result" where
  "parse_tool_blocks env text0 skip_fenced =
     (let s = normalize_dsml text0
      in or_else (if skip_fenced then Inr []
                  else rbind (rmap (\<lambda>(span, call). fence_blocks env call) (fences (je_loads env) s)) (\<lambda>bs. Inr (concat bs)))
        (or_else (markup_blocks env s)
        (or_else (rsome (parse_raw_openai_tool_call_json env) [s])
        (or_else (Inr (if skip_fenced then [] else case parse_raw_web_json_lookup env s of None \<Rightarrow> [] | Some (b, _) \<Rightarrow> [b]))
                 (Inr (case search_group PLAIN_UI_OPEN_PANEL s of None \<Rightarrow> [] | Some g \<Rightarrow> [(''ui_control'', PStr (''open_panel '' @ lower g))]))))))"

section \<open>What is shown\<close>

definition QWEN_ROLE_MARKER :: regex where
  "QWEN_ROLE_MARKER = ignore_case (RAlt
     (rseq [rlit ''<'', ropt (rlit ''/''), rlit ''|'', rwords [''assistant'', ''assistan'', ''user'', ''system'', ''tool''], rlit ''|'', ropt (rlit ''>'')])
     (rseq [rlit ''</|end|'', ropt (rlit ''>'')]))"

definition gap_before :: regex where "gap_before = RAlt RBegin (RSet json_space)"
definition gap_after :: regex where "gap_after = RAhead json_space True"

definition QWEN_BARE_MARKER :: regex where
  "QWEN_BARE_MARKER = ignore_case (RAlt
     (rseq [gap_before, RAlt (rseq [ropt (rlit ''|''), rlit ''end'', ropt (rlit ''|'')]) (rseq [ropt (rlit ''/''), rlit ''|end|'']), gap_after])
     (rseq [gap_before, rlit ''assistan'', ropt (rlit ''t''), gap_after]))"

definition strip_tool_blocks :: "parse_env \<Rightarrow> string \<Rightarrow> bool \<Rightarrow> string" where
  "strip_tool_blocks env text0 skip_fenced =
     (let s = normalize_dsml text0;
          s = (if skip_fenced then s else strip_executed_fences (je_loads env) s);
          s = strip_delimited TOOL_CALL_OPEN TOOL_CALL_CLOSE s;
          s = strip_stepfun_tool_markup env s;
          s = strip_delimited XML_TOOL_CALL_OPEN XML_TOOL_CALL_CLOSE s;
          s = re_sub XML_OPEN_TOOL_CALL (\<lambda>_. []) s;
          s = strip_delimited TOOL_CODE_OPEN TOOL_CODE_CLOSE s;
          s = re_sub (GEMMA_TOOL_CALL 0) (\<lambda>_. []) s;
          s = strip_delimited FUNCTION_MODEL_OPEN FUNCTION_MODEL_CLOSE s;
          s = strip_raw_openai_tool_call_json env s;
          s = re_sub QWEN_ROLE_MARKER (\<lambda>_. []) s;
          s = re_sub QWEN_BARE_MARKER (\<lambda>_. '' '') s;
          s = (if skip_fenced then s
               else case parse_raw_web_json_lookup env s of None \<Rightarrow> s | Some (_, start, stop) \<Rightarrow> take start s @ drop stop s);
          s = re_sub PLAIN_UI_OPEN_PANEL (\<lambda>_. []) s;
          s = strip_bare_invoke_markup env s;
          s = re_sub (RRep 3 None (rlit newline)) (\<lambda>_. newline @ newline) s
      in strip s)"

section \<open>The forward scans\<close>

text \<open>The pairs of delimiters that are scanned forward.\<close>

definition CALL_MARKUP :: "(regex \<times> regex) list" where
  "CALL_MARKUP = [(TOOL_CALL_OPEN, TOOL_CALL_CLOSE), (XML_TOOL_CALL_OPEN, XML_TOOL_CALL_CLOSE), (TOOL_CODE_OPEN, TOOL_CODE_CLOSE),
     (FUNCTION_MODEL_OPEN, FUNCTION_MODEL_CLOSE), (FUNCTION_MODEL_PARAMS_OPEN, FUNCTION_MODEL_PARAMS_CLOSE)]"

lemma other_case:
  "lower_char x = CHR ''<'' \<longleftrightarrow> x = CHR ''<''" "upper_char x = CHR ''<'' \<longleftrightarrow> x = CHR ''<''"
  "lower_char x = CHR ''}'' \<longleftrightarrow> x = CHR ''}''" "upper_char x = CHR ''}'' \<longleftrightarrow> x = CHR ''}''"
proof -
  have fit: "code c < 256" "code (char_of n :: char) = n mod 256" for c n by (simp_all add: code_def)
  have eq: "a = b \<longleftrightarrow> code a = code b" for a b :: char by (simp add: code_def)
  have "code CHR ''<'' = 60" "code CHR ''}'' = 125" by (simp_all add: code_def)
  then show "lower_char x = CHR ''<'' \<longleftrightarrow> x = CHR ''<''" "upper_char x = CHR ''<'' \<longleftrightarrow> x = CHR ''<''"
    "lower_char x = CHR ''}'' \<longleftrightarrow> x = CHR ''}''" "upper_char x = CHR ''}'' \<longleftrightarrow> x = CHR ''}''"
    using fit(1) [of x] unfolding eq lower_char_def upper_char_def Let_def by (auto simp: fit(2))
qed

lemma never_ignore_case:
  "c = CHR ''<'' \<or> c = CHR ''}'' \<Longrightarrow> never c r \<Longrightarrow> never c (ignore_case r)"
  by (induction r) (auto simp: lower_char_def upper_char_def code_def)

lemma never_lit: "c \<notin> set w \<Longrightarrow> never c (rlit w)"
proof (induction w)
  case (Cons d w)
  then show ?case by (cases w) (simp_all add: rlit_def)
qed (simp add: rlit_def)

lemma never_words: "list_all (\<lambda>w. c \<notin> set w) ws \<Longrightarrow> never c (rwords ws)"
proof (induction ws)
  case (Cons w ws)
  then show ?case by (cases ws) (simp_all add: rwords_def never_lit)
qed (simp add: rwords_def)

lemma delimits_marked:
  assumes "never x r" "x = CHR ''<'' \<or> x = CHR ''}''"
  shows "delimits (ignore_case (RSeq (RSet P) r)) (ignore_case (RSeq (RSet (\<lambda>c. c = x)) t))"
proof -
  have "never x (ignore_case r)" using assms never_ignore_case by blast
  moreover have "matches (ignore_case (RSeq (RSet (\<lambda>c. c = x)) t)) (l, d # u, None) = []" if "d \<noteq> x" for l d u
    unfolding ignore_case.simps by (rule starts_with_set) (use assms(2) that in \<open>auto simp: other_case\<close>)
  ultimately show ?thesis unfolding ignore_case.simps(3) [of "RSet P"] ignore_case.simps(2) [of P] by (rule delimitsI)
qed

lemma call_markup_delimits: "list_all (\<lambda>(op, cl). delimits op cl) CALL_MARKUP"
proof -
  have sets: "\<not> is_space CHR ''<''" "\<not> is_space CHR ''}''" "\<not> is_word CHR ''<''" "\<not> is_word CHR ''}''" by code_simp+
  show ?thesis
    unfolding CALL_MARKUP_def list.pred_inject prod.case TOOL_CALL_OPEN_def TOOL_CALL_CLOSE_def XML_TOOL_CALL_OPEN_def XML_TOOL_CALL_CLOSE_def
      TOOL_CODE_OPEN_def TOOL_CODE_CLOSE_def FUNCTION_MODEL_OPEN_def FUNCTION_MODEL_CLOSE_def FUNCTION_MODEL_PARAMS_OPEN_def
      FUNCTION_MODEL_PARAMS_CLOSE_def lt_def
    by (intro conjI TrueI delimits_marked)
      (simp_all add: never_lit never_words namespace_def call_names_def rstar_def rplus_def ropt_def rspace_def sets)
qed

lemma forward_scan_finds_lazy:
  "(op, cl) \<in> set CALL_MARKUP \<Longrightarrow>
     map (\<lambda>(p, q). (p, fst q, unread q)) (re_finditer (lazily op cl) s) = map (\<lambda>(a, b, c, d). (a, fst d, unread d)) (iter_delimited op cl [] s)"
  unfolding re_finditer_def by (rule iter_delimited_spans) (use call_markup_delimits in \<open>auto simp: list_all_iff\<close>)

text \<open>
  Claim C32. Scanning forward for the delimiters of a call changes nothing but the time it takes. For each
  of the five pairs of delimiters, taking every opener to the first closer after it and stopping at the first
  opener that has none removes from every text exactly what substituting the lazy pattern
  \<open>opener.*?closer\<close> removes, and finds the same spans as iterating over its matches, also where the
  closer is missing or stands before the openers. What makes it so is that no opener can run over the
  first character of its closer; nothing depends on which characters the other classes hold.
\<close>

theorem forward_scan_is_lazy:
  "map (\<lambda>(op, cl). strip_delimited op cl s) CALL_MARKUP = map (\<lambda>(op, cl). re_sub (lazily op cl) (\<lambda>_. []) s) CALL_MARKUP \<and>
   map (\<lambda>(op, cl). map (\<lambda>(a, b, c, d). (a, fst d, unread d)) (iter_delimited op cl [] s)) CALL_MARKUP =
     map (\<lambda>(op, cl). map (\<lambda>(p, q). (p, fst q, unread q)) (re_finditer (lazily op cl) s)) CALL_MARKUP"
  using call_markup_delimits forward_scan_finds_lazy by (auto simp: list_all_iff intro!: strip_delimited_is_sub)

end
