(* ===== verification/ParsedBlocks.thy ===== *)
theory ParsedBlocks
  imports ToolParsing
begin

text \<open>
  What the parser of ToolParsing yields: the fenced code of a reply is inert where fences are skipped,
  every block is for a tool that exists, an MCP tool, or the name of a \<open>tool_code\<close> block that is in no
  table; and the places where the parser does not do what it says.
\<close>

section \<open>Texts without markup\<close>

lemma avoids_search: "avoids s r \<Longrightarrow> search_from r [] s = None"
  using avoids_absent [of s r s] by (cases "search_from r [] s") (simp_all add: re_search_def)

lemma avoids_lt: "CHR ''<'' \<notin> set s \<Longrightarrow> avoids s (ignore_case (rlit (CHR ''<'' # w)))" "CHR ''<'' \<notin> set s \<Longrightarrow> avoids s (ignore_case lt)"
  by (cases w; force simp: rlit_def lt_def list_all_iff other_case)+

lemma lt_markup_absent:
  assumes "CHR ''<'' \<notin> set s"
  shows "search_from XML_TOOL_CALL_OPEN [] s = None" "search_from TOOL_CODE_OPEN [] s = None" "search_from FUNCTION_MODEL_OPEN [] s = None"
    "search_from XML_OPEN_TOOL_CALL [] s = None" "search_from XML_INVOKE_OPEN [] s = None" "search_from (GEMMA_TOOL_CALL k) [] s = None"
  by (rule avoids_search, simp add: XML_TOOL_CALL_OPEN_def TOOL_CODE_OPEN_def FUNCTION_MODEL_OPEN_def XML_OPEN_TOOL_CALL_def
      XML_INVOKE_OPEN_def named_open_def GEMMA_TOOL_CALL_def GEMMA_WRAP_def avoids_lt assms)+

lemma normalize_absent:
  assumes "CHR ''<'' \<notin> set s"
  shows "normalize_dsml s = s"
proof -
  have "re_sub (dsml r) f s = s" for r f
    by (intro re_sub_absent avoids_absent [of s]) (cases r; simp add: dsml_def avoids_lt assms)+
  then show ?thesis by (simp add: normalize_dsml_def Let_def)
qed

text \<open>A match of a literal without regard to case.\<close>

lemma lower_upper: "lower_char (upper_char x) = lower_char x"
proof -
  have fit: "code c < 256" "code (char_of n :: char) = n mod 256" for c n by (simp_all add: code_def)
  show ?thesis using fit(1) [of x] by (auto simp: lower_char_def upper_char_def Let_def fit(2) code_def)
qed

lemma folded_lit: "q \<in> set (matches (ignore_case (rlit w)) (l, s, g)) \<Longrightarrow> \<exists>m. s = m @ unread q \<and> lower m = lower w"
proof (induction w arbitrary: l s)
  case Nil
  then show ?case by (auto simp: rlit_def lower_def)
next
  case (Cons c w)
  have eps: "matches REps = (\<lambda>p. [p])" by (rule ext) simp
  have "matches (ignore_case (rlit (c # w))) p = concat (map (matches (ignore_case (rlit w))) (matches (RSet (\<lambda>x. x = c \<or> lower_char x = c \<or> upper_char x = c)) p))" for p
    by (cases w) (simp_all add: rlit_def eps)
  with Cons.prems obtain x t where s: "s = x # t" "x = c \<or> lower_char x = c \<or> upper_char x = c" and m: "q \<in> set (matches (ignore_case (rlit w)) (x # l, t, g))"
    by (cases s) (auto split: if_splits)
  from s(2) have "lower_char x = lower_char c" using lower_upper [of x] by auto
  moreover obtain m where "t = m @ unread q" "lower m = lower w" using Cons.IH [OF m] by blast
  ultimately show ?case using s(1) by (intro exI [of _ "x # m"]) (simp add: lower_def)
qed

text \<open>A pattern all of whose matches lie on a text that has the literal.\<close>

definition requires :: "string \<Rightarrow> regex \<Rightarrow> bool" where
  "requires w r \<longleftrightarrow> (\<forall>p. matches r p \<noteq> [] \<longrightarrow> contains w (lower (unread p)))"

lemma contains_front: "starts_with w s \<Longrightarrow> contains w s"
  by (cases s) (auto simp: starts_with_def)

lemma contains_later: "contains w s \<Longrightarrow> contains w (t @ s)"
  by (induction t) auto

lemma requires_lit: "requires (lower w) (RSeq (ignore_case (rlit w)) r)"
  unfolding requires_def
proof (intro allI impI)
  fix p assume m: "matches (RSeq (ignore_case (rlit w)) r) p \<noteq> []"
  obtain l s g where p: "p = (l, s, g)" by (cases p)
  from m have "matches (ignore_case (rlit w)) p \<noteq> []" by auto
  then obtain q where "q \<in> set (matches (ignore_case (rlit w)) p)" by (cases "matches (ignore_case (rlit w)) p") auto
  with folded_lit [of q w l s g] p obtain m where "s = m @ unread q" "lower m = lower w" by blast
  then have "starts_with (lower w) (lower s)" by (simp add: starts_with_def lower_def)
  then show "contains (lower w) (lower (unread p))" by (simp add: p contains_front)
qed

lemma requires_seq: "requires w b \<Longrightarrow> requires w (RSeq a b)"
  unfolding requires_def
proof (intro allI impI)
  fix p assume b: "\<forall>p. matches b p \<noteq> [] \<longrightarrow> contains w (lower (unread p))" and "matches (RSeq a b) p \<noteq> []"
  then obtain q where "q \<in> set (matches a p)" "matches b q \<noteq> []" by auto
  with b matches_advances [of q a p] obtain m where "unread p = m @ unread q" "contains w (lower (unread q))" by (auto simp: advances_def)
  then show "contains w (lower (unread p))" by (simp add: lower_def contains_later)
qed

lemma requires_search: "requires w r \<Longrightarrow> \<not> contains w (lower s) \<Longrightarrow> search_from r [] s = None"
  unfolding search_from_None_iff
proof (intro allI impI)
  fix a b assume r: "requires w r" "\<not> contains w (lower s)" "s = a @ b"
  then have "\<not> contains w (lower b)" using contains_later [of w "lower b" "lower a"] by (auto simp: lower_def)
  with r(1) show "matches r (rev a @ [], b, None) = []" by (fastforce simp: requires_def)
qed

lemma panel_absent: "\<not> contains ''ui_control'' (lower s) \<Longrightarrow> search_from PLAIN_UI_OPEN_PANEL [] s = None"
proof (rule requires_search)
  have "lower ''ui_control'' = ''ui_control''" by code_simp
  then have lit: "requires ''ui_control'' (RSeq (ignore_case (rlit ''ui_control'')) r)" for r
    using requires_lit [of "''ui_control''" r] by (simp only:)
  show "requires ''ui_control'' PLAIN_UI_OPEN_PANEL"
    unfolding PLAIN_UI_OPEN_PANEL_def rseq.simps ignore_case.simps by (rule requires_seq, rule requires_seq, rule requires_seq, rule requires_seq, rule lit)
qed

lemma tool_call_absent: "\<not> contains ''tool_call]'' (lower s) \<Longrightarrow> search_from TOOL_CALL_OPEN [] s = None"
proof (rule requires_search)
  have "lower ''TOOL_CALL]'' = ''tool_call]''" by code_simp
  then have lit: "requires ''tool_call]'' (RSeq (ignore_case (rlit ''TOOL_CALL]'')) r)" for r
    using requires_lit [of "''TOOL_CALL]''" r] by (simp only:)
  show "requires ''tool_call]'' TOOL_CALL_OPEN"
    unfolding TOOL_CALL_OPEN_def rseq.simps ignore_case.simps by (rule requires_seq, rule lit)
qed

lemma find_at_absent: "\<not> contains w s \<Longrightarrow> find_at w s = None"
  by (induction s) auto

text \<open>
  The fenced code of a native model is inert. When fences are to be skipped, a reply with
  no markup of a call (no tag, no StepFun token, no JSON of a call, no panel command) runs nothing,
  whatever fences it has.
\<close>

theorem native_fences_inert:
  assumes "CHR ''<'' \<notin> set s" "\<not> contains ''tool_call]'' (lower s)" "\<not> contains (pe_begin env) s" "\<not> contains function_key s"
    "\<not> contains ''ui_control'' (lower s)"
  shows "parse_tool_blocks env s True = Inr []"
proof -
  note absent = lt_markup_absent [OF assms(1)] tool_call_absent [OF assms(2)] panel_absent [OF assms(5)]
  have "delimited_bodies op cl s = []" if "search_from op [] s = None" for op cl
    using that by (simp add: delimited_bodies_def iter_delimited.simps [of op])
  moreover have "re_finditer r s = []" if "search_from r [] s = None" for r
    using that by (simp add: re_finditer_def finditer_from.simps [of r])
  moreover have "iter_xml_invoke s = []"
    using absent(5) by (simp add: iter_xml_invoke_def iter_named_blocks_def iter_delimited.simps [of XML_INVOKE_OPEN])
  moreover have "iter_stepfun (pe_begin env) m e s = []" for m e
    by (simp add: iter_stepfun.simps [of "pe_begin env"] find_at_absent [OF assms(3)])
  ultimately have "markup_blocks env s = Inr []"
    by (simp add: markup_blocks_def or_else_def rsome_def invokes_in_def absent)
  then show ?thesis
    by (simp add: parse_tool_blocks_def normalize_absent [OF assms(1)] or_else_def rsome_def parse_raw_openai_tool_call_json_def
        assms(4) search_group_def absent)
qed

definition bare_env :: parse_env where
  "bare_env = \<lparr>je_loads = \<lambda>_. None, je_hex = \<lambda>_. None, pe_raw_decode = \<lambda>_. None, pe_call = \<lambda>_. None, pe_begin = ''<|begin|>'',
     pe_sep = ''<|sep|>'', pe_end = ''<|end|>'', pe_calls_begin = ''<|calls|>'', pe_calls_end = ''<|done|>'', pe_lower = lower\<rparr>"

theorem native_fences_inert_witness:
  "parse_tool_blocks bare_env (''You would run:'' @ newline @ fence @ ''bash'' @ newline @ ''rm -r build'' @ newline @ fence) True = Inr []"
  by (rule native_fences_inert) code_simp+

section \<open>Which tools a reply can run\<close>

definition named_tool :: "string \<Rightarrow> bool" where
  "named_tool t = (t \<in> set TOOL_TAGS \<or> starts_with ''mcp__'' t)"

lemma map_names_tools: "list_all (\<lambda>(n, t). t \<in> set TOOL_TAGS) TOOL_NAME_MAP"
  by code_simp

lemma own_tools: "''web_search'' \<in> set TOOL_TAGS" "''web_fetch'' \<in> set TOOL_TAGS" "''read_file'' \<in> set TOOL_TAGS" "''ui_control'' \<in> set TOOL_TAGS"
  by code_simp+

lemma own_named: "named_tool ''web_search''" "named_tool ''web_fetch''" "named_tool ''read_file''" "named_tool ''ui_control''"
  using own_tools by (simp_all only: named_tool_def simp_thms)

lemma dget_in: "dget d k = Some v \<Longrightarrow> (k, v) \<in> set d"
  by (rule map_of_SomeD)

lemma known_tool_named: "known_tool n = Some t \<Longrightarrow> named_tool t"
  using map_names_tools dget_in [of TOOL_NAME_MAP n t]
  by (auto simp: known_tool_def named_tool_def list_all_iff split: option.splits if_splits)

lemma alias_named: "dget TOOL_NAME_MAP n = Some t \<Longrightarrow> named_tool t"
  using known_tool_named [of n t] by (simp add: known_tool_def)

lemma email_named: "named_tool (email_prefix @ n)"
  by (simp add: named_tool_def email_prefix_def starts_with_def)

lemma to_block_named: "to_block env n a = Inr (Some (t, c)) \<Longrightarrow> named_tool t"
  unfolding to_block_def by (drule converted_block_known) (auto simp: named_tool_def email_prefix_def starts_with_def)

lemma rsome_in: "rsome f xs = Inr bs \<Longrightarrow> b \<in> set bs \<Longrightarrow> \<exists>x \<in> set xs. f x = Inr (Some b)"
proof (induction xs arbitrary: bs)
  case Nil
  then show ?case by (simp add: rsome_def)
next
  case (Cons x xs)
  from Cons.prems(1) obtain y cs where y: "f x = Inr y" and cs: "rsome f xs = Inr cs" and bs: "bs = (case y of None \<Rightarrow> [] | Some x \<Rightarrow> [x]) @ cs"
    by (auto simp: rsome_def elim!: rbind_InrE)
  with Cons.IH [OF cs] Cons.prems(2) show ?case by (auto split: option.splits)
qed

lemma tool_call_named: "parse_tool_call_block raw = Some (t, c) \<Longrightarrow> named_tool t"
  by (auto simp: parse_tool_call_block_def Let_def split: option.splits prod.splits if_splits dest: known_tool_named)

lemma formats_named:
  "parse_xml_invoke env nb = Inr (Some (t, c)) \<Longrightarrow> named_tool t" "parse_xml_direct_tool env nb = Inr (Some (t, c)) \<Longrightarrow> named_tool t"
  "parse_stepfun_tool_call env nb = Inr (Some (t, c)) \<Longrightarrow> named_tool t" "parse_gemma_tool_call env nb = Inr (Some (t, c)) \<Longrightarrow> named_tool t"
  "parse_function_model_call env body = Inr (Some (t, c)) \<Longrightarrow> named_tool t"
  by (auto simp: parse_xml_invoke_def parse_xml_direct_tool_def parse_stepfun_tool_call_def parse_gemma_tool_call_def
      parse_function_model_call_def with_body_def Let_def split: option.splits if_splits dest: to_block_named)

text \<open>The one format that lets a name through that stands for no tool.\<close>

lemma freeform_named: "freeform_tool_code n params body = Some (t, c) \<Longrightarrow> named_tool t \<or> dget TOOL_NAME_MAP t = None"
  by (cases "dget TOOL_NAME_MAP n") (auto simp: freeform_tool_code_def Let_def alias_named split: if_splits)

lemma attempt_named:
  "rbind (if c then Inr None else to_block env n args) (\<lambda>b. Inr (case b of Some _ \<Rightarrow> b | None \<Rightarrow> freeform_tool_code m params body)) = Inr (Some (t, v)) \<Longrightarrow>
     named_tool t \<or> dget TOOL_NAME_MAP t = None"
  by (cases c; cases "to_block env n args") (auto split: option.splits dest: freeform_named to_block_named)

lemma tool_code_named: "parse_tool_code_block env raw = Inr (Some (t, c)) \<Longrightarrow> named_tool t \<or> dget TOOL_NAME_MAP t = None"
  unfolding parse_tool_code_block_def Let_def by (cases "search_group TOOL_CODE_DECL raw") (simp, simp only: option.case, rule attempt_named)

lemma leaked_named: "leaked_call env d = Inr (Some (t, c)) \<Longrightarrow> named_tool t"
  by (auto simp: leaked_call_def Let_def email_named split: pyval.splits if_splits elim!: rbind_InrE) (simp_all add: named_tool_def)

lemma first_block_in: "first_block rs = Inr (Some b) \<Longrightarrow> Inr (Some b) \<in> set rs"
  by (induction rs) (auto elim!: rbind_InrE split: option.splits)

lemma raw_openai_named: "raw_openai_tool_call_to_block env v = Inr (Some (t, c)) \<Longrightarrow> named_tool t"
proof (induction v)
  case (PList xs)
  then obtain x where "x \<in> set xs" "raw_openai_tool_call_to_block env x = Inr (Some (t, c))" using first_block_in by fastforce
  with PList.IH show ?case by blast
next
  case (PDict d)
  then show ?case by (simp add: leaked_named)
qed simp_all

lemma scan_openai_named: "scan_openai env s = Inr (Some (t, c)) \<Longrightarrow> named_tool t"
  by (induction s) (auto split: if_splits option.splits elim!: rbind_InrE dest: raw_openai_named)

lemma raw_web_named: "parse_raw_web_json_lookup env s = Some ((t, c), i, j) \<Longrightarrow> named_tool t"
proof -
  have first: "first_of f xs = Some y \<Longrightarrow> \<exists>x \<in> set xs. f x = Some y" for f :: "'a \<Rightarrow> 'b option" and xs y
    by (induction xs) (auto split: option.splits)
  have w: "fst b = ''web_search''" if "raw_web_json_to_tool_block v = Some b" for v b
    using that by (auto simp: raw_web_json_to_tool_block_def Let_def split: pyval.splits option.splits if_splits)
  assume "parse_raw_web_json_lookup env s = Some ((t, c), i, j)"
  then have "t = ''web_search''"
    unfolding parse_raw_web_json_lookup_def
    by (auto dest!: first split: if_splits option.splits prod.splits simp: Let_def) (use w in fastforce)+
  then show ?thesis using own_named by simp
qed

section \<open>The tag of a fence\<close>

text \<open>A pattern without a group keeps what was captured.\<close>

primrec captures :: "regex \<Rightarrow> bool" where
  "captures REps = False"
| "captures (RSet P) = False"
| "captures (RSeq a b) = (captures a \<or> captures b)"
| "captures (RAlt a b) = (captures a \<or> captures b)"
| "captures (RRep lo hi a) = captures a"
| "captures (RLazy a) = captures a"
| "captures (RGroup a) = True"
| "captures RWordB = False"
| "captures RBegin = False"
| "captures RLineBegin = False"
| "captures REnd = False"
| "captures (RAhead P e) = False"
| "captures (RNotAhead P) = False"
| "captures (RNotBehind P) = False"
| "captures (RLook a) = False"

lemma captures_ignore_case: "captures (ignore_case r) = captures r"
  by (induction r) simp_all

lemma captures_lit: "\<not> captures (rlit w)"
proof (induction w)
  case (Cons c w)
  then show ?case by (cases w) (simp_all add: rlit_def)
qed (simp add: rlit_def)

lemma keeps_capture: "\<not> captures r \<Longrightarrow> q \<in> set (matches r p) \<Longrightarrow> captured q = captured p"
proof (induction r arbitrary: p q)
  case (RSeq a b)
  then obtain m where "m \<in> set (matches a p)" "q \<in> set (matches b m)" by (auto simp del: split_paired_Ex)
  with RSeq show ?case by simp
next
  case (RRep lo hi a)
  let ?R = "\<lambda>p q. captured q = captured p"
  from RRep have a: "\<And>p q. q \<in> set (matches a p) \<Longrightarrow> ?R p q" by simp
  from RRep obtain m where m: "m \<in> set (times lo (matches a) p)"
    and q: "q \<in> set (rounds (Suc (length (fst (snd m)))) (map_option (\<lambda>h. h - lo) hi) (matches a) m)"
    by (auto simp del: split_paired_Ex rounds.simps)
  have R: "\<And>p. ?R p p" "\<And>p q r. ?R p q \<Longrightarrow> ?R q r \<Longrightarrow> ?R p r" by simp_all
  from times_rel [of ?R, OF R a m] rounds_rel [of ?R, OF R a q] show ?case by simp
next
  case (RLazy a)
  let ?R = "\<lambda>p q. captured q = captured p"
  from RLazy have a: "\<And>p q. q \<in> set (matches a p) \<Longrightarrow> ?R p q" by simp
  from RLazy.prems(2) have q: "q \<in> set (lazy_rounds (Suc (length (fst (snd p)))) (matches a) p)" by (simp del: lazy_rounds.simps)
  have R: "\<And>p. ?R p p" "\<And>p q r. ?R p q \<Longrightarrow> ?R q r \<Longrightarrow> ?R p r" by simp_all
  from lazy_rel [of ?R, OF R a q] show ?case .
next
  case (RSet P)
  then show ?case by (cases p; cases "fst (snd p)") (auto simp: captured_def split: if_splits)
next
  case (RAlt a b)
  then show ?case by (simp, blast)
qed (auto simp: captured_def split: list.splits if_splits)

lemma match_in_words: "q \<in> set (matches (ignore_case (rwords ws)) p) \<Longrightarrow> \<exists>w \<in> set ws. q \<in> set (matches (ignore_case (rlit w)) p)"
proof (induction ws)
  case (Cons w ws)
  then show ?case by (cases ws) (auto simp: rwords_def simp del: split_paired_Ex)
qed (simp add: rwords_def split: prod.splits list.splits)

lemma tags_lower: "list_all (\<lambda>t. lower t = t) TOOL_TAGS"
  by code_simp

lemma seq_step: "q \<in> set (matches (RSeq a b) p) \<Longrightarrow> \<exists>m \<in> set (matches a p). q \<in> set (matches b m)"
  by simp

lemma tag_captured: "q \<in> set (matches (TOOL_BLOCK 1) p) \<Longrightarrow> lower (captured q) \<in> set TOOL_TAGS"
proof -
  assume q: "q \<in> set (matches (TOOL_BLOCK 1) p)"
  let ?R = "rseq [RNotAhead (\<lambda>c. is_word c \<or> c = CHR ''-''),
     rstar (RSet blank), ropt (RSeq (RSet (one_of ''{['')) (RLazy (RSet not_newline))), rstar (RSet blank),
     RLook (RAlt (RSeq (ropt (rlit [CHR 0x0D])) (rlit newline)) (rlit fence)),
     ropt (rlit [CHR 0x0D]), ropt (rlit newline), RLazy rany, rlit fence]"
  have b: "TOOL_BLOCK 1 = RSeq (ignore_case (rlit fence)) (RSeq (RGroup (ignore_case (rwords TOOL_TAGS))) (ignore_case ?R))"
    by (simp add: TOOL_BLOCK_def grouped_def)
  have R: "\<not> captures (ignore_case ?R)"
    by (simp add: captures_ignore_case captures_lit rstar_def ropt_def rany_def)
  from seq_step [OF q [unfolded b]] obtain m where "q \<in> set (matches (RSeq (RGroup (ignore_case (rwords TOOL_TAGS))) (ignore_case ?R)) m)" by blast
  from seq_step [OF this] obtain k where k: "k \<in> set (matches (RGroup (ignore_case (rwords TOOL_TAGS))) m)" and "q \<in> set (matches (ignore_case ?R) k)"
    by blast
  with keeps_capture [OF R] have "captured q = captured k" by blast
  moreover obtain l s g where ms: "m = (l, s, g)" by (cases m)
  with k obtain l' r h where lr: "(l', r, h) \<in> set (matches (ignore_case (rwords TOOL_TAGS)) (l, s, g))" "captured k = take (length s - length r) s"
    by (auto simp: captured_def)
  from match_in_words [OF lr(1)] obtain w where w: "w \<in> set TOOL_TAGS" "(l', r, h) \<in> set (matches (ignore_case (rlit w)) (l, s, g))" by blast
  from folded_lit [OF w(2)] obtain t where "s = t @ r" "lower t = lower w" by auto
  moreover have "lower w = w" using tags_lower w(1) by (auto simp: list_all_iff)
  ultimately show ?thesis using w(1) lr(2) by simp
qed

lemma finditer_matches: "(p, q) \<in> set (re_finditer r s) \<Longrightarrow> q \<in> set (matches r p)"
proof -
  have "(p, q) \<in> set (finditer_from r l s) \<Longrightarrow> q \<in> set (matches r p)" for l
  proof (induction "length s" arbitrary: l s rule: less_induct)
    case less
    from less.prems have "search_from r l s \<noteq> None" by (cases "search_from r l s") (simp_all add: finditer_from.simps [of r l s])
    then obtain a b where ab: "search_from r l s = Some (a, b)" by (cases "search_from r l s") auto
    with less.prems have "(p, q) = (a, b) \<or> length (unread b) < length s \<and> (p, q) \<in> set (finditer_from r (fst b) (unread b))"
      by (auto simp: finditer_from.simps [of r l s] split: if_splits)
    moreover obtain ms where "matches r a = b # ms" using search_from_SomeD [OF ab] by blast
    ultimately show ?case using less.hyps [of "unread b" "fst b"] by auto
  qed
  then show "(p, q) \<in> set (re_finditer r s) \<Longrightarrow> q \<in> set (matches r p)" unfolding re_finditer_def .
qed

lemma fence_tag: "((p, q), Some (tag, content)) \<in> set (fences loads s) \<Longrightarrow> tag \<in> set TOOL_TAGS"
proof -
  assume f: "((p, q), Some (tag, content)) \<in> set (fences loads s)"
  then obtain q2 q3 where pq: "(p, q) \<in> set (re_finditer (TOOL_BLOCK 1) s)"
    and c: "Some (tag, content) = fenced_tool_call loads (captured q) (captured q2) (captured q3)"
    unfolding fences_def by (auto dest: set_zip_leftD)
  from c have "tag = lower (captured q)" by (auto simp: fenced_tool_call_def Let_def split: if_splits)
  with tag_captured [OF finditer_matches [OF pq]] show ?thesis by simp
qed

lemma rmap_in: "rmap f xs = Inr ys \<Longrightarrow> y \<in> set ys \<Longrightarrow> \<exists>x \<in> set xs. f x = Inr y"
  by (induction xs arbitrary: ys) (auto elim!: rbind_InrE, blast?)

lemma invokes_named: "invokes_in env s = Inr bs \<Longrightarrow> (t, c) \<in> set bs \<Longrightarrow> named_tool t"
  unfolding invokes_in_def by (drule (1) rsome_in) (auto dest: formats_named)

lemma directs_named: "directs_in env s = Inr bs \<Longrightarrow> (t, c) \<in> set bs \<Longrightarrow> named_tool t"
  unfolding directs_in_def by (drule (1) rsome_in) (auto dest: formats_named)

lemma web_lookup_named: "parse_misfenced_web_lookup env content = Some (t, c) \<Longrightarrow> named_tool t"
  by (auto simp: parse_misfenced_web_lookup_def web_lookup_def Let_def own_named split: option.splits if_splits list.splits)

lemma read_lookup_named: "parse_misfenced_read_file_lookup env shell content = Inr (Some (t, c)) \<Longrightarrow> named_tool t"
  by (auto simp: parse_misfenced_read_file_lookup_def read_file_shell_def read_file_object_def Let_def own_named
      split: option.splits if_splits list.splits pyval.splits dest: to_block_named)

lemma fence_named: "fence_blocks env (Some (tag, content)) = Inr bs \<Longrightarrow> tag \<in> set TOOL_TAGS \<Longrightarrow> (t, c) \<in> set bs \<Longrightarrow> named_tool t"
proof -
  assume f: "fence_blocks env (Some (tag, content)) = Inr bs" and tag: "tag \<in> set TOOL_TAGS" and b: "(t, c) \<in> set bs"
  have tagged: "named_tool tag" using tag by (simp add: named_tool_def)
  show ?thesis
  proof (cases "content = [] \<or> contains ''<invoke'' content")
    case True
    with f b tagged show ?thesis by (auto simp: fence_blocks_def invokes_named split: if_splits)
  next
    case False
    with f b tagged show ?thesis
      by (auto simp: fence_blocks_def split: if_splits option.splits elim!: rbind_InrE dest: web_lookup_named read_lookup_named)
  qed
qed

lemma wrapped_named:
  "wrapped_blocks env bodies found = Inr bs \<Longrightarrow> (\<And>t c. (t, c) \<in> set found \<Longrightarrow> named_tool t) \<Longrightarrow> (t, c) \<in> set bs \<Longrightarrow> named_tool t"
proof (induction bodies arbitrary: found)
  case (Cons body bodies)
  from Cons.prems(1) obtain cs where cs: "invokes_in env body = Inr cs" and
    r: "(if found @ cs \<noteq> [] then wrapped_blocks env bodies (found @ cs) else rbind (directs_in env body) (wrapped_blocks env bodies)) = Inr bs"
    by (auto simp: Let_def elim!: rbind_InrE)
  have named: "(t, c) \<in> set (found @ cs) \<Longrightarrow> named_tool t" for t c using Cons.prems(2) invokes_named [OF cs] by auto
  show ?case
  proof (cases "found @ cs = []")
    case False
    with r have "wrapped_blocks env bodies (found @ cs) = Inr bs" by (simp only: simp_thms if_True)
    from Cons.IH [OF this named Cons.prems(3)] show ?thesis .
  next
    case True
    with r obtain ds where ds: "directs_in env body = Inr ds" "wrapped_blocks env bodies ds = Inr bs"
      by (auto elim!: rbind_InrE)
    from Cons.IH [OF ds(2) directs_named [OF ds(1)] Cons.prems(3)] show ?thesis .
  qed
qed simp

lemma open_named:
  "open_blocks env bodies found = Inr bs \<Longrightarrow> (\<And>t c. (t, c) \<in> set found \<Longrightarrow> named_tool t) \<Longrightarrow> (t, c) \<in> set bs \<Longrightarrow> named_tool t"
proof (induction bodies arbitrary: found)
  case (Cons body bodies)
  from Cons.prems(1) obtain cs where cs: "invokes_in env body = Inr cs" and
    r: "(if found @ cs \<noteq> [] then Inr (found @ cs) else rbind (directs_in env body) (open_blocks env bodies)) = Inr bs"
    by (auto elim!: rbind_InrE)
  have named: "(t, c) \<in> set (found @ cs) \<Longrightarrow> named_tool t" for t c using Cons.prems(2) invokes_named [OF cs] by auto
  show ?case
  proof (cases "found @ cs = []")
    case False
    with r have "found @ cs = bs" by (simp only: simp_thms if_True sum.inject)
    with named Cons.prems(3) show ?thesis by blast
  next
    case True
    with r obtain ds where ds: "directs_in env body = Inr ds" "open_blocks env bodies ds = Inr bs"
      by (auto elim!: rbind_InrE)
    from Cons.IH [OF ds(2) directs_named [OF ds(1)] Cons.prems(3)] show ?thesis .
  qed
qed simp

text \<open>What holds for the blocks of each format holds for those of the formats in turn.\<close>

definition yields :: "(block \<Rightarrow> bool) \<Rightarrow> block list result \<Rightarrow> bool" where
  "yields P r = (case r of Inr bs \<Rightarrow> list_all P bs | Inl _ \<Rightarrow> True)"

lemma yieldsI: "(\<And>bs t c. r = Inr bs \<Longrightarrow> (t, c) \<in> set bs \<Longrightarrow> P (t, c)) \<Longrightarrow> yields P r"
  by (auto simp: yields_def list_all_iff split: sum.splits)

lemma yields_or_else: "yields P r \<Longrightarrow> yields P next_format \<Longrightarrow> yields P (or_else r next_format)"
  by (cases r) (auto simp: yields_def or_else_def)

lemma yields_rsome: "(\<And>x t c. x \<in> set xs \<Longrightarrow> f x = Inr (Some (t, c)) \<Longrightarrow> P (t, c)) \<Longrightarrow> yields P (rsome f xs)"
  by (rule yieldsI) (drule (1) rsome_in, blast)

definition from_tool_code :: "parse_env \<Rightarrow> string \<Rightarrow> block \<Rightarrow> bool" where
  "from_tool_code env s b =
     (dget TOOL_NAME_MAP (fst b) = None \<and>
      list_ex (\<lambda>body. parse_tool_code_block env body = Inr (Some b)) (delimited_bodies TOOL_CODE_OPEN TOOL_CODE_CLOSE s))"

lemma markup_named: "yields (\<lambda>b. named_tool (fst b) \<or> from_tool_code env s b) (markup_blocks env s)"
  unfolding markup_blocks_def
proof (intro yields_or_else)
  show "yields (\<lambda>b. named_tool (fst b) \<or> from_tool_code env s b) (rsome (parse_tool_code_block env) (delimited_bodies TOOL_CODE_OPEN TOOL_CODE_CLOSE s))"
    by (rule yields_rsome) (auto simp: from_tool_code_def list_ex_iff dest: tool_code_named)
qed (auto intro!: yieldsI dest!: rsome_in dest: tool_call_named formats_named wrapped_named open_named invokes_named)

lemma fences_named: "yields (\<lambda>b. named_tool (fst b)) (rbind (rmap (\<lambda>(span, call). fence_blocks env call) (fences loads s)) (\<lambda>bs. Inr (concat bs)))"
proof (rule yieldsI)
  fix bs t c
  assume "rbind (rmap (\<lambda>(span, call). fence_blocks env call) (fences loads s)) (\<lambda>bs. Inr (concat bs)) = Inr bs" and b: "(t, c) \<in> set bs"
  then obtain bss where "rmap (\<lambda>(span, call). fence_blocks env call) (fences loads s) = Inr bss" "bs = concat bss" by (auto elim!: rbind_InrE)
  moreover from this(2) b obtain cs where "cs \<in> set bss" "(t, c) \<in> set cs" by auto
  ultimately obtain span call where sc: "(span, call) \<in> set (fences loads s)" "fence_blocks env call = Inr cs" using rmap_in by fastforce
  show "named_tool (fst (t, c))"
  proof (cases call)
    case None
    with sc(2) \<open>(t, c) \<in> set cs\<close> show ?thesis by (simp add: fence_blocks_def)
  next
    case (Some tc)
    obtain tag content where tc: "tc = (tag, content)" by (cases tc)
    obtain p q where "span = (p, q)" by (cases span)
    with sc Some tc have "tag \<in> set TOOL_TAGS" using fence_tag by blast
    with fence_named [of env tag content cs t c] sc(2) Some tc \<open>(t, c) \<in> set cs\<close> show ?thesis by simp
  qed
qed

text \<open>
  A reply can only name tools that exist. Every block that any of the formats yields is for a
  tool that the loop dispatches or for an MCP tool, with one exception: a \<open>tool_code\<close> block whose name
  is in no table keeps that name.
\<close>

theorem parsed_block_known:
  assumes "parse_tool_blocks env reply skip_fenced = Inr bs" "(t, c) \<in> set bs"
  shows "t \<in> set TOOL_TAGS \<or> starts_with ''mcp__'' t \<or> from_tool_code env (normalize_dsml reply) (t, c)"
proof -
  let ?P = "\<lambda>b. named_tool (fst b) \<or> from_tool_code env (normalize_dsml reply) b"
  have weaken: "yields ?P r" if "yields (\<lambda>b. named_tool (fst b)) r" for r
    using that by (auto simp: yields_def list_all_iff split: sum.splits)
  have "yields ?P (parse_tool_blocks env reply skip_fenced)"
    unfolding parse_tool_blocks_def Let_def
  proof (intro yields_or_else markup_named)
    show "yields ?P (if skip_fenced then Inr [] else rbind (rmap (\<lambda>(span, call). fence_blocks env call) (fences (je_loads env) (normalize_dsml reply))) (\<lambda>bs. Inr (concat bs)))"
      using weaken [OF fences_named] by (simp add: yields_def)
    show "yields ?P (rsome (parse_raw_openai_tool_call_json env) [normalize_dsml reply])"
      by (rule weaken, rule yields_rsome) (auto simp: parse_raw_openai_tool_call_json_def split: if_splits dest: scan_openai_named)
    show "yields ?P (Inr (if skip_fenced then [] else case parse_raw_web_json_lookup env (normalize_dsml reply) of None \<Rightarrow> [] | Some (b, _) \<Rightarrow> [b]))"
      by (rule weaken, rule yieldsI) (auto split: if_splits option.splits dest: raw_web_named)
    show "yields ?P (Inr (case search_group PLAIN_UI_OPEN_PANEL (normalize_dsml reply) of None \<Rightarrow> [] | Some g \<Rightarrow> [(''ui_control'', PStr (''open_panel '' @ lower g))]))"
      by (rule weaken) (simp add: yields_def own_named split: option.splits)
  qed
  with assms show ?thesis by (auto simp: yields_def list_all_iff named_tool_def)
qed

section \<open>Where the parser does not do what it says\<close>

text \<open>An empty fence is classified as a call, so it is cut from what is shown; but nothing is run.\<close>

lemma empty_fence_vanishes:
  "fenced_tool_call loads ''bash'' [] newline = Some (''bash'', [])" "fence_blocks env (Some (''bash'', [])) = Inr []"
proof -
  have "strip newline = []" "strip [] = []" "lower ''bash'' = ''bash''" by code_simp+
  then show "fenced_tool_call loads ''bash'' [] newline = Some (''bash'', [])" by (simp add: fenced_tool_call_def Let_def)
  have "''bash'' \<notin> set BUILTIN_EMAIL_TOOLS" by code_simp
  then show "fence_blocks env (Some (''bash'', [])) = Inr []" by (simp add: fence_blocks_def)
qed

text \<open>The arguments of a leaked call may be of any type, and a missing check makes the parser raise.\<close>

lemma leaked_null_path_raises:
  "leaked_call env [(''function'', PDict [(''name'', PStr ''write_file''), (''arguments'', PDict [(''path'', PNone)])])] = Inl (TypeError ''str'')"
proof -
  have t: "tool_type_of ''write_file'' = ''write_file''" "''write_file'' \<notin> set BUILTIN_EMAIL_TOOLS" "''write_file'' \<in> set TOOL_TAGS"
    "\<not> starts_with ''mcp__'' ''write_file''" "strip ''write_file'' = ''write_file''" by code_simp+
  have "leaked_content ''write_file'' [(''path'', PNone)] = Inl (TypeError ''str'')" by code_simp
  with t show ?thesis
    by (simp add: leaked_call_def pget_def py_or_def str_or_def leaked_arguments_def Let_def del: starts_with_Cons)
qed

text \<open>The name of an MCP tool loses the prefix by which it would be dispatched.\<close>

lemma mcp_prefix_lost:
  "drop_prefix (''mcp__'' @ n) = n"
  "freeform_tool_code (drop_prefix ''mcp__email__list_emails'') [] ''{}'' = Some (''email__list_emails'', PStr ''{}'')"
proof -
  show "drop_prefix (''mcp__'' @ n) = n" by (simp add: drop_prefix_def starts_with_def)
  show "freeform_tool_code (drop_prefix ''mcp__email__list_emails'') [] ''{}'' = Some (''email__list_emails'', PStr ''{}'')" by code_simp
qed

end
