(* ===== verification/Spec2Isabelle.thy ===== *)
theory Spec2Isabelle
  imports ActionProtocol AuthorityStore AgentRuns BgJobs RateLimiter WorkerBroker Auth Operational ToolPolicy
    ContextBudget InteractiveGate Learning AgentIdentities
    LlmStream LlmGate LlmMessages PromptSecurity ContextTrim AgentLoop ExtRuns TaskScheduler ParsedBlocks
begin

text \<open>
  A verification library for the server side of Pandamonium, a self-hosted assistant whose agent
  calls tools, delegates tasks to workers, and learns procedures under the control of an operator.
  It models the modules that decide: who may do what, which call runs, what is kept, and when
  something ends. Every definition is translated from the Python source and evaluates; every
  theorem is about those definitions.

  \<^bold>\<open>The program's parts and how they interact.\<close> A turn of the agent builds a tool policy and
  proposes tool calls. A call is put into the envelope of the action protocol, validated against
  its schema, passed through the gates of the executor, and classified by the authority protocol,
  whose store allows it, denies it, or waits for an operator. Work that outlives a request runs as
  a detached agent run, a background job, or a task of a remote worker; background work as a whole
  waits until the foreground is quiet. What happened is recorded as an operational event; what was
  learnt is a candidate that is promoted on evidence. Tasks run when their schedule is due, when
  events have been counted, or after another task. Extensions add tools, which a registry file admits
  and a turn mounts. Accounts, their sessions and privileges
  underlie all of it.

  \<^bold>\<open>Theories and the source they model.\<close> Paths are below \<open>src/\<close> of the repository.
  \<^item> \<open>Prelude\<close>: dictionaries in insertion order (association lists with \<open>AList.update\<close>),
    exceptions as values (\<open>py_exc + 'a\<close>), runs of a step function, and the interfaces: the locale of
    dictionaries, of systems with a guard, with an invariant, and of tables with final statuses.
    Each component interprets the ones it provides on its own operations, and its properties over
    runs rest on the facts of the interpretation.
  \<^item> \<open>PyValue\<close>: JSON-like values with truth value, \<open>str\<close>, \<open>repr\<close>, equality, \<open>json.dumps\<close> and the
    methods of strings. \<open>PyText\<close>: searching and replacing in texts. \<open>PyRegex\<close>: the regular
    expressions in use, as a backtracking matcher with \<open>search\<close>, \<open>sub\<close> and \<open>split\<close>.
    \<open>PyScan\<close>: what literals and lazy repetitions match, \<open>finditer\<close>, and the forward scan for a pair
    of delimiters (\<open>_iter_delimited\<close> of \<open>src/tool_parsing.py\<close>), which is the lazy pattern it replaces.
  \<^item> \<open>ActionProtocol\<close> (\<open>src/action_protocol.py\<close>): the catalog, the validation of arguments, the
    normalized result.
  \<^item> \<open>AuthorityPolicy\<close> and \<open>AuthorityStore\<close> (\<open>src/authority_protocol.py\<close>): classification and
    redaction; the ledger of decisions, approvals and receipts, with \<open>decide\<close> split at its two
    critical sections so that concurrent calls interleave.
  \<^item> \<open>Auth\<close> (\<open>core/auth.py\<close>): accounts, privileges, second factor, sessions, migrations; deletion and
    renaming are two steps, as their two locks make them.
  \<^item> \<open>ToolPolicy\<close> (\<open>src/tool_security.py\<close>, \<open>src/tool_policy.py\<close>, \<open>src/task_action_policy.py\<close>,
    \<open>src/worker_routing.py\<close> and the gates of \<open>src/tool_execution.py\<close>).
  \<^item> \<open>RateLimiter\<close> (\<open>src/rate_limiter.py\<close>), \<open>BgJobs\<close> (\<open>src/bg_jobs.py\<close>), \<open>AgentRuns\<close>
    (\<open>src/agent_runs.py\<close>, split at the suspension points of the event loop), \<open>WorkerBroker\<close>
    (\<open>src/agent_worker_broker.py\<close> with the rules of \<open>src/agent_worker_adapters.py\<close>),
    \<open>InteractiveGate\<close> (\<open>src/interactive_gate.py\<close>), \<open>ContextBudget\<close> (\<open>src/context_budget.py\<close>).
  \<^item> \<open>Operational\<close> (\<open>src/operational_protocol.py\<close>) and \<open>Learning\<close> (\<open>src/learning_protocol.py\<close>).
  \<^item> \<open>AgentIdentities\<close> (\<open>src/agent_identities.py\<close>, \<open>src/agent_identity.py\<close>): the file of saved
    identities with their model profiles, and which identity a turn has.
  \<^item> \<open>LlmGate\<close>, \<open>LlmMessages\<close>, \<open>LlmStream\<close> (\<open>src/llm_core.py\<close>): dead hosts, the response cache and
    the slot of the local model; the repair of a conversation before it is sent; the router of
    channels, the guard against degenerate streams and the fallback chains.
  \<^item> \<open>PromptSecurity\<close> (\<open>src/prompt_security.py\<close>): the block that text which is not trusted stands in.
  \<^item> \<open>ContextTags\<close> (\<open>src/model_context.py\<close>), \<open>ToolProjection\<close> (\<open>src/tool_result_projection.py\<close>),
    \<open>ContextTrim\<close> (\<open>src/context_compactor.py\<close>): the class, trust and length of messages, the
    projection of large results, and what is dropped, shrunk or summarized to fit a window.
  \<^item> \<open>AgentLoop\<close> (\<open>src/agent_loop.py\<close>): the removal of reasoning, the breaker of repeated calls,
    and what a round puts into the conversation.
  \<^item> \<open>ToolBlocks\<close> (\<open>src/tool_schemas.py\<close>, \<open>src/agent_tools/__init__.py\<close>,
    \<open>src/agent_tools/document_tools.py\<close>): the names of the tools, what a native call becomes, and the
    blocks of edits and suggestions. \<open>ToolParsing\<close> (\<open>src/tool_parsing.py\<close>): the calls that stand in the
    text of a reply in one of a dozen formats, and the text without them. \<open>ParsedBlocks\<close>: what that parser yields.
  \<^item> \<open>ExtManifest\<close>, \<open>ExtRegistry\<close>, \<open>ExtRuns\<close> (\<open>src/extension_registry.py\<close>,
    \<open>src/extension_capability_inventory.py\<close>, \<open>src/extension_agent_mount.py\<close>): the strict manifest of an
    extension, its inventory and record in the registry file, and what of it a turn mounts.
  \<^item> \<open>TaskCalendar\<close>, \<open>TaskScheduler\<close> (\<open>src/task_scheduler.py\<close>, \<open>src/event_bus.py\<close>): the proleptic
    calendar and the next run of a schedule; the rows of tasks and runs, and the coroutines that
    execute them, split where they suspend, with dispatch, events, chains, stopping and every way an
    execution ends.

  \<^bold>\<open>What the lemmas show.\<close> Each theory gives the definitions in the order of the code, then an
  invariant with one preservation lemma per operation, then its properties over every run.
  The validations of \<open>ExtManifest\<close> and \<open>ExtRegistry\<close> have one lemma per section that says that their
  result is a normal form (\<open>normal_manifest\<close>, \<open>sound_record\<close>), from which the registry file is
  shown to be a table. Properties that span components: \<open>ToolPolicy\<close> shows that the two notions of
  an administrator agree on every account state that \<open>Auth\<close> reaches; \<open>InteractiveGate\<close> shows that a
  run which \<open>AgentRuns\<close> leaves running blocks background work for ever; \<open>AgentLoop\<close> shows that what a
  round appends survives the repair of \<open>LlmMessages\<close>; \<open>ParsedBlocks\<close> shows that the blocks of every format are for
  tools that \<open>ToolBlocks\<close> names; \<open>TaskScheduler\<close> asks \<open>ToolPolicy\<close> who may run an
  action of the administrator and \<open>TaskCalendar\<close> when a task runs again; \<open>ContextTrim\<close> rests on the classes of
  \<open>ContextTags\<close>; \<open>Learning\<close> and \<open>Operational\<close> share the redaction of \<open>AuthorityPolicy\<close>, and no
  credential passes it at any depth. Where the code does not do what it means to, a theorem gives
  the run that shows it.

  \<^bold>\<open>Parameters.\<close> Moments and durations are integers in microseconds. Digests, fresh identifiers and
  random texts, \<open>json.loads\<close>, \<open>realpath\<close>, bcrypt and TOTP, \<open>urlsplit\<close>, the answers of models, workers,
  processes and files, the zones of \<open>zoneinfo\<close> and \<open>croniter\<close> are arguments or fields of an environment record; theorems hold for all of
  them, except that some ask for identifiers that were drawn distinct or digests of the right
  length. A float is the text of its \<open>repr\<close>, but for the products of token arithmetic, which are
  computed as IEEE 754 rounds them; what \<open>int()\<close> gives for a finite float is a parameter where a schema
  may have one as its limit. Text is Latin-1. Where a function cuts a text at positions of its lower
  case, as the removals of reasoning and of bare calls do, \<open>str.lower\<close> is a parameter, and what holds only where it keeps the
  positions says so.

  \<^bold>\<open>Bounds and fuel.\<close> The regular-expression matcher takes one round more than the rest of the
  subject is long, and a round that consumes nothing ends a repetition, so the fuel is never used
  up. Recursion over nested values ends by their size or their depth. Loops that wait are functions
  of the list of what their rounds observe. The search for a fresh identity name tries as many
  suffixes as there are names and one more. The test for a cycle of chained tasks follows ten links,
  as the code does.

  \<^bold>\<open>Not modelled.\<close> The wire formats of model providers, the streaming and routing of a turn around
  the modelled pieces of the agent's loop, the dispatched tools, the executors of scheduled tasks and
  the delivery of their results, commits that fail, databases, vector stores, mail,
  calendars, media and speech: input and output around services and libraries. The static scan and
  the installation of extensions run processes and containers; their execution is that of the
  adapters. HTTP routes parse requests and call the modelled managers. The browser front end is
  JavaScript.
\<close>

end
